(* ===== verification/Prelude.thy ===== *)
theory Prelude
  imports
    Main
    "HOL-Library.Word"
    "HOL-Library.Char_ord"
    "HOL-Library.List_Lexorder"
    "HOL-Library.Product_Lexorder"
begin

text \<open>
  Shared vocabulary of the development.

  \<^item> The return codes of the C API (\<open>cphidgetconstants.h\<close>) as a datatype, and the
    \<open>unknown\<close>/\<open>uninitialised\<close> markers the device structures store in their fields.
  \<^item> Results of C code that can do something undefined: \<open>'a cres\<close> is a sum, \<open>Inl\<close> for a
    memory error (a read or write outside an object, a stale pointer), \<open>Inr\<close> for a result.
  \<^item> Allocation: a list of booleans says which of the coming \<open>malloc\<close> calls succeed.
  \<^item> C strings as \<open>string\<close> without the NUL character, with \<open>strcmp\<close> and the character
    classes of \<open>ctype.h\<close> in the C locale.
  \<^item> Three interfaces as locales: a comparison function that follows the order of a key
    (\<open>key_compare\<close>), a machine whose steps keep an invariant (\<open>machine\<close>), and a text
    codec (\<open>codec\<close>).
\<close>

unbundle bit_operations_syntax

named_theorems mem_simps "evaluation of heap reads, heap writes and allocation"
named_theorems inv_intros "introduction rules that keep an invariant"

section \<open>Return codes and marker values\<close>

datatype ecode =
    EPHIDGET_OK | EPHIDGET_NOTFOUND | EPHIDGET_NOMEMORY | EPHIDGET_UNEXPECTED
  | EPHIDGET_INVALIDARG | EPHIDGET_NOTATTACHED | EPHIDGET_INTERRUPTED | EPHIDGET_INVALID
  | EPHIDGET_NETWORK | EPHIDGET_UNKNOWNVAL | EPHIDGET_BADPASSWORD | EPHIDGET_UNSUPPORTED
  | EPHIDGET_DUPLICATE | EPHIDGET_TIMEOUT | EPHIDGET_OUTOFBOUNDS | EPHIDGET_EVENT
  | EPHIDGET_NETWORK_NOTCONNECTED | EPHIDGET_WRONGDEVICE | EPHIDGET_CLOSED
  | EPHIDGET_BADVERSION | EPHIDGET_TRYAGAIN

definition ecode_list :: "ecode list" where
  "ecode_list =
     [EPHIDGET_OK, EPHIDGET_NOTFOUND, EPHIDGET_NOMEMORY, EPHIDGET_UNEXPECTED,
      EPHIDGET_INVALIDARG, EPHIDGET_NOTATTACHED, EPHIDGET_INTERRUPTED, EPHIDGET_INVALID,
      EPHIDGET_NETWORK, EPHIDGET_UNKNOWNVAL, EPHIDGET_BADPASSWORD, EPHIDGET_UNSUPPORTED,
      EPHIDGET_DUPLICATE, EPHIDGET_TIMEOUT, EPHIDGET_OUTOFBOUNDS, EPHIDGET_EVENT,
      EPHIDGET_NETWORK_NOTCONNECTED, EPHIDGET_WRONGDEVICE, EPHIDGET_CLOSED,
      EPHIDGET_BADVERSION, EPHIDGET_TRYAGAIN]"

fun ecode_num :: "ecode \<Rightarrow> int" where
  "ecode_num EPHIDGET_OK = 0"
| "ecode_num EPHIDGET_NOTFOUND = 1"
| "ecode_num EPHIDGET_NOMEMORY = 2"
| "ecode_num EPHIDGET_UNEXPECTED = 3"
| "ecode_num EPHIDGET_INVALIDARG = 4"
| "ecode_num EPHIDGET_NOTATTACHED = 5"
| "ecode_num EPHIDGET_INTERRUPTED = 6"
| "ecode_num EPHIDGET_INVALID = 7"
| "ecode_num EPHIDGET_NETWORK = 8"
| "ecode_num EPHIDGET_UNKNOWNVAL = 9"
| "ecode_num EPHIDGET_BADPASSWORD = 10"
| "ecode_num EPHIDGET_UNSUPPORTED = 11"
| "ecode_num EPHIDGET_DUPLICATE = 12"
| "ecode_num EPHIDGET_TIMEOUT = 13"
| "ecode_num EPHIDGET_OUTOFBOUNDS = 14"
| "ecode_num EPHIDGET_EVENT = 15"
| "ecode_num EPHIDGET_NETWORK_NOTCONNECTED = 16"
| "ecode_num EPHIDGET_WRONGDEVICE = 17"
| "ecode_num EPHIDGET_CLOSED = 18"
| "ecode_num EPHIDGET_BADVERSION = 19"
| "ecode_num EPHIDGET_TRYAGAIN = 0x8000"

lemma ecode_num_inj: "ecode_num a = ecode_num b \<Longrightarrow> a = b"
  by (cases a; cases b) simp_all

text \<open>The codes are ordered as the integers the C code returns.\<close>

instantiation ecode :: linorder
begin

definition less_eq_ecode :: "ecode \<Rightarrow> ecode \<Rightarrow> bool" where
  "less_eq_ecode a b \<longleftrightarrow> ecode_num a \<le> ecode_num b"

definition less_ecode :: "ecode \<Rightarrow> ecode \<Rightarrow> bool" where
  "less_ecode a b \<longleftrightarrow> ecode_num a < ecode_num b"

instance
  by standard (auto simp: less_eq_ecode_def less_ecode_def intro: ecode_num_inj)

end

abbreviation (input) PUNK_BOOL :: int where "PUNK_BOOL \<equiv> 2"
abbreviation (input) PUNI_BOOL :: int where "PUNI_BOOL \<equiv> 3"
abbreviation (input) PFALSE :: int where "PFALSE \<equiv> 0"
abbreviation (input) PTRUE :: int where "PTRUE \<equiv> 1"
abbreviation (input) PUNK_INT :: int where "PUNK_INT \<equiv> 2147483647"
abbreviation (input) PUNI_INT :: int where "PUNI_INT \<equiv> 2147483646"

section \<open>Undefined behaviour and allocation\<close>

datatype c_fault =
    Out_Of_Bounds   \<comment> \<open>access outside an array or behind the end of a string\<close>
  | Bad_Pointer     \<comment> \<open>dereference of NULL or of freed memory\<close>
  | Assert_Failed   \<comment> \<open>a false \<open>assert\<close>, or \<open>abort\<close>\<close>
  | Divide_By_Zero
  | Waits_Forever   \<comment> \<open>a wait for something that nobody does\<close>

type_synonym 'a cres = "c_fault + 'a"

type_synonym memory = "bool list"

fun alloc :: "memory \<Rightarrow> bool \<times> memory" where
  "alloc [] = (True, [])"
| "alloc (b # bs) = (b, bs)"

abbreviation ok :: "'a cres \<Rightarrow> bool" where
  "ok r \<equiv> (\<exists>x. r = Inr x)"

text \<open>Sequencing: a fault ends the computation, a result is handed on.\<close>

definition cbind :: "'a cres \<Rightarrow> ('a \<Rightarrow> 'b cres) \<Rightarrow> 'b cres" where
  "cbind m f = (case m of Inl e \<Rightarrow> Inl e | Inr x \<Rightarrow> f x)"

lemma cbind_simps [simp]: "cbind (Inl e) f = Inl e" "cbind (Inr x) f = f x"
  by (simp_all add: cbind_def)

lemma cbind_cong [fundef_cong]:
  "m = m' \<Longrightarrow> (\<And>x. m' = Inr x \<Longrightarrow> f x = f' x) \<Longrightarrow> cbind m f = cbind m' f'"
  by (cases m') (simp_all add: cbind_def)

lemma cbind_Inr_right: "cbind m Inr = m"
  by (cases m) simp_all

lemma cbind_Inr [simp]: "cbind m f = Inr y \<longleftrightarrow> (\<exists>x. m = Inr x \<and> f x = Inr y)"
  by (cases m) simp_all

text \<open>
  Addresses are natural numbers with 0 for NULL; a heap maps the live addresses to their
  objects. Reading or releasing an address that is not live is a fault.
\<close>

type_synonym addr = nat
type_synonym 'n heap = "addr \<Rightarrow> 'n option"

abbreviation (input) NULL :: addr where "NULL \<equiv> 0"

definition deref :: "'n heap \<Rightarrow> addr \<Rightarrow> 'n cres" where
  "deref h a = (case h a of None \<Rightarrow> Inl Bad_Pointer | Some x \<Rightarrow> Inr x)"

definition release :: "'n heap \<Rightarrow> addr \<Rightarrow> 'n heap cres" where
  "release h a = (case h a of None \<Rightarrow> Inl Bad_Pointer | Some _ \<Rightarrow> Inr (h(a := None)))"

definition upd :: "'n heap \<Rightarrow> addr \<Rightarrow> ('n \<Rightarrow> 'n) \<Rightarrow> 'n heap cres" where
  "upd h a f = (case h a of None \<Rightarrow> Inl Bad_Pointer | Some x \<Rightarrow> Inr (h(a \<mapsto> f x)))"

lemma upd_live [mem_simps]: "h a = Some x \<Longrightarrow> upd h a f = Inr (h(a \<mapsto> f x))"
  by (simp add: upd_def)

lemma deref_live [mem_simps]: "h a = Some x \<Longrightarrow> deref h a = Inr x"
  by (simp add: deref_def)

lemma deref_dead [mem_simps]: "h a = None \<Longrightarrow> deref h a = Inl Bad_Pointer"
  by (simp add: deref_def)

lemma release_live [mem_simps]: "h a = Some x \<Longrightarrow> release h a = Inr (h(a := None))"
  by (simp add: release_def)

text \<open>
  Loops and recursions that need not end on an arbitrary heap return \<open>None\<close> when they do
  not return; their sequencing is \<open>obind\<close>.
\<close>

type_synonym 'a run = "'a cres option"

definition obind :: "'a run \<Rightarrow> ('a \<Rightarrow> 'b run) \<Rightarrow> 'b run" where
  "obind m f = Option.bind m (\<lambda>r. case r of Inl e \<Rightarrow> Some (Inl e) | Inr x \<Rightarrow> f x)"

lemma obind_simps [simp]:
  "obind None f = None" "obind (Some (Inl e)) f = Some (Inl e)" "obind (Some (Inr x)) f = f x"
  by (simp_all add: obind_def)

lemma obind_eq_InrD:
  "obind m f = Some (Inr y) \<Longrightarrow> \<exists>x. m = Some (Inr x) \<and> f x = Some (Inr y)"
  by (cases m; (cases "the m")?) auto

lemma obind_mono [partial_function_mono]:
  assumes m: "mono_option m" and f: "\<And>x. mono_option (\<lambda>g. f x g)"
  shows "mono_option (\<lambda>g. obind (m g) (\<lambda>x. f x g))"
proof -
  have "mono_option (\<lambda>g. case y of Inl e \<Rightarrow> Some (Inl e) | Inr x \<Rightarrow> f x g)" for y
    by (cases y) (simp_all add: f option.const_mono)
  then show ?thesis
    unfolding obind_def by (intro bind_mono m)
qed

section \<open>Integers of 32 bits\<close>

text \<open>What an \<open>int\<close> holds after a wider value has been stored in it, as the compilers of the targets cut it.\<close>

definition int32 :: "int \<Rightarrow> int" where
  "int32 i = (i + 2 ^ 31) mod 2 ^ 32 - 2 ^ 31"

lemma int32_id: "- (2 ^ 31) \<le> i \<Longrightarrow> i < 2 ^ 31 \<Longrightarrow> int32 i = i"
  by (simp add: int32_def)

section \<open>C strings\<close>

abbreviation NUL :: char where "NUL \<equiv> CHR 0x00"

text \<open>The NUL-terminated text at the start of a character array.\<close>

definition c_str :: "string \<Rightarrow> string" where
  "c_str s = takeWhile (\<lambda>c. c \<noteq> NUL) s"

definition nul_free :: "string \<Rightarrow> bool" where
  "nul_free s \<longleftrightarrow> NUL \<notin> set s"

lemma c_str_nul_free [simp]: "nul_free s \<Longrightarrow> c_str s = s"
  by (auto simp: nul_free_def c_str_def takeWhile_eq_all_conv)

lemma nul_free_c_str [simp]: "nul_free (c_str s)"
  by (auto simp: nul_free_def c_str_def dest: set_takeWhileD)

lemma nul_free_simps [simp]:
  "nul_free []" "nul_free (c # s) \<longleftrightarrow> c \<noteq> NUL \<and> nul_free s"
  "nul_free (s @ t) \<longleftrightarrow> nul_free s \<and> nul_free t"
  by (auto simp: nul_free_def)

text \<open>
  Reading \<open>s[i]\<close> of a string stored with its terminator: position \<open>length s\<close> holds the
  NUL, anything behind it is out of bounds.
\<close>

definition str_at :: "string \<Rightarrow> nat \<Rightarrow> char cres" where
  "str_at s i = (if i < length s then Inr (s ! i)
                 else if i = length s then Inr NUL else Inl Out_Of_Bounds)"

fun strcmp :: "string \<Rightarrow> string \<Rightarrow> int" where
  "strcmp [] [] = 0"
| "strcmp [] (d # t) = - int (of_char d)"
| "strcmp (c # s) [] = int (of_char c)"
| "strcmp (c # s) (d # t) =
     (if c = d then strcmp s t else int (of_char c) - int (of_char d))"

lemma of_char_zero_iff [simp]: "(of_char c :: nat) = 0 \<longleftrightarrow> c = NUL"
  using of_char_eq_iff [of c NUL, where ?'a = nat] by simp

lemma strcmp_refl [simp]: "strcmp s s = 0"
  by (induction s) simp_all

lemma strcmp_zero: "nul_free s \<Longrightarrow> nul_free t \<Longrightarrow> strcmp s t = 0 \<longleftrightarrow> s = t"
  by (induction s t rule: strcmp.induct) auto

lemma char_less_iff: "c < d \<longleftrightarrow> (of_char c :: nat) < of_char d"
  by (simp add: less_char_def)

text \<open>
  On strings without an embedded NUL the sign of \<open>strcmp\<close> is the lexicographic order on
  byte values.
\<close>

lemma strcmp_neg: "nul_free s \<Longrightarrow> nul_free t \<Longrightarrow> strcmp s t < 0 \<longleftrightarrow> s < t"
proof (induction s t rule: strcmp.induct)
  case (2 d t)
  then have "0 < (of_char d :: nat)" by (simp add: zero_less_iff_neq_zero)
  then show ?case by simp
next
  case (4 c s d t)
  have "strcmp (c # s) (d # t) < 0 \<longleftrightarrow> (if c = d then s < t else c < d)"
    using 4 by (simp add: char_less_iff)
  also have "\<dots> \<longleftrightarrow> c # s < d # t"
    by auto
  finally show ?case .
qed simp_all

section \<open>Interfaces\<close>

text \<open>
  A comparison function as the container code takes it: zero exactly on equal keys,
  negative exactly below. \<open>okv\<close> marks the values the comparison is specified for.
\<close>

locale key_compare =
  fixes cmp :: "'v \<Rightarrow> 'v \<Rightarrow> int"
    and key :: "'v \<Rightarrow> 'k :: linorder"
    and okv :: "'v \<Rightarrow> bool"
  assumes cmp_zero: "okv x \<Longrightarrow> okv y \<Longrightarrow> cmp x y = 0 \<longleftrightarrow> key x = key y"
    and cmp_neg: "okv x \<Longrightarrow> okv y \<Longrightarrow> cmp x y < 0 \<longleftrightarrow> key x < key y"
begin

lemma cmp_pos: "okv x \<Longrightarrow> okv y \<Longrightarrow> 0 < cmp x y \<longleftrightarrow> key y < key x"
  using cmp_zero [of x y] cmp_neg [of x y] by (metis linorder_less_linear order_less_asym)

end

text \<open>\<open>strcmp\<close> orders the C strings lexicographically by byte value.\<close>

interpretation str: key_compare strcmp "\<lambda>s. s" nul_free
  by unfold_locales (simp_all add: strcmp_zero strcmp_neg)

text \<open>A machine consumes a list of inputs, one step each, and collects its outputs.\<close>

fun run_machine :: "('s \<Rightarrow> 'i \<Rightarrow> 's \<times> 'o) \<Rightarrow> 's \<Rightarrow> 'i list \<Rightarrow> 's \<times> 'o list" where
  "run_machine step s [] = (s, [])"
| "run_machine step s (i # is) =
     (let r = run_machine step (fst (step s i)) is
      in (fst r, snd (step s i) # snd r))"

lemma run_machine_append:
  "fst (run_machine step s (is @ js)) =
   fst (run_machine step (fst (run_machine step s is)) js)"
  by (induction "is" arbitrary: s) (simp_all add: Let_def)

locale machine =
  fixes step :: "'s \<Rightarrow> 'i \<Rightarrow> 's \<times> 'o"
    and inv :: "'s \<Rightarrow> bool"
  assumes step_inv: "inv s \<Longrightarrow> inv (fst (step s i))"
begin

lemma run_inv: "inv s \<Longrightarrow> inv (fst (run_machine step s is))"
  by (induction "is" arbitrary: s) (simp_all add: Let_def step_inv)

lemma run_outputs:
  assumes "inv s" and "\<And>s i. inv s \<Longrightarrow> Q (snd (step s i))"
  shows "\<forall>x \<in> set (snd (run_machine step s is)). Q x"
  using assms(1)
proof (induction "is" arbitrary: s)
  case (Cons i "is")
  from Cons.IH [OF step_inv [OF Cons.prems, of i]] assms(2) [OF Cons.prems, of i]
  show ?case by (simp add: Let_def)
qed simp

end

text \<open>A text codec: decoding undoes encoding on the values it is meant for.\<close>

locale codec =
  fixes enc :: "'a \<Rightarrow> string"
    and dec :: "string \<Rightarrow> 'a option"
    and okc :: "'a \<Rightarrow> bool"
  assumes dec_enc: "okc x \<Longrightarrow> dec (enc x) = Some x"
begin

lemma enc_inj: "okc x \<Longrightarrow> okc y \<Longrightarrow> enc x = enc y \<Longrightarrow> x = y"
  by (metis dec_enc option.inject)

lemma dec_map_enc: "\<forall>x \<in> set xs. okc x \<Longrightarrow> map (the \<circ> dec \<circ> enc) xs = xs"
  by (induction xs) (auto simp: dec_enc)

end

end
