(* ===== verification/DeviceTable.thy ===== *)
theory DeviceTable
  imports Prelude
begin

text \<open>
  The constant tables of \<open>cphidgetconstants.c\<close> and \<open>cphidgetattr.h\<close>: device classes, device
  ids, unique device ids (one per packet protocol), the supported USB devices, the version
  ranges that select the unique id, and the error descriptions. The enumerations are kept as
  their numbers; \<open>CPhidget_getUID\<close>, \<open>phidget_type_to_id\<close>, \<open>CPhidget_strerror\<close> and
  \<open>CPhidget_getErrorDescription\<close> look things up in them.
\<close>

section \<open>Enumerations\<close>

type_synonym CPhidget_DeviceClass = nat
type_synonym CPhidget_DeviceID = nat
type_synonym CPhidget_DeviceUID = nat

abbreviation (input) PHIDCLASS_ACCELEROMETER :: CPhidget_DeviceClass where "PHIDCLASS_ACCELEROMETER \<equiv> 2"
abbreviation (input) PHIDCLASS_ADVANCEDSERVO :: CPhidget_DeviceClass where "PHIDCLASS_ADVANCEDSERVO \<equiv> 3"
abbreviation (input) PHIDCLASS_ANALOG :: CPhidget_DeviceClass where "PHIDCLASS_ANALOG \<equiv> 22"
abbreviation (input) PHIDCLASS_BRIDGE :: CPhidget_DeviceClass where "PHIDCLASS_BRIDGE \<equiv> 23"
abbreviation (input) PHIDCLASS_ENCODER :: CPhidget_DeviceClass where "PHIDCLASS_ENCODER \<equiv> 4"
abbreviation (input) PHIDCLASS_FREQUENCYCOUNTER :: CPhidget_DeviceClass where "PHIDCLASS_FREQUENCYCOUNTER \<equiv> 21"
abbreviation (input) PHIDCLASS_GPS :: CPhidget_DeviceClass where "PHIDCLASS_GPS \<equiv> 5"
abbreviation (input) PHIDCLASS_INTERFACEKIT :: CPhidget_DeviceClass where "PHIDCLASS_INTERFACEKIT \<equiv> 7"
abbreviation (input) PHIDCLASS_IR :: CPhidget_DeviceClass where "PHIDCLASS_IR \<equiv> 19"
abbreviation (input) PHIDCLASS_LED :: CPhidget_DeviceClass where "PHIDCLASS_LED \<equiv> 8"
abbreviation (input) PHIDCLASS_MOTORCONTROL :: CPhidget_DeviceClass where "PHIDCLASS_MOTORCONTROL \<equiv> 9"
abbreviation (input) PHIDCLASS_PHSENSOR :: CPhidget_DeviceClass where "PHIDCLASS_PHSENSOR \<equiv> 10"
abbreviation (input) PHIDCLASS_RFID :: CPhidget_DeviceClass where "PHIDCLASS_RFID \<equiv> 11"
abbreviation (input) PHIDCLASS_SERVO :: CPhidget_DeviceClass where "PHIDCLASS_SERVO \<equiv> 12"
abbreviation (input) PHIDCLASS_SPATIAL :: CPhidget_DeviceClass where "PHIDCLASS_SPATIAL \<equiv> 20"
abbreviation (input) PHIDCLASS_STEPPER :: CPhidget_DeviceClass where "PHIDCLASS_STEPPER \<equiv> 13"
abbreviation (input) PHIDCLASS_TEMPERATURESENSOR :: CPhidget_DeviceClass where "PHIDCLASS_TEMPERATURESENSOR \<equiv> 14"
abbreviation (input) PHIDCLASS_TEXTLCD :: CPhidget_DeviceClass where "PHIDCLASS_TEXTLCD \<equiv> 15"
abbreviation (input) PHIDCLASS_TEXTLED :: CPhidget_DeviceClass where "PHIDCLASS_TEXTLED \<equiv> 16"
abbreviation (input) PHIDCLASS_WEIGHTSENSOR :: CPhidget_DeviceClass where "PHIDCLASS_WEIGHTSENSOR \<equiv> 17"
abbreviation (input) PHIDCLASS_NOTHING :: CPhidget_DeviceClass where "PHIDCLASS_NOTHING \<equiv> 1"
abbreviation (input) PHIDCLASS_GENERIC :: CPhidget_DeviceClass where "PHIDCLASS_GENERIC \<equiv> 18"

abbreviation (input) PHIDID_ACCELEROMETER_3AXIS :: CPhidget_DeviceID where "PHIDID_ACCELEROMETER_3AXIS \<equiv> 126"
abbreviation (input) PHIDID_ADVANCEDSERVO_1MOTOR :: CPhidget_DeviceID where "PHIDID_ADVANCEDSERVO_1MOTOR \<equiv> 130"
abbreviation (input) PHIDID_ADVANCEDSERVO_8MOTOR :: CPhidget_DeviceID where "PHIDID_ADVANCEDSERVO_8MOTOR \<equiv> 58"
abbreviation (input) PHIDID_ANALOG_4OUTPUT :: CPhidget_DeviceID where "PHIDID_ANALOG_4OUTPUT \<equiv> 55"
abbreviation (input) PHIDID_BIPOLAR_STEPPER_1MOTOR :: CPhidget_DeviceID where "PHIDID_BIPOLAR_STEPPER_1MOTOR \<equiv> 123"
abbreviation (input) PHIDID_BRIDGE_4INPUT :: CPhidget_DeviceID where "PHIDID_BRIDGE_4INPUT \<equiv> 59"
abbreviation (input) PHIDID_ENCODER_1ENCODER_1INPUT :: CPhidget_DeviceID where "PHIDID_ENCODER_1ENCODER_1INPUT \<equiv> 75"
abbreviation (input) PHIDID_ENCODER_HS_1ENCODER :: CPhidget_DeviceID where "PHIDID_ENCODER_HS_1ENCODER \<equiv> 128"
abbreviation (input) PHIDID_ENCODER_HS_4ENCODER_4INPUT :: CPhidget_DeviceID where "PHIDID_ENCODER_HS_4ENCODER_4INPUT \<equiv> 79"
abbreviation (input) PHIDID_FREQUENCYCOUNTER_2INPUT :: CPhidget_DeviceID where "PHIDID_FREQUENCYCOUNTER_2INPUT \<equiv> 53"
abbreviation (input) PHIDID_GPS :: CPhidget_DeviceID where "PHIDID_GPS \<equiv> 121"
abbreviation (input) PHIDID_INTERFACEKIT_0_0_4 :: CPhidget_DeviceID where "PHIDID_INTERFACEKIT_0_0_4 \<equiv> 64"
abbreviation (input) PHIDID_INTERFACEKIT_0_0_8 :: CPhidget_DeviceID where "PHIDID_INTERFACEKIT_0_0_8 \<equiv> 129"
abbreviation (input) PHIDID_INTERFACEKIT_0_16_16 :: CPhidget_DeviceID where "PHIDID_INTERFACEKIT_0_16_16 \<equiv> 68"
abbreviation (input) PHIDID_INTERFACEKIT_2_2_2 :: CPhidget_DeviceID where "PHIDID_INTERFACEKIT_2_2_2 \<equiv> 54"
abbreviation (input) PHIDID_INTERFACEKIT_8_8_8 :: CPhidget_DeviceID where "PHIDID_INTERFACEKIT_8_8_8 \<equiv> 69"
abbreviation (input) PHIDID_INTERFACEKIT_8_8_8_w_LCD :: CPhidget_DeviceID where "PHIDID_INTERFACEKIT_8_8_8_w_LCD \<equiv> 125"
abbreviation (input) PHIDID_IR :: CPhidget_DeviceID where "PHIDID_IR \<equiv> 77"
abbreviation (input) PHIDID_LED_64_ADV :: CPhidget_DeviceID where "PHIDID_LED_64_ADV \<equiv> 76"
abbreviation (input) PHIDID_LINEAR_TOUCH :: CPhidget_DeviceID where "PHIDID_LINEAR_TOUCH \<equiv> 118"
abbreviation (input) PHIDID_MOTORCONTROL_1MOTOR :: CPhidget_DeviceID where "PHIDID_MOTORCONTROL_1MOTOR \<equiv> 62"
abbreviation (input) PHIDID_MOTORCONTROL_HC_2MOTOR :: CPhidget_DeviceID where "PHIDID_MOTORCONTROL_HC_2MOTOR \<equiv> 89"
abbreviation (input) PHIDID_RFID_2OUTPUT :: CPhidget_DeviceID where "PHIDID_RFID_2OUTPUT \<equiv> 49"
abbreviation (input) PHIDID_RFID_2OUTPUT_READ_WRITE :: CPhidget_DeviceID where "PHIDID_RFID_2OUTPUT_READ_WRITE \<equiv> 52"
abbreviation (input) PHIDID_ROTARY_TOUCH :: CPhidget_DeviceID where "PHIDID_ROTARY_TOUCH \<equiv> 119"
abbreviation (input) PHIDID_SPATIAL_ACCEL_3AXIS :: CPhidget_DeviceID where "PHIDID_SPATIAL_ACCEL_3AXIS \<equiv> 127"
abbreviation (input) PHIDID_SPATIAL_ACCEL_GYRO_COMPASS :: CPhidget_DeviceID where "PHIDID_SPATIAL_ACCEL_GYRO_COMPASS \<equiv> 51"
abbreviation (input) PHIDID_TEMPERATURESENSOR :: CPhidget_DeviceID where "PHIDID_TEMPERATURESENSOR \<equiv> 112"
abbreviation (input) PHIDID_TEMPERATURESENSOR_4 :: CPhidget_DeviceID where "PHIDID_TEMPERATURESENSOR_4 \<equiv> 50"
abbreviation (input) PHIDID_TEMPERATURESENSOR_IR :: CPhidget_DeviceID where "PHIDID_TEMPERATURESENSOR_IR \<equiv> 60"
abbreviation (input) PHIDID_TEXTLCD_2x20_w_8_8_8 :: CPhidget_DeviceID where "PHIDID_TEXTLCD_2x20_w_8_8_8 \<equiv> 381"
abbreviation (input) PHIDID_TEXTLCD_ADAPTER :: CPhidget_DeviceID where "PHIDID_TEXTLCD_ADAPTER \<equiv> 61"
abbreviation (input) PHIDID_UNIPOLAR_STEPPER_4MOTOR :: CPhidget_DeviceID where "PHIDID_UNIPOLAR_STEPPER_4MOTOR \<equiv> 122"
abbreviation (input) PHIDID_ACCELEROMETER_2AXIS :: CPhidget_DeviceID where "PHIDID_ACCELEROMETER_2AXIS \<equiv> 113"
abbreviation (input) PHIDID_INTERFACEKIT_0_8_8_w_LCD :: CPhidget_DeviceID where "PHIDID_INTERFACEKIT_0_8_8_w_LCD \<equiv> 83"
abbreviation (input) PHIDID_INTERFACEKIT_4_8_8 :: CPhidget_DeviceID where "PHIDID_INTERFACEKIT_4_8_8 \<equiv> 4"
abbreviation (input) PHIDID_LED_64 :: CPhidget_DeviceID where "PHIDID_LED_64 \<equiv> 74"
abbreviation (input) PHIDID_MOTORCONTROL_LV_2MOTOR_4INPUT :: CPhidget_DeviceID where "PHIDID_MOTORCONTROL_LV_2MOTOR_4INPUT \<equiv> 88"
abbreviation (input) PHIDID_PHSENSOR :: CPhidget_DeviceID where "PHIDID_PHSENSOR \<equiv> 116"
abbreviation (input) PHIDID_RFID :: CPhidget_DeviceID where "PHIDID_RFID \<equiv> 48"
abbreviation (input) PHIDID_SERVO_1MOTOR :: CPhidget_DeviceID where "PHIDID_SERVO_1MOTOR \<equiv> 57"
abbreviation (input) PHIDID_SERVO_1MOTOR_OLD :: CPhidget_DeviceID where "PHIDID_SERVO_1MOTOR_OLD \<equiv> 2"
abbreviation (input) PHIDID_SERVO_4MOTOR :: CPhidget_DeviceID where "PHIDID_SERVO_4MOTOR \<equiv> 56"
abbreviation (input) PHIDID_SERVO_4MOTOR_OLD :: CPhidget_DeviceID where "PHIDID_SERVO_4MOTOR_OLD \<equiv> 3"
abbreviation (input) PHIDID_TEXTLCD_2x20 :: CPhidget_DeviceID where "PHIDID_TEXTLCD_2x20 \<equiv> 82"
abbreviation (input) PHIDID_TEXTLCD_2x20_w_0_8_8 :: CPhidget_DeviceID where "PHIDID_TEXTLCD_2x20_w_0_8_8 \<equiv> 339"
abbreviation (input) PHIDID_TEXTLED_1x8 :: CPhidget_DeviceID where "PHIDID_TEXTLED_1x8 \<equiv> 73"
abbreviation (input) PHIDID_TEXTLED_4x8 :: CPhidget_DeviceID where "PHIDID_TEXTLED_4x8 \<equiv> 72"
abbreviation (input) PHIDID_WEIGHTSENSOR :: CPhidget_DeviceID where "PHIDID_WEIGHTSENSOR \<equiv> 114"
abbreviation (input) PHIDID_FIRMWARE_UPGRADE :: CPhidget_DeviceID where "PHIDID_FIRMWARE_UPGRADE \<equiv> 152"
abbreviation (input) PHIDID_NOTHING :: CPhidget_DeviceID where "PHIDID_NOTHING \<equiv> 1"
abbreviation (input) PHIDID_INTERFACEKIT_0_5_7 :: CPhidget_DeviceID where "PHIDID_INTERFACEKIT_0_5_7 \<equiv> 81"
abbreviation (input) PHIDID_TEXTLCD_2x20_CUSTOM :: CPhidget_DeviceID where "PHIDID_TEXTLCD_2x20_CUSTOM \<equiv> 337"
abbreviation (input) PHIDID_INTERFACEKIT_2_8_8 :: CPhidget_DeviceID where "PHIDID_INTERFACEKIT_2_8_8 \<equiv> 5"
abbreviation (input) PHIDID_GENERIC :: CPhidget_DeviceID where "PHIDID_GENERIC \<equiv> 153"

abbreviation (input) PHIDUID_NOTHING :: CPhidget_DeviceUID where "PHIDUID_NOTHING \<equiv> 1"
abbreviation (input) PHIDUID_ACCELEROMETER_2AXIS_2G :: CPhidget_DeviceUID where "PHIDUID_ACCELEROMETER_2AXIS_2G \<equiv> 2"
abbreviation (input) PHIDUID_ACCELEROMETER_2AXIS_10G :: CPhidget_DeviceUID where "PHIDUID_ACCELEROMETER_2AXIS_10G \<equiv> 3"
abbreviation (input) PHIDUID_ACCELEROMETER_2AXIS_5G :: CPhidget_DeviceUID where "PHIDUID_ACCELEROMETER_2AXIS_5G \<equiv> 4"
abbreviation (input) PHIDUID_ACCELEROMETER_3AXIS_3G :: CPhidget_DeviceUID where "PHIDUID_ACCELEROMETER_3AXIS_3G \<equiv> 5"
abbreviation (input) PHIDUID_ADVANCEDSERVO_1MOTOR :: CPhidget_DeviceUID where "PHIDUID_ADVANCEDSERVO_1MOTOR \<equiv> 6"
abbreviation (input) PHIDUID_ADVANCEDSERVO_8MOTOR :: CPhidget_DeviceUID where "PHIDUID_ADVANCEDSERVO_8MOTOR \<equiv> 7"
abbreviation (input) PHIDUID_ADVANCEDSERVO_8MOTOR_PGOOD_FLAG :: CPhidget_DeviceUID where "PHIDUID_ADVANCEDSERVO_8MOTOR_PGOOD_FLAG \<equiv> 8"
abbreviation (input) PHIDUID_ADVANCEDSERVO_8MOTOR_CURSENSE_FIX :: CPhidget_DeviceUID where "PHIDUID_ADVANCEDSERVO_8MOTOR_CURSENSE_FIX \<equiv> 9"
abbreviation (input) PHIDUID_ANALOG_4OUTPUT :: CPhidget_DeviceUID where "PHIDUID_ANALOG_4OUTPUT \<equiv> 10"
abbreviation (input) PHIDUID_BRIDGE_4INPUT_GAINBUG :: CPhidget_DeviceUID where "PHIDUID_BRIDGE_4INPUT_GAINBUG \<equiv> 11"
abbreviation (input) PHIDUID_BRIDGE_4INPUT :: CPhidget_DeviceUID where "PHIDUID_BRIDGE_4INPUT \<equiv> 12"
abbreviation (input) PHIDUID_ENCODER_1ENCODER_1INPUT_OLD :: CPhidget_DeviceUID where "PHIDUID_ENCODER_1ENCODER_1INPUT_OLD \<equiv> 13"
abbreviation (input) PHIDUID_ENCODER_1ENCODER_1INPUT_v1 :: CPhidget_DeviceUID where "PHIDUID_ENCODER_1ENCODER_1INPUT_v1 \<equiv> 14"
abbreviation (input) PHIDUID_ENCODER_1ENCODER_1INPUT_v2 :: CPhidget_DeviceUID where "PHIDUID_ENCODER_1ENCODER_1INPUT_v2 \<equiv> 15"
abbreviation (input) PHIDUID_ENCODER_HS_1ENCODER :: CPhidget_DeviceUID where "PHIDUID_ENCODER_HS_1ENCODER \<equiv> 16"
abbreviation (input) PHIDUID_ENCODER_HS_4ENCODER_4INPUT :: CPhidget_DeviceUID where "PHIDUID_ENCODER_HS_4ENCODER_4INPUT \<equiv> 17"
abbreviation (input) PHIDUID_FREQUENCYCOUNTER_2INPUT :: CPhidget_DeviceUID where "PHIDUID_FREQUENCYCOUNTER_2INPUT \<equiv> 18"
abbreviation (input) PHIDUID_GPS :: CPhidget_DeviceUID where "PHIDUID_GPS \<equiv> 19"
abbreviation (input) PHIDUID_INTERFACEKIT_0_0_4_NO_ECHO :: CPhidget_DeviceUID where "PHIDUID_INTERFACEKIT_0_0_4_NO_ECHO \<equiv> 20"
abbreviation (input) PHIDUID_INTERFACEKIT_0_0_4 :: CPhidget_DeviceUID where "PHIDUID_INTERFACEKIT_0_0_4 \<equiv> 21"
abbreviation (input) PHIDUID_INTERFACEKIT_0_0_8 :: CPhidget_DeviceUID where "PHIDUID_INTERFACEKIT_0_0_8 \<equiv> 22"
abbreviation (input) PHIDUID_INTERFACEKIT_0_5_7 :: CPhidget_DeviceUID where "PHIDUID_INTERFACEKIT_0_5_7 \<equiv> 23"
abbreviation (input) PHIDUID_INTERFACEKIT_0_8_8_w_LCD :: CPhidget_DeviceUID where "PHIDUID_INTERFACEKIT_0_8_8_w_LCD \<equiv> 24"
abbreviation (input) PHIDUID_INTERFACEKIT_0_16_16_NO_ECHO :: CPhidget_DeviceUID where "PHIDUID_INTERFACEKIT_0_16_16_NO_ECHO \<equiv> 25"
abbreviation (input) PHIDUID_INTERFACEKIT_0_16_16_BITBUG :: CPhidget_DeviceUID where "PHIDUID_INTERFACEKIT_0_16_16_BITBUG \<equiv> 26"
abbreviation (input) PHIDUID_INTERFACEKIT_0_16_16 :: CPhidget_DeviceUID where "PHIDUID_INTERFACEKIT_0_16_16 \<equiv> 27"
abbreviation (input) PHIDUID_INTERFACEKIT_2_2_2 :: CPhidget_DeviceUID where "PHIDUID_INTERFACEKIT_2_2_2 \<equiv> 28"
abbreviation (input) PHIDUID_INTERFACEKIT_2_8_8 :: CPhidget_DeviceUID where "PHIDUID_INTERFACEKIT_2_8_8 \<equiv> 29"
abbreviation (input) PHIDUID_INTERFACEKIT_4_8_8 :: CPhidget_DeviceUID where "PHIDUID_INTERFACEKIT_4_8_8 \<equiv> 30"
abbreviation (input) PHIDUID_INTERFACEKIT_8_8_8_NO_ECHO :: CPhidget_DeviceUID where "PHIDUID_INTERFACEKIT_8_8_8_NO_ECHO \<equiv> 31"
abbreviation (input) PHIDUID_INTERFACEKIT_8_8_8 :: CPhidget_DeviceUID where "PHIDUID_INTERFACEKIT_8_8_8 \<equiv> 32"
abbreviation (input) PHIDUID_INTERFACEKIT_8_8_8_FAST :: CPhidget_DeviceUID where "PHIDUID_INTERFACEKIT_8_8_8_FAST \<equiv> 33"
abbreviation (input) PHIDUID_INTERFACEKIT_8_8_8_w_LCD_NO_ECHO :: CPhidget_DeviceUID where "PHIDUID_INTERFACEKIT_8_8_8_w_LCD_NO_ECHO \<equiv> 34"
abbreviation (input) PHIDUID_INTERFACEKIT_8_8_8_w_LCD :: CPhidget_DeviceUID where "PHIDUID_INTERFACEKIT_8_8_8_w_LCD \<equiv> 35"
abbreviation (input) PHIDUID_INTERFACEKIT_8_8_8_w_LCD_FAST :: CPhidget_DeviceUID where "PHIDUID_INTERFACEKIT_8_8_8_w_LCD_FAST \<equiv> 36"
abbreviation (input) PHIDUID_INTERFACEKIT_TOUCH_SLIDER :: CPhidget_DeviceUID where "PHIDUID_INTERFACEKIT_TOUCH_SLIDER \<equiv> 37"
abbreviation (input) PHIDUID_INTERFACEKIT_TOUCH_ROTARY :: CPhidget_DeviceUID where "PHIDUID_INTERFACEKIT_TOUCH_ROTARY \<equiv> 38"
abbreviation (input) PHIDUID_IR :: CPhidget_DeviceUID where "PHIDUID_IR \<equiv> 39"
abbreviation (input) PHIDUID_LED_64 :: CPhidget_DeviceUID where "PHIDUID_LED_64 \<equiv> 40"
abbreviation (input) PHIDUID_LED_64_ADV :: CPhidget_DeviceUID where "PHIDUID_LED_64_ADV \<equiv> 41"
abbreviation (input) PHIDUID_LED_64_ADV_M3 :: CPhidget_DeviceUID where "PHIDUID_LED_64_ADV_M3 \<equiv> 42"
abbreviation (input) PHIDUID_MOTORCONTROL_1MOTOR :: CPhidget_DeviceUID where "PHIDUID_MOTORCONTROL_1MOTOR \<equiv> 43"
abbreviation (input) PHIDUID_MOTORCONTROL_HC_2MOTOR :: CPhidget_DeviceUID where "PHIDUID_MOTORCONTROL_HC_2MOTOR \<equiv> 44"
abbreviation (input) PHIDUID_MOTORCONTROL_LV_2MOTOR_4INPUT :: CPhidget_DeviceUID where "PHIDUID_MOTORCONTROL_LV_2MOTOR_4INPUT \<equiv> 45"
abbreviation (input) PHIDUID_PHSENSOR :: CPhidget_DeviceUID where "PHIDUID_PHSENSOR \<equiv> 46"
abbreviation (input) PHIDUID_RFID_OLD :: CPhidget_DeviceUID where "PHIDUID_RFID_OLD \<equiv> 47"
abbreviation (input) PHIDUID_RFID :: CPhidget_DeviceUID where "PHIDUID_RFID \<equiv> 48"
abbreviation (input) PHIDUID_RFID_2OUTPUT_NO_ECHO :: CPhidget_DeviceUID where "PHIDUID_RFID_2OUTPUT_NO_ECHO \<equiv> 49"
abbreviation (input) PHIDUID_RFID_2OUTPUT :: CPhidget_DeviceUID where "PHIDUID_RFID_2OUTPUT \<equiv> 50"
abbreviation (input) PHIDUID_RFID_2OUTPUT_READ_WRITE :: CPhidget_DeviceUID where "PHIDUID_RFID_2OUTPUT_READ_WRITE \<equiv> 51"
abbreviation (input) PHIDUID_SERVO_1MOTOR_OLD :: CPhidget_DeviceUID where "PHIDUID_SERVO_1MOTOR_OLD \<equiv> 52"
abbreviation (input) PHIDUID_SERVO_4MOTOR_OLD :: CPhidget_DeviceUID where "PHIDUID_SERVO_4MOTOR_OLD \<equiv> 53"
abbreviation (input) PHIDUID_SERVO_1MOTOR_NO_ECHO :: CPhidget_DeviceUID where "PHIDUID_SERVO_1MOTOR_NO_ECHO \<equiv> 54"
abbreviation (input) PHIDUID_SERVO_1MOTOR :: CPhidget_DeviceUID where "PHIDUID_SERVO_1MOTOR \<equiv> 55"
abbreviation (input) PHIDUID_SERVO_4MOTOR_NO_ECHO :: CPhidget_DeviceUID where "PHIDUID_SERVO_4MOTOR_NO_ECHO \<equiv> 56"
abbreviation (input) PHIDUID_SERVO_4MOTOR :: CPhidget_DeviceUID where "PHIDUID_SERVO_4MOTOR \<equiv> 57"
abbreviation (input) PHIDUID_SPATIAL_ACCEL_3AXIS_1049 :: CPhidget_DeviceUID where "PHIDUID_SPATIAL_ACCEL_3AXIS_1049 \<equiv> 58"
abbreviation (input) PHIDUID_SPATIAL_ACCEL_3AXIS_1041 :: CPhidget_DeviceUID where "PHIDUID_SPATIAL_ACCEL_3AXIS_1041 \<equiv> 59"
abbreviation (input) PHIDUID_SPATIAL_ACCEL_3AXIS_1043 :: CPhidget_DeviceUID where "PHIDUID_SPATIAL_ACCEL_3AXIS_1043 \<equiv> 60"
abbreviation (input) PHIDUID_SPATIAL_ACCEL_GYRO_COMPASS_1056 :: CPhidget_DeviceUID where "PHIDUID_SPATIAL_ACCEL_GYRO_COMPASS_1056 \<equiv> 61"
abbreviation (input) PHIDUID_SPATIAL_ACCEL_GYRO_COMPASS_1056_NEG_GAIN :: CPhidget_DeviceUID where "PHIDUID_SPATIAL_ACCEL_GYRO_COMPASS_1056_NEG_GAIN \<equiv> 62"
abbreviation (input) PHIDUID_SPATIAL_ACCEL_GYRO_COMPASS_1042 :: CPhidget_DeviceUID where "PHIDUID_SPATIAL_ACCEL_GYRO_COMPASS_1042 \<equiv> 63"
abbreviation (input) PHIDUID_SPATIAL_ACCEL_GYRO_COMPASS_1044 :: CPhidget_DeviceUID where "PHIDUID_SPATIAL_ACCEL_GYRO_COMPASS_1044 \<equiv> 64"
abbreviation (input) PHIDUID_STEPPER_BIPOLAR_1MOTOR :: CPhidget_DeviceUID where "PHIDUID_STEPPER_BIPOLAR_1MOTOR \<equiv> 65"
abbreviation (input) PHIDUID_STEPPER_BIPOLAR_1MOTOR_M3 :: CPhidget_DeviceUID where "PHIDUID_STEPPER_BIPOLAR_1MOTOR_M3 \<equiv> 66"
abbreviation (input) PHIDUID_STEPPER_UNIPOLAR_4MOTOR :: CPhidget_DeviceUID where "PHIDUID_STEPPER_UNIPOLAR_4MOTOR \<equiv> 67"
abbreviation (input) PHIDUID_TEMPERATURESENSOR_OLD :: CPhidget_DeviceUID where "PHIDUID_TEMPERATURESENSOR_OLD \<equiv> 68"
abbreviation (input) PHIDUID_TEMPERATURESENSOR :: CPhidget_DeviceUID where "PHIDUID_TEMPERATURESENSOR \<equiv> 69"
abbreviation (input) PHIDUID_TEMPERATURESENSOR_AD22100 :: CPhidget_DeviceUID where "PHIDUID_TEMPERATURESENSOR_AD22100 \<equiv> 70"
abbreviation (input) PHIDUID_TEMPERATURESENSOR_TERMINAL_BLOCKS :: CPhidget_DeviceUID where "PHIDUID_TEMPERATURESENSOR_TERMINAL_BLOCKS \<equiv> 71"
abbreviation (input) PHIDUID_TEMPERATURESENSOR_4 :: CPhidget_DeviceUID where "PHIDUID_TEMPERATURESENSOR_4 \<equiv> 72"
abbreviation (input) PHIDUID_TEMPERATURESENSOR_IR :: CPhidget_DeviceUID where "PHIDUID_TEMPERATURESENSOR_IR \<equiv> 73"
abbreviation (input) PHIDUID_TEXTLCD_2x20 :: CPhidget_DeviceUID where "PHIDUID_TEXTLCD_2x20 \<equiv> 74"
abbreviation (input) PHIDUID_TEXTLCD_2x20_w_8_8_8 :: CPhidget_DeviceUID where "PHIDUID_TEXTLCD_2x20_w_8_8_8 \<equiv> 75"
abbreviation (input) PHIDUID_TEXTLCD_2x20_w_8_8_8_BRIGHTNESS :: CPhidget_DeviceUID where "PHIDUID_TEXTLCD_2x20_w_8_8_8_BRIGHTNESS \<equiv> 76"
abbreviation (input) PHIDUID_TEXTLCD_ADAPTER :: CPhidget_DeviceUID where "PHIDUID_TEXTLCD_ADAPTER \<equiv> 77"
abbreviation (input) PHIDUID_TEXTLED_1x8 :: CPhidget_DeviceUID where "PHIDUID_TEXTLED_1x8 \<equiv> 78"
abbreviation (input) PHIDUID_TEXTLED_4x8 :: CPhidget_DeviceUID where "PHIDUID_TEXTLED_4x8 \<equiv> 79"
abbreviation (input) PHIDUID_WEIGHTSENSOR :: CPhidget_DeviceUID where "PHIDUID_WEIGHTSENSOR \<equiv> 80"
abbreviation (input) PHIDUID_GENERIC :: CPhidget_DeviceUID where "PHIDUID_GENERIC \<equiv> 81"
abbreviation (input) PHIDUID_FIRMWARE_UPGRADE :: CPhidget_DeviceUID where "PHIDUID_FIRMWARE_UPGRADE \<equiv> 82"

section \<open>Names and descriptions\<close>

text \<open>Indexed by the device class; class 0 does not exist.\<close>

definition Phid_DeviceName :: "string list" where
  "Phid_DeviceName = [
     ''ERROR'', ''Uninitialized Phidget Handle'', ''PhidgetAccelerometer''
     , ''PhidgetAdvancedServo'', ''PhidgetEncoder'', ''PhidgetGPS'', ''ERROR''
     , ''PhidgetInterfaceKit'', ''PhidgetLED'', ''PhidgetMotorControl'', ''PhidgetPHSensor''
     , ''PhidgetRFID'', ''PhidgetServo'', ''PhidgetStepper'', ''PhidgetTemperatureSensor''
     , ''PhidgetTextLCD'', ''PhidgetTextLED'', ''PhidgetWeightSensor'', ''PhidgetGeneric''
     , ''PhidgetIR'', ''PhidgetSpatial'', ''PhidgetFrequencyCounter'', ''PhidgetAnalog''
     , ''PhidgetBridge'']"

definition Phid_ErrorDescriptions :: "string list" where
  "Phid_ErrorDescriptions = [
     ''Function completed successfully.'',
     ''A Phidget matching the type and or serial number could not be found.'',
     ''Memory could not be allocated.'',
     ''Unexpected Error.  Contact Phidgets Inc. for support.'',
     ''Invalid argument passed to function.'',
     ''Phidget not physically attached.'',
     ''Read/Write operation was interrupted.'',
     ''The Error Code is not defined.'',
     ''Network Error.'',
     ''Value is Unknown (State not yet received from device, or not yet set by user).'',
     ''Authorization Failed.'',
     ''Not Supported.'',
     ''Duplicated request.'',
     ''Given timeout has been exceeded.'',
     ''Index out of Bounds.'',
     ''A non-null error code was returned from an event handler.'',
     ''A connection to the server does not exist.'',
     ''Function is not applicable for this device.'',
     ''Phidget handle was closed.'',
     ''Webservice and Client protocol versions don't match. Update both to newest release.'']"

section \<open>Supported devices\<close>

text \<open>
  Device id, class, USB vendor and product, interface, attributes (the four numbers of the
  union, in order) and name. The terminating row of zeros is the end of the list.
\<close>

type_synonym CPhidgetDeviceDef =
  "CPhidget_DeviceID \<times> CPhidget_DeviceClass \<times> nat \<times> nat \<times> nat \<times> nat list \<times> string"

definition Phid_Device_Def :: "CPhidgetDeviceDef list" where
  "Phid_Device_Def = [
     (PHIDID_NOTHING, PHIDCLASS_NOTHING, 0x000, 0x00, 0, [0, 0, 0], ''Uninitialized Phidget Handle''),
     (PHIDID_SERVO_1MOTOR_OLD, PHIDCLASS_SERVO, 0x925, 0x8101, 0, [1], ''Phidget Servo Controller 1-motor''),
     (PHIDID_SERVO_4MOTOR_OLD, PHIDCLASS_SERVO, 0x925, 0x8104, 0, [4], ''Phidget Servo Controller 4-motor''),
     (PHIDID_INTERFACEKIT_2_8_8, PHIDCLASS_INTERFACEKIT, 0x925, 0x8200, 0, [2, 8, 8], ''Phidget InterfaceKit 2/8/8''),
     (PHIDID_INTERFACEKIT_4_8_8, PHIDCLASS_INTERFACEKIT, 0x925, 0x8201, 0, [4, 8, 8], ''Phidget InterfaceKit 4/8/8''),
     (PHIDID_RFID, PHIDCLASS_RFID, 0x6C2, 0x30, 0, [0], ''Phidget RFID''),
     (PHIDID_RFID_2OUTPUT, PHIDCLASS_RFID, 0x6C2, 0x31, 0, [2], ''Phidget RFID 2-output''),
     (PHIDID_TEMPERATURESENSOR_4, PHIDCLASS_TEMPERATURESENSOR, 0x6C2, 0x32, 0, [4], ''Phidget Temperature Sensor 4-input''),
     (PHIDID_SPATIAL_ACCEL_GYRO_COMPASS, PHIDCLASS_SPATIAL, 0x6C2, 0x33, 0, [3, 3, 3], ''Phidget Spatial 3/3/3''),
     (PHIDID_RFID_2OUTPUT_READ_WRITE, PHIDCLASS_RFID, 0x6C2, 0x34, 0, [2], ''Phidget RFID Read-Write''),
     (PHIDID_FREQUENCYCOUNTER_2INPUT, PHIDCLASS_FREQUENCYCOUNTER, 0x6C2, 0x35, 0, [2], ''Phidget Frequency Counter 2-input''),
     (PHIDID_INTERFACEKIT_2_2_2, PHIDCLASS_INTERFACEKIT, 0x6C2, 0x36, 0, [2, 2, 2], ''Phidget InterfaceKit 2/2/2''),
     (PHIDID_ANALOG_4OUTPUT, PHIDCLASS_ANALOG, 0x6C2, 0x37, 0, [4], ''Phidget Analog 4-output''),
     (PHIDID_SERVO_4MOTOR, PHIDCLASS_SERVO, 0x6C2, 0x38, 0, [4], ''Phidget Servo Controller 4-motor''),
     (PHIDID_SERVO_1MOTOR, PHIDCLASS_SERVO, 0x6C2, 0x39, 0, [1], ''Phidget Servo Controller 1-motor''),
     (PHIDID_ADVANCEDSERVO_8MOTOR, PHIDCLASS_ADVANCEDSERVO, 0x6C2, 0x3A, 0, [8], ''Phidget Advanced Servo Controller 8-motor''),
     (PHIDID_BRIDGE_4INPUT, PHIDCLASS_BRIDGE, 0x6C2, 0x3B, 0, [4], ''Phidget Bridge 4-input''),
     (PHIDID_TEMPERATURESENSOR_IR, PHIDCLASS_TEMPERATURESENSOR, 0x6C2, 0x3C, 0, [1], ''Phidget Temperature Sensor IR''),
     (PHIDID_TEXTLCD_ADAPTER, PHIDCLASS_TEXTLCD, 0x6C2, 0x3D, 0, [0, 0, 2], ''Phidget TextLCD Adapter''),
     (PHIDID_MOTORCONTROL_1MOTOR, PHIDCLASS_MOTORCONTROL, 0x6C2, 0x3E, 0, [1, 2, 1, 2], ''Phidget Motor Controller 1-motor''),
     (PHIDID_INTERFACEKIT_0_0_4, PHIDCLASS_INTERFACEKIT, 0x6C2, 0x40, 0, [0, 0, 4], ''Phidget InterfaceKit 0/0/4''),
     (PHIDID_INTERFACEKIT_0_16_16, PHIDCLASS_INTERFACEKIT, 0x6C2, 0x44, 0, [0, 16, 16], ''Phidget InterfaceKit 0/16/16''),
     (PHIDID_INTERFACEKIT_8_8_8, PHIDCLASS_INTERFACEKIT, 0x6C2, 0x45, 0, [8, 8, 8], ''Phidget InterfaceKit 8/8/8''),
     (PHIDID_TEXTLED_4x8, PHIDCLASS_TEXTLED, 0x6C2, 0x48, 0, [4, 8], ''Phidget TextLED 4x8''),
     (PHIDID_TEXTLED_1x8, PHIDCLASS_TEXTLED, 0x6C2, 0x49, 0, [1, 8], ''Phidget TextLED 1x8''),
     (PHIDID_LED_64, PHIDCLASS_LED, 0x6C2, 0x4A, 0, [64], ''Phidget LED 64''),
     (PHIDID_ENCODER_1ENCODER_1INPUT, PHIDCLASS_ENCODER, 0x6C2, 0x4B, 0, [1, 1], ''Phidget Encoder 1-encoder 1-input''),
     (PHIDID_LED_64_ADV, PHIDCLASS_LED, 0x6C2, 0x4C, 0, [64], ''Phidget LED 64 Advanced''),
     (PHIDID_IR, PHIDCLASS_IR, 0x6C2, 0x4D, 0, [0], ''Phidget IR Receiver Transmitter''),
     (PHIDID_ENCODER_HS_4ENCODER_4INPUT, PHIDCLASS_ENCODER, 0x6C2, 0x4F, 0, [4, 4], ''Phidget High Speed Encoder 4-input''),
     (PHIDID_INTERFACEKIT_0_5_7, PHIDCLASS_INTERFACEKIT, 0x6C2, 0x51, 0, [0, 5, 7], ''Phidget InterfaceKit 0/5/7''),
     (PHIDID_TEXTLCD_2x20_CUSTOM, PHIDCLASS_TEXTLCD, 0x6C2, 0x51, 0, [2, 20, 1], ''Phidget TextLCD Custom''),
     (PHIDID_TEXTLCD_2x20, PHIDCLASS_TEXTLCD, 0x6C2, 0x52, 0, [2, 20, 1], ''Phidget TextLCD''),
     (PHIDID_INTERFACEKIT_0_8_8_w_LCD, PHIDCLASS_INTERFACEKIT, 0x6C2, 0x53, 0, [0, 8, 8], ''Phidget InterfaceKit 0/8/8''),
     (PHIDID_TEXTLCD_2x20_w_0_8_8, PHIDCLASS_TEXTLCD, 0x6C2, 0x53, 0, [2, 20, 1], ''Phidget TextLCD''),
     (PHIDID_MOTORCONTROL_LV_2MOTOR_4INPUT, PHIDCLASS_MOTORCONTROL, 0x6C2, 0x58, 0, [2, 4, 0, 0], ''Phidget Low Voltage Motor Controller 2-motor 4-input''),
     (PHIDID_MOTORCONTROL_HC_2MOTOR, PHIDCLASS_MOTORCONTROL, 0x6C2, 0x59, 0, [2, 0, 0, 0], ''Phidget High Current Motor Controller 2-motor''),
     (PHIDID_TEMPERATURESENSOR, PHIDCLASS_TEMPERATURESENSOR, 0x6C2, 0x70, 0, [1], ''Phidget Temperature Sensor''),
     (PHIDID_ACCELEROMETER_2AXIS, PHIDCLASS_ACCELEROMETER, 0x6C2, 0x71, 0, [2], ''Phidget Accelerometer 2-axis''),
     (PHIDID_WEIGHTSENSOR, PHIDCLASS_WEIGHTSENSOR, 0x6C2, 0x72, 0, [0], ''Phidget Weight Sensor''),
     (PHIDID_PHSENSOR, PHIDCLASS_PHSENSOR, 0x6C2, 0x74, 0, [0], ''Phidget PH Sensor''),
     (PHIDID_LINEAR_TOUCH, PHIDCLASS_INTERFACEKIT, 0x6C2, 0x76, 0, [1, 2], ''Phidget Touch Slider''),
     (PHIDID_ROTARY_TOUCH, PHIDCLASS_INTERFACEKIT, 0x6C2, 0x77, 0, [1, 2], ''Phidget Touch Rotation''),
     (PHIDID_GPS, PHIDCLASS_GPS, 0x6C2, 0x79, 0, [1], ''Phidget GPS''),
     (PHIDID_UNIPOLAR_STEPPER_4MOTOR, PHIDCLASS_STEPPER, 0x6C2, 0x7A, 0, [4], ''Phidget Unipolar Stepper Controller 4-motor''),
     (PHIDID_BIPOLAR_STEPPER_1MOTOR, PHIDCLASS_STEPPER, 0x6C2, 0x7B, 0, [1, 4], ''Phidget Bipolar Stepper Controller 1-motor''),
     (PHIDID_INTERFACEKIT_8_8_8_w_LCD, PHIDCLASS_INTERFACEKIT, 0x6C2, 0x7D, 0, [8, 8, 8], ''Phidget InterfaceKit 8/8/8''),
     (PHIDID_TEXTLCD_2x20_w_8_8_8, PHIDCLASS_TEXTLCD, 0x6C2, 0x7D, 1, [2, 20, 1], ''Phidget TextLCD''),
     (PHIDID_ACCELEROMETER_3AXIS, PHIDCLASS_ACCELEROMETER, 0x6C2, 0x7E, 0, [3], ''Phidget Accelerometer 3-axis''),
     (PHIDID_SPATIAL_ACCEL_3AXIS, PHIDCLASS_SPATIAL, 0x6C2, 0x7F, 0, [3, 0, 0], ''Phidget Spatial 0/0/3''),
     (PHIDID_ENCODER_HS_1ENCODER, PHIDCLASS_ENCODER, 0x6C2, 0x80, 0, [1], ''Phidget High Speed Encoder 1-encoder''),
     (PHIDID_INTERFACEKIT_0_0_8, PHIDCLASS_INTERFACEKIT, 0x6C2, 0x81, 0, [0, 0, 8], ''Phidget InterfaceKit 0/0/8''),
     (PHIDID_ADVANCEDSERVO_1MOTOR, PHIDCLASS_ADVANCEDSERVO, 0x6C2, 0x82, 0, [1], ''Phidget Advanced Servo Controller 1-motor''),
     (PHIDID_FIRMWARE_UPGRADE, PHIDCLASS_GENERIC, 0x6C2, 0x98, 0, [0, 0, 0], ''Firmware Upgrade''),
     (PHIDID_GENERIC, PHIDCLASS_GENERIC, 0x6C2, 0x99, 0, [0, 0, 0], ''Phidget Generic Device'')]"

section \<open>Unique ids\<close>

text \<open>Unique id, device id, lowest version, first version above the range.\<close>

type_synonym CPhidgetUniqueDeviceDef = "CPhidget_DeviceUID \<times> CPhidget_DeviceID \<times> int \<times> int"

definition Phid_Unique_Device_Def :: "CPhidgetUniqueDeviceDef list" where
  "Phid_Unique_Device_Def = [
     (PHIDUID_NOTHING, PHIDID_NOTHING, 0, 0),
     (PHIDUID_ACCELEROMETER_2AXIS_2G, PHIDID_ACCELEROMETER_2AXIS, 0, 200),
     (PHIDUID_ACCELEROMETER_2AXIS_10G, PHIDID_ACCELEROMETER_2AXIS, 200, 300),
     (PHIDUID_ACCELEROMETER_2AXIS_5G, PHIDID_ACCELEROMETER_2AXIS, 300, 400),
     (PHIDUID_ACCELEROMETER_3AXIS_3G, PHIDID_ACCELEROMETER_3AXIS, 400, 500),
     (PHIDUID_ADVANCEDSERVO_1MOTOR, PHIDID_ADVANCEDSERVO_1MOTOR, 100, 200),
     (PHIDUID_ADVANCEDSERVO_8MOTOR, PHIDID_ADVANCEDSERVO_8MOTOR, 100, 200),
     (PHIDUID_ADVANCEDSERVO_8MOTOR_PGOOD_FLAG, PHIDID_ADVANCEDSERVO_8MOTOR, 200, 300),
     (PHIDUID_ADVANCEDSERVO_8MOTOR_CURSENSE_FIX, PHIDID_ADVANCEDSERVO_8MOTOR, 300, 400),
     (PHIDUID_ANALOG_4OUTPUT, PHIDID_ANALOG_4OUTPUT, 100, 200),
     (PHIDUID_BRIDGE_4INPUT_GAINBUG, PHIDID_BRIDGE_4INPUT, 100, 102),
     (PHIDUID_BRIDGE_4INPUT, PHIDID_BRIDGE_4INPUT, 102, 200),
     (PHIDUID_ENCODER_1ENCODER_1INPUT_OLD, PHIDID_ENCODER_1ENCODER_1INPUT, 0, 101),
     (PHIDUID_ENCODER_1ENCODER_1INPUT_v1, PHIDID_ENCODER_1ENCODER_1INPUT, 101, 110),
     (PHIDUID_ENCODER_1ENCODER_1INPUT_v2, PHIDID_ENCODER_1ENCODER_1INPUT, 110, 300),
     (PHIDUID_ENCODER_HS_1ENCODER, PHIDID_ENCODER_HS_1ENCODER, 300, 400),
     (PHIDUID_ENCODER_HS_4ENCODER_4INPUT, PHIDID_ENCODER_HS_4ENCODER_4INPUT, 100, 200),
     (PHIDUID_FREQUENCYCOUNTER_2INPUT, PHIDID_FREQUENCYCOUNTER_2INPUT, 0, 200),
     (PHIDUID_GPS, PHIDID_GPS, 0, 9999),
     (PHIDUID_INTERFACEKIT_0_0_4_NO_ECHO, PHIDID_INTERFACEKIT_0_0_4, 0, 704),
     (PHIDUID_INTERFACEKIT_0_0_4, PHIDID_INTERFACEKIT_0_0_4, 704, 800),
     (PHIDUID_INTERFACEKIT_0_0_8, PHIDID_INTERFACEKIT_0_0_8, 0, 9999),
     (PHIDUID_INTERFACEKIT_0_5_7, PHIDID_INTERFACEKIT_0_5_7, 0, 9999),
     (PHIDUID_INTERFACEKIT_0_8_8_w_LCD, PHIDID_INTERFACEKIT_0_8_8_w_LCD, 0, 9999),
     (PHIDUID_INTERFACEKIT_0_16_16_NO_ECHO, PHIDID_INTERFACEKIT_0_16_16, 0, 601),
     (PHIDUID_INTERFACEKIT_0_16_16_BITBUG, PHIDID_INTERFACEKIT_0_16_16, 601, 602),
     (PHIDUID_INTERFACEKIT_0_16_16, PHIDID_INTERFACEKIT_0_16_16, 602, 700),
     (PHIDUID_INTERFACEKIT_2_2_2, PHIDID_INTERFACEKIT_2_2_2, 0, 200),
     (PHIDUID_INTERFACEKIT_2_8_8, PHIDID_INTERFACEKIT_2_8_8, 0, 9999),
     (PHIDUID_INTERFACEKIT_4_8_8, PHIDID_INTERFACEKIT_4_8_8, 0, 101),
     (PHIDUID_INTERFACEKIT_8_8_8_NO_ECHO, PHIDID_INTERFACEKIT_8_8_8, 0, 821),
     (PHIDUID_INTERFACEKIT_8_8_8, PHIDID_INTERFACEKIT_8_8_8, 821, 900),
     (PHIDUID_INTERFACEKIT_8_8_8_FAST, PHIDID_INTERFACEKIT_8_8_8, 900, 1000),
     (PHIDUID_INTERFACEKIT_8_8_8_w_LCD_NO_ECHO, PHIDID_INTERFACEKIT_8_8_8_w_LCD, 0, 120),
     (PHIDUID_INTERFACEKIT_8_8_8_w_LCD, PHIDID_INTERFACEKIT_8_8_8_w_LCD, 120, 200),
     (PHIDUID_INTERFACEKIT_8_8_8_w_LCD_FAST, PHIDID_INTERFACEKIT_8_8_8_w_LCD, 200, 300),
     (PHIDUID_INTERFACEKIT_TOUCH_SLIDER, PHIDID_LINEAR_TOUCH, 0, 9999),
     (PHIDUID_INTERFACEKIT_TOUCH_ROTARY, PHIDID_ROTARY_TOUCH, 0, 9999),
     (PHIDUID_IR, PHIDID_IR, 100, 200),
     (PHIDUID_LED_64, PHIDID_LED_64, 100, 300),
     (PHIDUID_LED_64_ADV, PHIDID_LED_64_ADV, 100, 200),
     (PHIDUID_LED_64_ADV_M3, PHIDID_LED_64_ADV, 200, 300),
     (PHIDUID_MOTORCONTROL_1MOTOR, PHIDID_MOTORCONTROL_1MOTOR, 100, 200),
     (PHIDUID_MOTORCONTROL_HC_2MOTOR, PHIDID_MOTORCONTROL_HC_2MOTOR, 100, 200),
     (PHIDUID_MOTORCONTROL_LV_2MOTOR_4INPUT, PHIDID_MOTORCONTROL_LV_2MOTOR_4INPUT, 100, 200),
     (PHIDUID_PHSENSOR, PHIDID_PHSENSOR, 100, 200),
     (PHIDUID_RFID_OLD, PHIDID_RFID, 0, 104),
     (PHIDUID_RFID, PHIDID_RFID, 104, 200),
     (PHIDUID_RFID_2OUTPUT_NO_ECHO, PHIDID_RFID_2OUTPUT, 200, 201),
     (PHIDUID_RFID_2OUTPUT, PHIDID_RFID_2OUTPUT, 201, 300),
     (PHIDUID_RFID_2OUTPUT_READ_WRITE, PHIDID_RFID_2OUTPUT_READ_WRITE, 100, 200),
     (PHIDUID_SERVO_1MOTOR_OLD, PHIDID_SERVO_1MOTOR_OLD, 200, 201),
     (PHIDUID_SERVO_1MOTOR_OLD, PHIDID_SERVO_1MOTOR, 200, 201),
     (PHIDUID_SERVO_4MOTOR_OLD, PHIDID_SERVO_4MOTOR_OLD, 200, 201),
     (PHIDUID_SERVO_4MOTOR_OLD, PHIDID_SERVO_4MOTOR, 200, 201),
     (PHIDUID_SERVO_1MOTOR_NO_ECHO, PHIDID_SERVO_1MOTOR, 300, 313),
     (PHIDUID_SERVO_1MOTOR, PHIDID_SERVO_1MOTOR, 313, 400),
     (PHIDUID_SERVO_4MOTOR_NO_ECHO, PHIDID_SERVO_4MOTOR, 300, 313),
     (PHIDUID_SERVO_4MOTOR, PHIDID_SERVO_4MOTOR, 313, 400),
     (PHIDUID_SPATIAL_ACCEL_3AXIS_1049, PHIDID_SPATIAL_ACCEL_3AXIS, 0, 200),
     (PHIDUID_SPATIAL_ACCEL_3AXIS_1041, PHIDID_SPATIAL_ACCEL_3AXIS, 200, 300),
     (PHIDUID_SPATIAL_ACCEL_3AXIS_1043, PHIDID_SPATIAL_ACCEL_3AXIS, 300, 400),
     (PHIDUID_SPATIAL_ACCEL_GYRO_COMPASS_1056, PHIDID_SPATIAL_ACCEL_GYRO_COMPASS, 0, 200),
     (PHIDUID_SPATIAL_ACCEL_GYRO_COMPASS_1056_NEG_GAIN, PHIDID_SPATIAL_ACCEL_GYRO_COMPASS, 200, 300),
     (PHIDUID_SPATIAL_ACCEL_GYRO_COMPASS_1042, PHIDID_SPATIAL_ACCEL_GYRO_COMPASS, 300, 400),
     (PHIDUID_SPATIAL_ACCEL_GYRO_COMPASS_1044, PHIDID_SPATIAL_ACCEL_GYRO_COMPASS, 400, 500),
     (PHIDUID_STEPPER_BIPOLAR_1MOTOR, PHIDID_BIPOLAR_STEPPER_1MOTOR, 100, 200),
     (PHIDUID_STEPPER_BIPOLAR_1MOTOR_M3, PHIDID_BIPOLAR_STEPPER_1MOTOR, 200, 300),
     (PHIDUID_STEPPER_UNIPOLAR_4MOTOR, PHIDID_UNIPOLAR_STEPPER_4MOTOR, 100, 200),
     (PHIDUID_TEMPERATURESENSOR_OLD, PHIDID_TEMPERATURESENSOR, 0, 200),
     (PHIDUID_TEMPERATURESENSOR, PHIDID_TEMPERATURESENSOR, 200, 300),
     (PHIDUID_TEMPERATURESENSOR_AD22100, PHIDID_TEMPERATURESENSOR, 300, 400),
     (PHIDUID_TEMPERATURESENSOR_TERMINAL_BLOCKS, PHIDID_TEMPERATURESENSOR, 400, 500),
     (PHIDUID_TEMPERATURESENSOR_4, PHIDID_TEMPERATURESENSOR_4, 100, 200),
     (PHIDUID_TEMPERATURESENSOR_IR, PHIDID_TEMPERATURESENSOR_IR, 100, 200),
     (PHIDUID_TEXTLCD_2x20, PHIDID_TEXTLCD_2x20, 0, 9999),
     (PHIDUID_TEXTLCD_2x20, PHIDID_TEXTLCD_2x20_CUSTOM, 0, 9999),
     (PHIDUID_TEXTLCD_2x20, PHIDID_TEXTLCD_2x20_w_0_8_8, 0, 9999),
     (PHIDUID_TEXTLCD_2x20_w_8_8_8, PHIDID_TEXTLCD_2x20_w_8_8_8, 0, 200),
     (PHIDUID_TEXTLCD_2x20_w_8_8_8_BRIGHTNESS, PHIDID_TEXTLCD_2x20_w_8_8_8, 200, 9999),
     (PHIDUID_TEXTLCD_ADAPTER, PHIDID_TEXTLCD_ADAPTER, 0, 9999),
     (PHIDUID_TEXTLED_1x8, PHIDID_TEXTLED_1x8, 111, 114),
     (PHIDUID_TEXTLED_4x8, PHIDID_TEXTLED_4x8, 200, 300),
     (PHIDUID_WEIGHTSENSOR, PHIDID_WEIGHTSENSOR, 0, 9999),
     (PHIDUID_FIRMWARE_UPGRADE, PHIDID_FIRMWARE_UPGRADE, 0, 9999),
     (PHIDUID_GENERIC, PHIDID_GENERIC, 0, 9999)]"

fun uid_lookup :: "CPhidgetUniqueDeviceDef list \<Rightarrow> CPhidget_DeviceID \<Rightarrow> int \<Rightarrow> CPhidget_DeviceUID" where
  "uid_lookup [] i version = PHIDUID_NOTHING"
| "uid_lookup ((u, j, vlow, vhigh) # rows) i version =
     (if j = i \<and> vlow \<le> version \<and> version < vhigh then u else uid_lookup rows i version)"

definition CPhidget_getUID :: "CPhidget_DeviceID \<Rightarrow> int \<Rightarrow> CPhidget_DeviceUID" where
  "CPhidget_getUID i version = uid_lookup Phid_Unique_Device_Def i version"

section \<open>Lookups\<close>

text \<open>The first class with the name, -1 when there is none.\<close>

fun name_index :: "string list \<Rightarrow> string \<Rightarrow> int \<Rightarrow> int" where
  "name_index [] name i = -1"
| "name_index (n # ns) name i = (if strcmp n name = 0 then i else name_index ns name (i + 1))"

definition phidget_type_to_id :: "string \<Rightarrow> int" where
  "phidget_type_to_id name = name_index Phid_DeviceName name 0"

definition CPhidget_strerror :: "int \<Rightarrow> string" where
  "CPhidget_strerror e =
     (if e < 0 \<or> int (length Phid_ErrorDescriptions) \<le> e then ''Unknown Error Code.''
      else Phid_ErrorDescriptions ! nat e)"

definition CPhidget_getErrorDescription :: "int \<Rightarrow> ecode \<times> string" where
  "CPhidget_getErrorDescription e =
     (if e < 0 \<or> 20 \<le> e then (EPHIDGET_INVALID, CPhidget_strerror (ecode_num EPHIDGET_INVALID))
      else (EPHIDGET_OK, CPhidget_strerror e))"

section \<open>Properties\<close>

text \<open>Two rows that can select the same device and version are the same row.\<close>

fun rows_disjoint :: "CPhidgetUniqueDeviceDef list \<Rightarrow> bool" where
  "rows_disjoint [] = True"
| "rows_disjoint ((u, i, lo, hi) # rows) =
     (list_all (\<lambda>(u', i', lo', hi'). i \<noteq> i' \<or> hi \<le> lo' \<or> hi' \<le> lo) rows \<and> rows_disjoint rows)"

lemma uid_table_disjoint: "rows_disjoint Phid_Unique_Device_Def"
  by (simp add: Phid_Unique_Device_Def_def)

lemma uid_lookup_row:
  "rows_disjoint rows \<Longrightarrow> (u, i, lo, hi) \<in> set rows \<Longrightarrow> lo \<le> v \<Longrightarrow> v < hi \<Longrightarrow> uid_lookup rows i v = u"
  by (induction rows rule: rows_disjoint.induct) (auto simp: list_all_iff)

lemma uid_lookup_none:
  "\<forall>(u, j, lo, hi) \<in> set rows. \<not> (j = i \<and> lo \<le> v \<and> v < hi) \<Longrightarrow> uid_lookup rows i v = PHIDUID_NOTHING"
  by (induction rows) auto

text \<open>
  C14: \<open>CPhidget_getUID\<close> returns the unique id of a row exactly when the version lies in the
  row's range: the ranges of one device id do not overlap, so the order of the table does
  not matter, and a version in no range gets PHIDUID_NOTHING.\<close>

theorem getUID_unique:
  "(\<forall>(u, j, lo, hi) \<in> set Phid_Unique_Device_Def. j = i \<and> lo \<le> v \<and> v < hi \<longrightarrow> CPhidget_getUID i v = u)
   \<and> ((\<forall>(u, j, lo, hi) \<in> set Phid_Unique_Device_Def. \<not> (j = i \<and> lo \<le> v \<and> v < hi))
        \<longrightarrow> CPhidget_getUID i v = PHIDUID_NOTHING)"
  using uid_lookup_row [OF uid_table_disjoint] uid_lookup_none [of Phid_Unique_Device_Def i v]
  by (auto simp only: CPhidget_getUID_def split: prod.splits)

theorem getUID_unique_witness: "CPhidget_getUID PHIDID_INTERFACEKIT_8_8_8 900 = PHIDUID_INTERFACEKIT_8_8_8_FAST"
proof -
  have "(PHIDUID_INTERFACEKIT_8_8_8_FAST, PHIDID_INTERFACEKIT_8_8_8, 900, 1000) \<in> set Phid_Unique_Device_Def"
    by (simp add: Phid_Unique_Device_Def_def)
  with getUID_unique [of PHIDID_INTERFACEKIT_8_8_8 900] show ?thesis by fastforce
qed

end
