(* ===== verification/Codec.thy ===== *)
theory Codec
  imports Prelude
begin

text \<open>
  The text encodings of \<open>utils/utils.c\<close>: hexadecimal digits, the backslash escaping that
  the dictionary protocol puts on values, and the hexadecimal forms of byte and word
  arrays. Destination buffers are explicit: a write behind the allocated or given size is
  \<open>Inl Out_Of_Bounds\<close>, so that a theorem about a result \<open>Inr\<close> also says that the C code
  stays inside its buffers.
\<close>

section \<open>Hexadecimal digits\<close>

definition hexval :: "char \<Rightarrow> int" where
  "hexval ch =
     (let c = of_char ch :: nat in
      if 48 \<le> c \<and> c \<le> 57 then int c - 48
      else let c = (if 65 \<le> c \<and> c \<le> 90 then c + 32 else c)
           in if c \<le> 102 \<and> 97 \<le> c then int c - 97 + 10 else -1)"

definition hexchar :: "nat \<Rightarrow> char" where
  "hexchar c = (if c > 16 then CHR ''f''
                else if c \<ge> 10 then char_of (c - 10 + 97)
                else char_of (c + 48))"

lemma hexval_hexchar [simp]: "n < 16 \<Longrightarrow> hexval (hexchar n) = int n"
  by (auto simp: hexval_def hexchar_def Let_def)

lemma hexval_bounds: "-1 \<le> hexval c \<and> hexval c < 16"
  by (auto simp: hexval_def Let_def)

section \<open>Bounded stores\<close>

definition store :: "nat \<Rightarrow> string \<Rightarrow> string cres" where
  "store cap xs = (if length xs \<le> cap then Inr xs else Inl Out_Of_Bounds)"

text \<open>Overwrite a piece of a character array in place.\<close>

definition write_at :: "string \<Rightarrow> nat \<Rightarrow> string \<Rightarrow> string cres" where
  "write_at buf pos s =
     (if pos + length s \<le> length buf
      then Inr (take pos buf @ s @ drop (pos + length s) buf) else Inl Out_Of_Bounds)"

lemma length_write_at: "write_at buf pos s = Inr b \<Longrightarrow> length b = length buf"
  by (auto simp: write_at_def split: if_splits)

section \<open>Escaping of dictionary values\<close>

definition is_alnum :: "char \<Rightarrow> bool" where
  "is_alnum ch = (let c = of_char ch :: nat in
     48 \<le> c \<and> c \<le> 57 \<or> 65 \<le> c \<and> c \<le> 90 \<or> 97 \<le> c \<and> c \<le> 122)"

definition passthru :: "char \<Rightarrow> bool" where
  "passthru c \<longleftrightarrow>
     is_alnum c \<or> c = CHR ''.'' \<or> c = CHR ''/'' \<or> c = CHR '':'' \<or> c = CHR ''%''"

abbreviation backslash :: char where "backslash \<equiv> CHR 0x5C"

text \<open>The first pass of \<open>unescape\<close>: the number of characters it will store.\<close>

fun unescape_len :: "string \<Rightarrow> nat" where
  "unescape_len [] = 0"
| "unescape_len (c # s) =
     Suc (if c = backslash then unescape_len (drop 3 s) else unescape_len s)"

text \<open>
  The second pass, on the rest of the source behind the current position. An escape reads
  two and three characters ahead.
\<close>

fun unescape_loop :: "string \<Rightarrow> string cres" where
  "unescape_loop [] = Inr []"
| "unescape_loop (c # s) =
     (if c = backslash then
        (case str_at s 1 of Inl e \<Rightarrow> Inl e | Inr a \<Rightarrow>
        (case str_at s 2 of Inl e \<Rightarrow> Inl e | Inr b \<Rightarrow>
        (case unescape_loop (drop 3 s) of Inl e \<Rightarrow> Inl e | Inr t \<Rightarrow>
           Inr (char_of (nat ((hexval a * 16 + hexval b) mod 256)) # t))))
      else (case unescape_loop s of Inl e \<Rightarrow> Inl e | Inr t \<Rightarrow> Inr (c # t)))"

text \<open>\<open>None\<close> is the return value 0 (no memory), \<open>Some\<close> the unescaped bytes.\<close>

definition unescape :: "memory \<Rightarrow> string \<Rightarrow> (string option \<times> memory) cres" where
  "unescape m src =
     (case alloc m of
        (False, m') \<Rightarrow> Inr (None, m')
      | (True, m') \<Rightarrow>
          (case unescape_loop src of Inl e \<Rightarrow> Inl e | Inr dst \<Rightarrow>
           (case store (unescape_len src + 1) (dst @ [NUL]) of Inl e \<Rightarrow> Inl e
            | Inr _ \<Rightarrow> Inr (Some dst, m'))))"

definition escape_len :: "bool \<Rightarrow> string \<Rightarrow> nat" where
  "escape_len escbacks s =
     sum_list (map (\<lambda>c. if passthru c then 1 else if escbacks then 6 else 4) s)"

definition escape_char :: "bool \<Rightarrow> char \<Rightarrow> string" where
  "escape_char escbacks c =
     (if \<not> passthru c then
        [backslash] @ (if escbacks then [backslash] else []) @
        [CHR ''x'', hexchar (of_char c div 16), hexchar (of_char c mod 16)]
      else [c])"

text \<open>The result of \<open>escape2\<close> is the whole stored array, terminator included.\<close>

definition escape2 :: "memory \<Rightarrow> string \<Rightarrow> nat \<Rightarrow> bool \<Rightarrow> (string option \<times> memory) cres" where
  "escape2 m src slen escbacks =
     (let slen = (if slen = 0 then length src else slen) in
      if slen > length src + 1 then Inl Out_Of_Bounds
      else let s = take slen (src @ [NUL]) in
        (case alloc m of
           (False, m') \<Rightarrow> Inr (None, m')
         | (True, m') \<Rightarrow>
             (case store (escape_len escbacks s + 1) (concat (map (escape_char escbacks) s) @ [NUL])
              of Inl e \<Rightarrow> Inl e | Inr d \<Rightarrow> Inr (Some d, m'))))"

definition escape :: "memory \<Rightarrow> string \<Rightarrow> nat \<Rightarrow> (string option \<times> memory) cres" where
  "escape m src slen = escape2 m src slen False"

subsection \<open>Escaping and unescaping are inverse\<close>

lemma length_escape_char: "length (escape_char b c) \<le>
    (if passthru c then 1 else if b then 6 else 4)"
  by (auto simp: escape_char_def)

lemma length_escape_chars: "length (concat (map (escape_char b) s)) \<le> escape_len b s"
proof (induction s)
  case (Cons c s)
  with length_escape_char [of b c] show ?case
    by (auto simp: escape_len_def)
qed (simp add: escape_len_def)

lemma not_passthru_backslash [simp]: "\<not> passthru backslash"
  by (simp add: passthru_def is_alnum_def)

lemma not_passthru_marks:
  "\<not> passthru (CHR 0x22)" "\<not> passthru (CHR '' '')" "\<not> passthru (CHR 0x09)"
  "\<not> passthru (CHR 0x0A)" "\<not> passthru (CHR 0x0D)"
  by (simp_all add: passthru_def is_alnum_def)

lemma unescape_loop_length: "unescape_loop s = Inr t \<Longrightarrow> length t = unescape_len s"
  by (induction s arbitrary: t rule: unescape_loop.induct)
     (auto split: if_splits sum.splits)

lemma nibble_high [simp]: "(of_char c :: nat) div 16 < 16"
  by (rule less_mult_imp_div_less) simp

lemma unescape_loop_escape_char:
  "unescape_loop (escape_char False c @ s) =
   (case unescape_loop s of Inl e \<Rightarrow> Inl e | Inr t \<Rightarrow> Inr (c # t))"
proof (cases "passthru c")
  case True
  then have "c \<noteq> backslash" by (metis not_passthru_backslash)
  with True show ?thesis by (simp add: escape_char_def)
next
  case False
  have lt: "of_char c div 16 < (16 :: nat)" "of_char c mod 16 < (16 :: nat)"
    by simp_all
  have "nat ((int (of_char c div 16) * 16 + int (of_char c mod 16)) mod 256) = of_char c"
    using nat_of_char_less_256 [of c]
    by (metis div_mult_mod_eq mod_less nat_int of_nat_add of_nat_mult of_nat_numeral zmod_int)
  with False lt show ?thesis
    by (simp add: escape_char_def str_at_def split: sum.splits)
qed

lemma unescape_loop_escape: "unescape_loop (concat (map (escape_char False) s)) = Inr s"
  by (induction s) (simp_all add: unescape_loop_escape_char)

lemma escape_result:
  "nul_free s \<Longrightarrow> escape [] s (length s) = Inr (Some (concat (map (escape_char False) s) @ [NUL]), [])"
  using length_escape_chars [of False s]
  by (auto simp: escape_def escape2_def store_def Let_def)

lemma set_escape_char: "set (escape_char b c) \<subseteq> {x. passthru x} \<union> {backslash}"
proof -
  have hex: "passthru (hexchar n)" if "n < 16" for n
    using that by (auto simp: passthru_def is_alnum_def hexchar_def Let_def)
  have "passthru (CHR ''x'')" by (simp add: passthru_def is_alnum_def)
  then show ?thesis by (auto simp: escape_char_def hex)
qed

text \<open>
  C11: a value that \<open>escape\<close> has encoded and \<open>unescape\<close> decoded is the value that went in,
  for every C string; neither routine leaves its buffer on the way.
\<close>

theorem unescape_escape:
  assumes "nul_free s"
  shows "\<exists>d. escape [] s (length s) = Inr (Some d, []) \<and>
             unescape [] (c_str d) = Inr (Some s, [])"
proof -
  let ?e = "concat (map (escape_char False) s)"
  have "\<not> passthru NUL" by (simp add: passthru_def is_alnum_def)
  then have "nul_free ?e"
    using set_escape_char [of False] by (fastforce simp: nul_free_def)
  then have "c_str (?e @ [NUL]) = ?e"
    by (simp add: c_str_def takeWhile_append nul_free_def)
  moreover have "unescape [] ?e = Inr (Some s, [])"
    using unescape_loop_length [OF unescape_loop_escape, of s]
    by (simp add: unescape_def unescape_loop_escape store_def)
  ultimately show ?thesis using escape_result [OF assms] by auto
qed

theorem unescape_escape_witness:
  "nul_free ''a b\"'' \<and>
   (\<exists>d. escape [] ''a b\"'' (length ''a b\"'') = Inr (Some d, []) \<and>
        unescape [] (c_str d) = Inr (Some ''a b\"'', []))"
proof -
  have h: "nul_free ''a b\"''" by simp
  show ?thesis using h unescape_escape [OF h] by blast
qed

text \<open>No escape is cut short by the end of the text.\<close>

fun whole_escapes :: "string \<Rightarrow> bool" where
  "whole_escapes [] = True"
| "whole_escapes (c # s) =
     (if c = backslash then 2 \<le> length s \<and> whole_escapes (drop 3 s) else whole_escapes s)"

lemma unescape_loop_safe: "whole_escapes s \<longleftrightarrow> ok (unescape_loop s)"
  by (induction s rule: unescape_loop.induct) (auto simp: str_at_def split: sum.splits)

text \<open>
  \<open>unescape\<close> reads behind the end of its source exactly when a backslash stands in one
  of the last two positions it looks at; otherwise it returns the decoded text and its
  buffer, sized by the first pass, is large enough.
\<close>

theorem unescape_safe_iff: "ok (unescape [] s) \<longleftrightarrow> whole_escapes s"
proof (cases "unescape_loop s")
  case (Inl e)
  then show ?thesis using unescape_loop_safe [of s] by (simp add: unescape_def)
next
  case (Inr t)
  then show ?thesis
    using unescape_loop_safe [of s] unescape_loop_length [OF Inr]
    by (simp add: unescape_def store_def)
qed

text \<open>
  What \<open>escape\<close> produces can be put between double quotes on one protocol line: it
  holds no quote, blank, tab, newline or carriage return, only letters, digits, the four
  pass-through marks and backslashes.
\<close>

theorem escape_line_safe:
  assumes "nul_free s" and "escape [] s (length s) = Inr (Some d, [])"
  shows "\<forall>c \<in> set (c_str d). c \<notin> {CHR 0x22, CHR '' '', CHR 0x09, CHR 0x0A, CHR 0x0D} \<and>
           (passthru c \<or> c = backslash)"
proof -
  have "set (c_str d) \<subseteq> {x. passthru x} \<union> {backslash}"
    using assms escape_result [OF assms(1)] set_escape_char [of False]
    by (fastforce simp: c_str_def dest!: set_takeWhileD)
  then show ?thesis using not_passthru_marks by fastforce
qed

theorem escape_line_safe_witness:
  "\<exists>d. escape [] ''x y'' (length ''x y'') = Inr (Some d, []) \<and>
     (\<forall>c \<in> set (c_str d). c \<notin> {CHR 0x22, CHR '' '', CHR 0x09, CHR 0x0A, CHR 0x0D} \<and>
           (passthru c \<or> c = backslash))"
proof -
  have h: "nul_free ''x y''" by simp
  show ?thesis using escape_result [OF h] escape_line_safe [OF h escape_result [OF h]] by blast
qed

text \<open>The pair as an instance of the codec interface.\<close>

definition escaped :: "string \<Rightarrow> string" where
  "escaped s = concat (map (escape_char False) s)"

definition unescaped :: "string \<Rightarrow> string option" where
  "unescaped s = (case unescape_loop s of Inl e \<Rightarrow> None | Inr t \<Rightarrow> Some t)"

interpretation esc: codec escaped unescaped "\<lambda>_. True"
  by unfold_locales (simp add: escaped_def unescaped_def unescape_loop_escape)

end
