(* ===== verification/Decimal.thy ===== *)
theory Decimal
  imports Prelude
begin

text \<open>
  Decimal numbers as the C library prints and reads them: \<open>%d\<close>, \<open>%0nd\<close>, and \<open>strtol\<close> in base
  10 with a 32-bit \<open>long\<close> (the ARM platform of the project), which \<open>atoi\<close> calls. Reading
  skips white space, takes an optional sign and the digits, and cuts a value outside the
  range of \<open>long\<close> to its end.
\<close>

section \<open>Printing\<close>

fun dec_nat :: "nat \<Rightarrow> string" where
  "dec_nat n =
     (if n < 10 then [char_of (n + 48)] else dec_nat (n div 10) @ [char_of (n mod 10 + 48)])"

declare dec_nat.simps [simp del]

definition dec_int :: "int \<Rightarrow> string" where
  "dec_int i = (if i < 0 then CHR ''-'' # dec_nat (nat (- i)) else dec_nat (nat i))"

definition dec_pad :: "nat \<Rightarrow> int \<Rightarrow> string" where
  "dec_pad w i =
     (if i < 0 then CHR ''-'' # replicate (w - 1 - length (dec_nat (nat (- i)))) (CHR ''0'') @ dec_nat (nat (- i))
      else replicate (w - length (dec_nat (nat i))) (CHR ''0'') @ dec_nat (nat i))"

section \<open>Reading\<close>

definition is_digit :: "char \<Rightarrow> bool" where
  "is_digit c \<longleftrightarrow> 48 \<le> (of_char c :: nat) \<and> (of_char c :: nat) \<le> 57"

definition is_space :: "char \<Rightarrow> bool" where
  "is_space c \<longleftrightarrow> (of_char c :: nat) = 32 \<or> 9 \<le> (of_char c :: nat) \<and> (of_char c :: nat) \<le> 13"

definition digits_value :: "string \<Rightarrow> nat" where
  "digits_value s = foldl (\<lambda>n c. 10 * n + (of_char c - 48)) 0 s"

definition signed_value :: "string \<Rightarrow> int" where
  "signed_value s =
     (case s of
        [] \<Rightarrow> 0
      | c # t \<Rightarrow>
          if c = CHR ''-'' then - int (digits_value (takeWhile is_digit t))
          else if c = CHR ''+'' then int (digits_value (takeWhile is_digit t))
          else int (digits_value (takeWhile is_digit s)))"

definition strtol :: "string \<Rightarrow> int" where
  "strtol s = max (- (2 ^ 31)) (min (2 ^ 31 - 1) (signed_value (dropWhile is_space s)))"

definition atoi :: "string \<Rightarrow> int" where
  "atoi s = strtol s"

section \<open>What is printed can be read\<close>

lemma of_char_digit: "d < 10 \<Longrightarrow> of_char (char_of (d + 48 :: nat)) = d + 48"
  by (simp add: of_char_of)

lemma digits_value_snoc: "digits_value (s @ [c]) = 10 * digits_value s + (of_char c - 48)"
  by (simp add: digits_value_def)

lemma dec_nat_digits: "\<forall>c \<in> set (dec_nat n). is_digit c"
proof (induction n rule: dec_nat.induct)
  case (1 n)
  then show ?case
    by (subst dec_nat.simps) (auto simp: is_digit_def of_char_digit)
qed

lemma digits_value_dec_nat [simp]: "digits_value (dec_nat n) = n"
proof (induction n rule: dec_nat.induct)
  case (1 n)
  show ?case
  proof (cases "n < 10")
    case True
    then show ?thesis by (subst dec_nat.simps) (simp add: digits_value_def of_char_digit)
  next
    case False
    with 1 show ?thesis by (subst dec_nat.simps) (simp add: digits_value_snoc of_char_digit)
  qed
qed

lemma dec_nat_not_Nil [simp]: "dec_nat n \<noteq> []"
  by (subst dec_nat.simps) simp

lemma digit_not_other: "is_digit c \<Longrightarrow> \<not> is_space c \<and> c \<noteq> CHR ''-'' \<and> c \<noteq> CHR ''+'' \<and> c \<noteq> NUL"
  by (auto simp: is_digit_def is_space_def)

lemma nul_free_dec_nat [simp]: "nul_free (dec_nat n)"
  using dec_nat_digits [of n] digit_not_other by (auto simp: nul_free_def)

lemma nul_free_dec_int [simp]: "nul_free (dec_int i)"
  by (simp add: dec_int_def)

lemma signed_value_dec_int: "signed_value (dec_int i) = i"
proof (cases "i < 0")
  case True
  then show ?thesis
    using dec_nat_digits [of "nat (- i)"]
    by (simp add: dec_int_def signed_value_def takeWhile_eq_all_conv [THEN iffD2])
next
  case False
  obtain c t where ct: "dec_nat (nat i) = c # t" by (cases "dec_nat (nat i)") auto
  then have "is_digit c" and all: "takeWhile is_digit (c # t) = c # t"
    using dec_nat_digits [of "nat i"] by (simp_all add: takeWhile_eq_all_conv [THEN iffD2])
  have "signed_value (c # t) = int (digits_value (c # t))"
    using digit_not_other [OF \<open>is_digit c\<close>] by (simp add: signed_value_def all del: takeWhile.simps)
  with False show ?thesis by (simp add: dec_int_def flip: ct)
qed

lemma strtol_dec_int:
  assumes "- (2 ^ 31) \<le> i" and "i < 2 ^ 31"
  shows "strtol (dec_int i) = i"
proof -
  have "\<not> is_space (hd (dec_int i))"
  proof (cases "i < 0")
    case False
    have "hd (dec_nat (nat i)) \<in> set (dec_nat (nat i))" by (rule hd_in_set) simp
    then have "is_digit (hd (dec_nat (nat i)))" using dec_nat_digits by blast
    with False show ?thesis using digit_not_other by (simp add: dec_int_def)
  qed (simp add: dec_int_def is_space_def)
  moreover have "dec_int i \<noteq> []" by (simp add: dec_int_def)
  ultimately have "dropWhile is_space (dec_int i) = dec_int i"
    by (cases "dec_int i") simp_all
  with assms show ?thesis by (simp add: strtol_def signed_value_dec_int)
qed

interpretation decimal: codec dec_int "\<lambda>s. Some (strtol s)" "\<lambda>i. - (2 ^ 31) \<le> i \<and> i < 2 ^ 31"
  by unfold_locales (simp add: strtol_dec_int)

end
