(* ===== verification/Device.thy ===== *)
theory Device
  imports DeviceTable Codec Decimal
begin

text \<open>
  The device handle (\<open>struct _CPhidget\<close> of \<open>cphidget.h\<close>) and the operations of \<open>cphidget.c\<close>
  that do not change the lists of devices: status flags, comparison of handles, the getters
  and the wait for attachment. A handle or result pointer that may be NULL is an argument of
  type \<open>option\<close> or \<open>bool\<close>, tested by \<open>TESTPTR\<close> and \<open>TESTPTRS\<close>. Mutexes are not modelled: each
  operation runs while it holds the locks of the code.
\<close>

section \<open>Status flags\<close>

definition PHIDGET_ATTACHED_FLAG :: "32 word" where "PHIDGET_ATTACHED_FLAG = 0x01"
definition PHIDGET_DETACHING_FLAG :: "32 word" where "PHIDGET_DETACHING_FLAG = 0x02"
definition PHIDGET_USB_ERROR_FLAG :: "32 word" where "PHIDGET_USB_ERROR_FLAG = 0x04"
definition PHIDGET_ATTACHING_FLAG :: "32 word" where "PHIDGET_ATTACHING_FLAG = 0x08"
definition PHIDGET_OPENED_FLAG :: "32 word" where "PHIDGET_OPENED_FLAG = 0x10"
definition PHIDGET_SERVER_CONNECTED_FLAG :: "32 word" where "PHIDGET_SERVER_CONNECTED_FLAG = 0x20"
definition PHIDGET_REMOTE_FLAG :: "32 word" where "PHIDGET_REMOTE_FLAG = 0x40"
definition PHIDGETSOCKET_CONNECTED_FLAG :: "32 word" where "PHIDGETSOCKET_CONNECTED_FLAG = 0x01"

definition CPhidget_statusFlagIsSet :: "32 word \<Rightarrow> 32 word \<Rightarrow> bool" where
  "CPhidget_statusFlagIsSet status flag \<longleftrightarrow> status AND flag \<noteq> 0"

definition CPhidget_setStatusFlag :: "32 word \<Rightarrow> 32 word \<Rightarrow> 32 word" where
  "CPhidget_setStatusFlag status flag = status OR flag"

definition CPhidget_clearStatusFlag :: "32 word \<Rightarrow> 32 word \<Rightarrow> 32 word" where
  "CPhidget_clearStatusFlag status flag = status AND NOT flag"

text \<open>Each flag is one bit; the collection \<open>flag_simps\<close> computes tests after updates.\<close>

named_theorems flag_simps "status flags as bits"

lemma flags_are_bits:
  "PHIDGET_ATTACHED_FLAG = push_bit 0 1" "PHIDGET_DETACHING_FLAG = push_bit 1 1"
  "PHIDGET_USB_ERROR_FLAG = push_bit 2 1" "PHIDGET_ATTACHING_FLAG = push_bit 3 1"
  "PHIDGET_OPENED_FLAG = push_bit 4 1" "PHIDGET_SERVER_CONNECTED_FLAG = push_bit 5 1"
  "PHIDGET_REMOTE_FLAG = push_bit 6 1"
  by (simp_all add: PHIDGET_ATTACHED_FLAG_def PHIDGET_DETACHING_FLAG_def PHIDGET_USB_ERROR_FLAG_def
      PHIDGET_ATTACHING_FLAG_def PHIDGET_OPENED_FLAG_def PHIDGET_SERVER_CONNECTED_FLAG_def PHIDGET_REMOTE_FLAG_def
      push_bit_eq_mult)

lemma isSet_bit: "CPhidget_statusFlagIsSet s (push_bit n 1) \<longleftrightarrow> bit s n"
  by (auto simp: CPhidget_statusFlagIsSet_def and_exp_eq_0_iff_not_bit push_bit_of_1)

lemma set_bit: "n < 32 \<Longrightarrow> bit (CPhidget_setStatusFlag s (push_bit n 1)) m \<longleftrightarrow> m = n \<or> bit s m"
  by (auto simp: CPhidget_setStatusFlag_def bit_or_iff push_bit_of_1 bit_exp_iff)

lemma clear_bit: "bit (CPhidget_clearStatusFlag s (push_bit n 1)) m \<longleftrightarrow> m \<noteq> n \<and> bit s m"
  by (auto simp: CPhidget_clearStatusFlag_def bit_and_iff bit_not_iff push_bit_of_1 bit_exp_iff
      dest: bit_imp_le_length)

lemmas flag_bits [flag_simps] =
  isSet_bit [where n = 0, folded flags_are_bits] isSet_bit [where n = 1, folded flags_are_bits]
  isSet_bit [where n = 2, folded flags_are_bits] isSet_bit [where n = 3, folded flags_are_bits]
  isSet_bit [where n = 4, folded flags_are_bits] isSet_bit [where n = 5, folded flags_are_bits]
  isSet_bit [where n = 6, folded flags_are_bits]
  set_bit [where n = 0, folded flags_are_bits, simplified] set_bit [where n = 1, folded flags_are_bits, simplified]
  set_bit [where n = 2, folded flags_are_bits, simplified] set_bit [where n = 3, folded flags_are_bits, simplified]
  set_bit [where n = 4, folded flags_are_bits, simplified] set_bit [where n = 5, folded flags_are_bits, simplified]
  set_bit [where n = 6, folded flags_are_bits, simplified]
  clear_bit [where n = 0, folded flags_are_bits] clear_bit [where n = 1, folded flags_are_bits]
  clear_bit [where n = 2, folded flags_are_bits] clear_bit [where n = 3, folded flags_are_bits]
  clear_bit [where n = 4, folded flags_are_bits] clear_bit [where n = 5, folded flags_are_bits]
  clear_bit [where n = 6, folded flags_are_bits]

section \<open>The handle\<close>

record socket_client =
  srv_status :: "32 word"
  srv_address :: "string option"
  srv_port :: "string option"

text \<open>\<open>mdns\<close>: the device was found by zeroconf and not by an address.\<close>

record remote =
  rm_server :: "socket_client option"
  requested_address :: string
  requested_port :: string
  requested_serverID :: "string option"
  mdns :: bool
  zeroconf_server_id :: "string option"
  zeroconf_host :: "string option"
  zeroconf_port :: "string option"
  uniqueConnectionID :: int

text \<open>
  A handler is a function pointer and its user pointer. An open \<open>deviceHandle\<close> is given by
  the device and the interface it has claimed; the fields \<open>pdd_iid\<close> and \<open>pdd_name\<close> stand for
  the row \<open>deviceDef\<close> points to.
\<close>

type_synonym handler = "(addr \<times> addr) option"

record phidget =
  networkInfo :: "remote option"
  ph_status :: "32 word"
  keyCount :: int
  deviceHandle :: "(string \<times> nat) option"
  specificDevice :: int
  deviceID :: CPhidget_DeviceClass
  deviceIDSpec :: CPhidget_DeviceID
  deviceUID :: CPhidget_DeviceUID
  pdd_iid :: nat
  pdd_name :: string
  attr :: "nat list"
  deviceVersion :: int
  serialNumber :: int
  ProductID :: nat
  VendorID :: nat
  deviceType :: string
  outputReportByteLength :: nat
  inputReportByteLength :: nat
  ph_label :: string
  usbProduct :: string
  firmwareUpgradeName :: string
  GPPResponse :: "8 word"
  CPhidgetFHandle :: "string option"
  tryAgainCounter :: int
  interruptOutEndpoint :: bool
  writeStopFlag :: bool
  fptrAttach :: handler
  fptrDetach :: handler
  fptrError :: handler
  fptrServerConnect :: handler
  fptrServerDisconnect :: handler

abbreviation (input) PHIDGETOPEN_ANY :: int where "PHIDGETOPEN_ANY \<equiv> 0"
abbreviation (input) PHIDGETOPEN_SERIAL :: int where "PHIDGETOPEN_SERIAL \<equiv> 1"
abbreviation (input) PHIDGETOPEN_ANY_ATTACHED :: int where "PHIDGETOPEN_ANY_ATTACHED \<equiv> 2"
abbreviation (input) PHIDGETOPEN_LABEL :: int where "PHIDGETOPEN_LABEL \<equiv> 4"
abbreviation (input) MAX_LABEL_SIZE :: nat where "MAX_LABEL_SIZE \<equiv> 10"
abbreviation (input) MAX_LABEL_STORAGE :: nat where "MAX_LABEL_STORAGE \<equiv> 41"

text \<open>The state of a handle after \<open>ZEROMEM\<close> and clearing the attached flag.\<close>

definition zero_phidget :: phidget where
  "zero_phidget =
     \<lparr> networkInfo = None, ph_status = 0, keyCount = 0, deviceHandle = None, specificDevice = 0,
       deviceID = 0, deviceIDSpec = 0, deviceUID = 0, pdd_iid = 0, pdd_name = [], attr = [], deviceVersion = 0,
       serialNumber = 0, ProductID = 0, VendorID = 0, deviceType = [], outputReportByteLength = 0, inputReportByteLength = 0,
       ph_label = [], usbProduct = [], firmwareUpgradeName = [], GPPResponse = 0, CPhidgetFHandle = None,
       tryAgainCounter = 0, interruptOutEndpoint = False, writeStopFlag = False, fptrAttach = None, fptrDetach = None, fptrError = None,
       fptrServerConnect = None, fptrServerDisconnect = None \<rparr>"

definition CPhidget_create :: "bool \<Rightarrow> memory \<Rightarrow> ecode \<times> phidget option \<times> memory" where
  "CPhidget_create phid mem =
     (if \<not> phid then (EPHIDGET_INVALIDARG, None, mem)
      else let (got, mem') = alloc mem in
        if \<not> got then (EPHIDGET_NOMEMORY, None, mem')
        else (EPHIDGET_OK,
              Some (zero_phidget\<lparr> ph_status := CPhidget_clearStatusFlag 0 PHIDGET_ATTACHED_FLAG \<rparr>), mem'))"

abbreviation flag_of :: "phidget \<Rightarrow> 32 word \<Rightarrow> bool" where
  "flag_of p f \<equiv> CPhidget_statusFlagIsSet (ph_status p) f"

definition set_flag :: "32 word \<Rightarrow> phidget \<Rightarrow> phidget" where
  "set_flag f p = p\<lparr> ph_status := CPhidget_setStatusFlag (ph_status p) f \<rparr>"

definition clear_flag :: "32 word \<Rightarrow> phidget \<Rightarrow> phidget" where
  "clear_flag f p = p\<lparr> ph_status := CPhidget_clearStatusFlag (ph_status p) f \<rparr>"

section \<open>Comparing handles\<close>

definition strncmp :: "string \<Rightarrow> string \<Rightarrow> nat \<Rightarrow> int" where
  "strncmp a b n = strcmp (take n a) (take n b)"

fun CPhidget_areEqual :: "phidget option \<Rightarrow> phidget option \<Rightarrow> bool" where
  "CPhidget_areEqual (Some phid1) (Some phid2) =
     (if deviceID phid2 \<noteq> deviceID phid1 then False
      else if deviceIDSpec phid1 \<noteq> 0 \<and> deviceIDSpec phid2 \<noteq> 0 \<and> deviceIDSpec phid2 \<noteq> deviceIDSpec phid1 then False
      else if specificDevice phid1 \<noteq> 0 \<and> specificDevice phid2 \<noteq> 0 then
        if specificDevice phid1 = PHIDGETOPEN_SERIAL \<and> specificDevice phid2 = PHIDGETOPEN_LABEL
           \<or> specificDevice phid1 = PHIDGETOPEN_LABEL \<and> specificDevice phid2 = PHIDGETOPEN_SERIAL then False
        else if (specificDevice phid1 = PHIDGETOPEN_SERIAL \<or> specificDevice phid2 = PHIDGETOPEN_SERIAL)
           \<and> serialNumber phid2 \<noteq> serialNumber phid1 then False
        else if (specificDevice phid1 = PHIDGETOPEN_LABEL \<or> specificDevice phid2 = PHIDGETOPEN_LABEL)
           \<and> strncmp (ph_label phid1) (ph_label phid2) (MAX_LABEL_STORAGE - 1) \<noteq> 0 then False
        else True
      else True)"
| "CPhidget_areEqual _ _ = False"

fun CPhidget_areExtraEqual :: "phidget option \<Rightarrow> phidget option \<Rightarrow> bool" where
  "CPhidget_areExtraEqual (Some phid1) (Some phid2) =
     (serialNumber phid2 = serialNumber phid1 \<and> deviceIDSpec phid2 = deviceIDSpec phid1
      \<and> deviceID phid2 = deviceID phid1)"
| "CPhidget_areExtraEqual _ _ = False"

definition CPhidgetHandle_areEqual :: "addr \<Rightarrow> addr \<Rightarrow> bool" where
  "CPhidgetHandle_areEqual arg1 arg2 \<longleftrightarrow> arg1 = arg2"

section \<open>Getters\<close>

definition TESTPTRS :: "phidget option \<Rightarrow> bool \<Rightarrow> (phidget \<Rightarrow> ecode \<times> 'a option) \<Rightarrow> ecode \<times> 'a option" where
  "TESTPTRS phid out f =
     (case phid of None \<Rightarrow> (EPHIDGET_INVALIDARG, None)
      | Some p \<Rightarrow> if \<not> out then (EPHIDGET_INVALIDARG, None) else f p)"

definition TESTPTR :: "phidget option \<Rightarrow> (phidget \<Rightarrow> ecode \<times> phidget) \<Rightarrow> ecode \<times> phidget option" where
  "TESTPTR phid f =
     (case phid of None \<Rightarrow> (EPHIDGET_INVALIDARG, None)
      | Some p \<Rightarrow> let (r, p') = f p in (r, Some p'))"

definition attached_get :: "(phidget \<Rightarrow> 'a) \<Rightarrow> phidget \<Rightarrow> ecode \<times> 'a option" where
  "attached_get f p =
     (if \<not> flag_of p PHIDGET_ATTACHED_FLAG \<and> \<not> flag_of p PHIDGET_DETACHING_FLAG
      then (EPHIDGET_NOTATTACHED, None) else (EPHIDGET_OK, Some (f p)))"

text \<open>The name of a device in firmware upgrade mode is composed once and kept.\<close>

definition CPhidget_getDeviceName :: "phidget option \<Rightarrow> bool \<Rightarrow> ecode \<times> string option \<times> phidget option" where
  "CPhidget_getDeviceName phid out =
     (case phid of None \<Rightarrow> (EPHIDGET_INVALIDARG, None, None)
      | Some p \<Rightarrow>
          if \<not> out then (EPHIDGET_INVALIDARG, None, Some p)
          else if \<not> flag_of p PHIDGET_ATTACHED_FLAG \<and> \<not> flag_of p PHIDGET_DETACHING_FLAG
          then (EPHIDGET_NOTATTACHED, None, Some p)
          else if deviceIDSpec p = PHIDID_FIRMWARE_UPGRADE then
            let p' = (if firmwareUpgradeName p = []
                      then p\<lparr> firmwareUpgradeName := take 29 (usbProduct p @ '' '' @ pdd_name p) \<rparr> else p)
            in (EPHIDGET_OK, Some (firmwareUpgradeName p'), Some p')
          else (EPHIDGET_OK, Some (pdd_name p), Some p))"

definition CPhidget_getSerialNumber :: "phidget option \<Rightarrow> bool \<Rightarrow> ecode \<times> int option" where
  "CPhidget_getSerialNumber phid out = TESTPTRS phid out (attached_get serialNumber)"

definition CPhidget_getDeviceVersion :: "phidget option \<Rightarrow> bool \<Rightarrow> ecode \<times> int option" where
  "CPhidget_getDeviceVersion phid out = TESTPTRS phid out (attached_get deviceVersion)"

definition CPhidget_getDeviceStatus :: "phidget option \<Rightarrow> bool \<Rightarrow> ecode \<times> int option" where
  "CPhidget_getDeviceStatus phid out =
     TESTPTRS phid out (\<lambda>p. (EPHIDGET_OK, Some (if flag_of p PHIDGET_ATTACHED_FLAG then PTRUE else PFALSE)))"

text \<open>A connected remote device has network information; without it the read is a fault.\<close>

definition CPhidget_getServerStatus :: "phidget option \<Rightarrow> bool \<Rightarrow> (ecode \<times> int option) cres" where
  "CPhidget_getServerStatus phid out =
     (case phid of None \<Rightarrow> Inr (EPHIDGET_INVALIDARG, None)
      | Some p \<Rightarrow>
          if \<not> out then Inr (EPHIDGET_INVALIDARG, None)
          else if \<not> flag_of p PHIDGET_REMOTE_FLAG then Inr (EPHIDGET_UNSUPPORTED, None)
          else if flag_of p PHIDGET_SERVER_CONNECTED_FLAG then
            (case networkInfo p of
               None \<Rightarrow> Inl Bad_Pointer
             | Some n \<Rightarrow>
                 (case rm_server n of
                    None \<Rightarrow> Inr (EPHIDGET_OK, Some PFALSE)
                  | Some srv \<Rightarrow> Inr (EPHIDGET_OK,
                      Some (if CPhidget_statusFlagIsSet (srv_status srv) PHIDGETSOCKET_CONNECTED_FLAG then PTRUE else PFALSE))))
          else Inr (EPHIDGET_OK, Some PFALSE))"

definition CPhidget_getDeviceType :: "phidget option \<Rightarrow> bool \<Rightarrow> ecode \<times> string option" where
  "CPhidget_getDeviceType phid out = TESTPTRS phid out (attached_get (\<lambda>p. Phid_DeviceName ! deviceID p))"

definition CPhidget_getDeviceID :: "phidget option \<Rightarrow> bool \<Rightarrow> ecode \<times> CPhidget_DeviceID option" where
  "CPhidget_getDeviceID phid out = TESTPTRS phid out (attached_get deviceIDSpec)"

definition CPhidget_getDeviceClass :: "phidget option \<Rightarrow> bool \<Rightarrow> ecode \<times> CPhidget_DeviceClass option" where
  "CPhidget_getDeviceClass phid out = TESTPTRS phid out (\<lambda>p. (EPHIDGET_OK, Some (deviceID p)))"

definition CPhidget_getUSBProductString :: "phidget option \<Rightarrow> bool \<Rightarrow> ecode \<times> string option" where
  "CPhidget_getUSBProductString phid out = TESTPTRS phid out (attached_get usbProduct)"

definition CPhidget_getDeviceLabel :: "phidget option \<Rightarrow> bool \<Rightarrow> ecode \<times> string option" where
  "CPhidget_getDeviceLabel phid out = TESTPTRS phid out (attached_get ph_label)"

text \<open>\<open>refresh\<close>: what looking the server up by zeroconf yields, \<open>None\<close> when it fails.\<close>

definition CPhidget_getServerID :: "remote option \<Rightarrow> phidget option \<Rightarrow> bool \<Rightarrow> (ecode \<times> string option) cres" where
  "CPhidget_getServerID refresh phid out =
     (case phid of None \<Rightarrow> Inr (EPHIDGET_INVALIDARG, None)
      | Some p \<Rightarrow>
          if \<not> out then Inr (EPHIDGET_INVALIDARG, None)
          else if \<not> flag_of p PHIDGET_REMOTE_FLAG then Inr (EPHIDGET_UNSUPPORTED, None)
          else (case networkInfo p of
             None \<Rightarrow> Inl Bad_Pointer
           | Some n \<Rightarrow>
               if \<not> mdns n then Inr (EPHIDGET_UNSUPPORTED, None)
               else if flag_of p PHIDGET_SERVER_CONNECTED_FLAG \<and> refresh = None then Inr (EPHIDGET_NETWORK, None)
               else
                 let n' = (if flag_of p PHIDGET_SERVER_CONNECTED_FLAG then the refresh else n) in
                 (case (zeroconf_server_id n', requested_serverID n') of
                    (Some x, _) \<Rightarrow> Inr (EPHIDGET_OK, Some x)
                  | (None, Some x) \<Rightarrow> Inr (EPHIDGET_OK, Some x)
                  | (None, None) \<Rightarrow> Inr (EPHIDGET_UNEXPECTED, None))))"

definition CPhidget_getServerAddress :: "remote option \<Rightarrow> phidget option \<Rightarrow> bool \<Rightarrow> bool
    \<Rightarrow> (ecode \<times> (string \<times> int) option) cres" where
  "CPhidget_getServerAddress lookup phid ipAddr port =
     (case phid of None \<Rightarrow> Inr (EPHIDGET_INVALIDARG, None)
      | Some p \<Rightarrow>
          if \<not> ipAddr \<or> \<not> port then Inr (EPHIDGET_INVALIDARG, None)
          else if \<not> flag_of p PHIDGET_REMOTE_FLAG then Inr (EPHIDGET_UNSUPPORTED, None)
          else (case networkInfo p of
             None \<Rightarrow> Inl Bad_Pointer
           | Some n \<Rightarrow>
               if mdns n then
                 (case lookup of
                    None \<Rightarrow> Inr (EPHIDGET_NETWORK, None)
                  | Some n' \<Rightarrow>
                      (case (zeroconf_host n', zeroconf_port n') of
                         (Some a, Some q) \<Rightarrow> Inr (EPHIDGET_OK, Some (a, strtol q))
                       | _ \<Rightarrow> Inr (EPHIDGET_UNEXPECTED, None)))
               else if flag_of p PHIDGET_SERVER_CONNECTED_FLAG then
                 (case rm_server n of
                    None \<Rightarrow> Inl Bad_Pointer
                  | Some srv \<Rightarrow>
                      (case (srv_address srv, srv_port srv) of
                         (Some a, Some q) \<Rightarrow> Inr (EPHIDGET_OK, Some (a, strtol q))
                       | _ \<Rightarrow> Inr (EPHIDGET_UNEXPECTED, None)))
               else Inr (EPHIDGET_OK, Some (requested_address n, strtol (requested_port n)))))"

section \<open>Handlers\<close>

definition CPhidget_set_OnDetach_Handler :: "phidget option \<Rightarrow> handler \<Rightarrow> ecode \<times> phidget option" where
  "CPhidget_set_OnDetach_Handler phid h = TESTPTR phid (\<lambda>p. (EPHIDGET_OK, p\<lparr> fptrDetach := h \<rparr>))"

definition CPhidget_set_OnAttach_Handler :: "phidget option \<Rightarrow> handler \<Rightarrow> ecode \<times> phidget option" where
  "CPhidget_set_OnAttach_Handler phid h = TESTPTR phid (\<lambda>p. (EPHIDGET_OK, p\<lparr> fptrAttach := h \<rparr>))"

definition CPhidget_set_OnError_Handler :: "phidget option \<Rightarrow> handler \<Rightarrow> ecode \<times> phidget option" where
  "CPhidget_set_OnError_Handler phid h = TESTPTR phid (\<lambda>p. (EPHIDGET_OK, p\<lparr> fptrError := h \<rparr>))"

definition CPhidget_set_OnServerConnect_Handler :: "phidget option \<Rightarrow> handler \<Rightarrow> ecode \<times> phidget option" where
  "CPhidget_set_OnServerConnect_Handler phid h = TESTPTR phid (\<lambda>p. (EPHIDGET_OK, p\<lparr> fptrServerConnect := h \<rparr>))"

definition CPhidget_set_OnServerDisconnect_Handler :: "phidget option \<Rightarrow> handler \<Rightarrow> ecode \<times> phidget option" where
  "CPhidget_set_OnServerDisconnect_Handler phid h = TESTPTR phid (\<lambda>p. (EPHIDGET_OK, p\<lparr> fptrServerDisconnect := h \<rparr>))"

text \<open>The error handler, when there is one, gets the code and the text.\<close>

definition throw_error_event :: "phidget option \<Rightarrow> string \<Rightarrow> int \<Rightarrow> (addr \<times> addr \<times> int \<times> string) option" where
  "throw_error_event phid err code =
     (case phid of None \<Rightarrow> None
      | Some p \<Rightarrow> map_option (\<lambda>(fptr, user). (fptr, user, code, err)) (fptrError p))"

section \<open>Waiting for attachment\<close>

text \<open>
  Each round of the loop reads the status twice and, with a time limit, the time since the
  start; \<open>rounds\<close> are the values it finds, and \<open>None\<close> is the result while it still waits.
\<close>

fun wait_loop :: "int \<Rightarrow> (32 word \<times> 32 word \<times> int) list \<Rightarrow> ecode option" where
  "wait_loop milliseconds [] = None"
| "wait_loop milliseconds ((s1, s2, duration) # rounds) =
     (if CPhidget_statusFlagIsSet s1 PHIDGET_ATTACHED_FLAG then Some EPHIDGET_OK
      else if \<not> CPhidget_statusFlagIsSet s2 PHIDGET_OPENED_FLAG then Some EPHIDGET_CLOSED
      else if milliseconds \<noteq> 0 \<and> milliseconds < duration then Some EPHIDGET_TIMEOUT
      else wait_loop milliseconds rounds)"

definition CPhidget_waitForAttachment :: "bool \<Rightarrow> int \<Rightarrow> (32 word \<times> 32 word \<times> int) list \<Rightarrow> ecode option" where
  "CPhidget_waitForAttachment phid milliseconds rounds =
     (if \<not> phid then Some EPHIDGET_INVALIDARG else wait_loop milliseconds rounds)"

end
