(* ===== verification/Usb.thy ===== *)
theory Usb
  imports Device
begin

text \<open>
  Packets on the USB bus (\<open>linux/cusblinux-1.0.c\<close>). The transfers of libusb are parameters
  of the model: \<open>outs\<close> are the results of the coming outgoing transfers (complete once the
  list is used up), \<open>ins\<close> those of the coming incoming ones; \<open>sent_packets\<close> logs every
  buffer handed to the bus. A transfer reads as many bytes as the device's report has, from
  a buffer that may be shorter.
\<close>

datatype usb_error = LIBUSB_TIMEOUT | LIBUSB_NO_DEVICE | LIBUSB_BUSY | LIBUSB_PIPE | LIBUSB_OVERFLOW | LIBUSB_OTHER

datatype out_result = Written nat | Write_Failed usb_error
datatype in_result = Received "8 word list" | Read_Failed usb_error

text \<open>\<open>waits\<close>: the packets that the read thread takes in during each coming wait.\<close>

record usb =
  outs :: "out_result list"
  ins :: "in_result list"
  waits :: "8 word list list list"
  usb_mem :: memory
  sent_packets :: "8 word list list"

definition transfer_out :: "8 word list \<Rightarrow> usb \<Rightarrow> out_result \<times> usb" where
  "transfer_out buffer u =
     ((case outs u of [] \<Rightarrow> Written (length buffer) | r # _ \<Rightarrow> r),
      u\<lparr> outs := tl (outs u), sent_packets := sent_packets u @ [buffer] \<rparr>)"

text \<open>Both kinds of transfer report a failure or the number of bytes written.\<close>

definition CUSBSendPacket :: "phidget option \<Rightarrow> 8 word list \<Rightarrow> usb \<Rightarrow> (ecode \<times> usb) cres" where
  "CUSBSendPacket phid buffer u =
     (case phid of None \<Rightarrow> Inr (EPHIDGET_INVALIDARG, u)
      | Some p \<Rightarrow>
          if \<not> flag_of p PHIDGET_ATTACHED_FLAG \<and> \<not> flag_of p PHIDGET_ATTACHING_FLAG then Inr (EPHIDGET_NOTATTACHED, u)
          else if deviceHandle p = None then Inr (EPHIDGET_UNEXPECTED, u)
          else if length buffer < outputReportByteLength p then Inl Out_Of_Bounds
          else case transfer_out (take (outputReportByteLength p) buffer) u of
                 (Write_Failed LIBUSB_TIMEOUT, u') \<Rightarrow> Inr (EPHIDGET_TIMEOUT, u')
               | (Write_Failed LIBUSB_NO_DEVICE, u') \<Rightarrow> Inr (EPHIDGET_NOTATTACHED, u')
               | (Write_Failed _, u') \<Rightarrow> Inr (EPHIDGET_UNEXPECTED, u')
               | (Written n, u') \<Rightarrow>
                   Inr (if n \<noteq> outputReportByteLength p then EPHIDGET_UNEXPECTED else EPHIDGET_OK, u'))"

text \<open>
  The \<open>tryagain\<close> label: after more than 30 bad reads the device is given up. Timeouts and a
  busy interface neither count nor reset the count.
\<close>

definition try_again :: "phidget \<Rightarrow> ecode \<times> phidget" where
  "try_again p =
     (if tryAgainCounter p + 1 > 30 then (EPHIDGET_UNEXPECTED, p\<lparr> tryAgainCounter := 0 \<rparr>)
      else (EPHIDGET_TRYAGAIN, p\<lparr> tryAgainCounter := tryAgainCounter p + 1 \<rparr>))"

text \<open>\<open>room\<close> is the size of the caller's buffer.\<close>

definition CUSBReadPacket :: "nat \<Rightarrow> phidget option \<Rightarrow> usb \<Rightarrow> (ecode \<times> 8 word list \<times> phidget option \<times> usb) cres" where
  "CUSBReadPacket room phid u =
     (case phid of None \<Rightarrow> Inr (EPHIDGET_INVALIDARG, [], None, u)
      | Some p \<Rightarrow>
          if \<not> flag_of p PHIDGET_ATTACHED_FLAG \<and> \<not> flag_of p PHIDGET_ATTACHING_FLAG
          then Inr (EPHIDGET_NOTATTACHED, [], Some p, u)
          else if deviceHandle p = None then Inr (EPHIDGET_UNEXPECTED, [], Some p, u)
          else
            let u' = u\<lparr> ins := tl (ins u) \<rparr> in
            case (case ins u of [] \<Rightarrow> Read_Failed LIBUSB_TIMEOUT | r # _ \<Rightarrow> r) of
              Read_Failed LIBUSB_TIMEOUT \<Rightarrow> Inr (EPHIDGET_TIMEOUT, [], Some p, u')
            | Read_Failed LIBUSB_BUSY \<Rightarrow> Inr (EPHIDGET_TRYAGAIN, [], Some p, u')
            | Read_Failed LIBUSB_NO_DEVICE \<Rightarrow> Inr (EPHIDGET_NOTATTACHED, [], Some p, u')
            | Read_Failed _ \<Rightarrow> (let (r, p') = try_again p in Inr (r, [], Some p', u'))
            | Received data \<Rightarrow>
                if room < length data then Inl Out_Of_Bounds
                else if length data \<noteq> inputReportByteLength p
                then (let (r, p') = try_again p in Inr (r, data, Some p', u'))
                else Inr (EPHIDGET_OK, data, Some (p\<lparr> tryAgainCounter := 0 \<rparr>), u'))"

section \<open>Calibration packets\<close>

text \<open>The checks that the packet-sending operations of \<open>cphidget.c\<close> start with.\<close>

definition when_attached :: "phidget option \<Rightarrow> 's \<Rightarrow> (phidget \<Rightarrow> (ecode \<times> 's) cres) \<Rightarrow> (ecode \<times> 's) cres" where
  "when_attached phid s f =
     (case phid of None \<Rightarrow> Inr (EPHIDGET_INVALIDARG, s)
      | Some p \<Rightarrow> if \<not> flag_of p PHIDGET_ATTACHED_FLAG then Inr (EPHIDGET_NOTATTACHED, s) else f p)"

text \<open>Packets are sent in turn up to the first that fails.\<close>

fun send_all :: "phidget \<Rightarrow> 8 word list list \<Rightarrow> usb \<Rightarrow> (ecode \<times> usb) cres" where
  "send_all p [] u = Inr (EPHIDGET_OK, u)"
| "send_all p (b # bs) u =
     cbind (CUSBSendPacket (Some p) b u) (\<lambda>(r, u').
     if r \<noteq> EPHIDGET_OK then Inr (r, u') else send_all p bs u')"

definition CPhidget_calibrate :: "phidget option \<Rightarrow> 8 word \<Rightarrow> 8 word list \<Rightarrow> usb \<Rightarrow> (ecode \<times> usb) cres" where
  "CPhidget_calibrate phid offset data u =
     when_attached phid u (\<lambda>p.
       if length data < 6 then Inl Out_Of_Bounds
       else send_all p [[0x74, offset] @ take 6 data] u)"

text \<open>Two bytes of a packet of eight: the index (which wraps) and a value.\<close>

definition calibration_packet :: "8 word \<Rightarrow> int \<Rightarrow> 8 word \<Rightarrow> 8 word list" where
  "calibration_packet cmd i v = [cmd, word_of_int i, v, 0, 0, 0, 0, 0]"

definition CPhidget_calibrate_gain2offset :: "phidget option \<Rightarrow> int \<Rightarrow> 16 word \<Rightarrow> 32 word \<Rightarrow> 32 word \<Rightarrow> usb \<Rightarrow> (ecode \<times> usb) cres" where
  "CPhidget_calibrate_gain2offset phid i offset gain1 gain2 u =
     when_attached phid u (\<lambda>p.
       send_all p
         [calibration_packet 0x73 (0 + i) (ucast (drop_bit 8 offset)),
          calibration_packet 0x73 (1 + i) (ucast (offset AND 0xff)),
          calibration_packet 0x73 (2 + i) (ucast (drop_bit 16 gain1)),
          calibration_packet 0x73 (3 + i) (ucast (drop_bit 8 gain1)),
          calibration_packet 0x73 (4 + i) (ucast gain1),
          calibration_packet 0x73 (5 + i) (ucast (drop_bit 16 gain2)),
          calibration_packet 0x73 (6 + i) (ucast (drop_bit 8 gain2)),
          calibration_packet 0x73 (7 + i) (ucast gain2)] u)"

definition CPhidget_calibrate_gainoffset :: "phidget option \<Rightarrow> int \<Rightarrow> 16 word \<Rightarrow> 32 word \<Rightarrow> usb \<Rightarrow> (ecode \<times> usb) cres" where
  "CPhidget_calibrate_gainoffset phid i offset gain u =
     when_attached phid u (\<lambda>p.
       send_all p
         [calibration_packet 0x72 (0 + i) (ucast (drop_bit 8 offset)),
          calibration_packet 0x72 (1 + i) (ucast (offset AND 0xff)),
          calibration_packet 0x72 (2 + i) (ucast (drop_bit 16 gain)),
          calibration_packet 0x72 (3 + i) (ucast (drop_bit 8 gain)),
          calibration_packet 0x72 (4 + i) (ucast gain)] u)"

section \<open>Lemmas\<close>

text \<open>A device that can be written to, and one packet to it.\<close>

definition writable :: "phidget \<Rightarrow> bool" where
  "writable p \<longleftrightarrow> flag_of p PHIDGET_ATTACHED_FLAG \<and> deviceHandle p \<noteq> None"

lemma send_packet_total:
  "outputReportByteLength p \<le> length buffer \<Longrightarrow> \<exists>r u'. CUSBSendPacket (Some p) buffer u = Inr (r, u')"
  by (auto simp: CUSBSendPacket_def transfer_out_def split: out_result.split usb_error.split prod.split)

lemma send_packet_ok:
  assumes "writable p" and "length buffer = outputReportByteLength p" and "outs u = []"
  shows "CUSBSendPacket (Some p) buffer u = Inr (EPHIDGET_OK, u\<lparr> sent_packets := sent_packets u @ [buffer] \<rparr>)"
  using assms by (simp add: CUSBSendPacket_def transfer_out_def writable_def)

lemma send_packet_bad:
  assumes "CUSBSendPacket (Some p) buffer u = Inr (EPHIDGET_OK, u')"
  shows "sent_packets u' = sent_packets u @ [take (outputReportByteLength p) buffer] \<and> outs u' = tl (outs u)"
  using assms by (auto simp: CUSBSendPacket_def transfer_out_def split: out_result.splits usb_error.splits if_splits list.splits)

end
