(* ===== verification/Label.thy ===== *)
theory Label
  imports Device
begin

text \<open>
  Device labels (\<open>cphidget.c\<close>): the string descriptor a label is stored in, the detection
  of the wrap-around error of old firmware, and the two encodings (UTF-16 as USB wants it,
  or UTF-8 behind two 0xFF bytes). The conversions of \<open>iconv\<close> are parameters. A descriptor
  is a byte array; its first byte, which comes from the device, says how long it is. Plain
  \<open>char\<close> is unsigned, as on the ARM platform of the project. A read or write outside an array
  is a fault.
\<close>

section \<open>Encoding\<close>

text \<open>The result of \<open>iconv\<close>: the bytes, a malformed or too long text, another failure.\<close>

datatype 'b conversion = Converted 'b | Malformed | Conversion_Failed

text \<open>\<open>outLen\<close> is the room in the caller's buffer, \<open>None\<close> when the caller only checks the label.\<close>

definition encodeLabelString :: "(string \<Rightarrow> 8 word list conversion) \<Rightarrow> string \<Rightarrow> nat option
    \<Rightarrow> ecode \<times> (8 word list \<times> nat) option" where
  "encodeLabelString to_utf16 buffer out =
     (case to_utf16 buffer of
        Malformed \<Rightarrow> (EPHIDGET_INVALIDARG, None)
      | Conversion_Failed \<Rightarrow> (EPHIDGET_UNEXPECTED, None)
      | Converted bs \<Rightarrow>
          (EPHIDGET_OK,
           case out of None \<Rightarrow> None
           | Some outLen \<Rightarrow> let n = (if length bs \<le> outLen then length bs else outLen) in Some (take n bs, n)))"

section \<open>The wrap-around error\<close>

text \<open>\<open>strncmp\<close> on two byte arrays: it stops at a difference, at a common NUL, or after \<open>n\<close> bytes.\<close>

fun bytes_strncmp :: "8 word list \<Rightarrow> 8 word list \<Rightarrow> nat \<Rightarrow> bool cres" where
  "bytes_strncmp a b 0 = Inr True"
| "bytes_strncmp (x # a) (y # b) (Suc n) =
     (if x \<noteq> y then Inr False else if x = 0 then Inr True else bytes_strncmp a b n)"
| "bytes_strncmp _ _ (Suc n) = Inl Out_Of_Bounds"

definition byte_at :: "8 word list \<Rightarrow> nat \<Rightarrow> 8 word cres" where
  "byte_at buf i = (if i < length buf then Inr (buf ! i) else Inl Out_Of_Bounds)"

definition char_byte :: "char \<Rightarrow> 8 word" where
  "char_byte c = word_of_nat (of_char c)"

definition byte_char :: "8 word \<Rightarrow> char" where
  "byte_char b = char_of (unat b)"

text \<open>The first six bytes of the descriptor of the serial number.\<close>

definition errorBytes :: "int \<Rightarrow> 8 word list" where
  "errorBytes serial =
     (let s = take 7 (dec_int serial) in
      [word_of_nat (length s * 2 + 2), 3,
       if 1 \<le> length s then char_byte (s ! 0) else 0, 0,
       if 2 \<le> length s then char_byte (s ! 1) else 0, 0])"

fun all_zero_at :: "nat list \<Rightarrow> 8 word list \<Rightarrow> bool cres" where
  "all_zero_at [] buf = Inr True"
| "all_zero_at (i # is) buf =
     cbind (byte_at buf i) (\<lambda>b. if b \<noteq> 0 then Inr False else all_zero_at is buf)"

definition labelHasWrapError :: "int \<Rightarrow> 8 word list \<Rightarrow> bool cres" where
  "labelHasWrapError serial labelBuf =
     cbind (byte_at labelBuf 0) (\<lambda>len.
       if unat len \<le> 16 then Inr False
       else cbind (all_zero_at [3, 5, 7, 9, 11, 13, 15] labelBuf) (\<lambda>ascii.
         if \<not> ascii then Inr False
         else bytes_strncmp (drop 16 labelBuf) (errorBytes serial) (unat len - 16)))"

section \<open>Decoding\<close>

text \<open>
  \<open>UTF16toUTF8\<close> reads \<open>inLen\<close> bytes at position 2. Its length argument is negative, and
  becomes a huge unsigned number, when the descriptor claims less than its two header bytes.
\<close>

definition UTF16toUTF8 :: "(8 word list \<Rightarrow> string conversion) \<Rightarrow> 8 word list \<Rightarrow> int \<Rightarrow> (ecode \<times> string) cres" where
  "UTF16toUTF8 from_utf16 inbuf inLen =
     (if inLen < 0 \<or> int (length inbuf) < inLen then Inl Out_Of_Bounds
      else case from_utf16 (take (nat inLen) inbuf) of
             Converted s \<Rightarrow> Inr (EPHIDGET_OK, c_str (take MAX_LABEL_STORAGE s))
           | _ \<Rightarrow> Inr (EPHIDGET_UNEXPECTED, ''''))"

definition decode_descriptor :: "(8 word list \<Rightarrow> string conversion) \<Rightarrow> 8 word list \<Rightarrow> (ecode \<times> string) cres" where
  "decode_descriptor from_utf16 buf =
     cbind (byte_at buf 0) (\<lambda>b0.
     let len = unat b0; utf16 = UTF16toUTF8 from_utf16 (drop 2 buf) (int len - 2) in
     if len \<le> 4 then utf16
     else cbind (byte_at buf 2) (\<lambda>b2.
       if b2 \<noteq> 0xFF then utf16
       else cbind (byte_at buf 3) (\<lambda>b3.
         if b3 \<noteq> 0xFF then utf16
         else if length buf < len \<or> MAX_LABEL_STORAGE < len - 4 + 1 then Inl Out_Of_Bounds
         else Inr (EPHIDGET_OK, c_str (map byte_char (take (len - 4) (drop 4 buf)))))))"

definition decodeLabelString :: "(8 word list \<Rightarrow> string conversion) \<Rightarrow> 8 word list \<Rightarrow> int \<Rightarrow> (ecode \<times> string) cres" where
  "decodeLabelString from_utf16 labelBuf serial =
     cbind (labelHasWrapError serial labelBuf) (\<lambda>wrap.
       if \<not> wrap then decode_descriptor from_utf16 labelBuf
       else if length labelBuf < unat (labelBuf ! 0) then Inl Out_Of_Bounds
       else decode_descriptor from_utf16
              ((take 16 labelBuf @ replicate (unat (labelBuf ! 0) - 16) 0
                @ drop (unat (labelBuf ! 0)) labelBuf)[0 := 16]))"

section \<open>Properties\<close>

lemma byte_char_byte [simp]: "byte_char (char_byte c) = c"
proof -
  have "(of_char c :: nat) < 256" by simp
  then have "unat (word_of_nat (of_char c) :: 8 word) = of_char c"
    by (simp add: unat_of_nat take_bit_nat_eq_self)
  then show ?thesis by (simp add: byte_char_def char_byte_def)
qed

lemma all_zero_at_in_bounds:
  "\<forall>i \<in> set is. i < length buf \<Longrightarrow> all_zero_at is buf = Inr (\<forall>i \<in> set is. buf ! i = 0)"
  by (induction "is") (auto simp: byte_at_def)

lemma length_dec_nat: "0 < length (dec_nat n)"
  by simp

lemma all_less4: "(\<forall>i < min n 4. P i) \<longleftrightarrow> (0 < n \<longrightarrow> P 0) \<and> (1 < n \<longrightarrow> P 1) \<and> (2 < n \<longrightarrow> P 2) \<and> (3 < n \<longrightarrow> P 3)"
  for n :: nat
  by (auto simp: numeral_eq_Suc less_Suc_eq)

text \<open>The fourth byte compared is always NUL, so at most four bytes are looked at.\<close>

lemma bytes_strncmp_errorBytes:
  assumes "4 \<le> length a" and "0 < n"
  shows "bytes_strncmp a (errorBytes serial) n =
         Inr (\<forall>i < min n 4. a ! i = errorBytes serial ! i)"
proof -
  obtain a0 a1 a2 a3 r where a: "a = a0 # a1 # a2 # a3 # r"
    using assms(1) by (auto simp: numeral_eq_Suc Suc_le_length_iff)
  define s where "s = take 7 (dec_int serial)"
  have s: "s \<noteq> []" by (simp add: s_def dec_int_def)
  then obtain c t where ct: "s = c # t" by (cases s) auto
  have len: "length s \<le> 7" by (simp add: s_def)
  have small: "unat (word_of_nat k :: 8 word) = k" if "k < 256" for k
    using that by (simp add: unat_of_nat take_bit_nat_eq_self)
  have "unat (word_of_nat (length s * 2 + 2) :: 8 word) = length s * 2 + 2"
    by (rule small) (use len in linarith)
  then have e0: "(word_of_nat (length s * 2 + 2) :: 8 word) \<noteq> 0"
    by (metis add_eq_0_iff_both_eq_0 unat_0 zero_neq_numeral)
  have c: "c \<noteq> NUL"
    using nul_free_dec_int [of serial] ct by (metis append_take_drop_id nul_free_simps(2,3) s_def)
  have e2: "char_byte c \<noteq> 0"
  proof
    assume "char_byte c = 0"
    then have "c = char_of (0 :: nat)" using byte_char_byte [of c] by (simp add: byte_char_def)
    then have "(of_char c :: nat) = 0" by (simp only: of_char_of)
    then show False using c by simp
  qed
  have e: "errorBytes serial = [word_of_nat (length s * 2 + 2), 3, char_byte c, 0,
      if 2 \<le> length s then char_byte (s ! 1) else 0, 0]"
    by (simp add: errorBytes_def Let_def ct flip: s_def)
  consider "n = Suc 0" | "n = Suc (Suc 0)" | "n = Suc (Suc (Suc 0))" | m where "n = Suc (Suc (Suc (Suc m)))"
    using assms(2) by (metis neq0_conv not0_implies_Suc)
  then show ?thesis
  proof cases
    case 4
    then show ?thesis
      unfolding all_less4 a e using e0 e2 by (cases "a3 = 0") auto
  qed (unfold all_less4 a e; use e0 e2 in simp)+
qed

text \<open>
  \<open>labelHasWrapError\<close> reports the wrap-around error exactly for a descriptor of more than
  16 bytes whose first seven characters are ASCII and whose bytes from 16 on agree with the
  descriptor of the serial number in at most four places: \<open>strncmp\<close> stops at the NUL in the
  fourth byte, so the second digit, which the comment says is compared, never is.\<close>

theorem labelHasWrapError_iff:
  assumes "length labelBuf = 22"
  shows "labelHasWrapError serial labelBuf =
         Inr (16 < unat (labelBuf ! 0) \<and> (\<forall>i \<in> {3, 5, 7, 9, 11, 13, 15}. labelBuf ! i = 0)
              \<and> (\<forall>i < min (unat (labelBuf ! 0) - 16) 4. labelBuf ! (16 + i) = errorBytes serial ! i))"
proof -
  have z: "all_zero_at [3, 5, 7, 9, 11, 13, 15] labelBuf = Inr (\<forall>i \<in> {3, 5, 7, 9, 11, 13, 15}. labelBuf ! i = 0)"
    using assms by (subst all_zero_at_in_bounds) auto
  show ?thesis
  proof (cases "16 < unat (labelBuf ! 0)")
    case True
    then have "bytes_strncmp (drop 16 labelBuf) (errorBytes serial) (unat (labelBuf ! 0) - 16) =
        Inr (\<forall>i < min (unat (labelBuf ! 0) - 16) 4. labelBuf ! (16 + i) = errorBytes serial ! i)"
      using assms by (subst bytes_strncmp_errorBytes) auto
    with True z assms show ?thesis
      by (cases "\<forall>i \<in> {3, 5, 7, 9, 11, 13, 15}. labelBuf ! i = 0") (auto simp: labelHasWrapError_def byte_at_def)
  qed (use assms in \<open>simp add: labelHasWrapError_def byte_at_def\<close>)
qed

text \<open>A descriptor for the serial number 12345 and one whose second digit differs are both hit.\<close>

theorem labelHasWrapError_iff_witness:
  "labelHasWrapError 12345 [22, 3, 65, 0, 65, 0, 65, 0, 65, 0, 65, 0, 65, 0, 65, 0, 12, 3, 49, 0, 57, 0] = Inr True"
proof -
  let ?b = "[22, 3, 65, 0, 65, 0, 65, 0, 65, 0, 65, 0, 65, 0, 65, 0, 12, 3, 49, 0, 57, 0] :: 8 word list"
  have l: "length ?b = 22" by simp
  have e: "errorBytes 12345 = [12, 3, 49, 0, 50, 0]"
    by (simp add: errorBytes_def dec_int_def dec_nat.simps char_byte_def)
  have "unat (?b ! 0) = 22" by simp
  then show ?thesis
    unfolding labelHasWrapError_iff [OF l, of 12345] all_less4 e by simp
qed

lemma decode_wrap_only_long:
  assumes "length labelBuf = 22" and "unat (labelBuf ! 0) \<le> 16"
  shows "labelHasWrapError serial labelBuf = Inr False"
  using assms by (simp add: labelHasWrapError_iff)

lemma labelHasWrapError_total: "length labelBuf = 22 \<Longrightarrow> \<exists>w. labelHasWrapError serial labelBuf = Inr w"
  by (simp add: labelHasWrapError_iff)

lemma UTF16toUTF8_safe_iff:
  "(\<exists>r. UTF16toUTF8 from_utf16 buf n = Inr r) \<longleftrightarrow> 0 \<le> n \<and> n \<le> int (length buf)"
  by (auto simp: UTF16toUTF8_def split: conversion.split)

lemma decode_descriptor_safe_iff:
  assumes "length buf = 22" and "unat (buf ! 0) = n"
  shows "(\<exists>r. decode_descriptor from_utf16 buf = Inr r) \<longleftrightarrow> 2 \<le> n \<and> n \<le> 22"
proof -
  have u: "(\<exists>r. UTF16toUTF8 from_utf16 (drop 2 buf) (int n - 2) = Inr r) \<longleftrightarrow> 2 \<le> n \<and> n \<le> 22"
    unfolding UTF16toUTF8_safe_iff using assms(1) by auto
  have b: "byte_at buf i = Inr (buf ! i)" if "i < 22" for i
    using assms(1) that by (simp add: byte_at_def)
  have fits: "40 < n - 4 \<longrightarrow> \<not> n \<le> 22" by linarith
  show ?thesis
    unfolding decode_descriptor_def
    by (cases "n \<le> 4"; cases "buf ! 2 = 0xFF"; cases "buf ! 3 = 0xFF")
      (use u assms fits in \<open>simp_all add: b Let_def del: split_paired_Ex\<close>)
qed

text \<open>
  C13: \<open>decodeLabelString\<close> trusts the length byte of the device: on the 22-byte buffer it is
  given, it stays inside its arrays exactly when that byte is between 2 and 22. Anything
  below makes the conversion read without limit, anything above makes it read, clear or copy
  behind the buffer.\<close>

theorem decodeLabelString_safe_iff:
  assumes "length labelBuf = 22"
  shows "(\<exists>r. decodeLabelString from_utf16 labelBuf serial = Inr r)
         \<longleftrightarrow> 2 \<le> unat (labelBuf ! 0) \<and> unat (labelBuf ! 0) \<le> 22"
proof -
  define n where "n = unat (labelBuf ! 0)"
  obtain w where w: "labelHasWrapError serial labelBuf = Inr w" using labelHasWrapError_total [OF assms] by blast
  have long: "w \<Longrightarrow> 16 < n" using w assms by (auto simp: labelHasWrapError_iff n_def)
  show ?thesis
  proof (cases w)
    case False
    then show ?thesis using w decode_descriptor_safe_iff [OF assms refl] by (simp add: decodeLabelString_def)
  next
    case True
    let ?buf = "(take 16 labelBuf @ replicate (n - 16) 0 @ drop n labelBuf)[0 := 16]"
    have "(\<exists>r. decode_descriptor from_utf16 ?buf = Inr r) \<longleftrightarrow> True" if "n \<le> 22"
      by (subst decode_descriptor_safe_iff [where n = 16]) (use that assms long [OF True] in simp_all)
    then show ?thesis using True w assms long [OF True]
      by (cases "n \<le> 22") (simp_all add: decodeLabelString_def flip: n_def)
  qed
qed

theorem decodeLabelString_safe_iff_witness:
  "\<not> (\<exists>r. decodeLabelString (\<lambda>_. Converted []) (replicate 22 0) 12345 = Inr r)"
  using decodeLabelString_safe_iff [of "replicate 22 0" "\<lambda>_. Converted []" 12345] by simp

text \<open>The descriptor that \<open>CPhidget_setDeviceLabel\<close> builds for a label kept as UTF-8.\<close>

definition utf8_descriptor :: "string \<Rightarrow> 8 word list" where
  "utf8_descriptor label =
     [word_of_nat (length label + 4), 3, 0xFF, 0xFF] @ map char_byte label @ replicate (18 - length label) 0"

text \<open>
  A label of up to 12 bytes that is stored as UTF-8 is read back unchanged, whatever the
  serial number: the 0xFF in the fourth byte keeps it clear of the wrap-around check.\<close>

theorem utf8_label_roundtrip:
  assumes "nul_free label" and "0 < length label" and "length label \<le> 12"
  shows "decodeLabelString from_utf16 (utf8_descriptor label) serial = Inr (EPHIDGET_OK, label)"
proof -
  let ?d = "utf8_descriptor label"
  note d = utf8_descriptor_def [of label]
  have l: "length ?d = 22" using assms(3) by (simp add: d)
  have small: "unat (word_of_nat k :: 8 word) = k" if "k < 256" for k
    using that by (simp add: unat_of_nat take_bit_nat_eq_self)
  have "unat (word_of_nat (length label + 4) :: 8 word) = length label + 4"
    by (rule small) (use assms(3) in linarith)
  then have len: "unat (?d ! 0) = length label + 4" by (simp add: d del: of_nat_add)
  have three: "?d ! 3 = 0xFF" "?d ! 2 = 0xFF" by (simp_all add: d)
  then have "labelHasWrapError serial ?d = Inr False" using labelHasWrapError_iff [OF l, of serial] by simp
  moreover have "take (length label) (drop 4 ?d) = map char_byte label" by (simp add: d)
  moreover have "map byte_char (map char_byte label) = label" by (simp add: comp_def)
  ultimately show ?thesis
    using assms l len three by (simp add: decodeLabelString_def decode_descriptor_def byte_at_def Let_def)
qed

theorem utf8_label_roundtrip_witness:
  "decodeLabelString (\<lambda>_. Malformed) (utf8_descriptor ''depth'') 12345 = Inr (EPHIDGET_OK, ''depth'')"
  by (rule utf8_label_roundtrip) simp_all

end
