(* ===== verification/GPP.thy ===== *)
theory GPP
  imports Usb Label
begin

text \<open>
  The general packet protocol (\<open>cphidget.c\<close>): configuration tables, labels and firmware are
  sent in packets of the size of the device's output report, the first with a header, the
  others marked as continuations. An array and its length are one list. The packet buffer
  is allocated and not checked; a write behind it is a fault. Only during a wait does the
  read thread run.
\<close>

abbreviation (input) PACKET_FLAG :: "8 word" where "PACKET_FLAG \<equiv> 0x80"
abbreviation (input) PACKET_FAIL :: "8 word" where "PACKET_FAIL \<equiv> 0x40"
abbreviation (input) PACKET_REBOOT_FIRMWARE_UPGRADE :: "8 word" where "PACKET_REBOOT_FIRMWARE_UPGRADE \<equiv> 0x01"
abbreviation (input) PACKET_REBOOT_ISP :: "8 word" where "PACKET_REBOOT_ISP \<equiv> 0x02"
abbreviation (input) PACKET_CONTINUATION :: "8 word" where "PACKET_CONTINUATION \<equiv> 0x03"
abbreviation (input) PACKET_ZERO_CONFIG :: "8 word" where "PACKET_ZERO_CONFIG \<equiv> 0x04"
abbreviation (input) PACKET_WRITE_FLASH :: "8 word" where "PACKET_WRITE_FLASH \<equiv> 0x05"
abbreviation (input) PACKET_WRITE_SECTOR :: "8 word" where "PACKET_WRITE_SECTOR \<equiv> 0x06"
abbreviation (input) PACKET_SET_DS_TABLE :: "8 word" where "PACKET_SET_DS_TABLE \<equiv> 0x07"
abbreviation (input) PACKET_SET_DW_TABLE :: "8 word" where "PACKET_SET_DW_TABLE \<equiv> 0x08"
abbreviation (input) PACKET_FIRMWARE_UPGRADE_ERASE :: "8 word" where "PACKET_FIRMWARE_UPGRADE_ERASE \<equiv> 0x09"
abbreviation (input) PACKET_ERASE_CONFIG :: "8 word" where "PACKET_ERASE_CONFIG \<equiv> 0x0A"

type_synonym gpp_result = "ecode \<times> phidget option \<times> usb"

definition deviceSupportsGeneralUSBProtocol :: "phidget \<Rightarrow> bool" where
  "deviceSupportsGeneralUSBProtocol p \<longleftrightarrow>
     deviceUID p \<in> {PHIDUID_SPATIAL_ACCEL_3AXIS_1041, PHIDUID_SPATIAL_ACCEL_3AXIS_1043,
       PHIDUID_SPATIAL_ACCEL_GYRO_COMPASS_1042, PHIDUID_SPATIAL_ACCEL_GYRO_COMPASS_1044,
       PHIDUID_LED_64_ADV_M3, PHIDUID_RFID_2OUTPUT_READ_WRITE, PHIDUID_STEPPER_BIPOLAR_1MOTOR_M3,
       PHIDUID_FIRMWARE_UPGRADE, PHIDUID_GENERIC}"

section \<open>Responses\<close>

fun CPhidgetGPP_dataInput :: "8 word list \<Rightarrow> phidget \<Rightarrow> phidget cres" where
  "CPhidgetGPP_dataInput [] p = Inl Out_Of_Bounds"
| "CPhidgetGPP_dataInput (b # bs) p = Inr (if b AND 0x3f \<noteq> 0 then p\<lparr> GPPResponse := b \<rparr> else p)"

fun inputs :: "8 word list list \<Rightarrow> phidget \<Rightarrow> phidget cres" where
  "inputs [] p = Inr p"
| "inputs (b # bs) p = cbind (CPhidgetGPP_dataInput b p) (inputs bs)"

text \<open>\<open>SLEEP (20)\<close>: the packets of this wait come in.\<close>

definition sleep :: "phidget \<Rightarrow> usb \<Rightarrow> (phidget \<times> usb) cres" where
  "sleep p u =
     cbind (inputs (case waits u of [] \<Rightarrow> [] | ps # _ \<Rightarrow> ps) p) (\<lambda>p'. Inr (p', u\<lparr> waits := tl (waits u) \<rparr>))"

fun response_loop :: "8 word \<Rightarrow> nat \<Rightarrow> phidget \<Rightarrow> usb \<Rightarrow> (phidget \<times> usb) cres" where
  "response_loop packetType timeout p u =
     (if GPPResponse p AND 0x3f \<noteq> packetType \<and> timeout > 0
      then cbind (sleep p u) (\<lambda>(p', u'). response_loop packetType (timeout - 20) p' u')
      else Inr (p, u))"

declare response_loop.simps [simp del]

definition GPP_getResponse :: "8 word \<Rightarrow> nat \<Rightarrow> phidget \<Rightarrow> usb \<Rightarrow> gpp_result cres" where
  "GPP_getResponse packetType timeout p u =
     cbind (response_loop packetType timeout p u) (\<lambda>(p', u').
       if GPPResponse p' AND 0x3f \<noteq> packetType then Inr (EPHIDGET_TIMEOUT, Some p', u')
       else if GPPResponse p' AND PACKET_FAIL \<noteq> 0 then Inr (EPHIDGET_UNEXPECTED, Some p', u')
       else Inr (EPHIDGET_OK, Some p', u'))"

section \<open>Packets\<close>

text \<open>\<open>malloc\<close> and \<open>ZEROMEM\<close> of the packet buffer, then its first byte.\<close>

definition packet_buffer :: "8 word \<Rightarrow> phidget \<Rightarrow> usb \<Rightarrow> (8 word list \<times> usb) cres" where
  "packet_buffer cmd p u =
     (let (got, mem) = alloc (usb_mem u) in
      if \<not> got then Inl Bad_Pointer
      else if outputReportByteLength p = 0 then Inl Out_Of_Bounds
      else Inr ((replicate (outputReportByteLength p) 0)[0 := PACKET_FLAG OR cmd], u\<lparr> usb_mem := mem \<rparr>))"

text \<open>The copying loops: \<open>data\<close> into the buffer from position \<open>i\<close>, and what does not fit.\<close>

definition fill :: "nat \<Rightarrow> 8 word list \<Rightarrow> 8 word list \<Rightarrow> 8 word list \<times> 8 word list" where
  "fill i buffer data =
     (let n = length buffer - i in
      (take i buffer @ take n data @ drop (i + length (take n data)) buffer, drop n data))"

text \<open>The continuation packets. With packets of one byte this would never end.\<close>

partial_function (option) send_rest ::
  "phidget \<Rightarrow> 8 word list \<Rightarrow> 8 word list \<Rightarrow> usb \<Rightarrow> (ecode \<times> 8 word list \<times> usb) run" where
  "send_rest p buffer data u =
     (if data = [] then Some (Inr (EPHIDGET_OK, buffer, u))
      else obind (Some (CUSBSendPacket (Some p)
                    (fst (fill 1 (buffer[0 := PACKET_FLAG OR PACKET_CONTINUATION]) data)) u)) (\<lambda>(r, u').
           if r \<noteq> EPHIDGET_OK
           then Some (Inr (r, fst (fill 1 (buffer[0 := PACKET_FLAG OR PACKET_CONTINUATION]) data), u'))
           else send_rest p (fst (fill 1 (buffer[0 := PACKET_FLAG OR PACKET_CONTINUATION]) data))
                  (snd (fill 1 (buffer[0 := PACKET_FLAG OR PACKET_CONTINUATION]) data)) u'))"

text \<open>A packet with a header of \<open>i\<close> bytes and its continuations.\<close>

definition send_long :: "nat \<Rightarrow> phidget \<Rightarrow> 8 word list \<Rightarrow> 8 word list \<Rightarrow> usb \<Rightarrow> (ecode \<times> 8 word list \<times> usb) run" where
  "send_long i p buffer data u =
     (let (b, rest) = fill i buffer data in
      obind (Some (CUSBSendPacket (Some p) b u)) (\<lambda>(r, u').
        if r \<noteq> EPHIDGET_OK then Some (Inr (r, b, u')) else send_rest p b rest u'))"

text \<open>The checks each operation of the protocol starts with.\<close>

definition when_gpp :: "phidget option \<Rightarrow> usb \<Rightarrow> (phidget \<Rightarrow> gpp_result run) \<Rightarrow> gpp_result run" where
  "when_gpp phid u f =
     (case phid of None \<Rightarrow> Some (Inr (EPHIDGET_INVALIDARG, None, u))
      | Some p \<Rightarrow>
          if \<not> flag_of p PHIDGET_ATTACHED_FLAG then Some (Inr (EPHIDGET_NOTATTACHED, Some p, u))
          else if \<not> deviceSupportsGeneralUSBProtocol p then Some (Inr (EPHIDGET_UNSUPPORTED, Some p, u))
          else f p)"

section \<open>Configuration tables\<close>

definition CPhidgetGPP_setConfigTable :: "phidget option \<Rightarrow> 8 word list \<Rightarrow> int \<Rightarrow> 8 word \<Rightarrow> usb \<Rightarrow> gpp_result run" where
  "CPhidgetGPP_setConfigTable phid data index packetType u =
     when_gpp phid u (\<lambda>p.
       obind (Some (packet_buffer packetType p u)) (\<lambda>(b, u1).
         if length b < 2 then Some (Inl Out_Of_Bounds)
         else obind (send_long 2 p (b[1 := word_of_int index]) data u1) (\<lambda>(r, _, u2). Some (Inr (r, Some p, u2)))))"

definition CPhidgetGPP_setDeviceSpecificConfigTable :: "phidget option \<Rightarrow> 8 word list \<Rightarrow> int \<Rightarrow> usb \<Rightarrow> gpp_result run" where
  "CPhidgetGPP_setDeviceSpecificConfigTable phid data index u =
     CPhidgetGPP_setConfigTable phid data index PACKET_SET_DS_TABLE u"

definition CPhidgetGPP_setDeviceWideConfigTable :: "phidget option \<Rightarrow> 8 word list \<Rightarrow> int \<Rightarrow> usb \<Rightarrow> gpp_result run" where
  "CPhidgetGPP_setDeviceWideConfigTable phid data index u =
     CPhidgetGPP_setConfigTable phid data index PACKET_SET_DW_TABLE u"

section \<open>Single commands\<close>

text \<open>A packet with nothing but the command, and no response.\<close>

definition send_command :: "8 word \<Rightarrow> phidget option \<Rightarrow> usb \<Rightarrow> gpp_result run" where
  "send_command cmd phid u =
     when_gpp phid u (\<lambda>p.
       obind (Some (packet_buffer cmd p u)) (\<lambda>(b, u1).
       obind (Some (CUSBSendPacket (Some p) b u1)) (\<lambda>(r, u2). Some (Inr (r, Some p, u2)))))"

definition CPhidgetGPP_reboot_ISP :: "phidget option \<Rightarrow> usb \<Rightarrow> gpp_result run" where
  "CPhidgetGPP_reboot_ISP = send_command PACKET_REBOOT_ISP"

definition CPhidgetGPP_writeFlash :: "phidget option \<Rightarrow> usb \<Rightarrow> gpp_result run" where
  "CPhidgetGPP_writeFlash = send_command PACKET_WRITE_FLASH"

definition CPhidgetGPP_zeroConfig :: "phidget option \<Rightarrow> usb \<Rightarrow> gpp_result run" where
  "CPhidgetGPP_zeroConfig = send_command PACKET_ZERO_CONFIG"

text \<open>A command the device answers.\<close>

definition ask_command :: "8 word \<Rightarrow> phidget option \<Rightarrow> usb \<Rightarrow> gpp_result run" where
  "ask_command cmd phid u =
     when_gpp phid u (\<lambda>p.
       obind (Some (packet_buffer cmd p u)) (\<lambda>(b, u1).
       let p1 = p\<lparr> GPPResponse := 0 \<rparr> in
       obind (Some (CUSBSendPacket (Some p1) b u1)) (\<lambda>(r, u2).
         if r = EPHIDGET_OK then Some (GPP_getResponse cmd 200 p1 u2) else Some (Inr (r, Some p1, u2)))))"

definition CPhidgetGPP_eraseFirmware :: "phidget option \<Rightarrow> usb \<Rightarrow> gpp_result run" where
  "CPhidgetGPP_eraseFirmware = ask_command PACKET_FIRMWARE_UPGRADE_ERASE"

definition CPhidgetGPP_eraseConfig :: "phidget option \<Rightarrow> usb \<Rightarrow> gpp_result run" where
  "CPhidgetGPP_eraseConfig = ask_command PACKET_ERASE_CONFIG"

text \<open>The threads of the device are stopped first; the attached flag is off while they end.\<close>

definition CPhidgetGPP_reboot_firmwareUpgrade :: "phidget option \<Rightarrow> usb \<Rightarrow> gpp_result run" where
  "CPhidgetGPP_reboot_firmwareUpgrade phid u =
     when_gpp phid u (\<lambda>p.
       obind (Some (packet_buffer PACKET_REBOOT_FIRMWARE_UPGRADE p u)) (\<lambda>(b, u1).
       let p1 = set_flag PHIDGET_ATTACHED_FLAG (clear_flag PHIDGET_ATTACHED_FLAG (p\<lparr> writeStopFlag := True \<rparr>)) in
       obind (Some (CUSBSendPacket (Some p1) b u1)) (\<lambda>(r, u2). Some (Inr (r, Some p1, u2)))))"

text \<open>The label table: a header of four bytes and the label descriptor, in 26 bytes.\<close>

definition CPhidgetGPP_setLabel :: "phidget option \<Rightarrow> 8 word list \<Rightarrow> usb \<Rightarrow> gpp_result run" where
  "CPhidgetGPP_setLabel phid label u =
     when_gpp phid u (\<lambda>p.
       obind (Some (byte_at label 0)) (\<lambda>n.
       if length label < unat n \<or> 22 < unat n then Some (Inl Out_Of_Bounds)
       else
         obind (CPhidgetGPP_setDeviceWideConfigTable phid
             ([0x1a, 0x00, 0x10, 0x00] @ take (unat n) label @ replicate (22 - unat n) 0) 0 u) (\<lambda>(r, phid', u1).
         if r = EPHIDGET_OK then CPhidgetGPP_writeFlash phid' u1 else Some (Inr (r, phid', u1)))))"

section \<open>Firmware\<close>

text \<open>
  The sectors are sent from the last to the first; the highest sector gets the odd bytes
  at the start of the data. \<open>room\<close> is \<open>indexEnd - j\<close>. The result of a failing transfer ends
  the loop and is then overwritten by the result of waiting for the response.
\<close>

fun send_sectors :: "phidget \<Rightarrow> nat \<Rightarrow> nat \<Rightarrow> nat \<Rightarrow> 8 word list \<Rightarrow> 8 word list \<Rightarrow> usb \<Rightarrow> usb run" where
  "send_sectors p len 0 room buffer data u = Some (Inr u)"
| "send_sectors p len (Suc k) room buffer data u =
     (let secLength = min (len - k * 0x1000) 0x1000 in
      if length buffer < 4 then Some (Inl Out_Of_Bounds)
      else obind (send_long 4 p
             (buffer[0 := PACKET_FLAG OR PACKET_WRITE_SECTOR, 1 := word_of_nat (Suc k),
                     2 := word_of_nat secLength, 3 := word_of_nat (secLength div 0x100)])
             (take room data) u) (\<lambda>(r, b, u').
           if r \<noteq> EPHIDGET_OK then Some (Inr u') else send_sectors p len k 0x1000 b (drop room data) u'))"

definition CPhidgetGPP_upgradeFirmware :: "phidget option \<Rightarrow> 8 word list \<Rightarrow> usb \<Rightarrow> gpp_result run" where
  "CPhidgetGPP_upgradeFirmware phid data u =
     when_gpp phid u (\<lambda>p.
       let (got, mem) = alloc (usb_mem u) in
       if \<not> got then Some (Inl Bad_Pointer)
       else
         let p1 = p\<lparr> GPPResponse := 0 \<rparr>; n = length data in
         obind (send_sectors p1 n (n div 0x1000 mod 0x10 + 1) (n mod 0x1000)
                  (replicate (outputReportByteLength p) 0) data (u\<lparr> usb_mem := mem \<rparr>)) (\<lambda>u1.
         Some (GPP_getResponse PACKET_WRITE_SECTOR 200 p1 u1)))"

section \<open>Sending without failures\<close>

text \<open>What a receiver takes from a message: the bytes after the headers of its packets.\<close>

definition payload :: "nat \<Rightarrow> 8 word list list \<Rightarrow> 8 word list" where
  "payload i ps = drop i (hd ps) @ concat (map (drop 1) (tl ps))"

definition continuations :: "nat \<Rightarrow> 8 word list list \<Rightarrow> bool" where
  "continuations n ps \<longleftrightarrow> (\<forall>x \<in> set ps. length x = n \<and> x ! 0 = 0x83)"

text \<open>A message of packets of size \<open>n\<close>: its header \<open>h\<close> and the text \<open>d\<close> it carries, without a superfluous packet.\<close>

definition message :: "nat \<Rightarrow> 8 word list \<Rightarrow> 8 word list \<Rightarrow> 8 word list list \<Rightarrow> bool" where
  "message n h d ps \<longleftrightarrow> ps \<noteq> [] \<and> length (hd ps) = n \<and> take (length h) (hd ps) = h \<and> continuations n (tl ps)
     \<and> take (length d) (payload (length h) ps) = d
     \<and> length (tl ps) = (length d - (n - length h) + (n - 2)) div (n - 1)"

lemma length_fill [simp]: "i \<le> length buffer \<Longrightarrow> length (fst (fill i buffer data)) = length buffer"
  by (simp add: fill_def Let_def)

lemma snd_fill: "snd (fill i buffer data) = drop (length buffer - i) data"
  by (simp add: fill_def Let_def)

lemma take_fill: "i \<le> length buffer \<Longrightarrow> take i (fst (fill i buffer data)) = take i buffer"
  by (simp add: fill_def Let_def)

lemma drop_fill:
  "i \<le> length buffer \<Longrightarrow> drop i (fst (fill i buffer data)) =
     take (length buffer - i) data @ drop (i + length (take (length buffer - i) data)) buffer"
  by (simp add: fill_def Let_def)

lemma fill_payload:
  assumes "i \<le> length buffer"
  shows "take (length data) (drop i (fst (fill i buffer data)) @ tail)
         = take (length buffer - i) data @ take (length data - (length buffer - i)) tail"
proof -
  define k where "k = length buffer - i"
  define X where "X = take k data"
  have d: "drop i (fst (fill i buffer data)) = X @ drop (i + length X) buffer"
    unfolding X_def k_def by (rule drop_fill [OF assms])
  have "take (length data) (drop i (fst (fill i buffer data)) @ tail) = X @ take (length data - k) tail"
  proof (cases "k \<le> length data")
    case True
    then have l: "length X = k" by (simp add: X_def)
    have "drop (i + k) buffer = []" using assms by (simp add: k_def)
    then show ?thesis unfolding d l using True l by (simp only: append_Nil2 take_append) simp
  next
    case False
    then have "X = data" "length data - k = 0" by (simp_all add: X_def)
    then show ?thesis unfolding d by simp
  qed
  then show ?thesis unfolding X_def k_def .
qed

lemma send_rest_step:
  "send_rest p buffer data u =
     (if data = [] then Some (Inr (EPHIDGET_OK, buffer, u))
      else let (b, rest) = fill 1 (buffer[0 := PACKET_FLAG OR PACKET_CONTINUATION]) data in
        obind (Some (CUSBSendPacket (Some p) b u)) (\<lambda>(r, u').
          if r \<noteq> EPHIDGET_OK then Some (Inr (r, b, u')) else send_rest p b rest u'))"
  by (subst send_rest.simps) (simp only: split_def Let_def)

lemma continuation_count:
  fixes l n :: nat
  assumes "0 < l" and "2 \<le> n"
  shows "Suc ((l - (n - 1) + (n - 2)) div (n - 1)) = (l + (n - 2)) div (n - 1)"
proof (cases "n - 1 \<le> l")
  case True
  then have e: "l + (n - 2) = (l - (n - 1) + (n - 2)) + (n - 1)" by simp
  have "0 < n - 1" using assms(2) by simp
  then show ?thesis by (subst e) (simp only: div_add_self2 [OF less_imp_neq [THEN not_sym]] Suc_eq_plus1)
next
  case False
  then have "(l + (n - 2)) div (n - 1) = 1"
    using assms by (intro div_nat_eqI) simp_all
  then show ?thesis using False assms(2) by simp
qed

lemma send_rest_all:
  assumes "writable p" and "length buffer = n" and "outputReportByteLength p = n" and "2 \<le> n" and "outs u = []"
  shows "\<exists>ps b. send_rest p buffer data u = Some (Inr (EPHIDGET_OK, b, u\<lparr> sent_packets := sent_packets u @ ps \<rparr>))
           \<and> length b = n \<and> continuations n ps \<and> take (length data) (concat (map (drop 1) ps)) = data
           \<and> length ps = (length data + (n - 2)) div (n - 1)"
  using assms(2,5)
proof (induction data arbitrary: buffer u rule: length_induct)
  case (1 data)
  show ?case
  proof (cases "data = []")
    case True
    then show ?thesis using 1 assms(4) by (subst send_rest_step) (simp add: continuations_def)
  next
    case False
    define buf where "buf = buffer[0 := 0x83]"
    define b where "b = fst (fill 1 buf data)"
    define rest where "rest = drop (n - 1) data"
    have lbuf: "length buf = n" "1 \<le> length buf" using 1 assms(4) by (simp_all add: buf_def)
    then have lb: "length b = n" by (simp add: b_def)
    have f: "fill 1 buf data = (b, rest)" using lbuf by (simp add: prod_eq_iff b_def rest_def snd_fill)
    let ?u = "u\<lparr> sent_packets := sent_packets u @ [b] \<rparr>"
    have send: "CUSBSendPacket (Some p) b u = Inr (EPHIDGET_OK, ?u)"
      using send_packet_ok [OF assms(1)] lb assms(3) 1 by simp
    have "length rest < length data" using False assms(4) unfolding rest_def by (cases data) auto
    then obtain ps b' where ps: "send_rest p b rest ?u = Some (Inr (EPHIDGET_OK, b', ?u\<lparr> sent_packets := sent_packets ?u @ ps \<rparr>))"
        "length b' = n" "continuations n ps" "take (length rest) (concat (map (drop 1) ps)) = rest"
        "length ps = (length rest + (n - 2)) div (n - 1)"
      using 1(1) [rule_format, of rest b ?u] 1(3) lb by auto
    have b0: "b ! 0 = 0x83"
      using take_fill [OF lbuf(2), of data] lbuf 1 assms(4) by (cases buffer) (auto simp: b_def buf_def fill_def Let_def)
    have "take (length data) (drop 1 b @ concat (map (drop 1) ps)) = take (n - 1) data @ take (length rest) (concat (map (drop 1) ps))"
      using fill_payload [OF lbuf(2), of data] lbuf by (simp add: b_def rest_def)
    also have "\<dots> = data" by (simp only: ps(4)) (simp add: rest_def)
    finally have pay: "take (length data) (concat (map (drop 1) (b # ps))) = data" by simp
    have "length (b # ps) = (length data + (n - 2)) div (n - 1)"
      using continuation_count [of "length data" n] False assms(4) ps(5) by (simp add: rest_def)
    moreover have "send_rest p buffer data u = Some (Inr (EPHIDGET_OK, b', u\<lparr> sent_packets := sent_packets u @ b # ps \<rparr>))"
      using False f send ps(1) by (subst send_rest_step) (simp flip: buf_def)
    ultimately show ?thesis using ps(2,3) lb b0 pay
      by (intro exI [of _ "b # ps"] exI [of _ b']) (simp add: continuations_def)
  qed
qed

lemma send_long_all:
  assumes "writable p" and "length buffer = n" and "outputReportByteLength p = n" and "2 \<le> n" and "outs u = []"
    and "i \<le> n"
  shows "\<exists>ps b. send_long i p buffer data u = Some (Inr (EPHIDGET_OK, b, u\<lparr> sent_packets := sent_packets u @ ps \<rparr>))
           \<and> length b = n \<and> message n (take i buffer) data ps"
proof -
  define b where "b = fst (fill i buffer data)"
  define rest where "rest = drop (n - i) data"
  have lb: "length b = n" using assms(2,6) by (simp add: b_def)
  have f: "fill i buffer data = (b, rest)" using assms(2,6) by (simp add: prod_eq_iff b_def rest_def snd_fill)
  let ?u = "u\<lparr> sent_packets := sent_packets u @ [b] \<rparr>"
  have send: "CUSBSendPacket (Some p) b u = Inr (EPHIDGET_OK, ?u)"
    using send_packet_ok [OF assms(1)] lb assms(3,5) by simp
  obtain ps b' where ps: "send_rest p b rest ?u = Some (Inr (EPHIDGET_OK, b', ?u\<lparr> sent_packets := sent_packets ?u @ ps \<rparr>))"
      "length b' = n" "continuations n ps" "take (length rest) (concat (map (drop 1) ps)) = rest"
      "length ps = (length rest + (n - 2)) div (n - 1)"
    using send_rest_all [OF assms(1) lb assms(3,4), of ?u rest] assms(5) by auto
  have "take (length data) (drop i b @ concat (map (drop 1) ps)) = take (n - i) data @ take (length rest) (concat (map (drop 1) ps))"
    using fill_payload [of i buffer data] assms(2,6) by (simp add: b_def rest_def)
  also have "\<dots> = data" by (simp only: ps(4)) (simp add: rest_def)
  finally have "message n (take i buffer) data (b # ps)"
    using lb ps(3,5) assms(2,6) take_fill [of i buffer data] by (simp add: message_def payload_def b_def rest_def)
  then show ?thesis using f send ps(1,2)
    by (intro exI [of _ "b # ps"] exI [of _ b']) (simp add: send_long_def)
qed

section \<open>Tables and firmware arrive\<close>

definition gpp_ready :: "phidget \<Rightarrow> bool" where
  "gpp_ready p \<longleftrightarrow> writable p \<and> deviceSupportsGeneralUSBProtocol p"

lemma when_gpp_ready [simp]: "gpp_ready p \<Longrightarrow> when_gpp (Some p) u f = f p"
  by (simp add: when_gpp_def gpp_ready_def writable_def)

lemma take_2: "2 \<le> length xs \<Longrightarrow> take 2 xs = [xs ! 0, xs ! 1]"
  by (cases xs; cases "tl xs") auto

text \<open>
  When every transfer succeeds, a configuration table of any length arrives complete: the
  first packet carries the packet type and the table index, every other is marked as a
  continuation, all have the size of the output report, what follows their headers starts
  with the table, and there are as few of them as possible.\<close>

theorem setConfigTable_arrives:
  assumes "gpp_ready p" and "outputReportByteLength p = n" and "2 \<le> n" and "outs u = []" and "usb_mem u = []"
  shows "\<exists>ps. CPhidgetGPP_setConfigTable (Some p) data index ty u =
             Some (Inr (EPHIDGET_OK, Some p, u\<lparr> sent_packets := sent_packets u @ ps \<rparr>))
           \<and> message n [0x80 OR ty, word_of_int index] data ps"
proof -
  define b where "b = ((replicate n 0)[0 := 0x80 OR ty, Suc 0 := word_of_int index] :: 8 word list)"
  have b: "length b = n" by (simp add: b_def)
  have "b ! 0 = 0x80 OR ty" "b ! 1 = word_of_int index" using assms(3) by (simp_all add: b_def)
  then have t: "take 2 b = [0x80 OR ty, word_of_int index]" using take_2 [of b] b assms(3) by simp
  have w: "writable p" using assms(1) by (simp add: gpp_ready_def)
  have u: "u\<lparr> usb_mem := [] \<rparr> = u" using assms(5) by simp
  have pb: "packet_buffer ty p u = Inr ((replicate n 0)[0 := 0x80 OR ty], u)"
    using assms(2,3,5) u by (simp add: packet_buffer_def)
  obtain ps b' where "send_long 2 p b data u =
      Some (Inr (EPHIDGET_OK, b', u\<lparr> sent_packets := sent_packets u @ ps \<rparr>))" "message n (take 2 b) data ps"
    using send_long_all [OF w b assms(2-4,3), of data] by blast
  then show ?thesis using assms(1,3) t
    by (intro exI [of _ ps]) (simp add: CPhidgetGPP_setConfigTable_def pb flip: b_def)
qed

text \<open>The sectors of a firmware image: index and contents, from the last to the first.\<close>

fun sector_list :: "nat \<Rightarrow> nat \<Rightarrow> 8 word list \<Rightarrow> (nat \<times> 8 word list) list" where
  "sector_list 0 room data = []"
| "sector_list (Suc k) room data = (Suc k, take room data) # sector_list k 0x1000 (drop room data)"

definition sector_message :: "nat \<Rightarrow> nat \<times> 8 word list \<Rightarrow> 8 word list list \<Rightarrow> bool" where
  "sector_message n sd ps \<longleftrightarrow>
     message n [0x86, word_of_nat (fst sd), word_of_nat (length (snd sd)), word_of_nat (length (snd sd) div 0x100)] (snd sd) ps"

lemma sector_list_data:
  "length data = room + k * 0x1000 \<Longrightarrow> concat (map snd (sector_list (Suc k) room data)) = data"
proof (induction k arbitrary: room data)
  case (Suc k)
  have "concat (map snd (sector_list (Suc k) 0x1000 (drop room data))) = drop room data"
    by (rule Suc.IH) (use Suc.prems in simp)
  then show ?case by (simp only: sector_list.simps(2) [of "Suc k"] list.map concat.simps snd_conv append_take_drop_id)
qed simp

lemma take_4: "4 \<le> length xs \<Longrightarrow> take 4 xs = [xs ! 0, xs ! 1, xs ! 2, xs ! 3]"
  by (cases xs; cases "tl xs"; cases "tl (tl xs)"; cases "tl (tl (tl xs))") auto

lemma send_sectors_all:
  assumes "writable p" and "outputReportByteLength p = n" and "4 \<le> n" and "room \<le> 0x1000"
    and "length buffer = n" and "outs u = []" and "length data = room + (k - 1) * 0x1000"
    and "k \<noteq> 0 \<Longrightarrow> len = room + (k - 1) * 0x1000 \<or> room = 0x1000 \<and> k * 0x1000 \<le> len"
  shows "\<exists>pss. send_sectors p len k room buffer data u = Some (Inr (u\<lparr> sent_packets := sent_packets u @ concat pss \<rparr>))
           \<and> list_all2 (sector_message n) (sector_list k room data) pss"
  using assms(4-)
proof (induction k arbitrary: room buffer data u)
  case (Suc k)
  define d where "d = take room data"
  define b where "b = buffer[0 := 0x86, 1 := word_of_nat (Suc k), 2 := word_of_nat room, 3 := word_of_nat (room div 0x100)]"
  have sec: "min (len - k * 0x1000) 0x1000 = room" using Suc.prems(1,5) by auto
  have ld: "length d = room" using Suc.prems(4) by (simp add: d_def)
  have b: "length b = n" using Suc.prems(2) by (simp add: b_def)
  have t: "take 4 b = [0x86, word_of_nat (Suc k), word_of_nat room, word_of_nat (room div 0x100)]"
    using take_4 [of b] b assms(3) Suc.prems(2) by (simp add: b_def nth_list_update)
  obtain ps b' where ps: "send_long 4 p b d u = Some (Inr (EPHIDGET_OK, b', u\<lparr> sent_packets := sent_packets u @ ps \<rparr>))"
      "length b' = n" "message n (take 4 b) d ps"
    using send_long_all [OF assms(1) b assms(2) _ Suc.prems(3) assms(3), of d] assms(3) by auto
  let ?u = "u\<lparr> sent_packets := sent_packets u @ ps \<rparr>"
  have "\<exists>pss. send_sectors p len k 0x1000 b' (drop room data) ?u =
          Some (Inr (?u\<lparr> sent_packets := sent_packets ?u @ concat pss \<rparr>))
        \<and> list_all2 (sector_message n) (sector_list k 0x1000 (drop room data)) pss"
  proof (cases "k = 0")
    case False
    show ?thesis
      by (rule Suc.IH) (use ps(2) Suc.prems(3,4,5) False in \<open>auto simp: algebra_simps\<close>)
  qed simp
  then obtain pss where "send_sectors p len k 0x1000 b' (drop room data) ?u =
          Some (Inr (?u\<lparr> sent_packets := sent_packets ?u @ concat pss \<rparr>))"
      "list_all2 (sector_message n) (sector_list k 0x1000 (drop room data)) pss" by blast
  moreover have "sector_message n (Suc k, take room data) ps"
    using ps(3) t ld by (simp add: sector_message_def flip: d_def)
  ultimately show ?case
    using ps(1) [unfolded b_def d_def] assms(3) Suc.prems(2) unfolding send_sectors.simps Let_def sec
    by (intro exI [of _ "ps # pss"]) simp
qed simp

text \<open>
  C24: when every transfer succeeds, a firmware image of less than 64 KB arrives complete: one
  message for each sector, from the last to the first, whose header carries the sector's
  number and length; the contents of the sectors, in the order sent, are the image. The
  result is that of waiting for the device's answer.\<close>

theorem upgradeFirmware_arrives:
  assumes "gpp_ready p" and "outputReportByteLength p = n" and "4 \<le> n" and "outs u = []" and "usb_mem u = []"
    and "length data < 0x10000"
  defines "secs \<equiv> sector_list (length data div 0x1000 + 1) (length data mod 0x1000) data"
  shows "concat (map snd secs) = data
         \<and> (\<exists>pss. list_all2 (sector_message n) secs pss
              \<and> CPhidgetGPP_upgradeFirmware (Some p) data u =
                  Some (GPP_getResponse PACKET_WRITE_SECTOR 200 (p\<lparr> GPPResponse := 0 \<rparr>)
                          (u\<lparr> sent_packets := sent_packets u @ concat pss \<rparr>)))"
proof -
  define l where "l = length data"
  define p1 where "p1 = p\<lparr> GPPResponse := 0 \<rparr>"
  have w: "writable p1" using assms(1) by (simp add: gpp_ready_def writable_def p1_def)
  have o: "outputReportByteLength p1 = n" using assms(2) by (simp add: p1_def)
  have l: "l = l mod 0x1000 + (l div 0x1000) * 0x1000" by simp
  have m: "l div 0x1000 mod 0x10 = l div 0x1000" using assms(6) by (simp add: l_def)
  have u: "u\<lparr> usb_mem := [] \<rparr> = u" using assms(5) by simp
  obtain pss where "send_sectors p1 l (l div 0x1000 + 1) (l mod 0x1000) (replicate n 0) data u =
        Some (Inr (u\<lparr> sent_packets := sent_packets u @ concat pss \<rparr>))" "list_all2 (sector_message n) secs pss"
    using send_sectors_all [OF w o assms(3), of "l mod 0x1000" "replicate n 0" u data "l div 0x1000 + 1" l]
      assms(4) l unfolding secs_def l_def by (auto simp del: sector_list.simps)
  moreover have "concat (map snd secs) = data"
    unfolding secs_def l_def [symmetric] using sector_list_data [of data "l mod 0x1000" "l div 0x1000"] l l_def by simp
  ultimately show ?thesis
    using assms(1,2,5) m
    by (intro conjI exI [of _ pss]) (simp_all add: CPhidgetGPP_upgradeFirmware_def Let_def u del: send_sectors.simps flip: l_def p1_def)
qed

section \<open>A lost failure\<close>

lemma send_packet_keeps:
  assumes "CUSBSendPacket (Some p) b u = Inr (r, u')"
  shows "waits u' = waits u"
  using assms
  by (auto simp: CUSBSendPacket_def transfer_out_def split: out_result.splits usb_error.splits if_splits)

lemma send_rest_total:
  assumes "length buffer = n" and "outputReportByteLength p = n" and "2 \<le> n"
  shows "\<exists>r b u'. send_rest p buffer data u = Some (Inr (r, b, u')) \<and> length b = n \<and> waits u' = waits u"
  using assms(1)
proof (induction data arbitrary: buffer u rule: length_induct)
  case (1 data)
  show ?case
  proof (cases "data = []")
    case True
    then show ?thesis using 1 by (subst send_rest_step) simp
  next
    case False
    define b where "b = fst (fill 1 (buffer[0 := 0x83]) data)"
    define rest where "rest = drop (n - 1) data"
    have lb: "length b = n" using 1 assms(3) by (simp add: b_def)
    have f: "fill 1 (buffer[0 := 0x83]) data = (b, rest)" using 1 assms(3) by (simp add: prod_eq_iff b_def rest_def snd_fill)
    obtain r u1 where s: "CUSBSendPacket (Some p) b u = Inr (r, u1)"
      using send_packet_total [of p b u] lb assms(2) by auto
    have "length rest < length data" using False assms(3) unfolding rest_def by (cases data) auto
    then obtain r' b' u' where "send_rest p b rest u1 = Some (Inr (r', b', u'))" "length b' = n" "waits u' = waits u1"
      using 1(1) [rule_format, of rest b u1] lb by auto
    then show ?thesis using False f s lb send_packet_keeps [OF s]
      by (subst send_rest_step) (cases "r = EPHIDGET_OK"; auto)
  qed
qed

lemma send_long_total:
  assumes "length buffer = n" and "outputReportByteLength p = n" and "2 \<le> n" and "i \<le> n"
  shows "\<exists>r b u'. send_long i p buffer data u = Some (Inr (r, b, u')) \<and> length b = n \<and> waits u' = waits u"
proof -
  define b where "b = fst (fill i buffer data)"
  have lb: "length b = n" using assms(1,4) by (simp add: b_def)
  obtain r u1 where s: "CUSBSendPacket (Some p) b u = Inr (r, u1)"
    using send_packet_total [of p b u] lb assms(2) by auto
  show ?thesis
    using send_rest_total [OF lb assms(2,3), of "snd (fill i buffer data)" u1] s lb send_packet_keeps [OF s]
    by (cases "r = EPHIDGET_OK") (auto simp: send_long_def split_def Let_def simp flip: b_def)
qed

lemma send_sectors_total:
  assumes "outputReportByteLength p = n" and "4 \<le> n" and "length buffer = n"
  shows "\<exists>u'. send_sectors p len k room buffer data u = Some (Inr u') \<and> waits u' = waits u"
  using assms(3)
proof (induction k arbitrary: room buffer data u)
  case (Suc k)
  let ?sec = "min (len - k * 0x1000) 0x1000"
  let ?b = "buffer[0 := 0x86, 1 := word_of_nat (Suc k), 2 := word_of_nat ?sec, 3 := word_of_nat (?sec div 0x100)]"
  have "length ?b = n" "2 \<le> n" using Suc.prems assms(2) by simp_all
  then obtain r b u1 where s: "send_long 4 p ?b (take room data) u = Some (Inr (r, b, u1))" "length b = n" "waits u1 = waits u"
    using send_long_total [OF _ assms(1) _ assms(2)] by blast
  then show ?case using Suc.IH [OF s(2), where room = "0x1000" and data = "drop room data" and u = u1] assms(2) Suc.prems
    by (cases "r = EPHIDGET_OK") (auto simp: Let_def)
qed simp

text \<open>
  whatever becomes of its transfers, the firmware upgrade returns, and with the result of
  waiting for the device's answer alone: a transfer that fails stops the sending but is not
  reported.\<close>

theorem upgradeFirmware_hides_failure:
  assumes "flag_of p PHIDGET_ATTACHED_FLAG" and "deviceSupportsGeneralUSBProtocol p"
    and "4 \<le> outputReportByteLength p" and "usb_mem u = []"
  shows "\<exists>u1. waits u1 = waits u \<and> CPhidgetGPP_upgradeFirmware (Some p) data u =
           Some (GPP_getResponse PACKET_WRITE_SECTOR 200 (p\<lparr> GPPResponse := 0 \<rparr>) u1)"
proof -
  define p1 where "p1 = p\<lparr> GPPResponse := 0 \<rparr>"
  have o: "outputReportByteLength p1 = outputReportByteLength p" by (simp add: p1_def)
  obtain u1 where "send_sectors p1 (length data) (length data div 0x1000 mod 0x10 + 1) (length data mod 0x1000)
        (replicate (outputReportByteLength p) 0) data (u\<lparr> usb_mem := [] \<rparr>) = Some (Inr u1)" "waits u1 = waits u"
    using send_sectors_total [OF o assms(3), of "replicate (outputReportByteLength p) 0" "length data"
        "length data div 0x1000 mod 0x10 + 1" "length data mod 0x1000" data "u\<lparr> usb_mem := [] \<rparr>"] by auto
  then show ?thesis using assms
    by (intro exI [of _ u1])
      (simp add: CPhidgetGPP_upgradeFirmware_def when_gpp_def Let_def del: send_sectors.simps flip: p1_def)
qed

section \<open>Concrete devices\<close>

definition sample_device :: phidget where
  "sample_device = zero_phidget\<lparr> ph_status := PHIDGET_ATTACHED_FLAG, deviceHandle := Some (''1/2'', 0),
     deviceUID := PHIDUID_GENERIC, outputReportByteLength := 8, inputReportByteLength := 8 \<rparr>"

definition quiet_usb :: usb where
  "quiet_usb = \<lparr> outs = [], ins = [], waits = [], usb_mem = [], sent_packets = [] \<rparr>"

lemma sample_ready: "gpp_ready sample_device"
  by (simp add: gpp_ready_def writable_def sample_device_def deviceSupportsGeneralUSBProtocol_def
      CPhidget_statusFlagIsSet_def PHIDGET_ATTACHED_FLAG_def)

theorem setConfigTable_arrives_witness:
  "\<exists>ps. CPhidgetGPP_setConfigTable (Some sample_device) (replicate 26 7) 0 8 quiet_usb =
          Some (Inr (EPHIDGET_OK, Some sample_device, quiet_usb\<lparr> sent_packets := ps \<rparr>))
      \<and> message 8 [0x88, 0] (replicate 26 7) ps"
  using setConfigTable_arrives [OF sample_ready, of 8 quiet_usb "replicate 26 7" 0 8]
  by (auto simp: quiet_usb_def sample_device_def)

theorem upgradeFirmware_arrives_witness:
  "\<exists>pss. list_all2 (sector_message 8) (sector_list 1 9 [1, 2, 3, 4, 5, 6, 7, 8, 9]) pss
     \<and> CPhidgetGPP_upgradeFirmware (Some sample_device) [1, 2, 3, 4, 5, 6, 7, 8, 9] quiet_usb =
         Some (GPP_getResponse 6 200 sample_device (quiet_usb\<lparr> sent_packets := concat pss \<rparr>))"
proof -
  have "sample_device\<lparr> GPPResponse := 0 \<rparr> = sample_device" by (simp add: sample_device_def zero_phidget_def)
  moreover have "outputReportByteLength sample_device = 8" "outs quiet_usb = []" "usb_mem quiet_usb = []"
    "sent_packets quiet_usb = []" by (simp_all add: sample_device_def quiet_usb_def)
  ultimately show ?thesis
    using upgradeFirmware_arrives [OF sample_ready, of 8 quiet_usb "[1, 2, 3, 4, 5, 6, 7, 8, 9]"]
    by (simp del: sector_list.simps)
qed

text \<open>The device has unplugged itself, yet a late answer makes the upgrade succeed.\<close>

theorem upgradeFirmware_hides_failure_witness:
  "\<exists>u1. CPhidgetGPP_upgradeFirmware (Some sample_device) [1]
          (quiet_usb\<lparr> outs := [Write_Failed LIBUSB_PIPE], waits := [[[0x06]]] \<rparr>) = Some (Inr (EPHIDGET_OK, u1))"
proof -
  let ?u = "quiet_usb\<lparr> outs := [Write_Failed LIBUSB_PIPE], waits := [[[0x06]]] \<rparr>"
  have a: "flag_of sample_device PHIDGET_ATTACHED_FLAG" "deviceSupportsGeneralUSBProtocol sample_device"
    "4 \<le> outputReportByteLength sample_device" "usb_mem ?u = []"
    using sample_ready by (simp_all add: gpp_ready_def writable_def sample_device_def quiet_usb_def)
  obtain u1 where u1: "waits u1 = [[[0x06]]]" "CPhidgetGPP_upgradeFirmware (Some sample_device) [1] ?u =
      Some (GPP_getResponse 6 200 (sample_device\<lparr> GPPResponse := 0 \<rparr>) u1)"
    using upgradeFirmware_hides_failure [OF a, of "[1]"] by auto
  have "\<exists>v. GPP_getResponse 6 200 (sample_device\<lparr> GPPResponse := 0 \<rparr>) u1 = Inr (EPHIDGET_OK, v)"
    using u1(1) by (simp add: GPP_getResponse_def response_loop.simps sleep_def)
  with u1(2) show ?thesis by auto
qed

end
