(* ===== verification/Traffic.thy ===== *)
theory Traffic
  imports Usb GPP
begin

text \<open>
  The traffic of an attached device: reading a packet and giving it to the device's code,
  getting a packet from the device's code and sending it (\<open>cphidget.c\<close>), and the rounds of the
  read and the write thread (\<open>cthread.c\<close>).

  The functions are generic in the device's structure: \<open>'d\<close> with \<open>get\<close> and \<open>put\<close> for the
  handle it starts with. \<open>fptrData\<close> and \<open>fptrGetPacket\<close> are the device's functions.
  \<open>lastReadPacket\<close> keeps the bytes a shorter packet does not overwrite.
\<close>

abbreviation (input) MAX_IN_PACKET_SIZE :: nat where "MAX_IN_PACKET_SIZE \<equiv> 64"
abbreviation (input) MAX_OUT_PACKET_SIZE :: nat where "MAX_OUT_PACKET_SIZE \<equiv> 64"

type_synonym 'd data_handler = "8 word list \<Rightarrow> int \<Rightarrow> 'd \<Rightarrow> (ecode \<times> 'd) cres"
type_synonym 'd packet_source = "nat \<Rightarrow> 'd \<Rightarrow> (ecode \<times> 8 word list \<times> 'd) cres"

definition CPhidget_read :: "('d \<Rightarrow> phidget) \<Rightarrow> ((phidget \<Rightarrow> phidget) \<Rightarrow> 'd \<Rightarrow> 'd) \<Rightarrow> 'd data_handler option
    \<Rightarrow> 'd \<Rightarrow> 8 word list \<Rightarrow> usb \<Rightarrow> (ecode \<times> 'd \<times> 8 word list \<times> usb) cres" where
  "CPhidget_read get put fptrData d lastReadPacket u =
     (let p = get d in
      if \<not> flag_of p PHIDGET_ATTACHED_FLAG \<and> \<not> flag_of p PHIDGET_ATTACHING_FLAG
      then Inr (EPHIDGET_NOTATTACHED, d, lastReadPacket, u)
      else
        cbind (CUSBReadPacket MAX_IN_PACKET_SIZE (Some p) u) (\<lambda>(r, data, p1, u1).
        let buf = data @ drop (length data) lastReadPacket; d1 = put (\<lambda>_. the p1) d in
        if r \<noteq> EPHIDGET_OK then Inr (r, d1, buf, u1)
        else cbind (byte_at buf 0) (\<lambda>b.
          if bit b 7 \<and> deviceSupportsGeneralUSBProtocol (get d1)
          then cbind (CPhidgetGPP_dataInput buf (get d1)) (\<lambda>p2. Inr (EPHIDGET_OK, put (\<lambda>_. p2) d1, buf, u1))
          else case fptrData of
            None \<Rightarrow> Inr (EPHIDGET_OK, d1, buf, u1)
          | Some f \<Rightarrow> cbind (f buf (int (inputReportByteLength (get d1))) d1) (\<lambda>(r2, d2). Inr (r2, d2, buf, u1)))))"

text \<open>Whatever happens, \<open>writtenEvent\<close> is set at the end.\<close>

definition CPhidget_write :: "('d \<Rightarrow> phidget) \<Rightarrow> 'd packet_source \<Rightarrow> 'd \<Rightarrow> usb \<Rightarrow> (ecode \<times> 'd \<times> usb) cres" where
  "CPhidget_write get fptrGetPacket d u =
     cbind (fptrGetPacket MAX_OUT_PACKET_SIZE d) (\<lambda>(r, buf, d1).
       if r \<noteq> EPHIDGET_OK then Inr (r, d1, u)
       else cbind (CUSBSendPacket (Some (get d1)) buf u) (\<lambda>(r2, u1). Inr (r2, d1, u1)))"

section \<open>The read thread\<close>

text \<open>Devices that never send anything have no use for it.\<close>

definition read_not_needed :: "phidget \<Rightarrow> bool" where
  "read_not_needed p \<longleftrightarrow>
     deviceID p = PHIDCLASS_SERVO \<and> deviceVersion p < 313
     \<or> deviceID p = PHIDCLASS_INTERFACEKIT \<and> deviceIDSpec p = PHIDID_INTERFACEKIT_0_0_4 \<and> deviceVersion p < 704
     \<or> deviceID p = PHIDCLASS_LED \<and> deviceIDSpec p = PHIDID_LED_64
     \<or> deviceID p = PHIDCLASS_TEXTLCD \<and> deviceIDSpec p \<noteq> PHIDID_TEXTLCD_ADAPTER
     \<or> deviceID p = PHIDCLASS_TEXTLED"

text \<open>Devices that send only on a change may time out.\<close>

definition timeout_ok :: "phidget \<Rightarrow> bool" where
  "timeout_ok p =
     (if deviceID p = PHIDCLASS_INTERFACEKIT then
        (if deviceIDSpec p = PHIDID_INTERFACEKIT_0_16_16 then deviceVersion p < 601
         else deviceIDSpec p = PHIDID_INTERFACEKIT_0_8_8_w_LCD)
      else if deviceID p = PHIDCLASS_RFID then deviceVersion p < 201
      else if deviceID p = PHIDCLASS_ENCODER then deviceIDSpec p \<noteq> PHIDID_ENCODER_HS_4ENCODER_4INPUT
      else deviceID p = PHIDCLASS_GENERIC)"

text \<open>What a read means for the thread: \<open>None\<close> to go on, or whether it ends with the error flag set.\<close>

definition read_verdict :: "phidget \<Rightarrow> ecode \<Rightarrow> bool option" where
  "read_verdict p r =
     (if r = EPHIDGET_OK \<or> r = EPHIDGET_TRYAGAIN then None
      else if r = EPHIDGET_NOTATTACHED \<or> r = EPHIDGET_INTERRUPTED then Some False
      else if r = EPHIDGET_TIMEOUT then (if timeout_ok p then None else Some True)
      else Some True)"

text \<open>One round of the loop; \<open>True\<close> when it goes on. \<open>paused\<close> is \<open>pause_usb_traffic\<close>.\<close>

definition ReadThread_round :: "('d \<Rightarrow> phidget) \<Rightarrow> ((phidget \<Rightarrow> phidget) \<Rightarrow> 'd \<Rightarrow> 'd) \<Rightarrow> 'd data_handler option
    \<Rightarrow> bool \<Rightarrow> 'd \<Rightarrow> 8 word list \<Rightarrow> usb \<Rightarrow> (bool \<times> 'd \<times> 8 word list \<times> usb) cres" where
  "ReadThread_round get put fptrData paused d lastReadPacket u =
     (if read_not_needed (get d) \<or> \<not> flag_of (get d) PHIDGET_ATTACHED_FLAG then Inr (False, d, lastReadPacket, u)
      else if paused then Inr (True, d, lastReadPacket, u)
      else cbind (CPhidget_read get put fptrData d lastReadPacket u) (\<lambda>(r, d1, buf, u1).
        case read_verdict (get d1) r of
          None \<Rightarrow> Inr (True, d1, buf, u1)
        | Some e \<Rightarrow> Inr (False, (if e then put (set_flag PHIDGET_USB_ERROR_FLAG) d1 else d1), buf, u1)))"

section \<open>The write thread\<close>

definition write_not_needed :: "phidget \<Rightarrow> bool" where
  "write_not_needed p \<longleftrightarrow>
     deviceID p = PHIDCLASS_INTERFACEKIT \<and> deviceIDSpec p \<in> {PHIDID_LINEAR_TOUCH, PHIDID_ROTARY_TOUCH}
     \<or> deviceID p = PHIDCLASS_RFID \<and> deviceIDSpec p = PHIDID_RFID
     \<or> deviceID p = PHIDCLASS_ENCODER \<and> deviceIDSpec p \<in> {PHIDID_ENCODER_1ENCODER_1INPUT, PHIDID_ENCODER_HS_1ENCODER}
     \<or> deviceID p \<in> {PHIDCLASS_ACCELEROMETER, PHIDCLASS_TEMPERATURESENSOR, PHIDCLASS_PHSENSOR, PHIDCLASS_WEIGHTSENSOR}"

datatype wait_result = WAIT_OBJECT_0 | WAIT_TIMEOUT | WAIT_ABANDONED | WAIT_FAILED

definition write_verdict :: "ecode \<Rightarrow> bool option" where
  "write_verdict r =
     (if r = EPHIDGET_OK then None else Some (r \<noteq> EPHIDGET_NOTATTACHED \<and> r \<noteq> EPHIDGET_INTERRUPTED))"

text \<open>
  One round after the wait for something to write. A timeout writes only for devices that
  want that (\<open>awdc\<close>); the request to stop is looked at only then, so that no write is missed.
  The thread clears that request when it ends.
\<close>

definition stop_write :: "((phidget \<Rightarrow> phidget) \<Rightarrow> 'd \<Rightarrow> 'd) \<Rightarrow> bool \<Rightarrow> 'd \<Rightarrow> 'd" where
  "stop_write put e d =
     put (\<lambda>p. (if e then set_flag PHIDGET_USB_ERROR_FLAG p else p)\<lparr> writeStopFlag := False \<rparr>) d"

definition WriteThread_round :: "('d \<Rightarrow> phidget) \<Rightarrow> ((phidget \<Rightarrow> phidget) \<Rightarrow> 'd \<Rightarrow> 'd) \<Rightarrow> ('d \<Rightarrow> bool) \<Rightarrow> 'd packet_source
    \<Rightarrow> bool \<Rightarrow> wait_result \<Rightarrow> 'd \<Rightarrow> usb \<Rightarrow> (bool \<times> 'd \<times> usb) cres" where
  "WriteThread_round get put awdc fptrGetPacket paused wait d u =
     (if write_not_needed (get d) \<or> \<not> flag_of (get d) PHIDGET_ATTACHED_FLAG then Inr (False, stop_write put False d, u)
      else if wait = WAIT_TIMEOUT \<and> writeStopFlag (get d) then Inr (False, stop_write put False d, u)
      else if wait = WAIT_TIMEOUT \<and> \<not> awdc d then Inr (True, d, u)
      else if wait = WAIT_ABANDONED \<or> wait = WAIT_FAILED then Inr (False, stop_write put True d, u)
      else if paused then Inr (True, d, u)
      else cbind (CPhidget_write get fptrGetPacket d u) (\<lambda>(r, d1, u1).
        case write_verdict r of
          None \<Rightarrow> Inr (True, d1, u1)
        | Some e \<Rightarrow> Inr (False, stop_write put e d1, u1)))"

end
