(* ===== verification/InterfaceKit.thy ===== *)
theory InterfaceKit
  imports Traffic Decimal
begin

text \<open>
  The interface kit (\<open>cphidgetinterfacekit.c\<close>), the board the CTD+ server reads its sensors
  from: analog sensors, digital inputs and digital outputs.

  \<open>dev\<close> is the handle the structure starts with. The arrays of the structure are lists of
  their C length (8 sensors, 32 inputs, 32 outputs); a boolean is 0, 1, 2 (unknown) or 3
  (not initialised). User callbacks are logged as events and do not call the library.
  Roundings of doubles are written as divisions of integers: \<open>(x * 2000 + 4095) div 8190\<close> is
  \<open>round (x / 4.095)\<close>, \<open>(x * 2002 + 999) div 2000\<close> is \<open>round (x * 1.001)\<close> (no double is 1.001,
  the nearest is a bit less, so halves go down), and \<open>x * 63 div 8\<close> is \<open>(int) (x * 7.875)\<close>;
  they agree on every value a packet can hold.
\<close>

abbreviation (input) PUNK_BOOL :: int where "PUNK_BOOL \<equiv> 2"
abbreviation (input) PUNI_BOOL :: int where "PUNI_BOOL \<equiv> 3"
abbreviation (input) PUNK_INT :: int where "PUNK_INT \<equiv> 0x7FFFFFFF"
abbreviation (input) PUNI_INT :: int where "PUNI_INT \<equiv> 0x7FFFFFFE"
abbreviation (input) IFKIT_MAXINPUTS :: nat where "IFKIT_MAXINPUTS \<equiv> 32"
abbreviation (input) IFKIT_MAXOUTPUTS :: nat where "IFKIT_MAXOUTPUTS \<equiv> 32"
abbreviation (input) IFKIT_MAXSENSORS :: nat where "IFKIT_MAXSENSORS \<equiv> 8"
abbreviation (input) IFKIT_MIN_DATA_RATE :: int where "IFKIT_MIN_DATA_RATE \<equiv> 1000"

datatype event_mode = EVENTMODE_NONE | EVENTMODE_DATARATE | EVENTMODE_CHANGETRIGGER

datatype ik_error = EEPHIDGET_OVERRUN nat nat | EEPHIDGET_PACKETLOST | EEPHIDGET_OVERCURRENT

datatype ik_event =
    InputChange nat int | OutputChange nat int | SensorChange nat int | Error_Fired ik_error

record ifkit =
  dev :: phidget
  awdc_enabled :: bool
  fptrInputChange :: bool
  fptrOutputChange :: bool
  fptrSensorChange :: bool
  ratiometric :: int
  ratiometricEcho :: int
  ratiometricSwitching :: nat
  outputStates :: "int list"
  nextOutputStates :: "int list"
  changedOutputs :: "int list"
  lastChangedOutput :: int
  outputEchoStates :: "int list"
  physicalState :: "int list"
  sensorChangeTrigger :: "int list"
  sensorRawValue :: "int list"
  sensorValue :: "int list"
  sensorLastValue :: "int list"
  sensorRawValueAccumulator :: "int list"
  sensorRawValueAccumulatorCount :: "int list"
  dataRate :: "int list"
  interruptRate :: int
  dataRateMax :: int
  dataRateMin :: int
  lastPacketCount :: int
  maxDataPerPacket :: int
  dataSinceAttach :: int
  eventMode :: "event_mode list"
  fullStateEcho :: int
  ik_queue :: "ik_error list"
  ik_log :: "ik_event list"

definition numSensors :: "ifkit \<Rightarrow> nat" where "numSensors k = attr (dev k) ! 0"
definition numInputs :: "ifkit \<Rightarrow> nat" where "numInputs k = attr (dev k) ! 1"
definition numOutputs :: "ifkit \<Rightarrow> nat" where "numOutputs k = attr (dev k) ! 2"

section \<open>Events\<close>

definition ik_attached :: "ifkit \<Rightarrow> bool" where
  "ik_attached k \<longleftrightarrow> flag_of (dev k) PHIDGET_ATTACHED_FLAG"

text \<open>\<open>FIRE\<close>: a handler is called when it is set and the device is attached.\<close>

definition fire :: "(ifkit \<Rightarrow> bool) \<Rightarrow> ik_event \<Rightarrow> ifkit \<Rightarrow> ifkit" where
  "fire handler e k = (if handler k \<and> ik_attached k then k\<lparr> ik_log := ik_log k @ [e] \<rparr> else k)"

definition fire_error_noqueue :: "ik_error \<Rightarrow> ifkit \<Rightarrow> ifkit" where
  "fire_error_noqueue e k = fire (\<lambda>k. fptrError (dev k) \<noteq> None) (Error_Fired e) k"

text \<open>An error before the attachment is kept for later; memory for it is taken to be there.\<close>

definition fire_error :: "ik_error \<Rightarrow> ifkit \<Rightarrow> ifkit" where
  "fire_error e k = (if ik_attached k then fire_error_noqueue e k else k\<lparr> ik_queue := ik_queue k @ [e] \<rparr>)"

section \<open>The variables\<close>

definition CPhidgetInterfaceKit_clearVars :: "ifkit \<Rightarrow> ifkit" where
  "CPhidgetInterfaceKit_clearVars k =
     k\<lparr> ratiometric := PUNI_BOOL, ratiometricEcho := PUNK_BOOL, lastChangedOutput := PUNK_INT,
        fullStateEcho := PUNK_BOOL, ratiometricSwitching := 0, dataRateMin := PUNI_INT,
        dataRateMax := PUNI_INT, interruptRate := PUNI_INT,
        physicalState := replicate IFKIT_MAXINPUTS PUNI_BOOL,
        sensorChangeTrigger := replicate IFKIT_MAXSENSORS PUNI_INT,
        sensorRawValue := replicate IFKIT_MAXSENSORS PUNI_INT,
        sensorValue := replicate IFKIT_MAXSENSORS PUNI_INT,
        sensorLastValue := replicate IFKIT_MAXSENSORS PUNK_INT,
        dataRate := replicate IFKIT_MAXSENSORS PUNI_INT,
        nextOutputStates := replicate IFKIT_MAXOUTPUTS PUNK_BOOL,
        outputEchoStates := replicate IFKIT_MAXOUTPUTS PUNI_BOOL,
        outputStates := replicate IFKIT_MAXOUTPUTS PUNK_BOOL,
        changedOutputs := replicate IFKIT_MAXOUTPUTS PUNK_BOOL \<rparr>"

text \<open>The versions of the 8/8/8 boards: plain ones, and those that send samples in bulk.\<close>

definition old_888 :: "phidget \<Rightarrow> bool" where
  "old_888 p \<longleftrightarrow> deviceVersion p < 200 \<and> deviceIDSpec p = PHIDID_INTERFACEKIT_8_8_8_w_LCD
     \<or> deviceVersion p < 900 \<and> deviceIDSpec p = PHIDID_INTERFACEKIT_8_8_8"

definition fast_888 :: "phidget \<Rightarrow> bool" where
  "fast_888 p \<longleftrightarrow>
     deviceVersion p \<ge> 900 \<and> deviceVersion p < 1000 \<and> deviceIDSpec p = PHIDID_INTERFACEKIT_8_8_8
     \<or> deviceVersion p \<ge> 200 \<and> deviceVersion p < 300 \<and> deviceIDSpec p = PHIDID_INTERFACEKIT_8_8_8_w_LCD
     \<or> deviceIDSpec p = PHIDID_INTERFACEKIT_2_2_2"

definition set_first :: "nat \<Rightarrow> 'a \<Rightarrow> 'a list \<Rightarrow> 'a list" where
  "set_first n x xs = replicate n x @ drop n xs"

section \<open>Packets from the device\<close>

text \<open>
  What a packet says: the states of inputs and outputs (positions it does not mention are
  unknown), the samples of each sensor as pairs of raw and scaled value, in order, and the
  ratiometric state.
\<close>

record ik_packet =
  inputState :: "int list"
  outputState :: "int list"
  samples :: "(int \<times> int) list list"
  ratioState :: int

definition no_packet :: ik_packet where
  "no_packet = \<lparr> inputState = [], outputState = [], samples = replicate IFKIT_MAXSENSORS [], ratioState = PUNK_BOOL \<rparr>"

definition state_at :: "int list \<Rightarrow> nat \<Rightarrow> int" where
  "state_at xs i = (if i < length xs then xs ! i else PUNK_BOOL)"

definition bits_high :: "8 word \<Rightarrow> nat list \<Rightarrow> int list" where
  "bits_high b is = map (\<lambda>i. if bit b i then 1 else 0) is"

definition bits_low :: "8 word \<Rightarrow> nat list \<Rightarrow> int list" where
  "bits_low b is = map (\<lambda>i. if bit b i then 0 else 1) is"

definition scale :: "int \<Rightarrow> int" where
  "scale raw = (raw * 2000 + 4095) div 8190"

definition sample :: "int \<Rightarrow> int \<times> int" where
  "sample raw = (raw, scale raw)"

text \<open>Twelve bits: a byte and the lower or upper half of another.\<close>

definition low12 :: "8 word \<Rightarrow> 8 word \<Rightarrow> int" where
  "low12 a b = uint a + uint (b AND 0x0f) * 256"

definition high12 :: "8 word \<Rightarrow> 8 word \<Rightarrow> int" where
  "high12 a b = uint a + uint (b AND 0xf0) * 16"

subsection \<open>Bulk samples\<close>

text \<open>Two counts in each byte, of overruns where the flag is set, and of samples.\<close>

definition high_half :: "8 word \<Rightarrow> nat" where "high_half b = unat b div 16"
definition low_half :: "8 word \<Rightarrow> nat" where "low_half b = unat b mod 16"

fun take_overruns :: "8 word list \<Rightarrow> bool list \<Rightarrow> nat \<Rightarrow> (nat list \<times> nat) cres" where
  "take_overruns buf [] p = Inr ([], p)"
| "take_overruns buf (f # fs) p =
     (if f then cbind (byte_at buf p) (\<lambda>b. cbind (take_overruns buf fs (p + 1)) (\<lambda>(ns, q).
        Inr (high_half b # low_half b # ns, q)))
      else cbind (take_overruns buf fs p) (\<lambda>(ns, q). Inr (0 # 0 # ns, q)))"

fun take_counts :: "8 word list \<Rightarrow> nat \<Rightarrow> nat \<Rightarrow> (nat list \<times> nat) cres" where
  "take_counts buf 0 p = Inr ([], p)"
| "take_counts buf (Suc 0) p = cbind (byte_at buf p) (\<lambda>b. Inr ([high_half b], p))"
| "take_counts buf (Suc (Suc n)) p =
     cbind (byte_at buf p) (\<lambda>b. cbind (take_counts buf n (p + 1)) (\<lambda>(ns, q).
       Inr (high_half b # low_half b # ns, q)))"

text \<open>Two samples lie in three bytes: \<open>flip\<close> tells whether the next one is the second of a pair.\<close>

definition take_sample :: "8 word list \<Rightarrow> bool \<times> nat \<Rightarrow> (int \<times> bool \<times> nat) cres" where
  "take_sample buf s =
     (let (flip, k) = s in
      if \<not> flip
      then cbind (byte_at buf k) (\<lambda>a. cbind (byte_at buf (k + 1)) (\<lambda>b.
             Inr (uint a + uint (b AND 0xf0) * 16, True, k + 2)))
      else cbind (byte_at buf k) (\<lambda>a. cbind (byte_at buf (k - 1)) (\<lambda>b.
             Inr (uint a + uint (b AND 0x0f) * 256, False, k + 1))))"

text \<open>The compensation for resistors, with its limit.\<close>

definition compensate :: "int \<Rightarrow> int" where
  "compensate raw = min ((raw * 2002 + 999) div 2000) 0xfff"

text \<open>Round \<open>j\<close> takes one sample for each sensor that has more than \<open>j\<close>.\<close>

fun data_round :: "8 word list \<Rightarrow> nat \<Rightarrow> nat list \<Rightarrow> (int \<times> int) list list \<Rightarrow> bool \<times> nat
    \<Rightarrow> ((int \<times> int) list list \<times> bool \<times> nat) cres" where
  "data_round buf j (c # cs) (xs # xss) s =
     (if c > j
      then cbind (take_sample buf s) (\<lambda>(raw, s1).
           cbind (data_round buf j cs xss s1) (\<lambda>(yss, s2).
           Inr ((xs @ [sample (compensate raw)]) # yss, s2)))
      else cbind (data_round buf j cs xss s) (\<lambda>(yss, s2). Inr (xs # yss, s2)))"
| "data_round buf j _ xss s = Inr (xss, s)"

text \<open>The loop runs while samples are left, \<open>datacount\<close> of them.\<close>

definition datacount :: "nat list \<Rightarrow> nat \<Rightarrow> nat" where
  "datacount cs j = sum_list (map (\<lambda>c. c - j) cs)"

lemma datacount_Cons: "datacount (c # cs) j = (c - j) + datacount cs j"
  by (simp add: datacount_def)

lemma datacount_less: "0 < datacount cs j \<Longrightarrow> datacount cs (Suc j) < datacount cs j"
proof (induction cs)
  case (Cons c cs)
  have "datacount cs j = 0 \<Longrightarrow> datacount cs (Suc j) = 0" by (auto simp: datacount_def)
  with Cons show ?case unfolding datacount_Cons by linarith
qed (simp add: datacount_def)

function data_rounds :: "8 word list \<Rightarrow> nat list \<Rightarrow> nat \<Rightarrow> (int \<times> int) list list \<Rightarrow> bool \<times> nat
    \<Rightarrow> ((int \<times> int) list list \<times> bool \<times> nat) cres" where
  "data_rounds buf cs j xss s =
     (if datacount cs j = 0 then Inr (xss, s)
      else cbind (data_round buf j cs xss s) (\<lambda>(yss, s1). data_rounds buf cs (Suc j) yss s1))"
  by auto
termination
  by (relation "measure (\<lambda>(_, cs, j, _, _). datacount cs j)") (simp_all add: datacount_less)

declare data_rounds.simps [simp del]

text \<open>Overruns of a fresh device are not reported.\<close>

definition report_overruns :: "nat list \<Rightarrow> ifkit \<Rightarrow> ifkit" where
  "report_overruns ns k =
     fold (\<lambda>i k. if ns ! i \<noteq> 0 \<and> dataSinceAttach k \<ge> 10 then fire_error_noqueue (EEPHIDGET_OVERRUN i (ns ! i)) k else k)
       [0..<numSensors k] k"

definition fast_packet :: "8 word list \<Rightarrow> ifkit \<Rightarrow> (ik_packet \<times> ifkit) cres" where
  "fast_packet buf k =
     cbind (byte_at buf 0) (\<lambda>b0. cbind (byte_at buf 1) (\<lambda>b1. cbind (byte_at buf 2) (\<lambda>b2.
     cbind (take_overruns buf (map (bit b0) [0, 1, 2, 3]) 3) (\<lambda>(overrun, p).
     cbind (take_counts buf (numSensors k) p) (\<lambda>(counts, q).
     cbind (data_rounds buf counts 0 (samples no_packet) (False, q)) (\<lambda>(xss, _).
     let packetCount = int (unat b0 div 64);
         k1 = report_overruns overrun k;
         k2 = (if lastPacketCount k1 \<ge> 0 \<and> (lastPacketCount k1 + 1) mod 4 \<noteq> packetCount
               then fire_error_noqueue EEPHIDGET_PACKETLOST k1 else k1);
         k3 = (if bit b0 5 then fire_error EEPHIDGET_OVERCURRENT k2 else k2)
     in Inr (\<lparr> inputState = bits_low b1 [0..<numInputs k], outputState = bits_high b2 [0..<numOutputs k],
               samples = xss, ratioState = (if bit b0 4 then 1 else 0) \<rparr>,
             k3\<lparr> lastPacketCount := packetCount \<rparr>)))))))"

subsection \<open>The other boards\<close>

definition four_samples :: "8 word list \<Rightarrow> (int \<times> int) list list" where
  "four_samples b =
     [[sample (low12 (b ! 2) (b ! 3))], [sample (high12 (b ! 4) (b ! 3))],
      [sample (low12 (b ! 5) (b ! 6))], [sample (high12 (b ! 7) (b ! 6))]]"

text \<open>Two kinds of packets: for the first and the last four sensors and outputs.\<close>

definition old_packet :: "8 word list \<Rightarrow> ifkit \<Rightarrow> ik_packet" where
  "old_packet b k =
     (let outs = (if fullStateEcho k \<noteq> 0 then bits_high (b ! 0) [4..<8] else []);
          p = no_packet\<lparr> inputState := bits_low (b ! 1) [0..<numInputs k] \<rparr>
      in if \<not> bit (b ! 0) 0
         then p\<lparr> samples := four_samples b @ replicate 4 [], outputState := outs \<rparr>
         else p\<lparr> samples := replicate 4 [] @ four_samples b, outputState := replicate 4 PUNK_BOOL @ outs \<rparr>)"

definition packet_4_8_8 :: "8 word list \<Rightarrow> ik_packet" where
  "packet_4_8_8 b =
     no_packet\<lparr> samples := [[sample (low12 (b ! 3) (b ! 2))], [sample (high12 (b ! 1) (b ! 2))],
                           [sample (low12 (b ! 6) (b ! 5))], [sample (high12 (b ! 4) (b ! 5))]] @ replicate 4 [],
                inputState := bits_low (b ! 0) [7, 6, 5, 4, 0, 1, 2, 3] \<rparr>"

text \<open>Version 601 sends the upper outputs in reverse.\<close>

definition packet_0_16_16 :: "8 word list \<Rightarrow> ifkit \<Rightarrow> ik_packet" where
  "packet_0_16_16 b k =
     no_packet\<lparr> inputState := bits_high (b ! 0) [0..<8] @ bits_high (b ! 1) [0..<8],
       outputState :=
         (if fullStateEcho k = 0 then []
          else bits_high (b ! 2) [0..<8] @
            (if deviceVersion (dev k) = 601 then bits_high (b ! 3) (rev [0..<8]) else bits_high (b ! 3) [0..<8])) \<rparr>"

text \<open>Without a touch the sensor becomes unknown.\<close>

definition touch_packet :: "8 word \<Rightarrow> ifkit \<Rightarrow> ik_packet \<times> ifkit" where
  "touch_packet b k =
     (if bit b 7
      then let raw = uint (b AND 0x7f) in
        (no_packet\<lparr> inputState := [1, 1], samples := [(raw, raw * 63 div 8)] # replicate 7 [] \<rparr>, k)
      else (no_packet\<lparr> inputState := [0, if bit b 0 then 1 else 0] \<rparr>,
            k\<lparr> sensorRawValue := (sensorRawValue k)[0 := PUNK_INT], sensorValue := (sensorValue k)[0 := PUNK_INT] \<rparr>))"

text \<open>\<open>None\<close> is \<open>EPHIDGET_UNEXPECTED\<close>.\<close>

definition needs :: "nat \<Rightarrow> 8 word list \<Rightarrow> 'a \<Rightarrow> 'a cres" where
  "needs n buf x = (if n \<le> length buf then Inr x else Inl Out_Of_Bounds)"

definition read_packet :: "8 word list \<Rightarrow> ifkit \<Rightarrow> (ik_packet \<times> ifkit) option cres" where
  "read_packet b k =
     (let did = deviceIDSpec (dev k) in
      if did = PHIDID_INTERFACEKIT_4_8_8 then needs 7 b (Some (packet_4_8_8 b, k))
      else if did = PHIDID_INTERFACEKIT_0_16_16
      then needs (if fullStateEcho k = 0 then 2 else 4) b (Some (packet_0_16_16 b k, k))
      else if did \<in> {PHIDID_INTERFACEKIT_8_8_8, PHIDID_INTERFACEKIT_8_8_8_w_LCD, PHIDID_INTERFACEKIT_2_2_2} then
        (if old_888 (dev k) then needs 8 b (Some (old_packet b k, k))
         else if fast_888 (dev k) then cbind (fast_packet b k) (\<lambda>r. Inr (Some r))
         else Inr None)
      else if did = PHIDID_INTERFACEKIT_0_5_7
      then needs 1 b (Some (no_packet\<lparr> inputState := bits_high (b ! 0) [0..<5] \<rparr>, k))
      else if did = PHIDID_INTERFACEKIT_0_8_8_w_LCD
      then needs 1 b (Some (no_packet\<lparr> inputState := bits_high (b ! 0) [0..<8] \<rparr>, k))
      else if did \<in> {PHIDID_INTERFACEKIT_0_0_4, PHIDID_INTERFACEKIT_0_0_8}
      then (if fullStateEcho k = 0 then Inr (Some (no_packet, k))
            else needs 1 b (Some (no_packet\<lparr> outputState := bits_high (b ! 0) [0..<numOutputs k] \<rparr>, k)))
      else if did \<in> {PHIDID_ROTARY_TOUCH, PHIDID_LINEAR_TOUCH}
      then needs 1 b (Some (touch_packet (b ! 0) k))
      else Inr None)"

section \<open>Taking in a packet\<close>

text \<open>Once the new ratiometric state is seen, packets count again.\<close>

definition take_ratio :: "int \<Rightarrow> ifkit \<Rightarrow> ifkit" where
  "take_ratio echo k =
     (if echo \<noteq> PUNK_BOOL then
        let k1 = (if ratiometric k = PUNK_BOOL then k\<lparr> ratiometric := echo \<rparr> else k);
            k2 = (if ratiometricSwitching k1 > 0 \<and> echo = ratiometric k1
                  then k1\<lparr> ratiometricSwitching := ratiometricSwitching k1 - 1 \<rparr> else k1)
        in if ratiometricSwitching k2 = 0 then k2\<lparr> ratiometricEcho := echo \<rparr> else k2
      else k\<lparr> ratiometricSwitching := 0 \<rparr>)"

text \<open>Samples with a known value, limited to 0 to 1000, and their mean.\<close>

definition clamp :: "int \<times> int \<Rightarrow> int \<times> int" where
  "clamp s = (if snd s = PUNK_INT \<or> fst s = PUNK_INT then s else (fst s, min 1000 (max 0 (snd s))))"

definition round_mean :: "int list \<Rightarrow> int" where
  "round_mean xs = (2 * sum_list xs + int (length xs)) div (2 * int (length xs))"

definition store_sensor :: "(int \<times> int) list list \<Rightarrow> nat \<Rightarrow> ifkit \<Rightarrow> ifkit" where
  "store_sensor xss i k =
     (let good = filter (\<lambda>s. snd s \<noteq> PUNK_INT \<and> fst s \<noteq> PUNK_INT) (xss ! i) in
      if good = [] then k
      else k\<lparr> sensorRawValue := (sensorRawValue k)[i := round_mean (map fst good)],
              sensorValue := (sensorValue k)[i := round_mean (map snd good)] \<rparr>)"

definition store_input :: "int list \<Rightarrow> nat \<Rightarrow> ifkit \<Rightarrow> ifkit" where
  "store_input xs i k =
     (if state_at xs i \<noteq> PUNK_BOOL then k\<lparr> physicalState := (physicalState k)[i := state_at xs i] \<rparr> else k)"

definition store_output :: "int list \<Rightarrow> nat \<Rightarrow> ifkit \<Rightarrow> ifkit" where
  "store_output xs i k =
     (if state_at xs i = PUNK_BOOL then k
      else
        let k1 = k\<lparr> outputEchoStates := (outputEchoStates k)[i := state_at xs i] \<rparr> in
        if outputStates k1 ! i = PUNK_BOOL then k1\<lparr> outputStates := (outputStates k1)[i := state_at xs i] \<rparr> else k1)"

text \<open>A sensor event: when the value \<open>test\<close> is far enough from the last one reported.\<close>

definition sensor_event :: "nat \<Rightarrow> int \<Rightarrow> int \<Rightarrow> ifkit \<Rightarrow> ifkit" where
  "sensor_event i test v k =
     (if \<bar>sensorLastValue k ! i - test\<bar> \<ge> sensorChangeTrigger k ! i \<or> sensorLastValue k ! i = PUNK_INT
      then (fire fptrSensorChange (SensorChange i v) k)\<lparr> sensorLastValue := (sensorLastValue k)[i := v] \<rparr>
      else k)"

text \<open>
  In data rate mode the test is on the mean of the packet, not on the sample reported. With
  a rate slower than the packets, means of several packets are reported. The division by the
  interrupt rate is not guarded here, because no sensor is in this mode while that rate is 0:
  the boards that start in it have the rate 8, and \<open>CPhidgetInterfaceKit_setDataRate\<close> divides
  by the rate itself before it changes the mode (\<open>rate_mode_divides\<close> in \<open>IfkitOutputs\<close>).
\<close>

definition sensor_events :: "(int \<times> int) list list \<Rightarrow> nat \<Rightarrow> ifkit \<Rightarrow> ifkit" where
  "sensor_events xss i k =
     (if xss ! i = [] then k
      else case eventMode k ! i of
        EVENTMODE_CHANGETRIGGER \<Rightarrow>
          if sensorValue k ! i \<noteq> PUNK_INT then sensor_event i (sensorValue k ! i) (sensorValue k ! i) k else k
      | EVENTMODE_DATARATE \<Rightarrow>
          if dataRate k ! i \<le> interruptRate k
          then fold (\<lambda>s k. sensor_event i (sensorValue k ! i) (snd s) k) (xss ! i) k
          else
            let total = sensorRawValueAccumulator k ! i + sensorValue k ! i;
                n = sensorRawValueAccumulatorCount k ! i + 1;
                k1 = k\<lparr> sensorRawValueAccumulator := (sensorRawValueAccumulator k)[i := total],
                        sensorRawValueAccumulatorCount := (sensorRawValueAccumulatorCount k)[i := n] \<rparr>
            in if n \<noteq> dataRate k ! i div interruptRate k then k1
               else
                 let v = (2 * total + n) div (2 * n) in
                 (sensor_event i v v k1)
                   \<lparr> sensorRawValueAccumulator := (sensorRawValueAccumulator k1)[i := 0],
                     sensorRawValueAccumulatorCount := (sensorRawValueAccumulatorCount k1)[i := 0] \<rparr>
      | EVENTMODE_NONE \<Rightarrow> k)"

definition change_event :: "(ifkit \<Rightarrow> bool) \<Rightarrow> (nat \<Rightarrow> int \<Rightarrow> ik_event) \<Rightarrow> (ifkit \<Rightarrow> int list) \<Rightarrow> int list \<Rightarrow> nat \<Rightarrow> ifkit \<Rightarrow> ifkit" where
  "change_event handler ev now before i k =
     (if now k ! i \<noteq> PUNK_BOOL \<and> now k ! i \<noteq> before ! i then fire handler (ev i (now k ! i)) k else k)"

definition take_packet :: "int list \<Rightarrow> int list \<Rightarrow> ik_packet \<Rightarrow> ifkit \<Rightarrow> ifkit" where
  "take_packet lastInputs lastOutputs p k =
     (let k1 = take_ratio (ratioState p) k;
          xss = map (map clamp) (samples p);
          k2 = (if ratiometricSwitching k1 = 0 then fold (store_sensor xss) [0..<numSensors k1] k1 else k1);
          k3 = fold (store_input (inputState p)) [0..<numInputs k2] k2;
          k4 = fold (store_output (outputState p)) [0..<numOutputs k3] k3;
          k5 = (if ratiometricSwitching k4 = 0 then fold (sensor_events xss) [0..<numSensors k4] k4 else k4);
          k6 = fold (change_event fptrInputChange InputChange physicalState lastInputs) [0..<numInputs k5] k5
      in fold (change_event fptrOutputChange OutputChange outputEchoStates lastOutputs) [0..<numOutputs k6] k6)"

definition CPhidgetInterfaceKit_dataInput :: "8 word list \<Rightarrow> int \<Rightarrow> ifkit \<Rightarrow> (ecode \<times> ifkit) cres" where
  "CPhidgetInterfaceKit_dataInput buffer len k =
     (if len < 0 then Inr (EPHIDGET_INVALIDARG, k)
      else
        let k1 = (if ik_attached k \<and> dataSinceAttach k < 100 then k\<lparr> dataSinceAttach := dataSinceAttach k + 1 \<rparr> else k)
        in cbind (read_packet buffer k1) (\<lambda>r.
           case r of None \<Rightarrow> Inr (EPHIDGET_UNEXPECTED, k1)
           | Some (p, k2) \<Rightarrow> Inr (EPHIDGET_OK, take_packet (physicalState k1) (outputEchoStates k1) p k2)))"

text \<open>After the attachment everything known is reported, the errors kept so far first.\<close>

definition known_events :: "(ifkit \<Rightarrow> bool) \<Rightarrow> (nat \<Rightarrow> int \<Rightarrow> ik_event) \<Rightarrow> int \<Rightarrow> int list \<Rightarrow> nat \<Rightarrow> ifkit \<Rightarrow> ifkit" where
  "known_events handler ev unknown xs n k =
     fold (\<lambda>i k. if xs ! i \<noteq> unknown then fire handler (ev i (xs ! i)) k else k) [0..<n] k"

definition CPhidgetInterfaceKit_eventsAfterOpen :: "ifkit \<Rightarrow> ecode \<times> ifkit" where
  "CPhidgetInterfaceKit_eventsAfterOpen k =
     (let k0 = (if fptrError (dev k) \<noteq> None then k\<lparr> ik_log := ik_log k @ map Error_Fired (ik_queue k) \<rparr> else k);
          k1 = known_events fptrInputChange InputChange PUNK_BOOL (physicalState k) (numInputs k) (k0\<lparr> ik_queue := [] \<rparr>);
          k2 = known_events fptrOutputChange OutputChange PUNK_BOOL (outputEchoStates k) (numOutputs k) k1
      in (EPHIDGET_OK, known_events fptrSensorChange SensorChange PUNK_INT (sensorValue k) (numSensors k) k2))"

section \<open>Packets to the device\<close>

fun byte_of :: "bool list \<Rightarrow> 8 word" where
  "byte_of [] = 0"
| "byte_of (b # bs) = (if b then 1 else 0) + 2 * byte_of bs"

text \<open>Changes that wait go into the output states.\<close>

definition settle_output :: "nat \<Rightarrow> ifkit \<Rightarrow> ifkit" where
  "settle_output i k =
     (let k1 = (if changedOutputs k ! i \<noteq> 0
                then k\<lparr> outputStates := (outputStates k)[i := nextOutputStates k ! i],
                        changedOutputs := (changedOutputs k)[i := 0],
                        nextOutputStates := (nextOutputStates k)[i := PUNK_BOOL] \<rparr>
                else k);
          k2 = (if outputStates k1 ! i = PUNK_BOOL then k1\<lparr> outputStates := (outputStates k1)[i := 0] \<rparr> else k1)
      in if fullStateEcho k2 = 0
         then k2\<lparr> outputEchoStates := (outputEchoStates k2)[i := outputStates k2 ! i] \<rparr> else k2)"

definition output_bits :: "ifkit \<Rightarrow> nat list \<Rightarrow> 8 word" where
  "output_bits k is = byte_of (map (\<lambda>i. outputStates k ! i \<noteq> 0) is)"

text \<open>A buffer of \<open>n\<close> bytes with some of them set.\<close>

definition buffer_with :: "nat \<Rightarrow> (nat \<times> 8 word) list \<Rightarrow> 8 word list cres" where
  "buffer_with n ws =
     (if \<forall>w \<in> set ws. fst w < n then Inr (fold (\<lambda>(i, b) buf. buf[i := b]) ws (replicate n 0)) else Inl Out_Of_Bounds)"

text \<open>The data rates in milliseconds, less one so that 8 fits in three bits, two to a byte.\<close>

definition rate_code :: "ifkit \<Rightarrow> nat \<Rightarrow> 8 word" where
  "rate_code k i =
     (let r = (if dataRate k ! i > interruptRate k then interruptRate k else dataRate k ! i) - 1
      in word_of_int (if odd i then r * 16 else r))"

definition rate_bytes :: "ifkit \<Rightarrow> (nat \<times> 8 word) list" where
  "rate_bytes k =
     map (\<lambda>j. (j + 1, if 2 * j + 1 < numSensors k then rate_code k (2 * j) OR rate_code k (2 * j + 1) else rate_code k (2 * j)))
       [0..<(numSensors k + 1) div 2]"

definition make_packet :: "nat \<Rightarrow> ifkit \<Rightarrow> (8 word list option \<times> ifkit) cres" where
  "make_packet n k =
     (let did = deviceIDSpec (dev k); buf = (\<lambda>k ws. cbind (buffer_with n ws) (\<lambda>b. Inr (Some b, k))) in
      if did = PHIDID_INTERFACEKIT_4_8_8 then
        (if lastChangedOutput k < 0 \<or> lastChangedOutput k > 7 then Inl Out_Of_Bounds
         else buf k [(0, [0x00, 0x01, 0x02, 0x03, 0x07, 0x06, 0x05, 0x04] ! nat (lastChangedOutput k)
                         OR (if outputStates k ! nat (lastChangedOutput k) \<noteq> 0 then 0x08 else 0))])
      else if did = PHIDID_INTERFACEKIT_0_16_16
      then buf k [(0, output_bits k [0..<8]), (1, output_bits k [8..<16])]
      else if did \<in> {PHIDID_INTERFACEKIT_8_8_8, PHIDID_INTERFACEKIT_8_8_8_w_LCD, PHIDID_INTERFACEKIT_2_2_2} then
        let k1 = (if ratiometric k = PUNK_BOOL then k\<lparr> ratiometric := 1 \<rparr> else k) in
        if old_888 (dev k1) then buf k1 [(0, output_bits k1 [0..<8]), (3, word_of_int (ratiometric k1))]
        else if fast_888 (dev k1)
        then buf k1 ((0, output_bits k1 [0..<numOutputs k1]) # rate_bytes k1
                     @ [(numSensors k1 div 2 + 1, word_of_int (ratiometric k1))])
        else buf k1 []
      else if did \<in> {PHIDID_INTERFACEKIT_0_0_4, PHIDID_INTERFACEKIT_0_0_8}
      then buf k [(0, output_bits k [0..<numOutputs k])]
      else if did \<in> {PHIDID_INTERFACEKIT_0_5_7, PHIDID_INTERFACEKIT_0_8_8_w_LCD}
      then buf k [(0, output_bits k [0..<8]), (7, 0x10)]
      else if did \<in> {PHIDID_ROTARY_TOUCH, PHIDID_LINEAR_TOUCH} then buf k []
      else Inr (None, k))"

text \<open>\<open>n\<close> is the room for the packet.\<close>

definition CPhidgetInterfaceKit_getPacket :: "nat \<Rightarrow> ifkit \<Rightarrow> (ecode \<times> 8 word list \<times> ifkit) cres" where
  "CPhidgetInterfaceKit_getPacket n k =
     (if n < outputReportByteLength (dev k) then Inr (EPHIDGET_INVALIDARG, [], k)
      else cbind (make_packet n (fold settle_output [0..<numOutputs k] k)) (\<lambda>(r, k1).
        case r of None \<Rightarrow> Inr (EPHIDGET_UNEXPECTED, replicate n 0, k1) | Some b \<Rightarrow> Inr (EPHIDGET_OK, b, k1)))"

text \<open>
  Queueing the change of an output: it waits for a change of the same output to another
  value that is still under way. The list has the results of the coming waits, each with
  what the other threads did to the structure meanwhile; a wait behind its end times out.
\<close>

fun queue_output :: "(wait_result \<times> (ifkit \<Rightarrow> ifkit)) list \<Rightarrow> nat \<Rightarrow> int \<Rightarrow> ifkit \<Rightarrow> ecode \<times> ifkit" where
  "queue_output ws i v k =
     (if \<not> ik_attached k then (EPHIDGET_NOTATTACHED, k)
      else if changedOutputs k ! i \<noteq> 0 then
        (if nextOutputStates k ! i = v then (EPHIDGET_OK, k)
         else case ws of
           [] \<Rightarrow> (EPHIDGET_TIMEOUT, k)
         | (r, f) # ws' \<Rightarrow>
             if r = WAIT_ABANDONED then (EPHIDGET_UNEXPECTED, f k)
             else if r = WAIT_TIMEOUT then (EPHIDGET_TIMEOUT, f k)
             else queue_output ws' i v (f k))
      else if outputStates k ! i = v then (EPHIDGET_OK, k)
      else
        let k1 = k\<lparr> changedOutputs := (changedOutputs k)[i := 1], nextOutputStates := (nextOutputStates k)[i := v] \<rparr>
        in (EPHIDGET_OK,
            if fullStateEcho k1 = 0 \<and> outputEchoStates k1 ! i \<noteq> v mod 256
            then fire fptrOutputChange (OutputChange i v) (k1\<lparr> outputEchoStates := (outputEchoStates k1)[i := v mod 256] \<rparr>)
            else k1))"

declare queue_output.simps [simp del]

definition CPhidgetInterfaceKit_sendpacket :: "(wait_result \<times> (ifkit \<Rightarrow> ifkit)) list \<Rightarrow> nat \<Rightarrow> int \<Rightarrow> ifkit \<Rightarrow> ecode \<times> ifkit" where
  "CPhidgetInterfaceKit_sendpacket ws i v k = queue_output ws i v (k\<lparr> lastChangedOutput := int i \<rparr>)"

section \<open>Initialisation\<close>

definition slow_rates :: "ifkit \<Rightarrow> ifkit" where
  "slow_rates k = k\<lparr> interruptRate := 16, dataRateMin := IFKIT_MIN_DATA_RATE div 16 * 16, dataRateMax := 16 \<rparr>"

definition fast_rates :: "int \<Rightarrow> ifkit \<Rightarrow> ifkit" where
  "fast_rates m k =
     k\<lparr> fullStateEcho := 1, interruptRate := 8, dataRateMin := IFKIT_MIN_DATA_RATE div 8 * 8, dataRateMax := 1,
        maxDataPerPacket := m \<rparr>"

text \<open>What the version of the board can do.\<close>

definition init_version :: "ifkit \<Rightarrow> ifkit" where
  "init_version k =
     (let v = deviceVersion (dev k); did = deviceIDSpec (dev k);
          board = (\<lambda>old echo fast.
             let k1 = (if v < old then slow_rates k else k);
                 k2 = (if v \<ge> echo \<and> v < old then k1\<lparr> awdc_enabled := True, fullStateEcho := 1 \<rparr> else k1)
             in if v \<ge> old \<and> v < fast then fast_rates 36 (k2\<lparr> awdc_enabled := True \<rparr>) else k2)
      in if did = PHIDID_INTERFACEKIT_8_8_8 then board 900 821 1000
         else if did = PHIDID_INTERFACEKIT_8_8_8_w_LCD then board 200 120 300
         else if did = PHIDID_INTERFACEKIT_2_2_2 then (if v < 200 then fast_rates 16 k else k)
         else if did = PHIDID_INTERFACEKIT_0_0_4 then (if v \<ge> 704 \<and> v < 800 then k\<lparr> fullStateEcho := 1 \<rparr> else k)
         else if did = PHIDID_INTERFACEKIT_0_0_8 then k\<lparr> fullStateEcho := 1 \<rparr>
         else if did = PHIDID_INTERFACEKIT_0_16_16 then (if v \<ge> 601 \<and> v < 700 then k\<lparr> fullStateEcho := 1 \<rparr> else k)
         else k)"

definition rate_board :: "phidget \<Rightarrow> bool" where
  "rate_board p \<longleftrightarrow>
     deviceIDSpec p = PHIDID_INTERFACEKIT_8_8_8 \<and> deviceVersion p \<ge> 900 \<and> deviceVersion p < 1000
     \<or> deviceIDSpec p = PHIDID_INTERFACEKIT_8_8_8_w_LCD \<and> deviceVersion p \<ge> 200 \<and> deviceVersion p < 300
     \<or> deviceIDSpec p = PHIDID_INTERFACEKIT_2_2_2 \<and> deviceVersion p < 200"

definition init_vars :: "ifkit \<Rightarrow> ifkit" where
  "init_vars k =
     (let n = numSensors k; n_out = numOutputs k;
          trigger = (if deviceIDSpec (dev k) \<in> {PHIDID_ROTARY_TOUCH, PHIDID_LINEAR_TOUCH} then 1 else 10)
      in k\<lparr> ratiometric := PUNK_BOOL, ratiometricEcho := PUNK_BOOL,
            physicalState := set_first (numInputs k) PUNK_BOOL (physicalState k),
            sensorChangeTrigger := set_first n trigger (sensorChangeTrigger k),
            eventMode := set_first n (if rate_board (dev k) then EVENTMODE_DATARATE else EVENTMODE_CHANGETRIGGER) (eventMode k),
            dataRate := set_first n (interruptRate k) (dataRate k),
            sensorRawValue := set_first n PUNK_INT (sensorRawValue k),
            sensorValue := set_first n PUNK_INT (sensorValue k),
            sensorLastValue := set_first n PUNK_INT (sensorLastValue k),
            sensorRawValueAccumulator := set_first n 0 (sensorRawValueAccumulator k),
            sensorRawValueAccumulatorCount := set_first n 0 (sensorRawValueAccumulatorCount k),
            nextOutputStates := set_first n_out PUNK_BOOL (nextOutputStates k),
            outputEchoStates := set_first n_out PUNK_BOOL (outputEchoStates k),
            changedOutputs := set_first n_out 0 (changedOutputs k),
            lastChangedOutput := 0 \<rparr>)"

type_synonym ik_state = "ifkit \<times> 8 word list \<times> usb"

definition ik_read :: "ik_state \<Rightarrow> (ecode \<times> ik_state) cres" where
  "ik_read s = CPhidget_read dev dev_update (Some CPhidgetInterfaceKit_dataInput) (fst s) (fst (snd s)) (snd (snd s))"

definition ik_send :: "8 word list \<Rightarrow> ik_state \<Rightarrow> (ecode \<times> ik_state) cres" where
  "ik_send b s =
     (let (k, buf, u) = s in cbind (CUSBSendPacket (Some (dev k)) b u) (\<lambda>(r, u'). Inr (r, k, buf, u')))"

text \<open>Packets some boards want before the first read; a failure ends the initialisation.\<close>

definition init_sends :: "phidget \<Rightarrow> 8 word list list" where
  "init_sends p =
     (if deviceIDSpec p = PHIDID_ROTARY_TOUCH then [1 # replicate 7 0]
      else if deviceIDSpec p = PHIDID_LINEAR_TOUCH then [1 # replicate 7 0, 2 # replicate 7 0]
      else if deviceIDSpec p = PHIDID_INTERFACEKIT_4_8_8 \<and> deviceVersion p \<le> 100 then [replicate 8 0]
      else [])"

fun ik_send_all :: "8 word list list \<Rightarrow> ik_state \<Rightarrow> (ecode \<times> ik_state) cres" where
  "ik_send_all [] s = Inr (EPHIDGET_OK, s)"
| "ik_send_all (b # bs) s =
     cbind (ik_send b s) (\<lambda>(r, s'). if r \<noteq> EPHIDGET_OK then Inr (r, s') else ik_send_all bs s')"

text \<open>Reading until every sensor is known, four times at most.\<close>

fun read_tries :: "nat \<Rightarrow> ik_state \<Rightarrow> ik_state cres" where
  "read_tries 0 s = Inr s"
| "read_tries (Suc n) s =
     cbind (ik_read s) (\<lambda>(_, s').
       if \<exists>i \<in> set [0..<numSensors (fst s')]. sensorValue (fst s') ! i = PUNK_INT then read_tries n s' else Inr s')"

definition init_reads :: "ik_state \<Rightarrow> ik_state cres" where
  "init_reads s =
     (let did = deviceIDSpec (dev (fst s)) in
      if did \<in> {PHIDID_INTERFACEKIT_0_16_16, PHIDID_INTERFACEKIT_0_0_8, PHIDID_INTERFACEKIT_0_0_4}
      then (if fullStateEcho (fst s) \<noteq> 0 then cbind (ik_read s) (\<lambda>(_, s'). Inr s') else Inr s)
      else if did \<in> {PHIDID_INTERFACEKIT_8_8_8, PHIDID_INTERFACEKIT_8_8_8_w_LCD, PHIDID_INTERFACEKIT_2_2_2, PHIDID_INTERFACEKIT_4_8_8}
      then read_tries 4 s
      else if did \<in> {PHIDID_LINEAR_TOUCH, PHIDID_ROTARY_TOUCH}
      then cbind (ik_read s) (\<lambda>(_, s1). cbind (ik_read s1) (\<lambda>(_, s2). Inr s2))
      else Inr s)"

text \<open>The old 8/8/8 boards do not tell their ratiometric state, so it is switched on.\<close>

definition CPhidgetInterfaceKit_initAfterOpen :: "ik_state \<Rightarrow> (ecode \<times> ik_state) cres" where
  "CPhidgetInterfaceKit_initAfterOpen s =
     (let (k, buf, u) = s;
          k1 = init_vars (init_version (k\<lparr> awdc_enabled := False, fullStateEcho := 0,
                 maxDataPerPacket := int (numSensors k), ratiometricSwitching := 0, lastPacketCount := -1,
                 dataSinceAttach := 0 \<rparr>))
      in cbind (ik_send_all (init_sends (dev k1)) (k1, buf, u)) (\<lambda>(r, s1).
         if r \<noteq> EPHIDGET_OK then Inr (r, s1)
         else cbind (init_reads s1) (\<lambda>(k2, buf2, u2).
         let k3 = k2\<lparr> outputStates := take (numOutputs k2) (outputEchoStates k2) @ drop (numOutputs k2) (outputStates k2) \<rparr>
         in if \<not> old_888 (dev k3) then Inr (EPHIDGET_OK, k3, buf2, u2)
            else cbind (CPhidgetInterfaceKit_getPacket 8 (k3\<lparr> ratiometric := 1 \<rparr>)) (\<lambda>(r3, b, k4).
              if r3 \<noteq> EPHIDGET_OK then Inr (r3, k4, buf2, u2) else ik_send b (k4, buf2, u2)))))"

section \<open>The exported functions\<close>

text \<open>Requests to a server: key and value of the settings sent through \<open>pdc_async_set\<close>.\<close>

type_synonym requests = "(string \<times> string) list"

definition ik_key :: "string \<Rightarrow> ifkit \<Rightarrow> string" where
  "ik_key name k =
     take 1023 (''/PCK/'' @ deviceType (dev k) @ ''/'' @ dec_int (serialNumber (dev k)) @ ''/'' @ name)"

text \<open>The network macros: the structure is changed even when there is no connection.\<close>

definition add_network_key :: "string \<Rightarrow> int \<Rightarrow> (ifkit \<Rightarrow> ifkit) \<Rightarrow> ifkit \<times> requests \<Rightarrow> ecode \<times> ifkit \<times> requests" where
  "add_network_key name v f s =
     (let k = f (fst s) in
      if \<not> flag_of (dev k) PHIDGET_SERVER_CONNECTED_FLAG then (EPHIDGET_NETWORK_NOTCONNECTED, k, snd s)
      else (EPHIDGET_OK, k, snd s @ [(ik_key name k, dec_int v)]))"

definition indexed :: "string \<Rightarrow> nat \<Rightarrow> string" where
  "indexed name i = name @ ''/'' @ dec_nat i"

text \<open>The checks all of them start with; \<open>None\<close> is NULL for the handle, \<open>out\<close> whether there is a result pointer.\<close>

definition ik_checks :: "ifkit \<Rightarrow> ecode" where
  "ik_checks k =
     (if deviceID (dev k) \<noteq> PHIDCLASS_INTERFACEKIT then EPHIDGET_WRONGDEVICE
      else if \<not> ik_attached k then EPHIDGET_NOTATTACHED else EPHIDGET_OK)"

definition ik_get :: "ifkit option \<Rightarrow> bool \<Rightarrow> (ifkit \<Rightarrow> ecode \<times> int option) \<Rightarrow> ecode \<times> int option" where
  "ik_get phid out f =
     (case phid of None \<Rightarrow> (EPHIDGET_INVALIDARG, None)
      | Some k \<Rightarrow>
          if \<not> out then (EPHIDGET_INVALIDARG, None)
          else if ik_checks k \<noteq> EPHIDGET_OK then (ik_checks k, None)
          else f k)"

definition known :: "int \<Rightarrow> int \<Rightarrow> ecode \<times> int option" where
  "known unknown v = (if v = unknown then EPHIDGET_UNKNOWNVAL else EPHIDGET_OK, Some v)"

definition known_at_index :: "int \<Rightarrow> nat \<Rightarrow> int list \<Rightarrow> int \<Rightarrow> ecode \<times> int option" where
  "known_at_index unknown n xs i =
     (if i \<ge> int n \<or> i < 0 then (EPHIDGET_OUTOFBOUNDS, None) else known unknown (xs ! nat i))"

definition CPhidgetInterfaceKit_getInputCount :: "ifkit option \<Rightarrow> bool \<Rightarrow> ecode \<times> int option" where
  "CPhidgetInterfaceKit_getInputCount phid out = ik_get phid out (\<lambda>k. (EPHIDGET_OK, Some (int (numInputs k))))"

definition CPhidgetInterfaceKit_getOutputCount :: "ifkit option \<Rightarrow> bool \<Rightarrow> ecode \<times> int option" where
  "CPhidgetInterfaceKit_getOutputCount phid out = ik_get phid out (\<lambda>k. (EPHIDGET_OK, Some (int (numOutputs k))))"

definition CPhidgetInterfaceKit_getSensorCount :: "ifkit option \<Rightarrow> bool \<Rightarrow> ecode \<times> int option" where
  "CPhidgetInterfaceKit_getSensorCount phid out = ik_get phid out (\<lambda>k. (EPHIDGET_OK, Some (int (numSensors k))))"

definition CPhidgetInterfaceKit_getInputState :: "ifkit option \<Rightarrow> int \<Rightarrow> bool \<Rightarrow> ecode \<times> int option" where
  "CPhidgetInterfaceKit_getInputState phid i out =
     ik_get phid out (\<lambda>k. known_at_index PUNK_BOOL (numInputs k) (physicalState k) i)"

definition CPhidgetInterfaceKit_getOutputState :: "ifkit option \<Rightarrow> int \<Rightarrow> bool \<Rightarrow> ecode \<times> int option" where
  "CPhidgetInterfaceKit_getOutputState phid i out =
     ik_get phid out (\<lambda>k. known_at_index PUNK_BOOL (numOutputs k) (outputEchoStates k) i)"

definition CPhidgetInterfaceKit_getSensorValue :: "ifkit option \<Rightarrow> int \<Rightarrow> bool \<Rightarrow> ecode \<times> int option" where
  "CPhidgetInterfaceKit_getSensorValue phid i out =
     ik_get phid out (\<lambda>k. known_at_index PUNK_INT (numSensors k) (sensorValue k) i)"

definition CPhidgetInterfaceKit_getSensorRawValue :: "ifkit option \<Rightarrow> int \<Rightarrow> bool \<Rightarrow> ecode \<times> int option" where
  "CPhidgetInterfaceKit_getSensorRawValue phid i out =
     ik_get phid out (\<lambda>k. known_at_index PUNK_INT (numSensors k) (sensorRawValue k) i)"

definition CPhidgetInterfaceKit_getSensorChangeTrigger :: "ifkit option \<Rightarrow> int \<Rightarrow> bool \<Rightarrow> ecode \<times> int option" where
  "CPhidgetInterfaceKit_getSensorChangeTrigger phid i out =
     ik_get phid out (\<lambda>k. known_at_index PUNK_INT (numSensors k) (sensorChangeTrigger k) i)"

text \<open>The settings only some boards have: \<open>EPHIDGET_OK\<close> for those, the code of the refusal for the others.\<close>

definition rate_support :: "phidget \<Rightarrow> ecode" where
  "rate_support p =
     (if deviceIDSpec p \<in> {PHIDID_INTERFACEKIT_8_8_8, PHIDID_INTERFACEKIT_8_8_8_w_LCD, PHIDID_INTERFACEKIT_2_2_2}
      then EPHIDGET_OK
      else if deviceIDSpec p \<in> {PHIDID_INTERFACEKIT_0_5_7, PHIDID_INTERFACEKIT_0_8_8_w_LCD, PHIDID_INTERFACEKIT_4_8_8,
        PHIDID_INTERFACEKIT_0_0_4, PHIDID_INTERFACEKIT_0_0_8, PHIDID_INTERFACEKIT_0_16_16, PHIDID_ROTARY_TOUCH, PHIDID_LINEAR_TOUCH}
      then EPHIDGET_UNSUPPORTED else EPHIDGET_UNEXPECTED)"

definition when_rates :: "ifkit \<Rightarrow> ecode \<times> int option \<Rightarrow> ecode \<times> int option" where
  "when_rates k r = (if rate_support (dev k) = EPHIDGET_OK then r else (rate_support (dev k), None))"

definition CPhidgetInterfaceKit_getRatiometric :: "ifkit option \<Rightarrow> bool \<Rightarrow> ecode \<times> int option" where
  "CPhidgetInterfaceKit_getRatiometric phid out =
     ik_get phid out (\<lambda>k. when_rates k
       (if old_888 (dev k) then known PUNK_BOOL (ratiometric k)
        else if fast_888 (dev k) then known PUNK_BOOL (ratiometricEcho k)
        else (EPHIDGET_UNEXPECTED, None)))"

definition CPhidgetInterfaceKit_getDataRate :: "ifkit option \<Rightarrow> int \<Rightarrow> bool \<Rightarrow> ecode \<times> int option" where
  "CPhidgetInterfaceKit_getDataRate phid i out =
     ik_get phid out (\<lambda>k. when_rates k (known_at_index PUNK_INT (numSensors k) (dataRate k) i))"

definition CPhidgetInterfaceKit_getDataRateMax :: "ifkit option \<Rightarrow> int \<Rightarrow> bool \<Rightarrow> ecode \<times> int option" where
  "CPhidgetInterfaceKit_getDataRateMax phid i out =
     ik_get phid out (\<lambda>k. when_rates k (known_at_index PUNK_INT (numSensors k) (replicate (numSensors k) (dataRateMax k)) i))"

definition CPhidgetInterfaceKit_getDataRateMin :: "ifkit option \<Rightarrow> int \<Rightarrow> bool \<Rightarrow> ecode \<times> int option" where
  "CPhidgetInterfaceKit_getDataRateMin phid i out =
     ik_get phid out (\<lambda>k. when_rates k (known_at_index PUNK_INT (numSensors k) (replicate (numSensors k) (dataRateMin k)) i))"

type_synonym ik_result = "ecode \<times> ifkit option \<times> requests"

definition ik_set :: "ifkit option \<Rightarrow> requests \<Rightarrow> (ifkit \<Rightarrow> ecode \<times> ifkit \<times> requests) \<Rightarrow> ik_result" where
  "ik_set phid rs f =
     (case phid of None \<Rightarrow> (EPHIDGET_INVALIDARG, None, rs)
      | Some k \<Rightarrow>
          if ik_checks k \<noteq> EPHIDGET_OK then (ik_checks k, Some k, rs)
          else let (r, k', rs') = f k in (r, Some k', rs'))"

definition remote_kit :: "ifkit \<Rightarrow> bool" where
  "remote_kit k \<longleftrightarrow> flag_of (dev k) PHIDGET_REMOTE_FLAG"

definition CPhidgetInterfaceKit_setOutputState :: "(wait_result \<times> (ifkit \<Rightarrow> ifkit)) list \<Rightarrow> ifkit option \<Rightarrow> int \<Rightarrow> int
    \<Rightarrow> requests \<Rightarrow> ik_result" where
  "CPhidgetInterfaceKit_setOutputState ws phid i v rs =
     ik_set phid rs (\<lambda>k.
       if v < 0 \<or> v > 1 then (EPHIDGET_INVALIDARG, k, rs)
       else if i \<ge> int (numOutputs k) \<or> i < 0 then (EPHIDGET_OUTOFBOUNDS, k, rs)
       else if remote_kit k
       then add_network_key (indexed ''Output'' (nat i)) v
              (\<lambda>k. k\<lparr> nextOutputStates := (nextOutputStates k)[nat i := v] \<rparr>) (k, rs)
       else let (r, k') = CPhidgetInterfaceKit_sendpacket ws (nat i) v k in (r, k', rs))"

text \<open>A trigger of 0 is for data rate mode, so it does not leave that mode.\<close>

definition CPhidgetInterfaceKit_setSensorChangeTrigger :: "ifkit option \<Rightarrow> int \<Rightarrow> int \<Rightarrow> requests \<Rightarrow> ik_result" where
  "CPhidgetInterfaceKit_setSensorChangeTrigger phid i v rs =
     ik_set phid rs (\<lambda>k.
       if i \<ge> int (numSensors k) \<or> i < 0 then (EPHIDGET_OUTOFBOUNDS, k, rs)
       else if v < 0 \<or> v > 1000 then (EPHIDGET_INVALIDARG, k, rs)
       else
         let set_trigger = (\<lambda>k. k\<lparr> sensorChangeTrigger := (sensorChangeTrigger k)[nat i := v] \<rparr>) in
         if remote_kit k then add_network_key (indexed ''Trigger'' (nat i)) v set_trigger (k, rs)
         else (EPHIDGET_OK,
               set_trigger (if v \<noteq> 0 then k\<lparr> eventMode := (eventMode k)[nat i := EVENTMODE_CHANGETRIGGER] \<rparr> else k), rs))"

definition CPhidgetInterfaceKit_setRatiometric :: "ifkit option \<Rightarrow> int \<Rightarrow> requests \<Rightarrow> ik_result" where
  "CPhidgetInterfaceKit_setRatiometric phid v rs =
     ik_set phid rs (\<lambda>k.
       if rate_support (dev k) \<noteq> EPHIDGET_OK then (rate_support (dev k), k, rs)
       else if v < 0 \<or> v > 1 then (EPHIDGET_INVALIDARG, k, rs)
       else if remote_kit k then add_network_key ''Ratiometric'' v (\<lambda>k. k\<lparr> ratiometric := v \<rparr>) (k, rs)
       else (EPHIDGET_OK, k\<lparr> ratiometric := v, ratiometricSwitching := 2 \<rparr>, rs))"

text \<open>
  Whether doubling \<open>t\<close> reaches \<open>v\<close>. From 0 this would never end; the range check in front of
  it keeps \<open>v\<close> at or above \<open>t\<close>.
\<close>

partial_function (option) doubles_to :: "int \<Rightarrow> int \<Rightarrow> bool option" where
  "doubles_to t v = (if t > v then Some False else if t = v then Some True else doubles_to (2 * t) v)"

text \<open>
  Below the interrupt rate a rate has to be \<open>dataRateMax\<close> times a power of two, from there on
  a multiple of the interrupt rate, which is a division by zero when that rate is 0.
\<close>

definition rate_good :: "ifkit \<Rightarrow> int \<Rightarrow> bool run" where
  "rate_good k v =
     (if v < interruptRate k then map_option Inr (doubles_to (dataRateMax k) v)
      else Some (if interruptRate k = 0 then Inl Divide_By_Zero else Inr (v mod interruptRate k = 0)))"

text \<open>The samples all sensors together give in one packet; a rate of 0 would divide by zero.\<close>

definition data_per_packet :: "ifkit \<Rightarrow> nat \<Rightarrow> int \<Rightarrow> int cres" where
  "data_per_packet k i v =
     (let rates = (take (numSensors k) (dataRate k))[i := v] in
      if 0 \<in> set rates then Inl Divide_By_Zero
      else Inr (sum_list (map (\<lambda>r. interruptRate k div r) rates)))"

definition CPhidgetInterfaceKit_setDataRate :: "ifkit option \<Rightarrow> int \<Rightarrow> int \<Rightarrow> requests \<Rightarrow> ik_result run" where
  "CPhidgetInterfaceKit_setDataRate phid i v rs =
     (case phid of None \<Rightarrow> Some (Inr (EPHIDGET_INVALIDARG, None, rs))
      | Some k \<Rightarrow>
        let refuse = (\<lambda>r. Some (Inr (r, Some k, rs))) in
        if ik_checks k \<noteq> EPHIDGET_OK then refuse (ik_checks k)
        else if rate_support (dev k) \<noteq> EPHIDGET_OK then refuse (rate_support (dev k))
        else if i \<ge> int (numSensors k) \<or> i < 0 then refuse EPHIDGET_OUTOFBOUNDS
        else if v < dataRateMax k \<or> v > dataRateMin k then refuse EPHIDGET_INVALIDARG
        else obind (rate_good k v) (\<lambda>good.
          if \<not> good then refuse EPHIDGET_INVALIDARG
          else obind (Some (data_per_packet k (nat i) v)) (\<lambda>n.
            if n > maxDataPerPacket k then refuse EPHIDGET_INVALIDARG
            else
              let set_rate = (\<lambda>k. k\<lparr> dataRate := (dataRate k)[nat i := v] \<rparr>) in
              if remote_kit k
              then let (r, k', rs') = add_network_key (indexed ''DataRate'' (nat i)) v set_rate (k, rs)
                   in Some (Inr (r, Some k', rs'))
              else Some (Inr (EPHIDGET_OK,
                Some ((set_rate k)\<lparr> eventMode := (eventMode k)[nat i := EVENTMODE_DATARATE],
                   sensorRawValueAccumulator := (sensorRawValueAccumulator k)[nat i := 0],
                   sensorRawValueAccumulatorCount := (sensorRawValueAccumulatorCount k)[nat i := 0] \<rparr>), rs)))))"

text \<open>A new handle is all zero but its class; the handlers are kept as whether there is one.\<close>

definition zero_kit :: ifkit where
  "zero_kit =
     \<lparr> dev = zero_phidget\<lparr> deviceID := PHIDCLASS_INTERFACEKIT \<rparr>,
       awdc_enabled = False, fptrInputChange = False, fptrOutputChange = False, fptrSensorChange = False,
       ratiometric = 0, ratiometricEcho = 0, ratiometricSwitching = 0,
       outputStates = replicate IFKIT_MAXOUTPUTS 0, nextOutputStates = replicate IFKIT_MAXOUTPUTS 0,
       changedOutputs = replicate IFKIT_MAXOUTPUTS 0, lastChangedOutput = 0,
       outputEchoStates = replicate IFKIT_MAXOUTPUTS 0, physicalState = replicate IFKIT_MAXINPUTS 0,
       sensorChangeTrigger = replicate IFKIT_MAXSENSORS 0, sensorRawValue = replicate IFKIT_MAXSENSORS 0,
       sensorValue = replicate IFKIT_MAXSENSORS 0, sensorLastValue = replicate IFKIT_MAXSENSORS 0,
       sensorRawValueAccumulator = replicate IFKIT_MAXSENSORS 0,
       sensorRawValueAccumulatorCount = replicate IFKIT_MAXSENSORS 0, dataRate = replicate IFKIT_MAXSENSORS 0,
       interruptRate = 0, dataRateMax = 0, dataRateMin = 0, lastPacketCount = 0, maxDataPerPacket = 0,
       dataSinceAttach = 0, eventMode = replicate IFKIT_MAXSENSORS EVENTMODE_NONE, fullStateEcho = 0,
       ik_queue = [], ik_log = [] \<rparr>"

definition CPhidgetInterfaceKit_create :: "bool \<Rightarrow> memory \<Rightarrow> ecode \<times> ifkit option \<times> memory" where
  "CPhidgetInterfaceKit_create phidp mem =
     (if \<not> phidp then (EPHIDGET_INVALIDARG, None, mem)
      else let (got, mem') = alloc mem in
        if \<not> got then (EPHIDGET_NOMEMORY, None, mem') else (EPHIDGET_OK, Some zero_kit, mem'))"

definition CPhidgetInterfaceKit_set_OnInputChange_Handler :: "ifkit option \<Rightarrow> bool \<Rightarrow> ecode \<times> ifkit option" where
  "CPhidgetInterfaceKit_set_OnInputChange_Handler phid fptr =
     (case phid of None \<Rightarrow> (EPHIDGET_INVALIDARG, None) | Some k \<Rightarrow> (EPHIDGET_OK, Some (k\<lparr> fptrInputChange := fptr \<rparr>)))"

definition CPhidgetInterfaceKit_set_OnOutputChange_Handler :: "ifkit option \<Rightarrow> bool \<Rightarrow> ecode \<times> ifkit option" where
  "CPhidgetInterfaceKit_set_OnOutputChange_Handler phid fptr =
     (case phid of None \<Rightarrow> (EPHIDGET_INVALIDARG, None) | Some k \<Rightarrow> (EPHIDGET_OK, Some (k\<lparr> fptrOutputChange := fptr \<rparr>)))"

definition CPhidgetInterfaceKit_set_OnSensorChange_Handler :: "ifkit option \<Rightarrow> bool \<Rightarrow> ecode \<times> ifkit option" where
  "CPhidgetInterfaceKit_set_OnSensorChange_Handler phid fptr =
     (case phid of None \<Rightarrow> (EPHIDGET_INVALIDARG, None) | Some k \<Rightarrow> (EPHIDGET_OK, Some (k\<lparr> fptrSensorChange := fptr \<rparr>)))"

end
