(* ===== verification/IfkitProps.thy ===== *)
theory IfkitProps
  imports InterfaceKit
begin

text \<open>
  Properties of the interface kit's packets: bulk packets carry samples faithfully, and a
  packet keeps every value of the kit in its range.
\<close>

section \<open>Bulk packets\<close>

text \<open>
  How a board lays out a bulk packet: the counts two to a byte, then the samples in rounds,
  twelve bits each, two in three bytes.
\<close>

fun count_bytes :: "nat list \<Rightarrow> 8 word list" where
  "count_bytes (a # b # cs) = word_of_nat (a * 16 + b) # count_bytes cs"
| "count_bytes _ = []"

fun pack12 :: "nat list \<Rightarrow> 8 word list" where
  "pack12 [] = []"
| "pack12 [a] = [word_of_nat (a mod 256), word_of_nat (a div 256 * 16)]"
| "pack12 (a # b # vs) =
     word_of_nat (a mod 256) # word_of_nat (a div 256 * 16 + b div 256) # word_of_nat (b mod 256) # pack12 vs"

definition round_of :: "nat \<Rightarrow> nat list list \<Rightarrow> nat list" where
  "round_of j xss = concat (map (\<lambda>xs. if j < length xs then [xs ! j] else []) xss)"

definition interleave :: "nat list list \<Rightarrow> nat list" where
  "interleave xss = concat (map (\<lambda>j. round_of j xss) [0..<15])"

text \<open>Where sample \<open>m\<close> is looked for.\<close>

definition sample_at :: "nat \<Rightarrow> nat \<Rightarrow> bool \<times> nat" where
  "sample_at q m = (odd m, q + 3 * (m div 2) + (if odd m then 2 else 0))"

lemma unat_byte: "n < 256 \<Longrightarrow> unat (word_of_nat n :: 8 word) = n"
  by (simp add: unat_of_nat)

lemma halves:
  assumes "a < 4096" and "b < 4096"
  shows "unat (word_of_nat (a mod 256) :: 8 word) = a mod 256"
    and "unat (word_of_nat (a div 256 * 16) :: 8 word) div 16 = a div 256"
    and "unat (word_of_nat (a div 256 * 16 + b div 256) :: 8 word) div 16 = a div 256"
    and "unat (word_of_nat (a div 256 * 16 + b div 256) :: 8 word) mod 16 = b div 256"
proof -
  have ab: "a div 256 < 16" "b div 256 < 16" using assms by auto
  show "unat (word_of_nat (a mod 256) :: 8 word) = a mod 256" by (rule unat_byte) simp
  have "unat (word_of_nat (a div 256 * 16) :: 8 word) = a div 256 * 16" using ab by (intro unat_byte) simp
  then show "unat (word_of_nat (a div 256 * 16) :: 8 word) div 16 = a div 256" by simp
  have u: "unat (word_of_nat (a div 256 * 16 + b div 256) :: 8 word) = a div 256 * 16 + b div 256"
    using ab by (intro unat_byte) simp
  show "unat (word_of_nat (a div 256 * 16 + b div 256) :: 8 word) div 16 = a div 256"
    unfolding u using ab by simp
  show "unat (word_of_nat (a div 256 * 16 + b div 256) :: 8 word) mod 16 = b div 256"
    unfolding u using ab by simp
qed

lemma pack12_bytes:
  assumes "m < length vs" and "\<forall>v \<in> set vs. v < 4096"
  shows "3 * (m div 2) + 1 < length (pack12 vs)
    \<and> (even m \<longrightarrow> unat (pack12 vs ! (3 * (m div 2))) = vs ! m mod 256
                  \<and> unat (pack12 vs ! (3 * (m div 2) + 1)) div 16 = vs ! m div 256)
    \<and> (odd m \<longrightarrow> 3 * (m div 2) + 2 < length (pack12 vs)
                  \<and> unat (pack12 vs ! (3 * (m div 2) + 2)) = vs ! m mod 256
                  \<and> unat (pack12 vs ! (3 * (m div 2) + 1)) mod 16 = vs ! m div 256)"
  using assms
proof (induction vs arbitrary: m rule: pack12.induct)
  case (2 a)
  then show ?case using halves [of a 0] by (simp del: of_nat_mult)
next
  case (3 a b vs)
  show ?case
  proof (cases "m < 2")
    case True
    then have "m = 0 \<or> m = 1" by auto
    moreover from 3(3) have ab: "a < 4096" "b < 4096" by simp_all
    ultimately show ?thesis
      by (elim disjE) (simp_all add: halves [OF ab] halves(1) [OF ab(2,1)] del: of_nat_mult of_nat_add)
  next
    case False
    define m' where "m' = m - 2"
    have m: "m = Suc (Suc m')" using False by (simp add: m'_def)
    from 3(1) [of m'] 3(2,3) show ?thesis by (simp add: m)
  qed
qed simp

text \<open>Reading sample \<open>m\<close>.\<close>

lemma low_nibble: "uint ((b :: 8 word) AND 0x0f) = int (unat b mod 16)"
proof -
  have "b AND 0x0f = take_bit 4 b" by (simp add: take_bit_eq_mask mask_numeral)
  then show ?thesis by (simp add: take_bit_eq_mod uint_nat unat_mod)
qed
lemma high_nibble: "uint ((b :: 8 word) AND 0xf0) = int (unat b div 16) * 16"
proof -
  have m: "(0xf0 :: 8 word) = push_bit 4 (mask 4)" by (simp add: mask_numeral)
  have "b AND 0xf0 = push_bit 4 (drop_bit 4 b)"
    unfolding m by (rule bit_word_eqI) (auto simp: bit_simps)
  also have "\<dots> = 16 * drop_bit 4 b" by (simp add: push_bit_eq_mult)
  finally have "unat (b AND 0xf0) = (16 * (unat b div 16)) mod 256"
    by (simp add: unat_word_ariths drop_bit_eq_div unat_div mod_mult_right_eq)
  moreover have "16 * (unat b div 16) < 256" using unsigned_less [where 'a = nat, of b] by simp
  ultimately show ?thesis by (simp add: uint_nat)
qed
lemma take_sample_packed:
  assumes "m < length vs" and "\<forall>v \<in> set vs. v < 4096" and "drop q buf = pack12 vs @ rest"
  shows "take_sample buf (sample_at q m) = Inr (int (vs ! m), sample_at q (Suc m))"
proof -
  let ?p = "pack12 vs"
  have at: "byte_at buf (q + i) = Inr (?p ! i)" if "i < length ?p" for i
  proof -
    have "drop q buf ! i = ?p ! i" and "i < length (drop q buf)" using that assms(3) by (simp_all add: nth_append)
    then show ?thesis by (simp add: byte_at_def)
  qed
  note b = pack12_bytes [OF assms(1,2)]
  have val: "int (vs ! m mod 256) + int (vs ! m div 256) * 256 = int (vs ! m)"
    by (metis mod_div_mult_eq of_nat_add of_nat_mult of_nat_numeral)
  show ?thesis
  proof (cases "even m")
    case True
    then have h: "sample_at q m = (False, q + 3 * (m div 2))" "sample_at q (Suc m) = (True, q + 3 * (m div 2) + 2)"
      by (simp_all add: sample_at_def)
    from True b have l: "3 * (m div 2) + 1 < length ?p" by blast
    have a0: "byte_at buf (q + 3 * (m div 2)) = Inr (?p ! (3 * (m div 2)))"
      and a1: "byte_at buf (q + 3 * (m div 2) + 1) = Inr (?p ! (3 * (m div 2) + 1))"
      using at [of "3 * (m div 2)"] at [of "3 * (m div 2) + 1"] l by (simp_all add: add.assoc)
    from True b have u: "unat (?p ! (3 * (m div 2))) = vs ! m mod 256" "unat (?p ! (3 * (m div 2) + 1)) div 16 = vs ! m div 256"
      by blast+
    show ?thesis
      by (simp only: h take_sample_def Let_def prod.case not_False_eq_True if_True a0 a1 cbind_simps high_nibble)
         (simp only: uint_nat u, simp add: val mult.commute [of 256])
  next
    case False
    then have h: "sample_at q m = (True, q + 3 * (m div 2) + 2)" "sample_at q (Suc m) = (False, q + 3 * (m div 2) + 3)"
      by (simp_all add: sample_at_def)
    from False b have l: "3 * (m div 2) + 2 < length ?p" by blast
    have a0: "byte_at buf (q + 3 * (m div 2) + 2) = Inr (?p ! (3 * (m div 2) + 2))"
      and a1: "byte_at buf (q + 3 * (m div 2) + 2 - 1) = Inr (?p ! (3 * (m div 2) + 1))"
      using at [of "3 * (m div 2) + 2"] at [of "3 * (m div 2) + 1"] l by (simp_all add: add.assoc)
    from False b have u: "unat (?p ! (3 * (m div 2) + 2)) = vs ! m mod 256" "unat (?p ! (3 * (m div 2) + 1)) mod 16 = vs ! m div 256"
      by blast+
    show ?thesis
      by (simp only: h take_sample_def Let_def prod.case simp_thms if_False a0 a1 cbind_simps low_nibble)
         (simp only: uint_nat u, simp add: val mult.commute [of 256])
  qed
qed

text \<open>A round, then all of them.\<close>

lemma round_of_Cons: "round_of j (xs # xss) = (if j < length xs then [xs ! j] else []) @ round_of j xss"
  by (simp add: round_of_def)

lemma drop_eq_Cons: "drop m vs = v # ws \<Longrightarrow> m < length vs \<and> vs ! m = v \<and> drop (Suc m) vs = ws"
  by (metis Cons_nth_drop_Suc drop_all list.distinct(1) list.inject not_le_imp_less)

definition taken :: "nat \<Rightarrow> nat list list \<Rightarrow> (int \<times> int) list list" where
  "taken j xss = map (\<lambda>xs. map (\<lambda>v. sample (compensate (int v))) (take j xs)) xss"

lemma data_round_packed:
  assumes "\<forall>v \<in> set vs. v < 4096" and "drop q buf = pack12 vs @ rest"
    and "drop m vs = round_of j xss @ ws"
  shows "data_round buf j (map length xss) (taken j xss @ yss) (sample_at q m)
         = Inr (taken (Suc j) xss @ yss, sample_at q (m + length (round_of j xss)))
         \<and> drop (m + length (round_of j xss)) vs = ws"
  using assms(3)
proof (induction xss arbitrary: m)
  case Nil
  then show ?case by (cases yss) (simp_all add: taken_def round_of_def)
next
  case (Cons xs xss)
  show ?case
  proof (cases "j < length xs")
    case True
    with Cons.prems have "drop m vs = xs ! j # (round_of j xss @ ws)" by (simp add: round_of_Cons)
    from drop_eq_Cons [OF this] have m: "m < length vs" "vs ! m = xs ! j" "drop (Suc m) vs = round_of j xss @ ws"
      by simp_all
    from take_sample_packed [OF m(1) assms(1,2)] Cons.IH [OF m(3)] True m(2) show ?thesis
      by (simp add: taken_def round_of_Cons take_Suc_conv_app_nth)
  next
    case False
    with Cons.IH [of m] Cons.prems show ?thesis by (simp add: taken_def round_of_Cons)
  qed
qed

lemma data_rounds_packed:
  assumes "\<forall>v \<in> set vs. v < 4096" and "drop q buf = pack12 vs @ rest"
    and "\<forall>xs \<in> set xss. length xs \<le> n" and "j \<le> n"
    and "drop m vs = concat (map (\<lambda>j. round_of j xss) [j..<n])"
  shows "\<exists>s. data_rounds buf (map length xss) j (taken j xss @ yss) (sample_at q m)
           = Inr (map (map (\<lambda>v. sample (compensate (int v)))) xss @ yss, s)"
  using assms(4,5)
proof (induction "n - j" arbitrary: j m)
  case 0
  then have "j = n" by simp
  moreover have "datacount (map length xss) n = 0" using assms(3) by (auto simp: datacount_def)
  moreover have "taken n xss = map (map (\<lambda>v. sample (compensate (int v)))) xss"
    using assms(3) by (auto simp: taken_def)
  ultimately show ?case by (subst data_rounds.simps) simp
next
  case (Suc k)
  then have n: "[j..<n] = j # [Suc j..<n]" by (simp add: upt_conv_Cons)
  show ?case
  proof (cases "datacount (map length xss) j = 0")
    case True
    then have "\<forall>xs \<in> set xss. length xs \<le> j" by (auto simp: datacount_def)
    then have "taken j xss = map (map (\<lambda>v. sample (compensate (int v)))) xss" by (auto simp: taken_def)
    with True show ?thesis by (subst data_rounds.simps) simp
  next
    case False
    from Suc.prems(2) have "drop m vs = round_of j xss @ concat (map (\<lambda>j. round_of j xss) [Suc j..<n])"
      by (simp add: n)
    from data_round_packed [OF assms(1,2) this, of yss] Suc.hyps(1) [of "Suc j" "m + length (round_of j xss)"] Suc.hyps(2) False
    show ?thesis by (subst data_rounds.simps) simp
  qed
qed

lemma take_counts_packed:
  assumes "\<forall>c \<in> set cs. c < 16" and "even (length cs)" and "drop p buf = count_bytes cs @ rest"
  shows "take_counts buf (length cs) p = Inr (cs, p + length cs div 2) \<and> drop (p + length cs div 2) buf = rest"
  using assms
proof (induction cs arbitrary: p rule: count_bytes.induct)
  case (1 a b cs)
  then have "drop p buf = word_of_nat (a * 16 + b) # count_bytes cs @ rest" by simp
  from drop_eq_Cons [OF this] have p: "byte_at buf p = Inr (word_of_nat (a * 16 + b))" "drop (Suc p) buf = count_bytes cs @ rest"
    by (simp_all add: byte_at_def)
  have "unat (word_of_nat (a * 16 + b) :: 8 word) = a * 16 + b" using 1(2) by (intro unat_byte) simp
  then have "high_half (word_of_nat (a * 16 + b)) = a" "low_half (word_of_nat (a * 16 + b)) = b"
    using 1(2) by (simp_all add: high_half_def low_half_def del: of_nat_add of_nat_mult)
  with 1(1) [OF _ _ p(2)] 1(2,3) p(1) show ?case by (simp del: of_nat_add of_nat_mult)
qed simp_all

lemma take_overruns_packed:
  "p + length (filter id fs) \<le> length buf \<Longrightarrow>
     \<exists>ns. take_overruns buf fs p = Inr (ns, p + length (filter id fs))"
proof (induction fs arbitrary: p)
  case (Cons f fs)
  from Cons.IH [of "p + 1"] Cons.IH [of p] Cons.prems show ?case by (auto simp: byte_at_def split: if_splits)
qed simp

definition overrun_flags :: "8 word \<Rightarrow> bool list" where
  "overrun_flags b = map (bit b) [0, 1, 2, 3]"

text \<open>
  C29: a bulk packet carries its samples faithfully. However many samples each sensor has, up
  to the fifteen a count can say, the samples that \<open>dataInput\<close> reads from a packet laid out
  as the boards do are the ones put into it, each sensor's in order, compensated and scaled;
  the inputs and outputs are the bits of the second and the third byte.\<close>

theorem fast_packet_roundtrip:
  assumes "length xss = numSensors k" and "even (numSensors k)" and "numSensors k \<le> 8"
    and "\<forall>xs \<in> set xss. length xs < 16 \<and> (\<forall>v \<in> set xs. v < 4096)"
    and "length overruns = length (filter id (overrun_flags b0))"
  shows "\<exists>k'. fast_packet (b0 # b1 # b2 # overruns @ count_bytes (map length xss) @ pack12 (interleave xss) @ rest) k
           = Inr (\<lparr> inputState = bits_low b1 [0..<numInputs k], outputState = bits_high b2 [0..<numOutputs k],
                    samples = map (map (\<lambda>v. sample (compensate (int v)))) xss @ replicate (8 - numSensors k) [],
                    ratioState = (if bit b0 4 then 1 else 0) \<rparr>, k')"
proof -
  let ?buf = "b0 # b1 # b2 # overruns @ count_bytes (map length xss) @ pack12 (interleave xss) @ rest"
  let ?p = "3 + length overruns" and ?n = "numSensors k"
  have drop3: "drop ?p ?buf = count_bytes (map length xss) @ pack12 (interleave xss) @ rest"
    by (simp add: numeral_3_eq_3)
  obtain ns where ov: "take_overruns ?buf (map (bit b0) [0, 1, 2, 3]) 3 = Inr (ns, ?p)"
    using take_overruns_packed [of 3 "overrun_flags b0" ?buf] assms(5) unfolding overrun_flags_def [symmetric] by auto
  have cs: "take_counts ?buf ?n ?p = Inr (map length xss, ?p + ?n div 2)"
    and rest: "drop (?p + ?n div 2) ?buf = pack12 (interleave xss) @ rest"
    using take_counts_packed [OF _ _ drop3] assms(1,2,4) by auto
  have small: "\<forall>v \<in> set (interleave xss). v < 4096"
    using assms(4) by (auto simp: interleave_def round_of_def split: if_splits)
  have none: "samples no_packet = taken 0 xss @ replicate (8 - ?n) []"
  proof -
    have "taken 0 xss = replicate ?n []" using assms(1) by (auto simp: taken_def intro!: nth_equalityI)
    then show ?thesis using assms(3) by (simp add: no_packet_def flip: replicate_add)
  qed
  have start: "(False, ?p + ?n div 2) = sample_at (?p + ?n div 2) 0" by (simp add: sample_at_def)
  obtain s where d: "data_rounds ?buf (map length xss) 0 (samples no_packet) (False, ?p + ?n div 2)
      = Inr (map (map (\<lambda>v. sample (compensate (int v)))) xss @ replicate (8 - ?n) [], s)"
  proof -
    have "\<forall>xs \<in> set xss. length xs \<le> 15" using assms(4) by force
    from that data_rounds_packed [OF small rest this, of 0 0 "replicate (8 - ?n) []"] show thesis
      unfolding none start by (auto simp: interleave_def)
  qed
  have b: "byte_at ?buf 0 = Inr b0" "byte_at ?buf 1 = Inr b1" "byte_at ?buf 2 = Inr b2"
    by (simp_all add: byte_at_def)
  show ?thesis
    unfolding fast_packet_def b cbind_simps ov prod.case cs d Let_def by blast
qed

definition sample_kit :: ifkit where
  "sample_kit =
     \<lparr> dev = zero_phidget\<lparr> deviceID := 7, deviceIDSpec := 69, deviceVersion := 903, attr := [8, 8, 8],
               ph_status := PHIDGET_ATTACHED_FLAG, outputReportByteLength := 8 \<rparr>,
       awdc_enabled = True, fptrInputChange = True, fptrOutputChange = True, fptrSensorChange = True,
       ratiometric = 1, ratiometricEcho = 1, ratiometricSwitching = 0,
       outputStates = replicate 32 0, nextOutputStates = replicate 32 2, changedOutputs = replicate 32 0,
       lastChangedOutput = 0, outputEchoStates = replicate 32 0, physicalState = replicate 32 0,
       sensorChangeTrigger = replicate 8 10, sensorRawValue = replicate 8 0, sensorValue = replicate 8 0,
       sensorLastValue = replicate 8 0, sensorRawValueAccumulator = replicate 8 0,
       sensorRawValueAccumulatorCount = replicate 8 0, dataRate = replicate 8 8, interruptRate = 8,
       dataRateMax = 1, dataRateMin = 1000, lastPacketCount = -1, maxDataPerPacket = 36, dataSinceAttach = 0,
       eventMode = replicate 8 EVENTMODE_DATARATE, fullStateEcho = 1, ik_queue = [], ik_log = [] \<rparr>"

lemma sample_kit_sizes: "numSensors sample_kit = 8" "numInputs sample_kit = 8" "numOutputs sample_kit = 8"
  by (simp_all add: numSensors_def numInputs_def numOutputs_def sample_kit_def)

theorem fast_packet_roundtrip_witness:
  "\<exists>p k'. fast_packet (0 # 0 # 1 # [] @ count_bytes (map length [[100, 200], [4095], [], [], [], [], [], []])
             @ pack12 (interleave [[100, 200], [4095], [], [], [], [], [], []]) @ []) sample_kit = Inr (p, k')
         \<and> samples p = [[sample 100, sample 200], [sample 4095], [], [], [], [], [], []]"
proof -
  have "compensate 100 = 100" "compensate 200 = 200" "compensate 4095 = 4095" by (simp_all add: compensate_def)
  then show ?thesis
    using fast_packet_roundtrip [of "[[100, 200], [4095], [], [], [], [], [], []]" sample_kit "[]" 0 0 1 "[]"]
    by (auto simp: sample_kit_sizes overrun_flags_def)
qed

section \<open>Ranges\<close>

definition three :: "int list \<Rightarrow> bool" where
  "three xs \<longleftrightarrow> set xs \<subseteq> {0, 1, 2}"

definition upto_or :: "int \<Rightarrow> int \<Rightarrow> int list \<Rightarrow> bool" where
  "upto_or n unknown xs \<longleftrightarrow> (\<forall>v \<in> set xs. v = unknown \<or> 0 \<le> v \<and> v \<le> n)"

definition kit_shape :: "ifkit \<Rightarrow> bool" where
  "kit_shape k \<longleftrightarrow>
     numSensors k \<le> 8 \<and> numInputs k \<le> 32 \<and> numOutputs k \<le> 32
     \<and> length (outputStates k) = 32 \<and> length (nextOutputStates k) = 32 \<and> length (changedOutputs k) = 32
     \<and> length (outputEchoStates k) = 32 \<and> length (physicalState k) = 32
     \<and> length (sensorValue k) = 8 \<and> length (sensorRawValue k) = 8"

definition kit_ok :: "ifkit \<Rightarrow> bool" where
  "kit_ok k \<longleftrightarrow>
     kit_shape k \<and> upto_or 1000 PUNK_INT (sensorValue k) \<and> upto_or 4095 PUNK_INT (sensorRawValue k)
     \<and> three (physicalState k) \<and> three (outputStates k) \<and> three (nextOutputStates k) \<and> three (outputEchoStates k)"

named_theorems kit_keeps

lemma three_update [simp]: "three xs \<Longrightarrow> v \<in> {0, 1, 2} \<Longrightarrow> three (xs[i := v])"
  unfolding three_def using set_update_subset_insert [of xs i v] by auto

lemma three_nth: "three xs \<Longrightarrow> i < length xs \<Longrightarrow> xs ! i \<in> {0, 1, 2}"
  using nth_mem unfolding three_def by blast

lemma upto_or_update [simp]: "upto_or n u xs \<Longrightarrow> v = u \<or> 0 \<le> v \<and> v \<le> n \<Longrightarrow> upto_or n u (xs[i := v])"
  unfolding upto_or_def using set_update_subset_insert [of xs i v] by auto

lemma kit_ok_cong:
  assumes "dev k' = dev k" and "outputStates k' = outputStates k" and "nextOutputStates k' = nextOutputStates k"
    and "changedOutputs k' = changedOutputs k" and "outputEchoStates k' = outputEchoStates k"
    and "physicalState k' = physicalState k" and "sensorValue k' = sensorValue k" and "sensorRawValue k' = sensorRawValue k"
  shows "kit_ok k' = kit_ok k"
  using assms by (simp add: kit_ok_def kit_shape_def numSensors_def numInputs_def numOutputs_def)

lemma kit_ok_other [simp]:
  "kit_ok (k\<lparr> ik_log := l \<rparr>) = kit_ok k" "kit_ok (k\<lparr> ik_queue := q \<rparr>) = kit_ok k"
  "kit_ok (k\<lparr> lastPacketCount := n \<rparr>) = kit_ok k" "kit_ok (k\<lparr> dataSinceAttach := n \<rparr>) = kit_ok k"
  "kit_ok (k\<lparr> ratiometric := n \<rparr>) = kit_ok k" "kit_ok (k\<lparr> ratiometricEcho := n \<rparr>) = kit_ok k"
  "kit_ok (k\<lparr> ratiometricSwitching := m \<rparr>) = kit_ok k" "kit_ok (k\<lparr> sensorLastValue := xs \<rparr>) = kit_ok k"
  "kit_ok (k\<lparr> sensorRawValueAccumulator := xs \<rparr>) = kit_ok k"
  "kit_ok (k\<lparr> sensorRawValueAccumulatorCount := xs \<rparr>) = kit_ok k"
  "kit_ok (k\<lparr> lastChangedOutput := n \<rparr>) = kit_ok k" "kit_ok (k\<lparr> sensorChangeTrigger := xs \<rparr>) = kit_ok k"
  "kit_ok (k\<lparr> eventMode := es \<rparr>) = kit_ok k" "kit_ok (k\<lparr> dataRate := xs \<rparr>) = kit_ok k"
  by (rule kit_ok_cong; simp)+

lemma fold_keeps: "P k \<Longrightarrow> (\<And>x k. x \<in> set xs \<Longrightarrow> P k \<Longrightarrow> P (f x k)) \<Longrightarrow> P (fold f xs k)"
  by (induction xs arbitrary: k) auto

lemma fire_ok [simp]: "kit_ok (fire h e k) = kit_ok k"
  by (simp add: fire_def)

lemma fire_error_ok [simp]: "kit_ok (fire_error_noqueue e k) = kit_ok k" "kit_ok (fire_error e k) = kit_ok k"
  by (simp_all add: fire_error_def fire_error_noqueue_def)

lemma sensor_event_ok [simp]: "kit_ok (sensor_event i t v k) = kit_ok k"
  by (simp add: sensor_event_def)

lemma sensor_events_ok [kit_keeps]: "kit_ok k \<Longrightarrow> kit_ok (sensor_events xss i k)"
proof -
  assume k: "kit_ok k"
  have "kit_ok (fold (\<lambda>s k. sensor_event i (sensorValue k ! i) (snd s) k) xs k)" for xs :: "(int \<times> int) list"
    by (rule fold_keeps) (simp_all add: k)
  with k show ?thesis by (simp add: sensor_events_def Let_def split: event_mode.split)
qed

lemma change_event_ok [kit_keeps]: "kit_ok k \<Longrightarrow> kit_ok (change_event h ev now before i k)"
  by (simp add: change_event_def)

lemma take_ratio_ok [kit_keeps]: "kit_ok k \<Longrightarrow> kit_ok (take_ratio echo k)"
  by (simp add: take_ratio_def Let_def)

subsection \<open>Values of packets\<close>

lemma div_at_least: "0 < (d :: int) \<Longrightarrow> a * d \<le> x \<Longrightarrow> a \<le> x div d"
  using zdiv_mono1 [of "a * d" x d] by simp

lemma div_below:
  assumes "0 < (d :: int)" and "x < (b + 1) * d"
  shows "x div d \<le> b"
proof (rule ccontr)
  assume "\<not> x div d \<le> b"
  then have "(b + 1) * d \<le> (x div d) * d" using assms(1) by (intro mult_right_mono) simp_all
  also have "\<dots> \<le> x" using pos_mod_sign [OF assms(1), of x] by (simp add: minus_mod_eq_div_mult [symmetric])
  finally show False using assms(2) by simp
qed

lemma round_mean_range:
  assumes "xs \<noteq> []" and "\<forall>x \<in> set xs. a \<le> x \<and> x \<le> b"
  shows "a \<le> round_mean xs \<and> round_mean xs \<le> b"
proof -
  define n where "n = int (length xs)"
  have n: "n > 0" using assms(1) by (simp add: n_def)
  have "a * n \<le> sum_list xs \<and> sum_list xs \<le> b * n"
    unfolding n_def using assms(2) by (induction xs) (auto simp: algebra_simps)
  with n have "a * (2 * n) \<le> 2 * sum_list xs + n" and "2 * sum_list xs + n < (b + 1) * (2 * n)"
    by (simp_all add: algebra_simps)
  with n show ?thesis
    unfolding round_mean_def n_def [symmetric] by (intro conjI div_at_least div_below) simp_all
qed

text \<open>Raw values of at most twelve bits.\<close>

definition raw12 :: "(int \<times> int) list list \<Rightarrow> bool" where
  "raw12 xss \<longleftrightarrow> (\<forall>xs \<in> set xss. \<forall>s \<in> set xs. 0 \<le> fst s \<and> fst s \<le> 4095)"

lemma compensate_range: "0 \<le> r \<Longrightarrow> 0 \<le> compensate r \<and> compensate r \<le> 4095"
  by (simp add: compensate_def)

lemma byte_range: "0 \<le> uint (b :: 8 word) \<and> uint b \<le> 255"
  using uint_bounded [of b] by simp

lemma low12_range: "0 \<le> low12 a b \<and> low12 a b \<le> 4095"
  using byte_range [of a] by (simp add: low12_def low_nibble)

lemma high12_range: "0 \<le> high12 a b \<and> high12 a b \<le> 4095"
proof -
  have "unat b div 16 < 16" using unsigned_less [where 'a = nat, of b] by simp
  then show ?thesis using byte_range [of a] unfolding high12_def high_nibble by simp
qed

lemma take_sample_range: "take_sample buf s = Inr (raw, s') \<Longrightarrow> 0 \<le> raw"
  by (cases s) (auto simp: take_sample_def byte_at_def split: if_splits)

lemma data_round_raw12:
  "data_round buf j cs xss s = Inr (yss, s') \<Longrightarrow> raw12 xss \<Longrightarrow> raw12 yss"
proof (induction buf j cs xss s arbitrary: yss s' rule: data_round.induct)
  case (1 buf j c cs xs xss s)
  from 1(4) have xs: "raw12 xss" "\<forall>s \<in> set xs. 0 \<le> fst s \<and> fst s \<le> 4095" by (simp_all add: raw12_def)
  show ?case
  proof (cases "c > j")
    case True
    then obtain raw s1 zss s2 where t: "take_sample buf s = Inr (raw, s1)" "data_round buf j cs xss s1 = Inr (zss, s2)"
        "yss = (xs @ [sample (compensate raw)]) # zss"
      using 1(3) by (auto simp: cbind_def split: sum.splits)
    from 1(1) [OF True t(1) refl t(2) xs(1)] xs(2) compensate_range [OF take_sample_range [OF t(1)]] t(3)
    show ?thesis by (auto simp: raw12_def sample_def)
  next
    case False
    with 1(3) obtain zss where "data_round buf j cs xss s = Inr (zss, s')" "yss = xs # zss"
      by (auto simp: cbind_def split: sum.splits)
    with 1(2) [OF False _ xs(1)] xs(2) show ?thesis by (auto simp: raw12_def)
  qed
qed (auto simp: raw12_def)

lemma data_rounds_raw12:
  "data_rounds buf cs j xss s = Inr (yss, s') \<Longrightarrow> raw12 xss \<Longrightarrow> raw12 yss"
proof (induction buf cs j xss s arbitrary: yss s' rule: data_rounds.induct)
  case (1 buf cs j xss s)
  show ?case
  proof (cases "datacount cs j = 0")
    case True
    with 1(2) have "yss = xss" by (subst (asm) data_rounds.simps) simp
    with 1(3) show ?thesis by simp
  next
    case False
    with 1(2) obtain zss s1 where r: "data_round buf j cs xss s = Inr (zss, s1)" "data_rounds buf cs (Suc j) zss s1 = Inr (yss, s')"
      by (subst (asm) data_rounds.simps) (auto simp: cbind_def split: sum.splits)
    from 1(1) [OF False r(1) refl r(2) data_round_raw12 [OF r(1) 1(3)]] show ?thesis .
  qed
qed

lemma four_samples_raw12: "raw12 (four_samples b @ replicate n [])" "raw12 (replicate n [] @ four_samples b)"
  using low12_range high12_range by (auto simp: raw12_def four_samples_def sample_def)

lemma report_overruns_ok [simp]: "kit_ok k \<Longrightarrow> kit_ok (report_overruns ns k)"
  unfolding report_overruns_def by (rule fold_keeps) simp_all

lemma bits_three: "three (bits_high b is)" "three (bits_low b is)"
  by (auto simp: three_def bits_high_def bits_low_def)

definition packet_ok :: "ik_packet \<Rightarrow> bool" where
  "packet_ok p \<longleftrightarrow> three (inputState p) \<and> three (outputState p) \<and> raw12 (samples p)"

lemma three_replicate [simp]: "v \<in> {0, 1, 2} \<Longrightarrow> three (replicate n v)"
  by (auto simp: three_def)

lemma three_append [simp]: "three (xs @ ys) = (three xs \<and> three ys)" "three []" "three (x # xs) = (x \<in> {0, 1, 2} \<and> three xs)"
  by (auto simp: three_def)

lemma fast_packet_ok:
  assumes "fast_packet buf k = Inr (p, k')" and "kit_ok k"
  shows "packet_ok p \<and> kit_ok k'"
proof
  have n: "raw12 (samples no_packet)" by (simp add: no_packet_def raw12_def)
  show "packet_ok p"
    using assms(1)
    by (auto simp: fast_packet_def Let_def cbind_def packet_ok_def bits_three split: sum.splits)
       (erule data_rounds_raw12 [OF _ n])
  show "kit_ok k'"
    using assms by (auto simp: fast_packet_def Let_def cbind_def split: sum.splits)
qed

lemma read_packet_ok:
  assumes "read_packet buf k = Inr (Some (p, k'))" and "kit_ok k"
  shows "packet_ok p \<and> kit_ok k'"
proof -
  have n: "packet_ok no_packet" by (simp add: packet_ok_def no_packet_def raw12_def)
  have o: "packet_ok (old_packet buf k)"
    using four_samples_raw12 by (simp add: old_packet_def packet_ok_def Let_def bits_three no_packet_def)
  have p4: "packet_ok (packet_4_8_8 buf)"
    using low12_range high12_range by (simp add: packet_4_8_8_def packet_ok_def bits_three no_packet_def raw12_def sample_def)
  have p16: "packet_ok (packet_0_16_16 buf k)"
    by (simp add: packet_0_16_16_def packet_ok_def bits_three no_packet_def raw12_def)
  have t: "packet_ok (fst (touch_packet (buf ! 0) k)) \<and> kit_ok (snd (touch_packet (buf ! 0) k))"
  proof -
    have "uint (buf ! 0 AND 0x7f) \<le> 255" using byte_range by blast
    then show ?thesis
      using assms(2) by (simp add: touch_packet_def Let_def packet_ok_def no_packet_def raw12_def kit_ok_def kit_shape_def
          numSensors_def numInputs_def numOutputs_def)
  qed
  have b: "packet_ok (no_packet\<lparr> inputState := bits_high b is \<rparr>)" "packet_ok (no_packet\<lparr> outputState := bits_high b is \<rparr>)" for b "is"
    by (simp_all add: packet_ok_def no_packet_def raw12_def bits_three)
  show ?thesis
    using assms n o p4 p16 t b
    by (auto simp: read_packet_def Let_def needs_def cbind_def dest: fast_packet_ok split: if_splits sum.splits)
qed

subsection \<open>Steps\<close>

lemma clamp_good:
  assumes "s \<in> set (map clamp xs)" and "snd s \<noteq> PUNK_INT" and "fst s \<noteq> PUNK_INT" and "\<forall>s \<in> set xs. 0 \<le> fst s \<and> fst s \<le> 4095"
  shows "0 \<le> fst s \<and> fst s \<le> 4095 \<and> 0 \<le> snd s \<and> snd s \<le> 1000"
  using assms by (auto simp: clamp_def split: if_splits)

lemma store_sensor_ok [kit_keeps]:
  assumes "kit_ok k" and "raw12 xss" and "i < length xss"
  shows "kit_ok (store_sensor (map (map clamp) xss) i k)"
proof -
  let ?good = "filter (\<lambda>s. snd s \<noteq> PUNK_INT \<and> fst s \<noteq> PUNK_INT) (map clamp (xss ! i))"
  have "\<forall>s \<in> set (xss ! i). 0 \<le> fst s \<and> fst s \<le> 4095" using assms(2,3) nth_mem unfolding raw12_def by blast
  with clamp_good [of _ "xss ! i"]
  have g: "\<forall>s \<in> set ?good. 0 \<le> fst s \<and> fst s \<le> 4095 \<and> 0 \<le> snd s \<and> snd s \<le> 1000" by auto
  show ?thesis
  proof (cases "?good = []")
    case False
    have "0 \<le> round_mean (map fst ?good) \<and> round_mean (map fst ?good) \<le> 4095"
      using round_mean_range [of "map fst ?good" 0 4095] False g by auto
    moreover have "0 \<le> round_mean (map snd ?good) \<and> round_mean (map snd ?good) \<le> 1000"
      using round_mean_range [of "map snd ?good" 0 1000] False g by auto
    ultimately show ?thesis
      using False assms(1,3)
      by (simp add: store_sensor_def Let_def kit_ok_def kit_shape_def numSensors_def numInputs_def numOutputs_def
          del: filter_map)
  qed (use assms(1,3) in \<open>simp add: store_sensor_def del: filter_map\<close>)
qed

lemma state_at_three: "three xs \<Longrightarrow> state_at xs i \<in> {0, 1, 2}"
  using three_nth by (simp add: state_at_def)

lemma three_state_at: "three xs \<Longrightarrow> three ys \<Longrightarrow> three (ys[i := state_at xs j])"
  using state_at_three by simp

lemma store_input_ok [kit_keeps]: "kit_ok k \<Longrightarrow> three xs \<Longrightarrow> kit_ok (store_input xs i k)"
  using three_state_at [of xs]
  by (simp add: store_input_def kit_ok_def kit_shape_def numSensors_def numInputs_def numOutputs_def)

lemma store_output_ok [kit_keeps]: "kit_ok k \<Longrightarrow> three xs \<Longrightarrow> kit_ok (store_output xs i k)"
  using three_state_at [of xs]
  by (simp add: store_output_def Let_def kit_ok_def kit_shape_def numSensors_def numInputs_def numOutputs_def)

lemma numSensors_small: "kit_ok k \<Longrightarrow> numSensors k \<le> 8"
  by (simp add: kit_ok_def kit_shape_def)

lemma take_packet_ok [kit_keeps]:
  assumes "kit_ok k" and "packet_ok p" and "length (samples p) = 8"
  shows "kit_ok (take_packet li lo p k)"
proof -
  let ?xss = "map (map clamp) (samples p)"
  define k1 where "k1 = take_ratio (ratioState p) k"
  define k2 where "k2 = (if ratiometricSwitching k1 = 0 then fold (store_sensor ?xss) [0..<numSensors k1] k1 else k1)"
  define k3 where "k3 = fold (store_input (inputState p)) [0..<numInputs k2] k2"
  define k4 where "k4 = fold (store_output (outputState p)) [0..<numOutputs k3] k3"
  define k5 where "k5 = (if ratiometricSwitching k4 = 0 then fold (sensor_events ?xss) [0..<numSensors k4] k4 else k4)"
  have k1: "kit_ok k1" unfolding k1_def by (rule take_ratio_ok [OF assms(1)])
  have "kit_ok (fold (store_sensor ?xss) [0..<numSensors k1] k1)"
  proof (rule fold_keeps [where P = kit_ok, OF k1])
    fix i k' assume "i \<in> set [0..<numSensors k1]" and "kit_ok k'"
    then show "kit_ok (store_sensor ?xss i k')"
      using store_sensor_ok [of k' "samples p" i] numSensors_small [OF k1] assms(2,3) by (simp add: packet_ok_def)
  qed
  with k1 have k2: "kit_ok k2" by (simp add: k2_def)
  have k3: "kit_ok k3"
    unfolding k3_def using assms(2) by (intro fold_keeps [where P = kit_ok, OF k2] store_input_ok) (simp_all add: packet_ok_def)
  have k4: "kit_ok k4"
    unfolding k4_def using assms(2) by (intro fold_keeps [where P = kit_ok, OF k3] store_output_ok) (simp_all add: packet_ok_def)
  have "kit_ok (fold (sensor_events ?xss) [0..<numSensors k4] k4)"
    by (intro fold_keeps [where P = kit_ok, OF k4] sensor_events_ok)
  with k4 have k5: "kit_ok k5" by (simp add: k5_def)
  have k6: "kit_ok (fold (change_event fptrInputChange InputChange physicalState li) [0..<numInputs k5] k5)"
    by (intro fold_keeps [where P = kit_ok, OF k5] change_event_ok)
  show ?thesis
    unfolding take_packet_def Let_def k1_def [symmetric] k2_def [symmetric] k3_def [symmetric] k4_def [symmetric] k5_def [symmetric]
    by (intro fold_keeps [where P = kit_ok, OF k6] change_event_ok)
qed

lemma data_round_length: "data_round buf j cs xss s = Inr (yss, s') \<Longrightarrow> length yss = length xss"
  by (induction buf j cs xss s arbitrary: yss s' rule: data_round.induct)
     (auto simp: cbind_def split: sum.splits if_splits)

lemma data_rounds_length: "data_rounds buf cs j xss s = Inr (yss, s') \<Longrightarrow> length yss = length xss"
proof (induction buf cs j xss s arbitrary: yss s' rule: data_rounds.induct)
  case (1 buf cs j xss s)
  show ?case
  proof (cases "datacount cs j = 0")
    case True
    with 1(2) show ?thesis by (subst (asm) data_rounds.simps) simp
  next
    case False
    with 1(2) obtain zss s1 where r: "data_round buf j cs xss s = Inr (zss, s1)" "data_rounds buf cs (Suc j) zss s1 = Inr (yss, s')"
      by (subst (asm) data_rounds.simps) (auto simp: cbind_def split: sum.splits)
    from 1(1) [OF False r(1) refl r(2)] data_round_length [OF r(1)] show ?thesis by simp
  qed
qed

lemma fast_packet_length: "fast_packet buf k = Inr (p, k') \<Longrightarrow> length (samples p) = 8"
  by (auto simp: fast_packet_def Let_def cbind_def split: sum.splits)
     (auto simp: no_packet_def dest!: data_rounds_length)

lemma read_packet_length: "read_packet buf k = Inr (Some (p, k')) \<Longrightarrow> length (samples p) = 8"
  by (auto simp: read_packet_def Let_def needs_def cbind_def no_packet_def packet_4_8_8_def packet_0_16_16_def
      old_packet_def four_samples_def touch_packet_def dest: fast_packet_length split: if_splits sum.splits)

lemma dataInput_ok:
  assumes "CPhidgetInterfaceKit_dataInput buf len k = Inr (r, k')" and "kit_ok k"
  shows "kit_ok k'"
proof -
  define k1 where "k1 = (if ik_attached k \<and> dataSinceAttach k < 100 then k\<lparr> dataSinceAttach := dataSinceAttach k + 1 \<rparr> else k)"
  have "kit_ok k1" using assms(2) by (simp add: k1_def)
  with assms read_packet_ok read_packet_length show ?thesis
    unfolding CPhidgetInterfaceKit_dataInput_def Let_def k1_def [symmetric]
    by (fastforce simp: cbind_def intro: take_packet_ok split: if_splits sum.splits option.splits)
qed

end
