(* ===== verification/IfkitOutputs.thy ===== *)
theory IfkitOutputs
  imports IfkitProps
begin

text \<open>
  Properties of the interface kit as a program drives it: queued outputs reach the device,
  readings stay in their ranges, data rates fit the packets.
\<close>

section \<open>Outputs\<close>

text \<open>What an output is meant to be: the queued change, or the state; unknown counts as off.\<close>

definition wanted :: "ifkit \<Rightarrow> nat \<Rightarrow> int" where
  "wanted k i =
     (let v = (if changedOutputs k ! i \<noteq> 0 then nextOutputStates k ! i else outputStates k ! i) in
      if v = PUNK_BOOL then 0 else v)"

text \<open>What changes in a kit when outputs are queued and sent.\<close>

definition same_kit :: "ifkit \<Rightarrow> ifkit \<Rightarrow> bool" where
  "same_kit k k' \<longleftrightarrow> dev k' = dev k \<and> interruptRate k' = interruptRate k \<and> dataRate k' = dataRate k"

lemma settle_fold:
  assumes "kit_ok k" and "n \<le> 32"
  shows "kit_ok (fold settle_output [0..<n] k) \<and> same_kit k (fold settle_output [0..<n] k)
    \<and> ratiometric (fold settle_output [0..<n] k) = ratiometric k
    \<and> lastChangedOutput (fold settle_output [0..<n] k) = lastChangedOutput k
    \<and> (\<forall>i < 32. outputStates (fold settle_output [0..<n] k) ! i = (if i < n then wanted k i else outputStates k ! i)
            \<and> changedOutputs (fold settle_output [0..<n] k) ! i = (if i < n then 0 else changedOutputs k ! i)
            \<and> (n \<le> i \<longrightarrow> nextOutputStates (fold settle_output [0..<n] k) ! i = nextOutputStates k ! i))"
  using assms(2)
proof (induction n)
  case 0
  then show ?case using assms(1) by (simp add: same_kit_def)
next
  case (Suc n)
  define k' where "k' = fold settle_output [0..<n] k"
  have s: "fold settle_output [0..<Suc n] k = settle_output n k'" by (simp add: k'_def)
  have ok: "kit_ok k'" and same: "same_kit k k'" "ratiometric k' = ratiometric k" "lastChangedOutput k' = lastChangedOutput k"
    and at: "\<forall>i < 32. outputStates k' ! i = (if i < n then wanted k i else outputStates k ! i)
            \<and> changedOutputs k' ! i = (if i < n then 0 else changedOutputs k ! i)
            \<and> (n \<le> i \<longrightarrow> nextOutputStates k' ! i = nextOutputStates k ! i)"
    using Suc unfolding k'_def by simp_all
  have len: "length (outputStates k') = 32" "length (changedOutputs k') = 32" "length (nextOutputStates k') = 32"
      "length (outputEchoStates k') = 32"
    and three: "three (outputStates k')" "three (nextOutputStates k')" "three (outputEchoStates k')"
    using ok by (simp_all add: kit_ok_def kit_shape_def)
  have u: "three xs \<Longrightarrow> length xs = 32 \<Longrightarrow> three ys \<Longrightarrow> three (ys[n := xs ! n])" for xs ys
    using three_nth [of xs n] Suc.prems by simp
  have "kit_ok (settle_output n k')"
    using ok u [OF three(1) len(1)] u [OF three(2) len(3)] len three Suc.prems
    by (simp add: settle_output_def Let_def kit_ok_def kit_shape_def numSensors_def numInputs_def numOutputs_def)
  moreover have "same_kit k (settle_output n k')" "ratiometric (settle_output n k') = ratiometric k"
      "lastChangedOutput (settle_output n k') = lastChangedOutput k"
    using same by (simp_all add: settle_output_def Let_def same_kit_def)
  moreover have "outputStates (settle_output n k') ! i = (if i < Suc n then wanted k i else outputStates k ! i)
      \<and> changedOutputs (settle_output n k') ! i = (if i < Suc n then 0 else changedOutputs k ! i)
      \<and> (Suc n \<le> i \<longrightarrow> nextOutputStates (settle_output n k') ! i = nextOutputStates k ! i)" if "i < 32" for i
  proof (cases "i = n")
    case True
    with at that Suc.prems len show ?thesis by (simp add: settle_output_def Let_def wanted_def)
  next
    case False
    with at that len show ?thesis by (simp add: settle_output_def Let_def less_Suc_eq)
  qed
  ultimately show ?case unfolding s by blast
qed

lemma bit_byte_of: "i < 8 \<Longrightarrow> bit (byte_of bs) i \<longleftrightarrow> i < length bs \<and> bs ! i"
proof (induction bs arbitrary: i)
  case (Cons b bs)
  then show ?case by (cases i) (simp_all add: bit_simps even_bit_succ_iff bit_double_iff)
qed simp

text \<open>The boards whose packets have the outputs in the first byte.\<close>

definition output_board :: "phidget \<Rightarrow> bool" where
  "output_board p \<longleftrightarrow>
     deviceIDSpec p \<in> {PHIDID_INTERFACEKIT_0_0_4, PHIDID_INTERFACEKIT_0_0_8, PHIDID_INTERFACEKIT_0_5_7,
       PHIDID_INTERFACEKIT_0_8_8_w_LCD}
     \<or> deviceIDSpec p \<in> {PHIDID_INTERFACEKIT_8_8_8, PHIDID_INTERFACEKIT_8_8_8_w_LCD, PHIDID_INTERFACEKIT_2_2_2}
       \<and> (old_888 p \<or> fast_888 p)"

lemma buffer_with_first:
  assumes "\<forall>w \<in> set ((0, b) # ws). fst w < n" and "\<forall>w \<in> set ws. 0 < fst w"
  shows "\<exists>buf. buffer_with n ((0, b) # ws) = Inr buf \<and> length buf = n \<and> buf ! 0 = b"
proof -
  have "length (fold (\<lambda>(i, b) buf. buf[i := b]) ws buf) = length buf
      \<and> fold (\<lambda>(i, b) buf. buf[i := b]) ws buf ! 0 = buf ! 0" for buf :: "8 word list"
    using assms(2) by (induction ws arbitrary: buf) auto
  then show ?thesis using assms(1) by (auto simp: buffer_with_def)
qed

lemma kit_ok_ratio [simp]: "numOutputs (k\<lparr> ratiometric := r \<rparr>) = numOutputs k" "numSensors (k\<lparr> ratiometric := r \<rparr>) = numSensors k"
  "output_bits (k\<lparr> ratiometric := r \<rparr>) js = output_bits k js"
  by (simp_all add: numOutputs_def numSensors_def output_bits_def)

lemma rate_bytes_index: "w \<in> set (rate_bytes k) \<Longrightarrow> 0 < fst w \<and> fst w \<le> (numSensors k + 1) div 2"
  by (auto simp: rate_bytes_def)

lemma make_packet_outputs:
  assumes "output_board (dev k)" and "numSensors k \<le> 8" and "numOutputs k \<le> 8" and "8 \<le> n"
  shows "\<exists>buf k' js. make_packet n k = Inr (Some buf, k') \<and> length buf = n \<and> buf ! 0 = output_bits k js
           \<and> (\<exists>r. k' = k\<lparr> ratiometric := r \<rparr>) \<and> (js = [0..<8] \<or> js = [0..<numOutputs k])"
proof -
  let ?P = "\<lambda>k0 ws js. make_packet n k = cbind (buffer_with n ((0, output_bits k js) # ws)) (\<lambda>b. Inr (Some b, k0))"
  have main: ?thesis if h1: "?P (k\<lparr> ratiometric := r \<rparr>) ws js" and h2: "\<forall>w \<in> set ws. fst w < n \<and> 0 < fst w"
      and h3: "js = [0..<8] \<or> js = [0..<numOutputs k]" for r ws js
  proof -
    obtain buf where "buffer_with n ((0, output_bits k js) # ws) = Inr buf" "length buf = n" "buf ! 0 = output_bits k js"
      using buffer_with_first [of "output_bits k js" ws n] h2 assms(4) by auto
    moreover from this h1 have "make_packet n k = Inr (Some buf, k\<lparr> ratiometric := r \<rparr>)" by simp
    ultimately show ?thesis using h3 by blast
  qed
  have self: "k\<lparr> ratiometric := ratiometric k \<rparr> = k" by simp
  show ?thesis
  proof (cases "deviceIDSpec (dev k) \<in> {PHIDID_INTERFACEKIT_0_0_4, PHIDID_INTERFACEKIT_0_0_8}")
    case True
    then have "make_packet n k = cbind (buffer_with n [(0, output_bits k [0..<numOutputs k])]) (\<lambda>b. Inr (Some b, k))"
      unfolding make_packet_def Let_def by (elim insertE emptyE) simp_all
    then show ?thesis by (intro main [where ws = "[]" and js = "[0..<numOutputs k]" and r = "ratiometric k", unfolded self]) simp_all
  next
    case not1: False
    show ?thesis
    proof (cases "deviceIDSpec (dev k) \<in> {PHIDID_INTERFACEKIT_0_5_7, PHIDID_INTERFACEKIT_0_8_8_w_LCD}")
      case True
      then have "make_packet n k = cbind (buffer_with n [(0, output_bits k [0..<8]), (7, 0x10)]) (\<lambda>b. Inr (Some b, k))"
        unfolding make_packet_def Let_def by (elim insertE emptyE) simp_all
      then show ?thesis
        using assms(4)
        by (intro main [where ws = "[(7, 0x10)]" and js = "[0..<8]" and r = "ratiometric k", unfolded self]) simp_all
    next
      case not2: False
      define r where "r = (if ratiometric k = PUNK_BOOL then 1 else ratiometric k)"
      define k1 where "k1 = k\<lparr> ratiometric := r \<rparr>"
      have r: "(if ratiometric k = PUNK_BOOL then k\<lparr> ratiometric := 1 \<rparr> else k) = k1" by (simp add: k1_def r_def)
      have bits: "output_bits k1 js = output_bits k js" "numSensors k1 = numSensors k" "numOutputs k1 = numOutputs k"
          "dev k1 = dev k" for js
        by (simp_all add: k1_def)
      have d: "deviceIDSpec (dev k) \<in> {PHIDID_INTERFACEKIT_8_8_8, PHIDID_INTERFACEKIT_8_8_8_w_LCD, PHIDID_INTERFACEKIT_2_2_2}"
        and v: "old_888 (dev k) \<or> fast_888 (dev k)"
        using assms(1) not1 not2 unfolding output_board_def by blast+
      have m: "make_packet n k =
          (if old_888 (dev k1) then cbind (buffer_with n [(0, output_bits k1 [0..<8]), (3, word_of_int (ratiometric k1))]) (\<lambda>b. Inr (Some b, k1))
           else if fast_888 (dev k1)
           then cbind (buffer_with n ((0, output_bits k1 [0..<numOutputs k1]) # rate_bytes k1
                     @ [(numSensors k1 div 2 + 1, word_of_int (ratiometric k1))])) (\<lambda>b. Inr (Some b, k1))
           else cbind (buffer_with n []) (\<lambda>b. Inr (Some b, k1)))"
      proof -
        have e: "(deviceIDSpec (dev k) = PHIDID_INTERFACEKIT_4_8_8) = False" "(deviceIDSpec (dev k) = PHIDID_INTERFACEKIT_0_16_16) = False"
          using d by auto
        have d': "(deviceIDSpec (dev k) \<in> {PHIDID_INTERFACEKIT_8_8_8, PHIDID_INTERFACEKIT_8_8_8_w_LCD, PHIDID_INTERFACEKIT_2_2_2}) = True"
          using d by simp
        show ?thesis unfolding make_packet_def Let_def r e d' if_False if_True ..
      qed
      show ?thesis
      proof (cases "old_888 (dev k)")
        case True
        show ?thesis
          by (rule main [where ws = "[(3, word_of_int (ratiometric k1))]" and js = "[0..<8]" and r = r, folded k1_def])
            (use True assms(4) in \<open>auto simp: m bits\<close>)
      next
        case False
        have "fst w < n \<and> 0 < fst w" if "w \<in> set (rate_bytes k1 @ [(numSensors k1 div 2 + 1, x)])" for w and x :: "8 word"
        proof -
          have "(numSensors k + 1) div 2 < 8" "numSensors k div 2 + 1 < 8" using assms(2) by linarith+
          moreover have "w \<in> set (rate_bytes k1) \<or> fst w = numSensors k div 2 + 1" using that by (auto simp: bits)
          ultimately show ?thesis using rate_bytes_index [of w k1] assms(4) bits by fastforce
        qed
        then show ?thesis
          by (intro main [where ws = "rate_bytes k1 @ [(numSensors k1 div 2 + 1, word_of_int (ratiometric k1))]"
                and js = "[0..<numOutputs k]" and r = r, folded k1_def])
            (use False v in \<open>simp_all add: m bits\<close>)
      qed
    qed
  qed
qed

lemma getPacket_outputs:
  assumes "kit_ok k" and "output_board (dev k)" and "numOutputs k \<le> 8" and "outputReportByteLength (dev k) \<le> n" and "8 \<le> n"
  shows "\<exists>buf k'. CPhidgetInterfaceKit_getPacket n k = Inr (EPHIDGET_OK, buf, k') \<and> length buf = n \<and> kit_ok k'
           \<and> (\<forall>i < numOutputs k. (bit (buf ! 0) i \<longleftrightarrow> wanted k i \<noteq> 0) \<and> changedOutputs k' ! i = 0 \<and> wanted k' i = wanted k i)"
proof -
  let ?k = "fold settle_output [0..<numOutputs k] k"
  have n32: "numOutputs k \<le> 32" using assms(3) by simp
  note s = settle_fold [OF assms(1) n32]
  have d: "dev ?k = dev k" "numSensors ?k = numSensors k" "numOutputs ?k = numOutputs k"
    using s by (simp_all add: same_kit_def numSensors_def numOutputs_def)
  obtain buf k' js r where m: "make_packet n ?k = Inr (Some buf, k')" "length buf = n" "buf ! 0 = output_bits ?k js"
      "k' = ?k\<lparr> ratiometric := r \<rparr>" "js = [0..<8] \<or> js = [0..<numOutputs k]"
    using make_packet_outputs [of ?k n] assms(2,3,5) numSensors_small [OF assms(1)] unfolding d by blast
  have "bit (buf ! 0) i \<longleftrightarrow> wanted k i \<noteq> 0" if "i < numOutputs k" for i
  proof -
    have "i < length js \<and> js ! i = i" using m(5) that assms(3) by auto
    then have "bit (buf ! 0) i \<longleftrightarrow> outputStates ?k ! i \<noteq> 0"
      unfolding m(3) output_bits_def using that assms(3) by (subst bit_byte_of) auto
    with s that assms(3) show ?thesis by simp
  qed
  moreover have "wanted k' i = wanted k i" if "i < numOutputs k" for i
  proof -
    have "outputStates ?k ! i = wanted k i" "changedOutputs ?k ! i = 0" using s that assms(3) by simp_all
    moreover have "wanted k i \<noteq> PUNK_BOOL" by (simp add: wanted_def Let_def)
    ultimately show ?thesis by (simp add: m(4) wanted_def [of "?k\<lparr> ratiometric := r \<rparr>"] Let_def)
  qed
  ultimately show ?thesis
    using m(1,2,4) s assms(3,4) by (auto simp: CPhidgetInterfaceKit_getPacket_def)
qed


text \<open>The two boards with another packet: outputs in two bytes, and one output at a time.\<close>

lemma make_packet_16:
  "deviceIDSpec (dev k) = PHIDID_INTERFACEKIT_0_16_16 \<Longrightarrow> 2 \<le> n \<Longrightarrow>
   \<exists>buf. make_packet n k = Inr (Some buf, k) \<and> buf ! 0 = output_bits k [0..<8] \<and> buf ! 1 = output_bits k [8..<16]"
  by (auto simp: make_packet_def buffer_with_def Let_def)

definition code_488 :: "nat \<Rightarrow> bool \<Rightarrow> 8 word" where
  "code_488 i on = [0x00, 0x01, 0x02, 0x03, 0x07, 0x06, 0x05, 0x04] ! i OR (if on then 0x08 else 0)"

lemma make_packet_488:
  "deviceIDSpec (dev k) = PHIDID_INTERFACEKIT_4_8_8 \<Longrightarrow> 1 \<le> n \<Longrightarrow> lastChangedOutput k = int i \<Longrightarrow> i < 8 \<Longrightarrow>
   \<exists>buf. make_packet n k = Inr (Some buf, k) \<and> buf ! 0 = code_488 i (outputStates k ! i \<noteq> 0)"
  by (auto simp: make_packet_def buffer_with_def code_488_def Let_def)

lemma bit_output_bits: "i < 8 \<Longrightarrow> a + i < b \<Longrightarrow> bit (output_bits k [a..<b]) i \<longleftrightarrow> outputStates k ! (a + i) \<noteq> 0"
  unfolding output_bits_def by (subst bit_byte_of) (auto simp: nth_upt)

lemma getPacket_16:
  assumes "kit_ok k" and "deviceIDSpec (dev k) = PHIDID_INTERFACEKIT_0_16_16" and "numOutputs k \<le> 16"
    and "outputReportByteLength (dev k) \<le> n" and "2 \<le> n"
  shows "\<exists>buf k'. CPhidgetInterfaceKit_getPacket n k = Inr (EPHIDGET_OK, buf, k')
           \<and> (\<forall>i < numOutputs k. (bit (buf ! (i div 8)) (i mod 8) \<longleftrightarrow> wanted k i \<noteq> 0) \<and> changedOutputs k' ! i = 0)"
proof -
  let ?k = "fold settle_output [0..<numOutputs k] k"
  have n32: "numOutputs k \<le> 32" using assms(3) by simp
  note s = settle_fold [OF assms(1) n32]
  have d: "dev ?k = dev k" using s by (simp add: same_kit_def)
  obtain buf where m: "make_packet n ?k = Inr (Some buf, ?k)" "buf ! 0 = output_bits ?k [0..<8]" "buf ! 1 = output_bits ?k [8..<16]"
    using make_packet_16 [of ?k n] assms(2,5) unfolding d by blast
  have "bit (buf ! (i div 8)) (i mod 8) \<longleftrightarrow> wanted k i \<noteq> 0" if "i < numOutputs k" for i
  proof -
    have st: "outputStates ?k ! i = wanted k i" using s that n32 by simp
    show ?thesis
    proof (cases "i < 8")
      case True
      with st m(2) bit_output_bits [of i 0 8] show ?thesis by simp
    next
      case False
      then have "i div 8 = 1" "i mod 8 = i - 8" "i - 8 < 8" using that assms(3) by (simp_all add: le_div_geq le_mod_geq)
      with st m(3) False bit_output_bits [of "i - 8" 8 16] that assms(3) show ?thesis by simp
    qed
  qed
  then show ?thesis
    using m(1) s n32 assms(4) by (auto simp: CPhidgetInterfaceKit_getPacket_def)
qed

lemma getPacket_488:
  assumes "kit_ok k" and "deviceIDSpec (dev k) = PHIDID_INTERFACEKIT_4_8_8" and "numOutputs k \<le> 8"
    and "outputReportByteLength (dev k) \<le> n" and "1 \<le> n" and "lastChangedOutput k = int i" and "i < numOutputs k"
  shows "\<exists>buf k'. CPhidgetInterfaceKit_getPacket n k = Inr (EPHIDGET_OK, buf, k')
           \<and> buf ! 0 = code_488 i (wanted k i \<noteq> 0) \<and> (\<forall>j < numOutputs k. changedOutputs k' ! j = 0)"
proof -
  let ?k = "fold settle_output [0..<numOutputs k] k"
  have n32: "numOutputs k \<le> 32" using assms(3) by simp
  note s = settle_fold [OF assms(1) n32]
  have d: "dev ?k = dev k" "lastChangedOutput ?k = int i" using s assms(6) by (simp_all add: same_kit_def)
  obtain buf where "make_packet n ?k = Inr (Some buf, ?k)" "buf ! 0 = code_488 i (outputStates ?k ! i \<noteq> 0)"
    using make_packet_488 [of ?k n i] assms(2,3,5,7) d by auto
  then show ?thesis
    using s n32 assms(4,7) by (auto simp: CPhidgetInterfaceKit_getPacket_def)
qed

text \<open>Queueing an output that no other change is in the way of.\<close>

lemma queue_output_wanted:
  assumes "kit_ok k" and "i < 32" and "v \<in> {0, 1}" and "queue_output [] i v k = (EPHIDGET_OK, k')"
  shows "kit_ok k' \<and> dev k' = dev k \<and> (\<forall>j < 32. wanted k' j = (if j = i then v else wanted k j))"
proof -
  have len: "length (outputStates k) = 32" "length (changedOutputs k) = 32" "length (nextOutputStates k) = 32"
      "length (outputEchoStates k) = 32" "three (nextOutputStates k)" "three (outputEchoStates k)"
    using assms(1) by (simp_all add: kit_ok_def kit_shape_def)
  note q = assms(4) [unfolded queue_output.simps [of "[]"]]
  show ?thesis
  proof (cases "changedOutputs k ! i = 0 \<and> outputStates k ! i \<noteq> v")
    case False
    from q False have "k' = k" "if changedOutputs k ! i \<noteq> 0 then nextOutputStates k ! i = v else outputStates k ! i = v"
      by (simp_all split: if_splits)
    moreover from this(2) have "wanted k i = v" using assms(3) by (auto simp: wanted_def Let_def split: if_splits)
    ultimately show ?thesis using assms(1) by simp
  next
    case True
    define k1 where "k1 = k\<lparr> changedOutputs := (changedOutputs k)[i := 1], nextOutputStates := (nextOutputStates k)[i := v] \<rparr>"
    have w: "wanted k1 j = (if j = i then v else wanted k j)" if "j < 32" for j
      using that assms(2,3) len by (auto simp: wanted_def k1_def Let_def)
    have ok: "kit_ok k1"
      using assms(1,3) by (auto simp: k1_def kit_ok_def kit_shape_def numSensors_def numInputs_def numOutputs_def)
    have echo: "kit_ok (k1\<lparr> outputEchoStates := (outputEchoStates k1)[i := v mod 256] \<rparr>)"
      using ok assms(3) by (auto simp: kit_ok_def kit_shape_def numSensors_def numInputs_def numOutputs_def)
    have "k' = k1 \<or> k' = fire fptrOutputChange (OutputChange i v) (k1\<lparr> outputEchoStates := (outputEchoStates k1)[i := v mod 256] \<rparr>)"
      using q True by (simp add: k1_def [symmetric] Let_def split: if_splits)
    moreover have "dev k1 = dev k" by (simp add: k1_def)
    ultimately show ?thesis
    proof (elim disjE)
      assume "k' = k1" and "dev k1 = dev k"
      with ok w show ?thesis by simp
    next
      assume k': "k' = fire fptrOutputChange (OutputChange i v) (k1\<lparr> outputEchoStates := (outputEchoStates k1)[i := v mod 256] \<rparr>)"
        and "dev k1 = dev k"
      moreover have "wanted k' j = wanted k1 j" for j by (simp add: k' fire_def wanted_def Let_def)
      ultimately show ?thesis using echo w by (simp add: fire_def)
    qed
  qed
qed

text \<open>A program that sets outputs one by one; \<open>None\<close> when a call is refused.\<close>

primrec set_outputs :: "(int \<times> int) list \<Rightarrow> ifkit \<Rightarrow> ifkit option" where
  "set_outputs [] k = Some k"
| "set_outputs (c # cs) k =
     (case CPhidgetInterfaceKit_setOutputState [] (Some k) (fst c) (snd c) [] of (r, k', rs) \<Rightarrow>
        if r = EPHIDGET_OK then Option.bind k' (set_outputs cs) else None)"

lemma set_output_wanted:
  assumes "kit_ok k" and "\<not> remote_kit k" and "CPhidgetInterfaceKit_setOutputState [] (Some k) i v rs = (EPHIDGET_OK, Some k', rs')"
  shows "kit_ok k' \<and> dev k' = dev k \<and> 0 \<le> i \<and> i < int (numOutputs k)
    \<and> (\<forall>j < 32. wanted k' j = ((wanted k)(nat i := v)) j)"
proof -
  let ?k = "k\<lparr> lastChangedOutput := int (nat i) \<rparr>"
  have c: "0 \<le> v" "v \<le> 1" "0 \<le> i" "i < int (numOutputs k)" "queue_output [] (nat i) v ?k = (EPHIDGET_OK, k')"
    using assms(2,3)
    by (auto simp: CPhidgetInterfaceKit_setOutputState_def ik_set_def CPhidgetInterfaceKit_sendpacket_def Let_def
        split: if_splits prod.splits)
  have "numOutputs k \<le> 32" using assms(1) by (simp add: kit_ok_def kit_shape_def)
  moreover have "v \<in> {0, 1}" using c(1,2) by auto
  ultimately show ?thesis
    using queue_output_wanted [of ?k "nat i" v k'] c(3-5) assms(1) by (simp add: wanted_def)
qed

lemma set_outputs_wanted:
  assumes "kit_ok k" and "\<not> remote_kit k" and "set_outputs cs k = Some k'"
  shows "kit_ok k' \<and> dev k' = dev k \<and> (\<forall>j < 32. wanted k' j = fold (\<lambda>(i, v) w. w(nat i := v)) cs (wanted k) j)"
  using assms
proof (induction cs arbitrary: k)
  case (Cons c cs)
  obtain i v where c: "c = (i, v)" by force
  with Cons.prems(3) obtain k1 rs where s: "CPhidgetInterfaceKit_setOutputState [] (Some k) i v [] = (EPHIDGET_OK, Some k1, rs)"
      and k': "set_outputs cs k1 = Some k'"
    by (auto split: prod.splits if_splits simp: bind_eq_Some_conv)
  note w = set_output_wanted [OF Cons.prems(1,2) s]
  have eq: "fold (\<lambda>(i, v) w. w(nat i := v)) ds f j = fold (\<lambda>(i, v) w. w(nat i := v)) ds g j"
    if "f j = g j" for ds :: "(int \<times> int) list" and f g :: "nat \<Rightarrow> int" and j
    using that
  proof (induction ds arbitrary: f g)
    case (Cons d ds)
    obtain i v where d: "d = (i, v)" by force
    show ?case unfolding d fold_simps prod.case o_apply by (rule Cons.IH) (use Cons.prems in simp)
  qed simp
  have r: "\<not> remote_kit k1" using w Cons.prems(2) by (simp add: remote_kit_def)
  have "kit_ok k1" using w by simp
  note ih = Cons.IH [OF this r k']
  have "wanted k' j = fold (\<lambda>(i, v) w. w(nat i := v)) (c # cs) (wanted k) j" if "j < 32" for j
  proof -
    have "wanted k' j = fold (\<lambda>(i, v) w. w(nat i := v)) cs (wanted k1) j" using ih that by blast
    also have "\<dots> = fold (\<lambda>(i, v) w. w(nat i := v)) cs ((wanted k)(nat i := v)) j" by (rule eq) (use w that in blast)
    finally show ?thesis by (simp add: c)
  qed
  moreover have "kit_ok k'" "dev k' = dev k" using ih w by simp_all
  ultimately show ?case by blast
qed simp

text \<open>Every accepted setting is remembered as the last one, a setting that changes nothing too.\<close>

lemma queue_output_last: "queue_output [] i v k = (r, k') \<Longrightarrow> lastChangedOutput k' = lastChangedOutput k"
  unfolding queue_output.simps [of "[]"] by (auto simp: Let_def fire_def split: if_splits)

lemma set_outputs_last:
  assumes "kit_ok k" and "\<not> remote_kit k" and "set_outputs cs k = Some k'" and "cs \<noteq> []"
  shows "lastChangedOutput k' = fst (last cs) \<and> 0 \<le> fst (last cs) \<and> fst (last cs) < int (numOutputs k)"
  using assms
proof (induction cs arbitrary: k)
  case (Cons c cs)
  obtain i v where c: "c = (i, v)" by force
  with Cons.prems(3) obtain k1 rs where s: "CPhidgetInterfaceKit_setOutputState [] (Some k) i v [] = (EPHIDGET_OK, Some k1, rs)"
      and k': "set_outputs cs k1 = Some k'"
    by (auto split: prod.splits if_splits simp: bind_eq_Some_conv)
  note w = set_output_wanted [OF Cons.prems(1,2) s]
  have r: "\<not> remote_kit k1" "numOutputs k1 = numOutputs k" using w Cons.prems(2) by (simp_all add: remote_kit_def numOutputs_def)
  show ?case
  proof (cases cs)
    case Nil
    from s Cons.prems(2) have "queue_output [] (nat i) v (k\<lparr> lastChangedOutput := int (nat i) \<rparr>) = (EPHIDGET_OK, k1)"
      by (auto simp: CPhidgetInterfaceKit_setOutputState_def ik_set_def CPhidgetInterfaceKit_sendpacket_def Let_def
          split: if_splits prod.splits)
    then show ?thesis using k' w Nil by (simp add: c queue_output_last)
  next
    case (Cons d ds)
    then show ?thesis using Cons.IH [of k1] w r k' by simp
  qed
qed simp

text \<open>
  C27: on a local kit, after any sequence of accepted output settings, whatever changes were
  pending before, the next packet built for the device leaves no change pending. On the
  boards whose packets carry all outputs (at most 8 in the first byte, or the 16 of the
  0/16/16 in two bytes) it has at every output the value last asked for. The packet of the
  4/8/8 board carries one output only: the one set last; settings of other outputs that were
  still pending are cleared without having been sent.\<close>

theorem outputs_reach_device:
  assumes "kit_ok k" and "\<not> remote_kit k"
    and "outputReportByteLength (dev k) \<le> n" and "8 \<le> n" and "set_outputs cs k = Some k1"
    and "output_board (dev k) \<and> numOutputs k \<le> 8
       \<or> deviceIDSpec (dev k) = PHIDID_INTERFACEKIT_0_16_16 \<and> numOutputs k \<le> 16
       \<or> deviceIDSpec (dev k) = PHIDID_INTERFACEKIT_4_8_8 \<and> numOutputs k \<le> 8 \<and> cs \<noteq> []"
  defines "asked \<equiv> fold (\<lambda>(j, v) w. w(nat j := v)) cs (wanted k)"
  shows "\<exists>buf k2. CPhidgetInterfaceKit_getPacket n k1 = Inr (EPHIDGET_OK, buf, k2)
           \<and> (\<forall>i < numOutputs k. changedOutputs k2 ! i = 0)
           \<and> (if deviceIDSpec (dev k) = PHIDID_INTERFACEKIT_4_8_8
              then buf ! 0 = code_488 (nat (fst (last cs))) (asked (nat (fst (last cs))) \<noteq> 0)
              else \<forall>i < numOutputs k. bit (buf ! (i div 8)) (i mod 8) \<longleftrightarrow> asked i \<noteq> 0)"
proof -
  note w = set_outputs_wanted [OF assms(1,2,5)]
  have k1: "kit_ok k1" "dev k1 = dev k" "numOutputs k1 = numOutputs k" using w by (simp_all add: numOutputs_def)
  have a: "wanted k1 j = asked j" if "j < 32" for j using w that by (simp add: asked_def)
  show ?thesis
    using assms(6)
  proof (elim disjE conjE)
    assume b: "output_board (dev k)" "numOutputs k \<le> 8"
    then have "deviceIDSpec (dev k) \<noteq> PHIDID_INTERFACEKIT_4_8_8" by (auto simp: output_board_def)
    then show ?thesis using getPacket_outputs [of k1 n] b k1 a assms(3,4) by auto
  next
    assume b: "deviceIDSpec (dev k) = PHIDID_INTERFACEKIT_0_16_16" "numOutputs k \<le> 16"
    then show ?thesis using getPacket_16 [of k1 n] k1 a assms(3,4) by auto
  next
    assume b: "deviceIDSpec (dev k) = PHIDID_INTERFACEKIT_4_8_8" "numOutputs k \<le> 8" "cs \<noteq> []"
    note l = set_outputs_last [OF assms(1,2,5) b(3)]
    then have "nat (fst (last cs)) < numOutputs k" by (simp add: nat_less_iff)
    then show ?thesis
      using getPacket_488 [of k1 n "nat (fst (last cs))"] l b k1 a [of "nat (fst (last cs))"] assms(3,4) by auto
  qed
qed

lemma sample_kit_ok: "kit_ok sample_kit"
  using sample_kit_sizes by (simp add: kit_ok_def kit_shape_def three_def upto_or_def) (simp add: sample_kit_def)

lemma sample_flags [simp]:
  "CPhidget_statusFlagIsSet PHIDGET_ATTACHED_FLAG PHIDGET_ATTACHED_FLAG"
  "\<not> CPhidget_statusFlagIsSet PHIDGET_ATTACHED_FLAG PHIDGET_REMOTE_FLAG"
  by (simp_all add: CPhidget_statusFlagIsSet_def PHIDGET_ATTACHED_FLAG_def PHIDGET_REMOTE_FLAG_def)

lemma sample_set_outputs: "set_outputs [(3, 1), (5, 1)] sample_kit \<noteq> None"
  by (simp add: CPhidgetInterfaceKit_setOutputState_def ik_set_def ik_checks_def ik_attached_def remote_kit_def
      sample_kit_sizes CPhidgetInterfaceKit_sendpacket_def queue_output.simps Let_def fire_def numOutputs_def)
    (simp add: sample_kit_def)

theorem outputs_reach_device_witness:
  "\<exists>k1 buf k2. set_outputs [(3, 1), (5, 1)] sample_kit = Some k1 \<and>
     CPhidgetInterfaceKit_getPacket 8 k1 = Inr (EPHIDGET_OK, buf, k2) \<and> bit (buf ! 0) 5 \<and> \<not> bit (buf ! 0) 4"
proof -
  obtain k1 where k1: "set_outputs [(3, 1), (5, 1)] sample_kit = Some k1" using sample_set_outputs by blast
  have b: "\<not> remote_kit sample_kit" "outputReportByteLength (dev sample_kit) \<le> 8" "wanted sample_kit 4 = 0"
      "output_board (dev sample_kit)" "deviceIDSpec (dev sample_kit) \<noteq> PHIDID_INTERFACEKIT_4_8_8"
    by (simp_all add: remote_kit_def output_board_def fast_888_def old_888_def sample_kit_def wanted_def)
  have n: "numOutputs sample_kit = 8" using sample_kit_sizes by simp
  obtain buf k2 where "CPhidgetInterfaceKit_getPacket 8 k1 = Inr (EPHIDGET_OK, buf, k2)"
      "\<forall>i < 8. bit (buf ! (i div 8)) (i mod 8) \<longleftrightarrow> fold (\<lambda>(j, v) w. w(nat j := v)) [(3, 1), (5, 1)] (wanted sample_kit) i \<noteq> 0"
    using outputs_reach_device [OF sample_kit_ok b(1,2) _ k1] b n by auto
  from this(1) this(2) [rule_format, of 5] this(2) [rule_format, of 4] k1 b(3) show ?thesis by auto
qed

section \<open>Data rates\<close>

lemma doubles_to_iff:
  assumes "1 \<le> t"
  shows "doubles_to t v = Some (\<exists>n. v = t * 2 ^ n)"
  using assms
proof (induction "nat (v - t)" arbitrary: t rule: less_induct)
  case less
  show ?case
  proof (cases "t < v")
    case True
    have "(\<exists>n. v = t * 2 ^ n) \<longleftrightarrow> (\<exists>n. v = 2 * t * 2 ^ n)"
    proof
      assume "\<exists>n. v = t * 2 ^ n"
      then obtain n where n: "v = t * 2 ^ n" ..
      with True have "n \<noteq> 0" by (cases n) auto
      then obtain m where "n = Suc m" by (cases n) auto
      with n have "v = 2 * t * 2 ^ m" by simp
      then show "\<exists>n. v = 2 * t * 2 ^ n" ..
    next
      assume "\<exists>n. v = 2 * t * 2 ^ n"
      then obtain n where "v = 2 * t * 2 ^ n" ..
      then have "v = t * 2 ^ Suc n" by simp
      then show "\<exists>n. v = t * 2 ^ n" ..
    qed
    moreover have "doubles_to (2 * t) v = Some (\<exists>n. v = 2 * t * 2 ^ n)"
      using less.hyps [of "2 * t"] less.prems True by simp
    ultimately show ?thesis using True by (simp add: doubles_to.simps [of t])
  next
    case False
    have "v = t \<longleftrightarrow> (\<exists>n. v = t * 2 ^ n)"
    proof
      assume "v = t"
      then have "v = t * 2 ^ 0" by simp
      then show "\<exists>n. v = t * 2 ^ n" ..
    next
      assume "\<exists>n. v = t * 2 ^ n"
      then obtain n :: nat where n: "v = t * 2 ^ n" ..
      have "(1::int) \<le> 2 ^ n" by simp
      then have "t * 1 \<le> v" unfolding n using less.prems by (intro mult_left_mono) auto
      with False show "v = t" by simp
    qed
    with False show ?thesis by (auto simp: doubles_to.simps [of t])
  qed
qed

text \<open>The rates a board can be set to: its power-of-two fractions of the interrupt rate, and the multiples of that rate.\<close>

definition rate_fits :: "ifkit \<Rightarrow> int \<Rightarrow> bool" where
  "rate_fits k v \<longleftrightarrow>
     dataRateMax k \<le> v \<and> v \<le> dataRateMin k
     \<and> (if v < interruptRate k then \<exists>n. v = dataRateMax k * 2 ^ n else v mod interruptRate k = 0)"

definition packet_load :: "ifkit \<Rightarrow> int" where
  "packet_load k = sum_list (map (\<lambda>r. interruptRate k div r) (take (numSensors k) (dataRate k)))"

text \<open>
  The limits a kit can have: those of a board with rates, or, on a local kit with a version
  the library does not list, zeros.\<close>

definition limits_ok :: "ifkit \<Rightarrow> bool" where
  "limits_ok k \<longleftrightarrow> 0 \<le> dataRateMax k \<and> (dataRateMax k = 0 \<longrightarrow> interruptRate k = 0)"

lemma init_version_limits: "limits_ok k \<Longrightarrow> limits_ok (init_version k)"
  by (simp add: limits_ok_def init_version_def fast_rates_def slow_rates_def Let_def)

lemma rate_good_cases:
  assumes "limits_ok k" and "dataRateMax k \<le> v"
  shows "rate_good k v =
    (if interruptRate k = 0 then Some (Inl Divide_By_Zero)
     else Some (Inr (if v < interruptRate k then \<exists>n. v = dataRateMax k * 2 ^ n else v mod interruptRate k = 0)))"
  using assms by (cases "dataRateMax k = 0") (simp_all add: limits_ok_def rate_good_def doubles_to_iff)

text \<open>Setting a rate of its own, for the rates the board has.\<close>

definition rate_asked :: "ifkit \<Rightarrow> int \<Rightarrow> int \<Rightarrow> bool" where
  "rate_asked k i v \<longleftrightarrow>
     ik_checks k = EPHIDGET_OK \<and> rate_support (dev k) = EPHIDGET_OK \<and> 0 \<le> i \<and> i < int (numSensors k)
     \<and> dataRateMax k \<le> v \<and> v \<le> dataRateMin k"

lemma rate_not_asked:
  "\<not> rate_asked k i v \<Longrightarrow>
   \<exists>r. r \<noteq> EPHIDGET_OK \<and> CPhidgetInterfaceKit_setDataRate (Some k) i v rs = Some (Inr (r, Some k, rs))"
  by (auto simp: CPhidgetInterfaceKit_setDataRate_def rate_asked_def Let_def)

lemma rate_zero_at:
  assumes "0 \<le> i" and "i < int (numSensors k)" and "numSensors k \<le> length (dataRate k)" and "v \<noteq> 0"
  shows "0 \<in> set ((take (numSensors k) (dataRate k))[nat i := v]) \<longleftrightarrow>
    (\<exists>j < numSensors k. j \<noteq> nat i \<and> dataRate k ! j = 0)"
proof -
  have n: "length (take (numSensors k) (dataRate k)) = numSensors k" using assms(3) by simp
  show ?thesis
  proof
    assume "0 \<in> set ((take (numSensors k) (dataRate k))[nat i := v])"
    then obtain j where j: "j < numSensors k" "(take (numSensors k) (dataRate k))[nat i := v] ! j = 0"
      using n by (auto simp: in_set_conv_nth)
    then have "j \<noteq> nat i" using n assms(4) by (metis nth_list_update_eq)
    with j show "\<exists>j < numSensors k. j \<noteq> nat i \<and> dataRate k ! j = 0" by (intro exI [of _ j]) simp
  next
    assume "\<exists>j < numSensors k. j \<noteq> nat i \<and> dataRate k ! j = 0"
    then obtain j where "j < numSensors k" "j \<noteq> nat i" "dataRate k ! j = 0" by blast
    then have "(take (numSensors k) (dataRate k))[nat i := v] ! j = 0" by simp
    with \<open>j < numSensors k\<close> n show "0 \<in> set ((take (numSensors k) (dataRate k))[nat i := v])"
      by (metis length_list_update nth_mem)
  qed
qed

lemma rate_asked_result:
  assumes "limits_ok k" and "rate_asked k i v"
  shows "CPhidgetInterfaceKit_setDataRate (Some k) i v rs =
     (if interruptRate k = 0 then Some (Inl Divide_By_Zero)
      else if \<not> rate_fits k v then Some (Inr (EPHIDGET_INVALIDARG, Some k, rs))
      else obind (Some (data_per_packet k (nat i) v)) (\<lambda>n.
            if n > maxDataPerPacket k then Some (Inr (EPHIDGET_INVALIDARG, Some k, rs))
            else
              let set_rate = (\<lambda>k. k\<lparr> dataRate := (dataRate k)[nat i := v] \<rparr>) in
              if remote_kit k
              then let (r, k', rs') = add_network_key (indexed ''DataRate'' (nat i)) v set_rate (k, rs)
                   in Some (Inr (r, Some k', rs'))
              else Some (Inr (EPHIDGET_OK,
                Some ((set_rate k)\<lparr> eventMode := (eventMode k)[nat i := EVENTMODE_DATARATE],
                   sensorRawValueAccumulator := (sensorRawValueAccumulator k)[nat i := 0],
                   sensorRawValueAccumulatorCount := (sensorRawValueAccumulatorCount k)[nat i := 0] \<rparr>), rs))))"
proof -
  have v: "dataRateMax k \<le> v" "v \<le> dataRateMin k" using assms(2) by (simp_all add: rate_asked_def)
  show ?thesis
    using assms(2) unfolding CPhidgetInterfaceKit_setDataRate_def option.case Let_def rate_good_cases [OF assms(1) v(1)]
    by (simp add: rate_asked_def rate_fits_def)
qed

text \<open>
  C30: what setting the data rate of a sensor does, for a kit whose limits are those of its
  board. It divides by zero exactly when the request passes the checks and the interrupt rate
  of the kit is 0, or the rate fits and another of its sensors has the rate 0; in every other
  case it returns. When it accepts, the rate is the one asked for, it is one the board can
  run at, and all sensors together still fit into one packet; when it refuses, nothing has
  changed, but for a remote kit that is not connected.\<close>

theorem setDataRate_fits:
  assumes "limits_ok k" and "numSensors k \<le> length (dataRate k)"
  shows "if rate_asked k i v
            \<and> (interruptRate k = 0 \<or> rate_fits k v \<and> (\<exists>j < numSensors k. j \<noteq> nat i \<and> dataRate k ! j = 0))
         then CPhidgetInterfaceKit_setDataRate (Some k) i v rs = Some (Inl Divide_By_Zero)
         else \<exists>r k' rs'. CPhidgetInterfaceKit_setDataRate (Some k) i v rs = Some (Inr (r, Some k', rs'))
           \<and> (if r = EPHIDGET_OK
              then dataRate k' = (dataRate k)[nat i := v] \<and> 0 \<le> i \<and> i < int (numSensors k) \<and> rate_fits k v
                \<and> packet_load k' \<le> maxDataPerPacket k'
              else k' = k \<or> r = EPHIDGET_NETWORK_NOTCONNECTED)"
proof (cases "rate_asked k i v \<and> interruptRate k \<noteq> 0 \<and> rate_fits k v")
  case False
  show ?thesis
  proof (cases "rate_asked k i v")
    case True
    with False show ?thesis by (auto simp: rate_asked_result [OF assms(1)])
  next
    case False
    with rate_not_asked [OF this, of rs] show ?thesis by auto
  qed
next
  case True
  let ?rates = "(take (numSensors k) (dataRate k))[nat i := v]"
  have i: "0 \<le> i" "i < int (numSensors k)" "nat i < numSensors k" "v \<noteq> 0"
    using True assms(1) by (auto simp: rate_asked_def limits_ok_def)
  have load: "packet_load k' = sum_list (map (\<lambda>r. interruptRate k div r) ?rates)"
    if "dataRate k' = (dataRate k)[nat i := v]" "dev k' = dev k" "interruptRate k' = interruptRate k" for k'
    using that i by (simp add: packet_load_def numSensors_def take_update_swap)
  note zero = rate_zero_at [OF i(1,2) assms(2) i(4)]
  show ?thesis
  proof (cases "0 \<in> set ?rates")
    case z: True
    then show ?thesis using True zero by (simp add: rate_asked_result [OF assms(1)] data_per_packet_def)
  next
    case nz: False
    then have "\<not> (\<exists>j < numSensors k. j \<noteq> nat i \<and> dataRate k ! j = 0)" using zero by simp
    moreover have "data_per_packet k (nat i) v = Inr (sum_list (map (\<lambda>r. interruptRate k div r) ?rates))"
      using nz by (simp add: data_per_packet_def)
    ultimately show ?thesis
      using True i load by (auto simp: rate_asked_result [OF assms(1)] add_network_key_def Let_def)
  qed
qed

text \<open>No sensor is in data rate mode while the interrupt rate is 0.\<close>

lemma rate_mode_divides:
  "rate_board (dev k) \<Longrightarrow> interruptRate (init_version k) = 8"
  "limits_ok k \<Longrightarrow> CPhidgetInterfaceKit_setDataRate (Some k) i v rs = Some (Inr (EPHIDGET_OK, k', rs')) \<Longrightarrow> interruptRate k \<noteq> 0"
proof -
  show "rate_board (dev k) \<Longrightarrow> interruptRate (init_version k) = 8"
    by (auto simp: rate_board_def init_version_def fast_rates_def Let_def)
  show "limits_ok k \<Longrightarrow> CPhidgetInterfaceKit_setDataRate (Some k) i v rs = Some (Inr (EPHIDGET_OK, k', rs')) \<Longrightarrow> interruptRate k \<noteq> 0"
    using rate_not_asked [of k i v rs] by (cases "rate_asked k i v") (auto simp: rate_asked_result)
qed

lemma sample_rates:
  "ik_checks sample_kit = EPHIDGET_OK" "rate_support (dev sample_kit) = EPHIDGET_OK" "\<not> remote_kit sample_kit"
  "dataRateMax sample_kit = 1" "dataRateMin sample_kit = 1000" "interruptRate sample_kit = 8" "maxDataPerPacket sample_kit = 36"
  "dataRate sample_kit = replicate 8 8"
  by (simp_all add: ik_checks_def ik_attached_def rate_support_def remote_kit_def) (simp_all add: sample_kit_def)

lemma sample_rate_set: "\<exists>k' rs'. CPhidgetInterfaceKit_setDataRate (Some sample_kit) 2 4 [] = Some (Inr (EPHIDGET_OK, Some k', rs'))"
proof -
  have "data_per_packet sample_kit 2 4 = Inr 9" by (simp add: data_per_packet_def sample_kit_sizes sample_rates numeral_eq_Suc)
  moreover have "doubles_to 1 4 = Some True"
    by (simp add: doubles_to.simps [of 1] doubles_to.simps [of 2] doubles_to.simps [of 4])
  ultimately show ?thesis by (simp add: CPhidgetInterfaceKit_setDataRate_def rate_good_def sample_rates sample_kit_sizes Let_def)
qed

theorem setDataRate_fits_witness:
  "\<exists>k' rs'. CPhidgetInterfaceKit_setDataRate (Some sample_kit) 2 4 [] = Some (Inr (EPHIDGET_OK, Some k', rs'))
     \<and> dataRate k' = (dataRate sample_kit)[2 := 4] \<and> packet_load k' \<le> maxDataPerPacket k'"
proof -
  have "limits_ok sample_kit" "numSensors sample_kit \<le> length (dataRate sample_kit)"
    using sample_kit_sizes by (simp_all add: limits_ok_def sample_rates)
  from setDataRate_fits [OF this, of 2 4 "[]"] sample_rate_set show ?thesis by (auto split: if_splits)
qed

section \<open>Readings\<close>

text \<open>
  A program and the threads of the library at work on one kit: packets received and sent,
  settings, readings. The state is \<open>None\<close> after a call that does not return.
\<close>

datatype ik_call =
    Receive "8 word list" int | Transmit nat
  | Set_Output int int | Set_Trigger int int | Set_Ratiometric int | Set_Rate int int
  | Read_Sensor int | Read_Raw int | Read_Input int | Read_Output int

definition call_run :: "ik_call \<Rightarrow> ifkit \<Rightarrow> ifkit run \<times> ecode \<times> int option" where
  "call_run c k =
     (let call = (\<lambda>(r, k', rs). (Some (Inr (the k')), r, None)); reading = (\<lambda>r. (Some (Inr k), r)) in
      case c of
        Receive buf len \<Rightarrow>
          (case CPhidgetInterfaceKit_dataInput buf len k of
             Inl e \<Rightarrow> (Some (Inl e), EPHIDGET_UNEXPECTED, None) | Inr (r, k') \<Rightarrow> (Some (Inr k'), r, None))
      | Transmit n \<Rightarrow>
          (case CPhidgetInterfaceKit_getPacket n k of
             Inl e \<Rightarrow> (Some (Inl e), EPHIDGET_UNEXPECTED, None) | Inr (r, buf, k') \<Rightarrow> (Some (Inr k'), r, None))
      | Set_Output i v \<Rightarrow> call (CPhidgetInterfaceKit_setOutputState [] (Some k) i v [])
      | Set_Trigger i v \<Rightarrow> call (CPhidgetInterfaceKit_setSensorChangeTrigger (Some k) i v [])
      | Set_Ratiometric v \<Rightarrow> call (CPhidgetInterfaceKit_setRatiometric (Some k) v [])
      | Set_Rate i v \<Rightarrow>
          (case CPhidgetInterfaceKit_setDataRate (Some k) i v [] of
             Some (Inr res) \<Rightarrow> call res
           | Some (Inl e) \<Rightarrow> (Some (Inl e), EPHIDGET_UNEXPECTED, None)
           | None \<Rightarrow> (None, EPHIDGET_UNEXPECTED, None))
      | Read_Sensor i \<Rightarrow> reading (CPhidgetInterfaceKit_getSensorValue (Some k) i True)
      | Read_Raw i \<Rightarrow> reading (CPhidgetInterfaceKit_getSensorRawValue (Some k) i True)
      | Read_Input i \<Rightarrow> reading (CPhidgetInterfaceKit_getInputState (Some k) i True)
      | Read_Output i \<Rightarrow> reading (CPhidgetInterfaceKit_getOutputState (Some k) i True))"

definition kit_step :: "ifkit run \<Rightarrow> ik_call \<Rightarrow> ifkit run \<times> ik_call \<times> ecode \<times> int option" where
  "kit_step s c =
     (case s of Some (Inr k) \<Rightarrow> (case call_run c k of (s', r) \<Rightarrow> (s', c, r))
      | _ \<Rightarrow> (s, c, EPHIDGET_UNEXPECTED, None))"

definition run_kit_ok :: "ifkit run \<Rightarrow> bool" where
  "run_kit_ok s \<longleftrightarrow> (case s of Some (Inr k) \<Rightarrow> kit_ok k | _ \<Rightarrow> True)"

lemma run_kit_ok_simps [simp]:
  "run_kit_ok None" "run_kit_ok (Some (Inl e))" "run_kit_ok (Some (Inr k)) = kit_ok k"
  by (simp_all add: run_kit_ok_def)

lemma kit_ok_next: "kit_ok k \<Longrightarrow> v \<in> {0, 1} \<Longrightarrow> kit_ok (k\<lparr> nextOutputStates := (nextOutputStates k)[i := v] \<rparr>)"
  by (auto simp: kit_ok_def kit_shape_def numSensors_def numInputs_def numOutputs_def)

lemma make_packet_ok:
  assumes "make_packet n k = Inr (b, k')" and "kit_ok k"
  shows "kit_ok k'"
proof -
  have "k' = k \<or> k' = k\<lparr> ratiometric := 1 \<rparr>"
    using assms(1) unfolding make_packet_def Let_def
    by (auto simp: cbind_def split: if_splits sum.splits)
  with assms(2) show ?thesis by auto
qed

lemma getPacket_ok:
  assumes "CPhidgetInterfaceKit_getPacket n k = Inr (r, b, k')" and "kit_ok k"
  shows "kit_ok k'"
proof -
  have "numOutputs k \<le> 32" using assms(2) by (simp add: kit_ok_def kit_shape_def)
  then have "kit_ok (fold settle_output [0..<numOutputs k] k)" using settle_fold assms(2) by blast
  with assms show ?thesis
    by (auto simp: CPhidgetInterfaceKit_getPacket_def cbind_def dest: make_packet_ok split: if_splits sum.splits option.splits)
qed

lemma queue_output_ok:
  assumes "kit_ok k" and "i < 32" and "v \<in> {0, 1}"
  shows "kit_ok (snd (queue_output [] i v k))"
proof (cases "fst (queue_output [] i v k) = EPHIDGET_OK")
  case True
  with queue_output_wanted [OF assms, of "snd (queue_output [] i v k)"] show ?thesis by (simp add: prod_eq_iff)
next
  case False
  then have "snd (queue_output [] i v k) = k" unfolding queue_output.simps [of "[]"] by (auto simp: Let_def)
  with assms(1) show ?thesis by simp
qed

lemma ik_set_ok:
  assumes "\<And>r k' rs'. ik_checks k = EPHIDGET_OK \<Longrightarrow> f k = (r, k', rs') \<Longrightarrow> kit_ok k'" and "kit_ok k"
  shows "kit_ok (the (fst (snd (ik_set (Some k) rs f))))"
  using assms by (auto simp: ik_set_def Let_def split: prod.split)

lemma network_key_ok:
  "add_network_key name v f (k, rs) = (r, k', rs') \<Longrightarrow> kit_ok (f k) \<Longrightarrow> kit_ok k'"
  by (auto simp: add_network_key_def Let_def split: if_splits)

lemma setOutputState_ok:
  assumes "kit_ok k"
  shows "kit_ok (the (fst (snd (CPhidgetInterfaceKit_setOutputState [] (Some k) i v rs))))"
  unfolding CPhidgetInterfaceKit_setOutputState_def
proof (rule ik_set_ok [OF _ assms])
  fix r k' rs'
  assume h: "(if v < 0 \<or> 1 < v then (EPHIDGET_INVALIDARG, k, rs)
     else if int (numOutputs k) \<le> i \<or> i < 0 then (EPHIDGET_OUTOFBOUNDS, k, rs)
     else if remote_kit k
     then add_network_key (indexed ''Output'' (nat i)) v (\<lambda>k. k\<lparr> nextOutputStates := (nextOutputStates k)[nat i := v] \<rparr>) (k, rs)
     else let (r, k') = CPhidgetInterfaceKit_sendpacket [] (nat i) v k in (r, k', rs)) = (r, k', rs')"
  show "kit_ok k'"
  proof (cases "v < 0 \<or> 1 < v \<or> int (numOutputs k) \<le> i \<or> i < 0")
    case True
    with h assms show ?thesis by (auto split: if_splits)
  next
    case False
    then have v: "v \<in> {0, 1}" and i: "nat i < 32" using assms by (auto simp: kit_ok_def kit_shape_def)
    show ?thesis
    proof (cases "remote_kit k")
      case True
      with h False kit_ok_next [OF assms v] show ?thesis by (auto intro: network_key_ok)
    next
      case local: False
      with h False have "k' = snd (queue_output [] (nat i) v (k\<lparr> lastChangedOutput := int (nat i) \<rparr>))"
        by (auto simp: CPhidgetInterfaceKit_sendpacket_def split: prod.splits)
      with queue_output_ok [OF _ i v] assms show ?thesis by simp
    qed
  qed
qed

lemma setSensorChangeTrigger_ok:
  "kit_ok k \<Longrightarrow> kit_ok (the (fst (snd (CPhidgetInterfaceKit_setSensorChangeTrigger (Some k) i v rs))))"
  unfolding CPhidgetInterfaceKit_setSensorChangeTrigger_def
  by (rule ik_set_ok) (auto simp: Let_def dest: network_key_ok split: if_splits)

lemma setRatiometric_ok:
  "kit_ok k \<Longrightarrow> kit_ok (the (fst (snd (CPhidgetInterfaceKit_setRatiometric (Some k) v rs))))"
  unfolding CPhidgetInterfaceKit_setRatiometric_def
  by (rule ik_set_ok) (auto simp: Let_def dest: network_key_ok split: if_splits)

lemma setDataRate_ok:
  assumes "CPhidgetInterfaceKit_setDataRate (Some k) i v rs = Some (Inr (r, k', rs'))" and "kit_ok k"
  shows "kit_ok (the k')"
proof -
  have good: "kit_ok (k\<lparr> dataRate := xs \<rparr>)" for xs using assms(2) by simp
  show ?thesis
    using assms(1) assms(2)
    unfolding CPhidgetInterfaceKit_setDataRate_def option.case Let_def
    by (auto simp: add_network_key_def Let_def good dest!: obind_eq_InrD split: if_splits)
qed

definition good_reading :: "ik_call \<times> ecode \<times> int option \<Rightarrow> bool" where
  "good_reading x \<longleftrightarrow> (case x of (c, r, v) \<Rightarrow>
     r \<noteq> EPHIDGET_OK \<or>
     (case c of
        Read_Sensor i \<Rightarrow> \<exists>n \<in> {0..1000}. v = Some n
      | Read_Raw i \<Rightarrow> \<exists>n \<in> {0..4095}. v = Some n
      | Read_Input i \<Rightarrow> v = Some 0 \<or> v = Some 1
      | Read_Output i \<Rightarrow> v = Some 0 \<or> v = Some 1
      | _ \<Rightarrow> True))"

lemma kit_step_ok: "run_kit_ok s \<Longrightarrow> run_kit_ok (fst (kit_step s c))"
proof (cases s)
  case (Some x)
  assume a: "run_kit_ok s"
  show ?thesis
  proof (cases x)
    case (Inr k)
    with a Some have k: "kit_ok k" by simp
    note keep = setOutputState_ok [OF k] setSensorChangeTrigger_ok [OF k] setRatiometric_ok [OF k]
    have "run_kit_ok (fst (call_run c k))"
      using k keep by (cases c) (auto simp: call_run_def Let_def split_beta dest: dataInput_ok getPacket_ok setDataRate_ok
          split: sum.split option.split)
    then show ?thesis using Some Inr by (simp add: kit_step_def split_beta)
  qed (simp add: kit_step_def Some)
qed (simp add: kit_step_def)

interpretation kit: machine kit_step run_kit_ok
  by unfold_locales (rule kit_step_ok)

lemma three_reading:
  assumes "three xs" and "known_at_index PUNK_BOOL n xs i = (EPHIDGET_OK, v)" and "n \<le> length xs"
  shows "v = Some 0 \<or> v = Some 1"
  using three_nth [OF assms(1), of "nat i"] assms(2,3) by (auto simp: known_at_index_def known_def split: if_splits)

lemma upto_reading:
  assumes "upto_or m PUNK_INT xs" and "known_at_index PUNK_INT n xs i = (EPHIDGET_OK, v)" and "n \<le> length xs"
  shows "\<exists>x \<in> {0..m}. v = Some x"
proof -
  have "xs ! nat i \<in> set xs" using assms(2,3) by (auto simp: known_at_index_def split: if_splits)
  with assms show ?thesis by (auto simp: known_at_index_def known_def upto_or_def split: if_splits)
qed

lemma call_run_reading:
  assumes "kit_ok k"
  shows "good_reading (c, snd (call_run c k))"
proof -
  have s: "three (physicalState k)" "three (outputEchoStates k)" "upto_or 1000 PUNK_INT (sensorValue k)"
      "upto_or 4095 PUNK_INT (sensorRawValue k)"
      "numInputs k \<le> length (physicalState k)" "numOutputs k \<le> length (outputEchoStates k)"
      "numSensors k \<le> length (sensorValue k)" "numSensors k \<le> length (sensorRawValue k)"
    using assms by (simp_all add: kit_ok_def kit_shape_def)
  note defs = good_reading_def call_run_def ik_get_def CPhidgetInterfaceKit_getSensorValue_def
    CPhidgetInterfaceKit_getSensorRawValue_def CPhidgetInterfaceKit_getInputState_def CPhidgetInterfaceKit_getOutputState_def
  show ?thesis
  proof (cases c)
    case (Read_Sensor i)
    with upto_reading [OF s(3) _ s(7), of i] show ?thesis by (auto simp: defs split: prod.splits)
  next
    case (Read_Raw i)
    with upto_reading [OF s(4) _ s(8), of i] show ?thesis by (auto simp: defs split: prod.splits)
  next
    case (Read_Input i)
    with three_reading [OF s(1) _ s(5), of i] show ?thesis by (auto simp: defs split: prod.splits)
  next
    case (Read_Output i)
    with three_reading [OF s(2) _ s(6), of i] show ?thesis by (auto simp: defs split: prod.splits)
  qed (simp_all add: good_reading_def split: prod.splits)
qed

text \<open>
  C28: whatever packets the board sends, well formed or not, and however the program changes outputs, triggers and
  rates in between, every sensor value read with EPHIDGET_OK is between 0 and 1000, every
  raw value between 0 and 4095 and every input or output is 0 or 1.\<close>

theorem readings_in_range:
  assumes "kit_ok k"
  shows "list_all good_reading (snd (run_machine kit_step (Some (Inr k)) cs))"
  unfolding list_all_iff
proof (rule kit.run_outputs)
  show "run_kit_ok (Some (Inr k))" using assms by simp
  show "good_reading (snd (kit_step s c))" if "run_kit_ok s" for s c
  proof (cases "\<exists>k. s = Some (Inr k)")
    case True
    then obtain k where "s = Some (Inr k)" ..
    with that call_run_reading [of k c] show ?thesis by (simp add: kit_step_def split_beta)
  next
    case False
    then show ?thesis by (auto simp: kit_step_def good_reading_def split: option.split sum.split)
  qed
qed

theorem readings_in_range_witness:
  "list_all good_reading (snd (run_machine kit_step (Some (Inr sample_kit))
     [Receive [0, 0, 8, 0xF0, 0, 0, 0, 0xFF, 0xF0] 9, Read_Sensor 0, Set_Output 3 1, Transmit 8, Read_Output 3]))"
  by (rule readings_in_range [OF sample_kit_ok])

end
