(* ===== verification/HexArray.thy ===== *)
theory HexArray
  imports Codec
begin

text \<open>
  The hexadecimal forms in which \<open>utils/utils.c\<close> puts binary data into dictionary values:
  two lower case digits per byte (\<open>byteArrayToString\<close>, \<open>stringToByteArray\<close>) and five per
  word (\<open>wordArrayToString\<close>, \<open>stringToWordArray\<close>, used for infrared raw data). The
  destination arrays are lists of their real size and every store is checked against it.
\<close>

section \<open>Printing and reading digits\<close>

definition hex_digit :: "nat \<Rightarrow> char" where
  "hex_digit n = (if n < 10 then char_of (48 + n) else char_of (87 + n))"

lemma hexval_hex_digit [simp]: "n < 16 \<Longrightarrow> hexval (hex_digit n) = int n"
  by (auto simp: hexval_def hex_digit_def Let_def)

lemma hex_digit_not_nul [simp]: "n < 16 \<Longrightarrow> hex_digit n \<noteq> NUL"
proof -
  assume "n < 16"
  then have "hexval (hex_digit n) = int n" by simp
  moreover have "hexval NUL = -1" by (simp add: hexval_def)
  ultimately show ?thesis by auto
qed

text \<open>The conversion \<open>%x\<close> of a non-negative number, and its zero-padded forms.\<close>

fun hex_str :: "nat \<Rightarrow> string" where
  "hex_str n = (if n < 16 then [hex_digit n] else hex_str (n div 16) @ [hex_digit (n mod 16)])"

declare hex_str.simps [simp del]

definition hex_pad :: "nat \<Rightarrow> nat \<Rightarrow> string" where
  "hex_pad w n = (let s = hex_str n in replicate (w - length s) (CHR ''0'') @ s)"

lemma hex_digit_0: "CHR ''0'' = hex_digit 0"
proof -
  have "(of_char (CHR ''0'') :: nat) = 48" by simp
  then show ?thesis by (metis char_of_char hex_digit_def add_0_right zero_less_numeral)
qed

lemma hex_pad_2: "n < 256 \<Longrightarrow> hex_pad 2 n = [hex_digit (n div 16), hex_digit (n mod 16)]"
proof -
  assume n: "n < 256"
  then have "n div 16 < 16" by (simp add: less_mult_imp_div_less)
  then show ?thesis
    by (simp add: hex_pad_def hex_str.simps [of n] hex_str.simps [of "n div 16"] hex_digit_0
        Let_def)
qed

text \<open>
  The printing loops: \<open>sprintf\<close> of cell \<open>i\<close> at position \<open>i * w\<close>, terminator included.
\<close>

fun print_cells :: "nat \<Rightarrow> string list \<Rightarrow> nat \<Rightarrow> string \<Rightarrow> string cres" where
  "print_cells w [] i buf = Inr buf"
| "print_cells w (c # cs) i buf =
     (case write_at buf (i * w) (c @ [NUL]) of
        Inl e \<Rightarrow> Inl e | Inr buf' \<Rightarrow> print_cells w cs (i + 1) buf')"

lemma print_cells_result:
  assumes "length pre = w * i" and "w * length cs < length post" and "\<forall>c \<in> set cs. length c = w"
  shows "\<exists>rest. print_cells w cs i (pre @ post) = Inr (pre @ concat cs @ rest) \<and>
           length rest = length post - w * length cs \<and> (cs \<noteq> [] \<longrightarrow> hd rest = NUL)"
  using assms
proof (induction cs arbitrary: i pre post)
  case Nil
  then show ?case by simp
next
  case (Cons c cs)
  let ?post = "NUL # drop (Suc w) post"
  have w: "write_at (pre @ post) (i * w) (c @ [NUL]) = Inr ((pre @ c) @ ?post)"
    using Cons.prems by (simp add: write_at_def mult.commute)
  have "length (pre @ c) = w * (i + 1)" "w * length cs < length ?post" "\<forall>c \<in> set cs. length c = w"
    using Cons.prems by auto
  from Cons.IH [OF this] obtain rest where
    r: "print_cells w cs (i + 1) ((pre @ c) @ ?post) = Inr ((pre @ c) @ concat cs @ rest)"
       "length rest = length ?post - w * length cs" "cs \<noteq> [] \<longrightarrow> hd rest = NUL"
    by blast
  have "hd rest = NUL" using r(1,3) by (cases cs) auto
  with r w Cons.prems show ?case by auto
qed

text \<open>A text of cells of one width holds cell \<open>k\<close> from position \<open>w * k\<close> on.\<close>

lemma concat_cells_nth:
  assumes "k < length cs" and "\<forall>c \<in> set cs. length c = w" and "j < w"
  shows "concat cs ! (w * k + j) = cs ! k ! j"
  using assms
proof (induction cs arbitrary: k)
  case (Cons c cs)
  then show ?case by (cases k) (auto simp: nth_append)
qed simp

lemma length_concat_cells: "\<forall>c \<in> set cs. length c = w \<Longrightarrow> length (concat cs) = w * length cs"
  by (induction cs) auto

lemma print_cells_text:
  assumes "w * length cs < length buf" and "\<forall>c \<in> set cs. length c = w \<and> nul_free c" and "cs \<noteq> []"
  shows "\<exists>d. print_cells w cs 0 buf = Inr d \<and> c_str d = concat cs"
proof -
  from print_cells_result [of "[]" w 0 cs buf] assms obtain rest where
    r: "print_cells w cs 0 buf = Inr (concat cs @ rest)" "hd rest = NUL" "rest \<noteq> []"
    by fastforce
  then obtain rest' where "rest = NUL # rest'" by (cases rest) auto
  moreover have "nul_free (concat cs)"
    using assms(2) by (auto simp: nul_free_def)
  ultimately have "c_str (concat cs @ rest) = concat cs"
    by (simp add: c_str_def takeWhile_append nul_free_def)
  with r(1) show ?thesis by blast
qed

section \<open>Bytes\<close>

definition byteArrayToString :: "8 word list \<Rightarrow> string \<Rightarrow> string cres" where
  "byteArrayToString bytes buf = print_cells 2 (map (\<lambda>b. hex_pad 2 (unat b)) bytes) 0 buf"

definition put_byte :: "8 word list \<Rightarrow> nat \<Rightarrow> int \<Rightarrow> 8 word list cres" where
  "put_byte bs k v = (if k < length bs then Inr (bs[k := word_of_int v]) else Inl Out_Of_Bounds)"

text \<open>
  The scanning loop: stops at the end of the string or at a character that is no digit; the
  second digit of a pair is not tested (a terminator there counts as -1).
\<close>

function bytes_scan :: "string \<Rightarrow> nat \<Rightarrow> nat \<Rightarrow> 8 word list
    \<Rightarrow> (ecode \<times> 8 word list \<times> nat) cres" where
  "bytes_scan s len i bs =
     (if i < length s \<and> hexval (s ! i) \<noteq> -1 then
        (if i div 2 > len then Inr (EPHIDGET_INVALIDARG, bs, len)
         else case str_at s (i + 1) of Inl e \<Rightarrow> Inl e | Inr c \<Rightarrow>
           (case put_byte bs (i div 2) (hexval (s ! i) * 16 + hexval c) of
              Inl e \<Rightarrow> Inl e | Inr bs' \<Rightarrow> bytes_scan s len (i + 2) bs'))
      else Inr (EPHIDGET_OK, bs, i div 2))"
  by pat_completeness auto
termination
  by (relation "measure (\<lambda>(s, len, i, bs). length s - i)") auto

declare bytes_scan.simps [simp del]

definition stringToByteArray :: "string \<Rightarrow> 8 word list \<Rightarrow> nat
    \<Rightarrow> (ecode \<times> 8 word list \<times> nat) cres" where
  "stringToByteArray s bs len =
     (if length s > len * 2 then Inr (EPHIDGET_INVALIDARG, bs, len)
      else bytes_scan s len 0 bs)"

definition byte_text :: "8 word list \<Rightarrow> string" where
  "byte_text bs = concat (map (\<lambda>b. hex_pad 2 (unat b)) bs)"

lemma unat_byte_less [simp]: "unat (b :: 8 word) < 256"
  using unsigned_less [of b] by simp

lemma length_hex_pad_byte [simp]: "length (hex_pad 2 (unat (b :: 8 word))) = 2"
  by (simp add: hex_pad_2)

lemma length_byte_text [simp]: "length (byte_text bs) = 2 * length bs"
  by (induction bs) (simp_all add: byte_text_def)

lemma nul_free_hex_pad_byte [simp]: "nul_free (hex_pad 2 (unat (b :: 8 word)))"
  by (simp add: hex_pad_2 less_mult_imp_div_less)

lemma byteArrayToString_text:
  assumes "2 * length bs < length buf" and "bs \<noteq> []"
  shows "\<exists>d. byteArrayToString bs buf = Inr d \<and> c_str d = byte_text bs"
  using print_cells_text [of 2 "map (\<lambda>b. hex_pad 2 (unat b)) bs" buf] assms
  by (auto simp: byteArrayToString_def byte_text_def)

lemma byte_text_nth:
  assumes "k < length bs"
  shows "byte_text bs ! (2 * k) = hex_digit (unat (bs ! k) div 16)"
    and "byte_text bs ! (2 * k + 1) = hex_digit (unat (bs ! k) mod 16)"
  using concat_cells_nth [of k "map (\<lambda>b. hex_pad 2 (unat b)) bs" 2 0]
    concat_cells_nth [of k "map (\<lambda>b. hex_pad 2 (unat b)) bs" 2 1] assms
  by (simp_all add: byte_text_def hex_pad_2)

lemma bytes_scan_text:
  assumes "k \<le> length bs" and "length bs \<le> len" and "length bs \<le> length buf"
  shows "bytes_scan (byte_text bs) len (2 * k) (take k bs @ drop k buf) =
         Inr (EPHIDGET_OK, bs @ drop (length bs) buf, length bs)"
  using assms
proof (induction "length bs - k" arbitrary: k)
  case 0
  then show ?case by (simp add: bytes_scan.simps)
next
  case (Suc n)
  let ?b = "bs ! k"
  from Suc have k: "k < length bs" by linarith
  have hi: "unat ?b div 16 < 16" by (simp add: less_mult_imp_div_less)
  have "int (unat ?b div 16) * 16 + int (unat ?b mod 16) = int (unat ?b)"
    by (metis div_mult_mod_eq of_nat_add of_nat_mult of_nat_numeral)
  then have val: "word_of_int (int (unat ?b div 16) * 16 + int (unat ?b mod 16)) = ?b"
    by simp
  have upd: "(take k bs @ drop k buf)[k := ?b] = take (Suc k) bs @ drop (Suc k) buf"
    using k Suc.prems
    by (simp add: list_update_append take_Suc_conv_app_nth Cons_nth_drop_Suc [symmetric])
  have "bytes_scan (byte_text bs) len (2 * k) (take k bs @ drop k buf) =
        bytes_scan (byte_text bs) len (2 * Suc k) (take (Suc k) bs @ drop (Suc k) buf)"
    using k Suc.prems hi byte_text_nth [OF k] val upd
    by (subst bytes_scan.simps) (simp add: str_at_def put_byte_def)
  also have "\<dots> = Inr (EPHIDGET_OK, bs @ drop (length bs) buf, length bs)"
    using Suc.hyps(1) [of "Suc k"] Suc.hyps(2) Suc.prems k by simp
  finally show ?case .
qed

text \<open>
  A byte array printed by \<open>byteArrayToString\<close> into a large enough buffer is read back by
  \<open>stringToByteArray\<close> into any array with room for it: same bytes, same length, the rest of
  the destination untouched.
\<close>

theorem byte_array_roundtrip:
  assumes "bs \<noteq> []" and "2 * length bs < length buf" and "length bs \<le> length dst"
  shows "\<exists>d. byteArrayToString bs buf = Inr d \<and>
             stringToByteArray (c_str d) dst (length dst) =
               Inr (EPHIDGET_OK, bs @ drop (length bs) dst, length bs)"
proof -
  from byteArrayToString_text [OF assms(2,1)] obtain d
    where "byteArrayToString bs buf = Inr d" "c_str d = byte_text bs" by blast
  then show ?thesis
    using bytes_scan_text [of 0 bs "length dst" dst] assms(3)
    by (simp add: stringToByteArray_def)
qed

theorem byte_array_roundtrip_witness:
  "\<exists>d. byteArrayToString [0xA5, 7] (replicate 5 NUL) = Inr d \<and>
       stringToByteArray (c_str d) [0, 0, 9] 3 = Inr (EPHIDGET_OK, [0xA5, 7, 9], 2)"
  using byte_array_roundtrip [of "[0xA5, 7]" "replicate 5 NUL" "[0, 0, 9]"]
  by (simp add: numeral_3_eq_3 numeral_2_eq_2)

lemma bytes_scan_safe:
  assumes "length s \<le> 2 * len" and "length bs = len"
  shows "ok (bytes_scan s len i bs)"
  using assms
proof (induction s len i bs rule: bytes_scan.induct)
  case (1 s len i bs)
  show ?case
  proof (cases "i < length s \<and> hexval (s ! i) \<noteq> -1 \<and> \<not> i div 2 > len")
    case True
    then obtain c where c: "str_at s (i + 1) = Inr c"
      by (cases "i + 1 < length s") (auto simp: str_at_def)
    from True 1(2,3) have p: "put_byte bs (i div 2) (hexval (s ! i) * 16 + hexval c) =
        Inr (bs[i div 2 := word_of_int (hexval (s ! i) * 16 + hexval c)])"
      by (auto simp: put_byte_def)
    from True c p 1 show ?thesis by (simp add: bytes_scan.simps [of s len i])
  next
    case False
    then show ?thesis by (auto simp: bytes_scan.simps [of s len i])
  qed
qed

text \<open>
  \<open>stringToByteArray\<close> never stores outside an array of the announced length, whatever
  the string is: its length test at the start is enough.
\<close>

theorem stringToByteArray_in_bounds: "ok (stringToByteArray s bs (length bs))"
  using bytes_scan_safe [of s "length bs" bs 0] by (auto simp: stringToByteArray_def mult.commute)

section \<open>Words\<close>

definition word_digits :: "int \<Rightarrow> string" where
  "word_digits w = (if w > 0xFFFFF then ''fffff'' else hex_pad 5 (nat (w mod 2 ^ 32)))"

definition wordArrayToString :: "int list \<Rightarrow> string \<Rightarrow> string cres" where
  "wordArrayToString ws buf = print_cells 5 (map word_digits ws) 0 buf"

definition put_word :: "int list \<Rightarrow> nat \<Rightarrow> int \<Rightarrow> int list cres" where
  "put_word ws k v = (if k < length ws then Inr (ws[k := v]) else Inl Out_Of_Bounds)"

text \<open>The five digits at position \<open>i\<close>; 0xfffff stands for an unknown value.\<close>

definition word_value :: "string \<Rightarrow> nat \<Rightarrow> int cres" where
  "word_value s i =
     (case str_at s (i + 1) of Inl e \<Rightarrow> Inl e | Inr b \<Rightarrow>
     (case str_at s (i + 2) of Inl e \<Rightarrow> Inl e | Inr c \<Rightarrow>
     (case str_at s (i + 3) of Inl e \<Rightarrow> Inl e | Inr d \<Rightarrow>
     (case str_at s (i + 4) of Inl e \<Rightarrow> Inl e | Inr f \<Rightarrow>
        (let v = hexval (s ! i) * 65536 + hexval b * 4096 + hexval c * 256
                 + hexval d * 16 + hexval f
         in Inr (if v = 0xFFFFF then PUNK_INT else v))))))"

function words_scan :: "string \<Rightarrow> nat \<Rightarrow> nat \<Rightarrow> int list \<Rightarrow> (ecode \<times> int list \<times> nat) cres" where
  "words_scan s len i ws =
     (if i < length s \<and> hexval (s ! i) \<noteq> -1 then
        (if i div 5 > len then Inr (EPHIDGET_INVALIDARG, ws, len)
         else case word_value s i of Inl e \<Rightarrow> Inl e | Inr v \<Rightarrow>
           (case put_word ws (i div 5) v of
              Inl e \<Rightarrow> Inl e | Inr ws' \<Rightarrow> words_scan s len (i + 5) ws'))
      else Inr (EPHIDGET_OK, ws, i div 5))"
  by pat_completeness auto
termination
  by (relation "measure (\<lambda>(s, len, i, ws). length s - i)") auto

declare words_scan.simps [simp del]

definition stringToWordArray :: "string \<Rightarrow> int list \<Rightarrow> nat \<Rightarrow> (ecode \<times> int list \<times> nat) cres" where
  "stringToWordArray s ws len = words_scan s len 0 ws"

definition word_text :: "int list \<Rightarrow> string" where
  "word_text ws = concat (map word_digits ws)"

text \<open>What survives the text form: everything from 0xFFFFF on becomes the unknown marker.\<close>

definition clip_word :: "int \<Rightarrow> int" where
  "clip_word w = (if w \<ge> 0xFFFFF then PUNK_INT else w)"

lemma hex_pad_Suc: "0 < w \<Longrightarrow> hex_pad (Suc w) n = hex_pad w (n div 16) @ [hex_digit (n mod 16)]"
proof (cases "n < 16")
  case True
  assume "0 < w"
  then obtain v where "w = Suc v" by (cases w) auto
  with True show ?thesis
    by (simp add: hex_pad_def hex_str.simps [of n] hex_str.simps [of 0] hex_digit_0 Let_def
        replicate_append_same)
qed (simp add: hex_pad_def hex_str.simps [of n] Let_def)

lemma hex_pad_5:
  assumes "n < 1048576"
  shows "hex_pad 5 n =
    [hex_digit (n div 65536), hex_digit (n div 4096 mod 16), hex_digit (n div 256 mod 16),
     hex_digit (n div 16 mod 16), hex_digit (n mod 16)]"
proof -
  have "n div 4096 < 256" using assms by (simp add: less_mult_imp_div_less)
  then show ?thesis
    using hex_pad_Suc [of 4 n] hex_pad_Suc [of 3 "n div 16"] hex_pad_Suc [of 2 "n div 256"]
    by (simp add: hex_pad_2 div_mult2_eq [symmetric])
qed

lemma nat_mod_word: "0 \<le> w \<Longrightarrow> w \<le> 0xFFFFF \<Longrightarrow> nat (w mod 2 ^ 32) = nat w"
  by simp

lemma word_digits_cell:
  assumes "0 \<le> w"
  shows "length (word_digits w) = 5" and "nul_free (word_digits w)"
  using assms by (auto simp: word_digits_def hex_pad_5 less_mult_imp_div_less)

definition hex5 :: "string \<Rightarrow> int" where
  "hex5 t = hexval (t ! 0) * 65536 + hexval (t ! 1) * 4096 + hexval (t ! 2) * 256
            + hexval (t ! 3) * 16 + hexval (t ! 4)"

lemma digits5: "(n :: nat) = n div 65536 * 65536 + (n div 4096 mod 16) * 4096
    + (n div 256 mod 16) * 256 + (n div 16 mod 16) * 16 + n mod 16"
proof -
  have "n div 16 = n div 256 * 16 + n div 16 mod 16"
    "n div 256 = n div 4096 * 16 + n div 256 mod 16"
    "n div 4096 = n div 65536 * 16 + n div 4096 mod 16"
    using div_mult_mod_eq [of "n div 16" 16] div_mult_mod_eq [of "n div 256" 16]
      div_mult_mod_eq [of "n div 4096" 16]
    by (simp_all add: div_mult2_eq [symmetric])
  with div_mult_mod_eq [of n 16] show ?thesis by linarith
qed

lemma hex5_word_digits:
  assumes "0 \<le> w"
  shows "hex5 (word_digits w) = min w 0xFFFFF" and "0 \<le> hexval (word_digits w ! 0)"
proof -
  have "hex5 (hex_pad 5 n) = int n \<and> 0 \<le> hexval (hex_pad 5 n ! 0)" if "n < 1048576" for n
  proof -
    have "n div 65536 < 16" using that by (simp add: less_mult_imp_div_less)
    then show ?thesis
      using that digits5 [of n] by (simp add: hex5_def hex_pad_5)
  qed
  from this [of "nat w"] show "hex5 (word_digits w) = min w 0xFFFFF"
    and "0 \<le> hexval (word_digits w ! 0)"
    using assms by (auto simp: word_digits_def hex5_def hexval_def)
qed

lemma str_at_concat_cells:
  assumes "k < length cs" and "\<forall>c \<in> set cs. length c = w" and "j < w"
  shows "str_at (concat cs) (w * k + j) = Inr (cs ! k ! j)"
proof -
  have "w * k + j < w * Suc k" using assms(3) by simp
  also have "\<dots> \<le> w * length cs" using assms(1) by (intro mult_le_mono2) simp
  finally show ?thesis
    using concat_cells_nth [OF assms] length_concat_cells [OF assms(2)] by (simp add: str_at_def)
qed

lemma word_value_text:
  assumes "k < length ws" and "\<forall>w \<in> set ws. 0 \<le> w"
  shows "word_value (word_text ws) (5 * k) = Inr (clip_word (ws ! k))"
    and "hexval (word_text ws ! (5 * k)) \<noteq> -1" and "5 * k < length (word_text ws)"
proof -
  let ?cs = "map word_digits ws"
  have cells: "\<forall>c \<in> set ?cs. length c = 5" using assms(2) word_digits_cell(1) by auto
  have at: "str_at (word_text ws) (5 * k + j) = Inr (word_digits (ws ! k) ! j)" if "j < 5" for j
    using str_at_concat_cells [of k ?cs 5 j] cells assms(1) that by (simp add: word_text_def)
  have w: "0 \<le> ws ! k" using assms by simp
  have "str_at (word_text ws) (5 * k) = Inr (word_digits (ws ! k) ! 0)" using at [of 0] by simp
  moreover show len: "5 * k < length (word_text ws)"
    using length_concat_cells [OF cells] assms(1) by (simp add: word_text_def)
  ultimately have hd: "word_text ws ! (5 * k) = word_digits (ws ! k) ! 0" by (simp add: str_at_def)
  have "word_value (word_text ws) (5 * k) =
        Inr (if hex5 (word_digits (ws ! k)) = 0xFFFFF then PUNK_INT else hex5 (word_digits (ws ! k)))"
    using at [of 1] at [of 2] at [of 3] at [of 4] by (simp add: word_value_def hd hex5_def Let_def)
  then show "word_value (word_text ws) (5 * k) = Inr (clip_word (ws ! k))"
    using hex5_word_digits(1) [OF w] by (auto simp: clip_word_def min_def)
  show "hexval (word_text ws ! (5 * k)) \<noteq> -1"
    using hex5_word_digits(2) [OF w] hd by simp
qed

lemma words_scan_text:
  assumes "k \<le> length ws" and "k \<le> length buf" and "\<forall>w \<in> set ws. 0 \<le> w"
  shows "words_scan (word_text ws) (length buf) (5 * k) (map clip_word (take k ws) @ drop k buf) =
    (if length ws \<le> length buf
     then Inr (EPHIDGET_OK, map clip_word ws @ drop (length ws) buf, length ws)
     else Inl Out_Of_Bounds)"
  using assms(1,2)
proof (induction "length ws - k" arbitrary: k)
  case 0
  moreover have "length (word_text ws) = 5 * length ws"
    using length_concat_cells [of "map word_digits ws" 5] assms(3) word_digits_cell(1)
    by (simp add: word_text_def)
  ultimately show ?case by (simp add: words_scan.simps)
next
  case (Suc n)
  from Suc.hyps(2) have k: "k < length ws" by linarith
  note v = word_value_text [OF k assms(3)]
  let ?b = "map clip_word (take k ws) @ drop k buf"
  show ?case
  proof (cases "k < length buf")
    case True
    have upd: "?b[k := clip_word (ws ! k)] = map clip_word (take (Suc k) ws) @ drop (Suc k) buf"
      using k True
      by (simp add: list_update_append take_Suc_conv_app_nth Cons_nth_drop_Suc [symmetric])
    have "words_scan (word_text ws) (length buf) (5 * k) ?b =
          words_scan (word_text ws) (length buf) (5 * Suc k)
            (map clip_word (take (Suc k) ws) @ drop (Suc k) buf)"
      using k v True upd by (subst words_scan.simps) (simp add: put_word_def add.commute)
    then show ?thesis using Suc.hyps(1) [of "Suc k"] Suc.hyps(2) k True by simp
  next
    case False
    with Suc.prems have "k = length buf" by simp
    then show ?thesis
      using k v by (subst words_scan.simps) (simp add: put_word_def)
  qed
qed

text \<open>
  C12: the round trip of words. Values below 0xFFFFF come back as they were, larger ones as
  the unknown marker. The destination must have room for every word: the test in the loop of
  \<open>stringToWordArray\<close> admits one more, and with one word too many the C code stores behind
  the end of the array.
\<close>

theorem word_array_roundtrip:
  assumes "ws \<noteq> []" and "\<forall>w \<in> set ws. 0 \<le> w" and "5 * length ws < length buf"
  shows "\<exists>d. wordArrayToString ws buf = Inr d \<and>
    stringToWordArray (c_str d) dst (length dst) =
      (if length ws \<le> length dst
       then Inr (EPHIDGET_OK, map clip_word ws @ drop (length ws) dst, length ws)
       else Inl Out_Of_Bounds)"
proof -
  from print_cells_text [of 5 "map word_digits ws" buf] obtain d
    where "wordArrayToString ws buf = Inr d" "c_str d = word_text ws"
    using assms word_digits_cell by (auto simp: wordArrayToString_def word_text_def)
  then show ?thesis
    using words_scan_text [of 0 ws dst] assms(2) by (simp add: stringToWordArray_def)
qed

theorem word_array_roundtrip_witness:
  "\<exists>d. wordArrayToString [560, 9000000] (replicate 11 NUL) = Inr d \<and>
    stringToWordArray (c_str d) [0] 1 = Inl Out_Of_Bounds"
  using word_array_roundtrip [of "[560, 9000000]" "replicate 11 NUL" "[0]"] by simp

end
