(* ===== verification/CList.thy ===== *)
theory CList
  imports Prelude
begin

text \<open>
  The device and listener lists of the library (\<open>cphidgetlist.c\<close>): singly linked lists of
  element pointers. A list is the HOL list of its element addresses, in link order; the
  elements live in a heap, so that a comparison of an element that has been freed is a
  fault. \<open>None\<close> for the list argument is a NULL \<open>CListHandle *\<close>.
\<close>

section \<open>The operations\<close>

text \<open>\<open>compare_fptr(element, other)\<close> reads both objects.\<close>

definition compare_ptr :: "('e \<Rightarrow> 'e \<Rightarrow> bool) \<Rightarrow> 'e heap \<Rightarrow> addr \<Rightarrow> addr \<Rightarrow> bool cres" where
  "compare_ptr cmp h a b = cbind (deref h a) (\<lambda>x. cbind (deref h b) (\<lambda>y. Inr (cmp x y)))"

fun clist_find_loop :: "('e \<Rightarrow> 'e \<Rightarrow> bool) \<Rightarrow> 'e heap \<Rightarrow> addr \<Rightarrow> addr list \<Rightarrow> (ecode \<times> addr) cres" where
  "clist_find_loop cmp h element [] = Inr (EPHIDGET_NOTFOUND, NULL)"
| "clist_find_loop cmp h element (trav # rest) =
     cbind (compare_ptr cmp h element trav) (\<lambda>c.
       if c then Inr (EPHIDGET_OK, trav) else clist_find_loop cmp h element rest)"

definition CList_findInList :: "('e \<Rightarrow> 'e \<Rightarrow> bool) \<Rightarrow> 'e heap \<Rightarrow> addr list \<Rightarrow> addr \<Rightarrow> (ecode \<times> addr) cres" where
  "CList_findInList cmp h list element =
     (if element = NULL then Inr (EPHIDGET_INVALIDARG, NULL) else clist_find_loop cmp h element list)"

definition CList_addToList :: "memory \<Rightarrow> ('e \<Rightarrow> 'e \<Rightarrow> bool) \<Rightarrow> 'e heap \<Rightarrow> addr list option \<Rightarrow> addr
    \<Rightarrow> (ecode \<times> addr list option \<times> memory) cres" where
  "CList_addToList mem cmp h list element =
     (case list of
        None \<Rightarrow> Inr (EPHIDGET_INVALIDARG, None, mem)
      | Some xs \<Rightarrow>
          if element = NULL then Inr (EPHIDGET_INVALIDARG, Some xs, mem)
          else cbind (CList_findInList cmp h xs element) (\<lambda>r.
            case fst r of
              EPHIDGET_OK \<Rightarrow> Inr (EPHIDGET_DUPLICATE, Some xs, mem)
            | EPHIDGET_NOTFOUND \<Rightarrow>
                (case alloc mem of
                   (False, mem') \<Rightarrow> Inr (EPHIDGET_NOMEMORY, Some xs, mem')
                 | (True, mem') \<Rightarrow> Inr (EPHIDGET_OK, Some (xs @ [element]), mem'))
            | e \<Rightarrow> Inr (e, Some xs, mem)))"

text \<open>
  Unlinking one entry: its element is freed at once, except when it is the very element
  that is searched for, whose release is left to the end (\<open>freeElement\<close>).
\<close>

definition drop_element :: "bool \<Rightarrow> addr \<Rightarrow> addr \<Rightarrow> 'e heap \<Rightarrow> bool \<Rightarrow> ('e heap \<times> bool) cres" where
  "drop_element freeDevice element trav h freeElement =
     (if freeDevice \<and> trav \<noteq> NULL then
        (if trav = element then Inr (h, True)
         else cbind (release h trav) (\<lambda>h'. Inr (h', freeElement)))
      else Inr (h, freeElement))"

text \<open>The loop: a match at the head of the list ends it, a match further down does not.\<close>

fun clist_remove_loop :: "('e \<Rightarrow> 'e \<Rightarrow> bool) \<Rightarrow> bool \<Rightarrow> addr \<Rightarrow> bool \<Rightarrow> addr list \<Rightarrow> 'e heap \<Rightarrow> bool
    \<Rightarrow> (addr list \<times> 'e heap \<times> bool) cres" where
  "clist_remove_loop cmp freeDevice element at_head [] h fe = Inr ([], h, fe)"
| "clist_remove_loop cmp freeDevice element at_head (trav # rest) h fe =
     cbind (compare_ptr cmp h element trav) (\<lambda>c.
       if c then
         cbind (drop_element freeDevice element trav h fe) (\<lambda>(h', fe').
           if at_head then Inr (rest, h', fe')
           else clist_remove_loop cmp freeDevice element False rest h' fe')
       else
         cbind (clist_remove_loop cmp freeDevice element False rest h fe) (\<lambda>(xs, h', fe').
           Inr (trav # xs, h', fe')))"

definition CList_removeFromList :: "('e \<Rightarrow> 'e \<Rightarrow> bool) \<Rightarrow> bool \<Rightarrow> 'e heap \<Rightarrow> addr list option \<Rightarrow> addr
    \<Rightarrow> (ecode \<times> addr list option \<times> 'e heap) cres" where
  "CList_removeFromList cmp freeDevice h list element =
     (case list of
        None \<Rightarrow> Inr (EPHIDGET_INVALIDARG, None, h)
      | Some xs \<Rightarrow>
          if element = NULL then Inr (EPHIDGET_INVALIDARG, Some xs, h)
          else cbind (clist_remove_loop cmp freeDevice element True xs h False) (\<lambda>(ys, h', fe).
            if fe then cbind (release h' element) (\<lambda>h''. Inr (EPHIDGET_OK, Some ys, h''))
            else Inr (EPHIDGET_OK, Some ys, h')))"

fun free_elements :: "bool \<Rightarrow> addr list \<Rightarrow> 'e heap \<Rightarrow> 'e heap cres" where
  "free_elements freeDevices [] h = Inr h"
| "free_elements freeDevices (trav # rest) h =
     (if trav \<noteq> NULL \<and> freeDevices
      then cbind (release h trav) (free_elements freeDevices rest)
      else free_elements freeDevices rest h)"

definition CList_emptyList :: "bool \<Rightarrow> 'e heap \<Rightarrow> addr list option
    \<Rightarrow> (ecode \<times> addr list option \<times> 'e heap) cres" where
  "CList_emptyList freeDevices h list =
     (case list of
        None \<Rightarrow> Inr (EPHIDGET_INVALIDARG, None, h)
      | Some xs \<Rightarrow> cbind (free_elements freeDevices xs h) (\<lambda>h'. Inr (EPHIDGET_OK, Some [], h')))"

section \<open>The invariant\<close>

text \<open>
  Every element of a list is a live object, no entry is NULL or occurs twice, and no entry
  matches an earlier one.
\<close>

definition matches :: "('e \<Rightarrow> 'e \<Rightarrow> bool) \<Rightarrow> 'e heap \<Rightarrow> addr \<Rightarrow> addr \<Rightarrow> bool" where
  "matches cmp h a b \<longleftrightarrow> (\<exists>x y. h a = Some x \<and> h b = Some y \<and> cmp x y)"

definition live_list :: "'e heap \<Rightarrow> addr list \<Rightarrow> bool" where
  "live_list h xs \<longleftrightarrow> distinct xs \<and> NULL \<notin> set xs \<and> set xs \<subseteq> dom h"

definition clist_inv :: "('e \<Rightarrow> 'e \<Rightarrow> bool) \<Rightarrow> 'e heap \<Rightarrow> addr list \<Rightarrow> bool" where
  "clist_inv cmp h xs \<longleftrightarrow> live_list h xs \<and> sorted_wrt (\<lambda>a b. \<not> matches cmp h b a) xs"

lemma compare_ptr_live:
  "a \<in> dom h \<Longrightarrow> b \<in> dom h \<Longrightarrow> compare_ptr cmp h a b = Inr (matches cmp h a b)"
  by (auto simp: compare_ptr_def matches_def deref_def)

lemma clist_find_loop_first:
  assumes "element \<in> dom h" and "set xs \<subseteq> dom h"
  shows "clist_find_loop cmp h element xs =
         Inr (case find (matches cmp h element) xs of
                None \<Rightarrow> (EPHIDGET_NOTFOUND, NULL) | Some a \<Rightarrow> (EPHIDGET_OK, a))"
  using assms(2) by (induction xs) (simp_all add: compare_ptr_live assms(1))

lemma matches_frame:
  "a \<notin> S \<Longrightarrow> b \<notin> S \<Longrightarrow> matches cmp (h |` (- S)) a b = matches cmp h a b"
  by (simp add: matches_def)

lemma dom_frame: "a \<in> dom h \<Longrightarrow> a \<notin> S \<Longrightarrow> a \<in> dom (h |` (- S))"
  by simp

lemma restrict_UNIV [simp]: "h |` UNIV = h"
  by (simp add: restrict_map_def)

text \<open>What removal takes out: the head alone when it matches, else every match.\<close>

definition removed :: "('e \<Rightarrow> 'e \<Rightarrow> bool) \<Rightarrow> 'e heap \<Rightarrow> addr \<Rightarrow> addr list \<Rightarrow> addr list" where
  "removed cmp h element xs =
     (case xs of
        [] \<Rightarrow> []
      | a # as \<Rightarrow> if matches cmp h element a then [a] else filter (matches cmp h element) xs)"

lemma restrict_minus_one: "(h |` (- S))(a := None) = h |` (- insert a S)"
  by (auto simp: restrict_map_def fun_eq_iff)

text \<open>Away from the head the loop is a filter; \<open>S\<close> is what has been freed so far.\<close>

lemma clist_remove_loop_tail:
  assumes "element \<in> dom h" and "element \<notin> S" and "live_list h xs" and "S \<inter> set xs = {}"
  shows "clist_remove_loop cmp fd element False xs (h |` (- S)) fe =
         Inr (filter (\<lambda>a. \<not> matches cmp h element a) xs,
              h |` (- (S \<union> (if fd then set (filter (matches cmp h element) xs) - {element} else {}))),
              fe \<or> fd \<and> element \<in> set (filter (matches cmp h element) xs))"
  using assms(2-)
proof (induction xs arbitrary: S fe)
  case (Cons t ts)
  have t: "t \<noteq> NULL" "t \<in> dom h" "t \<notin> S" "t \<notin> set ts" and ts: "live_list h ts" "S \<inter> set ts = {}"
    using Cons.prems by (auto simp: live_list_def)
  have c: "compare_ptr cmp (h |` (- S)) element t = Inr (matches cmp h element t)"
    using assms(1) Cons.prems(1) t by (simp add: compare_ptr_live dom_frame matches_frame)
  have r: "release (h |` (- S)) t = Inr (h |` (- insert t S))"
    using t(2,3) by (auto simp: release_def Compl_insert)
  show ?case
  proof (cases "matches cmp h element t \<and> fd \<and> t \<noteq> element")
    case True
    then have "element \<notin> insert t S" "insert t S \<inter> set ts = {}"
      using Cons.prems(1) t ts by auto
    note ih = Cons.IH [OF this(1) ts(1) this(2)]
    have e: "insert t S \<union> (if fd then set (filter (matches cmp h element) ts) - {element} else {}) =
             S \<union> (if fd then set (filter (matches cmp h element) (t # ts)) - {element} else {})"
      using True by auto
    show ?thesis
      using True t(1) ih unfolding e by (simp add: c drop_element_def r)
  next
    case False
    note ih = Cons.IH [OF Cons.prems(1) ts]
    have e: "set (filter (matches cmp h element) (t # ts)) - {element} =
             set (filter (matches cmp h element) ts) - {element}" if fd
      using False that by auto
    show ?thesis
      using False t(1) ih e by (auto simp: c drop_element_def)
  qed
qed simp

lemma release_one: "t \<in> dom h \<Longrightarrow> release h t = Inr (h |` (- {t}))"
  by (auto simp: release_def restrict_map_def fun_eq_iff)

lemma clist_remove_loop_at_head:
  assumes "element \<in> dom h" and "live_list h xs"
  shows "clist_remove_loop cmp fd element True xs h False =
         Inr (filter (\<lambda>a. a \<notin> set (removed cmp h element xs)) xs,
              h |` (- (if fd then set (removed cmp h element xs) - {element} else {})),
              fd \<and> element \<in> set (removed cmp h element xs))"
proof (cases xs)
  case (Cons t ts)
  have t: "t \<noteq> NULL" "t \<in> dom h" "t \<notin> set ts" and ts: "live_list h ts"
    using assms(2) by (auto simp: Cons live_list_def)
  have keep: "filter (\<lambda>a. a \<noteq> t) ts = ts"
    using t(3) by (auto simp: filter_id_conv)
  have same: "filter (\<lambda>a. a \<notin> set (filter P ts)) ts = filter (\<lambda>a. \<not> P a) ts" for P
    by (auto intro: filter_cong)
  have skip: "filter (\<lambda>a. a \<in> set ts \<longrightarrow> \<not> matches cmp h element a) ts =
              filter (\<lambda>a. \<not> matches cmp h element a) ts"
    by (auto intro: filter_cong)
  have other: "t \<noteq> element \<Longrightarrow> insert element (- {t}) = - {t}" by auto
  show ?thesis
    using clist_remove_loop_tail [OF assms(1) _ ts, of "{}" cmp fd False] t assms(1) other
    by (auto simp: Cons compare_ptr_live drop_element_def release_one removed_def keep skip)
qed (simp add: removed_def)

section \<open>Properties\<close>

text \<open>
  Adding to a list never touches freed memory and keeps the list free of duplicates:
  an element that matches an entry is refused with DUPLICATE and the list stays as it was,
  any other element is linked at the end, unless memory runs out, which is reported and
  changes nothing.\<close>

theorem CList_addToList_spec:
  assumes "clist_inv cmp h xs" and "element \<in> dom h" and "element \<noteq> NULL"
    and "\<And>x. cmp x x"
  shows "CList_addToList mem cmp h (Some xs) element =
           Inr (if \<exists>a \<in> set xs. matches cmp h element a then (EPHIDGET_DUPLICATE, Some xs, mem)
                else if fst (alloc mem) then (EPHIDGET_OK, Some (xs @ [element]), snd (alloc mem))
                else (EPHIDGET_NOMEMORY, Some xs, snd (alloc mem)))
         \<and> ((\<exists>a \<in> set xs. matches cmp h element a) \<or> clist_inv cmp h (xs @ [element]))"
proof -
  have live: "set xs \<subseteq> dom h" using assms(1) by (simp add: clist_inv_def live_list_def)
  have f: "CList_findInList cmp h xs element =
           Inr (case find (matches cmp h element) xs of
                  None \<Rightarrow> (EPHIDGET_NOTFOUND, NULL) | Some a \<Rightarrow> (EPHIDGET_OK, a))"
    using assms(2,3) live by (simp add: CList_findInList_def clist_find_loop_first)
  have self: "matches cmp h element element"
    using assms(2,4) by (auto simp: matches_def)
  have new: "\<forall>a \<in> set xs. \<not> matches cmp h element a \<Longrightarrow> clist_inv cmp h (xs @ [element])"
    using assms(1-3) self by (auto simp: clist_inv_def live_list_def sorted_wrt_append)
  show ?thesis
  proof (cases "find (matches cmp h element) xs")
    case None
    then have n: "\<not> (\<exists>a \<in> set xs. matches cmp h element a)" and new: "clist_inv cmp h (xs @ [element])"
      using new by (auto simp: find_None_iff)
    obtain b m where "alloc mem = (b, m)" by force
    with None n new show ?thesis
      using assms(3) by (cases b) (simp_all add: CList_addToList_def f)
  next
    case (Some a)
    then have "\<exists>a \<in> set xs. matches cmp h element a"
      by (auto simp: find_Some_iff)
    then show ?thesis
      using Some assms(3) by (simp add: CList_addToList_def f)
  qed
qed

theorem CList_addToList_spec_witness:
  "clist_inv (=) [1 \<mapsto> (7::nat), 2 \<mapsto> 8] [1] \<and>
   CList_addToList [] (=) [1 \<mapsto> (7::nat), 2 \<mapsto> 8] (Some [1]) 2 = Inr (EPHIDGET_OK, Some [1, 2], [])"
proof -
  have i: "clist_inv (=) [1 \<mapsto> (7::nat), 2 \<mapsto> 8] [1]"
    by (simp add: clist_inv_def live_list_def)
  have m: "\<not> matches (=) [1 \<mapsto> (7::nat), 2 \<mapsto> 8] 2 1"
    by (simp add: matches_def)
  show ?thesis
    using CList_addToList_spec [OF i, of 2 "[]"] m i by simp
qed

lemma removed_all_matching:
  assumes "clist_inv cmp h xs" and "symp cmp" and "transp cmp"
  shows "set (removed cmp h element xs) = {a \<in> set xs. matches cmp h element a}"
proof (cases xs)
  case (Cons t ts)
  have "matches cmp h b t" if "matches cmp h element t" "matches cmp h element b" for b
    using that assms(2,3) by (auto simp: matches_def dest: sympD transpD)
  then show ?thesis using assms(1) by (auto simp: Cons removed_def clist_inv_def)
qed (simp add: removed_def)

text \<open>
  C10: removal never compares or frees a freed object, even when the element it is called
  with is itself in the list and its entries are to be freed. When the head of the list
  matches it takes out the head alone and leaves the matching entries behind it, although the
  comment on the function says that duplicates are removed as well; only when the head does
  not match it takes out every entry that matches. The others keep their order. With
  \<open>freeDevice\<close> exactly the entries taken out are freed, each once. On a list built by
  \<open>CList_addToList\<close>, with an equivalence as comparison, nothing that matches is left.\<close>

theorem CList_removeFromList_spec:
  fixes cmp :: "'e \<Rightarrow> 'e \<Rightarrow> bool"
  assumes "live_list h xs" and "element \<in> dom h" and "element \<noteq> NULL"
  defines "R \<equiv> (if xs \<noteq> [] \<and> matches cmp h element (hd xs) then {hd xs} else {a \<in> set xs. matches cmp h element a})"
  shows "CList_removeFromList cmp fd h (Some xs) element =
           Inr (EPHIDGET_OK, Some (filter (\<lambda>a. a \<notin> R) xs), h |` (- (if fd then R else {})))
         \<and> (clist_inv cmp h xs \<and> symp cmp \<and> transp cmp \<longrightarrow> R = {a \<in> set xs. matches cmp h element a})"
proof -
  have R: "R = set (removed cmp h element xs)"
    by (cases xs) (auto simp: R_def removed_def)
  have "release (h |` (- (R - {element}))) element = Inr (h |` (- insert element (R - {element})))"
    using assms(2) by (auto simp: release_def Compl_insert)
  moreover have "element \<in> R \<Longrightarrow> insert element (R - {element}) = R" by auto
  ultimately have "CList_removeFromList cmp fd h (Some xs) element =
      Inr (EPHIDGET_OK, Some (filter (\<lambda>a. a \<notin> R) xs), h |` (- (if fd then R else {})))"
    using assms(3) by (auto simp: CList_removeFromList_def clist_remove_loop_at_head [OF assms(2,1)] R)
  moreover have "R = {a \<in> set xs. matches cmp h element a}" if "clist_inv cmp h xs" "symp cmp" "transp cmp"
    using removed_all_matching [OF that] by (simp add: R)
  ultimately show ?thesis by simp
qed

theorem CList_removeFromList_spec_witness:
  "CList_removeFromList (=) True [1 \<mapsto> (7::nat), 2 \<mapsto> 8, 3 \<mapsto> 7] (Some [1, 2, 3]) 3 =
   Inr (EPHIDGET_OK, Some [2, 3], [1 \<mapsto> (7::nat), 2 \<mapsto> 8, 3 \<mapsto> 7] |` (- {1}))"
proof -
  have l: "live_list [1 \<mapsto> (7::nat), 2 \<mapsto> 8, 3 \<mapsto> 7] [1, 2, 3]" by (simp add: live_list_def)
  have m: "matches (=) [1 \<mapsto> (7::nat), 2 \<mapsto> 8, 3 \<mapsto> 7] 3 1" by (simp add: matches_def)
  show ?thesis
    using CList_removeFromList_spec [OF l, of 3 "(=)" True] m by simp
qed

text \<open>
  what the comment on \<open>CList_removeFromList\<close> promises ("this also removes duplicates")
  holds exactly when the head of the list does not match together with a later entry: the
  loop stops after removing the head. On lists built by \<open>CList_addToList\<close> with an
  equivalence as comparison nothing that matches is left.\<close>

theorem CList_removeFromList_complete:
  "(\<exists>a \<in> set xs. a \<notin> set (removed cmp h element xs) \<and> matches cmp h element a)
     = (\<exists>a b ys. xs = a # ys \<and> matches cmp h element a \<and> b \<in> set ys \<and> b \<noteq> a
          \<and> matches cmp h element b)
   \<and> (clist_inv cmp h xs \<and> symp cmp \<and> transp cmp
        \<longrightarrow> (\<forall>a \<in> set xs. a \<notin> set (removed cmp h element xs) \<longrightarrow> \<not> matches cmp h element a))"
  using removed_all_matching [of cmp h xs element] by (cases xs) (auto simp: removed_def)

theorem CList_removeFromList_complete_witness:
  "\<not> matches (=) [1 \<mapsto> (7::nat), 2 \<mapsto> 8] 2 1"
proof -
  have i: "clist_inv (=) [1 \<mapsto> (7::nat), 2 \<mapsto> 8] [1, 2]"
    by (simp add: clist_inv_def live_list_def matches_def)
  have r: "removed (=) [1 \<mapsto> (7::nat), 2 \<mapsto> 8] 2 [1, 2] = [2]"
    by (simp add: removed_def matches_def)
  have e: "symp ((=) :: nat \<Rightarrow> nat \<Rightarrow> bool)" "transp ((=) :: nat \<Rightarrow> nat \<Rightarrow> bool)"
    by (auto intro: sympI transpI)
  have "\<forall>a \<in> set [1, 2]. a \<notin> set [2] \<longrightarrow> \<not> matches (=) [1 \<mapsto> (7::nat), 2 \<mapsto> 8] 2 a"
    using CList_removeFromList_complete [of "[1, 2]" "(=)" "[1 \<mapsto> (7::nat), 2 \<mapsto> 8]" 2] i e unfolding r by blast
  then show ?thesis by simp
qed

end
