(* ===== verification/PTree.thy ===== *)
theory PTree
  imports Prelude "HOL-Library.Tree"
begin

text \<open>
  The binary search tree of the library (\<open>utils/ptree.c\<close>) on an explicit heap of nodes with
  parent pointers. A tree is the pair of the heap and the root pointer; a \<open>ptree_node **\<close>
  is a \<open>slot\<close>, the place that holds a child pointer. \<open>malloc\<close> returns the address it is
  given as an argument: 0 when memory has run out.

  The first half has the routines of the file; the second half relates a heap to a HOL tree
  (\<open>rep\<close>) and shows that the routines implement insertion, removal, search and traversal
  of the sequence of values in key order.
\<close>

section \<open>Nodes, slots and the elementary steps\<close>

record 'v ptree_node =
  pn_value :: 'v
  pn_parent :: addr
  pn_left :: addr
  pn_right :: addr

type_synonym 'v ptree = "'v ptree_node heap \<times> addr"

datatype slot = Root | Left_Of addr | Right_Of addr

datatype ptree_walk_res = PTREE_WALK_STOP | PTREE_WALK_CONTINUE

datatype ptree_order = PTREE_PREORDER | PTREE_INORDER | PTREE_POSTORDER

fun set_slot :: "slot \<Rightarrow> addr \<Rightarrow> 'v ptree \<Rightarrow> 'v ptree cres" where
  "set_slot Root a (h, root) = Inr (h, a)"
| "set_slot (Left_Of p) a (h, root) =
     cbind (upd h p (pn_left_update (\<lambda>_. a))) (\<lambda>h'. Inr (h', root))"
| "set_slot (Right_Of p) a (h, root) =
     cbind (upd h p (pn_right_update (\<lambda>_. a))) (\<lambda>h'. Inr (h', root))"

text \<open>\<open>if (x) x->pn_parent = p;\<close>\<close>

definition set_parent :: "addr \<Rightarrow> addr \<Rightarrow> 'v ptree_node heap \<Rightarrow> 'v ptree_node heap cres" where
  "set_parent x p h = (if x = NULL then Inr h else upd h x (pn_parent_update (\<lambda>_. p)))"

section \<open>Search\<close>

text \<open>
  \<open>_walk_to\<close>: \<open>cur\<close> is \<open>*nextp\<close>, \<open>pp\<close> the slot \<open>nextp\<close> points at, \<open>start\<close> is
  \<open>*startp\<close>, \<open>c\<close> the last comparison.
\<close>

partial_function (option) walk_to :: "('v \<Rightarrow> 'v \<Rightarrow> int) \<Rightarrow> 'v \<Rightarrow> 'v ptree_node heap \<Rightarrow> addr \<Rightarrow> slot \<Rightarrow> addr \<Rightarrow> int
    \<Rightarrow> (int \<times> addr \<times> slot) run" where
  "walk_to cmp v h cur pp start c =
     (if cur = NULL then Some (Inr (c, start, pp))
      else obind (Some (deref h cur)) (\<lambda>n.
        let c' = cmp v (pn_value n) in
        if c' = 0 then Some (Inr (0, cur, pp))
        else if c' < 0 then walk_to cmp v h (pn_left n) (Left_Of cur) cur c'
        else walk_to cmp v h (pn_right n) (Right_Of cur) cur c'))"

definition ptree_contains :: "('v \<Rightarrow> 'v \<Rightarrow> int) \<Rightarrow> 'v \<Rightarrow> 'v ptree \<Rightarrow> (bool \<times> 'v option) run" where
  "ptree_contains cmp v T =
     obind (walk_to cmp v (fst T) (snd T) Root (snd T) (-1)) (\<lambda>(c, p, _).
       if c = 0 then obind (Some (deref (fst T) p)) (\<lambda>n. Some (Inr (True, Some (pn_value n))))
       else Some (Inr (False, None)))"

definition ptree_replace :: "('v \<Rightarrow> 'v \<Rightarrow> int) \<Rightarrow> 'v \<Rightarrow> addr \<Rightarrow> 'v ptree
    \<Rightarrow> (bool \<times> 'v option \<times> 'v ptree) run" where
  "ptree_replace cmp v malloc T =
     obind (walk_to cmp v (fst T) (snd T) Root (snd T) (-1)) (\<lambda>(c, parentp, parentpp).
       if c = 0 then
         obind (Some (deref (fst T) parentp)) (\<lambda>n.
         obind (Some (upd (fst T) parentp (pn_value_update (\<lambda>_. v)))) (\<lambda>h'.
           Some (Inr (True, Some (pn_value n), (h', snd T)))))
       else if malloc = NULL then Some (Inr (False, None, T))
       else
         obind (Some (set_slot parentpp malloc
                  ((fst T)(malloc \<mapsto> \<lparr> pn_value = v, pn_parent = parentp, pn_left = NULL, pn_right = NULL \<rparr>),
                   snd T))) (\<lambda>T'. Some (Inr (True, None, T'))))"

section \<open>Removal\<close>

text \<open>The loop that looks for the predecessor in the left subtree.\<close>

partial_function (option) find_pred :: "'v ptree_node heap \<Rightarrow> addr \<Rightarrow> addr run" where
  "find_pred h p =
     obind (Some (deref h p)) (\<lambda>n. if pn_right n = NULL then Some (Inr p) else find_pred h (pn_right n))"

text \<open>The slot that holds \<open>pn\<close>.\<close>

definition slot_of :: "'v ptree \<Rightarrow> addr \<Rightarrow> slot cres" where
  "slot_of T pn =
     cbind (deref (fst T) pn) (\<lambda>n.
       if pn_parent n = NULL then (if pn = snd T then Inr Root else Inl Assert_Failed)
       else cbind (deref (fst T) (pn_parent n)) (\<lambda>q.
         Inr (if pn_left q = pn then Left_Of (pn_parent n) else Right_Of (pn_parent n))))"

text \<open>Taking \<open>pred\<close>, which has no right child, out of its place.\<close>

definition unlink_pred :: "addr \<Rightarrow> 'v ptree_node heap \<Rightarrow> 'v ptree_node heap cres" where
  "unlink_pred pred h =
     cbind (deref h pred) (\<lambda>n.
     cbind (deref h (pn_parent n)) (\<lambda>q.
     cbind (if pn_left q = pred then upd h (pn_parent n) (pn_left_update (\<lambda>_. pn_left n))
            else upd h (pn_parent n) (pn_right_update (\<lambda>_. pn_left n))) (\<lambda>h1.
       set_parent (pn_left n) (pn_parent n) h1)))"

text \<open>Putting \<open>pred\<close> into the place of \<open>pn\<close>.\<close>

definition move_pred :: "addr \<Rightarrow> addr \<Rightarrow> slot \<Rightarrow> 'v ptree \<Rightarrow> 'v ptree cres" where
  "move_pred pn pred pp T =
     cbind (set_slot pp pred T) (\<lambda>(h1, root).
     cbind (deref h1 pn) (\<lambda>n.
     cbind (upd h1 pred (\<lambda>m. m\<lparr> pn_parent := pn_parent n, pn_left := pn_left n, pn_right := pn_right n \<rparr>)) (\<lambda>h2.
     cbind (set_parent (pn_left n) pred h2) (\<lambda>h3.
     cbind (upd h3 (pn_right n) (pn_parent_update (\<lambda>_. pred))) (\<lambda>h4.
       Inr (h4, root))))))"

definition remove_node :: "'v ptree \<Rightarrow> addr \<Rightarrow> ('v \<times> 'v ptree) run" where
  "remove_node T pn =
     obind (Some (slot_of T pn)) (\<lambda>pp.
     obind (Some (deref (fst T) pn)) (\<lambda>n.
     obind (if pn_left n = NULL then
              Some (cbind (set_slot pp (pn_right n) T) (\<lambda>(h1, root).
                    cbind (set_parent (pn_right n) (pn_parent n) h1) (\<lambda>h2. Inr (h2, root))))
            else if pn_right n = NULL then
              Some (cbind (set_slot pp (pn_left n) T) (\<lambda>(h1, root).
                    cbind (set_parent (pn_left n) (pn_parent n) h1) (\<lambda>h2. Inr (h2, root))))
            else
              obind (find_pred (fst T) (pn_left n)) (\<lambda>pred.
              Some (cbind (unlink_pred pred (fst T)) (\<lambda>h1. move_pred pn pred pp (h1, snd T))))) (\<lambda>(h', root').
     obind (Some (deref h' pn)) (\<lambda>n'.
     obind (Some (release h' pn)) (\<lambda>h''. Some (Inr (pn_value n', (h'', root'))))))))"

definition ptree_remove :: "('v \<Rightarrow> 'v \<Rightarrow> int) \<Rightarrow> 'v \<Rightarrow> 'v ptree \<Rightarrow> (bool \<times> 'v option \<times> 'v ptree) run" where
  "ptree_remove cmp v T =
     obind (walk_to cmp v (fst T) (snd T) Root (snd T) (-1)) (\<lambda>(c, cur, _).
       if c \<noteq> 0 then Some (Inr (False, None, T))
       else obind (remove_node T cur) (\<lambda>(old, T'). Some (Inr (True, Some old, T'))))"

definition ptree_inorder_walk_remove :: "'v ptree \<Rightarrow> addr \<Rightarrow> (bool \<times> 'v option \<times> 'v ptree) run" where
  "ptree_inorder_walk_remove T pn =
     (if pn = NULL then Some (Inl Assert_Failed)
      else obind (remove_node T pn) (\<lambda>(old, T'). Some (Inr (True, Some old, T'))))"

section \<open>Traversal\<close>

partial_function (option) find_min :: "'v ptree_node heap \<Rightarrow> addr \<Rightarrow> int \<Rightarrow> (addr \<times> int) run" where
  "find_min h pn level =
     obind (Some (deref h pn)) (\<lambda>n.
       if pn_left n = NULL then Some (Inr (pn, level)) else find_min h (pn_left n) (level + 1))"

partial_function (option) climb :: "'v ptree_node heap \<Rightarrow> addr \<Rightarrow> int \<Rightarrow> (addr \<times> int) run" where
  "climb h pn level =
     obind (Some (deref h pn)) (\<lambda>n.
       if pn_parent n = NULL then Some (Inr (NULL, level - 1))
       else obind (Some (deref h (pn_parent n))) (\<lambda>q.
         if pn_right q = pn then climb h (pn_parent n) (level - 1)
         else Some (Inr (pn_parent n, level - 1))))"

definition find_succ :: "'v ptree_node heap \<Rightarrow> addr \<Rightarrow> int \<Rightarrow> (addr \<times> int) run" where
  "find_succ h pn level =
     obind (Some (deref h pn)) (\<lambda>n.
       if pn_right n \<noteq> NULL then find_min h (pn_right n) (level + 1) else climb h pn level)"

text \<open>
  The callbacks get the value, the level, the node (for \<open>ptree_inorder_walk_remove\<close>) and
  the state they share with their caller, which holds the tree: they may change it.
\<close>

type_synonym ('v, 's) visitor =
  "'v \<Rightarrow> int \<Rightarrow> addr \<Rightarrow> 'v ptree \<times> 's \<Rightarrow> (ptree_walk_res \<times> 'v ptree \<times> 's) run"

definition visit :: "('v, 's) visitor \<Rightarrow> addr \<Rightarrow> int \<Rightarrow> 'v ptree \<times> 's \<Rightarrow> (ptree_walk_res \<times> 'v ptree \<times> 's) run" where
  "visit func pn level st =
     obind (Some (deref (fst (fst st)) pn)) (\<lambda>n. func (pn_value n) level pn st)"

partial_function (option) inorder_loop ::
  "(addr \<Rightarrow> int \<Rightarrow> 'v ptree \<times> 's \<Rightarrow> (ptree_walk_res \<times> 'v ptree \<times> 's) run) \<Rightarrow> addr \<Rightarrow> int
     \<Rightarrow> 'v ptree \<times> 's \<Rightarrow> (ptree_walk_res \<times> 'v ptree \<times> 's) run" where
  "inorder_loop func pn level st =
     (if pn = NULL then Some (Inr (PTREE_WALK_CONTINUE, st))
      else obind (find_succ (fst (fst st)) pn level) (\<lambda>(next, nlevel).
           obind (func pn level st) (\<lambda>(res, st').
             if res = PTREE_WALK_STOP then Some (Inr (res, st'))
             else inorder_loop func next (if nlevel < 0 then 0 else nlevel) st')))"

partial_function (option) walk_int ::
  "(addr \<Rightarrow> int \<Rightarrow> 'v ptree \<times> 's \<Rightarrow> (ptree_walk_res \<times> 'v ptree \<times> 's) run) \<Rightarrow> ptree_order \<Rightarrow> addr \<Rightarrow> int
     \<Rightarrow> 'v ptree \<times> 's \<Rightarrow> (ptree_walk_res \<times> 'v ptree \<times> 's) run" where
  "walk_int func order pn level st =
     (if pn = NULL then Some (Inr (PTREE_WALK_CONTINUE, st))
      else if order = PTREE_INORDER then
        obind (find_min (fst (fst st)) pn level) (\<lambda>(p, l). inorder_loop func p l st)
      else
        obind (if order = PTREE_PREORDER then func pn level st
               else Some (Inr (PTREE_WALK_CONTINUE, st))) (\<lambda>(r1, st1).
        if r1 = PTREE_WALK_STOP then Some (Inr (r1, st1)) else
        obind (Some (deref (fst (fst st1)) pn)) (\<lambda>n1.
        obind (walk_int func order (pn_left n1) (level + 1) st1) (\<lambda>(r2, st2).
        if r2 = PTREE_WALK_STOP then Some (Inr (r2, st2)) else
        obind (Some (deref (fst (fst st2)) pn)) (\<lambda>n2.
        obind (walk_int func order (pn_right n2) (level + 1) st2) (\<lambda>(r3, st3).
        if r3 = PTREE_WALK_STOP then Some (Inr (r3, st3)) else
        obind (if order = PTREE_POSTORDER then func pn level st3
               else Some (Inr (PTREE_WALK_CONTINUE, st3))) (\<lambda>(r4, st4).
          Some (Inr (r4, st4)))))))))"

definition ptree_walk :: "ptree_order \<Rightarrow> ('v, 's) visitor \<Rightarrow> 'v ptree \<times> 's \<Rightarrow> (ptree_walk_res \<times> 'v ptree \<times> 's) run" where
  "ptree_walk order func st = walk_int (visit func) order (snd (fst st)) 0 st"

definition ptree_clear_func :: "addr \<Rightarrow> int \<Rightarrow> 'v ptree \<times> unit \<Rightarrow> (ptree_walk_res \<times> 'v ptree \<times> unit) run" where
  "ptree_clear_func pn level st =
     obind (Some (release (fst (fst st)) pn)) (\<lambda>h'.
       Some (Inr (PTREE_WALK_CONTINUE, ((h', snd (fst st)), ()))))"

definition ptree_clear :: "'v ptree \<Rightarrow> 'v ptree run" where
  "ptree_clear T =
     obind (walk_int ptree_clear_func PTREE_POSTORDER (snd T) 0 (T, ())) (\<lambda>(_, T', _).
       Some (Inr (fst T', NULL)))"

text \<open>The consistency checks that the file compiles in under \<open>VERIFY_TREE\<close>.\<close>

definition count_node :: "addr \<Rightarrow> int \<Rightarrow> 'v ptree \<times> nat \<Rightarrow> (ptree_walk_res \<times> 'v ptree \<times> nat) run" where
  "count_node pn level st = Some (Inr (PTREE_WALK_CONTINUE, (fst st, snd st + 1)))"

definition count_nodes :: "'v ptree \<Rightarrow> nat run" where
  "count_nodes T =
     obind (walk_int count_node PTREE_INORDER (snd T) 0 (T, 0)) (\<lambda>(_, _, n). Some (Inr n))"

definition verify_node :: "('v \<Rightarrow> 'v \<Rightarrow> int) \<Rightarrow> addr \<Rightarrow> int \<Rightarrow> 'v ptree \<times> addr \<Rightarrow> (ptree_walk_res \<times> 'v ptree \<times> addr) run" where
  "verify_node cmp pn level st =
     (let h = fst (fst st); prev = snd st in
      obind (Some (deref h pn)) (\<lambda>n.
      obind (Some (if pn_left n = NULL then Inr pn else cbind (deref h (pn_left n)) (\<lambda>l. Inr (pn_parent l)))) (\<lambda>lp.
      if lp \<noteq> pn then Some (Inr (PTREE_WALK_STOP, st)) else
      obind (Some (if pn_right n = NULL then Inr pn else cbind (deref h (pn_right n)) (\<lambda>r. Inr (pn_parent r)))) (\<lambda>rp.
      if rp \<noteq> pn then Some (Inr (PTREE_WALK_STOP, st)) else
      if prev = NULL then Some (Inr (PTREE_WALK_CONTINUE, (fst st, pn))) else
      obind (Some (deref h prev)) (\<lambda>m.
        if cmp (pn_value n) (pn_value m) \<le> 0 then Some (Inr (PTREE_WALK_STOP, st))
        else Some (Inr (PTREE_WALK_CONTINUE, (fst st, pn))))))))"

definition verify_tree :: "('v \<Rightarrow> 'v \<Rightarrow> int) \<Rightarrow> 'v ptree \<Rightarrow> bool run" where
  "verify_tree cmp T =
     obind (walk_int (verify_node cmp) PTREE_INORDER (snd T) 0 (T, NULL)) (\<lambda>(r, _, _).
       Some (Inr (r \<noteq> PTREE_WALK_STOP)))"

section \<open>Heaps that hold a tree\<close>

text \<open>
  A node of the HOL tree is the address and the value of a node of the heap. \<open>ptree_at h p t\<close>:
  the heap holds \<open>t\<close>, and the parent pointer of its root is \<open>p\<close>.
\<close>

type_synonym 'v atree = "(addr \<times> 'v) tree"

fun root_of :: "'v atree \<Rightarrow> addr" where
  "root_of Leaf = NULL"
| "root_of (Node l x r) = fst x"

abbreviation addrs :: "'v atree \<Rightarrow> addr set" where
  "addrs t \<equiv> fst ` set_tree t"

fun ptree_at :: "'v ptree_node heap \<Rightarrow> addr \<Rightarrow> 'v atree \<Rightarrow> bool" where
  "ptree_at h p Leaf \<longleftrightarrow> True"
| "ptree_at h p (Node l x r) \<longleftrightarrow>
     fst x \<noteq> NULL
     \<and> h (fst x) = Some \<lparr> pn_value = snd x, pn_parent = p, pn_left = root_of l, pn_right = root_of r \<rparr>
     \<and> ptree_at h (fst x) l \<and> ptree_at h (fst x) r"

definition distinct_tree :: "'v atree \<Rightarrow> bool" where
  "distinct_tree t \<longleftrightarrow> distinct (map fst (inorder t))"

definition rep :: "'v ptree \<Rightarrow> 'v atree \<Rightarrow> bool" where
  "rep T t \<longleftrightarrow> snd T = root_of t \<and> ptree_at (fst T) NULL t \<and> distinct_tree t"

lemma distinct_tree_simps [simp]:
  "distinct_tree Leaf"
  "distinct_tree (Node l x r) \<longleftrightarrow>
     distinct_tree l \<and> distinct_tree r \<and> fst x \<notin> addrs l \<and> fst x \<notin> addrs r \<and> addrs l \<inter> addrs r = {}"
  by (auto simp: distinct_tree_def)

lemma ptree_at_frame:
  "ptree_at h p t \<Longrightarrow> (\<And>a. a \<in> addrs t \<Longrightarrow> h' a = h a) \<Longrightarrow> ptree_at h' p t"
  by (induction t arbitrary: p) auto

lemma ptree_at_upd [simp]: "ptree_at h p t \<Longrightarrow> a \<notin> addrs t \<Longrightarrow> ptree_at (h(a := n)) p t"
  by (erule ptree_at_frame) (auto simp only: fun_upd_apply split: if_split)

lemma ptree_at_live: "ptree_at h p t \<Longrightarrow> a \<in> addrs t \<Longrightarrow> a \<noteq> NULL \<and> (\<exists>n. h a = Some n)"
proof (induction t arbitrary: p)
  case (Node l x r)
  then consider "a = fst x" | "a \<in> addrs l" | "a \<in> addrs r" by auto
  then show ?case using Node by cases auto
qed simp

lemma root_of_in: "t \<noteq> Leaf \<Longrightarrow> root_of t \<in> addrs t"
  by (cases t) auto

lemma root_of_NULL: "ptree_at h p t \<Longrightarrow> root_of t = NULL \<longleftrightarrow> t = Leaf"
  by (cases t) auto

lemma root_of_notin: "ptree_at h p t \<Longrightarrow> ptree_at h q u \<Longrightarrow> addrs t \<inter> addrs u = {} \<Longrightarrow> root_of t \<notin> addrs u"
  using root_of_in [of t] ptree_at_live [of h q u NULL] by (cases "t = Leaf") auto

lemma set_parent_tree:
  assumes "ptree_at h p t" and "distinct_tree t"
  obtains h' where "set_parent (root_of t) q h = Inr h'" and "ptree_at h' q t"
    and "\<And>a. a \<notin> addrs t \<Longrightarrow> h' a = h a"
proof (cases t)
  case Leaf
  then show ?thesis using that [of h] by (simp add: set_parent_def)
next
  case (Node l x r)
  have at: "fst x \<noteq> NULL" "ptree_at h (fst x) l" "ptree_at h (fst x) r"
    and hx: "h (fst x) = Some \<lparr> pn_value = snd x, pn_parent = p, pn_left = root_of l, pn_right = root_of r \<rparr>"
    using assms(1) by (simp_all add: Node)
  let ?h = "h(fst x \<mapsto> \<lparr> pn_value = snd x, pn_parent = q, pn_left = root_of l, pn_right = root_of r \<rparr>)"
  have "ptree_at ?h (fst x) l" "ptree_at ?h (fst x) r"
    using at assms(2) by (simp_all add: Node)
  then show ?thesis
    using that [of ?h] at(1) hx by (auto simp: Node set_parent_def upd_def)
qed

section \<open>Search finds its place\<close>

fun locate :: "('v \<Rightarrow> 'v \<Rightarrow> int) \<Rightarrow> 'v \<Rightarrow> 'v atree \<Rightarrow> slot \<Rightarrow> addr \<Rightarrow> int \<Rightarrow> int \<times> addr \<times> slot" where
  "locate cmp v Leaf pp start c = (c, start, pp)"
| "locate cmp v (Node l x r) pp start c =
     (let c' = cmp v (snd x) in
      if c' = 0 then (0, fst x, pp)
      else if c' < 0 then locate cmp v l (Left_Of (fst x)) (fst x) c'
      else locate cmp v r (Right_Of (fst x)) (fst x) c')"

lemma walk_to_locate:
  "ptree_at h p t \<Longrightarrow> walk_to cmp v h (root_of t) pp start c = Some (Inr (locate cmp v t pp start c))"
proof (induction t arbitrary: p pp start c)
  case Leaf
  then show ?case by (simp add: walk_to.simps)
next
  case (Node l x r)
  note ih = Node.IH(1) [of "fst x"] Node.IH(2) [of "fst x"]
  show ?case
    using Node.prems by (subst walk_to.simps) (auto simp: Let_def mem_simps ih)
qed

text \<open>The sequence of values in key order that a tree stands for, and the operations on it.\<close>

fun seq_find :: "('v \<Rightarrow> 'v \<Rightarrow> int) \<Rightarrow> 'v \<Rightarrow> 'v list \<Rightarrow> 'v option" where
  "seq_find cmp v [] = None"
| "seq_find cmp v (x # xs) = (if cmp v x = 0 then Some x else seq_find cmp v xs)"

fun seq_put :: "('v \<Rightarrow> 'v \<Rightarrow> int) \<Rightarrow> 'v \<Rightarrow> 'v list \<Rightarrow> 'v list" where
  "seq_put cmp v [] = [v]"
| "seq_put cmp v (x # xs) =
     (if cmp v x = 0 then v # xs else if cmp v x < 0 then v # x # xs else x # seq_put cmp v xs)"

fun seq_del :: "('v \<Rightarrow> 'v \<Rightarrow> int) \<Rightarrow> 'v \<Rightarrow> 'v list \<Rightarrow> 'v list" where
  "seq_del cmp v [] = []"
| "seq_del cmp v (x # xs) = (if cmp v x = 0 then xs else x # seq_del cmp v xs)"

definition key_sorted :: "('v \<Rightarrow> 'k :: linorder) \<Rightarrow> 'v list \<Rightarrow> bool" where
  "key_sorted key xs \<longleftrightarrow> sorted_wrt (\<lambda>x y. key x < key y) xs"

lemma key_sorted_simps [simp]:
  "key_sorted key []"
  "key_sorted key (x # xs) \<longleftrightarrow> (\<forall>y \<in> set xs. key x < key y) \<and> key_sorted key xs"
  "key_sorted key (xs @ ys) \<longleftrightarrow>
     key_sorted key xs \<and> key_sorted key ys \<and> (\<forall>x \<in> set xs. \<forall>y \<in> set ys. key x < key y)"
  by (simp_all add: key_sorted_def sorted_wrt_append)

section \<open>Removal on trees\<close>

fun max_of :: "'x tree \<Rightarrow> 'x" where
  "max_of Leaf = undefined"
| "max_of (Node l x r) = (if r = Leaf then x else max_of r)"

fun without_max :: "'x tree \<Rightarrow> 'x tree" where
  "without_max Leaf = Leaf"
| "without_max (Node l x r) = (if r = Leaf then l else Node l x (without_max r))"

definition join :: "'x tree \<Rightarrow> 'x tree \<Rightarrow> 'x tree" where
  "join l r = (if l = Leaf then r else if r = Leaf then l else Node (without_max l) (max_of l) r)"

fun del_at :: "addr \<Rightarrow> 'v atree \<Rightarrow> 'v atree" where
  "del_at p Leaf = Leaf"
| "del_at p (Node l x r) =
     (if fst x = p then join l r
      else if p \<in> addrs l then Node (del_at p l) x r
      else Node l x (del_at p r))"

lemma inorder_without_max: "t \<noteq> Leaf \<Longrightarrow> inorder (without_max t) @ [max_of t] = inorder t"
  by (induction t) auto

lemma max_of_in: "t \<noteq> Leaf \<Longrightarrow> fst (max_of t) \<in> addrs t"
  by (induction t) auto

lemma addrs_inorder: "addrs t = set (map fst (inorder t))"
  by simp

lemma inorder_join: "inorder (join l r) = inorder l @ inorder r"
  using inorder_without_max [of l] by (auto simp: join_def)

lemma without_max_distinct:
  assumes "t \<noteq> Leaf" and "distinct_tree t"
  shows "distinct_tree (without_max t)" and "fst (max_of t) \<notin> addrs (without_max t)"
    and "addrs t = insert (fst (max_of t)) (addrs (without_max t))"
proof -
  have e: "map fst (inorder t) = map fst (inorder (without_max t)) @ [fst (max_of t)]"
    by (simp flip: inorder_without_max [OF assms(1)])
  show "distinct_tree (without_max t)" "fst (max_of t) \<notin> addrs (without_max t)"
    using assms(2) unfolding distinct_tree_def e addrs_inorder by simp_all
  show "addrs t = insert (fst (max_of t)) (addrs (without_max t))"
    unfolding addrs_inorder e by simp
qed

lemma filter_other: "p \<notin> addrs u \<Longrightarrow> filter (\<lambda>x. fst x \<noteq> p) (inorder u) = inorder u"
  by (force simp: filter_id_conv)

lemma inorder_del_at:
  "distinct_tree t \<Longrightarrow> inorder (del_at p t) = filter (\<lambda>x. fst x \<noteq> p) (inorder t)"
proof (induction t)
  case (Node l x r)
  consider "fst x = p" | "fst x \<noteq> p" "p \<in> addrs l" | "fst x \<noteq> p" "p \<notin> addrs l" by blast
  then show ?case
  proof cases
    case 1
    with Node.prems show ?thesis by (simp add: inorder_join filter_other)
  next
    case 2
    with Node.prems have "p \<notin> addrs r" by auto
    with Node 2 show ?thesis by (simp add: filter_other)
  next
    case 3
    with Node show ?thesis by (simp add: filter_other)
  qed
qed simp

lemma distinct_del_at: "distinct_tree t \<Longrightarrow> distinct_tree (del_at p t)"
  by (simp add: distinct_tree_def inorder_del_at [unfolded distinct_tree_def] distinct_map_filter)

lemma addrs_del_at: "distinct_tree t \<Longrightarrow> addrs (del_at p t) = addrs t - {p}"
  by (force simp: inorder_del_at simp flip: set_inorder)

section \<open>Removal on heaps\<close>

lemma find_pred_max:
  "ptree_at h q t \<Longrightarrow> t \<noteq> Leaf \<Longrightarrow> find_pred h (root_of t) = Some (Inr (fst (max_of t)))"
proof (induction t arbitrary: q)
  case (Node l x r)
  then show ?case
    by (subst find_pred.simps) (auto simp: mem_simps root_of_NULL)
qed simp

text \<open>
  The child of \<open>q\<close> that is the root of \<open>t\<close> (on the left, or on the right when the left
  child is elsewhere) gives up its largest node.
\<close>

definition hang :: "addr \<Rightarrow> 'v atree \<Rightarrow> 'v ptree_node \<Rightarrow> 'v ptree_node" where
  "hang p t n = (if pn_left n = p then n\<lparr> pn_left := root_of t \<rparr> else n\<lparr> pn_right := root_of t \<rparr>)"

lemma unlink_pred_max:
  assumes "ptree_at h q t" and "t \<noteq> Leaf" and "distinct_tree t" and "q \<notin> addrs t" and "h q = Some n"
    and "pn_left n = root_of t \<or> pn_left n \<notin> addrs t \<and> pn_right n = root_of t"
  shows "\<exists>h'. unlink_pred (fst (max_of t)) h = Inr h' \<and> ptree_at h' q (without_max t)
      \<and> h' q = Some (hang (root_of t) (without_max t) n)
      \<and> (\<exists>m. h' (fst (max_of t)) = Some m \<and> pn_value m = snd (max_of t))
      \<and> (\<forall>a. a \<notin> addrs t \<and> a \<noteq> q \<longrightarrow> h' a = h a)"
  using assms
proof (induction t arbitrary: q n)
  case (Node l x r)
  let ?a = "fst x"
  have hx: "h ?a = Some \<lparr> pn_value = snd x, pn_parent = q, pn_left = root_of l, pn_right = root_of r \<rparr>"
    and at: "?a \<noteq> NULL" "ptree_at h ?a l" "ptree_at h ?a r"
    using Node.prems(1) by simp_all
  show ?case
  proof (cases "r = Leaf")
    case True
    let ?h1 = "h(q \<mapsto> hang ?a l n)"
    have "ptree_at ?h1 ?a l" using at Node.prems(4) by (simp add: image_Un)
    then obtain h' where h': "set_parent (root_of l) q ?h1 = Inr h'" "ptree_at h' q l"
      "\<And>a. a \<notin> addrs l \<Longrightarrow> h' a = ?h1 a"
      using Node.prems(3) by (auto elim: set_parent_tree [where q = q])
    have "unlink_pred ?a h = Inr h'"
      using Node.prems(4,5,6) h'(1) hx by (auto simp: unlink_pred_def mem_simps hang_def)
    then show ?thesis
      using h' hx Node.prems(3,4) by (auto simp: True hang_def)
  next
    case False
    let ?n = "\<lparr> pn_value = snd x, pn_parent = q, pn_left = root_of l, pn_right = root_of r \<rparr>"
    have side: "root_of l \<notin> addrs r"
      using Node.prems(3) by (intro root_of_notin [OF at(2,3)]) simp
    have ne: "root_of l \<noteq> root_of r"
      using side root_of_in [OF False] by metis
    have "?a \<notin> addrs r" "distinct_tree r" using Node.prems(3) by simp_all
    from Node.IH(2) [OF at(3) False this(2,1) hx] side obtain h' where
      h': "unlink_pred (fst (max_of r)) h = Inr h'" "ptree_at h' ?a (without_max r)"
        "h' ?a = Some (hang (root_of r) (without_max r) ?n)"
        "\<exists>m. h' (fst (max_of r)) = Some m \<and> pn_value m = snd (max_of r)"
        "\<forall>a. a \<notin> addrs r \<and> a \<noteq> ?a \<longrightarrow> h' a = h a"
      by auto
    have "fst x \<notin> addrs l" "addrs l \<inter> addrs r = {}" using Node.prems(3) by simp_all
    then have l: "ptree_at h' ?a l"
      using h'(5) by (intro ptree_at_frame [OF at(2)]) (metis disjoint_iff)
    have "h' q = h q" using h'(5) Node.prems(4) by auto
    moreover have "n = hang ?a (Node l x (without_max r)) n"
      using Node.prems(6) by (auto simp: hang_def)
    ultimately show ?thesis
      using h' l at(1) ne Node.prems(5) by (auto simp: False hang_def)
  qed
qed simp


text \<open>
  \<open>outside pp p t T\<close>: the slot \<open>pp\<close>, which holds the root of \<open>t\<close>, is the root variable or
  a field of the parent \<open>p\<close>, a node that is not in \<open>t\<close>.
\<close>

definition outside :: "slot \<Rightarrow> addr \<Rightarrow> 'v atree \<Rightarrow> 'v ptree \<Rightarrow> bool" where
  "outside pp p t T \<longleftrightarrow>
     slot_of T (root_of t) = Inr pp
     \<and> (pp = Root \<and> p = NULL \<or> (pp = Left_Of p \<or> pp = Right_Of p) \<and> p \<notin> addrs t \<and> p \<in> dom (fst T))"

fun put_slot :: "slot \<Rightarrow> addr \<Rightarrow> 'v ptree \<Rightarrow> 'v ptree" where
  "put_slot Root a T = (fst T, a)"
| "put_slot (Left_Of p) a T = ((fst T)(p := map_option (pn_left_update (\<lambda>_. a)) (fst T p)), snd T)"
| "put_slot (Right_Of p) a T = ((fst T)(p := map_option (pn_right_update (\<lambda>_. a)) (fst T p)), snd T)"

lemma set_slot_put:
  "outside pp p t (h, root) \<Longrightarrow> h' p = h p \<Longrightarrow> set_slot pp a (h', root) = Inr (put_slot pp a (h', root))"
  by (auto simp: outside_def upd_def)

lemma put_slot_frame [simp]:
  "outside pp p t T \<Longrightarrow> a \<noteq> p \<Longrightarrow> fst (put_slot pp b T') a = fst T' a"
  by (auto simp: outside_def)

lemma put_slot_frame_in:
  "outside pp p t T \<Longrightarrow> a \<in> addrs t \<Longrightarrow> fst (put_slot pp b T') a = fst T' a"
  by (metis outside_def put_slot.simps(1) fst_conv put_slot_frame)

lemma ptree_at_put_slot:
  "outside pp p t T \<Longrightarrow> addrs u \<subseteq> addrs t \<Longrightarrow> ptree_at (fst T') q u \<Longrightarrow> ptree_at (fst (put_slot pp b T')) q u"
  by (erule ptree_at_frame) (metis put_slot_frame_in subsetD)

lemma snd_put_slot: "snd (put_slot pp b (h, root)) = snd (put_slot pp b (h', root))"
  by (cases pp) auto

text \<open>Splicing out a node with at most one child: the child takes the slot and the parent.\<close>

lemma splice_child:
  assumes "outside pp p t (h, root)" and "ptree_at h q u" and "distinct_tree u" and "addrs u \<subseteq> addrs t"
    and "root_of t \<notin> addrs u"
  shows "\<exists>h2. cbind (set_slot pp (root_of u) (h, root)) (\<lambda>(h1, root').
                cbind (set_parent (root_of u) p h1) (\<lambda>h2. Inr (h2, root')))
              = Inr (h2, snd (put_slot pp (root_of u) (h, root)))
           \<and> ptree_at h2 p u
           \<and> (\<forall>a. a \<notin> addrs u \<longrightarrow> h2 a = fst (put_slot pp (root_of u) (h, root)) a)"
proof -
  obtain h1 r where h1: "put_slot pp (root_of u) (h, root) = (h1, r)" by force
  have "ptree_at h1 q u"
    using ptree_at_put_slot [OF assms(1,4), where T' = "(h, root)" and b = "root_of u"] assms(2) by (simp add: h1)
  then obtain h2 where "set_parent (root_of u) p h1 = Inr h2" "ptree_at h2 p u"
    "\<And>a. a \<notin> addrs u \<Longrightarrow> h2 a = h1 a"
    using assms(3) by (auto elim: set_parent_tree [where q = p])
  then show ?thesis
    using set_slot_put [OF assms(1), of h "root_of u"] by (auto simp: h1)
qed

text \<open>The node with two children is replaced by its predecessor.\<close>

lemma move_pred_tree:
  assumes "ptree_at h par (Node l (p, v) r)" and "distinct_tree (Node l (p, v) r)"
    and "l \<noteq> Leaf" and "r \<noteq> Leaf" and out: "outside pp par (Node l (p, v) r) (h, root)"
  shows "\<exists>h2. cbind (unlink_pred (fst (max_of l)) h) (\<lambda>h1. move_pred p (fst (max_of l)) pp (h1, root))
              = Inr (h2, snd (put_slot pp (fst (max_of l)) (h, root)))
           \<and> ptree_at (h2(p := None)) par (join l r)
           \<and> (\<exists>n. h2 p = Some n \<and> pn_value n = v)
           \<and> (\<forall>a. a \<notin> addrs (Node l (p, v) r) \<longrightarrow> h2 a = fst (put_slot pp (fst (max_of l)) (h, root)) a)"
proof -
  let ?m = "fst (max_of l)" and ?l = "without_max l"
  let ?t = "Node l (p, v) r"
  let ?n = "\<lparr> pn_value = v, pn_parent = par, pn_left = root_of l, pn_right = root_of r \<rparr>"
  have at: "p \<noteq> NULL" "h p = Some ?n" "ptree_at h p l" "ptree_at h p r"
    using assms(1) by simp_all
  have ds: "distinct_tree l" "distinct_tree r" "p \<notin> addrs l" "p \<notin> addrs r" "addrs l \<inter> addrs r = {}"
    using assms(2) by simp_all
  note wm = without_max_distinct [OF assms(3) ds(1)]
  have m: "?m \<in> addrs l" by (rule max_of_in [OF assms(3)])
  have m': "?m \<noteq> p" "?m \<notin> addrs r" "?m \<notin> addrs ?l" using m ds wm by auto
  from unlink_pred_max [OF at(3) assms(3) ds(1,3) at(2)] obtain h1 k where
    h1: "unlink_pred ?m h = Inr h1" "ptree_at h1 p ?l" "h1 p = Some (?n\<lparr> pn_left := root_of ?l \<rparr>)"
      "h1 ?m = Some k" "pn_value k = snd (max_of l)" "\<And>a. a \<notin> addrs l \<Longrightarrow> a \<noteq> p \<Longrightarrow> h1 a = h a"
    by (auto simp: hang_def)
  have par: "h1 par = h par \<or> pp = Root"
    using out h1(6) [of par] by (auto simp: outside_def)
  obtain g rt where g: "put_slot pp ?m (h1, root) = (g, rt)" by force
  have slot: "set_slot pp ?m (h1, root) = Inr (g, rt)"
    using par set_slot_put [OF out] by (auto simp: g [symmetric])
  have gin: "g a = h1 a" if "a \<in> addrs ?t" for a
    using put_slot_frame_in [OF out that, of ?m "(h1, root)"] by (simp add: g)
  have gl: "ptree_at g p ?l" and gr: "ptree_at g p r"
  proof -
    show "ptree_at g p ?l"
      using wm by (intro ptree_at_frame [OF h1(2)] gin) auto
    have "ptree_at h1 p r" using ds h1(6) by (intro ptree_at_frame [OF at(4)]) (metis disjoint_iff)
    then show "ptree_at g p r" by (rule ptree_at_frame) (rule gin, simp add: image_Un)
  qed
  let ?k = "\<lparr> pn_value = snd (max_of l), pn_parent = par, pn_left = root_of ?l, pn_right = root_of r \<rparr>"
  let ?g2 = "g(?m \<mapsto> ?k)"
  have gp: "g p = Some (?n\<lparr> pn_left := root_of ?l \<rparr>)" and gm: "g ?m = Some k"
    using gin [of p] gin [of ?m] m h1(3,4) by auto
  have up: "upd g ?m (\<lambda>m. m\<lparr> pn_parent := par, pn_left := root_of ?l, pn_right := root_of r \<rparr>) = Inr ?g2"
    using gm h1(5) by (cases k) (simp add: upd_def)
  have "ptree_at ?g2 p ?l" using gl m' by simp
  then obtain g3 where g3: "set_parent (root_of ?l) ?m ?g2 = Inr g3" "ptree_at g3 ?m ?l"
    "\<And>a. a \<notin> addrs ?l \<Longrightarrow> g3 a = ?g2 a"
    using wm(1) by (auto elim: set_parent_tree [where q = "?m"])
  have sub: "addrs ?l \<subseteq> addrs l" using wm(3) by blast
  have "ptree_at g3 p r"
  proof (rule ptree_at_frame [OF gr])
    fix a
    assume "a \<in> addrs r"
    with ds(5) sub m'(2) have "a \<notin> addrs ?l" "a \<noteq> ?m" by (metis disjoint_iff subsetD)+
    then show "g3 a = g a" by (simp add: g3(3))
  qed
  then obtain g4 where g4: "set_parent (root_of r) ?m g3 = Inr g4" "ptree_at g4 ?m r"
    "\<And>a. a \<notin> addrs r \<Longrightarrow> g4 a = g3 a"
    using ds(2) by (auto elim: set_parent_tree [where q = "?m"])
  have r: "upd g3 (root_of r) (pn_parent_update (\<lambda>_. ?m)) = Inr g4"
    using g4(1) root_of_NULL [OF at(4)] assms(4) by (simp add: set_parent_def)
  have run: "cbind (unlink_pred ?m h) (\<lambda>h1. move_pred p ?m pp (h1, root)) = Inr (g4, rt)"
    by (simp add: h1(1) move_pred_def slot mem_simps gp up g3(1) r)
  have k4: "g4 ?m = Some ?k" using m' g3(3) [of ?m] g4(3) [of ?m] by simp
  have l4: "ptree_at g4 ?m ?l"
    using g4(3) ds sub by (intro ptree_at_frame [OF g3(2)]) (metis disjoint_iff subsetD)
  have mn: "?m \<noteq> NULL" using ptree_at_live [OF at(3) m] by simp
  have pl: "p \<notin> addrs ?l" using ds(3) sub by blast
  have res: "ptree_at (g4(p := None)) par (join l r)"
    using pl k4 l4 g4(2) mn m'(1) ds(4) by (simp add: join_def assms(3,4))
  have val: "\<exists>n. g4 p = Some n \<and> pn_value n = v"
    using gp g3(3) [OF pl] g4(3) [OF ds(4)] m'(1) by simp
  have frame: "g4 a = fst (put_slot pp ?m (h, root)) a" if "a \<notin> addrs ?t" for a
  proof -
    have "a \<noteq> ?m" "a \<notin> addrs ?l" "a \<notin> addrs r" "a \<notin> addrs l" "a \<noteq> p" using that m sub by auto
    then have "g4 a = fst (put_slot pp ?m (h1, root)) a" by (simp add: g g3(3) g4(3))
    also have "\<dots> = fst (put_slot pp ?m (h, root)) a"
      using h1(6) [OF \<open>a \<notin> addrs l\<close> \<open>a \<noteq> p\<close>] by (cases pp) auto
    finally show ?thesis .
  qed
  have "rt = snd (put_slot pp ?m (h, root))" using g by (metis snd_conv snd_put_slot)
  then show ?thesis using run res val frame by blast
qed


lemma remove_node_core:
  assumes "ptree_at h par (Node l (p, v) r)" and "distinct_tree (Node l (p, v) r)"
    and out: "outside pp par (Node l (p, v) r) (h, root)"
  shows "\<exists>h'. remove_node (h, root) p = Some (Inr (v, (h', snd (put_slot pp (root_of (join l r)) (h, root)))))
           \<and> ptree_at h' par (join l r) \<and> h' p = None
           \<and> (\<forall>a. a \<notin> addrs (Node l (p, v) r) \<longrightarrow> h' a = fst (put_slot pp (root_of (join l r)) (h, root)) a)"
proof -
  let ?t = "Node l (p, v) r"
  let ?n = "\<lparr> pn_value = v, pn_parent = par, pn_left = root_of l, pn_right = root_of r \<rparr>"
  have at: "p \<noteq> NULL" "h p = Some ?n" "ptree_at h p l" "ptree_at h p r"
    using assms(1) by simp_all
  have ds: "distinct_tree l" "distinct_tree r" "p \<notin> addrs l" "p \<notin> addrs r"
    using assms(2) by simp_all
  have pp: "slot_of (h, root) p = Inr pp" using out by (simp add: outside_def)
  have root: "root_of ?t = p" by simp
  have splice: "\<exists>h'. cbind (set_slot pp (root_of u) (h, root)) (\<lambda>(h1, root').
                    cbind (set_parent (root_of u) par h1) (\<lambda>h2. Inr (h2, root')))
                  = Inr (h', snd (put_slot pp (root_of u) (h, root)))
           \<and> h' p = Some ?n \<and> ptree_at (h'(p := None)) par u
           \<and> (\<forall>a. a \<notin> addrs ?t \<longrightarrow> h' a = fst (put_slot pp (root_of u) (h, root)) a)"
    if u: "ptree_at h p u" "distinct_tree u" "addrs u \<subseteq> addrs ?t" "p \<notin> addrs u" for u
  proof -
    obtain h2 where h2: "cbind (set_slot pp (root_of u) (h, root)) (\<lambda>(h1, root').
                cbind (set_parent (root_of u) par h1) (\<lambda>h2. Inr (h2, root')))
              = Inr (h2, snd (put_slot pp (root_of u) (h, root)))"
      "ptree_at h2 par u" "\<And>a. a \<notin> addrs u \<Longrightarrow> h2 a = fst (put_slot pp (root_of u) (h, root)) a"
      using splice_child [OF out u(1-3)] u(4) by auto
    have "h2 p = Some ?n"
      using h2(3) [OF u(4)] put_slot_frame_in [OF out, of p "root_of u" "(h, root)"] at(2) by simp
    moreover have "\<forall>a. a \<notin> addrs ?t \<longrightarrow> h2 a = fst (put_slot pp (root_of u) (h, root)) a"
      using h2(3) u(3) by blast
    ultimately show ?thesis
      using h2(2) u(4) by (intro exI [of _ h2]) (simp add: h2(1))
  qed
  consider "l = Leaf" | "l \<noteq> Leaf" "r = Leaf" | "l \<noteq> Leaf" "r \<noteq> Leaf" by blast
  then show ?thesis
  proof cases
    case 1
    have "addrs r \<subseteq> addrs ?t" by auto
    from splice [OF at(4) ds(2) this ds(4)] obtain h' where
      h': "cbind (set_slot pp (root_of r) (h, root)) (\<lambda>(h1, root').
                    cbind (set_parent (root_of r) par h1) (\<lambda>h2. Inr (h2, root')))
                  = Inr (h', snd (put_slot pp (root_of r) (h, root)))"
        "h' p = Some ?n" "ptree_at (h'(p := None)) par r"
        "\<forall>a. a \<notin> addrs ?t \<longrightarrow> h' a = fst (put_slot pp (root_of r) (h, root)) a"
      by blast
    have "remove_node (h, root) p = Some (Inr (v, (h'(p := None), snd (put_slot pp (root_of (join l r)) (h, root)))))"
      using at(2) h'(2) 1 by (simp add: remove_node_def pp mem_simps h'(1) join_def)
    then show ?thesis using h'(3,4) 1 by (intro exI [of _ "h'(p := None)"]) (simp add: join_def)
  next
    case 2
    then have nl: "root_of l \<noteq> NULL" using root_of_NULL [OF at(3)] by simp
    have "addrs l \<subseteq> addrs ?t" by auto
    from splice [OF at(3) ds(1) this ds(3)] obtain h' where
      h': "cbind (set_slot pp (root_of l) (h, root)) (\<lambda>(h1, root').
                    cbind (set_parent (root_of l) par h1) (\<lambda>h2. Inr (h2, root')))
                  = Inr (h', snd (put_slot pp (root_of l) (h, root)))"
        "h' p = Some ?n" "ptree_at (h'(p := None)) par l"
        "\<forall>a. a \<notin> addrs ?t \<longrightarrow> h' a = fst (put_slot pp (root_of l) (h, root)) a"
      by blast
    have "remove_node (h, root) p = Some (Inr (v, (h'(p := None), snd (put_slot pp (root_of (join l r)) (h, root)))))"
      using at(2) nl h'(2) 2 by (simp add: remove_node_def pp mem_simps h'(1) join_def)
    then show ?thesis using h'(3,4) 2 by (intro exI [of _ "h'(p := None)"]) (simp add: join_def)
  next
    case 3
    then have nn: "root_of l \<noteq> NULL" "root_of r \<noteq> NULL"
      using root_of_NULL [OF at(3)] root_of_NULL [OF at(4)] by simp_all
    from move_pred_tree [OF assms(1,2) 3 out] obtain h2 n where
      h2: "cbind (unlink_pred (fst (max_of l)) h) (\<lambda>h1. move_pred p (fst (max_of l)) pp (h1, root))
              = Inr (h2, snd (put_slot pp (fst (max_of l)) (h, root)))"
        "ptree_at (h2(p := None)) par (join l r)" "h2 p = Some n" "pn_value n = v"
        "\<forall>a. a \<notin> addrs ?t \<longrightarrow> h2 a = fst (put_slot pp (fst (max_of l)) (h, root)) a"
      by blast
    have j: "root_of (join l r) = fst (max_of l)" using 3 by (simp add: join_def)
    have "remove_node (h, root) p = Some (Inr (v, (h2(p := None), snd (put_slot pp (root_of (join l r)) (h, root)))))"
      using at(2) nn h2(3,4) by (simp add: remove_node_def pp mem_simps find_pred_max [OF at(3) 3(1)] h2(1) j)
    then show ?thesis using h2(2,5) by (intro exI [of _ "h2(p := None)"]) (simp add: j)
  qed
qed


text \<open>Removal below the root: the root pointer and everything outside the tree stay.\<close>

lemma remove_node_below:
  assumes "ptree_at h par t" and "distinct_tree t" and "p \<in> addrs t" and "p \<noteq> root_of t"
  shows "\<exists>v h'. (p, v) \<in> set_tree t \<and> remove_node (h, root) p = Some (Inr (v, (h', root)))
      \<and> ptree_at h' par (del_at p t) \<and> h' p = None \<and> (\<forall>a. a \<notin> addrs t \<longrightarrow> h' a = h a)"
  using assms
proof (induction t arbitrary: par)
  case (Node l x r)
  let ?n = "\<lparr> pn_value = snd x, pn_parent = par, pn_left = root_of l, pn_right = root_of r \<rparr>"
  have at: "fst x \<noteq> NULL" "h (fst x) = Some ?n" "ptree_at h (fst x) l" "ptree_at h (fst x) r"
    using Node.prems(1) by simp_all
  have ds: "distinct_tree l" "distinct_tree r" "fst x \<notin> addrs l" "fst x \<notin> addrs r" "addrs l \<inter> addrs r = {}"
    using Node.prems(2) by simp_all
  have px: "p \<noteq> fst x" using Node.prems(4) by simp
  have frame_l: "ptree_at h' (fst x) l" if "\<And>a. a \<notin> addrs r \<Longrightarrow> a \<noteq> fst x \<Longrightarrow> h' a = h a" for h'
    using that ds by (intro ptree_at_frame [OF at(3)]) (metis disjoint_iff)
  have frame_r: "ptree_at h' (fst x) r" if "\<And>a. a \<notin> addrs l \<Longrightarrow> a \<noteq> fst x \<Longrightarrow> h' a = h a" for h'
    using that ds by (intro ptree_at_frame [OF at(4)]) (metis disjoint_iff)
  consider (left) "p \<in> addrs l" | (right) "p \<in> addrs r" "p \<notin> addrs l"
    using Node.prems(3) px by auto
  then show ?case
  proof cases
    case left
    show ?thesis
    proof (cases "p = root_of l")
      case True
      with left at(3) obtain ll v lr where l: "l = Node ll (p, v) lr"
        by (cases l) auto
      have "outside (Left_Of (fst x)) (fst x) l (h, root)"
        using at ds(3) by (auto simp: outside_def slot_of_def l mem_simps)
      from remove_node_core [OF at(3) [unfolded l] ds(1) [unfolded l] this [unfolded l]]
      obtain h' where h': "remove_node (h, root) p = Some (Inr (v, (h', root)))"
        "ptree_at h' (fst x) (join ll lr)" "h' p = None"
        "\<And>a. a \<notin> addrs l \<Longrightarrow> h' a = fst (put_slot (Left_Of (fst x)) (root_of (join ll lr)) (h, root)) a"
        by (auto simp: l)
      have hx: "h' (fst x) = Some (?n\<lparr> pn_left := root_of (join ll lr) \<rparr>)"
        and fr: "\<And>a. a \<notin> addrs l \<Longrightarrow> a \<noteq> fst x \<Longrightarrow> h' a = h a"
        using h'(4) ds(3) at(2) by simp_all
      have "del_at p (Node l x r) = Node (join ll lr) x r" using px by (simp add: l)
      then show ?thesis
        using h'(1-3) hx at(1) frame_r [OF fr] fr by (intro exI [of _ v] exI [of _ h']) (auto simp: l)
    next
      case False
      from Node.IH(1) [OF at(3) ds(1) left False] obtain v h' where
        h': "(p, v) \<in> set_tree l" "remove_node (h, root) p = Some (Inr (v, (h', root)))"
          "ptree_at h' (fst x) (del_at p l)" "h' p = None" "\<And>a. a \<notin> addrs l \<Longrightarrow> h' a = h a"
        by blast
      have "root_of (del_at p l) = root_of l" using False by (cases l) auto
      then show ?thesis
        using h' px left at(1,2) ds(3) frame_r [of h'] by (intro exI [of _ v] exI [of _ h']) auto
    qed
  next
    case right
    show ?thesis
    proof (cases "p = root_of r")
      case True
      with right at(4) obtain rl v rr where r: "r = Node rl (p, v) rr"
        by (cases r) auto
      have "root_of l \<noteq> p"
        using right(2) at(3,4) root_of_in [of l] by (cases l) (auto simp: r)
      then have "outside (Right_Of (fst x)) (fst x) r (h, root)"
        using at ds(4) by (auto simp: outside_def slot_of_def r mem_simps)
      from remove_node_core [OF at(4) [unfolded r] ds(2) [unfolded r] this [unfolded r]]
      obtain h' where h': "remove_node (h, root) p = Some (Inr (v, (h', root)))"
        "ptree_at h' (fst x) (join rl rr)" "h' p = None"
        "\<And>a. a \<notin> addrs r \<Longrightarrow> h' a = fst (put_slot (Right_Of (fst x)) (root_of (join rl rr)) (h, root)) a"
        by (auto simp: r)
      have hx: "h' (fst x) = Some (?n\<lparr> pn_right := root_of (join rl rr) \<rparr>)"
        and fr: "\<And>a. a \<notin> addrs r \<Longrightarrow> a \<noteq> fst x \<Longrightarrow> h' a = h a"
        using h'(4) ds(4) at(2) by simp_all
      have "del_at p (Node l x r) = Node l x (join rl rr)" using px right(2) by (simp add: r)
      then show ?thesis
        using h'(1-3) hx at(1) frame_l [OF fr] fr by (intro exI [of _ v] exI [of _ h']) (auto simp: r)
    next
      case False
      from Node.IH(2) [OF at(4) ds(2) right(1) False] obtain v h' where
        h': "(p, v) \<in> set_tree r" "remove_node (h, root) p = Some (Inr (v, (h', root)))"
          "ptree_at h' (fst x) (del_at p r)" "h' p = None" "\<And>a. a \<notin> addrs r \<Longrightarrow> h' a = h a"
        by blast
      have "root_of (del_at p r) = root_of r" using False by (cases r) auto
      then show ?thesis
        using h' px right at(1,2) ds(4) frame_l [of h'] by (intro exI [of _ v] exI [of _ h']) auto
    qed
  qed
qed simp

text \<open>Removing a node of a tree leaves exactly the other nodes, in order, and frees it.\<close>

lemma remove_node_rep:
  assumes "rep T t" and "p \<in> addrs t"
  shows "\<exists>v T'. (p, v) \<in> set_tree t \<and> remove_node T p = Some (Inr (v, T')) \<and> rep T' (del_at p t)
      \<and> fst T' p = None \<and> (\<forall>a. a \<notin> addrs t \<longrightarrow> fst T' a = fst T a)"
proof -
  obtain h where T: "T = (h, root_of t)" and at: "ptree_at h NULL t" and ds: "distinct_tree t"
    using assms(1) by (cases T) (auto simp: rep_def)
  show ?thesis
  proof (cases "p = root_of t")
    case True
    with assms(2) at obtain l v r where t: "t = Node l (p, v) r"
      by (cases t) auto
    have "outside Root NULL t (h, root_of t)"
      using at by (auto simp: outside_def slot_of_def t mem_simps)
    from remove_node_core [OF at [unfolded t] ds [unfolded t] this [unfolded t]]
    show ?thesis
      using distinct_del_at [OF ds, of p] by (auto simp: T t rep_def)
  next
    case False
    moreover from False have "root_of (del_at p t) = root_of t" by (cases t) auto
    ultimately show ?thesis
      using remove_node_below [OF at ds assms(2) False, of "root_of t"] distinct_del_at [OF ds, of p]
      by (auto simp: T rep_def)
  qed
qed


section \<open>Insertion\<close>

fun tput :: "('v \<Rightarrow> 'v \<Rightarrow> int) \<Rightarrow> 'v \<Rightarrow> addr \<Rightarrow> 'v atree \<Rightarrow> 'v atree" where
  "tput cmp v a Leaf = Node Leaf (a, v) Leaf"
| "tput cmp v a (Node l x r) =
     (let c = cmp v (snd x) in
      if c = 0 then Node l (fst x, v) r
      else if c < 0 then Node (tput cmp v a l) x r
      else Node l x (tput cmp v a r))"

lemma root_of_tput: "t \<noteq> Leaf \<Longrightarrow> root_of (tput cmp v a t) = root_of t"
  by (cases t) (auto simp: Let_def)

lemma locate_found:
  assumes "locate cmp v t pp s c = (0, p, pp')" and "c \<noteq> 0" and "ptree_at h q t" and "distinct_tree t"
  shows "\<exists>n. h p = Some n \<and> (p, pn_value n) \<in> set_tree t \<and> cmp v (pn_value n) = 0
           \<and> ptree_at (h(p \<mapsto> n\<lparr> pn_value := v \<rparr>)) q (tput cmp v a t)
           \<and> addrs (tput cmp v a t) = addrs t \<and> distinct_tree (tput cmp v a t)"
  using assms
proof (induction t arbitrary: q pp s c)
  case (Node l x r)
  let ?c = "cmp v (snd x)"
  have ds: "fst x \<notin> addrs l" "fst x \<notin> addrs r" "addrs l \<inter> addrs r = {}"
    and dl: "distinct_tree l" and dr: "distinct_tree r" and al: "ptree_at h (fst x) l" and ar: "ptree_at h (fst x) r"
    using Node.prems(3,4) by simp_all
  consider "?c = 0" | "?c < 0" | "?c > 0" by linarith
  then show ?case
  proof cases
    case 1
    then have p: "p = fst x" using Node.prems(1) by (simp add: Let_def)
    let ?n = "\<lparr> pn_value = snd x, pn_parent = q, pn_left = root_of l, pn_right = root_of r \<rparr>"
    have "ptree_at (h(fst x \<mapsto> ?n\<lparr> pn_value := v \<rparr>)) (fst x) u" if "u = l \<or> u = r" for u
      using that Node.prems(3) ds by auto
    then show ?thesis
      using 1 Node.prems(3,4) unfolding p
      by (intro exI [of _ ?n]) (simp add: Let_def image_Un del: fun_upd_apply add: fun_upd_same)
  next
    case 2
    with Node.prems have "locate cmp v l (Left_Of (fst x)) (fst x) ?c = (0, p, pp')"
      by (simp add: Let_def)
    from Node.IH(1) [OF this _ al dl] 2 obtain n where
      n: "h p = Some n" "(p, pn_value n) \<in> set_tree l" "cmp v (pn_value n) = 0"
        "ptree_at (h(p \<mapsto> n\<lparr> pn_value := v \<rparr>)) (fst x) (tput cmp v a l)"
        "addrs (tput cmp v a l) = addrs l" "distinct_tree (tput cmp v a l)"
      by (auto simp del: fun_upd_apply)
    have p: "p \<in> addrs l" using n(2) by force
    then have "p \<noteq> fst x" "p \<notin> addrs r" using ds by (metis disjoint_iff)+
    moreover have "root_of (tput cmp v a l) = root_of l" using p by (intro root_of_tput) auto
    ultimately show ?thesis
      using n 2 Node.prems(3,4) by (auto simp: Let_def image_Un simp del: fun_upd_apply simp add: fun_upd_same fun_upd_other)
  next
    case 3
    with Node.prems have "locate cmp v r (Right_Of (fst x)) (fst x) ?c = (0, p, pp')"
      by (simp add: Let_def)
    from Node.IH(2) [OF this _ ar dr] 3 obtain n where
      n: "h p = Some n" "(p, pn_value n) \<in> set_tree r" "cmp v (pn_value n) = 0"
        "ptree_at (h(p \<mapsto> n\<lparr> pn_value := v \<rparr>)) (fst x) (tput cmp v a r)"
        "addrs (tput cmp v a r) = addrs r" "distinct_tree (tput cmp v a r)"
      by (auto simp del: fun_upd_apply)
    have p: "p \<in> addrs r" using n(2) by force
    then have "p \<noteq> fst x" "p \<notin> addrs l" using ds by (metis disjoint_iff)+
    moreover have "root_of (tput cmp v a r) = root_of r" using p by (intro root_of_tput) auto
    ultimately show ?thesis
      using n 3 Node.prems(3,4) by (auto simp: Let_def image_Un simp del: fun_upd_apply simp add: fun_upd_same fun_upd_other)
  qed
qed simp

abbreviation new_node :: "'v \<Rightarrow> addr \<Rightarrow> 'v ptree_node" where
  "new_node v p \<equiv> \<lparr> pn_value = v, pn_parent = p, pn_left = NULL, pn_right = NULL \<rparr>"

lemma locate_new:
  assumes "locate cmp v t pp s c = (c', p, pp')" and "c' \<noteq> 0" and "t \<noteq> Leaf" and "ptree_at h q t"
    and "distinct_tree t" and "a \<notin> addrs t" and "a \<noteq> NULL"
  shows "p \<in> addrs t \<and> (pp' = Left_Of p \<or> pp' = Right_Of p)
       \<and> ptree_at (fst (put_slot pp' a (h(a \<mapsto> new_node v p), root))) q (tput cmp v a t)
       \<and> addrs (tput cmp v a t) = insert a (addrs t) \<and> distinct_tree (tput cmp v a t)"
  using assms
proof (induction t arbitrary: q pp s c)
  case (Node l x r)
  let ?c = "cmp v (snd x)"
  have ds: "fst x \<notin> addrs l" "fst x \<notin> addrs r" "addrs l \<inter> addrs r = {}"
    and a: "a \<noteq> fst x" "a \<notin> addrs l" "a \<notin> addrs r"
    and dl: "distinct_tree l" and dr: "distinct_tree r" and al: "ptree_at h (fst x) l" and ar: "ptree_at h (fst x) r"
    using Node.prems(4-6) by (auto simp: image_Un)
  have nz: "?c \<noteq> 0" using Node.prems(1,2) by (auto simp: Let_def)
  show ?case
  proof (cases "?c < 0")
    case True
    then have loc: "locate cmp v l (Left_Of (fst x)) (fst x) ?c = (c', p, pp')"
      using Node.prems(1) by (simp add: Let_def)
    show ?thesis
    proof (cases "l = Leaf")
      case True
      then show ?thesis using loc a \<open>?c < 0\<close> Node.prems(4-) by (auto simp: Let_def image_Un simp del: fun_upd_apply simp add: fun_upd_same fun_upd_other)
    next
      case False
      from Node.IH(1) [OF loc Node.prems(2) False al dl a(2) Node.prems(7)] have
        ih: "p \<in> addrs l" "pp' = Left_Of p \<or> pp' = Right_Of p"
          "ptree_at (fst (put_slot pp' a (h(a \<mapsto> new_node v p), root))) (fst x) (tput cmp v a l)"
          "addrs (tput cmp v a l) = insert a (addrs l)" "distinct_tree (tput cmp v a l)"
        by (simp_all del: fun_upd_apply)
      have "p \<noteq> fst x" "p \<notin> addrs r" "p \<noteq> a" using ih(1) ds a by (metis disjoint_iff)+
      then show ?thesis
        using ih a nz \<open>?c < 0\<close> Node.prems(4,5) root_of_tput [OF False]
        by (elim disjE) (simp_all add: Let_def image_Un insert_commute fun_upd_same fun_upd_other del: fun_upd_apply)
    qed
  next
    case False
    then have loc: "locate cmp v r (Right_Of (fst x)) (fst x) ?c = (c', p, pp')"
      using Node.prems(1) nz by (simp add: Let_def)
    show ?thesis
    proof (cases "r = Leaf")
      case True
      then show ?thesis using loc a nz False Node.prems(4-) by (auto simp: Let_def image_Un simp del: fun_upd_apply simp add: fun_upd_same fun_upd_other)
    next
      case rF: False
      from Node.IH(2) [OF loc Node.prems(2) rF ar dr a(3) Node.prems(7)] have
        ih: "p \<in> addrs r" "pp' = Left_Of p \<or> pp' = Right_Of p"
          "ptree_at (fst (put_slot pp' a (h(a \<mapsto> new_node v p), root))) (fst x) (tput cmp v a r)"
          "addrs (tput cmp v a r) = insert a (addrs r)" "distinct_tree (tput cmp v a r)"
        by (simp_all del: fun_upd_apply)
      have "p \<noteq> fst x" "p \<notin> addrs l" "p \<noteq> a" using ih(1) ds a by (metis disjoint_iff)+
      then show ?thesis
        using ih a nz False Node.prems(4,5) root_of_tput [OF rF]
        by (elim disjE) (simp_all add: Let_def image_Un insert_commute fun_upd_same fun_upd_other del: fun_upd_apply)
    qed
  qed
qed simp

section \<open>Trees in key order\<close>

text \<open>
  \<open>tree_of key T xs\<close>: the heap holds a search tree whose values, in order, are \<open>xs\<close>. The
  operations are those of the sorted sequence, for every comparison that follows a key.
\<close>

definition tree_of :: "('v \<Rightarrow> 'k :: linorder) \<Rightarrow> 'v ptree \<Rightarrow> 'v list \<Rightarrow> bool" where
  "tree_of key T xs \<longleftrightarrow> (\<exists>t. rep T t \<and> map snd (inorder t) = xs) \<and> key_sorted key xs"

lemma key_sorted_inj: "key_sorted key xs \<Longrightarrow> inj_on key (set xs)" "key_sorted key xs \<Longrightarrow> distinct xs"
  by (induction xs) auto

context key_compare
begin

lemma cmp_cases:
  assumes "okv x" and "okv y"
  obtains "cmp x y = 0" "key x = key y" | "cmp x y < 0" "key x < key y" | "cmp x y > 0" "key y < key x"
  using assms cmp_zero cmp_neg cmp_pos by (cases "cmp x y" "0 :: int" rule: linorder_cases) auto

lemma seq_find_key:
  "okv v \<Longrightarrow> \<forall>x \<in> set xs. okv x \<Longrightarrow> seq_find cmp v xs = find (\<lambda>x. key x = key v) xs"
  by (induction xs) (auto simp: cmp_zero)

lemma seq_del_key:
  "okv v \<Longrightarrow> \<forall>x \<in> set xs. okv x \<Longrightarrow> key_sorted key xs \<Longrightarrow>
   seq_del cmp v xs = filter (\<lambda>x. key x \<noteq> key v) xs"
proof (induction xs)
  case (Cons x xs)
  have "filter (\<lambda>y. key y \<noteq> key v) xs = xs" if "key x = key v"
    using that Cons.prems by (auto simp: filter_id_conv)
  with Cons show ?case by (auto simp: cmp_zero)
qed simp

lemma set_seq_put:
  "okv v \<Longrightarrow> \<forall>x \<in> set xs. okv x \<Longrightarrow> key_sorted key xs \<Longrightarrow>
   set (seq_put cmp v xs) = insert v {x \<in> set xs. key x \<noteq> key v}"
proof (induction xs)
  case (Cons x xs)
  have v: "okv v" and x: "okv x" using Cons.prems by simp_all
  from v x show ?case
  proof (cases rule: cmp_cases)
    case 1
    with Cons.prems show ?thesis by auto
  next
    case 2
    with Cons.prems show ?thesis by auto
  next
    case 3
    with Cons show ?thesis by auto
  qed
qed simp

lemma seq_put_sorted:
  assumes "okv v" and "\<forall>x \<in> set xs. okv x" and "key_sorted key xs"
  shows "key_sorted key (seq_put cmp v xs)"
  using assms
proof (induction xs)
  case (Cons x xs)
  have v: "okv v" and x: "okv x" using Cons.prems by simp_all
  from v x show ?case
  proof (cases rule: cmp_cases)
    case 3
    then show ?thesis
      using Cons set_seq_put [of v xs] by auto
  qed (use Cons.prems in auto)
qed simp

lemma seq_del_sorted:
  "okv v \<Longrightarrow> \<forall>x \<in> set xs. okv x \<Longrightarrow> key_sorted key xs \<Longrightarrow> key_sorted key (seq_del cmp v xs)"
  by (simp add: seq_del_key) (simp add: key_sorted_def sorted_wrt_filter)

lemma seq_find_put:
  assumes "okv v" "okv w" "\<forall>x \<in> set xs. okv x" "key_sorted key xs"
  shows "seq_find cmp w (seq_put cmp v xs) = (if key w = key v then Some v else seq_find cmp w xs)"
  using assms
proof (induction xs)
  case (Cons x xs)
  have "okv x" using Cons.prems by simp
  with Cons show ?case
    by (auto simp: cmp_zero cmp_neg)
qed (simp add: cmp_zero)

lemma seq_find_del:
  assumes "okv v" "okv w" "\<forall>x \<in> set xs. okv x" "key_sorted key xs"
  shows "seq_find cmp w (seq_del cmp v xs) = (if key w = key v then None else seq_find cmp w xs)"
proof -
  have "\<forall>x \<in> set (seq_del cmp v xs). okv x" using assms(1,3,4) by (simp add: seq_del_key)
  with assms show ?thesis
    by (simp add: seq_find_key) (simp add: seq_del_key, induction xs, auto)
qed

text \<open>The tree operations and the sequence operations agree.\<close>

lemma locate_seq:
  assumes "okv v" and "\<forall>x \<in> set (map snd (inorder t)). okv x" and "key_sorted key (map snd (inorder t))"
    and "c \<noteq> 0"
  shows "(case locate cmp v t pp s c of (c', p, pp') \<Rightarrow>
            (c' = 0 \<longrightarrow> (\<exists>w. (p, w) \<in> set (inorder t) \<and> seq_find cmp v (map snd (inorder t)) = Some w))
            \<and> (c' \<noteq> 0 \<longrightarrow> seq_find cmp v (map snd (inorder t)) = None))"
  using assms(2-)
proof (induction t arbitrary: pp s c)
  case (Node l x r)
  have x: "okv (snd x)" using Node.prems by simp
  have app: "seq_find cmp v (xs @ ys) = (case seq_find cmp v xs of None \<Rightarrow> seq_find cmp v ys | Some w \<Rightarrow> Some w)" for xs ys
    by (induction xs) auto
  have none: "seq_find cmp v xs = None" if "\<forall>y \<in> set xs. okv y \<and> key y \<noteq> key v" for xs
    using that assms(1) by (induction xs) (auto simp: cmp_zero)
  from assms(1) x show ?case
  proof (cases rule: cmp_cases)
    case 1
    then have "seq_find cmp v (map snd (inorder l)) = None"
      using Node.prems by (intro none) auto
    with 1 show ?thesis by (auto simp: Let_def app)
  next
    case 2
    then have "seq_find cmp v (map snd (inorder r)) = None"
      using Node.prems by (intro none) force
    with 2 Node.IH(1) [of "cmp v (snd x)" "Left_Of (fst x)" "fst x"] Node.prems show ?thesis
      by (auto simp: Let_def app split: option.splits)
  next
    case 3
    then have "seq_find cmp v (map snd (inorder l)) = None"
      using Node.prems by (intro none) force
    with 3 Node.IH(2) [of "cmp v (snd x)" "Right_Of (fst x)" "fst x"] Node.prems show ?thesis
      by (auto simp: Let_def app split: option.splits)
  qed
qed simp

lemma inorder_tput:
  assumes "okv v" and "\<forall>x \<in> set (map snd (inorder t)). okv x" and "key_sorted key (map snd (inorder t))"
  shows "map snd (inorder (tput cmp v a t)) = seq_put cmp v (map snd (inorder t))"
  using assms(2-)
proof (induction t)
  case (Node l x r)
  have skip: "seq_put cmp v (xs @ ys) = xs @ seq_put cmp v ys" if "\<forall>y \<in> set xs. okv y \<and> key y < key v" for xs ys
    using that assms(1) by (induction xs) (auto simp: cmp_zero cmp_neg)
  have stop: "seq_put cmp v (xs @ y # ys) = seq_put cmp v xs @ y # ys" if "\<forall>y \<in> set xs. okv y" "okv y" "key v < key y" for xs y ys
    using that assms(1) by (induction xs) (auto simp: cmp_zero cmp_neg)
  have x: "okv (snd x)" using Node.prems by simp
  from assms(1) x show ?case
  proof (cases rule: cmp_cases)
    case 1
    then have "\<forall>y \<in> set (map snd (inorder l)). okv y \<and> key y < key v" using Node.prems by auto
    with 1 show ?thesis by (simp add: Let_def skip)
  next
    case 2
    with Node x show ?thesis by (simp add: Let_def stop)
  next
    case 3
    then have "\<forall>y \<in> set (map snd (inorder l)). okv y \<and> key y < key v"
      using Node.prems by (auto intro: less_trans)
    with 3 Node show ?thesis by (simp add: Let_def skip)
  qed
qed simp

end


section \<open>The dictionary operations\<close>

lemma tree_of_unfold:
  assumes "tree_of key T xs"
  obtains h t where "T = (h, root_of t)" "ptree_at h NULL t" "distinct_tree t" "map snd (inorder t) = xs"
    "key_sorted key xs" "rep T t"
  using assms that by (cases T) (auto simp: tree_of_def rep_def)

lemma walk_to_seq:
  assumes "key_compare cmp key okv" and "okv v" and "\<forall>x \<in> set xs. okv x"
    and "rep T t" and "map snd (inorder t) = xs" and "key_sorted key xs"
  obtains c p pp where "walk_to cmp v (fst T) (snd T) Root (snd T) (-1) = Some (Inr (c, p, pp))"
    and "locate cmp v t Root (root_of t) (-1) = (c, p, pp)"
    and "c = 0 \<Longrightarrow> \<exists>w. (p, w) \<in> set_tree t \<and> seq_find cmp v xs = Some w"
    and "c \<noteq> 0 \<Longrightarrow> seq_find cmp v xs = None"
proof -
  obtain c p pp where l: "locate cmp v t Root (root_of t) (-1) = (c, p, pp)" by (metis prod_cases3)
  have "walk_to cmp v (fst T) (snd T) Root (snd T) (-1) = Some (Inr (c, p, pp))"
    using walk_to_locate [of "fst T" NULL t cmp v Root "snd T" "-1"] assms(4) l by (simp add: rep_def)
  moreover have "case locate cmp v t Root (root_of t) (-1) of (c', p, pp') \<Rightarrow>
            (c' = 0 \<longrightarrow> (\<exists>w. (p, w) \<in> set (inorder t) \<and> seq_find cmp v (map snd (inorder t)) = Some w))
            \<and> (c' \<noteq> 0 \<longrightarrow> seq_find cmp v (map snd (inorder t)) = None)"
    using assms by (intro key_compare.locate_seq [OF assms(1)]) simp_all
  ultimately show ?thesis using l assms(5) that by auto
qed

lemma rep_value: "rep T t \<Longrightarrow> (p, w) \<in> set_tree t \<Longrightarrow> \<exists>n. fst T p = Some n \<and> pn_value n = w"
proof -
  have "ptree_at h q t \<Longrightarrow> (p, w) \<in> set_tree t \<Longrightarrow> \<exists>n. h p = Some n \<and> pn_value n = w" for h q
    by (induction t arbitrary: q) auto
  then show "rep T t \<Longrightarrow> (p, w) \<in> set_tree t \<Longrightarrow> ?thesis" by (auto simp: rep_def)
qed

lemma ptree_contains_tree:
  assumes "key_compare cmp key okv" and "okv v" and "\<forall>x \<in> set xs. okv x" and "tree_of key T xs"
  shows "ptree_contains cmp v T = Some (Inr (seq_find cmp v xs \<noteq> None, seq_find cmp v xs))"
proof -
  obtain h t where t: "rep T t" "map snd (inorder t) = xs" "key_sorted key xs"
    by (rule tree_of_unfold [OF assms(4)])
  from walk_to_seq [OF assms(1-3) t] obtain c p pp where
    w: "walk_to cmp v (fst T) (snd T) Root (snd T) (-1) = Some (Inr (c, p, pp))"
    "c = 0 \<Longrightarrow> \<exists>w. (p, w) \<in> set_tree t \<and> seq_find cmp v xs = Some w"
    "c \<noteq> 0 \<Longrightarrow> seq_find cmp v xs = None"
    by metis
  show ?thesis
  proof (cases "c = 0")
    case True
    then obtain u n where "seq_find cmp v xs = Some u" "fst T p = Some n" "pn_value n = u"
      using w(2) rep_value [OF t(1)] by blast
    then show ?thesis using w(1) True by (simp add: ptree_contains_def mem_simps)
  next
    case False
    then show ?thesis using w(1,3) by (simp add: ptree_contains_def)
  qed
qed

lemma ptree_replace_tree:
  assumes "key_compare cmp key okv" and "okv v" and "\<forall>x \<in> set xs. okv x" and "tree_of key T xs"
    and "malloc = NULL \<or> fst T malloc = None"
  shows "if seq_find cmp v xs = None \<and> malloc = NULL then ptree_replace cmp v malloc T = Some (Inr (False, None, T))
         else \<exists>T'. ptree_replace cmp v malloc T = Some (Inr (True, seq_find cmp v xs, T'))
                 \<and> tree_of key T' (seq_put cmp v xs)"
proof -
  obtain h t where t: "T = (h, root_of t)" "ptree_at h NULL t" "distinct_tree t"
    "map snd (inorder t) = xs" "key_sorted key xs" "rep T t"
    by (rule tree_of_unfold [OF assms(4)])
  from walk_to_seq [OF assms(1-3) t(6,4,5)] obtain c p pp where
    w: "walk_to cmp v (fst T) (snd T) Root (snd T) (-1) = Some (Inr (c, p, pp))"
    "locate cmp v t Root (root_of t) (-1) = (c, p, pp)"
    "c = 0 \<Longrightarrow> \<exists>w. (p, w) \<in> set_tree t \<and> seq_find cmp v xs = Some w"
    "c \<noteq> 0 \<Longrightarrow> seq_find cmp v xs = None"
    by metis
  have put: "map snd (inorder (tput cmp v a t)) = seq_put cmp v xs" for a
    using key_compare.inorder_tput [OF assms(1,2)] assms(3) t(4,5) by fastforce
  have sorted: "key_sorted key (seq_put cmp v xs)"
    by (rule key_compare.seq_put_sorted [OF assms(1-3) t(5)])
  show ?thesis
  proof (cases "c = 0")
    case True
    from locate_found [OF w(2) [unfolded True] _ t(2,3), of malloc] obtain n where
      n: "h p = Some n" "(p, pn_value n) \<in> set_tree t"
        "ptree_at (h(p \<mapsto> n\<lparr> pn_value := v \<rparr>)) NULL (tput cmp v malloc t)" "distinct_tree (tput cmp v malloc t)"
      by (auto simp del: fun_upd_apply)
    have ne: "t \<noteq> Leaf" using n(2) by auto
    obtain u where u: "(p, u) \<in> set_tree t" "seq_find cmp v xs = Some u" using w(3) True by blast
    have "pn_value n = u" using rep_value [OF t(6) u(1)] n(1) by (auto simp: t(1))
    then have "ptree_replace cmp v malloc T = Some (Inr (True, Some u, (h(p \<mapsto> n\<lparr> pn_value := v \<rparr>), snd T)))"
      using w(1) True n(1) by (simp add: ptree_replace_def t(1) mem_simps del: fun_upd_apply)
    moreover have "tree_of key (h(p \<mapsto> n\<lparr> pn_value := v \<rparr>), snd T) (seq_put cmp v xs)"
      using n(3,4) put sorted root_of_tput [OF ne] unfolding tree_of_def rep_def t(1)
      by (auto simp del: fun_upd_apply intro!: exI [of _ "tput cmp v malloc t"])
    ultimately show ?thesis using u(2) by auto
  next
    case False
    show ?thesis
    proof (cases "malloc = NULL")
      case True
      then show ?thesis using w(1,4) False by (simp add: ptree_replace_def)
    next
      case mF: False
      then have fresh: "malloc \<notin> addrs t"
        using assms(5) ptree_at_live [OF t(2), of malloc] by (auto simp: t(1))
      have "\<exists>T'. ptree_replace cmp v malloc T = Some (Inr (True, None, T')) \<and> rep T' (tput cmp v malloc t)"
      proof (cases "t = Leaf")
        case True
        with w(1,2) show ?thesis using False mF by (simp add: ptree_replace_def t(1) rep_def)
      next
        case tF: False
        let ?h = "h(malloc \<mapsto> new_node v p)"
        from locate_new [OF w(2) False tF t(2,3) fresh mF, of "root_of t"] have
          l: "p \<in> addrs t" "pp = Left_Of p \<or> pp = Right_Of p"
            "ptree_at (fst (put_slot pp malloc (?h, root_of t))) NULL (tput cmp v malloc t)"
            "distinct_tree (tput cmp v malloc t)"
          by (auto simp del: fun_upd_apply)
        have pm: "p \<noteq> malloc" using l(1) fresh by auto
        obtain n where "h p = Some n" using ptree_at_live [OF t(2) l(1)] by auto
        with l(2) pm have "set_slot pp malloc (?h, root_of t) = Inr (put_slot pp malloc (?h, root_of t))"
          by (auto simp: upd_def)
        moreover have "snd (put_slot pp malloc (?h, root_of t)) = root_of t" using l(2) by auto
        ultimately show ?thesis
          using w(1) False mF l(3,4) root_of_tput [OF tF]
          by (simp add: ptree_replace_def t(1) rep_def del: fun_upd_apply)
      qed
      then show ?thesis using w(4) False put sorted mF by (auto simp: tree_of_def)
    qed
  qed
qed

lemma ptree_remove_tree:
  assumes "key_compare cmp key okv" and "okv v" and "\<forall>x \<in> set xs. okv x" and "tree_of key T xs"
  shows "\<exists>T'. ptree_remove cmp v T = Some (Inr (seq_find cmp v xs \<noteq> None, seq_find cmp v xs, T'))
           \<and> tree_of key T' (seq_del cmp v xs) \<and> (seq_find cmp v xs = None \<longrightarrow> T' = T)"
proof -
  obtain h t where t: "T = (h, root_of t)" "ptree_at h NULL t" "distinct_tree t"
    "map snd (inorder t) = xs" "key_sorted key xs" "rep T t"
    by (rule tree_of_unfold [OF assms(4)])
  from walk_to_seq [OF assms(1-3) t(6,4,5)] obtain c p pp where
    w: "walk_to cmp v (fst T) (snd T) Root (snd T) (-1) = Some (Inr (c, p, pp))"
    "c = 0 \<Longrightarrow> \<exists>w. (p, w) \<in> set_tree t \<and> seq_find cmp v xs = Some w"
    "c \<noteq> 0 \<Longrightarrow> seq_find cmp v xs = None"
    by metis
  note del = key_compare.seq_del_key [OF assms(1-3) t(5)]
  note find = key_compare.seq_find_key [OF assms(1-3)]
  show ?thesis
  proof (cases "c = 0")
    case True
    then obtain u where u: "(p, u) \<in> set_tree t" "seq_find cmp v xs = Some u"
      using w(2) by blast
    from u(1) have pin: "p \<in> addrs t" by force
    from remove_node_rep [OF t(6) this] obtain u' T' where
      r: "(p, u') \<in> set_tree t" "remove_node T p = Some (Inr (u', T'))" "rep T' (del_at p t)"
      by blast
    have u': "u' = u" using rep_value [OF t(6) u(1)] rep_value [OF t(6) r(1)] by auto
    have key: "key u = key v" "u \<in> set xs"
      using u(2) by (auto simp: find find_Some_iff)
    have same: "fst x = p \<longleftrightarrow> key (snd x) = key v" if "x \<in> set (inorder t)" for x
    proof
      assume "fst x = p"
      then have "snd x = u"
        using that u(1) rep_value [OF t(6), of p "snd x"] rep_value [OF t(6) u(1)] by (cases x) auto
      then show "key (snd x) = key v" using key by simp
    next
      assume "key (snd x) = key v"
      note inj = key_sorted_inj [OF t(5)]
      have "snd x \<in> set xs" using that t(4) by auto
      then have "snd x = u"
        using \<open>key (snd x) = key v\<close> key inj_onD [OF inj(1), of "snd x" u] by simp
      moreover have "inj_on snd (set (inorder t))"
        using inj(2) t(4) by (metis distinct_map)
      ultimately show "fst x = p"
        using that u(1) inj_onD [of snd "set (inorder t)" x "(p, u)"] by simp
    qed
    have "filter (\<lambda>x. fst x \<noteq> p) (inorder t) = filter (\<lambda>x. key (snd x) \<noteq> key v) (inorder t)"
      by (rule filter_cong) (simp_all add: same)
    moreover have "map snd (filter (\<lambda>x. key (snd x) \<noteq> key v) (inorder t)) = filter (\<lambda>y. key y \<noteq> key v) xs"
      unfolding t(4) [symmetric] by (simp add: filter_map comp_def)
    ultimately have "map snd (inorder (del_at p t)) = seq_del cmp v xs"
      by (simp add: inorder_del_at [OF t(3)] del)
    then have "tree_of key T' (seq_del cmp v xs)"
      using r(3) key_compare.seq_del_sorted [OF assms(1-3) t(5)] by (auto simp: tree_of_def)
    then show ?thesis using w(1) True r(2) u(2) u' by (simp add: ptree_remove_def)
  next
    case False
    then have "filter (\<lambda>x. key x \<noteq> key v) xs = xs"
      using w(3) by (auto simp: find find_None_iff filter_id_conv)
    then show ?thesis using w(1,3) False assms(4) by (simp add: ptree_remove_def del)
  qed
qed

end
