(* ===== verification/PTreeWalk.thy ===== *)
theory PTreeWalk
  imports PTree
begin

text \<open>
  Traversal of the trees of \<open>utils/ptree.c\<close>: \<open>find_succ\<close> follows the in-order sequence,
  a walk visits every value once and in key order even when its callback removes the node
  it is called on, \<open>ptree_clear\<close> frees every node exactly once, and the checks compiled in
  under \<open>VERIFY_TREE\<close> decide the search-tree order. The properties of the whole container
  stand at the end.
\<close>

section \<open>The successor of a node\<close>

definition first_addr :: "(addr \<times> 'v) list \<Rightarrow> addr" where
  "first_addr xs = (case xs of [] \<Rightarrow> NULL | x # _ \<Rightarrow> fst x)"

lemma first_addr_simps [simp]: "first_addr [] = NULL" "first_addr (x # xs) = fst x"
  by (simp_all add: first_addr_def)

lemma first_addr_append: "xs \<noteq> [] \<Longrightarrow> first_addr (xs @ ys) = first_addr xs"
  by (cases xs) auto

lemma find_min_first:
  "ptree_at h q t \<Longrightarrow> t \<noteq> Leaf \<Longrightarrow> \<exists>l'. find_min h (root_of t) l = Some (Inr (first_addr (inorder t), l'))"
proof (induction t arbitrary: q l)
  case (Node lt x r)
  then show ?case
    using root_of_NULL [of h "fst x" lt] Node.IH(1) [of "fst x" "l + 1"]
    by (subst find_min.simps) (auto simp: mem_simps first_addr_append)
qed simp

lemma climb_last:
  "ptree_at h q t \<Longrightarrow> t \<noteq> Leaf \<Longrightarrow> \<exists>l'. climb h (fst (last (inorder t))) l = climb h (root_of t) l'"
proof (induction t arbitrary: q l)
  case (Node lt x r)
  show ?case
  proof (cases "r = Leaf")
    case False
    obtain l' where "climb h (fst (last (inorder r))) l = climb h (root_of r) l'"
      using Node.IH(2) [of "fst x" l] Node.prems(1) False by auto
    moreover have "climb h (root_of r) l' = climb h (fst x) (l' - 1)"
    proof -
      obtain n where "h (root_of r) = Some n" "pn_parent n = fst x"
        using False Node.prems(1) by (cases r) auto
      then show ?thesis
        using Node.prems(1) by (subst climb.simps) (simp add: mem_simps)
    qed
    ultimately show ?thesis using False by auto
  qed auto
qed simp

lemma find_succ_subtree:
  assumes "ptree_at h q t" and "distinct_tree t" and "inorder t = xs @ (p, v) # ys"
  shows "\<exists>l'. find_succ h p l = (if ys = [] then climb h (root_of t) l' else Some (Inr (first_addr ys, l')))"
  using assms
proof (induction t arbitrary: q xs ys l)
  case (Node lt x r)
  have at: "fst x \<noteq> NULL" "ptree_at h (fst x) lt" "ptree_at h (fst x) r"
    and hx: "h (fst x) = Some \<lparr> pn_value = snd x, pn_parent = q, pn_left = root_of lt, pn_right = root_of r \<rparr>"
    and ds: "distinct_tree lt" "distinct_tree r" "addrs lt \<inter> addrs r = {}"
    using Node.prems(1,2) by simp_all
  consider (here) "x = (p, v)" "xs = inorder lt" "ys = inorder r"
    | (left) zs where "inorder lt = xs @ (p, v) # zs" "ys = zs @ x # inorder r"
    | (right) zs where "inorder r = zs @ (p, v) # ys"
    using Node.prems(3) by (auto simp: append_eq_append_conv2 append_eq_Cons_conv Cons_eq_append_conv)
  then show ?case
  proof cases
    case here
    show ?thesis
    proof (cases "r = Leaf")
      case True
      then show ?thesis using here hx by (auto simp: find_succ_def mem_simps)
    next
      case False
      then have "root_of r \<noteq> NULL" "inorder r \<noteq> []" using root_of_NULL [OF at(3)] by simp_all
      with find_min_first [OF at(3) False, of "l + 1"] show ?thesis
        using here hx by (auto simp: find_succ_def mem_simps)
    qed
  next
    case left
    from Node.IH(1) [OF at(2) ds(1) left(1), of l] obtain l' where
      s: "find_succ h p l = (if zs = [] then climb h (root_of lt) l' else Some (Inr (first_addr zs, l')))"
      by blast
    have lF: "lt \<noteq> Leaf" using left(1) by auto
    have "root_of r \<noteq> root_of lt"
      using root_of_notin [OF at(2,3) ds(3)] root_of_in [OF lF] root_of_NULL [OF at(2)] lF
      by (metis root_of_in root_of.simps(1))
    moreover obtain n where "h (root_of lt) = Some n" "pn_parent n = fst x"
      using lF at(2) by (cases lt) auto
    ultimately have "climb h (root_of lt) l' = Some (Inr (fst x, l' - 1))"
      using at(1) hx by (subst climb.simps) (simp add: mem_simps)
    then show ?thesis using s left(2) by (auto simp: first_addr_append)
  next
    case right
    from Node.IH(2) [OF at(3) ds(2) right, of l] obtain l' where
      s: "find_succ h p l = (if ys = [] then climb h (root_of r) l' else Some (Inr (first_addr ys, l')))"
      by blast
    have rF: "r \<noteq> Leaf" using right by auto
    obtain n where "h (root_of r) = Some n" "pn_parent n = fst x"
      using rF at(3) by (cases r) auto
    then have "climb h (root_of r) l' = climb h (fst x) (l' - 1)"
      using at(1) hx by (subst climb.simps) (simp add: mem_simps)
    then show ?thesis using s by auto
  qed
qed simp

lemma find_succ_rep:
  assumes "rep T t" and "inorder t = xs @ (p, v) # ys"
  shows "\<exists>l'. find_succ (fst T) p l = Some (Inr (first_addr ys, l'))"
proof -
  have at: "ptree_at (fst T) NULL t" and ds: "distinct_tree t" using assms(1) by (simp_all add: rep_def)
  have "t \<noteq> Leaf" using assms(2) by auto
  with at obtain n where "fst T (root_of t) = Some n" "pn_parent n = NULL" by (cases t) auto
  then have "climb (fst T) (root_of t) l' = Some (Inr (NULL, l' - 1))" for l'
    by (subst climb.simps) (simp add: mem_simps)
  with find_succ_subtree [OF at ds assms(2), of l] show ?thesis by (cases "ys = []") auto
qed

section \<open>Walking in order\<close>

text \<open>
  What a callback does, seen from outside: given the node and its state it says whether to
  go on, whether the node is still in the tree afterwards, and the new state. \<open>walk_seq\<close> is
  the walk over a sequence: the outcome, what is left of the sequence, the final state.
\<close>

type_synonym ('x, 's) effect = "'x \<Rightarrow> 's \<Rightarrow> ptree_walk_res \<times> bool \<times> 's"

fun walk_seq :: "('x, 's) effect \<Rightarrow> 'x list \<Rightarrow> 's \<Rightarrow> ptree_walk_res \<times> 'x list \<times> 's" where
  "walk_seq f [] s = (PTREE_WALK_CONTINUE, [], s)"
| "walk_seq f (x # xs) s =
     (let (res, keep, s') = f x s; left = (if keep then [x] else []) in
      if res = PTREE_WALK_STOP then (res, left @ xs, s')
      else let (res', ys, s'') = walk_seq f xs s' in (res', left @ ys, s''))"

text \<open>\<open>safe done s\<close>: what the callback relies on when the nodes \<open>done\<close> are behind it.\<close>

definition does :: "(addr \<Rightarrow> int \<Rightarrow> 'v ptree \<times> 's \<Rightarrow> (ptree_walk_res \<times> 'v ptree \<times> 's) run)
    \<Rightarrow> (addr \<times> 'v, 's) effect \<Rightarrow> ((addr \<times> 'v) list \<Rightarrow> (addr \<times> 'v) list \<Rightarrow> 's \<Rightarrow> bool) \<Rightarrow> bool" where
  "does func f safe \<longleftrightarrow>
     (\<forall>T t s l xs x ys. rep T t \<and> inorder t = xs @ x # ys \<and> safe xs (x # ys) s \<longrightarrow>
        (case f x s of (res, keep, s') \<Rightarrow>
           (res = PTREE_WALK_STOP \<or> safe (if keep then xs @ [x] else xs) ys s')
           \<and> (\<exists>T' t'. func (fst x) l (T, s) = Some (Inr (res, (T', s'))) \<and> rep T' t'
                \<and> inorder t' = (if keep then xs @ x # ys else xs @ ys))))"

lemma doesD:
  assumes "does func f safe" and "rep T t" and "inorder t = xs @ x # ys" and "safe xs (x # ys) s"
    and "f x s = (res, keep, s')"
  shows "(res = PTREE_WALK_STOP \<or> safe (if keep then xs @ [x] else xs) ys s')
         \<and> (\<exists>T' t'. func (fst x) l (T, s) = Some (Inr (res, (T', s'))) \<and> rep T' t'
              \<and> inorder t' = (if keep then xs @ x # ys else xs @ ys))"
proof -
  have h: "rep T t \<and> inorder t = xs @ x # ys \<and> safe xs (x # ys) s" using assms(2-4) by blast
  have "case f x s of (res, keep, s') \<Rightarrow>
           (res = PTREE_WALK_STOP \<or> safe (if keep then xs @ [x] else xs) ys s')
           \<and> (\<exists>T' t'. func (fst x) l (T, s) = Some (Inr (res, (T', s'))) \<and> rep T' t'
                \<and> inorder t' = (if keep then xs @ x # ys else xs @ ys))"
    by (rule assms(1) [unfolded does_def, THEN spec [of _ T], THEN spec [of _ t], THEN spec [of _ s],
        THEN spec [of _ l], THEN spec [of _ xs], THEN spec [of _ x], THEN spec [of _ ys], THEN mp, OF h])
  then show ?thesis by (simp only: assms(5) prod.case)
qed

lemma inorder_loop_seq:
  assumes "does func f safe" and "rep T t" and "inorder t = xs @ ys" and "safe xs ys s"
  shows "\<exists>T' t'. inorder_loop func (first_addr ys) l (T, s) =
                Some (Inr (fst (walk_seq f ys s), (T', snd (snd (walk_seq f ys s)))))
              \<and> rep T' t' \<and> inorder t' = xs @ fst (snd (walk_seq f ys s))"
  using assms(2-)
proof (induction ys arbitrary: T t xs s l)
  case Nil
  then show ?case by (subst inorder_loop.simps) auto
next
  case (Cons x ys)
  obtain p v where x: "x = (p, v)" by force
  obtain res keep s' where f: "f x s = (res, keep, s')" by (metis prod_cases3)
  from doesD [OF assms(1) Cons.prems f, of l] obtain T' t' where
    st: "func p l (T, s) = Some (Inr (res, (T', s')))" "rep T' t'"
      "inorder t' = (if keep then xs @ x # ys else xs @ ys)" and sf: "res = PTREE_WALK_STOP \<or> safe (if keep then xs @ [x] else xs) ys s'"
    unfolding x fst_conv by blast
  obtain l' where succ: "find_succ (fst T) p l = Some (Inr (first_addr ys, l'))"
    using find_succ_rep [OF Cons.prems(1), of xs p v ys l] Cons.prems(2) by (auto simp: x)
  have "p \<noteq> NULL"
  proof -
    have "p \<in> addrs t" using Cons.prems(2) by (force simp: x simp flip: set_inorder)
    then show ?thesis using Cons.prems(1) ptree_at_live [of "fst T" NULL t p] by (simp add: rep_def)
  qed
  then have unf: "inorder_loop func p l (T, s) =
      (if res = PTREE_WALK_STOP then Some (Inr (res, (T', s')))
       else inorder_loop func (first_addr ys) (if l' < 0 then 0 else l') (T', s'))"
    by (subst inorder_loop.simps) (simp add: succ st(1))
  show ?case
  proof (cases "res = PTREE_WALK_STOP")
    case True
    with st(2,3) unf show ?thesis by (cases keep) (auto simp: x f [unfolded x] Let_def)
  next
    case False
    from False sf have sf: "safe (if keep then xs @ [x] else xs) ys s'" by simp
    from Cons.IH [OF st(2) _ sf, of "if l' < 0 then 0 else l'"] st(3) unf False show ?thesis
      by (cases keep) (auto simp: x f [unfolded x] Let_def split: prod.splits)
  qed
qed

lemma walk_int_inorder_seq:
  assumes "does func f safe" and "rep T t" and "safe [] (inorder t) s"
  shows "\<exists>T' t'. walk_int func PTREE_INORDER (snd T) l (T, s) =
                Some (Inr (fst (walk_seq f (inorder t) s), (T', snd (snd (walk_seq f (inorder t) s)))))
              \<and> rep T' t' \<and> inorder t' = fst (snd (walk_seq f (inorder t) s))"
proof (cases "t = Leaf")
  case True
  with assms(2) show ?thesis by (subst walk_int.simps) (auto simp: rep_def)
next
  case False
  have at: "ptree_at (fst T) NULL t" "snd T = root_of t" using assms(2) by (simp_all add: rep_def)
  obtain l' where "find_min (fst T) (root_of t) l = Some (Inr (first_addr (inorder t), l'))"
    using find_min_first [OF at(1) False] by blast
  moreover have "root_of t \<noteq> NULL" using root_of_NULL [OF at(1)] False by simp
  ultimately have "walk_int func PTREE_INORDER (snd T) l (T, s) = inorder_loop func (first_addr (inorder t)) l' (T, s)"
    by (subst walk_int.simps) (simp add: at(2))
  with inorder_loop_seq [OF assms(1,2), of "[]" "inorder t" s l'] assms(3) show ?thesis by simp
qed


text \<open>Callbacks over the values, as the users of the container write them.\<close>

definition obeys :: "('v, 's) visitor \<Rightarrow> ('v, 's) effect \<Rightarrow> bool" where
  "obeys func f \<longleftrightarrow>
     (\<forall>T t s l p v. rep T t \<and> (p, v) \<in> set_tree t \<longrightarrow>
        (case f v s of (res, keep, s') \<Rightarrow>
           \<exists>T'. func v l p (T, s) = Some (Inr (res, (T', s')))
              \<and> rep T' (if keep then t else del_at p t)))"

lemma inorder_del_split:
  assumes "distinct_tree t" and "inorder t = xs @ (p, v) # ys"
  shows "inorder (del_at p t) = xs @ ys"
proof -
  have "distinct (map fst (xs @ (p, v) # ys))" using assms by (simp add: distinct_tree_def)
  then have "filter (\<lambda>x. fst x \<noteq> p) xs = xs" "filter (\<lambda>x. fst x \<noteq> p) ys = ys"
    by (force simp: filter_id_conv)+
  then show ?thesis by (simp add: inorder_del_at [OF assms(1)] assms(2))
qed

lemma does_visit:
  assumes "obeys func f"
  shows "does (visit func) (\<lambda>x. f (snd x)) (\<lambda>_ _ _. True)"
  unfolding does_def
proof (intro allI impI)
  fix T :: "'a ptree" and t and s :: 'b and l xs x ys
  assume a: "rep T t \<and> inorder t = xs @ x # ys \<and> True"
  obtain p v where x: "x = (p, v)" by force
  obtain res keep s' where f: "f v s = (res, keep, s')" by (metis prod_cases3)
  have "(p, v) \<in> set (inorder t)" using a x by simp
  then have pv: "(p, v) \<in> set_tree t" by simp
  with a have "rep T t \<and> (p, v) \<in> set_tree t" by simp
  from assms [unfolded obeys_def, THEN spec [of _ T], THEN spec [of _ t], THEN spec [of _ s],
      THEN spec [of _ l], THEN spec [of _ p], THEN spec [of _ v], THEN mp, OF this]
  obtain T' where T': "func v l p (T, s) = Some (Inr (res, (T', s')))" "rep T' (if keep then t else del_at p t)"
    by (auto simp: f)
  obtain n where "fst T p = Some n" "pn_value n = v" using rep_value a pv by metis
  moreover have "distinct_tree t" using a by (simp add: rep_def)
  ultimately show "case f (snd x) s of (res, keep, s') \<Rightarrow>
      (res = PTREE_WALK_STOP \<or> True) \<and> (\<exists>T' t'. visit func (fst x) l (T, s) = Some (Inr (res, (T', s'))) \<and> rep T' t'
            \<and> inorder t' = (if keep then xs @ x # ys else xs @ ys))"
    using T' a inorder_del_split [of t xs p v ys]
    by (cases keep) (auto simp: x f visit_def mem_simps)
qed

lemma walk_seq_map:
  "walk_seq f (map g xs) s =
   (let (r, ys, s') = walk_seq (\<lambda>x. f (g x)) xs s in (r, map g ys, s'))"
  by (induction xs arbitrary: s) (auto simp: Let_def split: prod.splits)

lemma set_walk_seq: "set (fst (snd (walk_seq f xs s))) \<subseteq> set xs"
proof (induction xs arbitrary: s)
  case (Cons x xs)
  obtain r keep s' where f: "f x s = (r, keep, s')" by (metis prod_cases3)
  show ?case
    using Cons.IH [of s'] by (auto simp: f Let_def split: prod.splits)
qed simp

lemma key_sorted_walk_seq: "key_sorted key xs \<Longrightarrow> key_sorted key (fst (snd (walk_seq f xs s)))"
proof (induction xs arbitrary: s)
  case (Cons x xs)
  obtain r keep s' where f: "f x s = (r, keep, s')" by (metis prod_cases3)
  show ?case
    using Cons.IH [of s'] Cons.prems set_walk_seq [of f xs s'] by (auto simp: f Let_def split: prod.splits)
qed simp

lemma ptree_walk_seq:
  assumes "obeys func f" and "tree_of key T xs"
  shows "\<exists>T'. ptree_walk PTREE_INORDER func (T, s) =
               Some (Inr (fst (walk_seq f xs s), (T', snd (snd (walk_seq f xs s)))))
           \<and> tree_of key T' (fst (snd (walk_seq f xs s)))"
proof -
  obtain h t where t: "rep T t" "map snd (inorder t) = xs" "key_sorted key xs"
    by (rule tree_of_unfold [OF assms(2)])
  from walk_int_inorder_seq [OF does_visit [OF assms(1)] t(1), where s = s and l = 0] key_sorted_walk_seq [OF t(3), of f s]
  show ?thesis
    unfolding ptree_walk_def tree_of_def t(2) [symmetric]
    by (auto simp: walk_seq_map Let_def split: prod.splits)
qed

text \<open>A callback that removes the nodes it does not want.\<close>

definition remove_unless :: "('v \<Rightarrow> bool) \<Rightarrow> ('v, 's) visitor" where
  "remove_unless P v level pn st =
     (if P v then Some (Inr (PTREE_WALK_CONTINUE, st))
      else obind (ptree_inorder_walk_remove (fst st) pn) (\<lambda>(_, _, T').
             Some (Inr (PTREE_WALK_CONTINUE, (T', snd st)))))"

lemma remove_unless_obeys: "obeys (remove_unless P) (\<lambda>v s. (PTREE_WALK_CONTINUE, P v, s))"
  unfolding obeys_def
proof (intro allI impI)
  fix T :: "'a ptree" and t and s :: 'b and l p v
  assume a: "rep T t \<and> (p, v) \<in> set_tree t"
  then have "p \<in> addrs t" by force
  moreover from this have "p \<noteq> NULL" using a ptree_at_live [of "fst T" NULL t p] by (simp add: rep_def)
  ultimately show "case (PTREE_WALK_CONTINUE, P v, s) of (res, keep, s') \<Rightarrow>
      \<exists>T'. remove_unless P v l p (T, s) = Some (Inr (res, (T', s')))
         \<and> rep T' (if keep then t else del_at p t)"
    using remove_node_rep [of T t p] a
    by (cases "P v") (auto simp: remove_unless_def ptree_inorder_walk_remove_def simp del: split_paired_Ex)
qed

lemma walk_seq_filter: "walk_seq (\<lambda>v s. (PTREE_WALK_CONTINUE, P v, s)) xs s = (PTREE_WALK_CONTINUE, filter P xs, s)"
  by (induction xs) auto

section \<open>Walking in the other orders, and freeing a tree\<close>

lemma walk_int_clear:
  assumes "ptree_at h q t" and "distinct_tree t"
  shows "walk_int ptree_clear_func PTREE_POSTORDER (root_of t) l ((h, rt), ()) =
         Some (Inr (PTREE_WALK_CONTINUE, ((h |` (- addrs t), rt), ())))"
  using assms
proof (induction t arbitrary: h q l)
  case Leaf
  have "h |` UNIV = h" by (simp add: restrict_map_def)
  then show ?case by (subst walk_int.simps) simp
next
  case (Node lt x r)
  have at: "fst x \<noteq> NULL" "ptree_at h (fst x) lt" "ptree_at h (fst x) r"
    and hx: "h (fst x) = Some \<lparr> pn_value = snd x, pn_parent = q, pn_left = root_of lt, pn_right = root_of r \<rparr>"
    and ds: "distinct_tree lt" "distinct_tree r" "fst x \<notin> addrs lt" "fst x \<notin> addrs r" "addrs lt \<inter> addrs r = {}"
    using Node.prems by simp_all
  have r: "ptree_at (h |` (- addrs lt)) (fst x) r"
    using ds(5) by (intro ptree_at_frame [OF at(3)]) (auto simp: restrict_map_def)
  show ?case
    using at(1) hx ds(3,4)
    by (subst walk_int.simps)
       (simp add: mem_simps Node.IH(1) [OF at(2) ds(1)] Node.IH(2) [OF r ds(2)] ptree_clear_func_def release_def,
        rule arg_cong [of _ _ "restrict_map h"], auto)
qed

text \<open>Callbacks that leave the tree alone, in pre-order and in post-order.\<close>

definition reads_only :: "('v, 's) visitor \<Rightarrow> ('v \<Rightarrow> 's \<Rightarrow> ptree_walk_res \<times> 's) \<Rightarrow> bool" where
  "reads_only func f \<longleftrightarrow> (\<forall>T s l p v. func v l p (T, s) = Some (Inr (fst (f v s), (T, snd (f v s)))))"

fun until :: "('v \<Rightarrow> 's \<Rightarrow> ptree_walk_res \<times> 's) \<Rightarrow> 'v list \<Rightarrow> 's \<Rightarrow> ptree_walk_res \<times> 's" where
  "until f [] s = (PTREE_WALK_CONTINUE, s)"
| "until f (x # xs) s = (if fst (f x s) = PTREE_WALK_STOP then f x s else until f xs (snd (f x s)))"

lemma until_append:
  "until f (xs @ ys) s = (if fst (until f xs s) = PTREE_WALK_STOP then until f xs s else until f ys (snd (until f xs s)))"
  by (induction xs arbitrary: s) auto

fun in_order :: "ptree_order \<Rightarrow> 'x tree \<Rightarrow> 'x list" where
  "in_order PTREE_PREORDER t = preorder t"
| "in_order PTREE_INORDER t = inorder t"
| "in_order PTREE_POSTORDER t = postorder t"

lemma walk_not_stop: "(r :: ptree_walk_res) \<noteq> PTREE_WALK_STOP \<longleftrightarrow> r = PTREE_WALK_CONTINUE"
  by (cases r) auto

lemma walk_int_reads:
  assumes "reads_only func f" and "ptree_at (fst T) q t" and "order \<noteq> PTREE_INORDER"
  shows "walk_int (visit func) order (root_of t) l (T, s) =
         (case until f (map snd (in_order order t)) s of (r, s') \<Rightarrow> Some (Inr (r, (T, s'))))"
  using assms(2)
proof (induction t arbitrary: q l s)
  case Leaf
  then show ?case by (subst walk_int.simps) (cases order; simp)
next
  case (Node lt x r)
  have at: "fst x \<noteq> NULL" "ptree_at (fst T) (fst x) lt" "ptree_at (fst T) (fst x) r"
    and hx: "fst T (fst x) = Some \<lparr> pn_value = snd x, pn_parent = q, pn_left = root_of lt, pn_right = root_of r \<rparr>"
    using Node.prems by simp_all
  have v: "visit func (fst x) l (T, s) = Some (Inr (fst (f (snd x) s), (T, snd (f (snd x) s))))" for s l
  proof -
    have "func (snd x) l (fst x) (T, s) = Some (Inr (fst (f (snd x) s), (T, snd (f (snd x) s))))"
      using assms(1) unfolding reads_only_def by blast
    then show ?thesis using hx by (simp add: visit_def mem_simps)
  qed
  note ih = Node.IH(1) [OF at(2)] Node.IH(2) [OF at(3)]
  show ?case
  proof (cases order)
    case PTREE_PREORDER
    note ih' = ih [unfolded PTREE_PREORDER]
    show ?thesis
      unfolding PTREE_PREORDER using at(1) hx
      by (subst walk_int.simps) (simp add: mem_simps v ih' until_append walk_not_stop split_def)
  next
    case PTREE_POSTORDER
    note ih' = ih [unfolded PTREE_POSTORDER]
    show ?thesis
      unfolding PTREE_POSTORDER using at(1) hx
      by (subst walk_int.simps) (simp add: mem_simps v ih' until_append walk_not_stop split_def)
  qed (use assms(3) in simp)
qed

section \<open>The checks of VERIFY_TREE\<close>

lemma ptree_at_children:
  "ptree_at h q t \<Longrightarrow> (p, v) \<in> set_tree t \<Longrightarrow>
   \<exists>n. h p = Some n \<and> pn_value n = v
     \<and> (pn_left n \<noteq> NULL \<longrightarrow> (\<exists>l. h (pn_left n) = Some l \<and> pn_parent l = p))
     \<and> (pn_right n \<noteq> NULL \<longrightarrow> (\<exists>r. h (pn_right n) = Some r \<and> pn_parent r = p))"
proof (induction t arbitrary: q)
  case (Node l x r)
  have c: "\<exists>m. h (root_of u) = Some m \<and> pn_parent m = fst x" if "root_of u \<noteq> NULL" "ptree_at h (fst x) u" for u
    using that by (cases u) auto
  consider "x = (p, v)" | "(p, v) \<in> set_tree l" | "(p, v) \<in> set_tree r" using Node.prems(2) by auto
  then show ?case
  proof cases
    case 1
    then show ?thesis using Node.prems(1) c [of l] c [of r] by auto
  qed (use Node in auto)
qed simp

definition last_addr :: "(addr \<times> 'v) list \<Rightarrow> addr" where
  "last_addr xs = (if xs = [] then NULL else fst (last xs))"

definition verify_effect :: "('v \<Rightarrow> 'v \<Rightarrow> int) \<Rightarrow> (addr \<Rightarrow> 'v option) \<Rightarrow> (addr \<times> 'v, addr) effect" where
  "verify_effect cmp val x prev =
     (if prev \<noteq> NULL \<and> cmp (snd x) (the (val prev)) \<le> 0 then (PTREE_WALK_STOP, True, prev)
      else (PTREE_WALK_CONTINUE, True, fst x))"

lemma does_verify:
  "does (verify_node cmp) (verify_effect cmp (map_of L)) (\<lambda>xs ys prev. L = xs @ ys \<and> (ys = [] \<or> prev = last_addr xs))"
  unfolding does_def
proof (intro allI impI)
  fix T :: "'a ptree" and t prev l xs x ys
  assume a: "rep T t \<and> inorder t = xs @ x # ys \<and> L = xs @ x # ys \<and> (x # ys = [] \<or> prev = last_addr xs)"
  obtain p v where x: "x = (p, v)" by force
  have at: "ptree_at (fst T) NULL t" using a by (simp add: rep_def)
  have ds: "distinct (map fst (xs @ x # ys))" using a unfolding rep_def distinct_tree_def by metis
  have "(p, v) \<in> set (inorder t)" using a x by simp
  then obtain n where n: "fst T p = Some n" "pn_value n = v"
    "pn_left n \<noteq> NULL \<Longrightarrow> \<exists>l. fst T (pn_left n) = Some l \<and> pn_parent l = p"
    "pn_right n \<noteq> NULL \<Longrightarrow> \<exists>r. fst T (pn_right n) = Some r \<and> pn_parent r = p"
    using ptree_at_children [OF at] by (metis set_inorder)
  have pv: "\<exists>m. fst T prev = Some m \<and> map_of L prev = Some (pn_value m)" if "prev \<noteq> NULL"
  proof -
    have e: "xs \<noteq> []" "prev = fst (last xs)" using that a by (auto simp: last_addr_def)
    then have m: "(prev, snd (last xs)) \<in> set (xs @ x # ys)" using last_in_set [of xs] by simp
    have L: "L = xs @ x # ys" and t: "inorder t = xs @ x # ys" using a by simp_all
    have "map_of L prev = Some (snd (last xs))" unfolding L by (rule map_of_is_SomeI [OF ds m])
    moreover have "(prev, snd (last xs)) \<in> set_tree t" using m unfolding t [symmetric] by simp
    ultimately show ?thesis using rep_value a by metis
  qed
  have lp: "obind (Some (if pn_left n = NULL then Inr p else cbind (deref (fst T) (pn_left n)) (\<lambda>l. Inr (pn_parent l)))) k = k p"
    and rp: "obind (Some (if pn_right n = NULL then Inr p else cbind (deref (fst T) (pn_right n)) (\<lambda>l. Inr (pn_parent l)))) k = k p"
    for k :: "addr \<Rightarrow> (ptree_walk_res \<times> 'a ptree \<times> addr) run"
    using n(3,4) by (auto simp: mem_simps)
  have run: "verify_node cmp p l (T, prev) =
      Some (Inr (fst (verify_effect cmp (map_of L) x prev), T, snd (snd (verify_effect cmp (map_of L) x prev))))"
  proof (cases "prev = NULL")
    case True
    then show ?thesis
      unfolding verify_node_def Let_def fst_conv snd_conv deref_live [of "fst T", OF n(1)] obind_simps lp rp
      by (simp add: verify_effect_def x)
  next
    case False
    then obtain m where "fst T prev = Some m" "map_of L prev = Some (pn_value m)" using pv by blast
    then show ?thesis
      unfolding verify_node_def Let_def fst_conv snd_conv deref_live [of "fst T", OF n(1)] obind_simps lp rp
      using False by (simp add: verify_effect_def x mem_simps n(2))
  qed
  show "case verify_effect cmp (map_of L) x prev of (res, keep, s') \<Rightarrow>
      (res = PTREE_WALK_STOP \<or> L = (if keep then xs @ [x] else xs) @ ys \<and> (ys = [] \<or> s' = last_addr (if keep then xs @ [x] else xs)))
      \<and> (\<exists>T' t'. verify_node cmp (fst x) l (T, prev) = Some (Inr (res, T', s')) \<and> rep T' t'
            \<and> inorder t' = (if keep then xs @ x # ys else xs @ ys))"
    using a run by (auto simp: verify_effect_def x last_addr_def)
qed

lemma walk_seq_verify:
  assumes "distinct (map fst (xs @ ys))" and "NULL \<notin> fst ` set (xs @ ys)" and "successively (\<lambda>x y. 0 < cmp (snd y) (snd x)) xs"
  shows "fst (walk_seq (verify_effect cmp (map_of (xs @ ys))) ys (last_addr xs)) \<noteq> PTREE_WALK_STOP
     \<longleftrightarrow> successively (\<lambda>x y. 0 < cmp (snd y) (snd x)) (xs @ ys)"
  using assms
proof (induction ys arbitrary: xs)
  case (Cons x ys)
  have v: "map_of (xs @ x # ys) (last_addr xs) = Some (snd (last xs))" if "xs \<noteq> []"
    using that last_in_set [OF that] by (intro map_of_is_SomeI [OF Cons.prems(1)]) (auto simp: last_addr_def)
  have nz: "last_addr xs \<noteq> NULL \<longleftrightarrow> xs \<noteq> []"
    using Cons.prems(2) last_in_set [of xs] by (auto simp: last_addr_def)
  have suc: "successively (\<lambda>x y. 0 < cmp (snd y) (snd x)) (xs @ [x]) \<longleftrightarrow> (xs = [] \<or> 0 < cmp (snd x) (snd (last xs)))"
    using Cons.prems(3) by (auto simp: successively_append_iff)
  have all: "successively (\<lambda>x y. 0 < cmp (snd y) (snd x)) (xs @ x # ys) \<Longrightarrow>
      successively (\<lambda>x y. 0 < cmp (snd y) (snd x)) (xs @ [x])"
    by (auto simp: successively_append_iff)
  show ?case
  proof (cases "xs = [] \<or> 0 < cmp (snd x) (snd (last xs))")
    case True
    then have e: "verify_effect cmp (map_of (xs @ x # ys)) x (last_addr xs) = (PTREE_WALK_CONTINUE, True, last_addr (xs @ [x]))"
      using nz v by (auto simp: verify_effect_def last_addr_def simp del: map_of_append)
    from Cons.IH [of "xs @ [x]"] Cons.prems(1,2) suc True show ?thesis
      by (simp add: e Let_def split_def del: map_of_append) 
  next
    case False
    then have "verify_effect cmp (map_of (xs @ x # ys)) x (last_addr xs) = (PTREE_WALK_STOP, True, last_addr xs)"
      using nz v by (auto simp: verify_effect_def simp del: map_of_append)
    with False suc all show ?thesis by (auto simp: Let_def)
  qed
qed simp

lemma verify_tree_decides_tree:
  assumes "rep T t"
  shows "verify_tree cmp T = Some (Inr (successively (\<lambda>x y. 0 < cmp y x) (map snd (inorder t))))"
proof -
  have at: "ptree_at (fst T) NULL t" and ds: "distinct (map fst (inorder t))"
    using assms by (auto simp: rep_def distinct_tree_def)
  have "NULL \<notin> fst ` set (inorder t)"
    using ptree_at_live [OF at, of NULL] by auto
  with walk_seq_verify [of "[]" "inorder t" cmp] ds
    walk_int_inorder_seq [OF does_verify [of cmp "inorder t"] assms, of NULL 0]
  show ?thesis
    by (auto simp: verify_tree_def last_addr_def successively_map)
qed

lemma count_nodes_tree: "rep T t \<Longrightarrow> count_nodes T = Some (Inr (length (inorder t)))"
proof -
  assume r: "rep T t"
  have d: "does count_node (\<lambda>x n. (PTREE_WALK_CONTINUE, True, n + 1)) (\<lambda>_ _ _. True)"
    by (auto simp: does_def count_node_def)
  have "walk_seq (\<lambda>x n. (PTREE_WALK_CONTINUE, True, n + 1)) xs n = (PTREE_WALK_CONTINUE, xs, n + length xs)"
    for xs :: "(addr \<times> 'a) list" and n
    by (induction xs arbitrary: n) auto
  with walk_int_inorder_seq [OF d r, of 0 0] show ?thesis
    by (auto simp: count_nodes_def)
qed


section \<open>Properties\<close>

lemma okv_seq_put:
  assumes "key_compare cmp key okv" and "okv v" and "\<forall>x \<in> set xs. okv x" and "key_sorted key xs"
  shows "\<forall>x \<in> set (seq_put cmp v xs). okv x" and "\<forall>x \<in> set (seq_del cmp v xs). okv x"
  using key_compare.set_seq_put [OF assms] key_compare.seq_del_key [OF assms] assms(2,3) by auto

lemma tree_of_sorted: "tree_of key T xs \<Longrightarrow> key_sorted key xs"
  by (simp add: tree_of_def)

text \<open>A tree of two strings, as an input for the properties.\<close>

definition sample :: "string ptree" where
  "sample = ([1 \<mapsto> \<lparr> pn_value = ''b'', pn_parent = 0, pn_left = 2, pn_right = 0 \<rparr>,
              2 \<mapsto> \<lparr> pn_value = ''a'', pn_parent = 1, pn_left = 0, pn_right = 0 \<rparr>], 1)"

lemma sample_rep: "rep sample (Node (Node Leaf (2, ''a'') Leaf) (1, ''b'') Leaf)"
  by (simp add: rep_def sample_def)

lemma sample_tree: "tree_of (\<lambda>s. s) sample [''a'', ''b'']"
  using sample_rep by (auto simp: tree_of_def)

text \<open>
  C5: \<open>ptree_replace\<close> makes the heap hold the tree with the new value put into its place in
  key order and returns the value it replaced; afterwards \<open>ptree_contains\<close> finds exactly
  the new value under its key and what it found before under every other key. Without
  memory a missing key is reported as a failure and the tree is untouched, while replacing
  the value of a key that is there needs no memory.\<close>

theorem ptree_replace_lookup:
  assumes "key_compare cmp key okv" and "okv v" and "\<forall>x \<in> set xs. okv x" and "tree_of key T xs"
    and "malloc = NULL \<or> fst T malloc = None"
  shows "if seq_find cmp v xs = None \<and> malloc = NULL
         then ptree_replace cmp v malloc T = Some (Inr (False, None, T))
         else \<exists>T'. ptree_replace cmp v malloc T = Some (Inr (True, seq_find cmp v xs, T'))
                 \<and> tree_of key T' (seq_put cmp v xs)
                 \<and> (\<forall>w. okv w \<longrightarrow> ptree_contains cmp w T' =
                      (if key w = key v then Some (Inr (True, Some v)) else ptree_contains cmp w T))"
proof (cases "seq_find cmp v xs = None \<and> malloc = NULL")
  case True
  then show ?thesis using ptree_replace_tree [OF assms] by simp
next
  case False
  then obtain T' where T': "ptree_replace cmp v malloc T = Some (Inr (True, seq_find cmp v xs, T'))"
    "tree_of key T' (seq_put cmp v xs)"
    using ptree_replace_tree [OF assms] by auto
  note sorted = tree_of_sorted [OF assms(4)]
  have "ptree_contains cmp w T' =
      (if key w = key v then Some (Inr (True, Some v)) else ptree_contains cmp w T)" if "okv w" for w
    using ptree_contains_tree [OF assms(1) that okv_seq_put(1) [OF assms(1-3) sorted] T'(2)]
      ptree_contains_tree [OF assms(1) that assms(3,4)]
      key_compare.seq_find_put [OF assms(1,2) that assms(3) sorted]
    by simp
  then show ?thesis using False T' by auto
qed

theorem ptree_replace_lookup_witness:
  "\<exists>T'. ptree_replace strcmp ''c'' 3 sample = Some (Inr (True, None, T'))
      \<and> tree_of (\<lambda>s. s) T' [''a'', ''b'', ''c'']
      \<and> ptree_contains strcmp ''c'' T' = Some (Inr (True, Some ''c''))"
proof -
  have f: "fst sample 3 = None" by (simp add: sample_def)
  have s: "seq_find strcmp ''c'' [''a'', ''b''] = None" "seq_put strcmp ''c'' [''a'', ''b''] = [''a'', ''b'', ''c'']"
    by simp_all
  have nul: "nul_free ''c''" "\<forall>x \<in> set [''a'', ''b'']. nul_free x" by simp_all
  obtain T' where "ptree_replace strcmp ''c'' 3 sample = Some (Inr (True, None, T'))"
    "tree_of (\<lambda>s. s) T' [''a'', ''b'', ''c'']"
    "\<forall>w. nul_free w \<longrightarrow> ptree_contains strcmp w T' =
        (if w = ''c'' then Some (Inr (True, Some ''c'')) else ptree_contains strcmp w sample)"
    using ptree_replace_lookup [OF str.key_compare_axioms nul sample_tree, of 3, unfolded s] f by auto
  then show ?thesis using nul by auto
qed

text \<open>
  C6: \<open>ptree_remove\<close> takes exactly the value with the given key out of the tree, with the
  predecessor relinked into its place where it has two children, and hands the value back;
  afterwards the key is not found and every other key is found as before. A key that is not
  there changes nothing.\<close>

theorem ptree_remove_lookup:
  assumes "key_compare cmp key okv" and "okv v" and "\<forall>x \<in> set xs. okv x" and "tree_of key T xs"
  shows "\<exists>T'. ptree_remove cmp v T = Some (Inr (seq_find cmp v xs \<noteq> None, seq_find cmp v xs, T'))
           \<and> tree_of key T' (seq_del cmp v xs) \<and> (seq_find cmp v xs = None \<longrightarrow> T' = T)
           \<and> (\<forall>w. okv w \<longrightarrow> ptree_contains cmp w T' =
                (if key w = key v then Some (Inr (False, None)) else ptree_contains cmp w T))"
proof -
  obtain T' where T': "ptree_remove cmp v T = Some (Inr (seq_find cmp v xs \<noteq> None, seq_find cmp v xs, T'))"
    "tree_of key T' (seq_del cmp v xs)" "seq_find cmp v xs = None \<longrightarrow> T' = T"
    using ptree_remove_tree [OF assms] by (elim exE conjE) (rule that)
  note sorted = tree_of_sorted [OF assms(4)]
  have "ptree_contains cmp w T' =
      (if key w = key v then Some (Inr (False, None)) else ptree_contains cmp w T)" if "okv w" for w
    using ptree_contains_tree [OF assms(1) that okv_seq_put(2) [OF assms(1-3) sorted] T'(2)]
      ptree_contains_tree [OF assms(1) that assms(3,4)]
      key_compare.seq_find_del [OF assms(1,2) that assms(3) sorted]
    by simp
  then have "\<forall>w. okv w \<longrightarrow> ptree_contains cmp w T' =
      (if key w = key v then Some (Inr (False, None)) else ptree_contains cmp w T)"
    by simp
  with T' show ?thesis by (intro exI [of _ T'] conjI)
qed

theorem ptree_remove_lookup_witness:
  "\<exists>T'. ptree_remove strcmp ''b'' sample = Some (Inr (True, Some ''b'', T')) \<and> tree_of (\<lambda>s. s) T' [''a'']"
proof -
  have s: "seq_find strcmp ''b'' [''a'', ''b''] = Some ''b''" "seq_del strcmp ''b'' [''a'', ''b''] = [''a'']"
    by simp_all
  have nul: "nul_free ''b''" "\<forall>x \<in> set [''a'', ''b'']. nul_free x" by simp_all
  from ptree_remove_lookup [OF str.key_compare_axioms nul sample_tree, unfolded s] show ?thesis
    by (elim exE conjE) (rule exI, rule conjI, simp, assumption)
qed

text \<open>
  an in-order walk calls its callback once on every value of the tree, in key order,
  until the callback says stop, even when the callback removes the node it is called on
  with \<open>ptree_inorder_walk_remove\<close>; the tree left behind holds exactly the values that were
  kept and those that were not reached.\<close>

theorem ptree_walk_inorder:
  assumes "obeys func f" and "tree_of key T xs"
  shows "\<exists>T'. ptree_walk PTREE_INORDER func (T, s) =
               Some (Inr (fst (walk_seq f xs s), (T', snd (snd (walk_seq f xs s)))))
           \<and> tree_of key T' (fst (snd (walk_seq f xs s)))"
  by (rule ptree_walk_seq [OF assms])

theorem ptree_walk_inorder_witness:
  "\<exists>T'. ptree_walk PTREE_INORDER (remove_unless (\<lambda>v. v = ''a'')) (sample, ()) =
         Some (Inr (PTREE_WALK_CONTINUE, (T', ()))) \<and> tree_of (\<lambda>s. s) T' [''a'']"
  using ptree_walk_inorder [OF remove_unless_obeys sample_tree, of "\<lambda>v. v = ''a''" "()"]
  by (simp add: walk_seq_filter)

text \<open>
  Pre-order and post-order walks with a callback that leaves the tree alone visit the
  values in that order until the callback says stop.\<close>

theorem ptree_walk_orders:
  assumes "reads_only func f" and "rep T t" and "order \<noteq> PTREE_INORDER"
  shows "ptree_walk order func (T, s) =
         (case until f (map snd (in_order order t)) s of (r, s') \<Rightarrow> Some (Inr (r, (T, s'))))"
  using walk_int_reads [OF assms(1) _ assms(3), of T NULL t 0 s] assms(2) by (simp add: ptree_walk_def rep_def)

theorem ptree_walk_orders_witness:
  "ptree_walk PTREE_PREORDER (\<lambda>v l p st. Some (Inr (PTREE_WALK_CONTINUE, (fst st, snd st @ [v])))) (sample, []) =
   Some (Inr (PTREE_WALK_CONTINUE, (sample, [''b'', ''a''])))"
proof -
  have r: "reads_only (\<lambda>v l p st. Some (Inr (PTREE_WALK_CONTINUE, (fst st, snd st @ [v]))))
      (\<lambda>v s. (PTREE_WALK_CONTINUE, s @ [v :: string]))"
    by (simp add: reads_only_def)
  show ?thesis
    using ptree_walk_orders [OF r sample_rep, of PTREE_PREORDER "[]"] by simp
qed

text \<open>
  \<open>ptree_clear\<close> frees every node of the tree exactly once, reads no node after it is
  freed, leaves the rest of the heap alone and ends with an empty tree.\<close>

theorem ptree_clear_frees:
  assumes "rep T t"
  shows "ptree_clear T = Some (Inr (fst T |` (- addrs t), NULL))
       \<and> rep (fst T |` (- addrs t), NULL) Leaf"
  using walk_int_clear [of "fst T" NULL t 0 "snd T"] assms
  by (cases T) (auto simp: ptree_clear_def rep_def)

theorem ptree_clear_frees_witness:
  "\<exists>h. ptree_clear sample = Some (Inr (h, NULL)) \<and> h 1 = None \<and> h 2 = None"
  using ptree_clear_frees [OF sample_rep] by simp

text \<open>
  The checks compiled in under \<open>VERIFY_TREE\<close> are exact: on every tree with intact
  links \<open>_verify_tree\<close> succeeds precisely when the values are strictly ascending in key
  order, and \<open>_count_nodes\<close> counts the values.\<close>

theorem verify_tree_decides:
  assumes "key_compare cmp key okv" and "rep T t" and "\<forall>x \<in> set (map snd (inorder t)). okv x"
  shows "verify_tree cmp T = Some (Inr (key_sorted key (map snd (inorder t))))
       \<and> count_nodes T = Some (Inr (size t))"
proof -
  have pos: "0 < cmp y x \<longleftrightarrow> key x < key y" if "okv x" "okv y" for x y
    using key_compare.cmp_pos [OF assms(1)] that by simp
  have "successively (\<lambda>x y. 0 < cmp y x) xs \<longleftrightarrow> key_sorted key xs" if "\<forall>x \<in> set xs. okv x" for xs
  proof -
    have "successively (\<lambda>x y. 0 < cmp y x) xs = successively (\<lambda>x y. key x < key y) xs"
      using that pos by (induction xs rule: induct_list012) auto
    also have "\<dots> = key_sorted key xs"
      unfolding key_sorted_def by (rule successively_conv_sorted_wrt) (auto intro!: transpI)
    finally show ?thesis .
  qed
  then show ?thesis
    using verify_tree_decides_tree [OF assms(2), of cmp] count_nodes_tree [OF assms(2)] assms(3) by simp
qed

theorem verify_tree_decides_witness:
  "verify_tree strcmp sample = Some (Inr True)"
  using verify_tree_decides [OF str.key_compare_axioms sample_rep] by simp

end
