(* ===== verification/TreeShape.thy ===== *)
theory TreeShape
  imports PTreeWalk
begin

text \<open>
  The trees of \<open>ptree.c\<close> without their addresses, for clients whose output depends on the
  shape of the tree (a post-order walk visits children before their parent). Comparisons
  may fault: a client's comparison can abort or dereference NULL.
\<close>

section \<open>Operations on the shape\<close>

fun tr_find :: "('v \<Rightarrow> 'v \<Rightarrow> int cres) \<Rightarrow> 'v \<Rightarrow> 'v tree \<Rightarrow> 'v option cres" where
  "tr_find cmp v Leaf = Inr None"
| "tr_find cmp v (Node l x r) =
     cbind (cmp v x) (\<lambda>c.
       if c = 0 then Inr (Some x) else if c < 0 then tr_find cmp v l else tr_find cmp v r)"

fun tr_put :: "('v \<Rightarrow> 'v \<Rightarrow> int cres) \<Rightarrow> 'v \<Rightarrow> 'v tree \<Rightarrow> 'v tree cres" where
  "tr_put cmp v Leaf = Inr (Node Leaf v Leaf)"
| "tr_put cmp v (Node l x r) =
     cbind (cmp v x) (\<lambda>c.
       if c = 0 then Inr (Node l v r)
       else if c < 0 then cbind (tr_put cmp v l) (\<lambda>l'. Inr (Node l' x r))
       else cbind (tr_put cmp v r) (\<lambda>r'. Inr (Node l x r')))"

fun tr_del :: "('v \<Rightarrow> 'v \<Rightarrow> int cres) \<Rightarrow> 'v \<Rightarrow> 'v tree \<Rightarrow> 'v tree cres" where
  "tr_del cmp v Leaf = Inr Leaf"
| "tr_del cmp v (Node l x r) =
     cbind (cmp v x) (\<lambda>c.
       if c = 0 then Inr (join l r)
       else if c < 0 then cbind (tr_del cmp v l) (\<lambda>l'. Inr (Node l' x r))
       else cbind (tr_del cmp v r) (\<lambda>r'. Inr (Node l x r')))"

text \<open>\<open>ptree_replace\<close> needs memory only for a new node.\<close>

definition tr_replace :: "('v \<Rightarrow> 'v \<Rightarrow> int cres) \<Rightarrow> 'v \<Rightarrow> memory \<Rightarrow> 'v tree \<Rightarrow> (bool \<times> 'v option \<times> 'v tree \<times> memory) cres" where
  "tr_replace cmp v mem t =
     cbind (tr_find cmp v t) (\<lambda>old.
       case old of
         Some x \<Rightarrow> cbind (tr_put cmp v t) (\<lambda>t'. Inr (True, Some x, t', mem))
       | None \<Rightarrow>
           (case alloc mem of
              (False, mem') \<Rightarrow> Inr (False, None, t, mem')
            | (True, mem') \<Rightarrow> cbind (tr_put cmp v t) (\<lambda>t'. Inr (True, None, t', mem'))))"

text \<open>A post-order walk whose callback removes the nodes that fail \<open>P\<close>.\<close>

fun tr_prune :: "('x \<Rightarrow> bool) \<Rightarrow> 'x tree \<Rightarrow> 'x tree" where
  "tr_prune P Leaf = Leaf"
| "tr_prune P (Node l x r) =
     (if P x then Node (tr_prune P l) x (tr_prune P r) else join (tr_prune P l) (tr_prune P r))"

lemma inorder_prune: "inorder (tr_prune P t) = filter P (inorder t)"
  by (induction t) (simp_all add: inorder_join)

lemma prune_all [simp]: "tr_prune (\<lambda>_. False) t = Leaf"
  by (induction t) (simp_all add: join_def)

section \<open>The routines keep the shape\<close>

lemma map_join: "map_tree f (join l r) = join (map_tree f l) (map_tree f r)"
proof -
  have m: "t \<noteq> Leaf \<Longrightarrow> f (max_of t) = max_of (map_tree f t)" for t
    by (induction t) auto
  have w: "map_tree f (without_max t) = without_max (map_tree f t)" for t
    by (induction t) auto
  show ?thesis by (simp add: join_def m w)
qed

lemma tput_shape: "tr_put (\<lambda>x y. Inr (cmp x y)) v (map_tree snd t) = Inr (map_tree snd (tput cmp v a t))"
  by (induction t) (simp_all add: Let_def)

lemma locate_zero_in: "locate cmp v t pp s c = (0, p, pp') \<Longrightarrow> c \<noteq> 0 \<Longrightarrow> p \<in> addrs t"
  by (induction t arbitrary: pp s c) (force simp: Let_def split: if_splits)+

lemma del_shape:
  "locate cmp v t pp s c = (0, p, pp') \<Longrightarrow> c \<noteq> 0 \<Longrightarrow> distinct_tree t \<Longrightarrow>
   tr_del (\<lambda>x y. Inr (cmp x y)) v (map_tree snd t) = Inr (map_tree snd (del_at p t))"
proof (induction t arbitrary: pp s c)
  case (Node l x r)
  have ds: "fst x \<notin> addrs l" "fst x \<notin> addrs r" "addrs l \<inter> addrs r = {}" "distinct_tree l" "distinct_tree r"
    using Node.prems(3) by simp_all
  let ?c = "cmp v (snd x)"
  consider "?c = 0" | "?c < 0" | "?c > 0" by linarith
  then show ?case
  proof cases
    case 1
    with Node.prems show ?thesis by (simp add: Let_def map_join)
  next
    case 2
    with Node.prems have loc: "locate cmp v l (Left_Of (fst x)) (fst x) ?c = (0, p, pp')" by (simp add: Let_def)
    have p: "p \<in> addrs l" using locate_zero_in [OF loc] 2 by simp
    with ds(1) have "fst x \<noteq> p" by metis
    with p 2 Node.IH(1) [OF loc _ ds(4)] show ?thesis by (simp add: Let_def)
  next
    case 3
    with Node.prems have loc: "locate cmp v r (Right_Of (fst x)) (fst x) ?c = (0, p, pp')" by (simp add: Let_def)
    have p: "p \<in> addrs r" using locate_zero_in [OF loc] 3 by simp
    with ds(2,3) have "fst x \<noteq> p" "p \<notin> addrs l" by (metis disjoint_iff)+
    with 3 Node.IH(2) [OF loc _ ds(5)] show ?thesis by (simp add: Let_def)
  qed
qed simp

section \<open>Removing during a post-order walk\<close>

text \<open>The slot \<open>pp\<close>, a field of the parent \<open>par\<close> or the root variable, holds the root of \<open>t\<close>.\<close>

fun in_slot :: "slot \<Rightarrow> addr \<Rightarrow> 'v atree \<Rightarrow> 'v ptree \<Rightarrow> bool" where
  "in_slot Root par t T \<longleftrightarrow> par = NULL \<and> snd T = root_of t"
| "in_slot (Left_Of q) par t T \<longleftrightarrow>
     q = par \<and> q \<noteq> NULL \<and> q \<notin> addrs t \<and> (\<exists>n. fst T q = Some n \<and> pn_left n = root_of t)"
| "in_slot (Right_Of q) par t T \<longleftrightarrow>
     q = par \<and> q \<noteq> NULL \<and> q \<notin> addrs t
     \<and> (\<exists>n. fst T q = Some n \<and> pn_right n = root_of t \<and> pn_left n \<notin> addrs t)"

lemma in_slot_outside:
  assumes "in_slot pp par t T" and "ptree_at (fst T) par t" and "t \<noteq> Leaf"
  shows "outside pp par t T"
proof -
  obtain l x r where t: "t = Node l x r" using assms(3) by (cases t) auto
  have "fst x \<in> addrs t" by (simp add: t)
  then show ?thesis
    using assms(1,2) by (cases pp) (auto simp: outside_def slot_of_def t mem_simps)
qed

lemma put_slot_same: "in_slot pp par t T \<Longrightarrow> put_slot pp (root_of t) T = T"
  by (cases pp; cases T) (auto simp: fun_upd_idem_iff)

lemma put_slot_cong:
  assumes "in_slot pp par t T" and "\<And>a. a \<notin> addrs t \<Longrightarrow> fst T2 a = fst T a" and "a \<notin> addrs t"
  shows "fst (put_slot pp b T2) a = fst (put_slot pp b T) a"
  using assms by (cases pp) auto

lemma in_slot_cong:
  assumes "in_slot pp par t T" and "\<And>a. a \<notin> addrs t \<Longrightarrow> fst T2 a = fst T a" and "snd T2 = snd T"
    and "root_of t' = root_of t" and "addrs t' \<subseteq> addrs t"
  shows "in_slot pp par t' T2"
  using assms by (cases pp) (auto 0 3 simp del: not_None_eq)

lemma prune_shape:
  assumes "distinct_tree t"
  shows "distinct_tree (tr_prune P t)" and "addrs (tr_prune P t) \<subseteq> addrs t"
proof -
  show "distinct_tree (tr_prune P t)"
    using assms by (simp add: distinct_tree_def inorder_prune distinct_map_filter)
  have "set_tree (tr_prune P t) \<subseteq> set_tree t"
    by (simp add: inorder_prune flip: set_inorder)
  then show "addrs (tr_prune P t) \<subseteq> addrs t" by (rule image_mono)
qed

text \<open>A callback that keeps or removes the node it is called on, and goes on.\<close>

definition prunes :: "(addr \<Rightarrow> int \<Rightarrow> 'v ptree \<times> 's \<Rightarrow> (ptree_walk_res \<times> 'v ptree \<times> 's) run)
    \<Rightarrow> ('v \<Rightarrow> bool) \<Rightarrow> ('v \<Rightarrow> 's \<Rightarrow> 's) \<Rightarrow> bool" where
  "prunes func P g \<longleftrightarrow>
     (\<forall>T s lvl p n. fst T p = Some n \<and> p \<noteq> NULL \<longrightarrow>
        func p lvl (T, s) =
          (if P (pn_value n) then Some (Inr (PTREE_WALK_CONTINUE, (T, g (pn_value n) s)))
           else obind (remove_node T p) (\<lambda>(_, T'). Some (Inr (PTREE_WALK_CONTINUE, (T', g (pn_value n) s))))))"

lemma walk_post_prune:
  assumes "prunes func P g" and "ptree_at (fst T) par t" and "distinct_tree t" and "in_slot pp par t T"
  shows "\<exists>T'. walk_int func PTREE_POSTORDER (root_of t) lvl (T, s) =
                Some (Inr (PTREE_WALK_CONTINUE, (T', fold (\<lambda>x. g (snd x)) (postorder t) s)))
           \<and> ptree_at (fst T') par (tr_prune (\<lambda>x. P (snd x)) t)
           \<and> (\<forall>a. a \<notin> addrs t \<longrightarrow> fst T' a = fst (put_slot pp (root_of (tr_prune (\<lambda>x. P (snd x)) t)) T) a)
           \<and> snd T' = snd (put_slot pp (root_of (tr_prune (\<lambda>x. P (snd x)) t)) T)"
  using assms(2-)
proof (induction t arbitrary: T par pp lvl s)
  case Leaf
  have "put_slot pp NULL T = T" using put_slot_same [OF Leaf(3)] by simp
  then show ?case by (subst walk_int.simps) simp
next
  case (Node l x r)
  let ?p = "fst x" and ?pr = "tr_prune (\<lambda>x. P (snd x))"
  let ?t = "Node l x r" and ?l = "?pr l" and ?r = "?pr r"
  have at: "?p \<noteq> NULL" "ptree_at (fst T) ?p l" "ptree_at (fst T) ?p r"
    and hx: "fst T ?p = Some \<lparr> pn_value = snd x, pn_parent = par, pn_left = root_of l, pn_right = root_of r \<rparr>"
    and ds: "distinct_tree l" "distinct_tree r" "?p \<notin> addrs l" "?p \<notin> addrs r" "addrs l \<inter> addrs r = {}"
    using Node.prems(1,2) by simp_all
  note sl = prune_shape [OF ds(1), of "\<lambda>x. P (snd x)"] and sr = prune_shape [OF ds(2), of "\<lambda>x. P (snd x)"]
  \<comment> \<open>the left subtree\<close>
  have "in_slot (Left_Of ?p) ?p l T" using at(1) ds(3) hx by simp
  from Node.IH(1) [OF at(2) ds(1) this, of "lvl + 1" s] obtain T1 where
    w1: "walk_int func PTREE_POSTORDER (root_of l) (lvl + 1) (T, s) =
          Some (Inr (PTREE_WALK_CONTINUE, (T1, fold (\<lambda>x. g (snd x)) (postorder l) s)))"
    and t1: "ptree_at (fst T1) ?p ?l" "snd T1 = snd T"
      "\<And>a. a \<notin> addrs l \<Longrightarrow> fst T1 a = fst (put_slot (Left_Of ?p) (root_of ?l) T) a"
    by auto
  have h1: "fst T1 ?p = Some \<lparr> pn_value = snd x, pn_parent = par, pn_left = root_of ?l, pn_right = root_of r \<rparr>"
    and f1: "\<And>a. a \<notin> addrs l \<Longrightarrow> a \<noteq> ?p \<Longrightarrow> fst T1 a = fst T a"
    using t1(3) ds(3) hx by simp_all
  have r1: "ptree_at (fst T1) ?p r"
    by (rule ptree_at_frame [OF at(3)]) (metis f1 ds(4,5) disjoint_iff)
  \<comment> \<open>the right subtree\<close>
  have "root_of ?l \<notin> addrs r"
    using root_of_notin [OF t1(1) r1] sl(2) ds(5) by blast
  then have "in_slot (Right_Of ?p) ?p r T1" using at(1) ds(4) h1 by simp
  from Node.IH(2) [OF r1 ds(2) this, of "lvl + 1" "fold (\<lambda>x. g (snd x)) (postorder l) s"] obtain T2 where
    w2: "walk_int func PTREE_POSTORDER (root_of r) (lvl + 1) (T1, fold (\<lambda>x. g (snd x)) (postorder l) s) =
          Some (Inr (PTREE_WALK_CONTINUE, (T2, fold (\<lambda>x. g (snd x)) (postorder r) (fold (\<lambda>x. g (snd x)) (postorder l) s))))"
    and t2: "ptree_at (fst T2) ?p ?r" "snd T2 = snd T1"
      "\<And>a. a \<notin> addrs r \<Longrightarrow> fst T2 a = fst (put_slot (Right_Of ?p) (root_of ?r) T1) a"
    by auto
  have h2: "fst T2 ?p = Some \<lparr> pn_value = snd x, pn_parent = par, pn_left = root_of ?l, pn_right = root_of ?r \<rparr>"
    and f2: "\<And>a. a \<notin> addrs r \<Longrightarrow> a \<noteq> ?p \<Longrightarrow> fst T2 a = fst T1 a"
    using t2(3) ds(4) h1 by simp_all
  have l2: "ptree_at (fst T2) ?p ?l"
    by (rule ptree_at_frame [OF t1(1)]) (metis f2 sl(2) ds(3,5) disjoint_iff subsetD)
  have at2: "ptree_at (fst T2) par (Node ?l x ?r)" using at(1) h2 l2 t2(1) by simp
  have dt2: "distinct_tree (Node ?l x ?r)"
    using sl sr ds by (auto 0 0 simp only: distinct_tree_simps) blast+
  have sub: "addrs (Node ?l x ?r) \<subseteq> addrs ?t" using sl(2) sr(2) by (auto simp: image_Un)
  have f: "fst T2 a = fst T a" if "a \<notin> addrs ?t" for a
    using that f1 f2 by (auto simp: image_Un)
  have root2: "snd T2 = snd T" using t1(2) t2(2) by simp
  have slot2: "in_slot pp par (Node ?l x ?r) T2"
    by (rule in_slot_cong [OF Node.prems(3) f root2 _ sub]) simp_all
  have run: "walk_int func PTREE_POSTORDER ?p lvl (T, s) =
      obind (func ?p lvl (T2, fold (\<lambda>x. g (snd x)) (postorder r) (fold (\<lambda>x. g (snd x)) (postorder l) s)))
        (\<lambda>(r4, st4). Some (Inr (r4, st4)))"
    using at(1) hx h1 by (subst walk_int.simps) (simp add: mem_simps w1 w2)
  have call: "func ?p lvl (T2, s2) =
      (if P (snd x) then Some (Inr (PTREE_WALK_CONTINUE, (T2, g (snd x) s2)))
       else obind (remove_node T2 ?p) (\<lambda>(_, T'). Some (Inr (PTREE_WALK_CONTINUE, (T', g (snd x) s2)))))" for s2
    using assms(1) [unfolded prunes_def, THEN spec [of _ T2], THEN spec [of _ s2], THEN spec [of _ lvl],
        THEN spec [of _ ?p], THEN spec, THEN mp, OF conjI [OF h2 at(1)]] by simp
  show ?case
  proof (cases "P (snd x)")
    case True
    have "put_slot pp ?p T = T" using put_slot_same [OF Node.prems(3)] by simp
    then show ?thesis
      using True run call at2 f root2 by (intro exI [of _ T2]) simp
  next
    case False
    have x: "x = (?p, snd x)" by simp
    have "outside pp par (Node ?l x ?r) T2" by (rule in_slot_outside [OF slot2 at2]) simp
    then have o: "outside pp par (Node ?l (?p, snd x) ?r) (fst T2, snd T2)" by simp
    have at2': "ptree_at (fst T2) par (Node ?l (?p, snd x) ?r)" and dt2': "distinct_tree (Node ?l (?p, snd x) ?r)"
      using at2 dt2 by simp_all
    from remove_node_core [OF at2' dt2' o] obtain h' where
      h': "remove_node T2 ?p = Some (Inr (snd x, (h', snd (put_slot pp (root_of (join ?l ?r)) T2))))"
        "ptree_at h' par (join ?l ?r)"
        "\<And>a. a \<notin> addrs (Node ?l x ?r) \<Longrightarrow> h' a = fst (put_slot pp (root_of (join ?l ?r)) T2) a"
      unfolding prod.collapse by (elim exE conjE) (rule that, assumption+, blast)
    have "snd (put_slot pp b T2) = snd (put_slot pp b T)" for b
      using root2 by (cases pp) auto
    moreover have "h' a = fst (put_slot pp (root_of (join ?l ?r)) T) a" if "a \<notin> addrs ?t" for a
    proof -
      have "a \<notin> addrs (Node ?l x ?r)" by (rule contra_subsetD [OF sub that])
      then have "h' a = fst (put_slot pp (root_of (join ?l ?r)) T2) a" by (rule h'(3))
      also have "\<dots> = fst (put_slot pp (root_of (join ?l ?r)) T) a"
        by (rule put_slot_cong [OF Node.prems(3) f that])
      finally show ?thesis .
    qed
    ultimately show ?thesis
      using False run call h'(1,2)
      by (intro exI [of _ "(h', snd (put_slot pp (root_of (join ?l ?r)) T))"]) simp
  qed
qed

lemma walk_post_prune_rep:
  assumes "prunes func P g" and "rep T t"
  shows "\<exists>T'. walk_int func PTREE_POSTORDER (snd T) 0 (T, s) =
                Some (Inr (PTREE_WALK_CONTINUE, (T', fold g (postorder (map_tree snd t)) s)))
           \<and> rep T' (tr_prune (\<lambda>x. P (snd x)) t)"
proof -
  have at: "ptree_at (fst T) NULL t" and ds: "distinct_tree t" and rt: "snd T = root_of t"
    using assms(2) by (simp_all add: rep_def)
  have "in_slot Root NULL t T" using rt by simp
  from walk_post_prune [OF assms(1) at ds this, of 0 s] prune_shape(1) [OF ds]
  show ?thesis by (auto simp: rep_def rt postorder_map fold_map comp_def)
qed

lemma obind_obind: "obind (obind m f) k = obind m (\<lambda>x. obind (f x) k)"
proof (cases m)
  case (Some r)
  then show ?thesis by (cases r) auto
qed simp

text \<open>A callback that notes every value and removes the nodes that fail \<open>P\<close>.\<close>

definition note_and_remove :: "('v \<Rightarrow> bool) \<Rightarrow> ('v, 'v list) visitor" where
  "note_and_remove P v level pn st = remove_unless P v level pn (fst st, snd st @ [v])"

lemma note_and_remove_prunes: "prunes (visit (note_and_remove P)) P (\<lambda>v s. s @ [v])"
  unfolding prunes_def
proof (intro allI impI, elim conjE)
  fix T :: "'a ptree" and s :: "'a list" and lvl p n
  assume n: "fst T p = Some n" and p: "p \<noteq> NULL"
  show "visit (note_and_remove P) p lvl (T, s) =
        (if P (pn_value n) then Some (Inr (PTREE_WALK_CONTINUE, (T, s @ [pn_value n])))
         else obind (remove_node T p) (\<lambda>(_, T'). Some (Inr (PTREE_WALK_CONTINUE, (T', s @ [pn_value n])))))"
    using n p by (simp add: visit_def note_and_remove_def remove_unless_def ptree_inorder_walk_remove_def
        mem_simps obind_obind split_def)
qed

text \<open>
  C7: a post-order walk whose callback removes nodes with \<open>ptree_inorder_walk_remove\<close> calls
  it once on every value, in the post-order of the tree as it was, and leaves a tree of
  exactly the values kept. The notifications of the web service are sent in this way.\<close>

theorem ptree_postorder_remove:
  assumes "rep T t"
  shows "\<exists>T'. ptree_walk PTREE_POSTORDER (note_and_remove P) (T, []) =
               Some (Inr (PTREE_WALK_CONTINUE, (T', postorder (map_tree snd t))))
           \<and> rep T' (tr_prune (\<lambda>x. P (snd x)) t)
           \<and> inorder (tr_prune (\<lambda>x. P (snd x)) t) = filter (\<lambda>x. P (snd x)) (inorder t)"
proof -
  have "fold (\<lambda>v s. s @ [v]) xs s = s @ xs" for xs s :: "'a list"
    by (induction xs arbitrary: s) simp_all
  with walk_post_prune_rep [OF note_and_remove_prunes assms, of P "[]"] show ?thesis
    by (simp add: ptree_walk_def inorder_prune)
qed

theorem ptree_postorder_remove_witness:
  "\<exists>T'. ptree_walk PTREE_POSTORDER (note_and_remove (\<lambda>_. False)) (sample, []) =
      Some (Inr (PTREE_WALK_CONTINUE, (T', [''a'', ''b'']))) \<and> rep T' Leaf"
  using ptree_postorder_remove [OF sample_rep, of "\<lambda>_. False"] by (simp add: join_def)

end
