(* ===== verification/PList.thy ===== *)
theory PList
  imports Prelude
begin

text \<open>
  The doubly linked circular lists of the library (\<open>utils/plist.c\<close>) on an explicit heap. A
  list is the heap with the root pointer; \<open>malloc\<close> returns the address it is given, 0 for
  no memory. The routines are related to association lists in link order (\<open>plist_of\<close>).
\<close>

section \<open>The routines\<close>

record ('k, 'v) plist_node =
  pln_key :: 'k
  pln_value :: 'v
  pln_next :: addr
  pln_prev :: addr

type_synonym ('k, 'v) plist = "('k, 'v) plist_node heap \<times> addr"

definition plist_add :: "'k \<Rightarrow> 'v \<Rightarrow> addr \<Rightarrow> ('k, 'v) plist \<Rightarrow> (bool \<times> ('k, 'v) plist) cres" where
  "plist_add k v malloc L =
     (let h = fst L; root = snd L; n = malloc in
      if n = NULL then Inr (False, L)
      else if root = NULL then
        Inr (True, (h(n \<mapsto> \<lparr> pln_key = k, pln_value = v, pln_next = n, pln_prev = n \<rparr>), n))
      else
        cbind (deref h root) (\<lambda>r.
        let h1 = h(n \<mapsto> \<lparr> pln_key = k, pln_value = v, pln_next = root, pln_prev = pln_prev r \<rparr>) in
        cbind (upd h1 (pln_prev r) (pln_next_update (\<lambda>_. n))) (\<lambda>h2.
        cbind (upd h2 root (pln_prev_update (\<lambda>_. n))) (\<lambda>h3.
          Inr (True, (h3, root))))))"

partial_function (option) clear_loop :: "addr \<Rightarrow> addr \<Rightarrow> ('k, 'v) plist_node heap \<Rightarrow> ('k, 'v) plist run" where
  "clear_loop root cur h =
     (if cur = NULL then Some (Inr (h, root))
      else obind (Some (deref h cur)) (\<lambda>n.
           obind (Some (release h cur)) (\<lambda>h'.
           if pln_next n = root then Some (Inr (h', NULL)) else clear_loop root (pln_next n) h')))"

definition plist_clear :: "('k, 'v) plist \<Rightarrow> ('k, 'v) plist run" where
  "plist_clear L = clear_loop (snd L) (snd L) (fst L)"

text \<open>
  \<open>cur->pln_prev->pln_next = cur->pln_next; cur->pln_next->pln_prev = cur->pln_prev;\<close> then the
  root is corrected and the node freed; every field of \<open>cur\<close> is read when it is used.
\<close>

definition unlink_node :: "addr \<Rightarrow> ('k, 'v) plist \<Rightarrow> ('k, 'v) plist cres" where
  "unlink_node cur L =
     (let root = snd L in
      cbind (deref (fst L) cur) (\<lambda>n.
      cbind (upd (fst L) (pln_prev n) (pln_next_update (\<lambda>_. pln_next n))) (\<lambda>h1.
      cbind (deref h1 cur) (\<lambda>n1.
      cbind (upd h1 (pln_next n1) (pln_prev_update (\<lambda>_. pln_prev n1))) (\<lambda>h2.
      cbind (deref h2 cur) (\<lambda>n2.
      cbind (release h2 cur) (\<lambda>h3.
        Inr (h3, if pln_next n2 = cur then NULL else if root = cur then pln_next n2 else root))))))))"

partial_function (option) plist_remove_loop :: "'k \<Rightarrow> addr \<Rightarrow> ('k, 'v) plist \<Rightarrow> (bool \<times> 'v option \<times> ('k, 'v) plist) run" where
  "plist_remove_loop k cur L =
     (if cur = NULL then Some (Inr (False, None, L))
      else obind (Some (deref (fst L) cur)) (\<lambda>n.
        if pln_key n = k then
          obind (Some (unlink_node cur L)) (\<lambda>L'. Some (Inr (True, Some (pln_value n), L')))
        else if pln_next n = snd L then Some (Inr (False, None, L))
        else plist_remove_loop k (pln_next n) L))"

definition plist_remove :: "'k \<Rightarrow> ('k, 'v) plist \<Rightarrow> (bool \<times> 'v option \<times> ('k, 'v) plist) run" where
  "plist_remove k L = plist_remove_loop k (snd L) L"

partial_function (option) contains_loop :: "'k \<Rightarrow> addr \<Rightarrow> ('k, 'v) plist \<Rightarrow> (bool \<times> 'v option) run" where
  "contains_loop k cur L =
     (if cur = NULL then Some (Inr (False, None))
      else obind (Some (deref (fst L) cur)) (\<lambda>n.
        if pln_key n = k then Some (Inr (True, Some (pln_value n)))
        else if pln_next n = snd L then Some (Inr (False, None))
        else contains_loop k (pln_next n) L))"

definition plist_contains :: "'k \<Rightarrow> ('k, 'v) plist \<Rightarrow> (bool \<times> 'v option) run" where
  "plist_contains k L = contains_loop k (snd L) L"

text \<open>The callback of a walk does not change the list.\<close>

partial_function (option) walk_loop :: "('k \<Rightarrow> 'v \<Rightarrow> 's \<Rightarrow> int \<times> 's) \<Rightarrow> addr \<Rightarrow> ('k, 'v) plist \<Rightarrow> 's \<Rightarrow> (int \<times> 's) run" where
  "walk_loop func cur L s =
     (if cur = NULL then Some (Inr (1, s))
      else obind (Some (deref (fst L) cur)) (\<lambda>n.
        let (res, s') = func (pln_key n) (pln_value n) s in
        if res = 0 then Some (Inr (res, s'))
        else if pln_next n = snd L then Some (Inr (1, s'))
        else walk_loop func (pln_next n) L s'))"

definition plist_walk :: "('k \<Rightarrow> 'v \<Rightarrow> 's \<Rightarrow> int \<times> 's) \<Rightarrow> ('k, 'v) plist \<Rightarrow> 's \<Rightarrow> (int \<times> 's) run" where
  "plist_walk func L s = walk_loop func (snd L) L s"

section \<open>Heaps that hold a list\<close>

type_synonym ('k, 'v) cell = "addr \<times> 'k \<times> 'v"

definition first_of :: "('k, 'v) cell list \<Rightarrow> addr \<Rightarrow> addr" where
  "first_of xs q = (case xs of [] \<Rightarrow> q | x # _ \<Rightarrow> fst x)"

definition last_of :: "addr \<Rightarrow> ('k, 'v) cell list \<Rightarrow> addr" where
  "last_of p xs = (if xs = [] then p else fst (last xs))"

lemma first_of_simps [simp]: "first_of [] q = q" "first_of (x # xs) q = fst x"
  by (simp_all add: first_of_def)

lemma last_of_simps [simp]: "last_of p [] = p" "last_of p (x # xs) = last_of (fst x) xs"
  by (auto simp: last_of_def)

lemma first_of_append [simp]: "first_of (xs @ ys) q = first_of xs (first_of ys q)"
  by (cases xs) auto

lemma last_of_append [simp]: "last_of p (xs @ ys) = last_of (last_of p xs) ys"
  by (auto simp: last_of_def)

abbreviation cells :: "('k, 'v) cell list \<Rightarrow> addr set" where
  "cells xs \<equiv> fst ` set xs"

text \<open>\<open>seg h p xs q\<close>: the cells \<open>xs\<close> are linked in this order, after \<open>p\<close> and before \<open>q\<close>.\<close>

fun seg :: "('k, 'v) plist_node heap \<Rightarrow> addr \<Rightarrow> ('k, 'v) cell list \<Rightarrow> addr \<Rightarrow> bool" where
  "seg h p [] q \<longleftrightarrow> True"
| "seg h p (x # xs) q \<longleftrightarrow>
     fst x \<noteq> NULL
     \<and> h (fst x) = Some \<lparr> pln_key = fst (snd x), pln_value = snd (snd x), pln_next = first_of xs q, pln_prev = p \<rparr>
     \<and> seg h (fst x) xs q"

definition plist_rep :: "('k, 'v) plist \<Rightarrow> ('k, 'v) cell list \<Rightarrow> bool" where
  "plist_rep L xs \<longleftrightarrow>
     snd L = first_of xs NULL \<and> distinct (map fst xs)
     \<and> seg (fst L) (last_of NULL xs) xs (first_of xs NULL)"

definition plist_of :: "('k, 'v) plist \<Rightarrow> ('k \<times> 'v) list \<Rightarrow> bool" where
  "plist_of L kvs \<longleftrightarrow> (\<exists>xs. plist_rep L xs \<and> map snd xs = kvs)"

lemma seg_frame: "seg h p xs q \<Longrightarrow> (\<And>a. a \<in> cells xs \<Longrightarrow> h' a = h a) \<Longrightarrow> seg h' p xs q"
  by (induction xs arbitrary: p) auto

lemma seg_upd [simp]: "seg h p xs q \<Longrightarrow> a \<notin> cells xs \<Longrightarrow> seg (h(a := n)) p xs q"
  by (erule seg_frame) (auto simp only: fun_upd_apply split: if_split)

lemma seg_append [simp]:
  "seg h p (xs @ ys) q \<longleftrightarrow> seg h p xs (first_of ys q) \<and> seg h (last_of p xs) ys q"
  by (induction xs arbitrary: p) auto

lemma seg_live: "seg h p xs q \<Longrightarrow> a \<in> cells xs \<Longrightarrow> a \<noteq> NULL \<and> h a \<noteq> None"
  by (induction xs arbitrary: p) auto

text \<open>Relinking the ends of a segment.\<close>

lemma seg_set_next:
  assumes "seg h p (xs @ [x]) q"  and "distinct (map fst (xs @ [x]))" and "h (fst x) = Some n"
  shows "seg (h(fst x \<mapsto> n\<lparr> pln_next := q' \<rparr>)) p (xs @ [x]) q'"
  using assms by auto

lemma seg_set_prev:
  assumes "seg h p (x # xs) q" and "distinct (map fst (x # xs))" and "h (fst x) = Some n"
  shows "seg (h(fst x \<mapsto> n\<lparr> pln_prev := p' \<rparr>)) p' (x # xs) q"
  using assms by auto

section \<open>Loops\<close>

lemma first_of_nonempty: "xs \<noteq> [] \<Longrightarrow> first_of xs q = fst (hd xs)"
  by (cases xs) auto

lemma next_in_suffix:
  assumes "distinct (map fst (xs @ x # ys))"
  shows "first_of ys (first_of (xs @ x # ys) NULL) = first_of (xs @ x # ys) NULL \<longleftrightarrow> ys = []"
proof (cases ys)
  case (Cons y zs)
  then have "fst y \<noteq> first_of (xs @ x # ys) NULL"
    using assms by (cases xs) auto
  then show ?thesis by (simp add: Cons)
qed simp

lemma contains_loop_suffix:
  assumes "plist_rep L (xs @ ys)" and "ys \<noteq> []"
  shows "contains_loop k (first_of ys NULL) L =
         Some (Inr (case map_of (map snd ys) k of None \<Rightarrow> (False, None) | Some v \<Rightarrow> (True, Some v)))"
  using assms
proof (induction ys arbitrary: xs)
  case (Cons y ys)
  have root: "snd L = first_of (xs @ y # ys) NULL" and ds: "distinct (map fst (xs @ y # ys))"
    and y: "fst y \<noteq> NULL" "fst L (fst y) = Some \<lparr> pln_key = fst (snd y), pln_value = snd (snd y),
      pln_next = first_of ys (snd L), pln_prev = last_of (last_of NULL (xs @ y # ys)) xs \<rparr>"
    using Cons.prems(1) by (auto simp: plist_rep_def)
  have nx: "first_of ys (snd L) = snd L \<longleftrightarrow> ys = []"
    using next_in_suffix [OF ds] by (simp add: root)
  show ?case
    using y nx Cons.IH [of "xs @ [y]"] Cons.prems(1)
    by (subst contains_loop.simps) (cases ys; auto simp: mem_simps)
qed simp

lemma walk_loop_suffix:
  assumes "plist_rep L (xs @ ys)" and "ys \<noteq> []"
  shows "walk_loop func (first_of ys NULL) L s =
         Some (Inr (foldl (\<lambda>r x. if fst r = 0 then r
                              else (let (res, s') = func (fst (snd x)) (snd (snd x)) (snd r) in
                                    (if res = 0 then 0 else 1, s'))) (1, s) ys))"
  using assms
proof (induction ys arbitrary: xs s)
  case (Cons y ys)
  have root: "snd L = first_of (xs @ y # ys) NULL" and ds: "distinct (map fst (xs @ y # ys))"
    and y: "fst y \<noteq> NULL" "fst L (fst y) = Some \<lparr> pln_key = fst (snd y), pln_value = snd (snd y),
      pln_next = first_of ys (snd L), pln_prev = last_of (last_of NULL (xs @ y # ys)) xs \<rparr>"
    using Cons.prems(1) by (auto simp: plist_rep_def)
  have nx: "first_of ys (snd L) = snd L \<longleftrightarrow> ys = []"
    using next_in_suffix [OF ds] by (simp add: root)
  have stop: "foldl (\<lambda>r x. if fst r = 0 then r
        else (let (res, s') = func (fst (snd x)) (snd (snd x)) (snd r) in (if res = 0 then 0 else 1, s'))) (0, t) zs = (0 :: int, t)" for t zs
    by (induction zs) auto
  obtain res s' where f: "func (fst (snd y)) (snd (snd y)) s = (res, s')" by force
  show ?case
    using y nx Cons.IH [of "xs @ [y]" s'] Cons.prems(1)
    by (subst walk_loop.simps) (cases ys; auto simp: mem_simps f stop)
qed simp

lemma clear_loop_suffix:
  assumes "seg h p ys root" and "root \<notin> cells (tl ys)" and "distinct (map fst ys)" and "ys \<noteq> []"
  shows "clear_loop root (first_of ys NULL) h = Some (Inr (h |` (- cells ys), NULL))"
  using assms
proof (induction ys arbitrary: h p)
  case (Cons y ys)
  have h': "release h (fst y) = Inr (h |` (- {fst y}))"
    using Cons.prems(1) by (auto simp: release_def restrict_map_def fun_eq_iff)
  have e: "h |` (- {fst y}) |` (- cells ys) = h |` (- cells (y # ys))"
    by (auto simp: restrict_map_def fun_eq_iff)
  show ?case
  proof (cases ys)
    case Nil
    then show ?thesis
      using Cons.prems(1) h' by (subst clear_loop.simps) (simp add: mem_simps)
  next
    case (Cons z zs)
    have "seg (h |` (- {fst y})) (fst y) ys root"
    proof (rule seg_frame)
      show "seg h (fst y) ys root" using Cons.prems(1) by simp
      fix a
      assume "a \<in> cells ys"
      moreover have "fst y \<notin> cells ys" using Cons.prems(3) by simp
      ultimately have "a \<noteq> fst y" by metis
      then show "(h |` (- {fst y})) a = h a" by simp
    qed
    from Cons.IH [OF this] Cons.prems(2,3) have
      "clear_loop root (first_of ys NULL) (h |` (- {fst y})) = Some (Inr (h |` (- {fst y}) |` (- cells ys), NULL))"
      by (simp add: Cons)
    then show ?thesis
      using Cons.prems(1,2) h' unfolding e
      by (subst clear_loop.simps) (simp add: mem_simps Cons)
  qed
qed simp


section \<open>Insertion and removal\<close>

text \<open>
  The nodes of a ring in the order after node \<open>a\<close>, with \<open>a\<close> itself in between: closing the
  ring without \<open>a\<close> and opening it for \<open>a\<close> are the two pointer changes of the routines.
\<close>

lemma relink_ring:
  assumes "seg h p ys q" and "ys \<noteq> []" and "distinct (map fst ys)"
  shows "\<exists>h1 h2. upd h (last_of NULL ys) (pln_next_update (\<lambda>_. q')) = Inr h1
           \<and> upd h1 (first_of ys NULL) (pln_prev_update (\<lambda>_. p')) = Inr h2
           \<and> seg h2 p' ys q' \<and> (\<forall>a. a \<notin> cells ys \<longrightarrow> h1 a = h a \<and> h2 a = h a)"
proof -
  obtain zs x where x: "ys = zs @ [x]" using assms(2) by (metis rev_exhaust)
  obtain y ws where y: "ys = y # ws" using assms(2) by (cases ys) auto
  have "fst x \<in> cells ys" "fst y \<in> cells ys" by (simp add: x) (simp add: y)
  then obtain n where n: "h (fst x) = Some n" using seg_live [OF assms(1)] by auto
  let ?h1 = "h(fst x \<mapsto> n\<lparr> pln_next := q' \<rparr>)"
  have s1: "seg ?h1 p ys q'"
    using seg_set_next [of h p zs x q n q'] assms(1,3) n by (simp add: x)
  then obtain m where m: "?h1 (fst y) = Some m" using seg_live [OF s1] \<open>fst y \<in> cells ys\<close> by blast
  have "seg (?h1(fst y \<mapsto> m\<lparr> pln_prev := p' \<rparr>)) p' ys q'"
    using seg_set_prev [where h = "?h1" and x = y and n = m and p = p and xs = ws and q = q' and p' = p'] s1 assms(3) m
    by (simp only: y)
  moreover have "last_of NULL ys = fst x" "first_of ys NULL = fst y" by (simp add: x) (simp add: y)
  moreover have "\<forall>a. a \<notin> cells ys \<longrightarrow> ?h1 a = h a \<and> (?h1(fst y \<mapsto> m\<lparr> pln_prev := p' \<rparr>)) a = h a"
    using \<open>fst x \<in> cells ys\<close> \<open>fst y \<in> cells ys\<close> by (metis fun_upd_other)
  ultimately show ?thesis using n m by (auto simp: upd_def simp del: fun_upd_apply)
qed

lemma plist_add_rep:
  assumes "plist_rep L xs" and "n \<noteq> NULL" and "fst L n = None"
  shows "\<exists>L'. plist_add k v n L = Inr (True, L') \<and> plist_rep L' (xs @ [(n, k, v)])"
proof (cases "xs = []")
  case True
  with assms show ?thesis by (simp add: plist_add_def plist_rep_def)
next
  case False
  let ?h = "fst L"
  have root: "snd L = first_of xs NULL" and ds: "distinct (map fst xs)"
    and s: "seg ?h (last_of NULL xs) xs (first_of xs NULL)"
    using assms(1) by (simp_all add: plist_rep_def)
  have n: "n \<notin> cells xs" using seg_live [OF s, of n] assms(3) by auto
  obtain x ys where x: "xs = x # ys" using False by (cases xs) auto
  let ?r = "\<lparr> pln_key = fst (snd x), pln_value = snd (snd x), pln_next = first_of ys (fst x), pln_prev = last_of NULL xs \<rparr>"
  have r: "?h (fst x) = Some ?r" "fst x \<noteq> NULL" using s by (simp_all add: x)
  let ?h1 = "?h(n \<mapsto> \<lparr> pln_key = k, pln_value = v, pln_next = fst x, pln_prev = last_of NULL xs \<rparr>)"
  have fx: "first_of xs NULL = fst x" by (simp add: x)
  from relink_ring [OF seg_upd [OF s n, of "?h1 n"] False ds, of n n] obtain h2 h3 where
    h: "upd ?h1 (last_of NULL xs) (pln_next_update (\<lambda>_. n)) = Inr h2"
      "upd h2 (fst x) (pln_prev_update (\<lambda>_. n)) = Inr h3" "seg h3 n xs n"
      "\<forall>a. a \<notin> cells xs \<longrightarrow> h2 a = ?h1 a \<and> h3 a = ?h1 a"
    unfolding fx fun_upd_same by (elim exE conjE) (rule that)
  have "plist_add k v n L = Inr (True, (h3, fst x))"
    using assms(2) r h(1,2) root by (simp add: plist_add_def Let_def mem_simps x)
  moreover have "plist_rep (h3, fst x) (xs @ [(n, k, v)])"
    using h(3,4) n ds assms(2) by (auto simp: plist_rep_def x)
  ultimately show ?thesis by blast
qed

lemma unlink_node_rep:
  assumes "plist_rep L (as @ (a, k, v) # bs)"
  shows "\<exists>L'. unlink_node a L = Inr L' \<and> plist_rep L' (as @ bs) \<and> fst L' a = None"
proof -
  let ?h = "fst L" and ?xs = "as @ (a, k, v) # bs" and ?ys = "bs @ as"
  have root: "snd L = first_of ?xs NULL" and ds: "distinct (map fst ?xs)"
    and s: "seg ?h (last_of NULL ?xs) ?xs (first_of ?xs NULL)"
    using assms by (simp_all add: plist_rep_def)
  have nz: "a \<noteq> NULL" and a: "?h a = Some \<lparr> pln_key = k, pln_value = v, pln_next = first_of ?ys a, pln_prev = last_of a ?ys \<rparr>"
    using s by (auto simp: first_of_def split: list.splits)
  show ?thesis
  proof (cases "?ys = []")
    case True
    then have "unlink_node a L = Inr ((?h(a \<mapsto> \<lparr> pln_key = k, pln_value = v, pln_next = a, pln_prev = a \<rparr>))(a := None), NULL)"
      using a by (simp add: unlink_node_def Let_def mem_simps)
    then show ?thesis using True by (simp add: plist_rep_def)
  next
    case False
    have ring: "seg ?h a ?ys a" using s by (cases as) (auto simp: first_of_def split: list.splits)
    have dy: "distinct (map fst ?ys)" and na: "a \<notin> cells ?ys" using ds by auto
    have ne: "last_of NULL ?ys = last_of a ?ys" "first_of ?ys NULL = first_of ?ys a"
      using False by (cases bs; cases as; simp)+
    from relink_ring [OF ring False dy, of "first_of ?ys a" "last_of a ?ys"] obtain h1 h2 where
      h: "upd ?h (last_of a ?ys) (pln_next_update (\<lambda>_. first_of ?ys a)) = Inr h1"
        "upd h1 (first_of ?ys a) (pln_prev_update (\<lambda>_. last_of a ?ys)) = Inr h2"
        "seg h2 (last_of a ?ys) ?ys (first_of ?ys a)"
        "h1 a = ?h a" "h2 a = ?h a"
      using na unfolding ne by (auto simp del: fun_upd_apply first_of_append last_of_append)
    have fa: "first_of ?ys a \<noteq> a"
      using False na by (cases bs; cases as) auto
    let ?root = "if snd L = a then first_of ?ys a else snd L"
    have run: "unlink_node a L = Inr (h2(a := None), ?root)"
      using a h(1,2,4,5) fa
      by (simp add: unlink_node_def Let_def mem_simps del: fun_upd_apply first_of_append last_of_append)
    have "seg (h2(a := None)) (last_of a ?ys) ?ys (first_of ?ys a)"
      using h(3) na by (rule seg_upd)
    moreover have "?root = first_of (as @ bs) NULL"
      using root ds False by (cases as; cases bs) auto
    ultimately have "plist_rep (h2(a := None), ?root) (as @ bs)"
      using ds False by (cases as; cases bs) (auto simp: plist_rep_def)
    then show ?thesis using run by auto
  qed
qed

lemma plist_remove_loop_suffix:
  assumes "plist_rep L (xs @ ys)" and "ys \<noteq> []"
  shows "case map_of (map snd ys) k of
           None \<Rightarrow> plist_remove_loop k (first_of ys NULL) L = Some (Inr (False, None, L))
         | Some v \<Rightarrow> \<exists>L'. plist_remove_loop k (first_of ys NULL) L = Some (Inr (True, Some v, L'))
                       \<and> plist_of L' (map snd xs @ (let (us, vs) = (takeWhile (\<lambda>x. fst x \<noteq> k) (map snd ys),
                                                          dropWhile (\<lambda>x. fst x \<noteq> k) (map snd ys)) in us @ tl vs))"
  using assms
proof (induction ys arbitrary: xs)
  case (Cons y ys)
  have root: "snd L = first_of (xs @ y # ys) NULL" and ds: "distinct (map fst (xs @ y # ys))"
    and y: "fst y \<noteq> NULL" "fst L (fst y) = Some \<lparr> pln_key = fst (snd y), pln_value = snd (snd y),
      pln_next = first_of ys (snd L), pln_prev = last_of (last_of NULL (xs @ y # ys)) xs \<rparr>"
    using Cons.prems(1) by (auto simp: plist_rep_def)
  have nx: "first_of ys (snd L) = snd L \<longleftrightarrow> ys = []"
    using next_in_suffix [OF ds] by (simp add: root)
  obtain a k' v where yy: "y = (a, k', v)" by (metis prod_cases3)
  show ?case
  proof (cases "k' = k")
    case True
    obtain L' where L': "unlink_node a L = Inr L'" "plist_rep L' (xs @ ys)"
      using unlink_node_rep [of L xs a k' v ys] Cons.prems(1) yy by blast
    then have "plist_of L' (map snd xs @ map snd ys)" by (auto simp: plist_of_def)
    with L'(1) y True show ?thesis
      by (subst plist_remove_loop.simps) (simp add: mem_simps yy)
  next
    case False
    show ?thesis
    proof (cases "ys = []")
      case True
      with y nx False show ?thesis by (subst plist_remove_loop.simps) (simp add: mem_simps yy)
    next
      case ne: False
      then have "first_of ys (snd L) = first_of ys NULL" by (cases ys) auto
      with y nx False ne Cons.IH [of "xs @ [y]"] Cons.prems(1) show ?thesis
        by (subst (1 2) plist_remove_loop.simps) (auto simp: mem_simps yy split: option.splits)
    qed
  qed
qed simp

section \<open>Properties\<close>

text \<open>The entry with a key, and the list without its first entry of that key.\<close>

fun del_first :: "'k \<Rightarrow> ('k \<times> 'v) list \<Rightarrow> ('k \<times> 'v) list" where
  "del_first k [] = []"
| "del_first k (x # xs) = (if fst x = k then xs else x # del_first k xs)"

lemma del_first_split:
  "takeWhile (\<lambda>x. fst x \<noteq> k) xs @ tl (dropWhile (\<lambda>x. fst x \<noteq> k) xs) = del_first k xs"
  by (induction xs) auto

text \<open>
  \<open>plist_add\<close> links the new entry at the end of the ring (just before the root), or
  reports that memory has run out and leaves the list as it was; the links of the result
  form one ring again, in both directions.\<close>

theorem plist_add_appends:
  assumes "plist_of L kvs" and "malloc = NULL \<or> fst L malloc = None"
  shows "if malloc = NULL then plist_add k v malloc L = Inr (False, L)
         else \<exists>L'. plist_add k v malloc L = Inr (True, L') \<and> plist_of L' (kvs @ [(k, v)])"
proof (cases "malloc = NULL")
  case False
  obtain xs where xs: "plist_rep L xs" "map snd xs = kvs" using assms(1) by (auto simp: plist_of_def)
  from plist_add_rep [OF xs(1) False, of k v] assms(2) False xs(2) show ?thesis
    unfolding plist_of_def by force
qed (simp add: plist_add_def)

theorem plist_add_appends_witness:
  "\<exists>L'. plist_add (5 :: nat) ''x'' 1 (Map.empty, 0) = Inr (True, L') \<and> plist_of L' [(5, ''x'')]"
proof -
  have "plist_of (Map.empty, 0) ([] :: (nat \<times> string) list)"
    by (simp add: plist_of_def plist_rep_def)
  from plist_add_appends [OF this, of 1 5 "''x''"] show ?thesis by simp
qed

text \<open>
  \<open>plist_contains\<close> ends on every ring and returns the value of the first entry with the
  key; \<open>plist_remove\<close> unlinks exactly that entry, wherever it stands in the ring, returns
  its value and corrects the root when it was the first or the only entry.\<close>

theorem plist_lookup_remove:
  assumes "plist_of L kvs"
  shows "plist_contains k L = Some (Inr (map_of kvs k \<noteq> None, map_of kvs k))
       \<and> (\<exists>L'. plist_remove k L = Some (Inr (map_of kvs k \<noteq> None, map_of kvs k, L'))
             \<and> plist_of L' (del_first k kvs))"
proof -
  obtain xs where xs: "plist_rep L xs" "map snd xs = kvs" using assms by (auto simp: plist_of_def)
  have same: "map_of kvs k = None \<Longrightarrow> del_first k kvs = kvs"
    by (induction kvs) (auto split: if_splits)
  show ?thesis
  proof (cases "xs = []")
    case True
    then have "snd L = NULL" "kvs = []" using xs by (auto simp: plist_rep_def)
    with assms show ?thesis
      by (simp add: plist_contains_def plist_remove_def contains_loop.simps plist_remove_loop.simps)
  next
    case False
    have root: "snd L = first_of xs NULL" using xs(1) by (simp add: plist_rep_def)
    have "plist_rep L ([] @ xs)" using xs(1) by simp
    note c = contains_loop_suffix [OF this False, of k] and r = plist_remove_loop_suffix [OF this False, of k]
    show ?thesis
      using c r xs(2) assms same
      by (auto simp: plist_contains_def plist_remove_def root Let_def del_first_split
          simp del: split_paired_Ex split: option.splits)
  qed
qed

theorem plist_lookup_remove_witness:
  "plist_contains (5 :: nat) ([1 \<mapsto> \<lparr> pln_key = 5, pln_value = ''x'', pln_next = 1, pln_prev = 1 \<rparr>], 1) =
   Some (Inr (True, Some ''x''))"
proof -
  have "plist_rep ([1 \<mapsto> \<lparr> pln_key = 5, pln_value = ''x'', pln_next = 1, pln_prev = 1 \<rparr>], 1) [(1, 5 :: nat, ''x'')]"
    by (simp add: plist_rep_def)
  then have "plist_of ([1 \<mapsto> \<lparr> pln_key = 5, pln_value = ''x'', pln_next = 1, pln_prev = 1 \<rparr>], 1) [(5 :: nat, ''x'')]"
    by (auto simp: plist_of_def intro!: exI [of _ "[(1, 5, ''x'')]"])
  from plist_lookup_remove [OF this, of 5] show ?thesis by simp
qed

text \<open>What a walk over the entries computes.\<close>

fun walk_list :: "('k \<Rightarrow> 'v \<Rightarrow> 's \<Rightarrow> int \<times> 's) \<Rightarrow> ('k \<times> 'v) list \<Rightarrow> 's \<Rightarrow> int \<times> 's" where
  "walk_list f [] s = (1, s)"
| "walk_list f (x # xs) s =
     (let (res, s') = f (fst x) (snd x) s in if res = 0 then (0, s') else walk_list f xs s')"

lemma foldl_walk_list:
  "foldl (\<lambda>r x. if fst r = 0 then r
            else (let (res, s') = func (fst (snd x)) (snd (snd x)) (snd r) in
                  (if res = 0 then 0 else 1, s'))) (1, s) xs = walk_list func (map snd xs) s"
proof (induction xs arbitrary: s)
  case (Cons x xs)
  have stop: "foldl (\<lambda>r x. if fst r = 0 then r
        else (let (res, s') = func (fst (snd x)) (snd (snd x)) (snd r) in (if res = 0 then 0 else 1, s'))) (0, t) zs = (0 :: int, t)" for t zs
    by (induction zs) auto
  show ?case by (auto simp: Cons.IH stop split: prod.splits)
qed simp

text \<open>
  \<open>plist_walk\<close> visits the entries once each, in link order, until the callback returns
  0, which it then returns; \<open>plist_clear\<close> frees every node of the ring exactly once, never
  reads a freed node, and empties the list.\<close>

theorem plist_walk_clear:
  assumes "plist_rep L xs"
  shows "plist_walk func L s = Some (Inr (walk_list func (map snd xs) s))
       \<and> plist_clear L = Some (Inr (fst L |` (- cells xs), NULL))"
proof (cases "xs = []")
  case True
  have "h |` UNIV = h" for h :: "('a, 'b) plist_node heap" by (simp add: restrict_map_def)
  with True assms show ?thesis
    by (simp add: plist_rep_def plist_walk_def plist_clear_def walk_loop.simps clear_loop.simps)
next
  case False
  have root: "snd L = first_of xs NULL" and ds: "distinct (map fst xs)"
    and s: "seg (fst L) (last_of NULL xs) xs (first_of xs NULL)"
    using assms by (simp_all add: plist_rep_def)
  have "plist_rep L ([] @ xs)" using assms by simp
  moreover have "first_of xs NULL \<notin> cells (tl xs)" using ds False by (cases xs) auto
  ultimately show ?thesis
    using walk_loop_suffix [of L "[]" xs func s] clear_loop_suffix [OF s _ ds False] False
    by (simp add: plist_walk_def plist_clear_def root foldl_walk_list)
qed

theorem plist_walk_clear_witness:
  "plist_clear ([1 \<mapsto> \<lparr> pln_key = 5 :: nat, pln_value = ''x'', pln_next = 1, pln_prev = 1 \<rparr>], 1) =
   Some (Inr ([1 \<mapsto> \<lparr> pln_key = 5, pln_value = ''x'', pln_next = 1, pln_prev = 1 \<rparr>] |` (- {1}), 0))"
proof -
  have "plist_rep ([1 \<mapsto> \<lparr> pln_key = 5, pln_value = ''x'', pln_next = 1, pln_prev = 1 \<rparr>], 1) [(1, 5 :: nat, ''x'')]"
    by (simp add: plist_rep_def)
  from plist_walk_clear [OF this, of "\<lambda>_ _ s. (1, s)" "()"] show ?thesis by (simp del: One_nat_def)
qed

end
