(* ===== verification/LineIO.thy ===== *)
theory LineIO
  imports Prelude "HOL-Library.Sublist"
begin

text \<open>
  Line input, socket output and formatted strings of the library (\<open>utils/utils.c\<close>):
  \<open>pd_getline\<close>, \<open>getmatchsub\<close>, \<open>pu_write\<close>, \<open>pu_read\<close> and \<open>pvasprintf\<close>. What the system
  calls return is an input of the model: the list of the coming results of \<open>send\<close>, of
  \<open>recv\<close> and of the read function. \<open>realloc\<close> succeeds as the \<open>memory\<close> says. A copy that
  would leave its buffer is a fault.
\<close>

section \<open>Line input\<close>

text \<open>
  \<open>eol_at\<close>: what the two searches find in the unread bytes. \<open>strchr\<close> looks for a newline and
  stops at the first NUL (there is one behind the bytes read); only when it finds none
  does \<open>memchr\<close> look for a NUL among them.
\<close>

definition strchr_at :: "char \<Rightarrow> string \<Rightarrow> nat option" where
  "strchr_at c s = (if c \<in> set (c_str s) then Some (length (takeWhile (\<lambda>d. d \<noteq> c) (c_str s))) else None)"

definition memchr_at :: "char \<Rightarrow> string \<Rightarrow> nat option" where
  "memchr_at c s = (if c \<in> set s then Some (length (takeWhile (\<lambda>d. d \<noteq> c) s)) else None)"

abbreviation newline :: char where "newline \<equiv> CHR 0x0A"
abbreviation carriage_return :: char where "carriage_return \<equiv> CHR 0x0D"

definition eol_at :: "string \<Rightarrow> nat option" where
  "eol_at s = (case strchr_at newline s of None \<Rightarrow> memchr_at NUL s | Some i \<Rightarrow> Some i)"

text \<open>The line buffer starts with 1024 bytes and is doubled until \<open>need\<close> bytes fit.\<close>

function grow_line :: "memory \<Rightarrow> nat \<Rightarrow> nat \<Rightarrow> (nat option \<times> memory)" where
  "grow_line mem need k =
     (if need \<le> 1024 * 2 ^ k then (Some k, mem)
      else case alloc mem of
             (False, mem') \<Rightarrow> (None, mem')
           | (True, mem') \<Rightarrow> grow_line mem' need (Suc k))"
  by pat_completeness auto

termination
  by (relation "measure (\<lambda>(mem, need, k). need - 1024 * 2 ^ k)") (auto intro!: diff_less_mono2)

declare grow_line.simps [simp del]

text \<open>
  The reader: \<open>unread\<close> are the bytes of the input buffer from \<open>*bufcur\<close> to \<open>*buflen\<close>,
  \<open>reads\<close> the coming results of the read function (the empty string when it fails or the
  connection is closed), \<open>line\<close> the \<open>linelen\<close> bytes copied so far into a line buffer of
  \<open>1024 * 2 ^ k\<close> bytes. \<open>closed\<close> says that \<open>closefunc\<close> has been called.
\<close>

record reader =
  unread :: string
  reads :: "string list"
  rmem :: memory
  closed :: bool

type_synonym line_result = "(string option \<times> reader) cres"

text \<open>One pass of the \<open>while\<close> body over non-empty \<open>unread\<close>: \<open>Some\<close> result when it returns.\<close>

definition take_line :: "string \<Rightarrow> nat \<Rightarrow> reader \<Rightarrow> (line_result + string \<times> nat \<times> reader)" where
  "take_line line k r =
     (let buf = unread r;
          srcsize = (case eol_at buf of None \<Rightarrow> length buf | Some i \<Rightarrow> i + 1);
          src = (case eol_at buf of None \<Rightarrow> buf | Some i \<Rightarrow> take i buf @ [NUL])
      in case grow_line (rmem r) (length line + srcsize) k of
           (None, mem') \<Rightarrow> Inl (Inr (None, r\<lparr> rmem := mem', closed := True \<rparr>))
         | (Some k', mem') \<Rightarrow>
             if 1024 * 2 ^ k' < length line + srcsize then Inl (Inl Out_Of_Bounds)
             else
               let line' = line @ src; r' = r\<lparr> unread := drop srcsize buf, rmem := mem' \<rparr> in
               if eol_at buf = None then Inr (line', k', r')
               else Inl (Inr (Some (takeWhile (\<lambda>c. c \<noteq> carriage_return) (c_str line')), r')))"

text \<open>From \<open>top:\<close> on.\<close>

fun getline_loop :: "string list \<Rightarrow> string \<Rightarrow> nat \<Rightarrow> reader \<Rightarrow> line_result" where
  "getline_loop rs line k r =
     (case (if unread r = [] then Inr (line, k, r) else take_line line k r) of
        Inl res \<Rightarrow> res
      | Inr (line', k', r') \<Rightarrow>
          (case rs of
             [] \<Rightarrow> Inr (None, r'\<lparr> unread := [], closed := True \<rparr>)
           | chunk # rs' \<Rightarrow>
               if chunk = [] then Inr (None, r'\<lparr> unread := [], reads := rs', closed := True \<rparr>)
               else getline_loop rs' line' k' (r'\<lparr> unread := chunk, reads := rs' \<rparr>)))"

declare getline_loop.simps [simp del]

definition pd_getline :: "reader \<Rightarrow> line_result" where
  "pd_getline r =
     (case alloc (rmem r) of
        (False, mem') \<Rightarrow> Inr (None, r\<lparr> rmem := mem', closed := True \<rparr>)
      | (True, mem') \<Rightarrow> getline_loop (reads r) [] 0 (r\<lparr> rmem := mem' \<rparr>))"

text \<open>
  \<open>getmatchsub\<close> copies the \<open>n\<close>-th submatch, given by its two offsets (\<open>rm_so\<close> negative when
  it took no part in the match). The copy reads \<open>line\<close> between them.
\<close>

definition getmatchsub :: "memory \<Rightarrow> string \<Rightarrow> (int \<times> int) list \<Rightarrow> nat \<Rightarrow> (int \<times> string option \<times> memory) cres" where
  "getmatchsub mem line pmatch n =
     (if length pmatch \<le> n then Inl Out_Of_Bounds
      else
        let (so, eo) = pmatch ! n; len = (if 0 \<le> so then eo - so else 0) in
        if len \<noteq> 0 then
          (case alloc mem of
             (False, mem') \<Rightarrow> Inr (len, None, mem')
           | (True, mem') \<Rightarrow>
               if len < 0 \<or> int (length line) < eo then Inl Out_Of_Bounds
               else Inr (len, Some (take (nat len) (drop (nat so) line)), mem'))
        else Inr (len, None, mem))"

section \<open>Socket output and input\<close>

text \<open>
  A result of \<open>send\<close>: the number of bytes taken (never more than offered), a transient
  error (EAGAIN, EINTR), or another error.
\<close>

datatype io_result = Done nat | Try_Again | Failed

fun write_loop :: "io_result list \<Rightarrow> nat \<Rightarrow> string \<Rightarrow> string \<Rightarrow> (bool \<times> string \<times> io_result list) option" where
  "write_loop sends timeout buf sent =
     (if buf = [] then Some (True, sent, sends)
      else if timeout = 0 then Some (False, sent, sends)
      else case sends of
             [] \<Rightarrow> None
           | Done m # rest \<Rightarrow>
               (let res = min m (length buf)
                in write_loop rest timeout (drop res buf) (sent @ take res buf))
           | Try_Again # rest \<Rightarrow> write_loop rest (timeout - 10) buf sent
           | Failed # rest \<Rightarrow> Some (False, sent, rest))"

declare write_loop.simps [simp del]

text \<open>
  The result says whether \<open>pu_write\<close> returns non-zero, what has been handed to the socket
  and the unused \<open>send\<close> results; \<open>None\<close> when it is still waiting for one. Without a socket
  (\<open>fd\<close> is -1) it returns the length of the buffer.
\<close>

definition pu_write :: "bool \<Rightarrow> io_result list \<Rightarrow> string \<Rightarrow> (bool \<times> string \<times> io_result list) option" where
  "pu_write has_fd sends buf =
     (if \<not> has_fd then Some (buf \<noteq> [], [], sends) else write_loop sends 20000 buf [])"

datatype recv_result = Data string | Recv_Again | Recv_Failed

fun pu_read :: "bool \<Rightarrow> recv_result list \<Rightarrow> (string \<times> recv_result list) option" where
  "pu_read False recvs = Some ([], recvs)"
| "pu_read True [] = None"
| "pu_read True (Recv_Again # rest) = pu_read True rest"
| "pu_read True (Recv_Failed # rest) = Some ([], rest)"
| "pu_read True (Data s # rest) = Some (s, rest)"

section \<open>Formatted strings\<close>

text \<open>
  \<open>pvasprintf\<close>: \<open>out\<close> is the formatted text and \<open>ret size\<close> what \<open>vsnprintf\<close> returns for a
  buffer of \<open>size\<close> bytes. Result: the allocated string, or none without memory. The first
  buffer has 128 bytes and is used as if it had one.
\<close>

partial_function (option) pvasprintf_loop ::
  "(nat \<Rightarrow> int) \<Rightarrow> string \<Rightarrow> memory \<Rightarrow> nat \<Rightarrow> nat \<Rightarrow> (string \<times> nat \<times> memory) option option" where
  "pvasprintf_loop ret out mem bufsize nextsize =
     (let (got, mem') = alloc mem; bufsize' = (if bufsize = 0 then 1 else nextsize) in
      if \<not> got then Some None
      else
        let outsize = ret bufsize' in
        if outsize = -1 \<or> outsize = int bufsize' then
          pvasprintf_loop ret out mem' bufsize' (bufsize' * 2)
        else if outsize > int bufsize' then
          pvasprintf_loop ret out mem' bufsize' (nat (outsize + 2))
        else if outsize = int bufsize' - 1 then
          pvasprintf_loop ret out mem' bufsize' (bufsize' * 2)
        else Some (Some (take (bufsize' - 1) out, bufsize', mem')))"

definition pvasprintf :: "(nat \<Rightarrow> int) \<Rightarrow> string \<Rightarrow> memory \<Rightarrow> (string \<times> int) option option" where
  "pvasprintf ret out mem =
     (case pvasprintf_loop ret out mem 0 0 of
        None \<Rightarrow> None
      | Some None \<Rightarrow> Some None
      | Some (Some (s, _, _)) \<Rightarrow> Some (Some (c_str s, int (length (c_str s)))))"

section \<open>Lines\<close>

definition is_eol :: "char \<Rightarrow> bool" where
  "is_eol c \<longleftrightarrow> c = newline \<or> c = NUL"

lemma takeWhile_eq_length: "takeWhile P s = take (length (takeWhile P s)) s"
  by (metis takeWhile_eq_take)

text \<open>The two searches together find the first newline or NUL.\<close>

lemma eol_at_first:
  "eol_at s = (if \<exists>c \<in> set s. is_eol c then Some (length (takeWhile (\<lambda>c. \<not> is_eol c) s)) else None)"
proof (induction s)
  case (Cons d s)
  then show ?case
    by (auto simp: eol_at_def strchr_at_def memchr_at_def c_str_def is_eol_def split: if_splits)
qed (simp add: eol_at_def strchr_at_def memchr_at_def c_str_def)

lemma grow_line_enough: "fst (grow_line mem need k) = Some k' \<Longrightarrow> need \<le> 1024 * 2 ^ k'"
  by (induction mem need k rule: grow_line.induct)
     (subst (asm) (2) grow_line.simps, auto split: if_splits prod.splits bool.splits)

lemma grow_line_memory: "\<exists>k'. grow_line [] need k = (Some k', [])"
proof (induction "[] :: memory" need k rule: grow_line.induct)
  case (1 need k)
  then show ?case by (cases "need \<le> 1024 * 2 ^ k") (simp_all add: grow_line.simps [of _ need k])
qed


definition incoming :: "string list \<Rightarrow> string" where
  "incoming rs = concat (takeWhile (\<lambda>c. c \<noteq> []) rs)"

lemma incoming_simps [simp]:
  "incoming [] = []" "incoming ([] # rs) = []" "c \<noteq> [] \<Longrightarrow> incoming (c # rs) = c @ incoming rs"
  by (simp_all add: incoming_def)

definition plain :: "string \<Rightarrow> bool" where
  "plain s \<longleftrightarrow> (\<forall>c \<in> set s. \<not> is_eol c)"

lemma plain_append [simp]: "plain (s @ t) \<longleftrightarrow> plain s \<and> plain t" "plain []"
  by (auto simp: plain_def)

lemma plain_c_str: "plain s \<Longrightarrow> c_str (s @ NUL # t) = s"
proof -
  assume "plain s"
  then have "NUL \<notin> set s" by (auto simp: plain_def is_eol_def)
  then show ?thesis by (induction s) (auto simp: c_str_def)
qed

lemma takeWhile_plain: "plain s \<Longrightarrow> takeWhile (\<lambda>c. \<not> is_eol c) (s @ t) = s @ takeWhile (\<lambda>c. \<not> is_eol c) t"
  by (simp add: plain_def)

lemma dropWhile_plain: "plain s \<Longrightarrow> dropWhile (\<lambda>c. \<not> is_eol c) (s @ t) = dropWhile (\<lambda>c. \<not> is_eol c) t"
  by (simp add: plain_def)

definition line_of :: "string \<Rightarrow> string" where
  "line_of s = takeWhile (\<lambda>c. c \<noteq> carriage_return) (takeWhile (\<lambda>c. \<not> is_eol c) s)"

definition after_line :: "string \<Rightarrow> string" where
  "after_line s = tl (dropWhile (\<lambda>c. \<not> is_eol c) s)"

text \<open>One pass over the unread bytes, with memory.\<close>

lemma take_line_result:
  assumes "rmem r = []" and "plain line" and "unread r \<noteq> []"
  shows "if plain (unread r)
         then \<exists>k'. take_line line k r = Inr (line @ unread r, k', r\<lparr> unread := [] \<rparr>)
         else take_line line k r = Inl (Inr (Some (line_of (line @ unread r)), r\<lparr> unread := after_line (unread r) \<rparr>))"
proof (cases "plain (unread r)")
  case True
  then have e: "eol_at (unread r) = None" by (auto simp: eol_at_first plain_def)
  obtain k' where g: "grow_line [] (length line + length (unread r)) k = (Some k', [])"
    using grow_line_memory by blast
  then have "length line + length (unread r) \<le> 1024 * 2 ^ k'"
    using grow_line_enough [of "[]" "length line + length (unread r)" k k'] by simp
  with True e g assms(1) show ?thesis
    by (auto simp: take_line_def Let_def)
next
  case False
  let ?u = "takeWhile (\<lambda>c. \<not> is_eol c) (unread r)"
  have e: "eol_at (unread r) = Some (length ?u)"
    using False by (auto simp: eol_at_first plain_def)
  obtain k' where g: "grow_line [] (length line + (length ?u + 1)) k = (Some k', [])"
    using grow_line_memory by blast
  then have b: "\<not> 1024 * 2 ^ k' < length line + (length ?u + 1)"
    using grow_line_enough [of "[]" "length line + (length ?u + 1)" k k'] by simp
  have t: "take (length ?u) (unread r) = ?u" by (rule takeWhile_eq_take [symmetric])
  have "drop (length ?u) (unread r) = dropWhile (\<lambda>c. \<not> is_eol c) (unread r)"
    by (rule dropWhile_eq_drop [symmetric])
  then have d: "drop (length ?u + 1) (unread r) = after_line (unread r)"
    by (metis Suc_eq_plus1 after_line_def drop_Suc tl_drop)
  have p: "plain (line @ ?u)" using assms(2) by (auto simp: plain_def dest: set_takeWhileD)
  have c: "c_str (line @ ?u @ [NUL]) = line @ ?u"
    using plain_c_str [OF p, of "[]"] by simp
  have "take_line line k r =
      Inl (Inr (Some (takeWhile (\<lambda>c. c \<noteq> carriage_return) (line @ ?u)), r\<lparr> unread := after_line (unread r), rmem := [] \<rparr>))"
    unfolding take_line_def Let_def e option.case assms(1) g prod.case if_not_P [OF b] t d c by simp
  also have "\<dots> = Inl (Inr (Some (line_of (line @ unread r)), r\<lparr> unread := after_line (unread r) \<rparr>))"
    using assms(1,2) by (cases r) (simp add: line_of_def takeWhile_plain)
  finally show ?thesis using False by simp
qed

lemma getline_loop_result:
  assumes "rmem r = []" and "plain line" and "reads r = rs"
  shows "let s = line @ unread r @ incoming rs in
         if plain s then \<exists>r'. getline_loop rs line k r = Inr (None, r') \<and> closed r' 
         else \<exists>r'. getline_loop rs line k r = Inr (Some (line_of s), r') \<and> closed r' = closed r \<and> rmem r' = []
                 \<and> unread r' @ incoming (reads r') = after_line s"
  using assms
proof (induction rs arbitrary: line k r)
  case Nil
  show ?case
  proof (cases "plain (unread r)")
    case True
    obtain k' where "(if unread r = [] then Inr (line, k, r) else take_line line k r) =
        (Inr (line @ unread r, k', r\<lparr> unread := [] \<rparr>) :: line_result + string \<times> nat \<times> reader)"
      using take_line_result [OF Nil(1,2), of k] True by (cases "unread r = []") auto
    then show ?thesis using True Nil(2) by (subst getline_loop.simps) (simp add: Let_def)
  next
    case False
    then have "unread r \<noteq> []" by auto
    with take_line_result [OF Nil(1,2), of k] False Nil show ?thesis
      by (subst getline_loop.simps) (simp add: Let_def after_line_def dropWhile_plain)
  qed
next
  case (Cons c rs)
  show ?case
  proof (cases "plain (unread r)")
    case True
    obtain k' where t: "(if unread r = [] then Inr (line, k, r) else take_line line k r) =
        (Inr (line @ unread r, k', r\<lparr> unread := [] \<rparr>) :: line_result + string \<times> nat \<times> reader)"
      using take_line_result [OF Cons.prems(1,2), of k] True by (cases "unread r = []") auto
    show ?thesis
    proof (cases "c = []")
      case True
      with t \<open>plain (unread r)\<close> Cons.prems(2) show ?thesis by (subst getline_loop.simps) (simp add: Let_def)
    next
      case False
      have "getline_loop (c # rs) line k r = getline_loop rs (line @ unread r) k' (r\<lparr> unread := c, reads := rs \<rparr>)"
        using t False by (subst getline_loop.simps) simp
      with Cons.IH [of "r\<lparr> unread := c, reads := rs \<rparr>" "line @ unread r" k'] Cons.prems True False show ?thesis
        by (cases "plain c \<and> plain (incoming rs)") (auto simp: Let_def)
    qed
  next
    case False
    then have ne: "unread r \<noteq> []" by auto
    have d: "dropWhile (\<lambda>c. \<not> is_eol c) (unread r @ t) = dropWhile (\<lambda>c. \<not> is_eol c) (unread r) @ t" for t
      using False by (auto simp: plain_def intro: dropWhile_append1)
    have "dropWhile (\<lambda>c. \<not> is_eol c) (unread r) \<noteq> []" using False by (auto simp: plain_def)
    then have a: "after_line (line @ unread r @ incoming (c # rs)) = after_line (unread r) @ incoming (c # rs)"
      using Cons.prems(2) d by (simp add: after_line_def dropWhile_plain tl_append2)
    have l: "line_of (line @ unread r @ incoming (c # rs)) = line_of (line @ unread r)"
      using Cons.prems(2) False by (auto simp: line_of_def takeWhile_plain plain_def takeWhile_append1)
    show ?thesis
      using take_line_result [OF Cons.prems(1,2) ne, of k] False Cons.prems ne a l
      by (subst getline_loop.simps) (simp add: Let_def)
  qed
qed

lemma grow_line_total: "\<exists>k' mem'. grow_line mem need k = (k', mem')"
  by (metis surj_pair)

lemma take_line_ok: "take_line line k r = Inl res \<Longrightarrow> \<exists>x. res = Inr x"
proof -
  assume a: "take_line line k r = Inl res"
  let ?need = "length line + (case eol_at (unread r) of None \<Rightarrow> length (unread r) | Some i \<Rightarrow> i + 1)"
  obtain k' mem' where g: "grow_line (rmem r) ?need k = (k', mem')" using grow_line_total by blast
  then have "k' = Some j \<Longrightarrow> ?need \<le> 1024 * 2 ^ j" for j
    using grow_line_enough [of "rmem r" ?need k j] by simp
  with a g show ?thesis by (auto simp: take_line_def Let_def split: option.splits if_splits)
qed

lemma getline_loop_ok: "\<exists>x. getline_loop rs line k r = Inr x"
proof (induction rs arbitrary: line k r)
  case Nil
  then show ?case by (subst getline_loop.simps) (auto split: sum.splits if_splits dest: take_line_ok)
next
  case (Cons c rs)
  then show ?case by (subst getline_loop.simps) (auto split: sum.splits if_splits dest: take_line_ok)
qed

section \<open>Properties\<close>

text \<open>
  C8: \<open>pd_getline\<close> delivers the bytes up to the first newline or NUL of the stream, cut at
  the first carriage return, however the stream is split into reads, and leaves exactly the
  bytes behind the line end for the next call; when the stream ends first it returns no
  line and calls the close function.\<close>

theorem pd_getline_stream:
  assumes "rmem r = []"
  shows "let s = unread r @ incoming (reads r) in
         if \<exists>c \<in> set s. is_eol c
         then \<exists>r'. pd_getline r = Inr (Some (line_of s), r') \<and> closed r' = closed r
                 \<and> unread r' @ incoming (reads r') = after_line s
         else \<exists>r'. pd_getline r = Inr (None, r') \<and> closed r'"
proof -
  have p: "pd_getline r = getline_loop (reads r) [] 0 r"
    using assms by (cases r) (simp add: pd_getline_def)
  show ?thesis
    using getline_loop_result [OF assms _ refl, of "[]" 0]
    by (auto simp: p Let_def plain_def split: if_splits)
qed

theorem pd_getline_stream_witness:
  "\<exists>r'. pd_getline \<lparr> unread = ''ab'', reads = [''c'', [CHR 0x0D, CHR 0x0A, CHR ''z'']], rmem = [], closed = False \<rparr> =
         Inr (Some ''abc'', r') \<and> unread r' @ incoming (reads r') = ''z''"
proof -
  have e: "line_of (''abc'' @ [CHR 0x0D, CHR 0x0A, CHR ''z'']) = ''abc''" "after_line (''abc'' @ [CHR 0x0D, CHR 0x0A, CHR ''z'']) = ''z''"
    by (simp_all add: line_of_def after_line_def is_eol_def)
  show ?thesis
    using pd_getline_stream [of "\<lparr> unread = ''ab'', reads = [''c'', [CHR 0x0D, CHR 0x0A, CHR ''z'']], rmem = [], closed = False \<rparr>"] e
    by (auto simp: Let_def is_eol_def)
qed

text \<open>
  Whatever the reads and whenever memory runs out, \<open>pd_getline\<close> returns and never
  copies beyond its line buffer: the buffer has been doubled until the bytes fit.\<close>

theorem pd_getline_in_bounds: "\<exists>x. pd_getline r = Inr x"
  using getline_loop_ok by (auto simp: pd_getline_def split: prod.split bool.split)

lemma write_loop_prefix:
  "write_loop sends timeout buf sent = Some (success, out, rest) \<Longrightarrow>
   \<exists>more. out = sent @ more \<and> prefix more buf \<and> (success \<longleftrightarrow> more = buf)"
proof (induction sends arbitrary: timeout buf sent)
  case Nil
  then show ?case by (subst (asm) write_loop.simps) (auto split: if_splits)
next
  case (Cons x sends)
  show ?case
  proof (cases "buf = [] \<or> timeout = 0")
    case True
    with Cons.prems show ?thesis by (subst (asm) write_loop.simps) (auto split: if_splits)
  next
    case False
    show ?thesis
    proof (cases x)
      case (Done m)
      let ?n = "min m (length buf)"
      have "write_loop sends timeout (drop ?n buf) (sent @ take ?n buf) = Some (success, out, rest)"
        using Cons.prems False Done by (subst (asm) write_loop.simps) (simp add: Let_def)
      from Cons.IH [OF this] obtain more where
        m: "out = (sent @ take ?n buf) @ more" "prefix more (drop ?n buf)" "success \<longleftrightarrow> more = drop ?n buf"
        by blast
      have "prefix (take ?n buf @ more) (take ?n buf @ drop ?n buf)"
        using m(2) by (simp only: same_prefix_prefix)
      moreover have "more = drop ?n buf \<longleftrightarrow> take ?n buf @ more = buf"
        by (metis append_take_drop_id same_append_eq)
      ultimately show ?thesis using m(1,3) by (intro exI [of _ "take ?n buf @ more"]) simp
    next
      case Try_Again
      with Cons.prems False have "write_loop sends (timeout - 10) buf sent = Some (success, out, rest)"
        by (subst (asm) write_loop.simps) simp
      from Cons.IH [OF this] show ?thesis .
    next
      case Failed
      with Cons.prems False show ?thesis by (subst (asm) write_loop.simps) auto
    qed
  qed
qed

lemma write_loop_returns:
  assumes "\<forall>x \<in> set sends. x \<noteq> Done 0" and "length buf + timeout div 10 \<le> length sends" and "10 dvd timeout"
  shows "write_loop sends timeout buf sent \<noteq> None"
  using assms
proof (induction sends arbitrary: timeout buf sent)
  case Nil
  then show ?case by (subst write_loop.simps) auto
next
  case (Cons x sends)
  show ?case
  proof (cases "buf = [] \<or> timeout = 0")
    case True
    then show ?thesis by (subst write_loop.simps) auto
  next
    case False
    then obtain j where j: "timeout = 10 * Suc j" using Cons.prems(3) by (cases "timeout div 10") auto
    show ?thesis
    proof (cases x)
      case (Done m)
      have "m \<noteq> 0" using Cons.prems(1) Done by auto
      then have "1 \<le> min m (length buf)" using False by (cases buf) auto
      then have "length (drop (min m (length buf)) buf) + timeout div 10 \<le> length sends"
        using Cons.prems(2) by (auto simp: min_def)
      with Cons.prems have "write_loop sends timeout (drop (min m (length buf)) buf) (sent @ take (min m (length buf)) buf) \<noteq> None"
        by (intro Cons.IH) auto
      then show ?thesis using Done False by (subst write_loop.simps) (simp add: Let_def)
    next
      case Try_Again
      have "write_loop sends (timeout - 10) buf sent \<noteq> None"
        using Cons.prems j by (intro Cons.IH) auto
      then show ?thesis using Try_Again False by (subst write_loop.simps) simp
    qed (use False in \<open>subst write_loop.simps, simp\<close>)
  qed
qed

text \<open>
  C9: \<open>pu_write\<close> sends a prefix of the buffer, in order and without gaps or repetitions;
  it reports success exactly when all of it has been taken. It always returns when
  \<open>send\<close> keeps making progress: after at most as many successful calls as there are bytes
  and 2000 transient errors.\<close>

theorem pu_write_prefix:
  "(pu_write True sends buf = Some (success, sent, rest) \<longrightarrow> prefix sent buf \<and> (success \<longleftrightarrow> sent = buf))
   \<and> ((\<forall>x \<in> set sends. x \<noteq> Done 0) \<and> length buf + 2000 \<le> length sends \<longrightarrow> pu_write True sends buf \<noteq> None)"
  using write_loop_prefix [of sends 20000 buf "[]" success sent rest] write_loop_returns [of sends buf 20000 "[]"]
  by (auto simp: pu_write_def)

theorem pu_write_prefix_witness:
  "pu_write True [Done 2, Try_Again, Done 5] ''abc'' = Some (True, ''abc'', []) \<and> prefix ''abc'' ''abc''"
proof -
  have "pu_write True [Done 2, Try_Again, Done 5] ''abc'' = Some (True, ''abc'', [])"
    by (simp add: pu_write_def write_loop.simps)
  with pu_write_prefix [of "[Done 2, Try_Again, Done 5]" "''abc''" True "''abc''" "[]"] show ?thesis by simp
qed


text \<open>The two documented conventions of \<open>vsnprintf\<close>: C99, and the older one.\<close>

definition prints :: "(nat \<Rightarrow> int) \<Rightarrow> string \<Rightarrow> bool" where
  "prints ret out \<longleftrightarrow>
     (\<forall>size. ret size = int (length out))
     \<or> (\<forall>size. ret size = (if length out < size then int (length out) else -1))"

lemma pvasprintf_loop_ends:
  assumes "prints ret out" and "b \<noteq> 0" and "0 < ns"
  shows "\<exists>size. length out + 2 \<le> size \<and> pvasprintf_loop ret out [] b ns = Some (Some (out, size, []))"
  using assms(2,3)
proof (induction "length out + 2 - ns" arbitrary: b ns rule: less_induct)
  case less
  show ?case
  proof (cases "length out + 2 \<le> ns")
    case True
    then have "ret ns = int (length out)" using assms(1) by (auto simp: prints_def)
    with True less.prems show ?thesis
      by (subst pvasprintf_loop.simps) (simp add: Let_def)
  next
    case False
    have step: "pvasprintf_loop ret out [] b ns =
      (if ret ns > int ns then pvasprintf_loop ret out [] ns (nat (ret ns + 2))
       else pvasprintf_loop ret out [] ns (ns * 2))"
    proof -
      have "ret ns = -1 \<or> int ns - 1 \<le> ret ns" using assms(1) False by (auto simp: prints_def)
      then show ?thesis using less.prems by (subst pvasprintf_loop.simps) (auto simp: Let_def)
    qed
    have "ret ns > int ns \<Longrightarrow> ret ns = int (length out)" using assms(1) by (auto simp: prints_def split: if_splits)
    then have big: "ret ns > int ns \<Longrightarrow> ns < nat (ret ns + 2)" by simp
    have "length out + 2 - (ns * 2) < length out + 2 - ns" using False less.prems by simp
    moreover have "length out + 2 - nat (ret ns + 2) < length out + 2 - ns" if "ret ns > int ns"
      using big [OF that] False by linarith
    ultimately show ?thesis
      unfolding step using less.hyps [of "ns * 2" ns] less.hyps [of "nat (ret ns + 2)" ns] less.prems big by auto
  qed
qed

text \<open>
  \<open>pvasprintf\<close> ends and returns the whole formatted text, with both conventions for the
  result of \<open>vsnprintf\<close>: it only accepts a result that fits with a byte to spare, so the
  buffer it returns has at least two bytes more than the text.\<close>

theorem pvasprintf_complete:
  assumes "prints ret out"
  shows "pvasprintf ret out [] = Some (Some (c_str out, int (length (c_str out))))"
proof -
  have start: "pvasprintf_loop ret out [] 0 0 = pvasprintf_loop ret out [] 1 1"
    by (subst (1 2) pvasprintf_loop.simps) simp
  obtain size where "pvasprintf_loop ret out [] 1 1 = Some (Some (out, size, []))"
    using pvasprintf_loop_ends [OF assms, of 1 1] by auto
  then show ?thesis by (simp add: pvasprintf_def start)
qed

theorem pvasprintf_complete_witness:
  "pvasprintf (\<lambda>size. if 2 < size then 2 else -1) ''ab'' [] = Some (Some (''ab'', 2))"
proof -
  have "prints (\<lambda>size. if 2 < size then 2 else -1) ''ab''" by (simp add: prints_def)
  from pvasprintf_complete [OF this] show ?thesis by (simp add: c_str_def)
qed

end
