(* ===== verification/PDict.thy ===== *)
theory PDict
  imports PTree PList "HOL-Library.Multiset"
begin

text \<open>
  The dictionary of the library (\<open>dict/pdict.c\<close>): entries with a key, a value and change
  listeners, and persistent listeners with a key pattern that are attached to every entry
  whose key matches.

  The entries are the values of a search tree, given by their sequence in key order with
  the operations \<open>seq_find\<close>, \<open>seq_put\<close>, \<open>seq_del\<close> that \<open>ptree_contains\<close>,
  \<open>ptree_replace\<close> and \<open>ptree_remove\<close> implement (theory \<open>PTreeWalk\<close>); the listener lists are
  the association lists of \<open>plist.c\<close> in link order (theory \<open>PList\<close>). A listener is a value
  of type \<open>'a\<close> for the pair of the notify function and its argument; \<open>nf\<close> is what calling
  it does to the state \<open>'s\<close> around the dictionary. \<open>regexec\<close> and \<open>regcomp\<close> of the C library
  are parameters. \<open>malloc\<close> and \<open>strdup\<close> take their outcome from the \<open>memory\<close>.
\<close>

section \<open>State\<close>

datatype pdict_reason = PDR_VALUE_CHANGED | PDR_ENTRY_ADDED | PDR_ENTRY_REMOVING | PDR_CURRENT_VALUE

record 'a pdict_ent =
  pde_key :: string
  pde_val :: string
  pde_listeners :: "'a list"

record ('r, 'a) persistent =
  pdpl_l :: 'a
  pdpl_regex :: 'r
  pdpl_new :: bool

text \<open>The listener identifiers come from a counter that all dictionaries share.\<close>

record ('r, 'a) pdict =
  pd_ents :: "'a pdict_ent list"
  pd_persistent_listeners :: "(int \<times> ('r, 'a) persistent) list"
  lid :: int

datatype rx_result = RX_MATCH | RX_NOMATCH | RX_ERROR

text \<open>What a listener is called with; \<open>None\<close> is a NULL string.\<close>

record event =
  ev_key :: "string option"
  ev_val :: "string option"
  ev_reason :: pdict_reason
  ev_oldval :: "string option"

type_synonym 's env = "memory \<times> 's"
type_synonym ('a, 's) notifier = "'a \<Rightarrow> event \<Rightarrow> 's env \<Rightarrow> 's env"

definition take_mem :: "'s env \<Rightarrow> bool \<times> 's env" where
  "take_mem env = (fst (alloc (fst env)), (snd (alloc (fst env)), snd env))"

definition pdecmp :: "'a pdict_ent \<Rightarrow> 'a pdict_ent \<Rightarrow> int" where
  "pdecmp s d = strcmp (pde_key s) (pde_key d)"

text \<open>A search passes the address of the key, which the comparison reads as an entry.\<close>

definition key_ent :: "string \<Rightarrow> 'a pdict_ent" where
  "key_ent k = \<lparr> pde_key = k, pde_val = [], pde_listeners = [] \<rparr>"

definition pdict_alloc :: "int \<Rightarrow> 's env \<Rightarrow> ('r, 'a) pdict option \<times> 's env" where
  "pdict_alloc next_lid env =
     (let (got, env') = take_mem env in
      (if got then Some \<lparr> pd_ents = [], pd_persistent_listeners = [], lid = next_lid \<rparr> else None, env'))"

section \<open>Listeners of one entry\<close>

text \<open>The listener structure and the list node are allocated in turn.\<close>

definition ent_add_change_listener :: "'a \<Rightarrow> 'a pdict_ent \<times> 's env \<Rightarrow> bool \<times> 'a pdict_ent \<times> 's env" where
  "ent_add_change_listener l s =
     (let (e, env) = s; (got, env1) = take_mem env in
      if \<not> got then (False, e, env1)
      else let (got2, env2) = take_mem env1 in
        if \<not> got2 then (False, e, env2)
        else (True, e\<lparr> pde_listeners := pde_listeners e @ [l] \<rparr>, env2))"

text \<open>The first listener with the same function and argument is taken out.\<close>

definition ent_remove_change_listener :: "'a \<Rightarrow> 'a pdict_ent \<Rightarrow> bool \<times> 'a pdict_ent" where
  "ent_remove_change_listener l e =
     (if l \<in> set (pde_listeners e) then (True, e\<lparr> pde_listeners := remove1 l (pde_listeners e) \<rparr>)
      else (False, e))"

definition ent_remove_change_listeners :: "'a pdict_ent \<Rightarrow> 'a pdict_ent" where
  "ent_remove_change_listeners e = e\<lparr> pde_listeners := [] \<rparr>"

text \<open>Copying stops at the first listener there is no memory for.\<close>

definition ent_listeners_copy :: "'a pdict_ent \<Rightarrow> 'a pdict_ent \<times> 's env \<Rightarrow> 'a pdict_ent \<times> 's env" where
  "ent_listeners_copy e s =
     snd (walk_list (\<lambda>l _ t. let (got, t') = ent_add_change_listener l t in (if got then 1 else 0, t'))
            (map (\<lambda>l. (l, ())) (pde_listeners e)) s)"

definition ent_notify :: "('a, 's) notifier \<Rightarrow> 'a list \<Rightarrow> event \<Rightarrow> 's env \<Rightarrow> 's env" where
  "ent_notify nf ls ev env =
     snd (walk_list (\<lambda>l _ t. (1, nf l ev t)) (map (\<lambda>l. (l, ())) ls) env)"

definition dup :: "string \<Rightarrow> 's env \<Rightarrow> string option \<times> 's env" where
  "dup s env = (let (got, env') = take_mem env in (if got then Some s else None, env'))"

text \<open>
  Notification on a copy of the entry, so that the callbacks may remove it. The old value
  of an added entry is the copy's own value; a changed entry passes the old value only
  when the caller of \<open>pdict_add\<close> asked for it, for otherwise it has been freed.
\<close>

definition notify_copy :: "('a, 's) notifier \<Rightarrow> 'a pdict_ent \<Rightarrow> pdict_reason \<Rightarrow> string option \<Rightarrow> 's env \<Rightarrow> 's env" where
  "notify_copy nf n reason ov env =
     (if pde_listeners n = [] then env
      else
        let (k, env1) = dup (pde_key n) env; (v, env2) = dup (pde_val n) env1;
            (copy, env3) = ent_listeners_copy n (\<lparr> pde_key = [], pde_val = [], pde_listeners = [] \<rparr>, env2)
        in ent_notify nf (pde_listeners copy)
             \<lparr> ev_key = k, ev_val = v, ev_reason = reason,
               ev_oldval = (if reason = PDR_ENTRY_ADDED then v else ov) \<rparr> env3)"

section \<open>Persistent listeners and one entry\<close>

definition ent_add_persistent :: "('r \<Rightarrow> string \<Rightarrow> rx_result) \<Rightarrow> ('a, 's) notifier \<Rightarrow> ('r, 'a) persistent
    \<Rightarrow> 'a pdict_ent \<times> 's env \<Rightarrow> bool \<times> 'a pdict_ent \<times> 's env" where
  "ent_add_persistent regexec nf pl s =
     (case regexec (pdpl_regex pl) (pde_key (fst s)) of
        RX_ERROR \<Rightarrow> (False, s)
      | RX_NOMATCH \<Rightarrow> (True, s)
      | RX_MATCH \<Rightarrow>
          let (got, e, env) = ent_add_change_listener (pdpl_l pl) s in
          if \<not> got then (False, e, env)
          else (True, e,
            if pdpl_new pl
            then nf (pdpl_l pl) \<lparr> ev_key = Some (pde_key e), ev_val = Some (pde_val e),
                   ev_reason = PDR_CURRENT_VALUE, ev_oldval = None \<rparr> env
            else env))"

definition ent_remove_persistent :: "('r, 'a) persistent \<Rightarrow> 'a pdict_ent \<Rightarrow> 'a pdict_ent" where
  "ent_remove_persistent pl e = snd (ent_remove_change_listener (pdpl_l pl) e)"

text \<open>
  Attaching all persistent listeners to a new entry. When one fails, the list is walked
  again with \<open>pdict_ent_remove_persistent_change_listener_cb\<close> to take them off. That
  callback uses the key of the list entry, which is the integer identifier, as the pointer
  to the listener: its first call dereferences a pointer that is not one.
\<close>

definition remove_persistent_cb :: "int \<Rightarrow> ('r, 'a) persistent \<Rightarrow> 'a pdict_ent \<Rightarrow> 'a pdict_ent cres" where
  "remove_persistent_cb key pl e = Inl Bad_Pointer"

fun remove_persistents :: "(int \<times> ('r, 'a) persistent) list \<Rightarrow> 'a pdict_ent \<Rightarrow> 'a pdict_ent cres" where
  "remove_persistents [] e = Inr e"
| "remove_persistents (x # xs) e = cbind (remove_persistent_cb (fst x) (snd x) e) (remove_persistents xs)"

definition ent_add_persistents :: "('r \<Rightarrow> string \<Rightarrow> rx_result) \<Rightarrow> ('a, 's) notifier
    \<Rightarrow> (int \<times> ('r, 'a) persistent) list \<Rightarrow> 'a pdict_ent \<times> 's env \<Rightarrow> (bool \<times> 'a pdict_ent \<times> 's env) cres" where
  "ent_add_persistents regexec nf pls s =
     (let (res, s') = walk_list (\<lambda>_ pl t. let (got, t') = ent_add_persistent regexec nf pl t
                                           in (if got then 1 else 0, t')) pls s in
      if res = 0 then cbind (remove_persistents pls (fst s')) (\<lambda>e. Inr (False, e, snd s'))
      else Inr (True, s'))"

section \<open>Adding and removing entries\<close>

text \<open>
  \<open>want_old\<close>: the caller passes a place for the old value. Result: success, the old value,
  the dictionary, the environment.
\<close>

definition pdict_add :: "('r \<Rightarrow> string \<Rightarrow> rx_result) \<Rightarrow> ('a, 's) notifier \<Rightarrow> string \<Rightarrow> string \<Rightarrow> bool
    \<Rightarrow> ('r, 'a) pdict \<Rightarrow> 's env \<Rightarrow> (bool \<times> string option \<times> ('r, 'a) pdict \<times> 's env) cres" where
  "pdict_add regexec nf k v want_old pd env =
     (let (kgot, env1) = take_mem env in
      if \<not> kgot then Inr (False, None, pd, env1) else
      let (vgot, env2) = take_mem env1 in
      if \<not> vgot then Inr (False, None, pd, env2) else
      case seq_find pdecmp (key_ent k) (pd_ents pd) of
        Some n \<Rightarrow>
          let n' = n\<lparr> pde_val := v \<rparr>;
              pd' = pd\<lparr> pd_ents := map (\<lambda>e. if pde_key e = pde_key n then n' else e) (pd_ents pd) \<rparr>;
              ov = (if want_old then Some (pde_val n) else None)
          in Inr (True, ov, pd', notify_copy nf n' PDR_VALUE_CHANGED ov env2)
      | None \<Rightarrow>
          let (ngot, env3) = take_mem env2 in
          if \<not> ngot then Inr (False, None, pd, env3) else
          cbind (ent_add_persistents regexec nf (pd_persistent_listeners pd)
                   (\<lparr> pde_key = k, pde_val = v, pde_listeners = [] \<rparr>, env3)) (\<lambda>(got, n, env4).
          if \<not> got then Inr (False, None, pd, env4) else
          let (tgot, env5) = take_mem env4 in
          if \<not> tgot then Inr (False, None, pd, env5) else
          Inr (True, None, pd\<lparr> pd_ents := seq_put pdecmp n (pd_ents pd) \<rparr>,
               notify_copy nf n PDR_ENTRY_ADDED None env5)))"

definition pdict_ent_remove :: "('a, 's) notifier \<Rightarrow> string \<Rightarrow> ('r, 'a) pdict \<Rightarrow> 's env
    \<Rightarrow> bool \<times> string option \<times> ('r, 'a) pdict \<times> 's env" where
  "pdict_ent_remove nf k pd env =
     (case seq_find pdecmp (key_ent k) (pd_ents pd) of
        None \<Rightarrow> (False, None, pd, env)
      | Some n \<Rightarrow>
          (True, Some (pde_val n), pd\<lparr> pd_ents := seq_del pdecmp (key_ent k) (pd_ents pd) \<rparr>,
           ent_notify nf (pde_listeners n)
             \<lparr> ev_key = Some (pde_key n), ev_val = Some (pde_val n), ev_reason = PDR_ENTRY_REMOVING,
               ev_oldval = Some (pde_val n) \<rparr> env))"

definition pdict_ent_lookup :: "string \<Rightarrow> ('r, 'a) pdict \<Rightarrow> 's env \<Rightarrow> bool \<times> string option \<times> 's env" where
  "pdict_ent_lookup k pd env =
     (case seq_find pdecmp (key_ent k) (pd_ents pd) of
        None \<Rightarrow> (False, None, env)
      | Some n \<Rightarrow> (let (v, env') = dup (pde_val n) env in (True, v, env')))"

section \<open>Walking the entries\<close>

text \<open>
  \<open>_pdict_walk_int\<close>: the callback works on the entry in place; a result of 0 is
  \<open>PTREE_WALK_STOP\<close> and ends the walk.
\<close>

fun pdict_walk_int :: "('a pdict_ent \<times> 's env \<Rightarrow> bool \<times> 'a pdict_ent \<times> 's env)
    \<Rightarrow> 'a pdict_ent list \<Rightarrow> 's env \<Rightarrow> bool \<times> 'a pdict_ent list \<times> 's env" where
  "pdict_walk_int w [] env = (True, [], env)"
| "pdict_walk_int w (e # es) env =
     (let (go, e', env') = w (e, env) in
      if \<not> go then (False, e' # es, env')
      else let (res, es', env'') = pdict_walk_int w es env' in (res, e' # es', env''))"

fun pdict_walk :: "(string \<Rightarrow> string \<Rightarrow> 's \<Rightarrow> bool \<times> 's) \<Rightarrow> 'a pdict_ent list \<Rightarrow> 's \<Rightarrow> bool \<times> 's" where
  "pdict_walk w [] s = (True, s)"
| "pdict_walk w (e # es) s =
     (let (go, s') = w (pde_key e) (pde_val e) s in if go then pdict_walk w es s' else (False, s'))"

definition pdict_ent_add_change_listener :: "string \<Rightarrow> 'a \<Rightarrow> ('r, 'a) pdict \<Rightarrow> 's env
    \<Rightarrow> bool \<times> ('r, 'a) pdict \<times> 's env" where
  "pdict_ent_add_change_listener k l pd env =
     (case seq_find pdecmp (key_ent k) (pd_ents pd) of
        None \<Rightarrow> (False, pd, env)
      | Some n \<Rightarrow>
          let (got, n', env') = ent_add_change_listener l (n, env) in
          (got, pd\<lparr> pd_ents := map (\<lambda>e. if pde_key e = pde_key n then n' else e) (pd_ents pd) \<rparr>, env'))"

definition pdict_ent_remove_change_listener :: "string \<Rightarrow> 'a \<Rightarrow> ('r, 'a) pdict \<Rightarrow> bool \<times> ('r, 'a) pdict" where
  "pdict_ent_remove_change_listener k l pd =
     (case seq_find pdecmp (key_ent k) (pd_ents pd) of
        None \<Rightarrow> (False, pd)
      | Some n \<Rightarrow>
          let (found, n') = ent_remove_change_listener l n in
          (found, pd\<lparr> pd_ents := map (\<lambda>e. if pde_key e = pde_key n then n' else e) (pd_ents pd) \<rparr>))"

section \<open>Adding and removing persistent listeners\<close>

definition pdict_remove_persistent_change_listener :: "int \<Rightarrow> ('r, 'a) pdict \<Rightarrow> bool \<times> ('r, 'a) pdict" where
  "pdict_remove_persistent_change_listener i pd =
     (case map_of (pd_persistent_listeners pd) i of
        None \<Rightarrow> (False, pd)
      | Some pl \<Rightarrow>
          (True, pd\<lparr> pd_persistent_listeners := del_first i (pd_persistent_listeners pd),
                     pd_ents := map (ent_remove_persistent pl) (pd_ents pd) \<rparr>))"

text \<open>
  The result of \<open>plist_add\<close> is not looked at: without memory for the list node the entries
  get the listener, but the list does not.
\<close>

definition pdict_add_persistent_change_listener :: "(string \<Rightarrow> 'r option) \<Rightarrow> ('r \<Rightarrow> string \<Rightarrow> rx_result)
    \<Rightarrow> ('a, 's) notifier \<Rightarrow> string \<Rightarrow> 'a \<Rightarrow> ('r, 'a) pdict \<Rightarrow> 's env \<Rightarrow> int \<times> ('r, 'a) pdict \<times> 's env" where
  "pdict_add_persistent_change_listener regcomp regexec nf kpat l pd env =
     (let (got, env1) = take_mem env in
      if \<not> got then (0, pd, env1)
      else case regcomp kpat of
        None \<Rightarrow> (0, pd, env1)
      | Some r \<Rightarrow>
          let (listed, env2) = take_mem env1;
              pl = \<lparr> pdpl_l = l, pdpl_regex = r, pdpl_new = True \<rparr>;
              (res, es, env3) = pdict_walk_int (ent_add_persistent regexec nf pl) (pd_ents pd) env2
          in if \<not> res then (0, pd\<lparr> pd_ents := map (ent_remove_persistent pl) es \<rparr>, env3)
             else (lid pd,
                   pd\<lparr> pd_ents := es,
                       pd_persistent_listeners := pd_persistent_listeners pd @
                         (if listed then [(lid pd, pl\<lparr> pdpl_new := False \<rparr>)] else []),
                       lid := lid pd + 1 \<rparr>, env3))"

section \<open>Reasons\<close>

fun pdict_reason_str :: "pdict_reason \<Rightarrow> string" where
  "pdict_reason_str PDR_VALUE_CHANGED = ''changed''"
| "pdict_reason_str PDR_ENTRY_ADDED = ''added''"
| "pdict_reason_str PDR_ENTRY_REMOVING = ''removing''"
| "pdict_reason_str PDR_CURRENT_VALUE = ''current''"

text \<open>\<open>None\<close> stands for the value 0, which is no reason.\<close>

definition pdict_reason_from_str :: "string \<Rightarrow> pdict_reason option" where
  "pdict_reason_from_str s =
     (if strcmp s ''changed'' = 0 then Some PDR_VALUE_CHANGED
      else if strcmp s ''current'' = 0 then Some PDR_CURRENT_VALUE
      else if strcmp s ''added'' = 0 then Some PDR_ENTRY_ADDED
      else if strcmp s ''removing'' = 0 then Some PDR_ENTRY_REMOVING
      else None)"

end
