(* ===== verification/PDictProps.thy ===== *)
theory PDictProps
  imports PDict
begin

text \<open>
  Correctness of the dictionary: the entries behave as a finite map, and in a well-formed
  dictionary (\<open>dict_inv\<close>) every entry carries exactly the persistent listeners whose pattern
  matches its key, which are the ones that are notified. Then what operations do when memory
  fails, and what the operations can reach at all: \<open>dict_reach\<close>. \<open>[]\<close> as the \<open>memory\<close> means
  that every allocation succeeds.
\<close>

section \<open>The comparison and the entries as a map\<close>

interpretation pdk: key_compare pdecmp pde_key "\<lambda>e :: 'a pdict_ent. nul_free (pde_key e)"
  by unfold_locales (simp_all add: pdecmp_def strcmp_zero strcmp_neg)

lemma key_ent_simps [simp]:
  "pde_key (key_ent k) = k" "pde_listeners (key_ent k) = []"
  by (simp_all add: key_ent_def)

definition listeners_for :: "('r \<Rightarrow> string \<Rightarrow> rx_result) \<Rightarrow> (int \<times> ('r, 'a) persistent) list \<Rightarrow> string \<Rightarrow> 'a list" where
  "listeners_for regexec pls k =
     map (\<lambda>x. pdpl_l (snd x)) (filter (\<lambda>x. regexec (pdpl_regex (snd x)) k = RX_MATCH) pls)"

definition ents_ok :: "'a pdict_ent list \<Rightarrow> bool" where
  "ents_ok es \<longleftrightarrow> key_sorted pde_key es \<and> (\<forall>e \<in> set es. nul_free (pde_key e))"

definition attached :: "('r \<Rightarrow> string \<Rightarrow> rx_result) \<Rightarrow> ('r, 'a) pdict \<Rightarrow> bool" where
  "attached regexec pd \<longleftrightarrow>
     (\<forall>e \<in> set (pd_ents pd). mset (pde_listeners e) =
        mset (listeners_for regexec (pd_persistent_listeners pd) (pde_key e)))"

definition dict_inv :: "('r \<Rightarrow> string \<Rightarrow> rx_result) \<Rightarrow> ('r, 'a) pdict \<Rightarrow> bool" where
  "dict_inv regexec pd \<longleftrightarrow>
     ents_ok (pd_ents pd) \<and> attached regexec pd
     \<and> (\<forall>x \<in> set (pd_persistent_listeners pd). \<not> pdpl_new (snd x) \<and> fst x < lid pd)
     \<and> distinct (map fst (pd_persistent_listeners pd)) \<and> 0 < lid pd"

definition dict_lookup :: "string \<Rightarrow> ('r, 'a) pdict \<Rightarrow> string option" where
  "dict_lookup k pd = map_option pde_val (seq_find pdecmp (key_ent k) (pd_ents pd))"

lemma seq_find_ents:
  "ents_ok es \<Longrightarrow> nul_free k \<Longrightarrow> seq_find pdecmp (key_ent k) es = find (\<lambda>e. pde_key e = k) es"
  using pdk.seq_find_key [of "key_ent k" es] by (simp add: ents_ok_def)

lemma find_keyD: "find (\<lambda>e. pde_key e = k) es = Some n \<Longrightarrow> n \<in> set es \<and> pde_key n = k"
  by (auto simp: find_Some_iff)

text \<open>Changing an entry in place is replacing it.\<close>

lemma update_is_put:
  assumes "ents_ok es" and "n \<in> set es" and "pde_key n' = pde_key n"
  shows "map (\<lambda>e. if pde_key e = pde_key n then n' else e) es = seq_put pdecmp n' es"
  using assms
proof (induction es)
  case (Cons e es)
  have ok: "ents_ok es" and e: "nul_free (pde_key e)" and n: "nul_free (pde_key n)"
    using Cons.prems by (auto simp: ents_ok_def)
  show ?case
  proof (cases "pde_key e = pde_key n")
    case True
    then have "\<forall>x \<in> set es. pde_key x \<noteq> pde_key n" using Cons.prems(1) by (auto simp: ents_ok_def)
    then have "map (\<lambda>e. if pde_key e = pde_key n then n' else e) es = es" by (intro map_idI) auto
    with True Cons.prems(3) show ?thesis by (simp add: pdecmp_def)
  next
    case False
    then have "n \<in> set es" using Cons.prems(2) by auto
    then have "pde_key e < pde_key n" using Cons.prems(1) by (auto simp: ents_ok_def)
    then have "\<not> pdecmp n' e < 0" "pdecmp n' e \<noteq> 0"
      using e n Cons.prems(3) by (auto simp: pdecmp_def strcmp_neg strcmp_zero)
    with False Cons.IH [OF ok \<open>n \<in> set es\<close>] Cons.prems(3) show ?thesis by simp
  qed
qed simp

lemma ents_ok_put: "ents_ok es \<Longrightarrow> nul_free (pde_key n) \<Longrightarrow> ents_ok (seq_put pdecmp n es)"
  using pdk.seq_put_sorted [of n es] pdk.set_seq_put [of n es] by (auto simp: ents_ok_def)

lemma ents_ok_del: "ents_ok es \<Longrightarrow> nul_free k \<Longrightarrow> ents_ok (seq_del pdecmp (key_ent k) es)"
  using pdk.seq_del_sorted [of "key_ent k" es] pdk.seq_del_key [of "key_ent k" es] by (auto simp: ents_ok_def)

lemma set_put: "ents_ok es \<Longrightarrow> nul_free (pde_key n) \<Longrightarrow>
    set (seq_put pdecmp n es) = insert n {x \<in> set es. pde_key x \<noteq> pde_key n}"
  using pdk.set_seq_put [of n es] by (simp add: ents_ok_def)

lemma set_del: "ents_ok es \<Longrightarrow> nul_free k \<Longrightarrow>
    set (seq_del pdecmp (key_ent k) es) = {x \<in> set es. pde_key x \<noteq> k}"
  using pdk.seq_del_key [of "key_ent k" es] by (auto simp: ents_ok_def)

lemma lookup_put:
  assumes "ents_ok (pd_ents pd)" and "nul_free (pde_key n)" and "nul_free k"
  shows "dict_lookup k (pd\<lparr> pd_ents := seq_put pdecmp n (pd_ents pd) \<rparr>) =
         (if k = pde_key n then Some (pde_val n) else dict_lookup k pd)"
  using assms pdk.seq_find_put [of n "key_ent k" "pd_ents pd"] by (simp add: dict_lookup_def ents_ok_def)

lemma lookup_del:
  assumes "ents_ok (pd_ents pd)" and "nul_free k'" and "nul_free k"
  shows "dict_lookup k (pd\<lparr> pd_ents := seq_del pdecmp (key_ent k') (pd_ents pd) \<rparr>) =
         (if k = k' then None else dict_lookup k pd)"
  using assms pdk.seq_find_del [of "key_ent k'" "key_ent k" "pd_ents pd"] by (simp add: dict_lookup_def ents_ok_def)

section \<open>Walks and memory\<close>

lemma take_mem_simps [simp]: "take_mem ([], s) = (True, ([], s))"
  by (simp add: take_mem_def)

lemma ent_add_mem [simp]:
  "ent_add_change_listener l (e, ([], s)) = (True, e\<lparr> pde_listeners := pde_listeners e @ [l] \<rparr>, ([], s))"
  by (simp add: ent_add_change_listener_def)

lemma dup_mem [simp]: "dup t ([], s) = (Some t, ([], s))"
  by (simp add: dup_def)

lemma ent_notify_fold: "ent_notify nf ls ev env = fold (\<lambda>l. nf l ev) ls env"
proof -
  have "walk_list (\<lambda>l _ t. (1, nf l ev t)) (map (\<lambda>l. (l, ())) ls) env = (1, fold (\<lambda>l. nf l ev) ls env)"
    by (induction ls arbitrary: env) simp_all
  then show ?thesis by (simp add: ent_notify_def)
qed

lemma ent_listeners_copy_mem:
  "ent_listeners_copy e (c, ([], s)) = (c\<lparr> pde_listeners := pde_listeners c @ pde_listeners e \<rparr>, ([], s))"
proof -
  have "walk_list (\<lambda>l _ t. let (got, t') = ent_add_change_listener l t in (if got then 1 else 0, t'))
          (map (\<lambda>l. (l, ())) ls) (c, ([], s)) = (1, (c\<lparr> pde_listeners := pde_listeners c @ ls \<rparr>, ([], s)))" for ls
    by (induction ls arbitrary: c) simp_all
  then show ?thesis by (simp add: ent_listeners_copy_def)
qed

lemma notify_copy_mem:
  "notify_copy nf n reason ov ([], s) =
   fold (\<lambda>l. nf l \<lparr> ev_key = Some (pde_key n), ev_val = Some (pde_val n), ev_reason = reason,
                    ev_oldval = (if reason = PDR_ENTRY_ADDED then Some (pde_val n) else ov) \<rparr>)
     (pde_listeners n) ([], s)"
  by (simp add: notify_copy_def ent_listeners_copy_mem ent_notify_fold)

lemma listeners_for_simps [simp]:
  "listeners_for rx [] k = []"
  "listeners_for rx (x # xs) k =
     (if rx (pdpl_regex (snd x)) k = RX_MATCH then pdpl_l (snd x) # listeners_for rx xs k else listeners_for rx xs k)"
  "listeners_for rx (xs @ ys) k = listeners_for rx xs k @ listeners_for rx ys k"
  by (simp_all add: listeners_for_def)

definition rx_fails :: "('r \<Rightarrow> string \<Rightarrow> rx_result) \<Rightarrow> (int \<times> ('r, 'a) persistent) list \<Rightarrow> string \<Rightarrow> bool" where
  "rx_fails regexec pls k \<longleftrightarrow> (\<exists>x \<in> set pls. regexec (pdpl_regex (snd x)) k = RX_ERROR)"

lemma ent_add_persistents_mem:
  assumes "\<forall>x \<in> set pls. \<not> pdpl_new (snd x)"
  shows "ent_add_persistents rx nf pls (e, ([], s)) =
         (if rx_fails rx pls (pde_key e) then Inl Bad_Pointer
          else Inr (True, e\<lparr> pde_listeners := pde_listeners e @ listeners_for rx pls (pde_key e) \<rparr>, ([], s)))"
proof -
  let ?f = "\<lambda>_ pl t. let (got, t') = ent_add_persistent rx nf pl t in (if got then 1 else 0, t')"
  have "fst (walk_list ?f pls (e, ([], s))) = (if rx_fails rx pls (pde_key e) then 0 else 1)
      \<and> (\<not> rx_fails rx pls (pde_key e) \<longrightarrow>
           snd (walk_list ?f pls (e, ([], s))) =
             (e\<lparr> pde_listeners := pde_listeners e @ listeners_for rx pls (pde_key e) \<rparr>, ([], s)))"
    using assms
  proof (induction pls arbitrary: e)
    case (Cons x pls)
    show ?case
      using Cons.IH [of e] Cons.IH [of "e\<lparr> pde_listeners := pde_listeners e @ [pdpl_l (snd x)] \<rparr>"] Cons.prems
      by (cases "rx (pdpl_regex (snd x)) (pde_key e)")
         (simp_all add: ent_add_persistent_def rx_fails_def)
  qed (simp add: rx_fails_def)
  moreover have "rx_fails rx pls (pde_key e) \<Longrightarrow> \<exists>x xs. pls = x # xs"
    by (cases pls) (auto simp: rx_fails_def)
  ultimately show ?thesis
    by (cases "rx_fails rx pls (pde_key e)")
       (auto simp: ent_add_persistents_def remove_persistent_cb_def split_def Let_def)
qed


section \<open>Invariant\<close>

lemma attachedD: "attached rx pd \<Longrightarrow> e \<in> set (pd_ents pd) \<Longrightarrow>
    mset (pde_listeners e) = mset (listeners_for rx (pd_persistent_listeners pd) (pde_key e))"
  by (simp add: attached_def)

lemma dict_inv_put:
  assumes "dict_inv rx pd" and "nul_free (pde_key n)"
    and "mset (pde_listeners n) = mset (listeners_for rx (pd_persistent_listeners pd) (pde_key n))"
  shows "dict_inv rx (pd\<lparr> pd_ents := seq_put pdecmp n (pd_ents pd) \<rparr>)"
  using assms ents_ok_put [of "pd_ents pd" n] set_put [of "pd_ents pd" n]
  by (auto simp: dict_inv_def attached_def)

lemma dict_inv_del:
  "dict_inv rx pd \<Longrightarrow> nul_free k \<Longrightarrow> dict_inv rx (pd\<lparr> pd_ents := seq_del pdecmp (key_ent k) (pd_ents pd) \<rparr>)"
  using ents_ok_del [of "pd_ents pd" k] set_del [of "pd_ents pd" k]
  by (auto simp: dict_inv_def attached_def)

lemma pdict_add_mem:
  fixes pd :: "('r, 'a) pdict" and s :: 's
  assumes "dict_inv rx pd" and "nul_free k"
  shows "pdict_add rx nf k v want_old pd ([], s) =
    (case find (\<lambda>e. pde_key e = k) (pd_ents pd) of
       Some n \<Rightarrow>
         Inr (True, if want_old then Some (pde_val n) else None,
              pd\<lparr> pd_ents := seq_put pdecmp (n\<lparr> pde_val := v \<rparr>) (pd_ents pd) \<rparr>,
              fold (\<lambda>l. nf l \<lparr> ev_key = Some k, ev_val = Some v, ev_reason = PDR_VALUE_CHANGED,
                               ev_oldval = (if want_old then Some (pde_val n) else None) \<rparr>)
                (pde_listeners n) ([], s))
     | None \<Rightarrow>
         let ls = listeners_for rx (pd_persistent_listeners pd) k in
         if rx_fails rx (pd_persistent_listeners pd) k then Inl Bad_Pointer
         else Inr (True, None,
              pd\<lparr> pd_ents := seq_put pdecmp \<lparr> pde_key = k, pde_val = v, pde_listeners = ls \<rparr> (pd_ents pd) \<rparr>,
              fold (\<lambda>l. nf l \<lparr> ev_key = Some k, ev_val = Some v, ev_reason = PDR_ENTRY_ADDED,
                               ev_oldval = Some v \<rparr>) ls ([], s)))"
proof -
  have ok: "ents_ok (pd_ents pd)" and new: "\<forall>x \<in> set (pd_persistent_listeners pd). \<not> pdpl_new (snd x)"
    using assms(1) by (auto simp: dict_inv_def)
  note f = seq_find_ents [OF ok assms(2)]
  show ?thesis
  proof (cases "find (\<lambda>e. pde_key e = k) (pd_ents pd)")
    case None
    then show ?thesis
      by (simp add: pdict_add_def f Let_def ent_add_persistents_mem [OF new] notify_copy_mem)
  next
    case (Some n)
    note n = find_keyD [OF Some]
    have "map (\<lambda>e. if pde_key e = k then n\<lparr> pde_val := v \<rparr> else e) (pd_ents pd) =
        seq_put pdecmp (n\<lparr> pde_val := v \<rparr>) (pd_ents pd)"
      using update_is_put [OF ok, of n "n\<lparr> pde_val := v \<rparr>"] n by simp
    with Some n show ?thesis by (simp add: pdict_add_def f Let_def notify_copy_mem)
  qed
qed

section \<open>Properties\<close>

text \<open>
  C1: \<open>pdict_add\<close> sets the value of its key and no other, keeps the dictionary well formed,
  and calls each listener whose pattern matches the key once, with "added" for a new key and
  "changed" otherwise. The old value reaches the caller and the listeners exactly when the
  caller asks for it; for a new key the listeners get the new value as the old one.\<close>

theorem pdict_add_sets:
  fixes pd :: "('r, 'a) pdict" and s :: 's
  assumes "dict_inv rx pd" and "nul_free k" and "\<not> rx_fails rx (pd_persistent_listeners pd) k"
  shows "\<exists>pd' ls. pdict_add rx nf k v want_old pd ([], s) =
          Inr (True, if want_old then dict_lookup k pd else None, pd',
            fold (\<lambda>l. nf l \<lparr> ev_key = Some k, ev_val = Some v,
                ev_reason = (if dict_lookup k pd = None then PDR_ENTRY_ADDED else PDR_VALUE_CHANGED),
                ev_oldval = (if dict_lookup k pd = None then Some v
                             else if want_old then dict_lookup k pd else None) \<rparr>) ls ([], s))
        \<and> mset ls = mset (listeners_for rx (pd_persistent_listeners pd) k)
        \<and> dict_inv rx pd' \<and> pd_persistent_listeners pd' = pd_persistent_listeners pd
        \<and> (\<forall>k'. nul_free k' \<longrightarrow> dict_lookup k' pd' = (if k' = k then Some v else dict_lookup k' pd))"
proof -
  have ok: "ents_ok (pd_ents pd)" using assms(1) by (simp add: dict_inv_def)
  note f = seq_find_ents [OF ok assms(2)]
  show ?thesis
  proof (cases "find (\<lambda>e. pde_key e = k) (pd_ents pd)")
    case None
    let ?n = "\<lparr> pde_key = k, pde_val = v, pde_listeners = listeners_for rx (pd_persistent_listeners pd) k \<rparr>"
    let ?pd = "pd\<lparr> pd_ents := seq_put pdecmp ?n (pd_ents pd) \<rparr>"
    have "dict_inv rx ?pd" using dict_inv_put [OF assms(1), of ?n] assms(2) by simp
    moreover have "dict_lookup k pd = None" by (simp add: dict_lookup_def f None)
    ultimately show ?thesis
      using pdict_add_mem [OF assms(1,2), of nf v want_old s] None assms(2,3) lookup_put [OF ok, of ?n]
      by (intro exI [of _ ?pd] exI [of _ "pde_listeners ?n"]) (simp add: Let_def)
  next
    case (Some n)
    note n = find_keyD [OF Some]
    let ?n = "n\<lparr> pde_val := v \<rparr>"
    let ?pd = "pd\<lparr> pd_ents := seq_put pdecmp ?n (pd_ents pd) \<rparr>"
    have ls: "mset (pde_listeners n) = mset (listeners_for rx (pd_persistent_listeners pd) k)"
      using assms(1) n by (auto simp: dict_inv_def attached_def)
    then have "dict_inv rx ?pd" using dict_inv_put [OF assms(1), of ?n] assms(2) n by simp
    moreover have "dict_lookup k pd = Some (pde_val n)" by (simp add: dict_lookup_def f Some)
    ultimately show ?thesis
      using pdict_add_mem [OF assms(1,2), of nf v want_old s] Some assms(2,3) n ls lookup_put [OF ok, of ?n]
      by (intro exI [of _ ?pd] exI [of _ "pde_listeners ?n"]) simp
  qed
qed

definition sample_dict :: "(string, nat) pdict" where
  "sample_dict =
     \<lparr> pd_ents = [\<lparr> pde_key = ''a'', pde_val = ''1'', pde_listeners = [7] \<rparr>],
       pd_persistent_listeners = [(1, \<lparr> pdpl_l = 7, pdpl_regex = ''a'', pdpl_new = False \<rparr>)], lid = 2 \<rparr>"

definition same_rx :: "string \<Rightarrow> string \<Rightarrow> rx_result" where
  "same_rx r k = (if r = k then RX_MATCH else RX_NOMATCH)"

lemma sample_dict_inv: "dict_inv same_rx sample_dict"
  by (simp add: dict_inv_def sample_dict_def ents_ok_def attached_def same_rx_def)

theorem pdict_add_sets_witness:
  "\<exists>pd'. pdict_add same_rx (\<lambda>l ev env. (fst env, (l, ev) # snd env)) ''a'' ''2'' True sample_dict ([], []) =
      Inr (True, Some ''1'', pd', ([], [(7, \<lparr> ev_key = Some ''a'', ev_val = Some ''2'',
        ev_reason = PDR_VALUE_CHANGED, ev_oldval = Some ''1'' \<rparr>)]))
    \<and> dict_lookup ''a'' pd' = Some ''2''"
proof -
  have rx: "\<not> rx_fails same_rx (pd_persistent_listeners sample_dict) ''a''"
    by (simp add: rx_fails_def sample_dict_def same_rx_def)
  have l: "dict_lookup ''a'' sample_dict = Some ''1''" and
    ls: "listeners_for same_rx (pd_persistent_listeners sample_dict) ''a'' = [7]"
    by (simp_all add: dict_lookup_def sample_dict_def pdecmp_def same_rx_def)
  have k: "nul_free ''a''" by simp
  from pdict_add_sets [OF sample_dict_inv k rx, of "\<lambda>l ev env. (fst env, (l, ev) # snd env)" "''2''" True "[]"]
  obtain pd' xs where p: "pdict_add same_rx (\<lambda>l ev env. (fst env, (l, ev) # snd env)) ''a'' ''2'' True sample_dict ([], []) =
      Inr (True, Some ''1'', pd', fold (\<lambda>l env. (fst env, (l, \<lparr> ev_key = Some ''a'', ev_val = Some ''2'',
        ev_reason = PDR_VALUE_CHANGED, ev_oldval = Some ''1'' \<rparr>) # snd env)) xs ([], []))"
    "mset xs = mset [7]" "\<forall>k'. nul_free k' \<longrightarrow> dict_lookup k' pd' = (if k' = ''a'' then Some ''2'' else dict_lookup k' sample_dict)"
    by (auto simp: l ls)
  have "xs = [7]" using p(2) by (cases xs) auto
  with p(1,3) k show ?thesis by auto
qed

text \<open>
  adding a new key is a memory error exactly when a persistent listener's pattern
  cannot be matched against it: the clean-up then uses the integer identifier of a listener
  as a pointer.\<close>

theorem pdict_add_fault:
  "dict_inv rx pd \<and> nul_free k \<longrightarrow>
   ((\<exists>e. pdict_add rx nf k v want_old pd ([], s) = Inl e)
      \<longleftrightarrow> dict_lookup k pd = None \<and> rx_fails rx (pd_persistent_listeners pd) k)"
proof
  assume a: "dict_inv rx pd \<and> nul_free k"
  then have "ents_ok (pd_ents pd)" by (simp add: dict_inv_def)
  then have "dict_lookup k pd = map_option pde_val (find (\<lambda>e. pde_key e = k) (pd_ents pd))"
    using a by (simp add: dict_lookup_def seq_find_ents)
  then show "(\<exists>e. pdict_add rx nf k v want_old pd ([], s) = Inl e)
      \<longleftrightarrow> dict_lookup k pd = None \<and> rx_fails rx (pd_persistent_listeners pd) k"
    using pdict_add_mem [of rx pd k nf v want_old s] a by (auto simp: Let_def split: option.splits)
qed

theorem pdict_add_fault_witness:
  "pdict_add (\<lambda>_ _. RX_ERROR) (\<lambda>_ _ env. env) ''b'' ''2'' False sample_dict ([], ()) = Inl Bad_Pointer"
proof -
  have i: "dict_inv (\<lambda>_ _. RX_ERROR) (sample_dict\<lparr> pd_ents := [] \<rparr>)"
    by (simp add: dict_inv_def sample_dict_def ents_ok_def attached_def)
  have "\<exists>e. pdict_add (\<lambda>_ _. RX_ERROR) (\<lambda>_ _ env. env) ''b'' ''2'' False (sample_dict\<lparr> pd_ents := [] \<rparr>) ([], ()) = Inl e"
    using pdict_add_fault [of "\<lambda>_ _. RX_ERROR" "sample_dict\<lparr> pd_ents := [] \<rparr>" "''b''" "\<lambda>_ _ env. env" "''2''" False "()"] i
    by (simp add: dict_lookup_def rx_fails_def sample_dict_def)
  then show ?thesis
    by (simp add: pdict_add_def sample_dict_def pdecmp_def ent_add_persistents_def ent_add_persistent_def
        remove_persistent_cb_def Let_def)
qed


text \<open>
  \<open>pdict_ent_remove\<close> takes exactly the entry with the key out, hands its value back and
  tells each of its listeners "removing"; removing a key that is not there changes nothing
  and calls nobody.\<close>

theorem pdict_ent_remove_removes:
  assumes "dict_inv rx pd" and "nul_free k"
  shows "\<exists>pd' ls. pdict_ent_remove nf k pd env =
          (dict_lookup k pd \<noteq> None, dict_lookup k pd, pd',
           fold (\<lambda>l. nf l \<lparr> ev_key = Some k, ev_val = dict_lookup k pd, ev_reason = PDR_ENTRY_REMOVING,
                            ev_oldval = dict_lookup k pd \<rparr>) ls env)
        \<and> mset ls = (if dict_lookup k pd = None then {#}
                     else mset (listeners_for rx (pd_persistent_listeners pd) k))
        \<and> dict_inv rx pd' \<and> pd_persistent_listeners pd' = pd_persistent_listeners pd
        \<and> (\<forall>k'. nul_free k' \<longrightarrow> dict_lookup k' pd' = (if k' = k then None else dict_lookup k' pd))"
proof -
  have ok: "ents_ok (pd_ents pd)" using assms(1) by (simp add: dict_inv_def)
  note f = seq_find_ents [OF ok assms(2)]
  show ?thesis
  proof (cases "find (\<lambda>e. pde_key e = k) (pd_ents pd)")
    case None
    then have "dict_lookup k pd = None" by (simp add: dict_lookup_def f)
    then show ?thesis
      using None assms by (intro exI [of _ pd] exI [of _ "[]"]) (simp add: pdict_ent_remove_def f)
  next
    case (Some n)
    note n = find_keyD [OF Some]
    have l: "dict_lookup k pd = Some (pde_val n)" by (simp add: dict_lookup_def f Some)
    have "mset (pde_listeners n) = mset (listeners_for rx (pd_persistent_listeners pd) k)"
      using assms(1) n by (auto simp: dict_inv_def attached_def)
    then show ?thesis
      using l Some n dict_inv_del [OF assms] lookup_del [OF ok assms(2)]
      by (intro exI [of _ "pd\<lparr> pd_ents := seq_del pdecmp (key_ent k) (pd_ents pd) \<rparr>"] exI [of _ "pde_listeners n"])
         (simp add: pdict_ent_remove_def f ent_notify_fold)
  qed
qed

theorem pdict_ent_remove_removes_witness:
  "\<exists>pd'. pdict_ent_remove (\<lambda>l ev env. (fst env, l # snd env)) ''a'' sample_dict ([], []) =
       (True, Some ''1'', pd', ([], [7])) \<and> dict_lookup ''a'' pd' = None"
proof -
  have l: "dict_lookup ''a'' sample_dict = Some ''1''" and
    ls: "listeners_for same_rx (pd_persistent_listeners sample_dict) ''a'' = [7]"
    by (simp_all add: dict_lookup_def sample_dict_def pdecmp_def same_rx_def)
  have k: "nul_free ''a''" by simp
  from pdict_ent_remove_removes [OF sample_dict_inv k, of "\<lambda>l ev env. (fst env, l # snd env)" "([], [])"]
  obtain pd' xs where p: "pdict_ent_remove (\<lambda>l ev env. (fst env, l # snd env)) ''a'' sample_dict ([], []) =
      (True, Some ''1'', pd', fold (\<lambda>l env. (fst env, l # snd env)) xs ([], []))"
    "mset xs = mset [7]" "\<forall>k'. nul_free k' \<longrightarrow> dict_lookup k' pd' = (if k' = ''a'' then None else dict_lookup k' sample_dict)"
    by (auto simp: l ls)
  have "xs = [7]" using p(2) by (cases xs) auto
  with p(1,3) k show ?thesis by auto
qed

section \<open>Persistent listeners\<close>

text \<open>Notification callbacks that use no memory of the shared supply.\<close>

definition quiet :: "('a, 's) notifier \<Rightarrow> bool" where
  "quiet nf \<longleftrightarrow> (\<forall>l ev s. fst (nf l ev ([], s)) = [])"

definition current_event :: "'a pdict_ent \<Rightarrow> event" where
  "current_event e = \<lparr> ev_key = Some (pde_key e), ev_val = Some (pde_val e),
     ev_reason = PDR_CURRENT_VALUE, ev_oldval = None \<rparr>"

definition matching :: "('r \<Rightarrow> string \<Rightarrow> rx_result) \<Rightarrow> 'r \<Rightarrow> 'a pdict_ent list \<Rightarrow> 'a pdict_ent list" where
  "matching rx r es = filter (\<lambda>e. rx r (pde_key e) = RX_MATCH) es"

definition with_listener :: "('r \<Rightarrow> string \<Rightarrow> rx_result) \<Rightarrow> 'r \<Rightarrow> 'a \<Rightarrow> 'a pdict_ent \<Rightarrow> 'a pdict_ent" where
  "with_listener rx r l e =
     (if rx r (pde_key e) = RX_MATCH then e\<lparr> pde_listeners := pde_listeners e @ [l] \<rparr> else e)"

lemma current_event_cong [simp]: "current_event (e\<lparr> pde_listeners := ls \<rparr>) = current_event e"
  by (simp add: current_event_def)

lemma walk_add_mem:
  assumes "quiet nf" and "\<forall>e \<in> set es. rx r (pde_key e) \<noteq> RX_ERROR"
  shows "pdict_walk_int (ent_add_persistent rx nf \<lparr> pdpl_l = l, pdpl_regex = r, pdpl_new = True \<rparr>) es ([], s) =
         (True, map (with_listener rx r l) es,
          fold (\<lambda>e. nf l (current_event e)) (matching rx r es) ([], s))"
  using assms(2)
proof (induction es arbitrary: s)
  case (Cons e es)
  obtain s' where s': "nf l (current_event e) ([], s) = ([], s')"
    using assms(1) by (metis quiet_def surjective_pairing)
  show ?case
    using Cons.IH [of s] Cons.IH [of s'] Cons.prems s'
    by (cases "rx r (pde_key e)")
       (simp_all add: ent_add_persistent_def matching_def with_listener_def Let_def current_event_def)
qed (simp add: matching_def)

lemma pde_key_with_listener [simp]: "pde_key (with_listener rx r l e) = pde_key e"
  "pde_val (with_listener rx r l e) = pde_val e"
  by (simp_all add: with_listener_def)

lemma pde_key_remove [simp]: "pde_key (ent_remove_persistent pl e) = pde_key e"
  "pde_val (ent_remove_persistent pl e) = pde_val e"
  by (simp_all add: ent_remove_persistent_def ent_remove_change_listener_def)

text \<open>Changing listeners only keeps keys and values.\<close>

lemma ents_ok_map: "(\<And>e. pde_key (g e) = pde_key e) \<Longrightarrow> ents_ok (map g es) = ents_ok es"
  by (auto simp: ents_ok_def key_sorted_def sorted_wrt_map)

lemma dict_lookup_map:
  assumes "\<And>e. pde_key (g e) = pde_key e" and "\<And>e. pde_val (g e) = pde_val e" and "pd_ents pd' = map g (pd_ents pd)"
  shows "dict_lookup k pd' = dict_lookup k pd"
proof -
  have "map_option pde_val (seq_find pdecmp (key_ent k) (map g es)) =
      map_option pde_val (seq_find pdecmp (key_ent k) es)" for es
    using assms(1,2) by (induction es) (simp_all add: pdecmp_def)
  then show ?thesis by (simp add: dict_lookup_def assms(3))
qed

text \<open>
  A new persistent listener gets a fresh identifier, is called once with "current" for
  every entry whose key matches, in key order, and from then on belongs to exactly those
  entries; the entries and the other listeners stay as they are.\<close>

theorem pdict_add_listener_attaches:
  assumes "dict_inv rx pd" and "quiet nf" and "regcomp kpat = Some r"
    and "\<forall>e \<in> set (pd_ents pd). rx r (pde_key e) \<noteq> RX_ERROR"
  shows "\<exists>pd'. pdict_add_persistent_change_listener regcomp rx nf kpat l pd ([], s) =
          (lid pd, pd', fold (\<lambda>e. nf l (current_event e)) (matching rx r (pd_ents pd)) ([], s))
        \<and> dict_inv rx pd' \<and> lid pd \<notin> fst ` set (pd_persistent_listeners pd)
        \<and> pd_persistent_listeners pd' = pd_persistent_listeners pd @
             [(lid pd, \<lparr> pdpl_l = l, pdpl_regex = r, pdpl_new = False \<rparr>)]
        \<and> (\<forall>k. dict_lookup k pd' = dict_lookup k pd)"
proof -
  let ?pl = "\<lparr> pdpl_l = l, pdpl_regex = r, pdpl_new = False \<rparr>"
  let ?pd = "pd\<lparr> pd_ents := map (with_listener rx r l) (pd_ents pd),
               pd_persistent_listeners := pd_persistent_listeners pd @ [(lid pd, ?pl)], lid := lid pd + 1 \<rparr>"
  have inv: "ents_ok (pd_ents pd)" "attached rx pd" "distinct (map fst (pd_persistent_listeners pd))" "0 < lid pd"
      "\<forall>x \<in> set (pd_persistent_listeners pd). \<not> pdpl_new (snd x) \<and> fst x < lid pd"
    using assms(1) by (auto simp: dict_inv_def)
  have fresh: "lid pd \<notin> fst ` set (pd_persistent_listeners pd)" using inv(5) by fastforce
  have "attached rx ?pd"
    using inv(2) by (auto simp: attached_def with_listener_def)
  then have "dict_inv rx ?pd"
    using inv fresh by (auto simp: dict_inv_def ents_ok_map less_imp_le)
  moreover have "dict_lookup k ?pd = dict_lookup k pd" for k
    by (rule dict_lookup_map [where g = "with_listener rx r l"]) simp_all
  moreover have "pdict_add_persistent_change_listener regcomp rx nf kpat l pd ([], s) =
      (lid pd, ?pd, fold (\<lambda>e. nf l (current_event e)) (matching rx r (pd_ents pd)) ([], s))"
    using walk_add_mem [OF assms(2), where rx = rx and r = r and es = "pd_ents pd" and l = l and s = s] assms(4)
    by (simp add: pdict_add_persistent_change_listener_def assms(3))
  ultimately show ?thesis using fresh by (intro exI [of _ ?pd]) simp
qed

lemma mset_ent_remove:
  "mset (pde_listeners (ent_remove_persistent pl e)) = mset (pde_listeners e) - {# pdpl_l pl #}"
  by (simp add: ent_remove_persistent_def ent_remove_change_listener_def diff_single_trivial)

lemma filter_other_key: "i \<notin> fst ` set xs \<Longrightarrow> filter (\<lambda>x. fst x \<noteq> i) xs = xs"
  by (force simp: filter_id_conv)

lemma del_first_distinct: "distinct (map fst xs) \<Longrightarrow> del_first i xs = filter (\<lambda>x. fst x \<noteq> i) xs"
  by (induction xs) (auto simp: filter_other_key)

lemma listeners_split:
  "distinct (map fst xs) \<Longrightarrow> (i, pl) \<in> set xs \<Longrightarrow>
   mset (listeners_for rx xs k) = mset (listeners_for rx (filter (\<lambda>x. fst x \<noteq> i) xs) k)
     + (if rx (pdpl_regex pl) k = RX_MATCH then {# pdpl_l pl #} else {#})"
proof (induction xs)
  case (Cons x xs)
  show ?case
  proof (cases "fst x = i")
    case True
    then have "i \<notin> fst ` set xs" "x = (i, pl)" using Cons.prems by (auto simp: rev_image_eqI)
    then show ?thesis by (simp add: filter_other_key)
  next
    case False
    with Cons show ?thesis by auto
  qed
qed simp

text \<open>
  C3: removing a persistent listener takes its function and argument off every entry, once,
  without matching the pattern again. An entry keeps exactly the listeners of the remaining
  registrations unless one of those has the same function and argument and matches the
  entry's key while the removed pattern does not: that registration then goes unnotified.\<close>

theorem pdict_remove_listener_exact:
  assumes "dict_inv rx pd" and "(i, pl) \<in> set (pd_persistent_listeners pd)"
  shows "\<exists>pd'. pdict_remove_persistent_change_listener i pd = (True, pd')
        \<and> pd_persistent_listeners pd' = filter (\<lambda>x. fst x \<noteq> i) (pd_persistent_listeners pd)
        \<and> (\<forall>k. dict_lookup k pd' = dict_lookup k pd)
        \<and> (dict_inv rx pd' \<longleftrightarrow>
             (\<forall>e \<in> set (pd_ents pd). rx (pdpl_regex pl) (pde_key e) = RX_MATCH
                \<or> pdpl_l pl \<notin> set (listeners_for rx (pd_persistent_listeners pd') (pde_key e))))"
proof -
  let ?pls = "pd_persistent_listeners pd"
  let ?rest = "filter (\<lambda>x. fst x \<noteq> i) ?pls"
  let ?pd = "pd\<lparr> pd_persistent_listeners := ?rest, pd_ents := map (ent_remove_persistent pl) (pd_ents pd) \<rparr>"
  have inv: "ents_ok (pd_ents pd)" "attached rx pd" "distinct (map fst ?pls)" "0 < lid pd"
      "\<forall>x \<in> set ?pls. \<not> pdpl_new (snd x) \<and> fst x < lid pd"
    using assms(1) by (auto simp: dict_inv_def)
  have m: "map_of ?pls i = Some pl" using inv(3) assms(2) by simp
  note d = del_first_distinct [OF inv(3)] and split = listeners_split [OF inv(3) assms(2)]
  have run: "pdict_remove_persistent_change_listener i pd = (True, ?pd)"
    by (simp add: pdict_remove_persistent_change_listener_def m d)
  have minus: "mset xs - {# a #} = mset xs \<longleftrightarrow> a \<notin> set xs" for a and xs :: "'b list"
    by (metis diff_single_trivial in_multiset_in_set insert_DiffM multi_self_add_other_not_self)
  have "attached rx ?pd \<longleftrightarrow> (\<forall>e \<in> set (pd_ents pd). rx (pdpl_regex pl) (pde_key e) = RX_MATCH
                \<or> pdpl_l pl \<notin> set (listeners_for rx ?rest (pde_key e)))"
  proof -
    have "mset (pde_listeners e) - {# pdpl_l pl #} = mset (listeners_for rx ?rest (pde_key e)) \<longleftrightarrow>
        rx (pdpl_regex pl) (pde_key e) = RX_MATCH \<or> pdpl_l pl \<notin> set (listeners_for rx ?rest (pde_key e))"
      if "e \<in> set (pd_ents pd)" for e
      using attachedD [OF inv(2) that] by (simp add: split minus)
    then show ?thesis by (simp add: attached_def mset_ent_remove)
  qed
  moreover have "dict_inv rx ?pd \<longleftrightarrow> attached rx ?pd"
    using inv by (auto simp: dict_inv_def ents_ok_map distinct_map_filter)
  moreover have "dict_lookup k ?pd = dict_lookup k pd" for k
    by (rule dict_lookup_map [where g = "ent_remove_persistent pl"]) simp_all
  ultimately show ?thesis using run by (intro exI [of _ ?pd]) simp
qed

theorem pdict_add_listener_attaches_witness:
  "\<exists>pd'. pdict_add_persistent_change_listener Some same_rx (\<lambda>l ev env. (fst env, (l, ev) # snd env)) ''a'' 9
      sample_dict ([], []) =
      (2, pd', ([], [(9, \<lparr> ev_key = Some ''a'', ev_val = Some ''1'', ev_reason = PDR_CURRENT_VALUE, ev_oldval = None \<rparr>)]))"
proof -
  have q: "quiet (\<lambda>l ev env. (fst env, (l, ev) # snd env))" by (simp add: quiet_def)
  have e: "\<forall>e \<in> set (pd_ents sample_dict). same_rx ''a'' (pde_key e) \<noteq> RX_ERROR"
    and m: "matching same_rx ''a'' (pd_ents sample_dict) = pd_ents sample_dict" and "lid sample_dict = 2"
    by (simp_all add: sample_dict_def same_rx_def matching_def)
  with pdict_add_listener_attaches [OF sample_dict_inv q _ e, of Some "''a''" 9 "[]"]
  show ?thesis by (auto simp: m current_event_def) (simp add: sample_dict_def)
qed

theorem pdict_remove_listener_exact_witness:
  "\<exists>pd'. pdict_remove_persistent_change_listener 1 sample_dict = (True, pd') \<and> dict_inv same_rx pd'"
proof -
  have m: "(1, \<lparr> pdpl_l = 7, pdpl_regex = ''a'', pdpl_new = False \<rparr>) \<in> set (pd_persistent_listeners sample_dict)"
    by (simp add: sample_dict_def)
  have "\<forall>e \<in> set (pd_ents sample_dict). same_rx ''a'' (pde_key e) = RX_MATCH"
    by (simp add: sample_dict_def same_rx_def)
  with pdict_remove_listener_exact [OF sample_dict_inv m] show ?thesis by auto
qed

section \<open>Operations under any memory\<close>

text \<open>
  \<open>mem_at i m\<close>: the allocation after \<open>i\<close> others succeeds. What follows holds for every
  memory and every notifier, a notifier that allocates included.\<close>

definition mem_at :: "nat \<Rightarrow> memory \<Rightarrow> bool" where
  "mem_at i m \<longleftrightarrow> (i < length m \<longrightarrow> m ! i)"

lemma take_mem_at: "take_mem (m, s) = (mem_at 0 m, (drop 1 m, s))"
  by (cases m) (simp_all add: take_mem_def mem_at_def)

lemma mem_at_drop [simp]: "mem_at i (drop j m) = mem_at (j + i) m"
  by (auto simp: mem_at_def)

lemma ent_add_change_listener_at:
  "ent_add_change_listener l (e, (m, s)) =
     (if \<not> mem_at 0 m then (False, e, (drop 1 m, s))
      else if \<not> mem_at 1 m then (False, e, (drop 2 m, s))
      else (True, e\<lparr> pde_listeners := pde_listeners e @ [l] \<rparr>, (drop 2 m, s)))"
  by (simp add: ent_add_change_listener_def take_mem_at numeral_2_eq_2)

text \<open>
  Attaching the registered listeners to a new entry fails when one pattern cannot be
  decided or one of the two allocations per matching listener fails.\<close>

definition attach_fails :: "('r \<Rightarrow> string \<Rightarrow> rx_result) \<Rightarrow> (int \<times> ('r, 'a) persistent) list \<Rightarrow> string \<Rightarrow> memory \<Rightarrow> bool" where
  "attach_fails regexec pls k m \<longleftrightarrow>
     rx_fails regexec pls k \<or> (\<exists>i < 2 * length (listeners_for regexec pls k). \<not> mem_at i m)"

lemma attach_fails_Nil [simp]: "\<not> attach_fails rx [] k m"
  by (simp add: attach_fails_def rx_fails_def)

lemma ex_less_two_more: "(\<exists>i < 2 + n. P i) \<longleftrightarrow> P 0 \<or> P 1 \<or> (\<exists>i < (n :: nat). P (2 + i))"
proof -
  have "i < 2 + n \<longleftrightarrow> i = 0 \<or> i = 1 \<or> (\<exists>j < n. i = 2 + j)" for i by presburger
  then show ?thesis by (simp only:) blast
qed

lemma attach_fails_Cons [simp]:
  "attach_fails rx (x # xs) k m =
     (case rx (pdpl_regex (snd x)) k of
        RX_ERROR \<Rightarrow> True
      | RX_NOMATCH \<Rightarrow> attach_fails rx xs k m
      | RX_MATCH \<Rightarrow> \<not> mem_at 0 m \<or> \<not> mem_at 1 m \<or> attach_fails rx xs k (drop 2 m))"
  using ex_less_two_more [of "2 * length (listeners_for rx xs k)" "\<lambda>i. \<not> mem_at i m"]
  by (auto simp: attach_fails_def rx_fails_def split: rx_result.split)

lemma ent_add_persistents_at:
  assumes "\<forall>x \<in> set pls. \<not> pdpl_new (snd x)"
  shows "ent_add_persistents rx nf pls (e, (m, s)) =
         (if attach_fails rx pls (pde_key e) m then Inl Bad_Pointer
          else Inr (True, e\<lparr> pde_listeners := pde_listeners e @ listeners_for rx pls (pde_key e) \<rparr>,
                    (drop (2 * length (listeners_for rx pls (pde_key e))) m, s)))"
proof -
  let ?f = "\<lambda>_ pl t. let (got, t') = ent_add_persistent rx nf pl t in (if got then 1 else 0, t')"
  have "fst (walk_list ?f pls (e, (m, s))) = (if attach_fails rx pls (pde_key e) m then 0 else 1)
      \<and> (\<not> attach_fails rx pls (pde_key e) m \<longrightarrow>
           snd (walk_list ?f pls (e, (m, s))) =
             (e\<lparr> pde_listeners := pde_listeners e @ listeners_for rx pls (pde_key e) \<rparr>,
              (drop (2 * length (listeners_for rx pls (pde_key e))) m, s)))"
    using assms
  proof (induction pls arbitrary: e m)
    case (Cons x pls)
    show ?case
      using Cons.IH [of e m] Cons.IH [of "e\<lparr> pde_listeners := pde_listeners e @ [pdpl_l (snd x)] \<rparr>" "drop 2 m"] Cons.prems
      by (cases "rx (pdpl_regex (snd x)) (pde_key e)")
         (simp_all add: ent_add_persistent_def ent_add_change_listener_at add.commute)
  qed simp
  moreover have "attach_fails rx pls (pde_key e) m \<Longrightarrow> \<exists>x xs. pls = x # xs" by (cases pls) auto
  ultimately show ?thesis
    by (cases "attach_fails rx pls (pde_key e) m")
       (auto simp: ent_add_persistents_def remove_persistent_cb_def split_def Let_def)
qed

text \<open>
  Everything \<open>pdict_add\<close> can do: no memory for the copies of key and value, a new value for a
  key that exists, or a new entry, whose own memory, listeners and tree node follow.\<close>

definition add_new :: "('r \<Rightarrow> string \<Rightarrow> rx_result) \<Rightarrow> string \<Rightarrow> string \<Rightarrow> ('r, 'a) pdict \<Rightarrow> ('r, 'a) pdict" where
  "add_new regexec k v pd = pd\<lparr> pd_ents := seq_put pdecmp
     \<lparr> pde_key = k, pde_val = v, pde_listeners = listeners_for regexec (pd_persistent_listeners pd) k \<rparr> (pd_ents pd) \<rparr>"

definition add_changed :: "string \<Rightarrow> 'a pdict_ent \<Rightarrow> ('r, 'a) pdict \<Rightarrow> ('r, 'a) pdict" where
  "add_changed v n pd = pd\<lparr> pd_ents := seq_put pdecmp (n\<lparr> pde_val := v \<rparr>) (pd_ents pd) \<rparr>"

definition add_outcome :: "('r \<Rightarrow> string \<Rightarrow> rx_result) \<Rightarrow> string \<Rightarrow> string \<Rightarrow> bool \<Rightarrow> ('r, 'a) pdict \<Rightarrow> memory \<Rightarrow> 's env
    \<Rightarrow> (bool \<times> string option \<times> ('r, 'a) pdict \<times> 's env) cres" where
  "add_outcome regexec k v want_old pd m env' =
     (if \<not> mem_at 0 m \<or> \<not> mem_at 1 m then Inr (False, None, pd, env')
      else case find (\<lambda>e. pde_key e = k) (pd_ents pd) of
        Some n \<Rightarrow> Inr (True, if want_old then Some (pde_val n) else None, add_changed v n pd, env')
      | None \<Rightarrow>
          if \<not> mem_at 2 m then Inr (False, None, pd, env')
          else if attach_fails regexec (pd_persistent_listeners pd) k (drop 3 m) then Inl Bad_Pointer
          else if \<not> mem_at (3 + 2 * length (listeners_for regexec (pd_persistent_listeners pd) k)) m
          then Inr (False, None, pd, env')
          else Inr (True, None, add_new regexec k v pd, env'))"

lemma pdict_add_at:
  assumes "ents_ok (pd_ents pd)" and "\<forall>x \<in> set (pd_persistent_listeners pd). \<not> pdpl_new (snd x)" and "nul_free k"
  shows "\<exists>env'. pdict_add rx nf k v want_old pd (m, s) = add_outcome rx k v want_old pd m env'"
proof (cases "mem_at 0 m \<and> mem_at 1 m")
  case mem: True
  note f = seq_find_ents [OF assms(1,3)]
  show ?thesis
  proof (cases "find (\<lambda>e. pde_key e = k) (pd_ents pd)")
    case None
    then show ?thesis
      using mem by (simp add: pdict_add_def take_mem_at f Let_def ent_add_persistents_at [OF assms(2)] add_new_def add_outcome_def
          numeral_2_eq_2 numeral_3_eq_3)
  next
    case (Some n)
    note n = find_keyD [OF Some]
    have "map (\<lambda>e. if pde_key e = k then n\<lparr> pde_val := v \<rparr> else e) (pd_ents pd) =
        seq_put pdecmp (n\<lparr> pde_val := v \<rparr>) (pd_ents pd)"
      using update_is_put [OF assms(1), of n "n\<lparr> pde_val := v \<rparr>"] n by simp
    with Some n mem show ?thesis by (simp add: pdict_add_def take_mem_at f Let_def add_changed_def add_outcome_def)
  qed
qed (auto simp: pdict_add_def take_mem_at add_outcome_def)


text \<open>
  What attaching one listener does to the entries, under any memory: every entry keeps its
  key and value, and has the listener once more or not; when the walk got through, exactly
  the matching entries have it.\<close>

lemma ent_add_persistent_cases:
  "ent_add_persistent rx nf \<lparr> pdpl_l = l, pdpl_regex = r, pdpl_new = True \<rparr> (e, env) = (go, e', env') \<Longrightarrow>
   (e' = e \<or> e' = e\<lparr> pde_listeners := pde_listeners e @ [l] \<rparr>) \<and> (go \<longrightarrow> e' = with_listener rx r l e)"
  by (cases env; cases "rx r (pde_key e)")
     (auto simp: ent_add_persistent_def ent_add_change_listener_at with_listener_def split: if_splits)

lemma walk_add_cases:
  assumes "pdict_walk_int (ent_add_persistent rx nf \<lparr> pdpl_l = l, pdpl_regex = r, pdpl_new = True \<rparr>) es env = (res, es', env')"
  shows "list_all2 (\<lambda>e e'. e' = e \<or> e' = e\<lparr> pde_listeners := pde_listeners e @ [l] \<rparr>) es es'
         \<and> (res \<longrightarrow> es' = map (with_listener rx r l) es)"
  using assms
proof (induction es arbitrary: es' env res env')
  case (Cons e es)
  let ?pl = "\<lparr> pdpl_l = l, pdpl_regex = r, pdpl_new = True \<rparr>"
  have same: "list_all2 (\<lambda>e e'. e' = e \<or> e' = e\<lparr> pde_listeners := pde_listeners e @ [l] \<rparr>) es es"
    by (rule list_all2_refl) simp
  obtain go e1 env1 where w: "ent_add_persistent rx nf ?pl (e, env) = (go, e1, env1)" by (metis prod_cases3)
  obtain res2 es2 env2 where t: "pdict_walk_int (ent_add_persistent rx nf ?pl) es env1 = (res2, es2, env2)"
    by (metis prod_cases3)
  show ?case
    using Cons.prems ent_add_persistent_cases [OF w] Cons.IH [OF t] same by (auto simp: w t split: if_splits)
qed simp

text \<open>Taking the listener off again: one occurrence may go that was there before.\<close>

definition off_at_most :: "'a \<Rightarrow> 'a pdict_ent \<Rightarrow> 'a pdict_ent \<Rightarrow> bool" where
  "off_at_most l e e' \<longleftrightarrow> pde_key e' = pde_key e \<and> pde_val e' = pde_val e
     \<and> (l \<notin> set (pde_listeners e) \<longrightarrow> e' = e)
     \<and> mset (pde_listeners e) - {# l #} \<subseteq># mset (pde_listeners e')
     \<and> mset (pde_listeners e') \<subseteq># mset (pde_listeners e)"

lemma off_at_most_undo:
  assumes "e' = e \<or> e' = e\<lparr> pde_listeners := pde_listeners e @ [pdpl_l pl] \<rparr>"
  shows "off_at_most (pdpl_l pl) e (ent_remove_persistent pl e')"
  using assms
  by (auto simp: off_at_most_def mset_ent_remove)
     (auto simp: ent_remove_persistent_def ent_remove_change_listener_def remove1_append)

lemma add_listener_cases:
  assumes "pdict_add_persistent_change_listener rc rx nf kpat l pd env = (i, pd', env')"
  obtains es where "i = 0" "pd' = pd\<lparr> pd_ents := es \<rparr>" "list_all2 (off_at_most l) (pd_ents pd) es"
  | r listed where "rc kpat = Some r" "i = lid pd"
      "pd' = pd\<lparr> pd_ents := map (with_listener rx r l) (pd_ents pd),
         pd_persistent_listeners := pd_persistent_listeners pd @
           (if listed then [(lid pd, \<lparr> pdpl_l = l, pdpl_regex = r, pdpl_new = False \<rparr>)] else []),
         lid := lid pd + 1 \<rparr>"
proof -
  have same: "list_all2 (off_at_most l) es es" for es :: "'b pdict_ent list"
    by (rule list_all2_refl) (simp add: off_at_most_def)
  obtain got env1 where t: "take_mem env = (got, env1)" by (metis surj_pair)
  show thesis
  proof (cases "got \<and> rc kpat \<noteq> None")
    case False
    then have "i = 0" "pd' = pd\<lparr> pd_ents := pd_ents pd \<rparr>"
      using assms by (auto simp: pdict_add_persistent_change_listener_def t split: if_splits option.splits)
    then show thesis using that(1) same by blast
  next
    case True
    then obtain r where r: "got" "rc kpat = Some r" by auto
    let ?pl = "\<lparr> pdpl_l = l, pdpl_regex = r, pdpl_new = True \<rparr>"
    obtain listed env2 where t2: "take_mem env1 = (listed, env2)" by (metis surj_pair)
    obtain res es env3 where w: "pdict_walk_int (ent_add_persistent rx nf ?pl) (pd_ents pd) env2 = (res, es, env3)"
      by (metis prod_cases3)
    note c = walk_add_cases [OF w]
    show thesis
    proof (cases res)
      case True
      then show thesis using that(2) [of r listed] assms c
        by (cases listed) (auto simp: pdict_add_persistent_change_listener_def t t2 w r)
    next
      case False
      have "list_all2 (off_at_most l) (pd_ents pd) (map (ent_remove_persistent ?pl) es)"
        using c off_at_most_undo [of _ _ ?pl] by (auto simp: list_all2_map2 elim!: list_all2_mono)
      then show thesis using that(1) False assms
        by (simp add: pdict_add_persistent_change_listener_def t t2 w r) blast
    qed
  qed
qed

section \<open>Failures\<close>

text \<open>
  C4: failing under any memory. In a well-formed dictionary whose stored registrations are
  no longer new, \<open>pdict_add\<close> is undefined behaviour (a bad pointer) exactly when the key is
  new, its first three allocations succeed, and attaching the registered listeners fails,
  because a pattern cannot be decided or an allocation for a matching one fails; it reports
  failure exactly when one of the other allocations fails, and then the dictionary is as
  before. When registering a listener fails, for whatever reason, only the listeners of
  the entries may differ: an entry that did not have the listener is as before, one that had
  it, by another registration, may have it once less.\<close>

theorem pdict_failures_undo:
  fixes rx :: "'r \<Rightarrow> string \<Rightarrow> rx_result"
  assumes "ents_ok (pd_ents pd)" and "\<forall>x \<in> set (pd_persistent_listeners pd). \<not> pdpl_new (snd x)" and "nul_free k"
    and "0 < lid pd"
  defines "n \<equiv> 2 * length (listeners_for rx (pd_persistent_listeners pd) k)"
  shows "(pdict_add rx nf k v want_old pd (m, s) = Inl err \<longleftrightarrow>
            err = Bad_Pointer \<and> dict_lookup k pd = None \<and> mem_at 0 m \<and> mem_at 1 m \<and> mem_at 2 m
            \<and> (rx_fails rx (pd_persistent_listeners pd) k \<or> (\<exists>i < n. \<not> mem_at (3 + i) m)))
       \<and> ((\<exists>ov pd' env'. pdict_add rx nf k v want_old pd (m, s) = Inr (False, ov, pd', env')) \<longleftrightarrow>
            \<not> mem_at 0 m \<or> \<not> mem_at 1 m
            \<or> dict_lookup k pd = None
              \<and> (\<not> mem_at 2 m
                 \<or> \<not> rx_fails rx (pd_persistent_listeners pd) k \<and> (\<forall>i < n. mem_at (3 + i) m) \<and> \<not> mem_at (3 + n) m))
       \<and> (\<forall>ov pd' env'. pdict_add rx nf k v want_old pd (m, s) = Inr (False, ov, pd', env') \<longrightarrow> pd' = pd \<and> ov = None)
       \<and> (\<forall>pd' env'. pdict_add_persistent_change_listener rc rx nf kpat l pd env = (0, pd', env') \<longrightarrow>
            (\<exists>es. pd' = pd\<lparr> pd_ents := es \<rparr> \<and> list_all2 (off_at_most l) (pd_ents pd) es))"
proof -
  note f = seq_find_ents [OF assms(1,3)]
  obtain env' where "pdict_add rx nf k v want_old pd (m, s) = add_outcome rx k v want_old pd m env'"
    using pdict_add_at [OF assms(1-3), of rx nf v want_old m s] by (rule exE)
  note at = this [unfolded add_outcome_def]
  have fault: "pdict_add rx nf k v want_old pd (m, s) = Inl err \<longleftrightarrow>
            err = Bad_Pointer \<and> dict_lookup k pd = None \<and> mem_at 0 m \<and> mem_at 1 m \<and> mem_at 2 m
            \<and> (rx_fails rx (pd_persistent_listeners pd) k \<or> (\<exists>i < n. \<not> mem_at (3 + i) m))"
    by (cases "find (\<lambda>e. pde_key e = k) (pd_ents pd)") (auto simp: at n_def dict_lookup_def f attach_fails_def)
  have failure: "(\<exists>ov pd' env'. pdict_add rx nf k v want_old pd (m, s) = Inr (False, ov, pd', env')) \<longleftrightarrow>
            \<not> mem_at 0 m \<or> \<not> mem_at 1 m
            \<or> dict_lookup k pd = None
              \<and> (\<not> mem_at 2 m
                 \<or> \<not> rx_fails rx (pd_persistent_listeners pd) k \<and> (\<forall>i < n. mem_at (3 + i) m) \<and> \<not> mem_at (3 + n) m)"
    by (cases "find (\<lambda>e. pde_key e = k) (pd_ents pd)") (auto simp: at n_def dict_lookup_def f attach_fails_def)
  have undone: "\<forall>ov pd' env'. pdict_add rx nf k v want_old pd (m, s) = Inr (False, ov, pd', env') \<longrightarrow> pd' = pd \<and> ov = None"
    by (cases "find (\<lambda>e. pde_key e = k) (pd_ents pd)") (auto simp: at Let_def split: if_splits)
  have "\<exists>es. pd' = pd\<lparr> pd_ents := es \<rparr> \<and> list_all2 (off_at_most l) (pd_ents pd) es"
    if "pdict_add_persistent_change_listener rc rx nf kpat l pd env = (0, pd', env')" for pd' env'
    using that assms(4) by (cases rule: add_listener_cases) auto
  with fault failure undone show ?thesis by blast
qed

theorem pdict_failures_undo_witness:
  "pdict_add same_rx (\<lambda>_ _ env. env) ''a'' ''2'' False (sample_dict\<lparr> pd_ents := [] \<rparr>) ([True, True, True, False], ()) =
     Inl Bad_Pointer"
proof -
  let ?pd = "sample_dict\<lparr> pd_ents := [] \<rparr>"
  have p: "ents_ok (pd_ents ?pd)" "\<forall>x \<in> set (pd_persistent_listeners ?pd). \<not> pdpl_new (snd x)" "nul_free ''a''" "0 < lid ?pd"
    by (simp_all add: sample_dict_def ents_ok_def)
  have "\<exists>i < 2 * length (listeners_for same_rx (pd_persistent_listeners ?pd) ''a''). \<not> mem_at (3 + i) [True, True, True, False]"
    by (rule exI [of _ 0]) (simp add: sample_dict_def same_rx_def mem_at_def)
  then show ?thesis
    using pdict_failures_undo [OF p, THEN conjunct1, of same_rx "\<lambda>_ _ env. env" "''2''" False "[True, True, True, False]" "()" Bad_Pointer]
    by (simp add: dict_lookup_def mem_at_def)
qed

text \<open>
  A registration that fails takes the same listener's earlier registration off the entry
  that the walk could not extend: number 1 stays registered, but "a" no longer notifies it.\<close>

lemma failed_listen_takes_other:
  "pdict_add_persistent_change_listener Some same_rx (\<lambda>_ _ env. env) ''a'' 7 sample_dict ([True, True, False], ()) =
     (0, sample_dict\<lparr> pd_ents := [\<lparr> pde_key = ''a'', pde_val = ''1'', pde_listeners = [] \<rparr>] \<rparr>, ([], ()))"
  by (simp add: pdict_add_persistent_change_listener_def take_mem_at mem_at_def sample_dict_def same_rx_def
      ent_add_persistent_def ent_add_change_listener_at ent_remove_persistent_def ent_remove_change_listener_def)

section \<open>Sequences of operations\<close>

text \<open>
  The dictionaries that the operations reach, each step under any memory, with any notifier
  (one that does not itself call the dictionary) and any patterns. A step that is undefined
  behaviour has no successor. \<open>rc\<close> and \<open>rx\<close> are \<open>regcomp\<close> and \<open>regexec\<close>; \<open>fresh\<close> says
  that a client registers only listeners that are not registered; \<open>lost\<close> collects the
  registrations that returned an identifier but have no list node, for the result of
  \<open>plist_add\<close> is not looked at. Between two steps the rest of the program changes the
  environment, the memory included, and other dictionaries advance the shared counter.\<close>

definition lost_by :: "int \<Rightarrow> 'a \<Rightarrow> 'r option \<Rightarrow> ('r, 'a) pdict \<Rightarrow> (int \<times> ('r, 'a) persistent) list" where
  "lost_by i l r pd =
     (case r of None \<Rightarrow> []
      | Some r \<Rightarrow> if i \<noteq> 0 \<and> i \<notin> fst ` set (pd_persistent_listeners pd)
                  then [(i, \<lparr> pdpl_l = l, pdpl_regex = r, pdpl_new = False \<rparr>)] else [])"

inductive dict_reach :: "(string \<Rightarrow> 'r option) \<Rightarrow> ('r \<Rightarrow> string \<Rightarrow> rx_result) \<Rightarrow> bool
    \<Rightarrow> (int \<times> ('r, 'a) persistent) list \<Rightarrow> ('r, 'a) pdict \<Rightarrow> 's env \<Rightarrow> bool"
  for rc :: "string \<Rightarrow> 'r option" and rx :: "'r \<Rightarrow> string \<Rightarrow> rx_result" and fresh :: bool where
  start: "pdict_alloc next_lid env = (Some pd, env') \<Longrightarrow> 0 < next_lid \<Longrightarrow> dict_reach rc rx fresh [] pd env'"
| add: "dict_reach rc rx fresh lost pd env \<Longrightarrow> nul_free k \<Longrightarrow>
    pdict_add rx nf k v want_old pd env = Inr (done1, ov, pd', env') \<Longrightarrow> dict_reach rc rx fresh lost pd' env'"
| remove: "dict_reach rc rx fresh lost pd env \<Longrightarrow> nul_free k \<Longrightarrow>
    pdict_ent_remove nf k pd env = (done1, ov, pd', env') \<Longrightarrow> dict_reach rc rx fresh lost pd' env'"
| listen: "dict_reach rc rx fresh lost pd env \<Longrightarrow>
    (fresh \<Longrightarrow> \<forall>x \<in> set (pd_persistent_listeners pd @ lost). pdpl_l (snd x) \<noteq> l) \<Longrightarrow>
    pdict_add_persistent_change_listener rc rx nf kpat l pd env = (i, pd', env') \<Longrightarrow>
    dict_reach rc rx fresh (lost @ lost_by i l (rc kpat) pd') pd' env'"
| ignore: "dict_reach rc rx fresh lost pd env \<Longrightarrow>
    pdict_remove_persistent_change_listener i pd = (found, pd') \<Longrightarrow> dict_reach rc rx fresh lost pd' env"
| elsewhere: "dict_reach rc rx fresh lost pd env \<Longrightarrow> lid pd \<le> next_lid \<Longrightarrow>
    dict_reach rc rx fresh lost (pd\<lparr> lid := next_lid \<rparr>) env'"

text \<open>
  The invariant. Every entry has at most the listeners of the matching registrations, the
  lost ones included; with fresh listeners it has at least those of the listed ones.\<close>

definition ent_inv :: "('r \<Rightarrow> string \<Rightarrow> rx_result) \<Rightarrow> bool \<Rightarrow> (int \<times> ('r, 'a) persistent) list
    \<Rightarrow> (int \<times> ('r, 'a) persistent) list \<Rightarrow> 'a pdict_ent \<Rightarrow> bool" where
  "ent_inv rx fresh lost pls e \<longleftrightarrow>
     mset (pde_listeners e) \<subseteq># mset (listeners_for rx (pls @ lost) (pde_key e))
     \<and> (fresh \<longrightarrow> mset (listeners_for rx pls (pde_key e)) \<subseteq># mset (pde_listeners e))"

definition reach_inv :: "('r \<Rightarrow> string \<Rightarrow> rx_result) \<Rightarrow> bool \<Rightarrow> (int \<times> ('r, 'a) persistent) list \<Rightarrow> ('r, 'a) pdict \<Rightarrow> bool" where
  "reach_inv rx fresh lost pd \<longleftrightarrow>
     ents_ok (pd_ents pd)
     \<and> distinct (map fst (pd_persistent_listeners pd)) \<and> 0 < lid pd
     \<and> (\<forall>x \<in> set (pd_persistent_listeners pd). \<not> pdpl_new (snd x) \<and> fst x < lid pd)
     \<and> (fresh \<longrightarrow> distinct (map (\<lambda>x. pdpl_l (snd x)) (pd_persistent_listeners pd @ lost)))
     \<and> (\<forall>e \<in> set (pd_ents pd). ent_inv rx fresh lost (pd_persistent_listeners pd) e)"

lemma reach_inv_put:
  "reach_inv rx fresh lost pd \<Longrightarrow> nul_free (pde_key n) \<Longrightarrow> ent_inv rx fresh lost (pd_persistent_listeners pd) n \<Longrightarrow>
   reach_inv rx fresh lost (pd\<lparr> pd_ents := seq_put pdecmp n (pd_ents pd) \<rparr>)"
  using ents_ok_put [of "pd_ents pd" n] set_put [of "pd_ents pd" n] by (auto simp: reach_inv_def)

lemma add_outcome_dict:
  "add_outcome rx k v want_old pd m env' = Inr (done1, ov, pd', env1) \<Longrightarrow>
   pd' = pd \<or> pd' = add_new rx k v pd \<or> (\<exists>n \<in> set (pd_ents pd). pd' = add_changed v n pd)"
  by (cases "find (\<lambda>e. pde_key e = k) (pd_ents pd)")
     (auto simp: add_outcome_def dest!: find_keyD split: if_splits)

lemma reach_inv_add:
  assumes inv: "reach_inv rx fresh lost pd" and "nul_free k"
    and run: "pdict_add rx nf k v want_old pd env = Inr (done1, ov, pd', env')"
  shows "reach_inv rx fresh lost pd'"
proof -
  have ok: "ents_ok (pd_ents pd)" "\<forall>x \<in> set (pd_persistent_listeners pd). \<not> pdpl_new (snd x)"
    using inv by (auto simp: reach_inv_def)
  obtain m s where env: "env = (m, s)" by (cases env)
  obtain env1 where o: "pdict_add rx nf k v want_old pd (m, s) = add_outcome rx k v want_old pd m env1"
    using pdict_add_at [OF ok assms(2), of rx nf v want_old m s] by (rule exE)
  have new: "reach_inv rx fresh lost (add_new rx k v pd)"
    using assms(2) unfolding add_new_def by (intro reach_inv_put [OF inv]) (simp_all add: ent_inv_def)
  have changed: "reach_inv rx fresh lost (add_changed v n pd)" if "n \<in> set (pd_ents pd)" for n
    using that inv ok(1) unfolding add_changed_def
    by (intro reach_inv_put [OF inv]) (auto simp: ents_ok_def reach_inv_def ent_inv_def)
  show ?thesis using run inv new changed unfolding env o by (blast dest: add_outcome_dict)
qed

lemma reach_inv_remove:
  assumes inv: "reach_inv rx fresh lost pd" and "nul_free k"
    and run: "pdict_ent_remove nf k pd env = (done1, ov, pd', env')"
  shows "reach_inv rx fresh lost pd'"
proof -
  have ok: "ents_ok (pd_ents pd)" using inv by (simp add: reach_inv_def)
  have "reach_inv rx fresh lost (pd\<lparr> pd_ents := seq_del pdecmp (key_ent k) (pd_ents pd) \<rparr>)"
    using inv ents_ok_del [OF ok assms(2)] set_del [OF ok assms(2)] by (auto simp: reach_inv_def)
  with run inv show ?thesis by (auto simp: pdict_ent_remove_def split: option.splits)
qed


lemma ents_ok_map_keys:
  "ents_ok es \<longleftrightarrow> sorted_wrt (<) (map pde_key es) \<and> (\<forall>k \<in> set (map pde_key es). nul_free k)"
  by (simp add: ents_ok_def key_sorted_def sorted_wrt_map)

lemma ents_ok_keys: "map pde_key es' = map pde_key es \<Longrightarrow> ents_ok es' = ents_ok es"
  by (simp only: ents_ok_map_keys)

text \<open>The registrations that have the listener all match an entry that carries it.\<close>

lemma fresh_not_on:
  assumes "ent_inv rx fresh lost pls e" and "\<forall>x \<in> set (pls @ lost). pdpl_l (snd x) \<noteq> l"
  shows "l \<notin> set (pde_listeners e)"
proof
  assume "l \<in> set (pde_listeners e)"
  then have "l \<in># mset (listeners_for rx (pls @ lost) (pde_key e))"
    using assms(1) unfolding ent_inv_def by (meson in_multiset_in_set mset_subset_eqD)
  then show False using assms(2) by (auto simp: listeners_for_def)
qed

lemma reach_inv_listen:
  assumes inv: "reach_inv rx fresh lost pd"
    and fr: "fresh \<Longrightarrow> \<forall>x \<in> set (pd_persistent_listeners pd @ lost). pdpl_l (snd x) \<noteq> l"
    and run: "pdict_add_persistent_change_listener rc rx nf kpat l pd env = (i, pd', env')"
  shows "reach_inv rx fresh (lost @ lost_by i l (rc kpat) pd') pd'"
  using run
proof (cases rule: add_listener_cases)
  case (1 es)
  have keys: "map pde_key es = map pde_key (pd_ents pd)"
    using 1(3) by (auto simp: list_all2_conv_all_nth off_at_most_def intro: nth_equalityI)
  then have "ents_ok es"
    using inv by (metis (no_types, lifting) ents_ok_keys reach_inv_def)
  moreover have "ent_inv rx fresh lost (pd_persistent_listeners pd) e'" if e': "e' \<in> set es" for e'
  proof -
    obtain e where e: "e \<in> set (pd_ents pd)" "off_at_most l e e'"
      using 1(3) e' by (metis in_set_conv_nth list_all2_conv_all_nth)
    have ei: "ent_inv rx fresh lost (pd_persistent_listeners pd) e" using inv e(1) by (simp add: reach_inv_def)
    show ?thesis
    proof (cases fresh)
      case True
      then have "e' = e" using fresh_not_on [OF ei] fr e(2) by (simp add: off_at_most_def)
      then show ?thesis using ei by simp
    next
      case False
      then show ?thesis using ei e(2) by (auto simp: ent_inv_def off_at_most_def elim: subset_mset.order_trans)
    qed
  qed
  ultimately show ?thesis using inv 1(1,2) by (auto simp: reach_inv_def lost_by_def split: option.split)
next
  case (2 r listed)
  let ?new = "[(lid pd, \<lparr> pdpl_l = l, pdpl_regex = r, pdpl_new = False \<rparr>)]"
  have i: "i \<noteq> 0" "i \<notin> fst ` set (pd_persistent_listeners pd)"
    using inv 2(2) by (auto simp: reach_inv_def)
  have lost: "lost_by i l (rc kpat) pd' = (if listed then [] else ?new)"
    using i 2 by (auto simp: lost_by_def)
  have ei: "ent_inv rx fresh (lost @ (if listed then [] else ?new))
      (pd_persistent_listeners pd @ (if listed then ?new else [])) (with_listener rx r l e)"
    if "e \<in> set (pd_ents pd)" for e
    using inv that by (cases listed) (auto simp: reach_inv_def ent_inv_def with_listener_def
        intro: subset_mset.order_trans)
  show ?thesis
    unfolding lost unfolding 2(3)
    using inv i fr ei by (cases listed; cases fresh) (auto simp: 2(2) reach_inv_def ents_ok_map less_imp_le)
qed

lemma mset_sub_remove: "A \<subseteq># B \<Longrightarrow> l \<notin># A \<Longrightarrow> A \<subseteq># B - {# l #}"
  by (auto simp: subseteq_mset_def not_in_iff)

lemma mset_sub_add: "A \<subseteq># B \<Longrightarrow> A \<subseteq># add_mset l B"
  by (metis add_mset_add_single mset_subset_eq_add_left subset_mset.order_trans)

lemma reach_inv_ignore:
  assumes inv: "reach_inv rx fresh lost pd"
    and run: "pdict_remove_persistent_change_listener i pd = (found, pd')"
  shows "reach_inv rx fresh lost pd'"
proof (cases "map_of (pd_persistent_listeners pd) i")
  case None
  then show ?thesis using inv run by (simp add: pdict_remove_persistent_change_listener_def)
next
  case (Some pl)
  let ?pls = "pd_persistent_listeners pd"
  let ?rest = "filter (\<lambda>x. fst x \<noteq> i) ?pls"
  have d: "distinct (map fst ?pls)" using inv by (simp add: reach_inv_def)
  have m: "(i, pl) \<in> set ?pls" using Some by (rule map_of_SomeD)
  have pd': "pd' = pd\<lparr> pd_persistent_listeners := ?rest, pd_ents := map (ent_remove_persistent pl) (pd_ents pd) \<rparr>"
    using run Some by (simp add: pdict_remove_persistent_change_listener_def del_first_distinct [OF d])
  have dl: "distinct (map (\<lambda>x. pdpl_l (snd x)) ?pls)" if fresh
    using inv that by (simp add: reach_inv_def)
  have other: "pdpl_l pl \<notin> set (listeners_for rx ?rest k)" if fresh for k
  proof
    assume "pdpl_l pl \<in> set (listeners_for rx ?rest k)"
    then obtain x where "x \<in> set ?pls" "fst x \<noteq> i" "pdpl_l (snd x) = pdpl_l (snd (i, pl))"
      by (auto simp: listeners_for_def)
    moreover have "inj_on (\<lambda>x. pdpl_l (snd x)) (set ?pls)" using dl [OF that] by (simp add: distinct_map)
    ultimately have "x = (i, pl)" using m by (simp only: inj_on_def)
    with \<open>fst x \<noteq> i\<close> show False by simp
  qed
  have "ent_inv rx fresh lost ?rest (ent_remove_persistent pl e)" if "e \<in> set (pd_ents pd)" for e
  proof -
    have "ent_inv rx fresh lost ?pls e" using inv that by (simp add: reach_inv_def)
    then show ?thesis
      using other [of "pde_key e"] listeners_split [OF d m, of rx "pde_key e"]
      by (auto simp: ent_inv_def mset_ent_remove subset_eq_diff_conv insert_subset_eq_iff
          intro: mset_sub_remove mset_sub_add split: if_splits)
  qed
  moreover have "distinct (map (\<lambda>x. pdpl_l (snd x)) (?rest @ lost))" if fresh
    using inv that by (auto simp: reach_inv_def distinct_map_filter)
  ultimately show ?thesis
    using inv by (auto simp: pd' reach_inv_def ents_ok_map distinct_map_filter)
qed


lemma dict_reach_inv: "dict_reach rc rx fresh lost pd env \<Longrightarrow> reach_inv rx fresh lost pd"
proof (induction rule: dict_reach.induct)
  case (start next_lid env pd env')
  then have "pd = \<lparr> pd_ents = [], pd_persistent_listeners = [], lid = next_lid \<rparr>"
    by (auto simp: pdict_alloc_def Let_def split: prod.splits if_splits)
  with start show ?case by (simp add: reach_inv_def ents_ok_def)
next
  case add then show ?case by (blast intro: reach_inv_add)
next
  case remove then show ?case by (blast intro: reach_inv_remove)
next
  case listen then show ?case by (blast intro: reach_inv_listen)
next
  case ignore then show ?case by (blast intro: reach_inv_ignore)
next
  case elsewhere then show ?case by (auto simp: reach_inv_def)
qed

text \<open>
  C2: after every sequence of insertions, removals, registrations and deregistrations that is
  not undefined behaviour, under any memory and with any notifiers that do not call the
  dictionary themselves, the keys are unique and in order, the identifiers of the
  registrations are distinct, and no entry has a listener more often than registrations with
  it match its key, the lost ones included. When moreover a client registers only listeners that
  are not registered at that time and no registration was lost for want of a list node, the
  dictionary is well formed (\<open>dict_inv\<close>): every entry has exactly the registered listeners
  whose pattern matches its key. Without fresh listeners it can have fewer
  (\<open>pdict_remove_listener_exact\<close>, \<open>failed_listen_takes_other\<close>).\<close>

theorem dict_reachable:
  assumes "dict_reach rc rx fresh lost pd env"
  shows "ents_ok (pd_ents pd)
       \<and> distinct (map fst (pd_persistent_listeners pd))
       \<and> (\<forall>x \<in> set (pd_persistent_listeners pd). \<not> pdpl_new (snd x) \<and> fst x < lid pd)
       \<and> (\<forall>e \<in> set (pd_ents pd).
            mset (pde_listeners e) \<subseteq># mset (listeners_for rx (pd_persistent_listeners pd @ lost) (pde_key e)))
       \<and> (fresh \<and> lost = [] \<longrightarrow> dict_inv rx pd)"
  using dict_reach_inv [OF assms]
  by (auto simp: reach_inv_def ent_inv_def dict_inv_def attached_def intro: subset_mset.order_antisym)

text \<open>A registration, then an entry.\<close>

lemma sample_reached: "\<exists>env :: (nat \<times> event) list env. dict_reach Some same_rx True [] sample_dict env"
proof -
  let ?pd0 = "\<lparr> pd_ents = [], pd_persistent_listeners = [], lid = 1 \<rparr> :: (string, nat) pdict"
  let ?pd1 = "sample_dict\<lparr> pd_ents := [] \<rparr>"
  let ?nf = "\<lambda>l ev (env :: (nat \<times> event) list env). (fst env, (l, ev) # snd env)"
  have start: "dict_reach Some same_rx True [] ?pd0 ([], [] :: (nat \<times> event) list)"
    by (rule dict_reach.start [of 1 "([], [])"]) (simp_all add: pdict_alloc_def)
  have listen: "pdict_add_persistent_change_listener Some same_rx ?nf ''a'' 7 ?pd0 ([], []) = (1, ?pd1, ([], []))"
    by (simp add: pdict_add_persistent_change_listener_def sample_dict_def)
  have "dict_reach Some same_rx True ([] @ lost_by 1 7 (Some ''a'') ?pd1) ?pd1 ([], [] :: (nat \<times> event) list)"
    by (rule dict_reach.listen [OF start _ listen]) simp
  then have "dict_reach Some same_rx True [] ?pd1 ([], [] :: (nat \<times> event) list)"
    by (simp add: lost_by_def sample_dict_def)
  moreover have "\<exists>env'. pdict_add same_rx ?nf ''a'' ''1'' False ?pd1 ([], []) = Inr (True, None, sample_dict, env')"
    by (simp add: pdict_add_def ent_add_persistents_def ent_add_persistent_def same_rx_def sample_dict_def Let_def del: split_paired_Ex)
  moreover have "nul_free ''a''" by simp
  ultimately show ?thesis by (blast intro: dict_reach.add)
qed

theorem dict_reachable_witness: "dict_inv same_rx sample_dict \<and> pd_ents sample_dict \<noteq> []"
proof -
  obtain env :: "(nat \<times> event) list env" where "dict_reach Some same_rx True [] sample_dict env"
    using sample_reached by blast
  then show ?thesis using dict_reachable [of Some same_rx True "[]" sample_dict env] by (simp add: sample_dict_def)
qed

text \<open>The names of the reasons can be read back.\<close>

lemma pdict_reason_roundtrip: "pdict_reason_from_str (pdict_reason_str r) = Some r"
  by (cases r) (simp_all add: pdict_reason_from_str_def)

interpretation reason: codec pdict_reason_str pdict_reason_from_str "\<lambda>_. True"
  by unfold_locales (rule pdict_reason_roundtrip)

end
