(* ===== verification/PDictServer.thy ===== *)
theory PDictServer
  imports PDict TreeShape LineIO Decimal
begin

text \<open>
  The dictionary server of the web service (\<open>phidget21/dict/pdictserver.c\<close>): sessions that
  execute the commands of the line protocol on one shared dictionary, collect the
  notifications of their listeners, and report them periodically.

  A session, a listener argument (\<open>notify_arg_t\<close>) and a listen identifier are heap objects
  shared by address: a change listener of the dictionary is the address of a listener
  argument, a pending notification holds the address of an identifier it does not own.
  Reading one that has been freed is a fault, as are \<open>abort\<close> and a false \<open>assert\<close>.
  The two trees of a session are given by their shapes (theory \<open>TreeShape\<close>), the lists of
  expiring keys and listener identifiers by their sequences (theory \<open>PList\<close>). Whoever holds
  the dictionary lock runs alone: each command, each report and the end of a session is
  one step on the server state. The compiled command patterns are the parameter \<open>matches\<close>,
  \<open>strerror (errno)\<close> is the parameter \<open>es\<close>; \<open>regcomp\<close> and \<open>regexec\<close> on client patterns are
  those of theory \<open>PDict\<close>. One formatted text takes one allocation.
\<close>

section \<open>State\<close>

record ipm =
  ipm_id :: addr
  ipm_key :: "string option"
  ipm_val :: "string option"
  ipm_reason :: pdict_reason

record notify_arg =
  na_pdss :: addr
  na_listenid :: addr
  na_pd_ids :: "int list"

text \<open>
  \<open>pdss_write\<close>: the write function is set. \<open>sent\<close> are the buffers passed to it, \<open>writes\<close> its
  coming results. \<open>pdss_report_thread\<close>: the thread handle is not 0; \<open>report_live\<close> is the
  local \<open>cmdtag\<close> of the thread while it runs.
\<close>

record session =
  pdss_id :: int
  pdss_write :: bool
  pdss_pending :: "ipm tree"
  pdss_notify_args :: "addr tree"
  pdss_report_period :: int
  pdss_report_cmdtag :: "string option"
  pdss_report_thread :: bool
  report_live :: "string option option"
  pdss_nreport :: "32 word"
  pdss_should_close :: bool
  pdss_expire :: "string list"
  pdss_client_cr_null :: bool
  pdss_closed :: bool
  sent :: "string list"
  writes :: "bool list"

text \<open>\<open>brk\<close> is the next address that \<open>malloc\<close> hands out, \<open>next_id\<close> the session counter.\<close>

record srv =
  sessions :: "session heap"
  nas :: "notify_arg heap"
  ids :: "string heap"
  brk :: addr
  next_id :: int
  srv_fault :: "c_fault option"

record 'r server =
  sv_pd :: "('r, addr) pdict"
  sv_mem :: memory
  sv_srv :: srv

datatype command = SET | LISTEN | REPORT | WAIT | FLUSH | WALK | IGNORE | QUIT | GETID | REPORT_ACK

definition put_session :: "addr \<Rightarrow> session \<Rightarrow> srv \<Rightarrow> srv" where
  "put_session i p s = s\<lparr> sessions := (sessions s)(i \<mapsto> p) \<rparr>"

text \<open>A string argument that must not be NULL, and \<open>strdup\<close> of one.\<close>

definition str_arg :: "string option \<Rightarrow> string cres" where
  "str_arg s = (case s of None \<Rightarrow> Inl Bad_Pointer | Some t \<Rightarrow> Inr t)"

definition strdup :: "string option \<Rightarrow> memory \<Rightarrow> (string option \<times> memory) cres" where
  "strdup s mem =
     cbind (str_arg s) (\<lambda>t. let (got, mem') = alloc mem in Inr (if got then Some t else None, mem'))"

definition free_str :: "addr \<Rightarrow> srv \<Rightarrow> srv cres" where
  "free_str a s =
     (if a = NULL then Inr s else cbind (release (ids s) a) (\<lambda>h. Inr (s\<lparr> ids := h \<rparr>)))"

section \<open>Comparisons\<close>

text \<open>
  \<open>nacmp\<close> with a search argument given by its two fields. The difference of the addresses is
  cut to an \<open>int\<close>, so two sessions whose addresses differ by a multiple of 2 to the 32 would
  be told apart by their identifiers only.\<close>

definition nacmp :: "srv \<Rightarrow> addr \<Rightarrow> addr \<Rightarrow> addr \<Rightarrow> int cres" where
  "nacmp s pdss listenid a =
     cbind (deref (nas s) a) (\<lambda>n.
       let res = int32 (int pdss - int (na_pdss n)) in
       if res \<noteq> 0 then Inr res
       else cbind (deref (ids s) listenid) (\<lambda>x.
            cbind (deref (ids s) (na_listenid n)) (\<lambda>y. Inr (strcmp x y))))"

text \<open>The comparison aborts the process when the identifier searched for does not start with an l.\<close>

definition ipmcmp :: "srv \<Rightarrow> ipm \<Rightarrow> ipm \<Rightarrow> int cres" where
  "ipmcmp s i1 i2 =
     cbind (deref (ids s) (ipm_id i1)) (\<lambda>id1.
     cbind (str_at id1 0) (\<lambda>c.
       if c \<noteq> CHR ''l'' then Inl Assert_Failed
       else cbind (deref (ids s) (ipm_id i2)) (\<lambda>id2.
         if strcmp id1 id2 \<noteq> 0 then Inr (strcmp id1 id2)
         else cbind (str_arg (ipm_key i1)) (\<lambda>k1.
              cbind (str_arg (ipm_key i2)) (\<lambda>k2. Inr (strcmp k1 k2))))))"

section \<open>Notifications\<close>

text \<open>
  A notification for a listen identifier and a key that already has one pending only
  updates that one.
\<close>

definition notify :: "addr \<Rightarrow> event \<Rightarrow> srv env \<Rightarrow> srv env cres" where
  "notify a ev env =
     (let (mem, s) = env in
      cbind (deref (nas s) a) (\<lambda>na.
      cbind (deref (sessions s) (na_pdss na)) (\<lambda>p.
      let cm = \<lparr> ipm_id = na_listenid na, ipm_key = ev_key ev, ipm_val = None, ipm_reason = ev_reason ev \<rparr>;
          store = (\<lambda>t. put_session (na_pdss na) (p\<lparr> pdss_pending := t \<rparr>) s)
      in cbind (tr_find (ipmcmp s) cm (pdss_pending p)) (\<lambda>found.
      case found of
        Some ipm \<Rightarrow>
          cbind (strdup (ev_val ev) mem) (\<lambda>(v, mem1).
          cbind (tr_put (ipmcmp s) (ipm\<lparr> ipm_val := v, ipm_reason := ev_reason ev \<rparr>) (pdss_pending p)) (\<lambda>t.
          Inr (mem1, store t)))
      | None \<Rightarrow>
          let (got, mem1) = alloc mem in
          if \<not> got then Inr (mem1, s) else
          cbind (strdup (ev_key ev) mem1) (\<lambda>(k, mem2).
          cbind (strdup (ev_val ev) mem2) (\<lambda>(v, mem3).
          cbind (tr_replace (ipmcmp s) (cm\<lparr> ipm_key := k, ipm_val := v \<rparr>) mem3 (pdss_pending p)) (\<lambda>(res, old, t, mem4).
          Inr (mem4, if res then store t else s))))))))"

text \<open>The callback the dictionary calls: the first fault is kept.\<close>

definition notify_cb :: "(addr, srv) notifier" where
  "notify_cb a ev env =
     (if srv_fault (snd env) \<noteq> None then env
      else case notify a ev env of
             Inl e \<Rightarrow> (fst env, (snd env)\<lparr> srv_fault := Some e \<rparr>)
           | Inr env' \<Rightarrow> env')"

section \<open>Replies and reports\<close>

definition call_write :: "string \<Rightarrow> session \<Rightarrow> (bool \<times> session) cres" where
  "call_write buf p =
     (if \<not> pdss_write p then Inl Bad_Pointer
      else let (done_all, ws) = alloc (writes p) in Inr (done_all, p\<lparr> sent := sent p @ [buf], writes := ws \<rparr>))"

definition tagged :: "string option \<Rightarrow> string \<Rightarrow> string" where
  "tagged tag t = (case tag of None \<Rightarrow> t | Some g \<Rightarrow> g @ '' '' @ t)"

text \<open>A reply without memory or a failing write closes the session.\<close>

definition result :: "addr \<Rightarrow> string option \<Rightarrow> string \<Rightarrow> srv env \<Rightarrow> srv env cres" where
  "result i cmdtag text env =
     (let (mem, s) = env in
      cbind (deref (sessions s) i) (\<lambda>p.
      let (got, mem1) = alloc mem; closing = put_session i (p\<lparr> pdss_should_close := True \<rparr>) s in
      if \<not> got then Inr (mem1, closing) else
      let (got2, mem2) = alloc mem1 in
      if \<not> got2 then Inr (mem2, closing) else
      cbind (call_write (tagged cmdtag (text @ [if pdss_client_cr_null p then NUL else newline])) p) (\<lambda>(w, p').
      Inr (mem2, put_session i (if w then p' else p'\<lparr> pdss_should_close := True \<rparr>) s))))"

text \<open>One pending notification is written and freed; with no write function it is only freed.\<close>

definition write_pending :: "string heap \<Rightarrow> ipm \<Rightarrow> memory \<times> session \<Rightarrow> (memory \<times> session) cres" where
  "write_pending h ipm st =
     (let (mem, p) = st in
      if \<not> pdss_write p then Inr st else
      cbind (deref h (ipm_id ipm)) (\<lambda>idt.
      cbind (str_arg (ipm_key ipm)) (\<lambda>k.
      cbind (str_arg (ipm_val ipm)) (\<lambda>v.
      let (got, mem1) = alloc mem in
      if \<not> got then Inr (mem1, p)
      else cbind (call_write
             (tagged (pdss_report_cmdtag p)
               (''200-'' @ idt @ '' is pending, key '' @ k @ '' latest value '' @ [CHR 0x22] @ v @ [CHR 0x22]
                @ '' ('' @ pdict_reason_str (ipm_reason ipm) @ '')'' @ [newline])
              @ (if pdss_client_cr_null p then [NUL] else [])) p)
           (\<lambda>(_, p'). Inr (mem1, p'))))))"

fun each :: "('x \<Rightarrow> 's \<Rightarrow> 's cres) \<Rightarrow> 'x list \<Rightarrow> 's \<Rightarrow> 's cres" where
  "each f [] s = Inr s"
| "each f (x # xs) s = cbind (f x s) (each f xs)"

definition walk_pending :: "string heap \<Rightarrow> memory \<times> session \<Rightarrow> (memory \<times> session) cres" where
  "walk_pending h st =
     cbind (each (write_pending h) (postorder (pdss_pending (snd st))) st) (\<lambda>(mem, p).
     Inr (mem, p\<lparr> pdss_pending := tr_prune (\<lambda>_. False) (pdss_pending p) \<rparr>))"

definition send_pending :: "addr \<Rightarrow> srv env \<Rightarrow> srv env cres" where
  "send_pending i env =
     cbind (deref (sessions (snd env)) i) (\<lambda>p.
     cbind (walk_pending (ids (snd env)) (fst env, p)) (\<lambda>(mem, p').
     if pdss_pending p' \<noteq> Leaf then Inl Assert_Failed else Inr (mem, put_session i p' (snd env))))"

text \<open>The copy of the report tag that the report thread keeps.\<close>

definition report_tag :: "string option \<Rightarrow> string option \<Rightarrow> memory \<Rightarrow> string option \<times> memory" where
  "report_tag cmdtag tag mem =
     (case tag of
        None \<Rightarrow> (None, mem)
      | Some t \<Rightarrow>
          if cmdtag \<noteq> None \<and> strcmp (the cmdtag) t = 0 then (cmdtag, mem)
          else let (got, mem') = alloc mem in (Some (if got then t else ''unknown''), mem'))"

definition report_exit :: "addr \<Rightarrow> srv env \<Rightarrow> srv env cres" where
  "report_exit i env =
     cbind (deref (sessions (snd env)) i) (\<lambda>p.
     Inr (fst env, put_session i (p\<lparr> pdss_report_cmdtag := None, report_live := None \<rparr>) (snd env)))"

text \<open>One round of the report thread, from the end of its sleep to the next one or its exit.\<close>

definition report_round :: "addr \<Rightarrow> srv env \<Rightarrow> srv env cres" where
  "report_round i env =
     (let (mem, s) = env in
      cbind (deref (sessions s) i) (\<lambda>p.
      case report_live p of
        None \<Rightarrow> Inr env
      | Some cmdtag \<Rightarrow>
          let (cmdtag', mem1) = report_tag cmdtag (pdss_report_cmdtag p) mem;
              env1 = (mem1, put_session i (p\<lparr> report_live := Some cmdtag' \<rparr>) s)
          in if pdss_report_period p = 0 then report_exit i env1
             else if pdss_pending p = Leaf then
               (if pdss_should_close p then report_exit i env1 else Inr env1)
             else
               cbind (result i cmdtag' ''200-periodic report follows:'' env1) (\<lambda>env2.
               cbind (send_pending i env2) (\<lambda>env3.
               cbind (result i cmdtag' ''200-that's all for now'' env3) (\<lambda>env4.
               cbind (deref (sessions (snd env4)) i) (\<lambda>p4.
               let env5 = (fst env4, put_session i (p4\<lparr> pdss_nreport := pdss_nreport p4 + 1 \<rparr>) (snd env4))
               in if pdss_should_close p4 then report_exit i env5 else Inr env5))))))"

text \<open>The thread is started only when there is no handle of an earlier one.\<close>

definition set_report_period :: "addr \<Rightarrow> string option \<Rightarrow> string option \<Rightarrow> int \<Rightarrow> srv env \<Rightarrow> srv env cres" where
  "set_report_period i cmdtag report_cmdtag period env =
     (let (mem, s) = env in
      cbind (deref (sessions s) i) (\<lambda>p.
      let (tag, mem1) = (case report_cmdtag of
                           None \<Rightarrow> (None, mem)
                         | Some t \<Rightarrow> let (got, m) = alloc mem in (if got then Some t else None, m));
          p1 = p\<lparr> pdss_report_period := period, pdss_report_cmdtag := tag \<rparr>
      in if period \<noteq> 0 then
           let (started, mem2) = (if pdss_report_thread p1 then (True, mem1) else alloc mem1);
               p2 = (if pdss_report_thread p1 \<or> \<not> started then p1
                     else p1\<lparr> pdss_report_thread := True, report_live := Some None \<rparr>)
           in if \<not> started
              then result i cmdtag ''502 temporarily failure establishing report thread'' (mem2, put_session i p2 s)
              else result i cmdtag (''200 inter-report period adjusted to '' @ dec_int period @ ''ms'') (mem2, put_session i p2 s)
         else if \<not> pdss_report_thread p1
         then result i cmdtag ''200 periodic reports off'' (mem1, put_session i p1 s)
         else result i cmdtag ''200 periodic reports will stop after next report'' (mem1, put_session i p1 s)))"

end
