(* ===== verification/PDictSession.thy ===== *)
theory PDictSession
  imports PDictServer
begin

text \<open>
  The commands of a session (\<open>pds_process_line\<close>), its life from \<open>pds_session_alloc\<close> to the
  clean-up at the end of \<open>pds_session_serve\<close>. Each command is a step on the server; only
  \<open>flush\<close> can wait: what the other threads do during each wait is an argument, and \<open>None\<close>
  is the result while it still waits.
\<close>

section \<open>Steps on the server\<close>

type_synonym 'r step = "'r server \<Rightarrow> 'r server cres"

definition env_of :: "'r server \<Rightarrow> srv env" where
  "env_of sv = (sv_mem sv, sv_srv sv)"

definition set_env :: "'r server \<Rightarrow> srv env \<Rightarrow> 'r server" where
  "set_env sv env = sv\<lparr> sv_mem := fst env, sv_srv := snd env \<rparr>"

definition on_env :: "(srv env \<Rightarrow> srv env cres) \<Rightarrow> 'r step" where
  "on_env f sv = cbind (f (env_of sv)) (\<lambda>env. Inr (set_env sv env))"

text \<open>After an operation of the dictionary: a fault in one of its callbacks is a fault.\<close>

definition after_dict :: "'r server \<Rightarrow> ('r, addr) pdict \<Rightarrow> srv env \<Rightarrow> 'r server cres" where
  "after_dict sv pd env =
     (case srv_fault (snd env) of
        Some e \<Rightarrow> Inl e
      | None \<Rightarrow> Inr (set_env (sv\<lparr> sv_pd := pd \<rparr>) env))"

definition reply :: "addr \<Rightarrow> string option \<Rightarrow> string \<Rightarrow> 'r step" where
  "reply i tag text = on_env (result i tag text)"

definition with_session :: "addr \<Rightarrow> (session \<Rightarrow> session) \<Rightarrow> 'r step" where
  "with_session i f sv =
     cbind (deref (sessions (sv_srv sv)) i) (\<lambda>p. Inr (sv\<lparr> sv_srv := put_session i (f p) (sv_srv sv) \<rparr>))"

definition submatch :: "string \<Rightarrow> (int \<times> int) list \<Rightarrow> nat \<Rightarrow> 'r server \<Rightarrow> (int \<times> string option \<times> 'r server) cres" where
  "submatch line pm n sv =
     cbind (getmatchsub (sv_mem sv) line pm n) (\<lambda>(len, s, mem). Inr (len, s, sv\<lparr> sv_mem := mem \<rparr>))"

text \<open>The first of two submatches that is not empty.\<close>

definition submatch2 :: "string \<Rightarrow> (int \<times> int) list \<Rightarrow> nat \<Rightarrow> nat \<Rightarrow> 'r server \<Rightarrow> (int \<times> string option \<times> 'r server) cres" where
  "submatch2 line pm n n' sv =
     cbind (submatch line pm n sv) (\<lambda>(len, s, sv1).
     if len = 0 then submatch line pm n' sv1 else Inr (len, s, sv1))"

text \<open>\<open>getmatchsub\<close> with no destination.\<close>

definition match_len :: "(int \<times> int) list \<Rightarrow> nat \<Rightarrow> int cres" where
  "match_len pm n =
     (if length pm \<le> n then Inl Out_Of_Bounds
      else let (so, eo) = pm ! n in Inr (if 0 \<le> so then eo - so else 0))"

definition malloc :: "'r server \<Rightarrow> bool \<times> 'r server" where
  "malloc sv = (let (got, mem) = alloc (sv_mem sv) in (got, sv\<lparr> sv_mem := mem \<rparr>))"

text \<open>The \<open>fail\<close> label.\<close>

definition failed :: "string \<Rightarrow> addr \<Rightarrow> string option \<Rightarrow> 'r step" where
  "failed es i tag = reply i tag (''300 command failed: '' @ es)"

text \<open>Every command but the last three starts by reading its tag.\<close>

definition with_tag :: "addr \<Rightarrow> string \<Rightarrow> (int \<times> int) list \<Rightarrow> (string option \<Rightarrow> 'r step) \<Rightarrow> 'r step" where
  "with_tag i line pm f sv =
     cbind (submatch line pm 1 sv) (\<lambda>(_, tag, sv1).
     if tag \<noteq> None \<and> strcmp (the tag) ''unknown'' = 0
     then reply i tag ''304 unknown is a reserved command tag'' sv1
     else f tag sv1)"

section \<open>Setting a value\<close>

definition is_key_in_list :: "string \<Rightarrow> string \<Rightarrow> unit \<Rightarrow> unit \<Rightarrow> int \<times> unit" where
  "is_key_in_list key k v st = (if strcmp k key = 0 then 0 else 1, st)"

text \<open>
  A key set "for session" is noted once; without memory for the copy of the key the command
  fails, without memory for the list node the key is not noted.
\<close>

definition note_expire :: "addr \<Rightarrow> string \<Rightarrow> 'r server \<Rightarrow> (bool \<times> 'r server) cres" where
  "note_expire i key sv =
     cbind (deref (sessions (sv_srv sv)) i) (\<lambda>p.
     if fst (walk_list (is_key_in_list key) (map (\<lambda>k. (k, ())) (pdss_expire p)) ()) = 0 then Inr (True, sv)
     else let (got, sv1) = malloc sv in
       if \<not> got then Inr (False, sv1)
       else let (got2, sv2) = malloc sv1 in
         if \<not> got2 then Inr (True, sv2)
         else cbind (with_session i (\<lambda>p. p\<lparr> pdss_expire := pdss_expire p @ [key] \<rparr>) sv2) (\<lambda>sv3. Inr (True, sv3)))"

definition cmd_set :: "('r \<Rightarrow> string \<Rightarrow> rx_result) \<Rightarrow> string \<Rightarrow> addr \<Rightarrow> string \<Rightarrow> (int \<times> int) list \<Rightarrow> 'r step" where
  "cmd_set regexec es i line pm =
     with_tag i line pm (\<lambda>tag sv.
     cbind (submatch line pm 2 sv) (\<lambda>(_, k, sv1).
     case k of None \<Rightarrow> failed es i tag sv1 | Some key \<Rightarrow>
     cbind (submatch2 line pm 5 4 sv1) (\<lambda>(_, v, sv2).
     case v of None \<Rightarrow> failed es i tag sv2 | Some val \<Rightarrow>
     cbind (match_len pm 6) (\<lambda>forsession.
     cbind (if 0 < forsession then note_expire i key sv2 else Inr (True, sv2)) (\<lambda>(noted, sv3).
     if \<not> noted then failed es i tag sv3 else
     cbind (pdict_add regexec notify_cb key val False (sv_pd sv3) (env_of sv3)) (\<lambda>(res, _, pd, env).
     cbind (after_dict sv3 pd env) (\<lambda>sv4.
     reply i tag (if res then ''200 set successful'' else ''304 set failed'') sv4)))))))"

section \<open>Listening and ignoring\<close>

definition new_str :: "string option \<Rightarrow> 'r server \<Rightarrow> addr \<times> 'r server" where
  "new_str t sv =
     (case t of
        None \<Rightarrow> (NULL, sv)
      | Some x \<Rightarrow> let s = sv_srv sv in
                  (brk s, sv\<lparr> sv_srv := s\<lparr> ids := (ids s)(brk s \<mapsto> x), brk := brk s + 1 \<rparr> \<rparr>))"

definition find_na :: "addr \<Rightarrow> addr \<Rightarrow> 'r server \<Rightarrow> addr option cres" where
  "find_na i lp sv =
     cbind (deref (sessions (sv_srv sv)) i) (\<lambda>p.
     tr_find (\<lambda>_. nacmp (sv_srv sv) i lp) NULL (pdss_notify_args p))"

text \<open>\<open>ptree_remove\<close> on the listener arguments: what was found.\<close>

definition remove_na :: "addr \<Rightarrow> addr \<Rightarrow> 'r server \<Rightarrow> (addr option \<times> 'r server) cres" where
  "remove_na i lp sv =
     cbind (deref (sessions (sv_srv sv)) i) (\<lambda>p.
     let cmp = (\<lambda>_. nacmp (sv_srv sv) i lp) in
     cbind (tr_find cmp NULL (pdss_notify_args p)) (\<lambda>found.
     case found of
       None \<Rightarrow> Inr (None, sv)
     | Some a \<Rightarrow>
         cbind (tr_del cmp NULL (pdss_notify_args p)) (\<lambda>t.
         Inr (Some a, sv\<lparr> sv_srv := put_session i (p\<lparr> pdss_notify_args := t \<rparr>) (sv_srv sv) \<rparr>))))"

text \<open>Freeing the identifier and the structure of a listener argument.\<close>

definition free_na :: "addr \<Rightarrow> 'r step" where
  "free_na a sv =
     cbind (deref (nas (sv_srv sv)) a) (\<lambda>n.
     cbind (free_str (na_listenid n) (sv_srv sv)) (\<lambda>s.
     cbind (release (nas s) a) (\<lambda>h. Inr (sv\<lparr> sv_srv := s\<lparr> nas := h \<rparr> \<rparr>))))"

text \<open>A new listener argument in the tree of the session; \<open>None\<close> when there is no memory.\<close>

definition add_na :: "addr \<Rightarrow> addr \<Rightarrow> 'r server \<Rightarrow> (addr option \<times> 'r server) cres" where
  "add_na i lp sv =
     (let (got, sv1) = malloc sv in
      if \<not> got then Inr (None, sv1) else
      let s = sv_srv sv1; a = brk s;
          s2 = s\<lparr> nas := (nas s)(a \<mapsto> \<lparr> na_pdss = i, na_listenid = lp, na_pd_ids = [] \<rparr>), brk := a + 1 \<rparr>
      in cbind (deref (sessions s2) i) (\<lambda>p.
         cbind (tr_replace (\<lambda>_. nacmp s2 i lp) a (sv_mem sv1) (pdss_notify_args p)) (\<lambda>(res, _, t, mem).
         if res then Inr (Some a, sv1\<lparr> sv_mem := mem, sv_srv := put_session i (p\<lparr> pdss_notify_args := t \<rparr>) s2 \<rparr>)
         else cbind (release (nas s2) a) (\<lambda>h.
              cbind (free_str lp (s2\<lparr> nas := h \<rparr>)) (\<lambda>s3. Inr (None, sv1\<lparr> sv_mem := mem, sv_srv := s3 \<rparr>))))))"

text \<open>A listener argument that has no registered listener is dropped again.\<close>

definition drop_na :: "addr \<Rightarrow> addr \<Rightarrow> 'r step" where
  "drop_na i a sv =
     cbind (deref (nas (sv_srv sv)) a) (\<lambda>n.
     if na_pd_ids n \<noteq> [] then Inr sv
     else cbind (remove_na i (na_listenid n) sv) (\<lambda>(_, sv1). free_na a sv1))"

definition listen_with :: "(string \<Rightarrow> 'r option) \<Rightarrow> ('r \<Rightarrow> string \<Rightarrow> rx_result) \<Rightarrow> string \<Rightarrow> addr
    \<Rightarrow> string option \<Rightarrow> string \<Rightarrow> addr \<Rightarrow> addr \<Rightarrow> 'r step" where
  "listen_with regcomp regexec es i tag pat lp a sv =
     (let (res, pd, env) = pdict_add_persistent_change_listener regcomp regexec notify_cb pat a (sv_pd sv) (env_of sv) in
      cbind (after_dict sv pd env) (\<lambda>sv1.
      if res = 0 then
        cbind (drop_na i a sv1) (\<lambda>sv2. reply i tag ''303 listen not established--bad pattern?'' sv2)
      else
        let (got, sv2) = malloc sv1 in
        if \<not> got then
          cbind (drop_na i a (sv2\<lparr> sv_pd := snd (pdict_remove_persistent_change_listener res (sv_pd sv2)) \<rparr>))
            (\<lambda>sv3. failed es i None sv3)
        else
          cbind (upd (nas (sv_srv sv2)) a (\<lambda>n. n\<lparr> na_pd_ids := na_pd_ids n @ [res] \<rparr>)) (\<lambda>h.
          cbind (deref (ids (sv_srv sv2)) lp) (\<lambda>x.
          reply i tag (''200 listening, id '' @ x) (sv2\<lparr> sv_srv := (sv_srv sv2)\<lparr> nas := h \<rparr> \<rparr>)))))"

definition cmd_listen :: "(string \<Rightarrow> 'r option) \<Rightarrow> ('r \<Rightarrow> string \<Rightarrow> rx_result) \<Rightarrow> string \<Rightarrow> addr
    \<Rightarrow> string \<Rightarrow> (int \<times> int) list \<Rightarrow> 'r step" where
  "cmd_listen regcomp regexec es i line pm =
     with_tag i line pm (\<lambda>tag sv.
     cbind (submatch2 line pm 4 3 sv) (\<lambda>(_, buf, sv1).
     case buf of None \<Rightarrow> failed es i tag sv1 | Some pat \<Rightarrow>
     cbind (submatch line pm 5 sv1) (\<lambda>(_, t, sv2).
     let (lp, sv3) = new_str t sv2 in
     cbind (find_na i lp sv3) (\<lambda>found.
     cbind (case found of Some a \<Rightarrow> Inr (Some a, sv3) | None \<Rightarrow> add_na i lp sv3) (\<lambda>(na, sv4).
     case na of None \<Rightarrow> failed es i tag sv4 | Some a \<Rightarrow> listen_with regcomp regexec es i tag pat lp a sv4)))))"

text \<open>The pending notifications of one identifier are removed by a post-order walk.\<close>

definition remove_pending_id :: "string heap \<Rightarrow> string \<Rightarrow> ipm tree \<Rightarrow> ipm tree cres" where
  "remove_pending_id h lp t =
     (if \<exists>x \<in> set (postorder t). h (ipm_id x) = None then Inl Bad_Pointer
      else Inr (tr_prune (\<lambda>x. strcmp lp (the (h (ipm_id x))) \<noteq> 0) t))"

definition remove_listeners :: "int list \<Rightarrow> ('r, addr) pdict \<Rightarrow> ('r, addr) pdict" where
  "remove_listeners ks pd = fold (\<lambda>k pd. snd (pdict_remove_persistent_change_listener k pd)) ks pd"

definition cmd_ignore :: "string \<Rightarrow> addr \<Rightarrow> string \<Rightarrow> (int \<times> int) list \<Rightarrow> 'r step" where
  "cmd_ignore es i line pm =
     with_tag i line pm (\<lambda>tag sv.
     cbind (submatch line pm 2 sv) (\<lambda>(_, t, sv1).
     case t of None \<Rightarrow> failed es i tag sv1 | Some _ \<Rightarrow>
     let (lp, sv2) = new_str t sv1 in
     cbind (remove_na i lp sv2) (\<lambda>(found, sv3).
     case found of
       None \<Rightarrow> reply i tag ''306 nonexistent key/id'' sv3
     | Some a \<Rightarrow>
         cbind (deref (nas (sv_srv sv3)) a) (\<lambda>n.
         cbind (deref (ids (sv_srv sv3)) (na_listenid n)) (\<lambda>x.
         cbind (deref (sessions (sv_srv sv3)) i) (\<lambda>p.
         cbind (remove_pending_id (ids (sv_srv sv3)) x (pdss_pending p)) (\<lambda>t'.
         cbind (free_na a (sv3\<lparr> sv_pd := remove_listeners (na_pd_ids n) (sv_pd sv3),
                                 sv_srv := put_session i (p\<lparr> pdss_pending := t' \<rparr>) (sv_srv sv3) \<rparr>)) (\<lambda>sv4.
         cbind (find_na i lp sv4) (\<lambda>still.
         if still \<noteq> None then Inl Assert_Failed else
         cbind (reply i tag (''200 '' @ dec_int (int (length (na_pd_ids n))) @ '' listener''
                  @ (if length (na_pd_ids n) > 1 then ''s'' else '''') @ '' ignored'') sv4) (\<lambda>sv5.
         cbind (free_str lp (sv_srv sv5)) (\<lambda>s. Inr (sv5\<lparr> sv_srv := s \<rparr>))))))))))))"

section \<open>Reporting, waiting, flushing\<close>

definition cmd_report :: "string \<Rightarrow> addr \<Rightarrow> string \<Rightarrow> (int \<times> int) list \<Rightarrow> 'r step" where
  "cmd_report es i line pm =
     with_tag i line pm (\<lambda>tag sv.
     cbind (submatch line pm 2 sv) (\<lambda>(_, buf, sv1).
     case buf of None \<Rightarrow> failed es i tag sv1 | Some b \<Rightarrow>
     if atoi b < 0 \<or> 10000 < atoi b
     then reply i tag ''301 invalid report/wait period--specify milliseconds or 0 for off (max 10s)'' sv1
     else cbind (submatch line pm 3 sv1) (\<lambda>(_, rtag, sv2).
          on_env (set_report_period i tag rtag (atoi b)) sv2)))"

definition cmd_wait :: "string \<Rightarrow> addr \<Rightarrow> string \<Rightarrow> (int \<times> int) list \<Rightarrow> 'r step" where
  "cmd_wait es i line pm =
     with_tag i line pm (\<lambda>tag sv.
     cbind (submatch line pm 2 sv) (\<lambda>(_, buf, sv1).
     case buf of None \<Rightarrow> failed es i tag sv1 | Some b \<Rightarrow>
     if atoi b < 0 \<or> 10000 < atoi b
     then reply i tag ''301 invalid wait period--specify milliseconds (max 10s)'' sv1
     else reply i tag (''200 nothin' doin'' @ [CHR 0x27]) sv1))"

text \<open>\<open>_flush\<close>: \<open>wakes\<close> is what happens during the coming waits on the condition variable.\<close>

fun flush_loop :: "addr \<Rightarrow> 32 word \<Rightarrow> 'r step list \<Rightarrow> 'r server \<Rightarrow> 'r server run" where
  "flush_loop i nreport [] sv =
     (case deref (sessions (sv_srv sv)) i of
        Inl e \<Rightarrow> Some (Inl e)
      | Inr p \<Rightarrow> if pdss_report_thread p \<and> pdss_pending p \<noteq> Leaf \<and> nreport = pdss_nreport p then None else Some (Inr sv))"
| "flush_loop i nreport (w # ws) sv =
     (case deref (sessions (sv_srv sv)) i of
        Inl e \<Rightarrow> Some (Inl e)
      | Inr p \<Rightarrow> if pdss_report_thread p \<and> pdss_pending p \<noteq> Leaf \<and> nreport = pdss_nreport p
                 then obind (Some (w sv)) (flush_loop i nreport ws) else Some (Inr sv))"

definition pds_session_flush :: "addr \<Rightarrow> 'r step list \<Rightarrow> 'r server \<Rightarrow> 'r server run" where
  "pds_session_flush i wakes sv =
     (case deref (sessions (sv_srv sv)) i of
        Inl e \<Rightarrow> Some (Inl e)
      | Inr p \<Rightarrow> flush_loop i (pdss_nreport p) wakes sv)"

definition cmd_flush :: "addr \<Rightarrow> string \<Rightarrow> (int \<times> int) list \<Rightarrow> 'r step list \<Rightarrow> 'r server \<Rightarrow> 'r server run" where
  "cmd_flush i line pm wakes sv =
     (case submatch line pm 1 sv of
        Inl e \<Rightarrow> Some (Inl e)
      | Inr (_, tag, sv1) \<Rightarrow>
          if tag \<noteq> None \<and> strcmp (the tag) ''unknown'' = 0
          then Some (reply i tag ''304 unknown is a reserved command tag'' sv1)
          else obind (pds_session_flush i wakes sv1) (\<lambda>sv2. Some (reply i tag ''200 glug glug'' sv2)))"

section \<open>Getting and removing\<close>

definition add_to_wa_list :: "('r \<Rightarrow> string \<Rightarrow> rx_result) \<Rightarrow> 'r \<Rightarrow> string \<Rightarrow> string
    \<Rightarrow> memory \<times> (string \<times> string) list \<Rightarrow> bool \<times> memory \<times> (string \<times> string) list" where
  "add_to_wa_list regexec r k v st =
     (if regexec r k = RX_MATCH
      then let (got, mem) = alloc (fst st) in (got, mem, if got then snd st @ [(k, v)] else snd st)
      else (True, st))"

definition print_wa_list :: "addr \<Rightarrow> string option \<Rightarrow> string \<times> string \<Rightarrow> 'r step" where
  "print_wa_list i tag kv = reply i tag (''200-key '' @ fst kv @ '' value '' @ snd kv)"

text \<open>The removal is written as an \<open>assert\<close>, which is compiled in by default.\<close>

definition remove_wa_list :: "string \<times> string \<Rightarrow> 'r step" where
  "remove_wa_list kv sv =
     (let (res, ov, pd, env) = pdict_ent_remove notify_cb (fst kv) (sv_pd sv) (env_of sv) in
      cbind (after_dict sv pd env) (\<lambda>sv1. if \<not> res \<or> ov = None then Inl Assert_Failed else Inr sv1))"

definition cmd_walk :: "(string \<Rightarrow> 'r option) \<Rightarrow> ('r \<Rightarrow> string \<Rightarrow> rx_result) \<Rightarrow> string \<Rightarrow> addr
    \<Rightarrow> string \<Rightarrow> (int \<times> int) list \<Rightarrow> 'r step" where
  "cmd_walk regcomp regexec es i line pm =
     with_tag i line pm (\<lambda>tag sv.
     cbind (submatch line pm 2 sv) (\<lambda>(_, cmd, sv1).
     case cmd of None \<Rightarrow> failed es i tag sv1 | Some cmdstr \<Rightarrow>
     cbind (submatch line pm 3 sv1) (\<lambda>(_, buf, sv2).
     case buf of None \<Rightarrow> failed es i tag sv2 | Some pat \<Rightarrow>
     case regcomp pat of None \<Rightarrow> reply i tag ''305 expression error'' sv2 | Some r \<Rightarrow>
     let (res, mem, wa_l) = pdict_walk (add_to_wa_list regexec r) (pd_ents (sv_pd sv2)) (sv_mem sv2, []);
         sv3 = sv2\<lparr> sv_mem := mem \<rparr>
     in if \<not> res then reply i tag (''300 temporary failure: '' @ es) sv3
        else cbind (each (if strcmp cmdstr ''remove'' = 0 then remove_wa_list else print_wa_list i tag) wa_l sv3)
               (reply i tag ''200 done''))))"

section \<open>A line\<close>

definition cmd_quit :: "addr \<Rightarrow> string \<Rightarrow> (int \<times> int) list \<Rightarrow> 'r step" where
  "cmd_quit i line pm sv =
     cbind (submatch line pm 1 sv) (\<lambda>(_, tag, sv1).
     cbind (reply i tag ''200 goodbye'' sv1) (\<lambda>sv2.
     with_session i (\<lambda>p. p\<lparr> pdss_should_close := True, pdss_closed := True \<rparr>) sv2))"

definition cmd_getid :: "addr \<Rightarrow> string \<Rightarrow> (int \<times> int) list \<Rightarrow> 'r step" where
  "cmd_getid i line pm sv =
     cbind (submatch line pm 1 sv) (\<lambda>(_, tag, sv1).
     cbind (deref (sessions (sv_srv sv1)) i) (\<lambda>p. reply i tag (''200 '' @ dec_int (pdss_id p)) sv1))"

fun first_match :: "(command \<Rightarrow> string \<Rightarrow> (int \<times> int) list option) \<Rightarrow> command list \<Rightarrow> string
    \<Rightarrow> (command \<times> (int \<times> int) list) option" where
  "first_match matches [] line = None"
| "first_match matches (c # cs) line =
     (case matches c line of Some pm \<Rightarrow> Some (c, pm) | None \<Rightarrow> first_match matches cs line)"

definition pds_process_line :: "(command \<Rightarrow> string \<Rightarrow> (int \<times> int) list option) \<Rightarrow> (string \<Rightarrow> 'r option)
    \<Rightarrow> ('r \<Rightarrow> string \<Rightarrow> rx_result) \<Rightarrow> string \<Rightarrow> addr \<Rightarrow> 'r step list \<Rightarrow> string \<Rightarrow> 'r server \<Rightarrow> 'r server run" where
  "pds_process_line matches regcomp regexec es i wakes line sv =
     (case first_match matches [SET, LISTEN, REPORT, WAIT, FLUSH, WALK, IGNORE, QUIT, GETID, REPORT_ACK] line of
        None \<Rightarrow> Some (reply i None (''400 input unrecognized: '' @ line) sv)
      | Some (SET, pm) \<Rightarrow> Some (cmd_set regexec es i line pm sv)
      | Some (LISTEN, pm) \<Rightarrow> Some (cmd_listen regcomp regexec es i line pm sv)
      | Some (REPORT, pm) \<Rightarrow> Some (cmd_report es i line pm sv)
      | Some (WAIT, pm) \<Rightarrow> Some (cmd_wait es i line pm sv)
      | Some (FLUSH, pm) \<Rightarrow> cmd_flush i line pm wakes sv
      | Some (WALK, pm) \<Rightarrow> Some (cmd_walk regcomp regexec es i line pm sv)
      | Some (IGNORE, pm) \<Rightarrow> Some (cmd_ignore es i line pm sv)
      | Some (QUIT, pm) \<Rightarrow> Some (cmd_quit i line pm sv)
      | Some (GETID, pm) \<Rightarrow> Some (cmd_getid i line pm sv)
      | Some (REPORT_ACK, pm) \<Rightarrow> Some (Inr sv))"

section \<open>A session\<close>

definition pds_session_alloc :: "'r server \<Rightarrow> (addr \<times> 'r server)" where
  "pds_session_alloc sv =
     (let (got, sv1) = malloc sv; s = sv_srv sv1 in
      if \<not> got then (NULL, sv1)
      else (brk s, sv1\<lparr> sv_srv := put_session (brk s)
             \<lparr> pdss_id = next_id s, pdss_write = True, pdss_pending = Leaf, pdss_notify_args = Leaf,
               pdss_report_period = 0, pdss_report_cmdtag = None, pdss_report_thread = False,
               report_live = None, pdss_nreport = 0, pdss_should_close = False, pdss_expire = [],
               pdss_client_cr_null = False, pdss_closed = False, sent = [], writes = [] \<rparr>
             (s\<lparr> brk := brk s + 1, next_id := next_id s + 1 \<rparr>) \<rparr>))"

definition expired_key_cb :: "string \<Rightarrow> 'r step" where
  "expired_key_cb k sv =
     (let (_, _, pd, env) = pdict_ent_remove notify_cb k (sv_pd sv) (env_of sv) in after_dict sv pd env)"

definition free_na_cb :: "addr \<Rightarrow> 'r step" where
  "free_na_cb a sv =
     cbind (deref (nas (sv_srv sv)) a) (\<lambda>n.
     free_na a (sv\<lparr> sv_pd := remove_listeners (na_pd_ids n) (sv_pd sv) \<rparr>))"

text \<open>
  The end of \<open>pds_session_serve\<close>: joining the report thread is its last round, which it
  leaves because the session is to be closed.
\<close>

definition session_end :: "addr \<Rightarrow> 'r step" where
  "session_end i sv =
     cbind (with_session i (\<lambda>p. p\<lparr> pdss_should_close := True \<rparr>) sv) (\<lambda>sv1.
     cbind (on_env (report_round i) sv1) (\<lambda>sv2.
     cbind (deref (sessions (sv_srv sv2)) i) (\<lambda>p2.
     cbind (each expired_key_cb (pdss_expire p2) sv2) (\<lambda>sv3.
     cbind (with_session i (\<lambda>p. p\<lparr> pdss_expire := [], pdss_write := False \<rparr>) sv3) (\<lambda>sv4.
     cbind (on_env (send_pending i) sv4) (\<lambda>sv5.
     cbind (deref (sessions (sv_srv sv5)) i) (\<lambda>p5.
     cbind (each free_na_cb (postorder (pdss_notify_args p5)) sv5) (\<lambda>sv6.
     cbind (with_session i (\<lambda>p. p\<lparr> pdss_notify_args := tr_prune (\<lambda>_. False) (pdss_notify_args p), pdss_closed := True \<rparr>) sv6) (\<lambda>sv7.
     cbind (release (sessions (sv_srv sv7)) i) (\<lambda>h.
     Inr (sv7\<lparr> sv_srv := (sv_srv sv7)\<lparr> sessions := h \<rparr> \<rparr>)))))))))))"

text \<open>The lines are those \<open>pd_getline\<close> delivers; a line that comes after \<open>should_close\<close> is dropped.\<close>

fun serve_lines :: "(addr \<Rightarrow> string \<Rightarrow> 'r server \<Rightarrow> 'r server run) \<Rightarrow> addr \<Rightarrow> string list \<Rightarrow> 'r server \<Rightarrow> 'r server run" where
  "serve_lines process i [] sv = Some (Inr sv)"
| "serve_lines process i (line # rest) sv =
     obind (Some (deref (sessions (sv_srv sv)) i)) (\<lambda>p.
     if pdss_should_close p then Some (Inr sv) else obind (process i line sv) (serve_lines process i rest))"

text \<open>\<open>auth\<close> is the result of the authentication callback: whether it failed.\<close>

definition pds_session_serve :: "(addr \<Rightarrow> string \<Rightarrow> 'r server \<Rightarrow> 'r server run) \<Rightarrow> bool \<Rightarrow> addr \<Rightarrow> string list
    \<Rightarrow> 'r server \<Rightarrow> 'r server run" where
  "pds_session_serve process auth i lines sv =
     obind (if auth then Some (Inr sv) else serve_lines process i lines sv) (\<lambda>sv'. Some (session_end i sv'))"

end
