(* ===== verification/ServerProps.thy ===== *)
theory ServerProps
  imports PDictSession
begin

text \<open>
  Properties of the dictionary server: the pending notifications of a session are a map
  from listen identifier and key to the latest value, a report writes each once and empties
  the map, and the ways a session gets stuck or the server aborts.
\<close>

section \<open>Search trees whose comparison may fault\<close>

text \<open>\<open>fc\<close> agrees with the comparison on the values of the tree, so it does not fault there.\<close>

lemma find_append: "find P (xs @ ys) = (case find P xs of None \<Rightarrow> find P ys | Some x \<Rightarrow> Some x)"
  by (induction xs) auto

context key_compare
begin

lemma tr_find_key:
  assumes "okv v" and "\<forall>x \<in> set (inorder t). okv x \<and> fc v x = Inr (cmp v x)" and "key_sorted key (inorder t)"
  shows "tr_find fc v t = Inr (find (\<lambda>x. key x = key v) (inorder t))"
  using assms(2,3)
proof (induction t)
  case (Node l x r)
  have x: "okv x" "fc v x = Inr (cmp v x)" using Node.prems(1) by auto
  have l: "tr_find fc v l = Inr (find (\<lambda>x. key x = key v) (inorder l))"
    and r: "tr_find fc v r = Inr (find (\<lambda>x. key x = key v) (inorder r))"
    using Node by auto
  have ord: "\<forall>y \<in> set (inorder l). key y < key x" "\<forall>y \<in> set (inorder r). key x < key y"
    using Node.prems(2) by auto
  have none: "find (\<lambda>y. key y = key v) ys = None" if "\<forall>y \<in> set ys. key y \<noteq> key v" for ys
    using that by (simp add: find_None_iff)
  consider "key v = key x" | "key v < key x" | "key x < key v" by (rule linorder_cases) auto
  then show ?case
  proof cases
    case 1
    then have "find (\<lambda>y. key y = key v) (inorder l) = None" using ord(1) by (intro none) auto
    with 1 x show ?thesis using cmp_zero [OF assms(1) x(1)] by (simp add: find_append)
  next
    case 2
    then have "find (\<lambda>y. key y = key v) (inorder r) = None" using ord(2) by (intro none) auto
    with 2 x l show ?thesis using cmp_zero [OF assms(1) x(1)] cmp_neg [OF assms(1) x(1)]
      by (auto simp: find_append split: option.split)
  next
    case 3
    then have "find (\<lambda>y. key y = key v) (inorder l) = None" using ord(1) by (intro none) auto
    with 3 x r show ?thesis using cmp_zero [OF assms(1) x(1)] cmp_neg [OF assms(1) x(1)]
      by (auto simp: find_append)
  qed
qed simp

lemma tr_put_key:
  assumes "okv v" and "\<forall>x \<in> set (inorder t). okv x \<and> fc v x = Inr (cmp v x)" and "key_sorted key (inorder t)"
  shows "\<exists>t'. tr_put fc v t = Inr t' \<and> key_sorted key (inorder t') \<and> t' \<noteq> Leaf
           \<and> set (inorder t') = insert v {x \<in> set (inorder t). key x \<noteq> key v}"
  using assms(2,3)
proof (induction t)
  case (Node l x r)
  have x: "okv x" "fc v x = Inr (cmp v x)" using Node.prems(1) by auto
  obtain l' where l: "tr_put fc v l = Inr l'" "key_sorted key (inorder l')"
      "set (inorder l') = insert v {x \<in> set (inorder l). key x \<noteq> key v}" using Node by auto
  obtain r' where r: "tr_put fc v r = Inr r'" "key_sorted key (inorder r')"
      "set (inorder r') = insert v {x \<in> set (inorder r). key x \<noteq> key v}" using Node by auto
  note z = cmp_zero [OF assms(1) x(1)] and n = cmp_neg [OF assms(1) x(1)]
  consider "key v = key x" | "key v < key x" | "key x < key v" by (rule linorder_cases) auto
  then show ?case
  proof cases
    case 1
    then show ?thesis using x z Node.prems(2) by force
  next
    case 2
    then show ?thesis using x z n l Node.prems(2) by force
  next
    case 3
    then show ?thesis using x z n r Node.prems(2) by (force dest: order_less_trans)
  qed
qed simp

end

section \<open>Pending notifications\<close>

definition ipm_ok :: "string heap \<Rightarrow> ipm \<Rightarrow> bool" where
  "ipm_ok h x \<longleftrightarrow> (\<exists>t. h (ipm_id x) = Some (CHR ''l'' # t) \<and> nul_free t) \<and> (\<exists>k. ipm_key x = Some k \<and> nul_free k)"

lemma ipm_okE:
  assumes "ipm_ok h x"
  obtains t k where "h (ipm_id x) = Some (CHR ''l'' # t)" and "nul_free t" and "ipm_key x = Some k" and "nul_free k"
  using assms by (auto simp: ipm_ok_def)

definition ipm_sort :: "string heap \<Rightarrow> ipm \<Rightarrow> string \<times> string" where
  "ipm_sort h x = (the (h (ipm_id x)), the (ipm_key x))"

definition ipm_order :: "string heap \<Rightarrow> ipm \<Rightarrow> ipm \<Rightarrow> int" where
  "ipm_order h x y =
     (if strcmp (fst (ipm_sort h x)) (fst (ipm_sort h y)) \<noteq> 0
      then strcmp (fst (ipm_sort h x)) (fst (ipm_sort h y))
      else strcmp (snd (ipm_sort h x)) (snd (ipm_sort h y)))"

interpretation pending: key_compare "ipm_order h" "ipm_sort h" "ipm_ok h" for h
proof
  fix x y :: ipm
  assume "ipm_ok h x" and "ipm_ok h y"
  then obtain t k u m where xy: "ipm_sort h x = (CHR ''l'' # t, k)" "ipm_sort h y = (CHR ''l'' # u, m)"
    and n: "nul_free (CHR ''l'' # t)" "nul_free k" "nul_free (CHR ''l'' # u)" "nul_free m"
    by (auto simp: ipm_ok_def ipm_sort_def)
  show "ipm_order h x y = 0 \<longleftrightarrow> ipm_sort h x = ipm_sort h y"
    using strcmp_zero [OF n(1,3)] strcmp_zero [OF n(2,4)] by (simp add: ipm_order_def xy)
  show "ipm_order h x y < 0 \<longleftrightarrow> ipm_sort h x < ipm_sort h y"
    using strcmp_zero [OF n(1,3)] strcmp_neg [OF n(1,3)] strcmp_neg [OF n(2,4)]
    unfolding ipm_order_def xy by (auto simp: less_prod_simp)
qed

lemma ipmcmp_total: "ipm_ok (ids s) x \<Longrightarrow> ipm_ok (ids s) y \<Longrightarrow> ipmcmp s x y = Inr (ipm_order (ids s) x y)"
  by (elim ipm_okE) (simp del: cbind_Inr add: ipmcmp_def ipm_order_def ipm_sort_def str_at_def str_arg_def mem_simps)

text \<open>What is pending: the latest value and reason for each listen identifier and key.\<close>

definition pend_ok :: "string heap \<Rightarrow> ipm tree \<Rightarrow> bool" where
  "pend_ok h t \<longleftrightarrow> (\<forall>x \<in> set (inorder t). ipm_ok h x \<and> ipm_val x \<noteq> None) \<and> key_sorted (ipm_sort h) (inorder t)"

definition pend_map :: "string heap \<Rightarrow> ipm tree \<Rightarrow> string \<times> string \<Rightarrow> (string option \<times> pdict_reason) option" where
  "pend_map h t ik =
     map_option (\<lambda>x. (ipm_val x, ipm_reason x)) (find (\<lambda>x. ipm_sort h x = ik) (inorder t))"

lemma find_in_sorted:
  assumes "key_sorted f xs" and "x \<in> set xs"
  shows "find (\<lambda>y. f y = f x) xs = Some x"
  using assms by (induction xs) auto

lemma pend_map_put:
  assumes "key_sorted (ipm_sort h) (inorder t)" and "key_sorted (ipm_sort h) (inorder t')"
    and "set (inorder t') = insert v {x \<in> set (inorder t). ipm_sort h x \<noteq> ipm_sort h v}"
  shows "pend_map h t' = (pend_map h t)(ipm_sort h v \<mapsto> (ipm_val v, ipm_reason v))"
proof
  fix ik
  show "pend_map h t' ik = ((pend_map h t)(ipm_sort h v \<mapsto> (ipm_val v, ipm_reason v))) ik"
  proof (cases "ik = ipm_sort h v")
    case True
    then show ?thesis using find_in_sorted [OF assms(2), of v] assms(3) by (simp add: pend_map_def)
  next
    case False
    have "find (\<lambda>x. ipm_sort h x = ik) (inorder t') = find (\<lambda>x. ipm_sort h x = ik) (inorder t)"
    proof (cases "\<exists>x \<in> set (inorder t). ipm_sort h x = ik")
      case True
      then obtain x where x: "x \<in> set (inorder t)" "ipm_sort h x = ik" by blast
      then have "x \<in> set (inorder t')" using assms(3) False by auto
      then show ?thesis using find_in_sorted [OF assms(1) x(1)] find_in_sorted [OF assms(2)] x(2) by metis
    next
      case none: False
      then have "\<forall>x \<in> set (inorder t'). ipm_sort h x \<noteq> ik" using assms(3) False by auto
      then have "find (\<lambda>x. ipm_sort h x = ik) (inorder t') = None" by (simp add: find_None_iff)
      moreover have "find (\<lambda>x. ipm_sort h x = ik) (inorder t) = None" using none by (simp add: find_None_iff)
      ultimately show ?thesis by simp
    qed
    with False show ?thesis by (simp add: pend_map_def)
  qed
qed

section \<open>Notifying\<close>

lemma pend_okD:
  assumes "pend_ok (ids s) t" and "ipm_ok (ids s) v"
  shows "\<forall>x \<in> set (inorder t). ipm_ok (ids s) x \<and> ipmcmp s v x = Inr (ipm_order (ids s) v x)"
    and "key_sorted (ipm_sort (ids s)) (inorder t)"
  using assms by (auto simp: pend_ok_def ipmcmp_total)

lemma pend_ok_put:
  assumes "pend_ok (ids s) t" and "ipm_ok (ids s) v" and "ipm_val v \<noteq> None"
  obtains t' where "tr_put (ipmcmp s) v t = Inr t'" and "pend_ok (ids s) t'"
    and "pend_map (ids s) t' = (pend_map (ids s) t)(ipm_sort (ids s) v \<mapsto> (ipm_val v, ipm_reason v))"
proof -
  from pending.tr_put_key [where fc = "ipmcmp s", OF assms(2) pend_okD [OF assms(1,2)]]
  obtain t' where t': "tr_put (ipmcmp s) v t = Inr t'" "key_sorted (ipm_sort (ids s)) (inorder t')"
      "set (inorder t') = insert v {x \<in> set (inorder t). ipm_sort (ids s) x \<noteq> ipm_sort (ids s) v}" by blast
  have "pend_ok (ids s) t'" using assms t'(2,3) by (auto simp: pend_ok_def)
  with t' pend_map_put [OF pend_okD(2) [OF assms(1,2)] t'(2,3)] show ?thesis using that by blast
qed

text \<open>
  C15: with memory available a notification always succeeds when the listen identifier starts
  with an l: afterwards the pair of identifier and key has exactly one pending notification,
  with the value and reason of this event, and all other pending notifications are
  unchanged.\<close>

theorem notify_coalesces:
  assumes "nas s a = Some na" and "sessions s (na_pdss na) = Some p"
    and "ids s (na_listenid na) = Some (CHR ''l'' # t)" and "nul_free t"
    and "ev_key ev = Some k" and "nul_free k" and "ev_val ev = Some v"
    and "pend_ok (ids s) (pdss_pending p)"
  shows "\<exists>q. notify a ev ([], s) = Inr ([], put_session (na_pdss na) (p\<lparr> pdss_pending := q \<rparr>) s)
           \<and> pend_ok (ids s) q
           \<and> pend_map (ids s) q = (pend_map (ids s) (pdss_pending p))((CHR ''l'' # t, k) \<mapsto> (Some v, ev_reason ev))"
proof -
  let ?h = "ids s" and ?t = "pdss_pending p"
  define cm where "cm = \<lparr> ipm_id = na_listenid na, ipm_key = Some k, ipm_val = None, ipm_reason = ev_reason ev \<rparr>"
  have cm: "ipm_ok ?h cm" using assms(3,4,6) by (simp add: ipm_ok_def cm_def)
  have key: "ipm_sort ?h cm = (CHR ''l'' # t, k)" using assms(3) by (simp add: ipm_sort_def cm_def)
  have found: "tr_find (ipmcmp s) cm ?t = Inr (find (\<lambda>x. ipm_sort ?h x = ipm_sort ?h cm) (inorder ?t))"
    by (rule pending.tr_find_key [where fc = "ipmcmp s", OF cm pend_okD [OF assms(8) cm]])
  note body = notify_def Let_def assms(1,2,5,7) strdup_def str_arg_def deref_live cm_def [symmetric]
  show ?thesis
  proof (cases "find (\<lambda>x. ipm_sort ?h x = ipm_sort ?h cm) (inorder ?t)")
    case (Some x)
    then have x: "x \<in> set (inorder ?t)" "ipm_sort ?h x = ipm_sort ?h cm"
      by (auto simp: find_Some_iff in_set_conv_nth simp del: set_inorder)
    let ?v = "x\<lparr> ipm_val := Some v, ipm_reason := ev_reason ev \<rparr>"
    have "ipm_ok ?h ?v" using assms(8) x(1) by (auto simp: pend_ok_def ipm_ok_def)
    then obtain q where "tr_put (ipmcmp s) ?v ?t = Inr q" "pend_ok ?h q"
        "pend_map ?h q = (pend_map ?h ?t)(ipm_sort ?h ?v \<mapsto> (Some v, ev_reason ev))"
      using pend_ok_put [OF assms(8), of ?v] by force
    moreover have "ipm_sort ?h ?v = (CHR ''l'' # t, k)" using x(2) key by (simp add: ipm_sort_def)
    ultimately show ?thesis using found Some by (intro exI [of _ q]) (simp add: body)
  next
    case None
    let ?v = "cm\<lparr> ipm_val := Some v \<rparr>"
    have v: "ipm_ok ?h ?v" "ipm_sort ?h ?v = ipm_sort ?h cm" using cm by (simp_all add: ipm_ok_def ipm_sort_def)
    then obtain q where q: "tr_put (ipmcmp s) ?v ?t = Inr q" "pend_ok ?h q"
        "pend_map ?h q = (pend_map ?h ?t)(ipm_sort ?h ?v \<mapsto> (Some v, ipm_reason cm))"
      using pend_ok_put [OF assms(8), of ?v] by force
    have "tr_find (ipmcmp s) ?v ?t = Inr None"
      using pending.tr_find_key [where fc = "ipmcmp s", OF v(1) pend_okD [OF assms(8) v(1)]] None v(2) by simp
    moreover have "\<lparr> ipm_id = na_listenid na, ipm_key = Some k, ipm_val = Some v, ipm_reason = ev_reason ev \<rparr> = ?v"
      by (simp add: cm_def)
    moreover have "ipm_reason cm = ev_reason ev" by (simp add: cm_def)
    ultimately show ?thesis using found None q v(2) key by (intro exI [of _ q]) (simp del: cbind_Inr add: body tr_replace_def)
  qed
qed

text \<open>
  A listen identifier that does not start with an l is accepted when listening, but the
  server then aborts at a notification exactly when its session already has something
  pending.\<close>

theorem notify_abort:
  assumes "nas s a = Some na" and "sessions s (na_pdss na) = Some p"
    and "ids s (na_listenid na) = Some idt" and "take 1 idt \<noteq> ''l''"
    and "ev_key ev = Some k" and "ev_val ev = Some v"
  shows "notify a ev ([], s) =
    (if pdss_pending p = Leaf
     then Inr ([], put_session (na_pdss na) (p\<lparr> pdss_pending := Node Leaf
            \<lparr> ipm_id = na_listenid na, ipm_key = Some k, ipm_val = Some v, ipm_reason = ev_reason ev \<rparr> Leaf \<rparr>) s)
     else Inl Assert_Failed)"
proof -
  have c: "ipmcmp s x y = Inl Assert_Failed" if "ipm_id x = na_listenid na" for x y
    using assms(3,4) that by (cases idt) (auto simp: ipmcmp_def str_at_def mem_simps)
  show ?thesis
    using assms(5,6) by (cases "pdss_pending p")
      (simp_all add: notify_def assms(1,2) deref_live c strdup_def str_arg_def tr_replace_def Let_def)
qed

section \<open>Reporting\<close>

definition pending_line :: "string heap \<Rightarrow> session \<Rightarrow> ipm \<Rightarrow> string" where
  "pending_line h p x =
     tagged (pdss_report_cmdtag p)
       (''200-'' @ the (h (ipm_id x)) @ '' is pending, key '' @ the (ipm_key x) @ '' latest value ''
        @ [CHR 0x22] @ the (ipm_val x) @ [CHR 0x22] @ '' ('' @ pdict_reason_str (ipm_reason x) @ '')'' @ [newline])
     @ (if pdss_client_cr_null p then [NUL] else [])"

text \<open>The reply line of a tag and a text.\<close>

definition reply_line :: "session \<Rightarrow> string option \<Rightarrow> string \<Rightarrow> string" where
  "reply_line p tag text = tagged tag (text @ [if pdss_client_cr_null p then NUL else newline])"

lemma alloc_split: "alloc ws = (ws = [] \<or> hd ws, tl ws)"
  by (cases ws) auto

lemma report_tag_mem: "report_tag old t [] = (fst (report_tag old t []), [])"
  by (auto simp: report_tag_def split: option.split)

lemma write_pending_all:
  assumes "pdss_write p" and "\<forall>x \<in> set xs. h (ipm_id x) \<noteq> None \<and> ipm_key x \<noteq> None \<and> ipm_val x \<noteq> None"
  shows "each (write_pending h) xs ([], p) =
    Inr ([], p\<lparr> sent := sent p @ map (pending_line h p) xs, writes := drop (length xs) (writes p) \<rparr>)"
  using assms
proof (induction xs arbitrary: p)
  case (Cons x xs)
  let ?p = "p\<lparr> sent := sent p @ [pending_line h p x], writes := tl (writes p) \<rparr>"
  have "write_pending h x ([], p) = Inr ([], ?p)"
    using Cons.prems by (auto simp: write_pending_def call_write_def alloc_split pending_line_def str_arg_def mem_simps Let_def)
  moreover have "pending_line h ?p = pending_line h p" by (rule ext) (simp add: pending_line_def)
  ultimately show ?case using Cons.IH [of ?p] Cons.prems by (simp add: drop_Suc)
qed simp

lemma result_live:
  assumes "sessions s i = Some p" and "pdss_write p"
  shows "result i tag text ([], s) =
    Inr ([], put_session i (p\<lparr> sent := sent p @ [reply_line p tag text], writes := tl (writes p),
      pdss_should_close := (pdss_should_close p \<or> \<not> (writes p = [] \<or> hd (writes p))) \<rparr>) s)"
  using assms by (auto simp: result_def Let_def mem_simps call_write_def alloc_split reply_line_def)

lemma put_session_simps [simp]:
  "sessions (put_session i p s) i = Some p" "ids (put_session i p s) = ids s" "nas (put_session i p s) = nas s"
  "put_session i p (put_session i q s) = put_session i p s"
  by (simp_all add: put_session_def)

lemma put_session_same: "sessions s i = Some p \<Longrightarrow> put_session i p s = s"
  by (simp add: put_session_def fun_upd_idem)

text \<open>
  One round of the report thread of a session with something pending writes the header,
  one line for every pending notification in post-order, and the footer, empties the
  pending notifications and counts the report; it stops exactly when the session is to be
  closed or when the header or the footer could not be written.\<close>

theorem report_round_reports:
  assumes "sessions s i = Some p" and "report_live p = Some old" and "pdss_report_period p \<noteq> 0"
    and "pdss_pending p \<noteq> Leaf" and "pdss_write p" and "pend_ok (ids s) (pdss_pending p)"
  defines "tag \<equiv> fst (report_tag old (pdss_report_cmdtag p) [])"
    and "xs \<equiv> postorder (pdss_pending p)" and "acks \<equiv> \<lambda>k. length (writes p) \<le> k \<or> writes p ! k"
  shows "\<exists>p'. report_round i ([], s) = Inr ([], put_session i p' s)
           \<and> sent p' = sent p @ [reply_line p tag ''200-periodic report follows:'']
               @ map (pending_line (ids s) p) xs @ [reply_line p tag ''200-that's all for now'']
           \<and> pdss_pending p' = Leaf \<and> pdss_nreport p' = pdss_nreport p + 1
           \<and> (report_live p' = None \<longleftrightarrow> pdss_should_close p \<or> \<not> acks 0 \<or> \<not> acks (length xs + 1))"
proof -
  have mem: "report_tag old (pdss_report_cmdtag p) [] = (tag, [])"
    unfolding tag_def by (rule report_tag_mem)
  have xs: "\<forall>x \<in> set xs. ids s (ipm_id x) \<noteq> None \<and> ipm_key x \<noteq> None \<and> ipm_val x \<noteq> None"
    using assms(6) unfolding xs_def by (auto simp: pend_ok_def ipm_ok_def set_inorder set_postorder)
  define p1 where "p1 = p\<lparr> report_live := Some tag, sent := sent p @ [reply_line p tag ''200-periodic report follows:''],
      writes := tl (writes p), pdss_should_close := (pdss_should_close p \<or> \<not> (writes p = [] \<or> hd (writes p))) \<rparr>"
  define p2 where "p2 = p1\<lparr> sent := sent p1 @ map (pending_line (ids s) p1) xs, writes := drop (length xs) (writes p1),
      pdss_pending := Leaf \<rparr>"
  define p3 where "p3 = p2\<lparr> sent := sent p2 @ [reply_line p2 tag ''200-that's all for now''],
      writes := tl (writes p2), pdss_should_close := (pdss_should_close p2 \<or> \<not> (writes p2 = [] \<or> hd (writes p2))) \<rparr>"
  define p4 where "p4 = p3\<lparr> pdss_nreport := pdss_nreport p3 + 1 \<rparr>"
  define p5 where "p5 = (if pdss_should_close p3 then p4\<lparr> pdss_report_cmdtag := None, report_live := None \<rparr> else p4)"
  have r1: "result i tag ''200-periodic report follows:'' ([], put_session i (p\<lparr> report_live := Some tag \<rparr>) s)
      = Inr ([], put_session i p1 s)"
    using assms(5) by (subst result_live [where p = "p\<lparr> report_live := Some tag \<rparr>"]) (simp_all add: p1_def reply_line_def)
  have "pdss_write p1" "pdss_pending p1 = pdss_pending p" using assms(5) by (simp_all add: p1_def)
  then have r2: "send_pending i ([], put_session i p1 s) = Inr ([], put_session i p2 s)"
    using write_pending_all [OF _ xs, of p1]
    by (simp del: cbind_Inr add: send_pending_def walk_pending_def mem_simps p2_def flip: xs_def)
  have r3: "result i tag ''200-that's all for now'' ([], put_session i p2 s) = Inr ([], put_session i p3 s)"
    using assms(5) by (subst result_live [where p = p2]) (simp_all add: p3_def p2_def p1_def)
  have "report_round i ([], s) = Inr ([], put_session i p5 s)"
    using assms(1-4) r1 r2 r3 by (simp del: cbind_Inr add: report_round_def mem mem_simps report_exit_def p5_def p4_def)
  moreover have "sent p5 = sent p @ [reply_line p tag ''200-periodic report follows:'']
      @ map (pending_line (ids s) p) xs @ [reply_line p tag ''200-that's all for now'']"
    by (simp add: p5_def p4_def p3_def p2_def p1_def reply_line_def pending_line_def cong: map_cong)
  moreover have "writes p2 = drop (Suc (length xs)) (writes p)"
    by (simp add: p2_def p1_def drop_Suc)
  then have "pdss_should_close p3 \<longleftrightarrow> pdss_should_close p \<or> \<not> acks 0 \<or> \<not> acks (length xs + 1)"
    by (cases "writes p") (auto simp: p3_def p2_def p1_def acks_def hd_drop_conv_nth)
  ultimately show ?thesis by (intro exI [of _ p5]) (simp add: p5_def p4_def p3_def p2_def p1_def)
qed

section \<open>Reports that are switched off\<close>

lemma flush_blocks:
  assumes "sessions (sv_srv sv) i = Some p" and "report_live p = None" and "pdss_report_thread p"
    and "pdss_pending p \<noteq> Leaf"
  shows "flush_loop i (pdss_nreport p) (replicate m (on_env (report_round i))) sv = None"
proof (induction m)
  case (Suc m)
  have "on_env (report_round i) sv = Inr sv"
    using assms(1,2) by (simp del: cbind_Inr add: on_env_def report_round_def env_of_def set_env_def mem_simps)
  with Suc assms show ?case by (simp add: mem_simps)
qed (use assms in \<open>simp add: mem_simps\<close>)

text \<open>
  Once the report thread has seen the period 0 it is gone for good: setting a period again
  is confirmed to the client but starts no thread, because the old handle is still there,
  and while something is pending a flush then waits without end, whatever number of times
  the thread would be given the processor.\<close>

theorem reports_never_restart:
  assumes "sessions (sv_srv sv) i = Some p" and "sv_mem sv = []" and "report_live p = Some old"
    and "pdss_report_period p = 0" and "pdss_report_thread p" and "pdss_write p" and "period \<noteq> 0"
    and "pdss_pending p \<noteq> Leaf"
  shows "\<exists>sv1 sv2 p2. on_env (report_round i) sv = Inr sv1
           \<and> on_env (set_report_period i tag rtag period) sv1 = Inr sv2
           \<and> sessions (sv_srv sv2) i = Some p2
           \<and> sent p2 = sent p @ [reply_line p tag (''200 inter-report period adjusted to '' @ dec_int period @ ''ms'')]
           \<and> pdss_report_period p2 = period \<and> report_live p2 = None
           \<and> (\<forall>m. pds_session_flush i (replicate m (on_env (report_round i))) sv2 = None)"
proof -
  define s where "s = sv_srv sv"
  have s: "sessions s i = Some p" using assms(1) by (simp add: s_def)
  define p1 where "p1 = p\<lparr> pdss_report_cmdtag := None, report_live := None \<rparr>"
  define q where "q = p1\<lparr> pdss_report_period := period, pdss_report_cmdtag := rtag \<rparr>"
  define msg where "msg = ''200 inter-report period adjusted to '' @ dec_int period @ ''ms''"
  define p2 where "p2 = q\<lparr> sent := sent q @ [reply_line q tag msg],
      writes := tl (writes q), pdss_should_close := (pdss_should_close q \<or> \<not> (writes q = [] \<or> hd (writes q))) \<rparr>"
  define sv1 where "sv1 = set_env sv ([], put_session i p1 s)"
  define sv2 where "sv2 = set_env sv ([], put_session i p2 s)"
  define tg where "tg = fst (report_tag old (pdss_report_cmdtag p) [])"
  note mem = report_tag_mem [of old "pdss_report_cmdtag p", folded tg_def]
  have "report_round i ([], s) = Inr ([], put_session i p1 s)"
    using s assms(3,4) by (simp del: cbind_Inr add: report_round_def report_exit_def mem_simps p1_def mem)
  then have r1: "on_env (report_round i) sv = Inr sv1"
    using assms(2) by (simp del: cbind_Inr add: on_env_def env_of_def sv1_def flip: s_def)
  have "result i tag msg ([], put_session i q s) = Inr ([], put_session i p2 s)"
    using assms(6) by (subst result_live [where p = q]) (simp_all add: p2_def q_def p1_def)
  then have "set_report_period i tag rtag period ([], put_session i p1 s) = Inr ([], put_session i p2 s)"
    using assms(5,7)
    by (cases rtag) (simp_all del: cbind_Inr add: set_report_period_def mem_simps Let_def q_def p1_def msg_def)
  then have r2: "on_env (set_report_period i tag rtag period) sv1 = Inr sv2"
    by (simp del: cbind_Inr add: on_env_def env_of_def sv1_def sv2_def set_env_def)
  have p2: "sessions (sv_srv sv2) i = Some p2" by (simp add: sv2_def set_env_def)
  have "pds_session_flush i (replicate m (on_env (report_round i))) sv2 = None" for m
    using flush_blocks [OF p2, of m] assms(5,8) by (simp add: pds_session_flush_def p2 mem_simps p2_def q_def p1_def)
  with r1 r2 p2 show ?thesis
    by (intro exI [of _ sv1] exI [of _ sv2] exI [of _ p2]) (simp add: p2_def q_def p1_def msg_def reply_line_def)
qed

section \<open>Concrete sessions\<close>

definition sample_session :: session where
  "sample_session =
     \<lparr> pdss_id = 1, pdss_write = True,
       pdss_pending = Node Leaf \<lparr> ipm_id = 2, ipm_key = Some ''a'', ipm_val = Some ''1'', ipm_reason = PDR_ENTRY_ADDED \<rparr> Leaf,
       pdss_notify_args = Node Leaf 3 Leaf, pdss_report_period = 8, pdss_report_cmdtag = None,
       pdss_report_thread = True, report_live = Some None, pdss_nreport = 0, pdss_should_close = False,
       pdss_expire = [], pdss_client_cr_null = False, pdss_closed = False, sent = [], writes = [] \<rparr>"

definition sample_srv :: "string \<Rightarrow> srv" where
  "sample_srv ident =
     \<lparr> sessions = [1 \<mapsto> sample_session], nas = [3 \<mapsto> \<lparr> na_pdss = 1, na_listenid = 2, na_pd_ids = [1] \<rparr>],
       ids = [2 \<mapsto> ident], brk = 4, next_id = 2, srv_fault = None \<rparr>"

definition sample_event :: event where
  "sample_event = \<lparr> ev_key = Some ''a'', ev_val = Some ''2'', ev_reason = PDR_VALUE_CHANGED, ev_oldval = None \<rparr>"

lemma sample_pend_ok: "pend_ok (ids (sample_srv ''l1'')) (pdss_pending sample_session)"
  by (simp add: pend_ok_def ipm_ok_def sample_srv_def sample_session_def)

theorem notify_coalesces_witness:
  "\<exists>q. notify 3 sample_event ([], sample_srv ''l1'') =
         Inr ([], put_session 1 (sample_session\<lparr> pdss_pending := q \<rparr>) (sample_srv ''l1''))
     \<and> pend_map (ids (sample_srv ''l1'')) q (''l1'', ''a'') = Some (Some ''2'', PDR_VALUE_CHANGED)"
  using notify_coalesces [of "sample_srv ''l1''" 3 "\<lparr> na_pdss = 1, na_listenid = 2, na_pd_ids = [1] \<rparr>" sample_session
      "''1''" sample_event "''a''" "''2''"] sample_pend_ok
  by (auto simp: sample_srv_def sample_event_def)

theorem notify_abort_witness: "notify 3 sample_event ([], sample_srv ''x'') = Inl Assert_Failed"
  by (subst notify_abort [of "sample_srv ''x''" 3 "\<lparr> na_pdss = 1, na_listenid = 2, na_pd_ids = [1] \<rparr>" sample_session
        "''x''" sample_event "''a''" "''2''"])
    (simp_all add: sample_srv_def sample_event_def sample_session_def)

theorem report_round_reports_witness:
  "\<exists>p'. report_round 1 ([], sample_srv ''l1'') = Inr ([], put_session 1 p' (sample_srv ''l1''))
     \<and> sent p' = [''200-periodic report follows:'' @ [newline],
          ''200-l1 is pending, key a latest value '' @ [CHR 0x22] @ ''1'' @ [CHR 0x22] @ '' (added)'' @ [newline],
          ''200-that's all for now'' @ [newline]]"
proof -
  have "sessions (sample_srv ''l1'') 1 = Some sample_session" by (simp add: sample_srv_def)
  moreover have "report_live sample_session = Some None" "pdss_report_period sample_session \<noteq> 0"
    "pdss_pending sample_session \<noteq> Leaf" "pdss_write sample_session" by (simp_all add: sample_session_def)
  ultimately show ?thesis
    using report_round_reports [of "sample_srv ''l1''" 1 sample_session None] sample_pend_ok
    by (auto simp: sample_session_def report_tag_def reply_line_def pending_line_def tagged_def
        sample_srv_def)
qed

theorem reports_never_restart_witness:
  "\<exists>sv1 sv2 :: string server.
     on_env (report_round 1) \<lparr> sv_pd = \<lparr> pd_ents = [], pd_persistent_listeners = [], lid = 1 \<rparr>, sv_mem = [],
       sv_srv = put_session 1 (sample_session\<lparr> pdss_report_period := 0 \<rparr>) (sample_srv ''l1'') \<rparr> = Inr sv1
     \<and> on_env (set_report_period 1 None None 8) sv1 = Inr sv2
     \<and> pds_session_flush 1 (replicate 1000 (on_env (report_round 1))) sv2 = None"
  using reports_never_restart [of "\<lparr> sv_pd = \<lparr> pd_ents = [], pd_persistent_listeners = [], lid = 1 \<rparr>, sv_mem = [],
       sv_srv = put_session 1 (sample_session\<lparr> pdss_report_period := 0 \<rparr>) (sample_srv ''l1'') \<rparr> :: string server" 1
       "sample_session\<lparr> pdss_report_period := 0 \<rparr>" None 8 None None]
  by (auto simp: sample_session_def simp del: One_nat_def)

end
