(* ===== verification/UsbDevices.thy ===== *)
theory UsbDevices
  imports GPP
begin

text \<open>
  Finding and opening devices on the bus (\<open>linux/cusblinux-1.0.c\<close>). What libusb answers about
  a device is a record: the return codes of its calls (negative for a failure) and the
  strings and descriptors they yield. An interface that a handle of this process has
  claimed is in \<open>claims\<close>; claiming it again fails, as libusb documents. Detaching a kernel
  driver only writes log entries. \<open>from_utf16\<close> is the conversion of theory \<open>Label\<close>.
\<close>

record usb_device =
  d_path :: string
  d_desc_ret :: int
  d_vendor :: nat
  d_product :: nat
  d_bcd :: nat
  d_iSerial :: nat
  d_serial :: "int \<times> string"
  d_iProduct :: nat
  d_productstr :: "int \<times> string"
  d_open_ret :: int
  d_claim_ret :: int
  d_interfaces :: "(nat \<times> nat) list list option"
  d_report :: "8 word list option"
  d_label :: "int \<times> 8 word list"

type_synonym claims = "(string \<times> nat) set"

section \<open>Labels\<close>

text \<open>A label is read only from devices whose serial number is string 3.\<close>

definition getLabelString :: "(8 word list \<Rightarrow> string conversion) \<Rightarrow> usb_device \<Rightarrow> phidget \<Rightarrow> (ecode \<times> phidget) cres" where
  "getLabelString from_utf16 d p =
     (if d_desc_ret d \<noteq> 0 then Inr (EPHIDGET_UNEXPECTED, p)
      else if d_iSerial d = 3 then
        (if fst (d_label d) < 0 then Inr (EPHIDGET_OK, p\<lparr> ph_label := [] \<rparr>)
         else cbind (decodeLabelString from_utf16 (take 22 (snd (d_label d) @ replicate 22 0)) (serialNumber p))
                (\<lambda>(r, l). Inr (r, p\<lparr> ph_label := l \<rparr>)))
      else Inr (EPHIDGET_OK, p\<lparr> ph_label := [] \<rparr>))"

definition CUSBRefreshLabelString :: "(8 word list \<Rightarrow> string conversion) \<Rightarrow> usb_device \<Rightarrow> phidget \<Rightarrow> (ecode \<times> phidget) cres" where
  "CUSBRefreshLabelString = getLabelString"

text \<open>The first byte of the descriptor is its length; it is read before the handle is checked.\<close>

definition CUSBSetLabel :: "phidget option \<Rightarrow> 8 word list \<Rightarrow> usb \<Rightarrow> gpp_result run" where
  "CUSBSetLabel phid buffer u =
     (case phid of None \<Rightarrow> Some (Inl Bad_Pointer)
      | Some p \<Rightarrow>
          if deviceSupportsGeneralUSBProtocol p then CPhidgetGPP_setLabel phid buffer u
          else obind (Some (byte_at buffer 0)) (\<lambda>b.
            let size = unat b in
            if size > 22 then Some (Inr (EPHIDGET_INVALID, phid, u))
            else if \<not> flag_of p PHIDGET_ATTACHED_FLAG \<and> \<not> flag_of p PHIDGET_ATTACHING_FLAG
            then Some (Inr (EPHIDGET_NOTATTACHED, phid, u))
            else if deviceHandle p = None then Some (Inr (EPHIDGET_UNEXPECTED, phid, u))
            else if length buffer < size then Some (Inl Out_Of_Bounds)
            else case transfer_out (take size buffer) u of
                   (Write_Failed _, u') \<Rightarrow> Some (Inr (EPHIDGET_UNSUPPORTED, phid, u'))
                 | (Written n, u') \<Rightarrow>
                     Some (Inr (if n \<noteq> size then EPHIDGET_UNEXPECTED else EPHIDGET_OK, phid, u'))))"

section \<open>Capabilities\<close>

text \<open>
  The interface with the wanted number: the search through the settings of one interface
  stops at the first, the search through the interfaces goes on, so the last one counts.
\<close>

definition find_interface :: "nat \<Rightarrow> (nat \<times> nat) list list \<Rightarrow> nat option" where
  "find_interface iid ifs =
     fold (\<lambda>alts found. case find (\<lambda>a. fst a = iid) alts of None \<Rightarrow> found | Some a \<Rightarrow> Some (snd a)) ifs None"

text \<open>One position of the report descriptor: an input (0x81) or output (0x91) item after a report count (0x95).\<close>

definition scan_step :: "8 word list \<Rightarrow> nat \<Rightarrow> phidget \<Rightarrow> phidget" where
  "scan_step buf i p =
     (let p1 = (if buf ! i = 0x81 \<and> buf ! (i - 2) = 0x95 then p\<lparr> inputReportByteLength := unat (buf ! (i - 1)) \<rparr>
                else if buf ! i = 0x81 \<and> buf ! (i - 4) = 0x95 then p\<lparr> inputReportByteLength := unat (buf ! (i - 3)) \<rparr>
                else p)
      in if buf ! i = 0x91 \<and> buf ! (i - 2) = 0x95 then p1\<lparr> outputReportByteLength := unat (buf ! (i - 1)) \<rparr>
         else if buf ! i = 0x91 \<and> buf ! (i - 4) = 0x95 then p1\<lparr> outputReportByteLength := unat (buf ! (i - 3)) \<rparr>
         else p1)"

definition scan_report :: "8 word list \<Rightarrow> phidget \<Rightarrow> phidget" where
  "scan_report buf p = fold (scan_step buf) [10..<length buf] p"

definition CUSBGetDeviceCapabilities :: "(8 word list \<Rightarrow> string conversion) \<Rightarrow> usb_device \<Rightarrow> phidget \<Rightarrow> (ecode \<times> phidget) cres" where
  "CUSBGetDeviceCapabilities from_utf16 d p =
     (case d_interfaces d of None \<Rightarrow> Inr (EPHIDGET_UNEXPECTED, p)
      | Some ifs \<Rightarrow>
          (case find_interface (pdd_iid p) ifs of None \<Rightarrow> Inr (EPHIDGET_UNEXPECTED, p)
           | Some endpoints \<Rightarrow>
               let p1 = p\<lparr> interruptOutEndpoint := (endpoints = 2) \<rparr> in
               (case d_report d of None \<Rightarrow> Inr (EPHIDGET_UNEXPECTED, p1)
                | Some buf \<Rightarrow>
                    if length buf \<ge> 10 then getLabelString from_utf16 d (scan_report (take 255 buf) p1)
                    else Inr (EPHIDGET_UNEXPECTED, p1))))"

section \<open>Opening and closing\<close>

definition device_version :: "nat \<Rightarrow> int" where
  "device_version bcd = (if bcd < 0x100 then int bcd * 100 else int (bcd div 0x100) * 100 + int (bcd mod 0x100))"

text \<open>The fields a row of the device table and the descriptor set.\<close>

definition take_row :: "CPhidgetDeviceDef \<Rightarrow> usb_device \<Rightarrow> phidget \<Rightarrow> phidget" where
  "take_row row d p =
     (case row of (sdid, did, vid, pid, iid, at, name) \<Rightarrow>
        p\<lparr> deviceIDSpec := sdid, pdd_iid := iid, pdd_name := name, deviceType := Phid_DeviceName ! did,
           ProductID := d_product d, VendorID := d_vendor d, deviceVersion := device_version (d_bcd d),
           deviceUID := CPhidget_getUID sdid (device_version (d_bcd d)), attr := at \<rparr>)"

text \<open>
  What the search in the device table does with one device on the bus. \<open>Freed\<close>: when the
  product string cannot be read, the handle of the caller is freed.
\<close>

datatype found = Not_Here phidget | Freed | Opened phidget

definition serial_of :: "usb_device \<Rightarrow> int" where
  "serial_of d = (if d_iSerial d \<noteq> 0 then strtol (snd (d_serial d)) else -1)"

fun open_rows :: "(8 word list \<Rightarrow> string conversion) \<Rightarrow> claims \<Rightarrow> usb_device \<Rightarrow> CPhidgetDeviceDef list \<Rightarrow> phidget \<Rightarrow> found cres" where
  "open_rows from_utf16 claims d [] p = Inr (Not_Here p)"
| "open_rows from_utf16 claims d ((sdid, did, vid, pid, iid, at, name) # rows) p =
     (if did = deviceID p \<and> d_vendor d = vid \<and> d_product d = pid \<and> d_open_ret d = 0 then
        if d_iSerial d \<noteq> 0 \<and> fst (d_serial d) < 0 then Inr (Not_Here p)
        else if d_iProduct d \<noteq> 0 \<and> fst (d_productstr d) < 0 then Inr Freed
        else
          let p1 = (if d_iProduct d \<noteq> 0 then p\<lparr> usbProduct := snd (d_productstr d) \<rparr> else p) in
          if serial_of d = serialNumber p1 \<and> (d_path d, iid) \<notin> claims \<and> d_claim_ret d = 0 then
            cbind (CUSBGetDeviceCapabilities from_utf16 d
                     (take_row (sdid, did, vid, pid, iid, at, name) d (p1\<lparr> deviceHandle := Some (d_path d, iid) \<rparr>)))
              (\<lambda>(_, p2). Inr (Opened p2))
          else open_rows from_utf16 claims d rows p1
      else open_rows from_utf16 claims d rows p)"

text \<open>The first row of the table, the invalid device, is skipped.\<close>

fun open_devices :: "(8 word list \<Rightarrow> string conversion) \<Rightarrow> claims \<Rightarrow> usb_device list \<Rightarrow> phidget \<Rightarrow> (ecode \<times> phidget option) cres" where
  "open_devices from_utf16 claims [] p = Inr (EPHIDGET_NOTFOUND, Some p)"
| "open_devices from_utf16 claims (d # ds) p =
     (if d_desc_ret d \<noteq> 0 then open_devices from_utf16 claims ds p
      else cbind (open_rows from_utf16 claims d (tl Phid_Device_Def) p) (\<lambda>r.
        case r of
          Opened p' \<Rightarrow> Inr (EPHIDGET_OK, Some p')
        | Not_Here p' \<Rightarrow> open_devices from_utf16 claims ds p'
        | Freed \<Rightarrow> if \<exists>d' \<in> set ds. d_desc_ret d' = 0 then Inl Bad_Pointer else Inr (EPHIDGET_NOTFOUND, None)))"

text \<open>\<open>None\<close> for the bus: the list of devices cannot be had.\<close>

definition CUSBOpenHandle :: "(8 word list \<Rightarrow> string conversion) \<Rightarrow> usb_device list option \<Rightarrow> phidget \<Rightarrow> claims
    \<Rightarrow> (ecode \<times> phidget option \<times> claims) cres" where
  "CUSBOpenHandle from_utf16 bus p claims =
     (case bus of None \<Rightarrow> Inr (EPHIDGET_NOTFOUND, Some p, claims)
      | Some ds \<Rightarrow> cbind (open_devices from_utf16 claims ds p) (\<lambda>(r, phid).
          Inr (r, phid, if r = EPHIDGET_OK then insert (the (deviceHandle (the phid))) claims else claims)))"

text \<open>\<open>reset_ret\<close> is the result of resetting a device whose error flag is set.\<close>

definition CUSBCloseHandle :: "int \<Rightarrow> phidget option \<Rightarrow> claims \<Rightarrow> ecode \<times> phidget option \<times> claims" where
  "CUSBCloseHandle reset_ret phid claims =
     (case phid of None \<Rightarrow> (EPHIDGET_INVALIDARG, None, claims)
      | Some p0 \<Rightarrow>
          let p = clear_flag PHIDGET_ATTACHED_FLAG p0 in
          (case deviceHandle p of
             None \<Rightarrow> (EPHIDGET_NOTATTACHED, Some p, claims)
           | Some h \<Rightarrow>
               (if flag_of p PHIDGET_USB_ERROR_FLAG \<and> reset_ret \<noteq> 0 then EPHIDGET_UNEXPECTED else EPHIDGET_OK,
                Some (p\<lparr> deviceHandle := None \<rparr>), claims - {h})))"

end
