(* ===== verification/DeviceLife.thy ===== *)
theory DeviceLife
  imports UsbDevices CList
begin

text \<open>
  The life of a device handle: opening and closing (\<open>cphidget.c\<close>), the central thread
  (\<open>cthread.c\<close>), the enumeration of the bus (\<open>linux/cusblinux-1.0.c\<close>) and the device manager
  (\<open>cphidgetmanager.c\<close>).

  The handles are heap objects; \<open>ActiveDevices\<close> are the handles the user has opened,
  \<open>AttachedDevices\<close> the handles the library made for what is plugged in. The lists follow
  theory \<open>CList\<close>. Each operation runs while it holds its locks; user callbacks are logged as
  events and are assumed not to call the library. \<open>threads\<close> are the results of the coming
  thread creations. The device-specific parts of a handle are the parameter \<open>ops\<close>, the
  network part of closing is the parameter \<open>remote_close\<close>.
\<close>

section \<open>State\<close>

datatype CPhidgetManagerState = PHIDGETMANAGER_INACTIVE | PHIDGETMANAGER_ACTIVE | PHIDGETMANAGER_ACTIVATING

record manager =
  m_status :: "32 word"
  m_state :: CPhidgetManagerState
  m_attached :: "addr list"
  fptrAttachChange :: bool
  fptrDetachChange :: bool

datatype device_event =
    Attach_Event addr | Detach_Event addr | Error_Event addr
  | Manager_Attach addr addr | Manager_Detach addr addr

record world =
  phids :: "phidget heap"
  w_brk :: addr
  ActiveDevices :: "addr list"
  AttachedDevices :: "addr list"
  managers :: "manager heap"
  localPhidgetManagers :: "addr list"
  ActivePhidgetManagers :: int
  central :: bool
  bus :: "usb_device list option"
  claimed :: claims
  reset_ret :: int
  w_mem :: memory
  threads :: "bool list"
  events :: "device_event list"

text \<open>\<open>op_init\<close> is \<open>fptrInit\<close>: its code (\<open>None\<close> is \<open>EPHIDGET_BADVERSION\<close>) and the handle it leaves.\<close>

record device_ops =
  op_init :: "phidget \<Rightarrow> ecode \<times> phidget"
  op_close :: "phidget \<Rightarrow> phidget"

definition put_phid :: "addr \<Rightarrow> phidget \<Rightarrow> world \<Rightarrow> world" where
  "put_phid a p w = w\<lparr> phids := (phids w)(a \<mapsto> p) \<rparr>"

definition change :: "addr \<Rightarrow> (phidget \<Rightarrow> phidget) \<Rightarrow> world \<Rightarrow> world cres" where
  "change a f w = cbind (deref (phids w) a) (\<lambda>p. Inr (put_phid a (f p) w))"

definition log_event :: "device_event \<Rightarrow> world \<Rightarrow> world" where
  "log_event e w = w\<lparr> events := events w @ [e] \<rparr>"

definition start_thread :: "world \<Rightarrow> bool \<times> world" where
  "start_thread w = (let (got, ts) = alloc (threads w) in (got, w\<lparr> threads := ts \<rparr>))"

definition same_device :: "phidget \<Rightarrow> phidget \<Rightarrow> bool" where
  "same_device x y = CPhidget_areEqual (Some x) (Some y)"

definition same_exactly :: "phidget \<Rightarrow> phidget \<Rightarrow> bool" where
  "same_exactly x y = CPhidget_areExtraEqual (Some x) (Some y)"

section \<open>The central thread\<close>

definition StartCentralThread :: "world \<Rightarrow> ecode \<times> world" where
  "StartCentralThread w =
     (if central w then (EPHIDGET_OK, w)
      else let (got, w1) = start_thread w in
        if \<not> got then (EPHIDGET_UNEXPECTED, w1) else (EPHIDGET_OK, w1\<lparr> central := True \<rparr>))"

text \<open>The end of the central thread: the handles of the attached devices are freed.\<close>

definition central_exit :: "world \<Rightarrow> world cres" where
  "central_exit w =
     cbind (CList_emptyList True (phids w) (Some (AttachedDevices w))) (\<lambda>(_, xs, h).
     Inr (w\<lparr> AttachedDevices := the xs, phids := h, central := False \<rparr>))"

text \<open>Joining it waits for its end, which comes when there is nothing active.\<close>

definition JoinCentralThread :: "world \<Rightarrow> world cres" where
  "JoinCentralThread w = (if central w then central_exit w else Inr w)"

definition add_active :: "(phidget \<Rightarrow> phidget \<Rightarrow> bool) option \<Rightarrow> addr \<Rightarrow> world \<Rightarrow> (ecode \<times> world) cres" where
  "add_active cmp a w =
     cbind (case cmp of
              Some f \<Rightarrow> CList_addToList (w_mem w) f (phids w) (Some (ActiveDevices w)) a
            | None \<Rightarrow> CList_addToList (w_mem w) CPhidgetHandle_areEqual Some (Some (ActiveDevices w)) a)
       (\<lambda>(r, xs, mem). Inr (r, w\<lparr> ActiveDevices := the xs, w_mem := mem \<rparr>))"

definition RegisterLocalDevice :: "addr \<Rightarrow> world \<Rightarrow> (ecode \<times> world) cres" where
  "RegisterLocalDevice a w =
     cbind (deref (phids w) a) (\<lambda>p.
     cbind (add_active (if specificDevice p = PHIDGETOPEN_SERIAL \<or> specificDevice p = PHIDGETOPEN_LABEL
                        then Some same_device else None) a w) (\<lambda>(r, w1).
     if r \<noteq> EPHIDGET_OK then Inr (r, w1) else Inr (StartCentralThread w1)))"

section \<open>Opening and closing\<close>

text \<open>The handle counts as opened even when it could not be registered.\<close>

definition open_as :: "(phidget \<Rightarrow> phidget) \<Rightarrow> addr \<Rightarrow> world \<Rightarrow> (ecode \<times> world) cres" where
  "open_as f a w =
     cbind (deref (phids w) a) (\<lambda>p.
     if flag_of p PHIDGET_OPENED_FLAG then Inr (EPHIDGET_OK, w)
     else cbind (RegisterLocalDevice a (put_phid a (f p) w)) (\<lambda>(r, w1).
          cbind (change a (set_flag PHIDGET_OPENED_FLAG) w1) (\<lambda>w2. Inr (r, w2))))"

definition CPhidget_open :: "addr \<Rightarrow> int \<Rightarrow> world \<Rightarrow> (ecode \<times> world) cres" where
  "CPhidget_open phid serial w =
     (if phid = NULL then Inr (EPHIDGET_INVALIDARG, w)
      else if serial < -1 then Inr (EPHIDGET_INVALIDARG, w)
      else open_as (\<lambda>p. p\<lparr> specificDevice := (if serial = -1 then PHIDGETOPEN_ANY else PHIDGETOPEN_SERIAL),
                            serialNumber := serial \<rparr>) phid w)"

text \<open>A label that passes the check fits the array of the handle.\<close>

definition CPhidget_openLabel :: "(string \<Rightarrow> 8 word list conversion) \<Rightarrow> addr \<Rightarrow> string option \<Rightarrow> world \<Rightarrow> (ecode \<times> world) cres" where
  "CPhidget_openLabel to_utf16 phid label w =
     (if phid = NULL then Inr (EPHIDGET_INVALIDARG, w)
      else case label of
        None \<Rightarrow> open_as (\<lambda>p. p\<lparr> specificDevice := PHIDGETOPEN_ANY \<rparr>) phid w
      | Some l \<Rightarrow>
          if fst (encodeLabelString to_utf16 l None) \<noteq> EPHIDGET_OK
          then Inr (fst (encodeLabelString to_utf16 l None), w)
          else if MAX_LABEL_STORAGE < length l + 1 then Inl Out_Of_Bounds
          else open_as (\<lambda>p. p\<lparr> specificDevice := PHIDGETOPEN_LABEL, ph_label := l \<rparr>) phid w)"

definition close_usb :: "addr \<Rightarrow> world \<Rightarrow> (ecode \<times> world) cres" where
  "close_usb a w =
     cbind (deref (phids w) a) (\<lambda>p.
     case CUSBCloseHandle (reset_ret w) (Some p) (claimed w) of
       (r, p', cl) \<Rightarrow> Inr (r, put_phid a (the p') (w\<lparr> claimed := cl \<rparr>)))"

text \<open>An open-any handle that lost its device can take any device again.\<close>

definition unbind_any :: "phidget \<Rightarrow> phidget" where
  "unbind_any p = (if specificDevice p = PHIDGETOPEN_ANY_ATTACHED
                   then p\<lparr> specificDevice := PHIDGETOPEN_ANY, serialNumber := -1 \<rparr> else p)"

definition join_when_idle :: "world \<Rightarrow> world cres" where
  "join_when_idle w =
     (if ActiveDevices w = [] \<and> ActivePhidgetManagers w = 0 then JoinCentralThread w else Inr w)"

text \<open>The handle is taken off the active devices by comparing devices, not handles.\<close>

definition close_local :: "addr \<Rightarrow> world \<Rightarrow> (ecode \<times> world) cres" where
  "close_local a w =
     cbind (CList_removeFromList same_device False (phids w) (Some (ActiveDevices w)) a) (\<lambda>(_, xs, h).
     let w1 = w\<lparr> ActiveDevices := the xs, phids := h \<rparr> in
     cbind (deref h a) (\<lambda>p.
     cbind (if flag_of p PHIDGET_ATTACHED_FLAG
            then close_usb a (put_phid a (p\<lparr> writeStopFlag := True \<rparr>) w1) else Inr (EPHIDGET_OK, w1)) (\<lambda>(r, w2).
     cbind (change a unbind_any w2) (\<lambda>w3.
     cbind (join_when_idle w3) (\<lambda>w4. Inr (r, w4))))))"

definition CPhidget_close :: "device_ops \<Rightarrow> (addr \<Rightarrow> world \<Rightarrow> (ecode \<times> world) cres) \<Rightarrow> addr \<Rightarrow> world \<Rightarrow> (ecode \<times> world) cres" where
  "CPhidget_close ops remote_close phid w =
     (if phid = NULL then Inr (EPHIDGET_INVALIDARG, w)
      else cbind (deref (phids w) phid) (\<lambda>p.
        if \<not> flag_of p PHIDGET_OPENED_FLAG then Inr (EPHIDGET_OK, w)
        else
          let w0 = put_phid phid (op_close ops p) w in
          cbind (if flag_of p PHIDGET_REMOTE_FLAG then remote_close phid w0 else close_local phid w0) (\<lambda>(r, w1).
          cbind (change phid (clear_flag PHIDGET_OPENED_FLAG) w1) (\<lambda>w2. Inr (r, w2)))))"

definition CPhidget_free :: "addr \<Rightarrow> world \<Rightarrow> world cres" where
  "CPhidget_free a w =
     (if a = NULL then Inr w else cbind (release (phids w) a) (\<lambda>h. Inr (w\<lparr> phids := h \<rparr>)))"

definition CPhidget_delete :: "addr \<Rightarrow> world \<Rightarrow> (ecode \<times> world) cres" where
  "CPhidget_delete a w = cbind (CPhidget_free a w) (\<lambda>w'. Inr (EPHIDGET_OK, w'))"

section \<open>Attaching\<close>

text \<open>
  \<open>dev\<close> is the handle of a device that is plugged in, \<open>a\<close> one that waits. When the product
  string of a device cannot be read the waiting handle has been freed and is then written to.
\<close>

definition open_usb :: "(8 word list \<Rightarrow> string conversion) \<Rightarrow> addr \<Rightarrow> world \<Rightarrow> (ecode \<times> world) cres" where
  "open_usb from_utf16 a w =
     cbind (deref (phids w) a) (\<lambda>p.
     cbind (CUSBOpenHandle from_utf16 (bus w) p (claimed w)) (\<lambda>(r, phid, cl).
     Inr (r, w\<lparr> phids := (phids w)(a := phid), claimed := cl \<rparr>)))"

text \<open>After a failure past the opening: the device is closed again.\<close>

definition attach_failed :: "ecode \<Rightarrow> addr \<Rightarrow> world \<Rightarrow> (ecode \<times> world) cres" where
  "attach_failed r a w =
     cbind (close_usb a w) (\<lambda>(_, w1). cbind (change a unbind_any w1) (\<lambda>w2. Inr (r, w2)))"

definition start_device :: "device_ops \<Rightarrow> addr \<Rightarrow> world \<Rightarrow> (ecode \<times> world) cres" where
  "start_device ops a w =
     cbind (deref (phids w) a) (\<lambda>p0.
     let (r, p1) = op_init ops (set_flag PHIDGET_ATTACHING_FLAG p0);
         p2 = clear_flag PHIDGET_ATTACHING_FLAG p1
     in if r \<noteq> EPHIDGET_OK
        then
          let w1 = put_phid a (unbind_any p2) w;
              w2 = (if r = EPHIDGET_BADVERSION \<and> fptrError p2 \<noteq> None then log_event (Error_Event a) w1 else w1)
          in cbind (close_usb a w2) (\<lambda>(_, w3). Inr (r, w3))
        else
          let (got, w1) = start_thread (put_phid a (set_flag PHIDGET_ATTACHED_FLAG (p2\<lparr> writeStopFlag := False \<rparr>)) w)
          in if \<not> got then attach_failed EPHIDGET_UNEXPECTED a w1
          else
            let w2 = (if fptrAttach p2 \<noteq> None then log_event (Attach_Event a) w1 else w1);
                (got2, w3) = start_thread w2
            in if \<not> got2
               then cbind (change a (\<lambda>p. p\<lparr> writeStopFlag := True \<rparr>) w3) (attach_failed EPHIDGET_UNEXPECTED a)
               else Inr (EPHIDGET_OK, w3))"

definition attachActiveDevice :: "(8 word list \<Rightarrow> string conversion) \<Rightarrow> device_ops \<Rightarrow> addr \<Rightarrow> addr \<Rightarrow> world \<Rightarrow> (ecode \<times> world) cres" where
  "attachActiveDevice from_utf16 ops a dev w =
     (if a = NULL \<or> dev = NULL then Inr (EPHIDGET_INVALIDARG, w)
      else cbind (deref (phids w) a) (\<lambda>p.
        if \<not> flag_of p PHIDGET_OPENED_FLAG then Inr (EPHIDGET_UNEXPECTED, w)
        else cbind (deref (phids w) dev) (\<lambda>q.
          let p1 = p\<lparr> specificDevice := (if specificDevice p = PHIDGETOPEN_ANY then PHIDGETOPEN_ANY_ATTACHED else specificDevice p),
                      serialNumber := serialNumber q \<rparr>
          in cbind (open_usb from_utf16 a (put_phid a p1 w)) (\<lambda>(r, w1).
             if r \<noteq> EPHIDGET_OK
             then cbind (change a (\<lambda>p. (unbind_any p)\<lparr> deviceIDSpec := 0, deviceUID := 0 \<rparr>) w1) (\<lambda>w2. Inr (r, w2))
             else start_device ops a w1))))"

text \<open>The waiting handles that fit: first those opened by serial number or label, then the open-any ones.\<close>

definition wants :: "phidget \<Rightarrow> phidget \<Rightarrow> bool" where
  "wants q p \<longleftrightarrow> \<not> flag_of p PHIDGET_ATTACHED_FLAG \<and> deviceID p = deviceID q
     \<and> (specificDevice p = PHIDGETOPEN_SERIAL \<and> serialNumber p = serialNumber q
        \<or> specificDevice p = PHIDGETOPEN_LABEL \<and> strncmp (ph_label p) (ph_label q) (MAX_LABEL_STORAGE - 1) = 0)"

definition takes_any :: "phidget \<Rightarrow> phidget \<Rightarrow> bool" where
  "takes_any q p \<longleftrightarrow> \<not> flag_of p PHIDGET_ATTACHED_FLAG \<and> deviceID p = deviceID q
     \<and> specificDevice p = PHIDGETOPEN_ANY"

fun collect :: "(phidget \<Rightarrow> bool) \<Rightarrow> phidget heap \<Rightarrow> addr list \<Rightarrow> memory \<times> addr list \<Rightarrow> (memory \<times> addr list) cres" where
  "collect P h [] s = Inr s"
| "collect P h (a # as) s =
     cbind (deref h a) (\<lambda>p.
       if \<not> P p then collect P h as s
       else cbind (CList_addToList (fst s) CPhidgetHandle_areEqual Some (Some (snd s)) a) (\<lambda>(_, xs, mem).
            collect P h as (mem, the xs)))"

fun try_attach :: "(addr \<Rightarrow> world \<Rightarrow> (ecode \<times> world) cres) \<Rightarrow> addr list \<Rightarrow> world \<Rightarrow> (ecode \<times> world) cres" where
  "try_attach f [] w = Inr (EPHIDGET_NOTFOUND, w)"
| "try_attach f (a # as) w =
     cbind (f a w) (\<lambda>(r, w1). if r = EPHIDGET_OK then Inr (EPHIDGET_OK, w1) else try_attach f as w1)"

definition findActiveDevice :: "(8 word list \<Rightarrow> string conversion) \<Rightarrow> device_ops \<Rightarrow> addr \<Rightarrow> world \<Rightarrow> (ecode \<times> world) cres" where
  "findActiveDevice from_utf16 ops dev w =
     (if ActiveDevices w = [] then Inr (EPHIDGET_NOTFOUND, w) else
      cbind (deref (phids w) dev) (\<lambda>q.
      cbind (collect (wants q) (phids w) (ActiveDevices w) (w_mem w, [])) (\<lambda>s1.
      cbind (collect (takes_any q) (phids w) (ActiveDevices w) s1) (\<lambda>(mem, ms).
      try_attach (\<lambda>a. attachActiveDevice from_utf16 ops a dev) ms (w\<lparr> w_mem := mem \<rparr>)))))"

fun find_each :: "(addr \<Rightarrow> world \<Rightarrow> (ecode \<times> world) cres) \<Rightarrow> addr list \<Rightarrow> world \<Rightarrow> world cres" where
  "find_each f [] w = Inr w"
| "find_each f (d # ds) w = cbind (f d w) (\<lambda>(_, w1). find_each f ds w1)"

definition findActiveDevices :: "(8 word list \<Rightarrow> string conversion) \<Rightarrow> device_ops \<Rightarrow> world \<Rightarrow> world cres" where
  "findActiveDevices from_utf16 ops w = find_each (findActiveDevice from_utf16 ops) (AttachedDevices w) w"

end
