(* ===== verification/DeviceManager.thy ===== *)
theory DeviceManager
  imports DeviceLife
begin

text \<open>
  Enumeration of the bus (\<open>CUSBBuildList\<close> of \<open>linux/cusblinux-1.0.c\<close>), attach and detach
  events and the device manager (\<open>cphidgetmanager.c\<close>), and one round of the central thread
  (\<open>cthread.c\<close>). See theory \<open>DeviceLife\<close> for the state and the conventions.
\<close>

section \<open>Building the list of devices\<close>

text \<open>Adding to a list of handles; the results of the list operation are not looked at.\<close>

definition add_to :: "(phidget \<Rightarrow> phidget \<Rightarrow> bool) \<Rightarrow> addr \<Rightarrow> addr list \<times> world \<Rightarrow> (ecode \<times> addr list \<times> world) cres" where
  "add_to cmp a s =
     cbind (CList_addToList (w_mem (snd s)) cmp (phids (snd s)) (Some (fst s)) a) (\<lambda>(r, xs, mem).
     Inr (r, the xs, (snd s)\<lparr> w_mem := mem \<rparr>))"

text \<open>The devices that are known under the path of \<open>d\<close>.\<close>

fun known_at :: "string \<Rightarrow> addr list \<Rightarrow> bool \<Rightarrow> addr list \<times> world \<Rightarrow> (bool \<times> addr list \<times> world) cres" where
  "known_at path [] found s = Inr (found, s)"
| "known_at path (a # as) found s =
     cbind (deref (phids (snd s)) a) (\<lambda>p.
     cbind (case CPhidgetFHandle p of None \<Rightarrow> Inl Bad_Pointer | Some n \<Rightarrow> Inr n) (\<lambda>n.
     if strcmp n path \<noteq> 0 then known_at path as found s
     else cbind (add_to same_device a s) (\<lambda>(_, s'). known_at path as True s')))"

text \<open>The handle of a new device, once its strings have been read.\<close>

definition new_phid :: "(8 word list \<Rightarrow> string conversion) \<Rightarrow> CPhidgetDeviceDef \<Rightarrow> usb_device \<Rightarrow> phidget cres" where
  "new_phid from_utf16 row d =
     (let p = (take_row row d zero_phidget)\<lparr> ph_status := CPhidget_setStatusFlag 0 PHIDGET_ATTACHED_FLAG,
                deviceID := fst (snd row), specificDevice := PHIDGETOPEN_SERIAL, CPhidgetFHandle := Some (d_path d) \<rparr>
      in if d_iSerial d \<noteq> 0
         then cbind (getLabelString from_utf16 d (p\<lparr> serialNumber := strtol (snd (d_serial d)) \<rparr>)) (\<lambda>(_, p'). Inr p')
         else Inr p)"

text \<open>\<open>go\<close>: the search goes on with the next device; no memory ends it.\<close>

fun build_rows :: "(8 word list \<Rightarrow> string conversion) \<Rightarrow> usb_device \<Rightarrow> CPhidgetDeviceDef list
    \<Rightarrow> addr list \<times> world \<Rightarrow> (bool \<times> addr list \<times> world) cres" where
  "build_rows from_utf16 d [] s = Inr (True, s)"
| "build_rows from_utf16 d (row # rows) s =
     (let (sdid, did, vid, pid, iid, at, name) = row; (xs, w) = s in
      if d_vendor d \<noteq> vid \<or> d_product d \<noteq> pid then build_rows from_utf16 d rows s
      else
        let (got, mem) = alloc (w_mem w); w1 = w\<lparr> w_mem := mem \<rparr> in
        if \<not> got then Inr (False, xs, w1)
        else if d_open_ret d \<noteq> 0 then build_rows from_utf16 d rows (xs, w1)
        else if d_iSerial d \<noteq> 0 \<and> fst (d_serial d) < 0 then Inr (True, xs, w1)
        else
          cbind (new_phid from_utf16 row d) (\<lambda>p.
          if d_iProduct d \<noteq> 0 \<and> fst (d_productstr d) < 0 then Inr (True, xs, w1)
          else
            let (got2, mem2) = alloc mem; a = w_brk w; w2 = w\<lparr> w_mem := mem2, w_brk := a + 1 \<rparr>;
                p1 = (if d_iProduct d \<noteq> 0 then p\<lparr> usbProduct := snd (d_productstr d) \<rparr> else p)
            in if \<not> got2 then Inr (False, xs, w2)
               else cbind (add_to same_device a (xs, put_phid a p1 w2)) (\<lambda>(_, s'). build_rows from_utf16 d rows s')))"

fun build_devices :: "(8 word list \<Rightarrow> string conversion) \<Rightarrow> usb_device list \<Rightarrow> addr list \<times> world \<Rightarrow> (addr list \<times> world) cres" where
  "build_devices from_utf16 [] s = Inr s"
| "build_devices from_utf16 (d # ds) s =
     cbind (known_at (d_path d) (AttachedDevices (snd s)) False s) (\<lambda>(found, s1).
       if found \<or> d_desc_ret d \<noteq> 0 then build_devices from_utf16 ds s1
       else cbind (build_rows from_utf16 d (tl Phid_Device_Def) s1) (\<lambda>(go, s2).
            if go then build_devices from_utf16 ds s2 else Inr s2))"

definition CUSBBuildList :: "(8 word list \<Rightarrow> string conversion) \<Rightarrow> world \<Rightarrow> (addr list \<times> world) cres" where
  "CUSBBuildList from_utf16 w =
     (case bus w of None \<Rightarrow> Inr ([], w) | Some ds \<Rightarrow> build_devices from_utf16 ds ([], w))"

section \<open>Events\<close>

text \<open>The managers that are told: active ones with a handler.\<close>

fun tell_managers :: "(addr \<Rightarrow> device_event) \<Rightarrow> (manager \<Rightarrow> bool) \<Rightarrow> addr list \<Rightarrow> world \<Rightarrow> world cres" where
  "tell_managers ev hf [] w = Inr w"
| "tell_managers ev hf (m # ms) w =
     cbind (deref (managers w) m) (\<lambda>x.
       tell_managers ev hf ms
         (if hf x \<and> m_state x = PHIDGETMANAGER_ACTIVE then log_event (ev m) w else w))"

definition CPhidgetAttachEvent :: "(8 word list \<Rightarrow> string conversion) \<Rightarrow> device_ops \<Rightarrow> addr \<Rightarrow> world \<Rightarrow> (ecode \<times> world) cres" where
  "CPhidgetAttachEvent from_utf16 ops phid w =
     (if phid = NULL then Inr (EPHIDGET_INVALIDARG, w)
      else cbind (add_to same_device phid (AttachedDevices w, w)) (\<lambda>(r, xs, w0).
        let w1 = w0\<lparr> AttachedDevices := xs \<rparr> in
        if r = EPHIDGET_DUPLICATE then Inr (EPHIDGET_OK, w1)
        else if r \<noteq> EPHIDGET_OK then Inr (r, w1)
        else cbind (tell_managers (\<lambda>m. Manager_Attach m phid) fptrAttachChange (localPhidgetManagers w1) w1) (\<lambda>w2.
             findActiveDevice from_utf16 ops phid w2)))"

text \<open>The first active handle on the same device that is attached, or the handle itself.\<close>

fun to_detach :: "phidget heap \<Rightarrow> addr \<Rightarrow> addr list \<Rightarrow> addr option cres" where
  "to_detach h phid [] = Inr None"
| "to_detach h phid (a # as) =
     cbind (compare_ptr same_exactly h phid a) (\<lambda>same.
     cbind (deref h a) (\<lambda>p.
       if same \<and> flag_of p PHIDGET_ATTACHED_FLAG \<or> CPhidgetHandle_areEqual phid a then Inr (Some a)
       else to_detach h phid as))"

definition detach_active :: "addr \<Rightarrow> world \<Rightarrow> (ecode \<times> world) cres" where
  "detach_active a w =
     cbind (change a (\<lambda>p. let p1 = set_flag PHIDGET_DETACHING_FLAG p in
              (if specificDevice p1 = PHIDGETOPEN_ANY_ATTACHED then p1\<lparr> specificDevice := PHIDGETOPEN_ANY \<rparr> else p1)
              \<lparr> writeStopFlag := True \<rparr>) w) (\<lambda>w1.
     cbind (close_usb a w1) (\<lambda>(r, w2).
     cbind (deref (phids w2) a) (\<lambda>p.
     let w3 = (if fptrDetach p \<noteq> None then log_event (Detach_Event a) w2 else w2) in
     cbind (change a (\<lambda>p. clear_flag PHIDGET_USB_ERROR_FLAG (clear_flag PHIDGET_DETACHING_FLAG
              (p\<lparr> deviceIDSpec := 0, deviceUID := 0, CPhidgetFHandle := None \<rparr>))) w3) (\<lambda>w4. Inr (r, w4)))))"

definition CPhidgetDetachEvent :: "addr \<Rightarrow> world \<Rightarrow> (ecode \<times> world) cres" where
  "CPhidgetDetachEvent phid w =
     (if phid = NULL then Inr (EPHIDGET_INVALIDARG, w)
      else
        cbind (change phid (\<lambda>p. set_flag PHIDGET_DETACHING_FLAG (clear_flag PHIDGET_ATTACHED_FLAG p)) w) (\<lambda>w1.
        cbind (CList_removeFromList same_exactly False (phids w1) (Some (AttachedDevices w1)) phid) (\<lambda>(_, xs, h).
        let w2 = w1\<lparr> AttachedDevices := the xs, phids := h \<rparr> in
        cbind (tell_managers (\<lambda>m. Manager_Detach m phid) fptrDetachChange (localPhidgetManagers w2) w2) (\<lambda>w3.
        cbind (change phid (clear_flag PHIDGET_DETACHING_FLAG) w3) (\<lambda>w4.
        cbind (to_detach (phids w4) phid (ActiveDevices w4)) (\<lambda>found.
        cbind (case found of None \<Rightarrow> Inr (EPHIDGET_OK, w4) | Some a \<Rightarrow> detach_active a w4) (\<lambda>(r, w5).
        cbind (CPhidget_free phid w5) (\<lambda>w6. Inr (r, w6)))))))))"

text \<open>A manager that is being activated is told of every attached device.\<close>

fun sendInitialEvents :: "addr list \<Rightarrow> world \<Rightarrow> world cres" where
  "sendInitialEvents [] w = Inr w"
| "sendInitialEvents (m # ms) w =
     cbind (deref (managers w) m) (\<lambda>x.
       if m_state x \<noteq> PHIDGETMANAGER_ACTIVATING then sendInitialEvents ms w
       else
         let w1 = w\<lparr> managers := (managers w)(m \<mapsto> x\<lparr> m_state := PHIDGETMANAGER_ACTIVE \<rparr>) \<rparr>
         in sendInitialEvents ms
              (if fptrAttachChange x then fold (\<lambda>a. log_event (Manager_Attach m a)) (AttachedDevices w1) w1 else w1))"

section \<open>Polling\<close>

definition found_exactly :: "phidget heap \<Rightarrow> addr list \<Rightarrow> addr \<Rightarrow> bool cres" where
  "found_exactly h xs a =
     cbind (CList_findInList same_exactly h xs a) (\<lambda>(r, _). Inr (r \<noteq> EPHIDGET_NOTFOUND))"

text \<open>The attached devices that are no longer on the bus.\<close>

fun gone_devices :: "addr list \<Rightarrow> addr list \<Rightarrow> addr list \<times> world \<Rightarrow> (addr list \<times> world) cres" where
  "gone_devices curList [] s = Inr s"
| "gone_devices curList (a # as) s =
     cbind (found_exactly (phids (snd s)) curList a) (\<lambda>found.
       if found then gone_devices curList as s
       else cbind (add_to same_device a s) (\<lambda>(_, s'). gone_devices curList as s'))"

text \<open>The other interfaces of a composite device.\<close>

fun add_pairs :: "addr \<Rightarrow> addr list \<Rightarrow> addr list \<times> world \<Rightarrow> (addr list \<times> world) cres" where
  "add_pairs a [] s = Inr s"
| "add_pairs a (b # bs) s =
     cbind (deref (phids (snd s)) a) (\<lambda>p.
     cbind (deref (phids (snd s)) b) (\<lambda>q.
       if serialNumber p = serialNumber q \<and> pdd_iid p \<noteq> pdd_iid q
       then cbind (add_to same_device b s) (\<lambda>(_, s'). add_pairs a bs s')
       else add_pairs a bs s))"

text \<open>A new device is attached; one whose active handle has seen a USB error is cycled through a detach.\<close>

definition poll_device :: "(8 word list \<Rightarrow> string conversion) \<Rightarrow> device_ops \<Rightarrow> addr list \<Rightarrow> addr
    \<Rightarrow> addr list \<times> world \<Rightarrow> (addr list \<times> world) cres" where
  "poll_device from_utf16 ops curList a s =
     (let (detachList, w) = s in
      cbind (found_exactly (phids w) (AttachedDevices w) a) (\<lambda>found.
      cbind (if found then Inr w else cbind (CPhidgetAttachEvent from_utf16 ops a w) (\<lambda>(_, w'). Inr w')) (\<lambda>w1.
      cbind (CList_findInList same_device (phids w1) (ActiveDevices w1) a) (\<lambda>(r, b).
      if r \<noteq> EPHIDGET_OK then Inr (detachList, w1)
      else cbind (deref (phids w1) b) (\<lambda>p.
        if flag_of p PHIDGET_ATTACHED_FLAG \<and> flag_of p PHIDGET_USB_ERROR_FLAG
        then cbind (add_to same_device a (detachList, w1)) (\<lambda>(_, s1). add_pairs a curList s1)
        else Inr (detachList, w1))))))"

fun poll_devices :: "(addr \<Rightarrow> addr list \<times> world \<Rightarrow> (addr list \<times> world) cres) \<Rightarrow> addr list
    \<Rightarrow> addr list \<times> world \<Rightarrow> (addr list \<times> world) cres" where
  "poll_devices f [] s = Inr s"
| "poll_devices f (a # as) s = cbind (f a s) (poll_devices f as)"

fun detach_all :: "addr list \<Rightarrow> world \<Rightarrow> world cres" where
  "detach_all [] w = Inr w"
| "detach_all (a # as) w = cbind (CPhidgetDetachEvent a w) (\<lambda>(_, w1). detach_all as w1)"

definition CPhidgetManager_poll :: "(8 word list \<Rightarrow> string conversion) \<Rightarrow> device_ops \<Rightarrow> world \<Rightarrow> world cres" where
  "CPhidgetManager_poll from_utf16 ops w =
     cbind (sendInitialEvents (localPhidgetManagers w) w) (\<lambda>w1.
     cbind (CUSBBuildList from_utf16 w1) (\<lambda>(curList, w2).
     cbind (gone_devices curList (AttachedDevices w2) ([], w2)) (\<lambda>s1.
     cbind (poll_devices (poll_device from_utf16 ops curList) curList s1) (\<lambda>(detachList, w3).
     detach_all detachList w3))))"

text \<open>One round of the central thread; it ends when there is nothing active.\<close>

definition CentralThread_round :: "(8 word list \<Rightarrow> string conversion) \<Rightarrow> device_ops \<Rightarrow> world \<Rightarrow> world cres" where
  "CentralThread_round from_utf16 ops w =
     (if \<not> central w then Inr w
      else if ActiveDevices w = [] \<and> ActivePhidgetManagers w = 0 then central_exit w
      else cbind (CPhidgetManager_poll from_utf16 ops w) (findActiveDevices from_utf16 ops))"

section \<open>Managers\<close>

definition put_manager :: "addr \<Rightarrow> manager \<Rightarrow> world \<Rightarrow> world" where
  "put_manager m x w = w\<lparr> managers := (managers w)(m \<mapsto> x) \<rparr>"

definition CPhidgetManager_create :: "bool \<Rightarrow> world \<Rightarrow> ecode \<times> addr \<times> world" where
  "CPhidgetManager_create phidm w =
     (if \<not> phidm then (EPHIDGET_INVALIDARG, NULL, w)
      else let (got, mem) = alloc (w_mem w); w1 = w\<lparr> w_mem := mem \<rparr> in
        if \<not> got then (EPHIDGET_NOMEMORY, NULL, w1)
        else (EPHIDGET_OK, w_brk w1,
              put_manager (w_brk w1) \<lparr> m_status = 0, m_state = PHIDGETMANAGER_INACTIVE, m_attached = [],
                fptrAttachChange = False, fptrDetachChange = False \<rparr> (w1\<lparr> w_brk := w_brk w1 + 1 \<rparr>)))"

definition CPhidgetManager_open :: "addr \<Rightarrow> world \<Rightarrow> (ecode \<times> world) cres" where
  "CPhidgetManager_open phidm w =
     (if phidm = NULL then Inr (EPHIDGET_INVALIDARG, w)
      else cbind (deref (managers w) phidm) (\<lambda>x.
        if CPhidget_statusFlagIsSet (m_status x) PHIDGET_OPENED_FLAG then Inr (EPHIDGET_OK, w)
        else if m_state x \<noteq> PHIDGETMANAGER_INACTIVE
        then Inr (EPHIDGET_OK, put_manager phidm (x\<lparr> m_status := CPhidget_setStatusFlag (m_status x) PHIDGET_OPENED_FLAG \<rparr>) w)
        else
          cbind (CList_addToList (w_mem w) CPhidgetHandle_areEqual Some (Some (localPhidgetManagers w)) phidm) (\<lambda>(_, ms, mem).
          let (r, w1) = StartCentralThread (put_manager phidm
                (x\<lparr> m_state := PHIDGETMANAGER_ACTIVATING,
                   m_status := CPhidget_setStatusFlag (CPhidget_setStatusFlag (m_status x) PHIDGET_ATTACHED_FLAG) PHIDGET_OPENED_FLAG \<rparr>)
                (w\<lparr> localPhidgetManagers := the ms, w_mem := mem, ActivePhidgetManagers := ActivePhidgetManagers w + 1 \<rparr>))
          in Inr (r, w1))))"

text \<open>A local manager; \<open>remote_close\<close> is what closing a remote one does.\<close>

definition CPhidgetManager_close :: "(addr \<Rightarrow> world \<Rightarrow> world cres) \<Rightarrow> addr \<Rightarrow> world \<Rightarrow> (ecode \<times> world) cres" where
  "CPhidgetManager_close remote_close phidm w =
     (if phidm = NULL then Inr (EPHIDGET_INVALIDARG, w)
      else cbind (deref (managers w) phidm) (\<lambda>x.
        if \<not> CPhidget_statusFlagIsSet (m_status x) PHIDGET_OPENED_FLAG then Inr (EPHIDGET_OK, w)
        else
          cbind (if m_state x = PHIDGETMANAGER_INACTIVE then Inr w
                 else
                   let w1 = put_manager phidm (x\<lparr> m_state := PHIDGETMANAGER_INACTIVE,
                              m_status := CPhidget_clearStatusFlag (m_status x) PHIDGET_ATTACHED_FLAG \<rparr>) w
                   in if CPhidget_statusFlagIsSet (m_status x) PHIDGET_REMOTE_FLAG then remote_close phidm w1
                      else cbind (CList_removeFromList CPhidgetHandle_areEqual False Some (Some (localPhidgetManagers w1)) phidm)
                             (\<lambda>(_, ms, _). Inr (w1\<lparr> localPhidgetManagers := the ms,
                                                    ActivePhidgetManagers := ActivePhidgetManagers w1 - 1 \<rparr>))) (\<lambda>w2.
          cbind (join_when_idle w2) (\<lambda>w3.
          cbind (deref (managers w3) phidm) (\<lambda>y.
          Inr (EPHIDGET_OK, put_manager phidm
                 (y\<lparr> m_status := CPhidget_clearStatusFlag (m_status y) PHIDGET_OPENED_FLAG \<rparr>) w3))))))"

fun attached_of :: "phidget heap \<Rightarrow> addr list \<Rightarrow> addr list cres" where
  "attached_of h [] = Inr []"
| "attached_of h (a # as) =
     cbind (deref h a) (\<lambda>p. cbind (attached_of h as) (\<lambda>xs.
       Inr (if flag_of p PHIDGET_ATTACHED_FLAG then a # xs else xs)))"

text \<open>The result is an array of the attached devices, NULL when there are none.\<close>

definition CPhidgetManager_getAttachedDevices :: "addr \<Rightarrow> bool \<Rightarrow> world \<Rightarrow> (ecode \<times> addr list option \<times> world) cres" where
  "CPhidgetManager_getAttachedDevices phidm out w =
     (if \<not> out \<or> phidm = NULL then Inr (EPHIDGET_INVALIDARG, None, w)
      else cbind (deref (managers w) phidm) (\<lambda>x.
        cbind (attached_of (phids w)
                 (if CPhidget_statusFlagIsSet (m_status x) PHIDGET_REMOTE_FLAG then m_attached x else AttachedDevices w)) (\<lambda>xs.
        if xs = [] then Inr (EPHIDGET_OK, None, w)
        else let (got, mem) = alloc (w_mem w) in
          Inr (if got then (EPHIDGET_OK, Some xs, w\<lparr> w_mem := mem \<rparr>)
               else (EPHIDGET_NOMEMORY, None, w\<lparr> w_mem := mem \<rparr>)))))"

end
