(* ===== verification/LifeProps.thy ===== *)
theory LifeProps
  imports DeviceManager
begin

text \<open>
  Properties of the device life cycle: what closing a handle takes off the list of active
  devices, which handles an attached device is offered to, and that no two handles ever
  hold the same USB interface.
\<close>

section \<open>Interfaces are held by one handle\<close>

definition claim_ok :: "world \<Rightarrow> bool" where
  "claim_ok w \<longleftrightarrow>
     (\<forall>a p h. phids w a = Some p \<and> deviceHandle p = Some h \<longrightarrow> h \<in> claimed w
        \<and> (\<forall>b q. phids w b = Some q \<and> deviceHandle q = Some h \<longrightarrow> b = a))"

lemma claim_ok_cong:
  "phids w' = phids w \<Longrightarrow> claimed w' = claimed w \<Longrightarrow> claim_ok w' = claim_ok w"
  by (simp add: claim_ok_def)

lemma claim_ok_put:
  assumes "claim_ok w" and "deviceHandle p = None \<or> (\<exists>q. phids w a = Some q \<and> deviceHandle q = deviceHandle p)"
  shows "claim_ok (put_phid a p w)"
  using assms unfolding claim_ok_def put_phid_def by (auto split: if_splits)

lemma claim_ok_release: "claim_ok w \<Longrightarrow> claim_ok (w\<lparr> phids := (phids w)(a := None) \<rparr>)"
  unfolding claim_ok_def by (auto split: if_splits)

lemma claim_ok_restrict:
  assumes "claim_ok w" and "h \<subseteq>\<^sub>m phids w"
  shows "claim_ok (w\<lparr> phids := h \<rparr>)"
proof -
  have "phids w a = Some p" if "h a = Some p" for a p
    using assms(2) that by (metis domI map_le_def)
  with assms(1) show ?thesis unfolding claim_ok_def by simp blast
qed

text \<open>Operations that change neither handles nor claims.\<close>

lemma claim_ok_simps [simp]:
  "claim_ok (w\<lparr> w_mem := mem \<rparr>) = claim_ok w" "claim_ok (w\<lparr> ActiveDevices := xs \<rparr>) = claim_ok w"
  "claim_ok (w\<lparr> AttachedDevices := xs \<rparr>) = claim_ok w" "claim_ok (w\<lparr> threads := ts \<rparr>) = claim_ok w"
  "claim_ok (w\<lparr> central := c \<rparr>) = claim_ok w" "claim_ok (w\<lparr> managers := ms \<rparr>) = claim_ok w"
  "claim_ok (w\<lparr> localPhidgetManagers := xs \<rparr>) = claim_ok w" "claim_ok (w\<lparr> ActivePhidgetManagers := n \<rparr>) = claim_ok w"
  "claim_ok (w\<lparr> w_brk := b \<rparr>) = claim_ok w" "claim_ok (log_event e w) = claim_ok w"
  "claim_ok (w\<lparr> bus := ds \<rparr>) = claim_ok w" "claim_ok (put_manager m x w) = claim_ok w"
  by (simp_all add: claim_ok_def log_event_def put_manager_def)

lemma start_thread_ok [simp]: "claim_ok (snd (start_thread w)) = claim_ok w"
  by (simp add: start_thread_def split_def Let_def)

lemma StartCentralThread_ok [simp]: "claim_ok (snd (StartCentralThread w)) = claim_ok w"
  by (simp add: StartCentralThread_def split_def Let_def)

lemma change_ok:
  "change a f w = Inr w' \<Longrightarrow> (\<And>p. deviceHandle (f p) = deviceHandle p) \<Longrightarrow> claim_ok w \<Longrightarrow> claim_ok w'"
  by (auto simp: change_def deref_def intro!: claim_ok_put split: option.splits)

lemma handle_simps [simp]:
  "deviceHandle (set_flag f p) = deviceHandle p" "deviceHandle (clear_flag f p) = deviceHandle p"
  "deviceHandle (unbind_any p) = deviceHandle p"
  by (simp_all add: set_flag_def clear_flag_def unbind_any_def)

lemma release_le: "release h a = Inr h' \<Longrightarrow> h' \<subseteq>\<^sub>m h"
  by (auto simp: release_def map_le_def split: option.splits if_splits)

lemma free_elements_le: "free_elements fd xs h = Inr h' \<Longrightarrow> h' \<subseteq>\<^sub>m h"
proof (induction fd xs h rule: free_elements.induct)
  case (2 fd trav rest h)
  show ?case
  proof (cases "trav \<noteq> NULL \<and> fd")
    case True
    then obtain h1 where h1: "release h trav = Inr h1" "free_elements fd rest h1 = Inr h'"
      using 2(3) by (auto split: if_splits)
    then show ?thesis using 2(1) [OF True h1] release_le [OF h1(1)] map_le_trans by blast
  next
    case False
    then have "free_elements fd rest h = Inr h'" using 2(3) by (auto split: if_splits)
    then show ?thesis by (rule 2(2) [OF False])
  qed
qed simp

lemma central_exit_ok:
  assumes "central_exit w = Inr w'" and "claim_ok w"
  shows "claim_ok w'"
proof -
  obtain h where h: "free_elements True (AttachedDevices w) (phids w) = Inr h"
      "w' = w\<lparr> phids := h, AttachedDevices := [], central := False \<rparr>"
    using assms(1) by (auto simp: central_exit_def CList_emptyList_def)
  have "claim_ok (w\<lparr> phids := h \<rparr>)" by (rule claim_ok_restrict [OF assms(2) free_elements_le [OF h(1)]])
  then show ?thesis unfolding h(2) by (simp only: claim_ok_simps)
qed

lemma join_when_idle_ok: "join_when_idle w = Inr w' \<Longrightarrow> claim_ok w \<Longrightarrow> claim_ok w'"
  using central_exit_ok by (auto simp: join_when_idle_def JoinCentralThread_def split: if_splits)

lemma close_usb_ok:
  assumes "close_usb a w = Inr (r, w')" and "claim_ok w"
  shows "claim_ok w'" and "phids w' a \<noteq> None"
    and "\<And>p. phids w' a = Some p \<Longrightarrow> deviceHandle p = None"
proof -
  obtain p where p: "phids w a = Some p" using assms(1) by (auto simp: close_usb_def deref_def split: option.splits)
  let ?q = "clear_flag PHIDGET_ATTACHED_FLAG p"
  have w': "w' = (case deviceHandle p of None \<Rightarrow> put_phid a ?q w
      | Some h \<Rightarrow> put_phid a (?q\<lparr> deviceHandle := None \<rparr>) (w\<lparr> claimed := claimed w - {h} \<rparr>))"
    using assms(1) p by (auto simp: close_usb_def mem_simps CUSBCloseHandle_def Let_def put_phid_def split: option.splits)
  show "phids w' a \<noteq> None" using w' by (auto simp: put_phid_def split: option.splits)
  show "deviceHandle q = None" if "phids w' a = Some q" for q
    using that w' by (auto simp: put_phid_def split: option.splits)
  show "claim_ok w'"
  proof (cases "deviceHandle p")
    case None
    then show ?thesis using w' claim_ok_put [OF assms(2)] by simp
  next
    case (Some h)
    have "claim_ok (put_phid a (?q\<lparr> deviceHandle := None \<rparr>) (w\<lparr> claimed := claimed w - {h} \<rparr>))"
      using assms(2) p Some unfolding claim_ok_def put_phid_def by (auto split: if_splits)
    with w' Some show ?thesis by simp
  qed
qed

section \<open>What opening on the bus does\<close>

lemma capabilities_keep:
  assumes "CUSBGetDeviceCapabilities f d p = Inr (r, p')"
  shows "deviceHandle p' = deviceHandle p"
proof -
  have label: "deviceHandle q' = deviceHandle q" if "getLabelString f d q = Inr (r', q')" for q q' r'
    using that by (auto simp: getLabelString_def split: if_splits)
  have "deviceHandle (fold (scan_step buf) is q) = deviceHandle q" for buf "is" q
    by (induction "is" arbitrary: q) (simp_all add: scan_step_def Let_def)
  then show ?thesis
    using assms label by (fastforce simp: CUSBGetDeviceCapabilities_def scan_report_def Let_def split: option.splits if_splits)
qed

text \<open>Each row either opens the device, frees the handle, goes on to the next, or leaves.\<close>

lemma open_rows_claims:
  "open_rows f claims d rows p = Inr r \<Longrightarrow>
   case r of Opened p' \<Rightarrow> \<exists>h. deviceHandle p' = Some h \<and> h \<notin> claims
     | Not_Here p' \<Rightarrow> deviceHandle p' = deviceHandle p | Freed \<Rightarrow> True"
proof (induction f claims d rows p rule: open_rows.induct)
  case (2 f claims d sdid did vid pid iid at name rows p)
  note here = 2(1) and on = 2(2) and step = 2(3)
  define p1 where "p1 = (if d_iProduct d \<noteq> 0 then p\<lparr> usbProduct := snd (d_productstr d) \<rparr> else p)"
  define q where "q = take_row (sdid, did, vid, pid, iid, at, name) d (p1\<lparr> deviceHandle := Some (d_path d, iid) \<rparr>)"
  have p1: "deviceHandle p1 = deviceHandle p" by (simp add: p1_def)
  have q: "deviceHandle q = Some (d_path d, iid)" by (simp add: q_def take_row_def)
  let ?match = "did = deviceID p \<and> d_vendor d = vid \<and> d_product d = pid \<and> d_open_ret d = 0"
  consider "\<not> ?match" | "?match" "d_iSerial d \<noteq> 0 \<and> fst (d_serial d) < 0"
    | "?match" "\<not> (d_iSerial d \<noteq> 0 \<and> fst (d_serial d) < 0)" "d_iProduct d \<noteq> 0 \<and> fst (d_productstr d) < 0"
    | "?match" "\<not> (d_iSerial d \<noteq> 0 \<and> fst (d_serial d) < 0)" "\<not> (d_iProduct d \<noteq> 0 \<and> fst (d_productstr d) < 0)"
    by blast
  then show ?case
  proof cases
    case 1
    have "open_rows f claims d rows p = Inr r" using step unfolding open_rows.simps(2) if_not_P [OF 1] .
    from on [OF 1 this] show ?thesis .
  next
    case 2
    have "r = Not_Here p" using step unfolding open_rows.simps(2) if_P [OF 2(1)] if_P [OF 2(2)] by simp
    then show ?thesis by simp
  next
    case 3
    have "r = Freed" using step unfolding open_rows.simps(2) if_P [OF 3(1)] if_not_P [OF 3(2)] if_P [OF 3(3)] by simp
    then show ?thesis by simp
  next
    case 4
    show ?thesis
    proof (cases "serial_of d = serialNumber p1 \<and> (d_path d, iid) \<notin> claims \<and> d_claim_ret d = 0")
      case True
      then obtain c p2 where "CUSBGetDeviceCapabilities f d q = Inr (c, p2)" "r = Opened p2"
        using step 4 by (auto simp: q_def p1_def split: if_splits)
      then show ?thesis using capabilities_keep q True by auto
    next
      case False
      have "open_rows f claims d ((sdid, did, vid, pid, iid, at, name) # rows) p = open_rows f claims d rows p1"
        unfolding open_rows.simps(2) if_P [OF 4(1)] if_not_P [OF 4(2)] if_not_P [OF 4(3)] Let_def
          p1_def [symmetric] if_not_P [OF False] ..
      then have "open_rows f claims d rows p1 = Inr r" using step by (simp only:)
      from here [OF 4 p1_def False this] show ?thesis by (simp only: p1)
    qed
  qed
qed auto

lemma open_devices_claims:
  "open_devices f claims ds p = Inr (r, phid) \<Longrightarrow>
   if r = EPHIDGET_OK then \<exists>p' h. phid = Some p' \<and> deviceHandle p' = Some h \<and> h \<notin> claims
   else \<forall>p'. phid = Some p' \<longrightarrow> deviceHandle p' = deviceHandle p"
proof (induction ds arbitrary: p)
  case (Cons d ds)
  show ?case
  proof (cases "d_desc_ret d \<noteq> 0")
    case False
    then obtain x where x: "open_rows f claims d (tl Phid_Device_Def) p = Inr x" using Cons.prems by auto
    show ?thesis
      using Cons x open_rows_claims [OF x] False by (cases x) (auto split: if_splits)
  next
    case True
    with Cons.prems have "open_devices f claims ds p = Inr (r, phid)" by simp
    then show ?thesis by (rule Cons.IH)
  qed
qed auto

lemma open_usb_ok:
  assumes "open_usb f a w = Inr (r, w')" and "claim_ok w"
  shows "claim_ok w'"
proof -
  obtain p phid cl where p: "phids w a = Some p" "CUSBOpenHandle f (bus w) p (claimed w) = Inr (r, phid, cl)"
      "w' = w\<lparr> phids := (phids w)(a := phid), claimed := cl \<rparr>"
    using assms(1) by (auto simp: open_usb_def deref_def split: option.splits)
  have none: "claim_ok (w\<lparr> phids := (phids w)(a := x), claimed := claimed w \<rparr>)" if "\<And>q. x = Some q \<Longrightarrow> deviceHandle q = deviceHandle p" for x
    using that p(1) claim_ok_release [OF assms(2)] claim_ok_put [OF assms(2), of _ a]
    by (cases x) (auto simp: put_phid_def)
  show ?thesis
  proof (cases "bus w")
    case None
    then show ?thesis using p assms(2) by (auto simp: CUSBOpenHandle_def)
  next
    case (Some ds)
    then have o: "open_devices f (claimed w) ds p = Inr (r, phid)"
      and cl: "cl = (if r = EPHIDGET_OK then insert (the (deviceHandle (the phid))) (claimed w) else claimed w)"
      using p(2) by (auto simp: CUSBOpenHandle_def)
    show ?thesis
    proof (cases "r = EPHIDGET_OK")
      case True
      then obtain p' h where "phid = Some p'" "deviceHandle p' = Some h" "h \<notin> claimed w"
        using open_devices_claims [OF o] by auto
      with p(3) cl True assms(2) show ?thesis unfolding claim_ok_def by (auto split: if_splits)
    next
      case False
      then have "\<And>q. phid = Some q \<Longrightarrow> deviceHandle q = deviceHandle p"
        using open_devices_claims [OF o] by auto
      with p(3) cl False none [of phid] show ?thesis by simp
    qed
  qed
qed

section \<open>Every operation keeps it\<close>

text \<open>A condition on the result of a computation that may fault.\<close>

definition post :: "('a \<Rightarrow> bool) \<Rightarrow> 'a cres \<Rightarrow> bool" where
  "post P m \<longleftrightarrow> (\<forall>x. m = Inr x \<longrightarrow> P x)"

lemma post_simps [simp]:
  "post P (Inr x) = P x" "post P (Inl e)" "post P (deref h a) \<longleftrightarrow> (\<forall>x. h a = Some x \<longrightarrow> P x)"
  by (auto simp: post_def deref_def split: option.splits)

lemma post_bind: "post Q m \<Longrightarrow> (\<And>x. Q x \<Longrightarrow> post P (f x)) \<Longrightarrow> post P (cbind m f)"
  by (cases m) (simp_all add: post_def)

lemma post_mono: "post Q m \<Longrightarrow> (\<And>x. Q x \<Longrightarrow> P x) \<Longrightarrow> post P m"
  by (simp add: post_def)

lemma post_True [simp]: "post (\<lambda>_. True) m"
  by (simp add: post_def)

abbreviation keeps :: "world cres \<Rightarrow> bool" where
  "keeps m \<equiv> post claim_ok m"

abbreviation keeps2 :: "('r \<times> world) cres \<Rightarrow> bool" where
  "keeps2 m \<equiv> post (\<lambda>x. claim_ok (snd x)) m"

lemma deref_bind: "(\<And>p. h a = Some p \<Longrightarrow> post P (f p)) \<Longrightarrow> post P (cbind (deref h a) f)"
  by (rule post_bind [where Q = "\<lambda>p. h a = Some p"]) simp_all

lemma keeps_bind: "keeps m \<Longrightarrow> (\<And>w. claim_ok w \<Longrightarrow> post P (f w)) \<Longrightarrow> post P (cbind m f)"
  by (rule post_bind)

lemma keeps2_bind: "keeps2 m \<Longrightarrow> (\<And>r w. claim_ok w \<Longrightarrow> post P (f (r, w))) \<Longrightarrow> post P (cbind m f)"
  by (rule post_bind [where Q = "\<lambda>x. claim_ok (snd x)"]) auto

lemmas binds = deref_bind keeps_bind keeps2_bind

named_theorems keeping "operations that keep the claims consistent"

lemma keeps_put [keeping]:
  "claim_ok w \<Longrightarrow> map_option deviceHandle (phids w a) = Some (deviceHandle p) \<Longrightarrow> claim_ok (put_phid a p w)"
  by (rule claim_ok_put) auto

lemma keeps_change [keeping]:
  "claim_ok w \<Longrightarrow> (\<And>p. deviceHandle (f p) = deviceHandle p) \<Longrightarrow> keeps (change a f w)"
  using change_ok by (auto simp: post_def)

lemma keeps_close_usb [keeping]: "claim_ok w \<Longrightarrow> keeps2 (close_usb a w)"
  using close_usb_ok(1) by (auto simp: post_def)

lemma keeps_open_usb [keeping]: "claim_ok w \<Longrightarrow> keeps2 (open_usb f a w)"
  using open_usb_ok by (auto simp: post_def)

lemma keeps_join [keeping]: "claim_ok w \<Longrightarrow> keeps (join_when_idle w)"
  using join_when_idle_ok by (auto simp: post_def)

lemma keeps_add_active [keeping]: "claim_ok w \<Longrightarrow> keeps2 (add_active cmp a w)"
  unfolding add_active_def by (rule post_bind [OF post_True]) auto

lemma keeps_register [keeping]: "claim_ok w \<Longrightarrow> keeps2 (RegisterLocalDevice a w)"
  unfolding RegisterLocalDevice_def by (auto intro!: binds keeping)

lemma keeps_open_as [keeping]:
  "claim_ok w \<Longrightarrow> (\<And>p. deviceHandle (f p) = deviceHandle p) \<Longrightarrow> keeps2 (open_as f a w)"
  unfolding open_as_def by (auto intro!: binds keeping)

lemma remove_keeps_heap:
  "post (\<lambda>(xs, h', fe'). h' = h \<and> fe' = fe) (clist_remove_loop cmp False e first xs h fe)"
proof (induction cmp "False" e first xs h fe rule: clist_remove_loop.induct)
  case (2 cmp element at_head trav rest h fe)
  then show ?case
    unfolding post_def by (fastforce simp: drop_element_def split: if_splits)
qed simp

lemma remove_list_heap:
  "post (\<lambda>(_, xs, h'). h' = h) (CList_removeFromList cmp False h xs a)"
proof (cases xs)
  case (Some ys)
  show ?thesis
    using remove_keeps_heap [of h False cmp a True ys] Some
    by (auto simp: CList_removeFromList_def post_def split: if_splits)
qed (simp add: CList_removeFromList_def)

lemma heap_back [simp]: "claim_ok (w\<lparr> ActiveDevices := xs, phids := phids w \<rparr>) = claim_ok w"
  "claim_ok (w\<lparr> AttachedDevices := xs, phids := phids w \<rparr>) = claim_ok w"
  by (rule claim_ok_cong; simp)+

lemma keeps_close_local [keeping]:
  assumes "claim_ok w"
  shows "keeps2 (close_local a w)"
  unfolding close_local_def Let_def
  by (rule post_bind [OF remove_list_heap]) (use assms in \<open>auto intro!: binds keeping\<close>)

lemma keeps_attach_failed [keeping]: "claim_ok w \<Longrightarrow> keeps2 (attach_failed r a w)"
  unfolding attach_failed_def by (auto intro!: binds keeping)

text \<open>What a device-specific initialisation may not touch.\<close>

definition ops_ok :: "device_ops \<Rightarrow> bool" where
  "ops_ok ops \<longleftrightarrow> (\<forall>p. deviceHandle (snd (op_init ops p)) = deviceHandle p \<and> deviceHandle (op_close ops p) = deviceHandle p)"

lemma keeps_start_device [keeping]:
  assumes "claim_ok w" and "ops_ok ops"
  shows "keeps2 (start_device ops a w)"
proof -
  have "deviceHandle (snd (op_init ops (set_flag PHIDGET_ATTACHING_FLAG p))) = deviceHandle p" for p
    using assms(2) by (simp add: ops_ok_def)
  then show ?thesis
    unfolding start_device_def Let_def split_def using assms(1)
    by (auto intro!: binds keeping)
qed

lemma keeps_attach [keeping]:
  "claim_ok w \<Longrightarrow> ops_ok ops \<Longrightarrow> keeps2 (attachActiveDevice f ops a dev w)"
  unfolding attachActiveDevice_def Let_def by (auto intro!: binds keeping)

lemma keeps_try [keeping]:
  "claim_ok w \<Longrightarrow> (\<And>a w. claim_ok w \<Longrightarrow> keeps2 (f a w)) \<Longrightarrow> keeps2 (try_attach f as w)"
  by (induction "as" arbitrary: w) (auto intro!: binds)

lemma keeps_find [keeping]: "claim_ok w \<Longrightarrow> ops_ok ops \<Longrightarrow> keeps2 (findActiveDevice f ops dev w)"
  unfolding findActiveDevice_def
  by (auto intro!: deref_bind post_bind [OF post_True] keeping)

lemma keeps_find_each [keeping]:
  "claim_ok w \<Longrightarrow> (\<And>a w. claim_ok w \<Longrightarrow> keeps2 (f a w)) \<Longrightarrow> keeps (find_each f ds w)"
  by (induction ds arbitrary: w) (auto intro!: binds)

lemma keeps_find_all [keeping]: "claim_ok w \<Longrightarrow> ops_ok ops \<Longrightarrow> keeps (findActiveDevices f ops w)"
  unfolding findActiveDevices_def by (auto intro!: keeping)

section \<open>Enumeration and events keep it\<close>

abbreviation keeps3 :: "('r \<times> 's \<times> world) cres \<Rightarrow> bool" where
  "keeps3 m \<equiv> post (\<lambda>x. claim_ok (snd (snd x))) m"

lemma keeps3_bind: "keeps3 m \<Longrightarrow> (\<And>r s w. claim_ok w \<Longrightarrow> post P (f (r, s, w))) \<Longrightarrow> post P (cbind m f)"
  by (rule post_bind [where Q = "\<lambda>x. claim_ok (snd (snd x))"]) auto

text \<open>Results that carry no world.\<close>

lemma plain_binds:
  fixes m1 :: "bool cres" and m2 :: "string cres" and m3 :: "(ecode \<times> addr) cres" and m4 :: "addr option cres"
  shows "(\<And>x. post P (f1 x)) \<Longrightarrow> post P (cbind m1 f1)" "(\<And>x. post P (f2 x)) \<Longrightarrow> post P (cbind m2 f2)"
    "(\<And>x y. post P (f3 (x, y))) \<Longrightarrow> post P (cbind m3 f3)" "(\<And>x. post P (f4 x)) \<Longrightarrow> post P (cbind m4 f4)"
  by (rule post_bind [OF post_True]; auto)+

lemma keeps_add_to [keeping]: "claim_ok (snd s) \<Longrightarrow> keeps3 (add_to cmp a s)"
  unfolding add_to_def by (rule post_bind [OF post_True]) auto

lemma keeps_known [keeping]: "claim_ok (snd s) \<Longrightarrow> keeps3 (known_at path as found s)"
proof (induction "as" arbitrary: found s)
  case (Cons a "as")
  then show ?case
    by (cases s) (auto intro!: deref_bind plain_binds keeps3_bind keeping split: option.split)
qed auto

lemma new_phid_closed: "post (\<lambda>p. deviceHandle p = None) (new_phid f row d)"
proof -
  have label: "post (\<lambda>x. deviceHandle (snd x) = deviceHandle p) (getLabelString f d p)" for p
    unfolding getLabelString_def by (auto intro!: post_bind [OF post_True])
  have "deviceHandle (take_row row d zero_phidget) = None"
    by (simp add: take_row_def zero_phidget_def split: prod.split)
  then show ?thesis
    unfolding new_phid_def Let_def by (auto intro!: post_bind [OF label])
qed

lemma claim_ok_new: "claim_ok w \<Longrightarrow> deviceHandle p = None \<Longrightarrow> claim_ok (put_phid a p w)"
  by (rule claim_ok_put) auto

lemma keeps_build_rows [keeping]: "claim_ok (snd s) \<Longrightarrow> keeps3 (build_rows f d rows s)"
proof (induction rows arbitrary: s)
  case (Cons row rows)
  obtain sdid did vid pid iid at name xs w where rs: "row = (sdid, did, vid, pid, iid, at, name)" "s = (xs, w)"
    by (metis prod.collapse)
  have w: "claim_ok w" using Cons.prems rs by simp
  show ?case
    unfolding rs build_rows.simps Let_def prod.case split_def
    using w by (auto intro!: post_bind [OF new_phid_closed] keeps3_bind keeps_add_to claim_ok_new Cons.IH)
qed auto

lemma keeps_build_devices [keeping]: "claim_ok (snd s) \<Longrightarrow> keeps2 (build_devices f ds s)"
proof (induction ds arbitrary: s)
  case (Cons d ds)
  then show ?case
    by (auto intro!: keeps3_bind keeps_known keeps_build_rows)
qed auto

lemma keeps_build_list [keeping]: "claim_ok w \<Longrightarrow> keeps2 (CUSBBuildList f w)"
  unfolding CUSBBuildList_def by (auto intro!: keeping split: option.split)

lemma keeps_tell [keeping]: "claim_ok w \<Longrightarrow> keeps (tell_managers ev hf ms w)"
  by (induction ms arbitrary: w) (auto intro!: deref_bind)

lemma keeps_attach_event [keeping]: "claim_ok w \<Longrightarrow> ops_ok ops \<Longrightarrow> keeps2 (CPhidgetAttachEvent f ops a w)"
  unfolding CPhidgetAttachEvent_def Let_def by (auto intro!: binds keeps3_bind keeping)

lemma keeps_detach_active [keeping]: "claim_ok w \<Longrightarrow> keeps2 (detach_active a w)"
  unfolding detach_active_def Let_def by (auto intro!: binds keeping)

lemma keeps_free [keeping]: "claim_ok w \<Longrightarrow> keeps (CPhidget_free a w)"
  unfolding CPhidget_free_def using claim_ok_release
  by (auto simp: post_def release_def split: option.splits)

lemma keeps_detach_event [keeping]: "claim_ok w \<Longrightarrow> keeps2 (CPhidgetDetachEvent a w)"
  unfolding CPhidgetDetachEvent_def Let_def
  by (auto intro!: keeps_bind keeps2_bind post_bind [OF remove_list_heap] plain_binds keeping split: option.split)

lemma keeps_fold_log: "claim_ok (fold (\<lambda>a. log_event (e a)) as w) = claim_ok w"
  by (induction "as" arbitrary: w) simp_all

lemma keeps_initial [keeping]: "claim_ok w \<Longrightarrow> keeps (sendInitialEvents ms w)"
  by (induction ms arbitrary: w) (auto intro!: deref_bind simp: keeps_fold_log Let_def)

lemma keeps_gone [keeping]: "claim_ok (snd s) \<Longrightarrow> keeps2 (gone_devices cur as s)"
  by (induction "as" arbitrary: s) (auto intro!: plain_binds keeps3_bind keeps_add_to)

lemma keeps_pairs [keeping]: "claim_ok (snd s) \<Longrightarrow> keeps2 (add_pairs a bs s)"
  by (induction bs arbitrary: s) (auto intro!: deref_bind keeps3_bind keeps_add_to)

lemma keeps_poll_device [keeping]:
  "claim_ok (snd s) \<Longrightarrow> ops_ok ops \<Longrightarrow> keeps2 (poll_device f ops cur a s)"
  unfolding poll_device_def Let_def split_def
  by (auto intro!: plain_binds keeps_bind keeps2_bind keeps3_bind deref_bind keeping)

lemma keeps_poll_devices [keeping]:
  "claim_ok (snd s) \<Longrightarrow> (\<And>a s. claim_ok (snd s) \<Longrightarrow> keeps2 (f a s)) \<Longrightarrow> keeps2 (poll_devices f as s)"
  by (induction "as" arbitrary: s) (auto intro!: keeps2_bind)

lemma keeps_detach_all [keeping]: "claim_ok w \<Longrightarrow> keeps (detach_all as w)"
  by (induction "as" arbitrary: w) (auto intro!: keeps2_bind keeping)

lemma keeps_poll [keeping]: "claim_ok w \<Longrightarrow> ops_ok ops \<Longrightarrow> keeps (CPhidgetManager_poll f ops w)"
  unfolding CPhidgetManager_poll_def by (auto intro!: keeps_bind keeps2_bind keeping)

lemma keeps_round [keeping]: "claim_ok w \<Longrightarrow> ops_ok ops \<Longrightarrow> keeps (CentralThread_round f ops w)"
  unfolding CentralThread_round_def using central_exit_ok
  by (auto intro!: keeps_bind keeping simp: post_def [of _ "central_exit w"])

lemma keeps_manager_open [keeping]: "claim_ok w \<Longrightarrow> keeps2 (CPhidgetManager_open m w)"
  unfolding CPhidgetManager_open_def Let_def split_def
  by (auto intro!: deref_bind post_bind [OF post_True])

lemma keeps_close [keeping]:
  assumes "claim_ok w" and "ops_ok ops" and "\<And>w. claim_ok w \<Longrightarrow> keeps2 (rc a w)"
  shows "keeps2 (CPhidget_close ops rc a w)"
  using assms(1,2) unfolding CPhidget_close_def Let_def by (auto intro!: binds keeping assms(3) simp: ops_ok_def)

lemma keeps_manager_close [keeping]:
  "claim_ok w \<Longrightarrow> (\<And>w. claim_ok w \<Longrightarrow> keeps (rc m w)) \<Longrightarrow> keeps2 (CPhidgetManager_close rc m w)"
  unfolding CPhidgetManager_close_def Let_def
  by (auto intro!: deref_bind keeps_bind post_bind [OF post_True, of _ "\<lambda>(_, ms, _). Inr (_ ms)"] keeping)

section \<open>Runs\<close>

text \<open>What a program and the world around it can do; nothing is remote.\<close>

datatype life_op =
    Create CPhidget_DeviceClass | Open addr int | Open_Label addr "string option" | Close addr | Delete addr
  | Manager_Open addr | Manager_Close addr | Round | Plug "usb_device list option" | Usb_Error addr

fun life_exec :: "(string \<Rightarrow> 8 word list conversion) \<Rightarrow> (8 word list \<Rightarrow> string conversion) \<Rightarrow> device_ops \<Rightarrow> life_op \<Rightarrow> world \<Rightarrow> world cres" where
  "life_exec to16 from16 ops (Create c) w =
     Inr ((put_phid (w_brk w) (zero_phidget\<lparr> deviceID := c \<rparr>) w)\<lparr> w_brk := w_brk w + 1 \<rparr>)"
| "life_exec to16 from16 ops (Open a i) w = cbind (CPhidget_open a i w) (\<lambda>(_, w'). Inr w')"
| "life_exec to16 from16 ops (Open_Label a l) w = cbind (CPhidget_openLabel to16 a l w) (\<lambda>(_, w'). Inr w')"
| "life_exec to16 from16 ops (Close a) w = cbind (CPhidget_close ops (\<lambda>_ w. Inr (EPHIDGET_OK, w)) a w) (\<lambda>(_, w'). Inr w')"
| "life_exec to16 from16 ops (Delete a) w = cbind (CPhidget_delete a w) (\<lambda>(_, w'). Inr w')"
| "life_exec to16 from16 ops (Manager_Open a) w = cbind (CPhidgetManager_open a w) (\<lambda>(_, w'). Inr w')"
| "life_exec to16 from16 ops (Manager_Close a) w = cbind (CPhidgetManager_close (\<lambda>_ w. Inr w) a w) (\<lambda>(_, w'). Inr w')"
| "life_exec to16 from16 ops Round w = CentralThread_round from16 ops w"
| "life_exec to16 from16 ops (Plug ds) w = Inr (w\<lparr> bus := ds \<rparr>)"
| "life_exec to16 from16 ops (Usb_Error a) w = change a (set_flag PHIDGET_USB_ERROR_FLAG) w"

text \<open>A step that faults ends the process; what it would do after that does not count.\<close>

definition life_step :: "(string \<Rightarrow> 8 word list conversion) \<Rightarrow> (8 word list \<Rightarrow> string conversion) \<Rightarrow> device_ops
    \<Rightarrow> world \<Rightarrow> life_op \<Rightarrow> world \<times> c_fault option" where
  "life_step to16 from16 ops w op =
     (case life_exec to16 from16 ops op w of Inl e \<Rightarrow> (w, Some e) | Inr w' \<Rightarrow> (w', None))"

lemma life_exec_keeps:
  assumes "claim_ok w" and "ops_ok ops"
  shows "keeps (life_exec to16 from16 ops op w)"
proof (cases op)
  case (Create c)
  then show ?thesis using assms(1) by (simp add: claim_ok_new zero_phidget_def)
qed (use assms in \<open>auto simp: CPhidget_open_def CPhidget_openLabel_def CPhidget_delete_def
      intro!: keeps_bind keeps2_bind keeping split: option.split\<close>)

lemma life_step_keeps: "ops_ok ops \<Longrightarrow> claim_ok w \<Longrightarrow> claim_ok (fst (life_step to16 from16 ops w op))"
  using life_exec_keeps [of w ops to16 from16 op] by (auto simp: life_step_def post_def split: sum.split)

interpretation life: machine "life_step to16 from16 ops" "\<lambda>w. ops_ok ops \<longrightarrow> claim_ok w" for to16 from16 ops
  by unfold_locales (simp add: life_step_keeps)

text \<open>
  C25: whatever a program does with its handles and managers, whatever is plugged in or goes
  wrong on the bus, and however often the central thread runs in between, no two handles
  ever hold the same USB interface, and an interface that a handle holds is claimed.\<close>

theorem interfaces_exclusive:
  assumes "ops_ok ops" and "claim_ok w0" and "w = fst (run_machine (life_step to16 from16 ops) w0 steps)"
    and "phids w a = Some p" and "deviceHandle p = Some h"
  shows "h \<in> claimed w \<and> (\<forall>b q. phids w b = Some q \<and> deviceHandle q = Some h \<longrightarrow> b = a)"
  using life.run_inv [of ops w0 to16 from16 steps] assms unfolding claim_ok_def by blast

text \<open>Two handles opened for any device of one class, and one that holds an interface.\<close>

definition example_world :: "phidget heap \<Rightarrow> addr list \<Rightarrow> claims \<Rightarrow> world" where
  "example_world hs as cl =
     \<lparr> phids = hs, w_brk = 9, ActiveDevices = as, AttachedDevices = [], managers = Map.empty,
       localPhidgetManagers = [], ActivePhidgetManagers = 0, central = True, bus = Some [], claimed = cl,
       reset_ret = 0, w_mem = [], threads = [], events = [] \<rparr>"

definition holder :: phidget where
  "holder = zero_phidget\<lparr> deviceHandle := Some (''1/2'', 0) \<rparr>"

definition plain_ops :: device_ops where
  "plain_ops = \<lparr> op_init = (\<lambda>p. (EPHIDGET_OK, p)), op_close = (\<lambda>p. p) \<rparr>"

theorem interfaces_exclusive_witness:
  "{b. \<exists>q. phids (fst (run_machine (life_step (\<lambda>_. Conversion_Failed) (\<lambda>_. Conversion_Failed) plain_ops)
          (example_world [1 \<mapsto> holder] [] {(''1/2'', 0)}) [Usb_Error 1])) b = Some q
        \<and> deviceHandle q = Some (''1/2'', 0)} = {1}"
proof -
  let ?w0 = "example_world [1 \<mapsto> holder] [] {(''1/2'', 0)}"
  have "ops_ok plain_ops" by (simp add: ops_ok_def plain_ops_def)
  moreover have "claim_ok ?w0"
    by (simp add: claim_ok_def example_world_def holder_def inj_on_def)
  moreover have "phids (fst (run_machine (life_step (\<lambda>_. Conversion_Failed) (\<lambda>_. Conversion_Failed) plain_ops) ?w0 [Usb_Error 1])) 1 =
      Some (set_flag PHIDGET_USB_ERROR_FLAG holder)"
    by (simp add: life_step_def change_def example_world_def mem_simps put_phid_def)
  moreover have "deviceHandle (set_flag PHIDGET_USB_ERROR_FLAG holder) = Some (''1/2'', 0)"
    by (simp add: set_flag_def holder_def)
  ultimately show ?thesis
    using interfaces_exclusive [OF _ _ refl] by blast
qed

section \<open>Closing a handle\<close>

lemma remove_active:
  assumes "live_list h xs" and "a \<in> dom h" and "a \<noteq> NULL"
  shows "CList_removeFromList c False h (Some xs) a =
         Inr (EPHIDGET_OK, Some (filter (\<lambda>x. x \<notin> set (removed c h a xs)) xs), h)"
proof -
  have "CList_removeFromList c False h (Some xs) a =
      Inr (EPHIDGET_OK, Some (filter (\<lambda>x. x \<notin> set (removed c h a xs)) xs), h |` (- {}))"
    using clist_remove_loop_at_head [OF assms(2,1)] assms(3) by (simp add: CList_removeFromList_def)
  then show ?thesis by simp
qed

lemma free_elements_total:
  "live_list h xs \<Longrightarrow> \<exists>h'. free_elements True xs h = Inr h' \<and> (\<forall>x. x \<notin> set xs \<longrightarrow> h' x = h x)"
proof (induction xs arbitrary: h)
  case (Cons a xs)
  then have r: "release h a = Inr (h(a := None))" by (auto simp: live_list_def release_def)
  have "live_list (h(a := None)) xs" using Cons.prems by (auto simp: live_list_def)
  from Cons.IH [OF this] obtain h' where "free_elements True xs (h(a := None)) = Inr h'"
      "\<forall>x. x \<notin> set xs \<longrightarrow> h' x = (h(a := None)) x" by blast
  with r Cons.prems show ?case by (auto simp: live_list_def)
qed simp

lemma join_total:
  assumes "live_list (phids w) (AttachedDevices w)"
  shows "\<exists>w'. join_when_idle w = Inr w' \<and> ActiveDevices w' = ActiveDevices w
           \<and> (\<forall>x. x \<notin> set (AttachedDevices w) \<longrightarrow> phids w' x = phids w x)"
  using free_elements_total [OF assms]
  by (auto simp: join_when_idle_def JoinCentralThread_def central_exit_def CList_emptyList_def)

lemma close_usb_total:
  assumes "phids w a = Some p"
  shows "\<exists>r q cl. close_usb a w = Inr (r, put_phid a q (w\<lparr> claimed := cl \<rparr>)) \<and> deviceHandle q = None
           \<and> specificDevice q = specificDevice p"
proof (cases "deviceHandle p")
  case None
  have "put_phid a q (w\<lparr> claimed := claimed w \<rparr>) = put_phid a q w" for q by simp
  then show ?thesis using assms None
    by (intro exI [of _ EPHIDGET_NOTATTACHED] exI [of _ "clear_flag PHIDGET_ATTACHED_FLAG p"] exI [of _ "claimed w"])
       (simp add: close_usb_def CUSBCloseHandle_def Let_def clear_flag_def mem_simps)
next
  case (Some h)
  with assms show ?thesis
    by (auto simp: close_usb_def CUSBCloseHandle_def Let_def clear_flag_def mem_simps)
qed

lemma put_phid_simps [simp]:
  "phids (put_phid a p w) = (phids w)(a \<mapsto> p)" "ActiveDevices (put_phid a p w) = ActiveDevices w"
  "AttachedDevices (put_phid a p w) = AttachedDevices w" "claimed (put_phid a p w) = claimed w"
  by (simp_all add: put_phid_def)

lemma live_list_put: "live_list h xs \<Longrightarrow> live_list (h(a \<mapsto> p)) xs"
  by (auto simp: live_list_def)

text \<open>The active devices after the local part of a close, and what becomes of the handle.\<close>

lemma close_local_total:
  assumes "live_list (phids w) (ActiveDevices w)" and "live_list (phids w) (AttachedDevices w)"
    and "phids w a = Some p" and "a \<noteq> NULL" and "a \<notin> set (AttachedDevices w)"
  shows "\<exists>r w' q. close_local a w = Inr (r, w') \<and> phids w' a = Some q
           \<and> ActiveDevices w' = filter (\<lambda>x. x \<notin> set (removed same_device (phids w) a (ActiveDevices w))) (ActiveDevices w)"
proof -
  let ?ys = "filter (\<lambda>x. x \<notin> set (removed same_device (phids w) a (ActiveDevices w))) (ActiveDevices w)"
  define w1 where "w1 = w\<lparr> ActiveDevices := ?ys, phids := phids w \<rparr>"
  have rem: "CList_removeFromList same_device False (phids w) (Some (ActiveDevices w)) a = Inr (EPHIDGET_OK, Some ?ys, phids w)"
    using remove_active [OF assms(1) _ assms(4)] assms(3) by blast
  obtain r q w2 where w2: "(if flag_of p PHIDGET_ATTACHED_FLAG
        then close_usb a (put_phid a (p\<lparr> writeStopFlag := True \<rparr>) w1) else Inr (EPHIDGET_OK, w1)) = Inr (r, w2)"
      "phids w2 = (phids w)(a \<mapsto> q)" "ActiveDevices w2 = ?ys" "AttachedDevices w2 = AttachedDevices w"
  proof (cases "flag_of p PHIDGET_ATTACHED_FLAG")
    case True
    obtain r q cl where "close_usb a (put_phid a (p\<lparr> writeStopFlag := True \<rparr>) w1) =
        Inr (r, put_phid a q ((put_phid a (p\<lparr> writeStopFlag := True \<rparr>) w1)\<lparr> claimed := cl \<rparr>))"
      using close_usb_total [of "put_phid a (p\<lparr> writeStopFlag := True \<rparr>) w1" a] by auto
    then show ?thesis using that True by (simp add: w1_def put_phid_def)
  next
    case False
    have "phids w1 = (phids w)(a \<mapsto> p)" using assms(3) by (simp add: w1_def fun_upd_idem)
    with False that [of EPHIDGET_OK w1 p] show ?thesis by (simp add: w1_def)
  qed
  define w3 where "w3 = put_phid a (unbind_any q) w2"
  have c: "change a unbind_any w2 = Inr w3" using w2(2) by (simp add: change_def mem_simps w3_def)
  have "live_list (phids w3) (AttachedDevices w3)"
    using assms(2) w2(2,4) by (simp add: w3_def live_list_put)
  then obtain w4 where w4: "join_when_idle w3 = Inr w4" "ActiveDevices w4 = ?ys" "phids w4 a = Some (unbind_any q)"
    using join_total [of w3] assms(5) w2(2-4) by (auto simp: w3_def)
  have "close_local a w = Inr (r, w4)"
    unfolding close_local_def rem using w2(1) c w4(1) assms(3)
    by (simp del: cbind_Inr add: mem_simps w1_def [symmetric])
  with w4(2,3) show ?thesis by blast
qed

lemma removed_self:
  assumes "live_list h xs" and "matches c h a a" and "ys = filter (\<lambda>x. x \<notin> set (removed c h a xs)) xs"
  shows "a \<in> set ys \<longleftrightarrow> (\<exists>b bs. xs = b # bs \<and> a \<in> set bs \<and> matches c h a b \<and> b \<notin> set ys)"
proof (cases xs)
  case (Cons b bs)
  with assms(1) have "b \<notin> set bs" by (simp add: live_list_def)
  with assms(2) show ?thesis by (cases "a = b") (auto simp: assms(3) Cons removed_def)
qed (simp add: assms(3))

text \<open>
  C26: closing a local handle compares devices, not handles: it takes off the active devices
  whatever \<open>CList_removeFromList\<close> finds equal to the handle. So the handle that is closed
  stays on the list, for the central thread to go on using, exactly when the first active
  device is another handle that equals it, and that one is taken off instead.\<close>

theorem close_active_devices:
  assumes "live_list (phids w) (ActiveDevices w)" and "live_list (phids w) (AttachedDevices w)"
    and "phids w a = Some p" and "a \<noteq> NULL" and "a \<notin> set (AttachedDevices w)"
    and "flag_of p PHIDGET_OPENED_FLAG" and "\<not> flag_of p PHIDGET_REMOTE_FLAG" and "op_close ops p = p"
    and "same_device p p"
  shows "\<exists>r w'. CPhidget_close ops rc a w = Inr (r, w')
           \<and> (a \<in> set (ActiveDevices w') \<longleftrightarrow>
                (\<exists>b bs. ActiveDevices w = b # bs \<and> a \<in> set bs \<and> matches same_device (phids w) a b \<and> b \<notin> set (ActiveDevices w')))"
proof -
  have pw: "put_phid a p w = w" using assms(3) by (simp add: put_phid_def fun_upd_idem)
  obtain r w1 q where cl: "close_local a w = Inr (r, w1)" "phids w1 a = Some q"
      "ActiveDevices w1 = filter (\<lambda>x. x \<notin> set (removed same_device (phids w) a (ActiveDevices w))) (ActiveDevices w)"
    using close_local_total [OF assms(1-5)] by blast
  let ?w2 = "put_phid a (clear_flag PHIDGET_OPENED_FLAG q) w1"
  have "CPhidget_close ops rc a w = Inr (r, ?w2)"
    using assms(3,4,6-8) cl(1,2) by (simp del: cbind_Inr add: CPhidget_close_def mem_simps pw change_def)
  moreover have "a \<in> set (ActiveDevices w1) \<longleftrightarrow>
      (\<exists>b bs. ActiveDevices w = b # bs \<and> a \<in> set bs \<and> matches same_device (phids w) a b \<and> b \<notin> set (ActiveDevices w1))"
    using removed_self [OF assms(1) _ cl(3)] assms(3,9) by (simp add: matches_def)
  ultimately show ?thesis by (intro exI [of _ r] exI [of _ ?w2]) simp
qed

definition any_handle :: phidget where
  "any_handle = zero_phidget\<lparr> deviceID := 7, ph_status := PHIDGET_OPENED_FLAG \<rparr>"

theorem close_active_devices_witness:
  "\<exists>r w'. CPhidget_close plain_ops (\<lambda>_ w. Inr (EPHIDGET_OK, w)) 2
             (example_world [1 \<mapsto> any_handle, 2 \<mapsto> any_handle] [1, 2] {}) = Inr (r, w')
           \<and> (2 \<in> set (ActiveDevices w') \<longleftrightarrow> 1 \<notin> set (ActiveDevices w'))"
proof -
  let ?w = "example_world [1 \<mapsto> any_handle, 2 \<mapsto> any_handle] [1, 2] {}"
  have s: "same_device any_handle any_handle" by (simp add: same_device_def any_handle_def zero_phidget_def)
  have "live_list (phids ?w) (ActiveDevices ?w)" "live_list (phids ?w) (AttachedDevices ?w)"
      "phids ?w 2 = Some any_handle" "(2::addr) \<noteq> NULL" "2 \<notin> set (AttachedDevices ?w)"
    by (simp_all add: example_world_def live_list_def)
  moreover have "flag_of any_handle PHIDGET_OPENED_FLAG" "\<not> flag_of any_handle PHIDGET_REMOTE_FLAG"
      "op_close plain_ops any_handle = any_handle"
    by (simp_all add: any_handle_def plain_ops_def CPhidget_statusFlagIsSet_def PHIDGET_OPENED_FLAG_def PHIDGET_REMOTE_FLAG_def)
  ultimately have "\<exists>r w'. CPhidget_close plain_ops (\<lambda>_ w. Inr (EPHIDGET_OK, w)) 2 ?w = Inr (r, w')
           \<and> (2 \<in> set (ActiveDevices w') \<longleftrightarrow>
                (\<exists>b bs. ActiveDevices ?w = b # bs \<and> 2 \<in> set bs \<and> matches same_device (phids ?w) 2 b \<and> b \<notin> set (ActiveDevices w')))"
    using close_active_devices [OF _ _ _ _ _ _ _ _ s] by blast
  moreover have "matches same_device (phids ?w) 2 1" "ActiveDevices ?w = [1, 2]"
    using s by (simp_all add: matches_def example_world_def)
  ultimately show ?thesis by simp
qed

end
