(* ===== verification/RfidCode.thy ===== *)
theory RfidCode
  imports HexArray Decimal Label
begin

unbundle bit_operations_syntax

text \<open>
  The three tag protocols of \<open>cphidgetrfid.c\<close>: how a tag string becomes the 32-bit blocks that
  are programmed into a tag, and how the bits a tag sends are searched for a tag. A decoder
  works on a ring of 1024 bytes, each a bit; its positions are masked to ten bits after
  every change, so they are 10-bit words here. The code without the HITAG and raw data parts, which
  only a debugging build has.
\<close>

section \<open>Numbers, checksum, reversal\<close>

definition is_xdigit :: "char \<Rightarrow> bool" where
  "is_xdigit c \<longleftrightarrow> hexval c \<ge> 0"

definition clamp64 :: "int \<Rightarrow> int" where
  "clamp64 i = max (- (2 ^ 63)) (min (2 ^ 63 - 1) i)"

text \<open>\<open>strtoll\<close> in base 16, with its optional sign and prefix, and in base 10; \<open>strtoul\<close> with 32 bits.\<close>

definition hex_value :: "string \<Rightarrow> int" where
  "hex_value s = foldl (\<lambda>n c. 16 * n + hexval c) 0 (takeWhile is_xdigit s)"

definition after_0x :: "string \<Rightarrow> string" where
  "after_0x s =
     (case s of a # b # c # t \<Rightarrow> if a = CHR ''0'' \<and> (b = CHR ''x'' \<or> b = CHR ''X'') \<and> is_xdigit c then c # t else s
      | _ \<Rightarrow> s)"

definition strtoll16 :: "string \<Rightarrow> int" where
  "strtoll16 s =
     (let t = dropWhile is_space s in
      clamp64 (case t of
        [] \<Rightarrow> 0
      | c # u \<Rightarrow> if c = CHR ''-'' then - hex_value (after_0x u)
                 else if c = CHR ''+'' then hex_value (after_0x u) else hex_value (after_0x t)))"

definition strtoll10 :: "string \<Rightarrow> int" where
  "strtoll10 s = clamp64 (signed_value (dropWhile is_space s))"

definition strtoul10 :: "string \<Rightarrow> 32 word" where
  "strtoul10 s =
     (let i = signed_value (dropWhile is_space s) in
      if i \<ge> 2 ^ 32 \<or> i \<le> - (2 ^ 32) then - 1 else word_of_int i)"

definition CRC_16_CCITT_update :: "16 word \<Rightarrow> 8 word \<Rightarrow> 16 word" where
  "CRC_16_CCITT_update crc x =
     (let c0 = drop_bit 8 crc OR push_bit 8 crc;
          c1 = c0 XOR ucast x;
          c2 = c1 XOR drop_bit 4 (c1 AND 0xff);
          c3 = c2 XOR push_bit 12 c2
      in c3 XOR push_bit 5 (c3 AND 0xff))"

definition reverse :: "64 word \<Rightarrow> 64 word" where
  "reverse x =
     (let x1 = drop_bit 1 (x AND 0xaaaaaaaaaaaaaaaa) OR push_bit 1 (x AND 0x5555555555555555);
          x2 = drop_bit 2 (x1 AND 0xcccccccccccccccc) OR push_bit 2 (x1 AND 0x3333333333333333);
          x3 = drop_bit 4 (x2 AND 0xf0f0f0f0f0f0f0f0) OR push_bit 4 (x2 AND 0x0f0f0f0f0f0f0f0f);
          x4 = drop_bit 8 (x3 AND 0xff00ff00ff00ff00) OR push_bit 8 (x3 AND 0x00ff00ff00ff00ff);
          x5 = drop_bit 16 (x4 AND 0xffff0000ffff0000) OR push_bit 16 (x4 AND 0x0000ffff0000ffff)
      in drop_bit 32 x5 OR push_bit 32 x5)"

section \<open>Encoding\<close>

text \<open>
  The encoders take the room in blocks and return the blocks. Nine ones, ten rows of four bits
  with their parity, four column parities and a zero.
\<close>

definition em4100_data :: "64 word \<Rightarrow> 64 word" where
  "em4100_data t =
     fold (\<lambda>i e. e OR (push_bit (15 - i) t AND drop_bit (5 * i) 0x0078000000000000)) [0..<10] 0xFF80000000000000"

fun em4100_parity :: "nat \<Rightarrow> 64 word \<Rightarrow> nat \<Rightarrow> nat \<Rightarrow> 64 word \<Rightarrow> 64 word" where
  "em4100_parity 0 t row col e = e"
| "em4100_parity (Suc n) t row col e =
     (let (row, col) = (if col > 4 then (row + 1, 1) else (row, col));
          e1 = e XOR push_bit col (t AND 1);
          e2 = e1 XOR push_bit (row * 5) (t AND 1)
      in em4100_parity n (signed_drop_bit 1 t) row (col + 1) e2)"

definition high_block :: "64 word \<Rightarrow> 32 word" where
  "high_block e = ucast (drop_bit 32 e)"

definition low_block :: "64 word \<Rightarrow> 32 word" where
  "low_block e = ucast e"

definition encodeEM4100 :: "string option \<Rightarrow> nat \<Rightarrow> ecode \<times> 32 word list" where
  "encodeEM4100 tagString n =
     (case tagString of
        None \<Rightarrow> (EPHIDGET_INVALIDARG, [])
      | Some s \<Rightarrow>
          if n < 2 then (EPHIDGET_INVALIDARG, [])
          else if length s \<noteq> 10 \<and> \<not> (length s = 12 \<and> s ! 0 = CHR ''0'' \<and> s ! 1 = CHR ''x'')
          then (EPHIDGET_INVALIDARG, [])
          else
            let t = word_of_int (strtoll16 s); e = em4100_parity 40 t 1 1 (em4100_data t)
            in (EPHIDGET_OK, [high_block e, low_block e]))"

text \<open>
  FDX-B: country and identity with the animal bit, sent in reverse order, a one after every
  eight bits, then the checksum.
\<close>

definition fdx_b_crc :: "64 word \<Rightarrow> 16 word" where
  "fdx_b_crc t = fold (\<lambda>i crc. CRC_16_CCITT_update crc (ucast (drop_bit (56 - 8 * i) t AND 0xFF))) [0..<8] 0"

definition fdx_b_blocks :: "64 word \<Rightarrow> 64 word \<times> 64 word" where
  "fdx_b_blocks t =
     (let crc = ucast (fdx_b_crc t) :: 64 word;
          e0 = fold (\<lambda>i e. e OR (drop_bit (11 + i) t AND drop_bit (9 * i) 0x001FE00000000000)) [0..<6] 0x0020100804020100;
          e1 = fold (\<lambda>i e. e OR (push_bit (47 - i) t AND drop_bit (9 * i) 0x7F80000000000000)) [0..<2] 0x8040201008040201
      in (e0, e1 OR (push_bit 29 crc AND 0x00001FE000000000) OR (push_bit 28 crc AND 0x0000000FF0000000)))"

definition fdx_b_data :: "32 word \<Rightarrow> 64 word \<Rightarrow> 64 word" where
  "fdx_b_data countryCode uniqueID = (push_bit 38 (ucast countryCode) OR uniqueID) OR 0x8000000000000000"

definition encodeISO11785_FDX_B :: "string option \<Rightarrow> nat \<Rightarrow> ecode \<times> 32 word list" where
  "encodeISO11785_FDX_B tagString n =
     (case tagString of
        None \<Rightarrow> (EPHIDGET_INVALIDARG, [])
      | Some s \<Rightarrow>
          if n < 4 then (EPHIDGET_INVALIDARG, [])
          else if length s \<noteq> 15 then (EPHIDGET_INVALIDARG, [])
          else
            let uniqueID = word_of_int (strtoll10 (drop 3 s)) :: 64 word in
            if uniqueID > 0x3FFFFFFFFF then (EPHIDGET_INVALIDARG, [])
            else
              let (e0, e1) = fdx_b_blocks (reverse (fdx_b_data (strtoul10 (take 3 s)) uniqueID))
              in (EPHIDGET_OK, [high_block e0, low_block e0, high_block e1, low_block e1]))"

text \<open>The Phidgets protocol: the checksum, then 24 characters of seven bits, each with a one behind it.\<close>

definition phidgets_crc :: "8 word list \<Rightarrow> 16 word" where
  "phidgets_crc bs = fold (\<lambda>b crc. CRC_16_CCITT_update crc b) bs 0"

definition phidgets_blocks :: "8 word list \<Rightarrow> 32 word list" where
  "phidgets_blocks d =
     (let crc = ucast (phidgets_crc d) :: 32 word;
          b0 = (0x00040201 OR (push_bit 2 crc AND 0x0003FC00)) OR (push_bit 1 crc AND 0x000001FE)
      in fold (\<lambda>i bs. bs[i div 4 + 1 := bs ! (i div 4 + 1) OR push_bit ((184 - 8 * i) mod 32 + 1) (ucast (d ! i))])
           [0..<24] (b0 # replicate 6 0x01010101))"

definition encodePHIDGETS_TAG :: "string option \<Rightarrow> nat \<Rightarrow> ecode \<times> 32 word list" where
  "encodePHIDGETS_TAG tagString n =
     (case tagString of
        None \<Rightarrow> (EPHIDGET_INVALIDARG, [])
      | Some s \<Rightarrow>
          if n < 7 then (EPHIDGET_INVALIDARG, [])
          else if length s > 24 then (EPHIDGET_INVALIDARG, [])
          else (EPHIDGET_OK, phidgets_blocks (map char_byte s @ replicate (24 - length s) 0)))"

section \<open>Decoding\<close>

datatype CPhidgetRFID_Protocol =
  PHIDGET_RFID_PROTOCOL_NONE | PHIDGET_RFID_PROTOCOL_EM4100 | PHIDGET_RFID_PROTOCOL_ISO11785_FDX_B | PHIDGET_RFID_PROTOCOL_PHIDGETS

record CPhidgetRFID_Tag =
  protocol :: CPhidgetRFID_Protocol
  tagString :: string
  tagData :: "8 word list"

definition zero_tag :: CPhidgetRFID_Tag where
  "zero_tag = \<lparr> protocol = PHIDGET_RFID_PROTOCOL_NONE, tagString = [], tagData = replicate 10 0 \<rparr>"

type_synonym ring_pos = "10 word"

definition ring :: "8 word list \<Rightarrow> ring_pos \<Rightarrow> nat \<Rightarrow> 8 word" where
  "ring data p i = data ! unat (p + of_nat i)"

text \<open>
  The search for the start of a message of \<open>n\<close> bits; \<open>e - p\<close> is the number of bits in the
  queue. A queue that is empty from the beginning is not searched.
\<close>

function find_start :: "(ring_pos \<Rightarrow> bool) \<Rightarrow> nat \<Rightarrow> ring_pos \<Rightarrow> ring_pos \<Rightarrow> ring_pos option" where
  "find_start start n e p =
     (if p = e then Some p
      else if unat (e - p) < n then None
      else if start p then Some p
      else find_start start n e (p + 1))"
  by auto
termination
proof (relation "measure (\<lambda>(_, _, e, p). unat (e - p))")
  fix start :: "ring_pos \<Rightarrow> bool" and n and e p :: ring_pos
  assume "p \<noteq> e"
  then have "e - p \<noteq> 0" by auto
  then have "unat (e - p - 1) < unat (e - p)" by (rule measure_unat)
  then show "((start, n, e, p + 1), start, n, e, p) \<in> measure (\<lambda>(_, _, e, p). unat (e - p))"
    by (simp add: diff_diff_eq)
qed simp

declare find_start.simps [simp del]

text \<open>How far there is to search; an empty queue is taken for a full one after the first step.\<close>

definition search_left :: "ring_pos \<Rightarrow> ring_pos \<Rightarrow> nat" where
  "search_left e p = (if p = e then 1024 else unat (e - p))"

lemma find_start_range:
  "find_start start n e p = Some q \<Longrightarrow> 2 \<le> n \<Longrightarrow>
     q = e \<and> p = e \<or> q \<noteq> e \<and> p \<noteq> e \<and> n \<le> unat (e - q) \<and> unat (e - q) \<le> unat (e - p) \<and> start q"
proof (induction start n e p rule: find_start.induct)
  case (1 start n e p)
  show ?case
  proof (cases "p = e \<or> unat (e - p) < n \<or> start p")
    case True
    with 1(2) show ?thesis by (auto simp: find_start.simps [of start n e p] split: if_splits)
  next
    case False
    with 1(2) have r: "find_start start n e (p + 1) = Some q" by (simp add: find_start.simps [of start n e p])
    have ih: "q = e \<and> p + 1 = e \<or> q \<noteq> e \<and> p + 1 \<noteq> e \<and> n \<le> unat (e - q) \<and> unat (e - q) \<le> unat (e - (p + 1)) \<and> start q"
      by (rule 1(1)) (use False r 1(3) in auto)
    have less: "unat (e - (p + 1)) < unat (e - p)"
      using measure_unat [of "e - p"] False by (auto simp add: diff_diff_eq)
    have "p + 1 \<noteq> e"
    proof
      assume "p + 1 = e"
      then have "e - p = 1" by (simp flip: \<open>p + 1 = e\<close>)
      with False 1(3) show False by simp
    qed
    with ih less False show ?thesis by auto
  qed
qed

lemma unat_advance:
  assumes "m \<le> unat (e - q :: ring_pos)"
  shows "unat (e - (q + of_nat m)) = unat (e - q) - m"
proof -
  have "m < 1024" using assms unsigned_less [of "e - q", where 'a = nat] by simp
  then have "unat (of_nat m :: ring_pos) = m" by (simp add: unat_of_nat)
  moreover have "e - (q + of_nat m) = e - q - of_nat m" by simp
  ultimately show ?thesis using assms by (simp only: unat_sub word_le_nat_alt)
qed

lemma search_left_less:
  assumes "find_start start n e p = Some q" and "0 < m" and "m < n" and "n < 1024"
  shows "search_left e (q + of_nat m) < search_left e p"
proof -
  have r: "q = e \<and> p = e \<or> q \<noteq> e \<and> p \<noteq> e \<and> n \<le> unat (e - q) \<and> unat (e - q) \<le> unat (e - p) \<and> start q"
    using find_start_range [OF assms(1)] assms(2,3) by simp
  have m: "unat (of_nat m :: ring_pos) = m" using assms(3,4) by (simp add: unat_of_nat)
  show ?thesis
  proof (cases "p = e")
    case True
    with r have "q = e" by auto
    moreover have "(of_nat m :: ring_pos) \<noteq> 0" using m assms(2) by auto
    ultimately show ?thesis
      using True unsigned_less [of "- (of_nat m) :: ring_pos", where 'a = nat] by (simp add: search_left_def)
  next
    case False
    with r have d: "n \<le> unat (e - q)" "unat (e - q) \<le> unat (e - p)" by auto
    have u: "unat (e - (q + of_nat m)) = unat (e - q) - m" using d assms(3) by (intro unat_advance) simp
    with d assms(3) have "q + of_nat m \<noteq> e" by auto
    with u d assms(2,3) False show ?thesis by (simp add: search_left_def)
  qed
qed

text \<open>EM4100: start at nine ones; a frame with a wrong stop bit or parity is passed over.\<close>

definition em4100_start :: "8 word list \<Rightarrow> ring_pos \<Rightarrow> bool" where
  "em4100_start data p \<longleftrightarrow> list_all (\<lambda>i. ring data p i = 1) [0..<9]"

definition em4100_valid :: "8 word list \<Rightarrow> bool" where
  "em4100_valid b \<longleftrightarrow>
     b ! 63 = 0
     \<and> list_all (\<lambda>i. fold (\<lambda>k r. r XOR b ! (9 + i * 5 + k)) [0..<4] 0 = b ! (9 + i * 5 + 4)) [0..<10]
     \<and> list_all (\<lambda>i. fold (\<lambda>k r. r XOR b ! (9 + i + k * 5)) [0..<10] 0 = b ! (9 + i + 10 * 5)) [0..<4]"

text \<open>Byte \<open>i\<close> of the data, without the parity bits behind its two halves.\<close>

definition em4100_byte :: "8 word list \<Rightarrow> nat \<Rightarrow> 8 word" where
  "em4100_byte b i =
     fold (\<lambda>(j, k) d. d OR push_bit k (b ! j))
       (zip [9 + 10 * i..<13 + 10 * i] [7, 6, 5, 4] @ zip [14 + 10 * i..<18 + 10 * i] [3, 2, 1, 0]) 0"

function em4100_search :: "8 word list \<Rightarrow> ring_pos \<Rightarrow> ring_pos \<Rightarrow> 8 word list option" where
  "em4100_search data e p =
     (case find_start (em4100_start data) 64 e p of
        None \<Rightarrow> None
      | Some q \<Rightarrow>
          let b = map (ring data q) [0..<64] in
          if em4100_valid b then Some (map (em4100_byte b) [0..<5]) else em4100_search data e (q + 1))"
  by auto
termination
  by (relation "measure (\<lambda>(_, e, p). search_left e p)") (auto intro: search_left_less [where n = 64 and m = 1, simplified])

declare em4100_search.simps [simp del]

definition hex_bytes :: "8 word list \<Rightarrow> string" where
  "hex_bytes bs = concat (map (\<lambda>b. hex_pad 2 (unat b)) bs)"

definition decodeEM4100 :: "8 word list \<Rightarrow> ring_pos \<Rightarrow> ring_pos \<Rightarrow> CPhidgetRFID_Tag \<Rightarrow> ecode \<times> ring_pos \<times> CPhidgetRFID_Tag" where
  "decodeEM4100 data startPtr endPtr tag =
     (case em4100_search data endPtr startPtr of
        None \<Rightarrow> (EPHIDGET_NOTFOUND, startPtr, tag)
      | Some bs \<Rightarrow>
          (EPHIDGET_OK, startPtr + 64,
           tag\<lparr> protocol := PHIDGET_RFID_PROTOCOL_EM4100, tagString := hex_bytes bs,
                tagData := bs @ drop 5 (tagData tag) \<rparr>))"

text \<open>
  Reading \<open>n\<close> bits with a one between every eight of them; \<open>i\<close> bits have been read, \<open>k\<close> is the
  place in the message. \<open>None\<close> is a missing one.
\<close>

fun take_bits :: "(nat \<Rightarrow> 8 word) \<Rightarrow> nat \<Rightarrow> nat \<Rightarrow> nat \<Rightarrow> (8 word list \<times> nat) option" where
  "take_bits r 0 i k = Some ([], k)"
| "take_bits r (Suc n) i k =
     (if i > 0 \<and> i mod 8 = 0 \<and> r k \<noteq> 1 then None
      else let k1 = (if i > 0 \<and> i mod 8 = 0 then k + 1 else k) in
        map_option (apfst (Cons (r k1))) (take_bits r n (i + 1) (k1 + 1)))"

definition byte_first_high :: "8 word list \<Rightarrow> 8 word" where
  "byte_first_high bs = fold (\<lambda>(i, b) d. d OR push_bit (7 - i) b) (enumerate 0 bs) 0"

definition byte_first_low :: "8 word list \<Rightarrow> 8 word" where
  "byte_first_low bs = fold (\<lambda>(i, b) d. d OR push_bit i b) (enumerate 0 bs) 0"

definition checksum_of :: "8 word list \<Rightarrow> 16 word" where
  "checksum_of bs = fold (\<lambda>(i, b) d. d OR push_bit (15 - i) (ucast b)) (enumerate 0 bs) 0"

definition eights :: "8 word list \<Rightarrow> 8 word list list" where
  "eights bs = map (\<lambda>m. take 8 (drop (8 * m) bs)) [0..<length bs div 8]"

definition fdx_b_start :: "8 word list \<Rightarrow> ring_pos \<Rightarrow> bool" where
  "fdx_b_start data p \<longleftrightarrow> list_all (\<lambda>i. ring data p i = 0) [0..<10] \<and> ring data p 10 = 1"

text \<open>The message behind the header: the data, least significant byte first, with a valid checksum.\<close>

definition fdx_b_message :: "(nat \<Rightarrow> 8 word) \<Rightarrow> 8 word list option" where
  "fdx_b_message r =
     (case take_bits r 64 0 0 of
        None \<Rightarrow> None
      | Some (bs, k) \<Rightarrow>
          if r k \<noteq> 1 then None
          else case take_bits r 16 0 (k + 1) of
            None \<Rightarrow> None
          | Some (cs, k) \<Rightarrow>
              if r k \<noteq> 1 then None
              else if fold (\<lambda>b crc. CRC_16_CCITT_update crc b) (map byte_first_high (eights bs)) 0 \<noteq> checksum_of cs then None
              else Some (rev (map byte_first_low (eights bs))))"

function fdx_b_search :: "8 word list \<Rightarrow> ring_pos \<Rightarrow> ring_pos \<Rightarrow> 8 word list option" where
  "fdx_b_search data e p =
     (case find_start (fdx_b_start data) 128 e p of
        None \<Rightarrow> None
      | Some q \<Rightarrow>
          (case fdx_b_message (ring data (q + 11)) of
             Some d \<Rightarrow> Some d
           | None \<Rightarrow> fdx_b_search data e (q + 12)))"
  by auto
termination
  by (relation "measure (\<lambda>(_, e, p). search_left e p)") (auto intro: search_left_less [where n = 128 and m = 12, simplified])

declare fdx_b_search.simps [simp del]

definition fdx_b_country :: "8 word list \<Rightarrow> int" where
  "fdx_b_country d = uint ((push_bit 2 (ucast (d ! 2)) OR ucast (drop_bit 6 (d ! 3))) AND 0x3ff :: 16 word)"

definition fdx_b_id :: "8 word list \<Rightarrow> int" where
  "fdx_b_id d =
     uint ((push_bit 32 (ucast (d ! 3)) + push_bit 24 (ucast (d ! 4)) + push_bit 16 (ucast (d ! 5))
            + push_bit 8 (ucast (d ! 6)) + ucast (d ! 7)) AND 0x3FFFFFFFFF :: 64 word)"

definition decodeISO11785_FDX_B :: "8 word list \<Rightarrow> ring_pos \<Rightarrow> ring_pos \<Rightarrow> CPhidgetRFID_Tag \<Rightarrow> ecode \<times> ring_pos \<times> CPhidgetRFID_Tag" where
  "decodeISO11785_FDX_B data startPtr endPtr tag =
     (case fdx_b_search data endPtr startPtr of
        None \<Rightarrow> (EPHIDGET_NOTFOUND, startPtr, tag)
      | Some d \<Rightarrow>
          (EPHIDGET_OK, startPtr + 128,
           tag\<lparr> protocol := PHIDGET_RFID_PROTOCOL_ISO11785_FDX_B,
                tagString := dec_pad 3 (fdx_b_country d) @ dec_pad 12 (fdx_b_id d) \<rparr>))"

definition phidgets_start :: "8 word list \<Rightarrow> ring_pos \<Rightarrow> bool" where
  "phidgets_start data p \<longleftrightarrow> list_all (\<lambda>i. ring data p i = 0) [0..<13] \<and> ring data p 13 = 1"

text \<open>Characters of seven bits with a one behind each.\<close>

fun take_chars :: "(nat \<Rightarrow> 8 word) \<Rightarrow> nat \<Rightarrow> nat \<Rightarrow> 8 word list option" where
  "take_chars r 0 k = Some []"
| "take_chars r (Suc n) k =
     (if r (k + 7) \<noteq> 1 then None
      else map_option (Cons (fold (\<lambda>i d. d OR push_bit (6 - i) (r (k + i))) [0..<7] 0)) (take_chars r n (k + 8)))"

text \<open>
  The checksum in front of the characters. The code clears it only once per call, so a second attempt starts with
  the bits of the first one.
\<close>

fun crc_bits :: "(nat \<Rightarrow> 8 word) \<Rightarrow> nat \<Rightarrow> nat \<Rightarrow> nat \<Rightarrow> 16 word \<Rightarrow> bool \<times> nat \<times> 16 word" where
  "crc_bits r 0 i k crc = (True, k, crc)"
| "crc_bits r (Suc n) i k crc =
     (if i > 0 \<and> i mod 8 = 0 \<and> r k \<noteq> 1 then (False, k, crc)
      else let k1 = (if i > 0 \<and> i mod 8 = 0 then k + 1 else k) in
        crc_bits r n (i + 1) (k1 + 1) (crc OR push_bit (15 - i) (ucast (r k1))))"

definition phidgets_message :: "(nat \<Rightarrow> 8 word) \<Rightarrow> 16 word \<Rightarrow> 8 word list option \<times> 16 word" where
  "phidgets_message r crc =
     (case crc_bits r 16 0 0 crc of (good, k, crcRead) \<Rightarrow>
        (if \<not> good \<or> r k \<noteq> 1 then None
         else case take_chars r 24 (k + 1) of
           None \<Rightarrow> None
         | Some d \<Rightarrow> if phidgets_crc d \<noteq> crcRead then None else Some d, crcRead))"

function phidgets_search :: "8 word list \<Rightarrow> ring_pos \<Rightarrow> ring_pos \<Rightarrow> 16 word \<Rightarrow> 8 word list option" where
  "phidgets_search data e p crc =
     (case find_start (phidgets_start data) 224 e p of
        None \<Rightarrow> None
      | Some q \<Rightarrow>
          (case phidgets_message (ring data (q + 14)) crc of
             (Some d, crcRead) \<Rightarrow> Some d
           | (None, crcRead) \<Rightarrow> phidgets_search data e (q + 15) crcRead))"
  by auto
termination
  by (relation "measure (\<lambda>(_, e, p, _). search_left e p)") (auto intro: search_left_less [where n = 224 and m = 15, simplified])

declare phidgets_search.simps [simp del]

text \<open>A tag string is only read up to its first NUL.\<close>

definition decodePHIDGETS_TAG :: "8 word list \<Rightarrow> ring_pos \<Rightarrow> ring_pos \<Rightarrow> CPhidgetRFID_Tag \<Rightarrow> ecode \<times> ring_pos \<times> CPhidgetRFID_Tag" where
  "decodePHIDGETS_TAG data startPtr endPtr tag =
     (case phidgets_search data endPtr startPtr 0 of
        None \<Rightarrow> (EPHIDGET_NOTFOUND, startPtr, tag)
      | Some d \<Rightarrow>
          (EPHIDGET_OK, startPtr + 224,
           tag\<lparr> protocol := PHIDGET_RFID_PROTOCOL_PHIDGETS, tagString := c_str (map byte_char d) \<rparr>))"

end
