(* ===== verification/RfidLine.thy ===== *)
theory RfidLine
  imports RfidCode
begin

unbundle bit_operations_syntax

text \<open>
  The line code of the RFID reader (\<open>cphidgetrfid.c\<close>): the pulses the reader measures are kept in
  a ring, their lengths are found to be of two kinds, and they are shifted into a Manchester and
  a biphase decoder, whose bits are searched for tags (\<open>RfidCode\<close>). All positions are masked to ten
  bits after every change and are 10-bit words here.
\<close>

lemma ring_less: "p \<noteq> e \<Longrightarrow> unat (e - (p + 1)) < unat (e - p)" for e p :: ring_pos
proof -
  assume "p \<noteq> e"
  then have "e - p \<noteq> 0" by auto
  then have "unat (e - p - 1) < unat (e - p)" by (rule measure_unat)
  then show ?thesis by (simp add: diff_diff_eq)
qed

section \<open>State\<close>

text \<open>
  The part of \<open>CPhidgetRFID\<close> that belongs to the line. A pulse is its number of clocks with its
  polarity in bit 8; a gap or an odd length is \<open>PUNK_INT\<close>.
\<close>

record line =
  dataBuffer :: "int list"
  dataReadPtr :: ring_pos
  dataWritePtr :: ring_pos
  shortClocks :: int
  longClocks :: int
  manBuffer :: "8 word list"
  manReadPtr :: ring_pos
  manWritePtr :: ring_pos
  manLockedIn :: bool
  manShortChange :: bool
  biphaseBuffer :: "8 word list"
  biphaseReadPtr :: ring_pos
  biphaseWritePtr :: ring_pos
  biphaseLockedIn :: bool
  biphaseShortChange :: bool

definition pulse_at :: "line \<Rightarrow> ring_pos \<Rightarrow> int" where
  "pulse_at ln p = dataBuffer ln ! unat p"

definition clocks_of :: "int \<Rightarrow> int" where
  "clocks_of v = v AND 0xFF"

definition polarity_of :: "int \<Rightarrow> bool" where
  "polarity_of v \<longleftrightarrow> v AND 0x100 \<noteq> 0"

definition resetValuesFromSpace :: "line \<Rightarrow> line" where
  "resetValuesFromSpace ln =
     ln\<lparr> shortClocks := 0, longClocks := 0, manLockedIn := False, manReadPtr := 0, manWritePtr := 0,
         biphaseReadPtr := 0, biphaseWritePtr := 0, manShortChange := False, biphaseShortChange := False,
         biphaseLockedIn := False \<rparr>"

section \<open>Measured pulses\<close>

text \<open>A measured length becomes the nearest of the five lengths the decoders know.\<close>

definition pulse_of :: "8 word \<Rightarrow> int" where
  "pulse_of b =
     (let v = push_bit 1 (uint b); polarity = v AND 0x100; clocks = v AND 0xff in
      if v AND 0xFE = 0xFE then PUNK_INT
      else if clocks \<ge> 10 \<and> clocks \<le> 22 then polarity OR 16
      else if clocks \<ge> 26 \<and> clocks \<le> 40 then polarity OR 32
      else if clocks \<ge> 42 \<and> clocks \<le> 54 then polarity OR 48
      else if clocks \<ge> 56 \<and> clocks \<le> 72 then polarity OR 64
      else if clocks \<ge> 120 \<and> clocks \<le> 136 then polarity OR 128
      else PUNK_INT)"

text \<open>When the ring is full the oldest pulse is given up.\<close>

definition add_pulse :: "8 word \<Rightarrow> line \<Rightarrow> line" where
  "add_pulse b ln =
     (let ln1 = ln\<lparr> dataBuffer := (dataBuffer ln)[unat (dataWritePtr ln) := pulse_of b], dataWritePtr := dataWritePtr ln + 1 \<rparr>
      in if dataWritePtr ln1 = dataReadPtr ln1 then ln1\<lparr> dataReadPtr := dataReadPtr ln1 + 1 \<rparr> else ln1)"

section \<open>The two decoders\<close>

definition put_biphase :: "8 word \<Rightarrow> line \<Rightarrow> line" where
  "put_biphase b ln =
     (let ln1 = ln\<lparr> biphaseBuffer := (biphaseBuffer ln)[unat (biphaseWritePtr ln) := b],
                    biphaseWritePtr := biphaseWritePtr ln + 1 \<rparr>
      in if biphaseWritePtr ln1 = biphaseReadPtr ln1 then ln1\<lparr> biphaseReadPtr := biphaseReadPtr ln1 + 1 \<rparr> else ln1)"

definition put_man :: "8 word \<Rightarrow> line \<Rightarrow> line" where
  "put_man b ln =
     (let ln1 = ln\<lparr> manBuffer := (manBuffer ln)[unat (manWritePtr ln) := b], manWritePtr := manWritePtr ln + 1 \<rparr>
      in if manWritePtr ln1 = manReadPtr ln1 then ln1\<lparr> manReadPtr := manReadPtr ln1 + 1 \<rparr> else ln1)"

text \<open>One pulse in the biphase decoder: a long one is a 1, two short ones are a 0; \<open>None\<close> is no biphase data.\<close>

definition biphase_pulse :: "int \<Rightarrow> line \<Rightarrow> line option" where
  "biphase_pulse v ln =
     (if clocks_of v = longClocks ln then
        Some ((put_biphase 1 ln)\<lparr> biphaseLockedIn := True, biphaseShortChange := False \<rparr>)
      else if clocks_of v = shortClocks ln then
        (if biphaseLockedIn ln \<and> biphaseShortChange ln
         then Some ((put_biphase 0 ln)\<lparr> biphaseShortChange := False \<rparr>)
         else Some (ln\<lparr> biphaseShortChange := True \<rparr>))
      else None)"

text \<open>Going through the pulses up to \<open>readToPtr\<close>; \<open>myReadPtr\<close> starts at the read pointer.\<close>

function biphase_loop :: "ring_pos \<Rightarrow> ring_pos \<Rightarrow> line \<Rightarrow> bool \<times> line" where
  "biphase_loop myReadPtr readToPtr ln =
     (if myReadPtr = readToPtr then (True, ln)
      else case biphase_pulse (pulse_at ln myReadPtr) ln of
        None \<Rightarrow> (False, ln\<lparr> biphaseLockedIn := False, biphaseReadPtr := biphaseWritePtr ln \<rparr>)
      | Some ln' \<Rightarrow> biphase_loop (myReadPtr + 1) readToPtr ln')"
  by auto
termination by (relation "measure (\<lambda>(p, e, _). unat (e - p))") (simp_all add: ring_less)

declare biphase_loop.simps [simp del]

definition add_biphase_data :: "ring_pos \<Rightarrow> line \<Rightarrow> bool \<times> line" where
  "add_biphase_data readToPtr ln = biphase_loop (dataReadPtr ln) readToPtr ln"

text \<open>
  One pulse in the Manchester decoder: a long one, or the second of two short ones, is a bit of its polarity. A
  long pulse after a single short one shows that the pairing was wrong, and what was read is dropped.
\<close>

definition man_bit :: "int \<Rightarrow> 8 word" where
  "man_bit v = (if polarity_of v then 1 else 0)"

definition man_pulse :: "int \<Rightarrow> line \<Rightarrow> line" where
  "man_pulse v ln =
     (if clocks_of v = longClocks ln then
        let ln1 = (if manShortChange ln then ln\<lparr> manReadPtr := manWritePtr ln \<rparr> else ln)
        in (put_man (man_bit v) ln1)\<lparr> manLockedIn := True, manShortChange := False \<rparr>
      else if \<not> manLockedIn ln then
        (if polarity_of v then ln\<lparr> manShortChange := True, manLockedIn := True \<rparr> else ln)
      else if manShortChange ln then (put_man (man_bit v) ln)\<lparr> manShortChange := False \<rparr>
      else ln\<lparr> manShortChange := True \<rparr>)"

function man_loop :: "ring_pos \<Rightarrow> ring_pos \<Rightarrow> line \<Rightarrow> line" where
  "man_loop myReadPtr readToPtr ln =
     (if myReadPtr = readToPtr then ln
      else man_loop (myReadPtr + 1) readToPtr (man_pulse (pulse_at ln myReadPtr) ln))"
  by auto
termination by (relation "measure (\<lambda>(p, e, _). unat (e - p))") (simp_all add: ring_less)

declare man_loop.simps [simp del]

definition add_manchester_data :: "ring_pos \<Rightarrow> line \<Rightarrow> line" where
  "add_manchester_data readToPtr ln = man_loop (dataReadPtr ln) readToPtr ln"

section \<open>Searching the pulses for tags\<close>

text \<open>Gaps in front are skipped.\<close>

function skip_gaps :: "line \<Rightarrow> line" where
  "skip_gaps ln =
     (if dataReadPtr ln = dataWritePtr ln then ln
      else if pulse_at ln (dataReadPtr ln) = PUNK_INT
      then skip_gaps (resetValuesFromSpace (ln\<lparr> dataReadPtr := dataReadPtr ln + 1 \<rparr>))
      else ln)"
  by auto
termination
  by (relation "measure (\<lambda>ln. unat (dataWritePtr ln - dataReadPtr ln))") (simp_all add: resetValuesFromSpace_def ring_less)

declare skip_gaps.simps [simp del]

text \<open>
  The two lengths, from the pulses up to the next gap; a third length, or a pair that does not differ by
  the factor two, is an error (\<open>False\<close>). The result has the position reached and the two lengths.
\<close>

function rate_scan :: "int list \<Rightarrow> ring_pos \<Rightarrow> ring_pos \<Rightarrow> int \<Rightarrow> int \<Rightarrow> bool \<times> ring_pos \<times> int \<times> int" where
  "rate_scan buf e p s l =
     (if p = e \<or> buf ! unat p = PUNK_INT then (True, p, s, l)
      else let clocks = clocks_of (buf ! unat p) in
        if s = 0 then rate_scan buf e (p + 1) clocks l
        else if clocks \<noteq> s then
          (if l = 0 then
             (if s * 2 = clocks \<or> s div 2 = clocks then rate_scan buf e (p + 1) s clocks else (False, p, s, l))
           else if clocks \<noteq> l then (False, p, s, l)
           else rate_scan buf e (p + 1) s l)
        else rate_scan buf e (p + 1) s l)"
  by auto
termination by (relation "measure (\<lambda>(_, e, p, _). unat (e - p))") (auto simp: Let_def ring_less)

declare rate_scan.simps [simp del]

lemma rate_scan_stops:
  "rate_scan buf e p s l = (good, q, s', l') \<Longrightarrow>
     unat (e - q) \<le> unat (e - p) \<and> (if good then q = e \<or> buf ! unat q = PUNK_INT else p \<noteq> e)"
proof (induction buf e p s l rule: rate_scan.induct)
  case (1 buf e p s l)
  let ?c = "clocks_of (buf ! unat p)"
  show ?case
  proof (cases "p = e \<or> buf ! unat p = PUNK_INT")
    case True
    with 1(5) show ?thesis by (auto simp: rate_scan.simps [of buf e p s l])
  next
    case False
    note step = 1(5) [unfolded rate_scan.simps [of buf e p s l] if_not_P [OF False] Let_def]
    show ?thesis
    proof (cases "s \<noteq> 0 \<and> ?c \<noteq> s \<and> (if l = 0 then \<not> (s * 2 = ?c \<or> s div 2 = ?c) else ?c \<noteq> l)")
      case True
      with step False show ?thesis by (auto split: if_splits)
    next
      case bad: False
      have "unat (e - q) \<le> unat (e - (p + 1)) \<and> (if good then q = e \<or> buf ! unat q = PUNK_INT else p + 1 \<noteq> e)"
        using 1(1-4) [OF False refl] step bad by (auto split: if_splits)
      with False ring_less [of p e] show ?thesis by auto
    qed
  qed
qed

lemma reset_ptrs [simp]:
  "dataReadPtr (resetValuesFromSpace ln) = dataReadPtr ln" "dataWritePtr (resetValuesFromSpace ln) = dataWritePtr ln"
  "dataBuffer (resetValuesFromSpace ln) = dataBuffer ln"
  by (simp_all add: resetValuesFromSpace_def)

lemma skip_gaps_stops:
  "unat (dataWritePtr (skip_gaps ln) - dataReadPtr (skip_gaps ln)) \<le> unat (dataWritePtr ln - dataReadPtr ln)
   \<and> dataWritePtr (skip_gaps ln) = dataWritePtr ln \<and> dataBuffer (skip_gaps ln) = dataBuffer ln
   \<and> (dataReadPtr (skip_gaps ln) = dataWritePtr ln \<or> pulse_at ln (dataReadPtr (skip_gaps ln)) \<noteq> PUNK_INT)"
proof (induction ln rule: skip_gaps.induct)
  case (1 ln)
  show ?case
  proof (cases "dataReadPtr ln = dataWritePtr ln \<or> pulse_at ln (dataReadPtr ln) \<noteq> PUNK_INT")
    case True
    then show ?thesis by (auto simp: skip_gaps.simps [of ln])
  next
    case False
    then have "skip_gaps ln = skip_gaps (resetValuesFromSpace (ln\<lparr> dataReadPtr := dataReadPtr ln + 1 \<rparr>))"
      by (subst skip_gaps.simps) simp
    moreover have "unat (dataWritePtr ln - (dataReadPtr ln + 1)) < unat (dataWritePtr ln - dataReadPtr ln)"
      using False by (intro ring_less) simp
    moreover note 1 [OF conjunct1 [OF False [unfolded de_Morgan_disj not_not]] conjunct2 [OF False [unfolded de_Morgan_disj not_not]]]
    ultimately show ?thesis by (auto simp: reset_ptrs pulse_at_def)
  qed
qed

lemma skip_gaps_ptrs [simp]:
  "dataWritePtr (skip_gaps ln) = dataWritePtr ln" "dataBuffer (skip_gaps ln) = dataBuffer ln"
  using skip_gaps_stops [of ln] by simp_all

lemma skip_gaps_less: "unat (dataWritePtr ln - dataReadPtr (skip_gaps ln)) \<le> unat (dataWritePtr ln - dataReadPtr ln)"
  using skip_gaps_stops [of ln] by simp

text \<open>
  The pulses up to \<open>my\<close> go into both decoders, and each queue is searched. The tag structure is cleared once
  and shared by the three searches. The list has the tags found, in the order of the calls of \<open>tagEvent\<close>.
\<close>

definition decode_pulses :: "ring_pos \<Rightarrow> line \<Rightarrow> line \<times> CPhidgetRFID_Tag list" where
  "decode_pulses my ln =
     (let ln1 = add_manchester_data my ln;
          (r1, rd1, tag1) = decodeEM4100 (manBuffer ln1) (manReadPtr ln1) (manWritePtr ln1) zero_tag;
          ts1 = (if r1 = EPHIDGET_OK then [tag1] else []);
          (good, ln2) = add_biphase_data my (ln1\<lparr> manReadPtr := rd1 \<rparr>)
      in if \<not> good then (ln2, ts1)
         else
           let (r2, rd2, tag2) = decodePHIDGETS_TAG (biphaseBuffer ln2) (biphaseReadPtr ln2) (biphaseWritePtr ln2) tag1;
               ts2 = (if r2 = EPHIDGET_OK then ts1 @ [tag2] else ts1);
               (r3, rd3, tag3) = decodeISO11785_FDX_B (biphaseBuffer ln2) rd2 (biphaseWritePtr ln2) tag2
           in (ln2\<lparr> biphaseReadPtr := rd3 \<rparr>, if r3 = EPHIDGET_OK then ts2 @ [tag3] else ts2))"

definition order_clocks :: "line \<Rightarrow> line" where
  "order_clocks ln =
     (if longClocks ln < shortClocks ln then ln\<lparr> longClocks := shortClocks ln, shortClocks := longClocks ln \<rparr> else ln)"

text \<open>The decoders leave the pulses alone.\<close>

lemma put_ptrs [simp]:
  "dataWritePtr (put_man b ln) = dataWritePtr ln" "dataReadPtr (put_man b ln) = dataReadPtr ln"
  "dataBuffer (put_man b ln) = dataBuffer ln"
  "dataWritePtr (put_biphase b ln) = dataWritePtr ln" "dataReadPtr (put_biphase b ln) = dataReadPtr ln"
  "dataBuffer (put_biphase b ln) = dataBuffer ln"
  by (simp_all add: put_man_def put_biphase_def Let_def)

lemma man_loop_ptrs: "dataWritePtr (man_loop p e ln) = dataWritePtr ln \<and> dataBuffer (man_loop p e ln) = dataBuffer ln"
proof (induction p e ln rule: man_loop.induct)
  case (1 p e ln)
  have "dataWritePtr (man_pulse v ln) = dataWritePtr ln \<and> dataBuffer (man_pulse v ln) = dataBuffer ln" for v
    by (simp add: man_pulse_def Let_def)
  with 1 show ?case by (subst (1 2) man_loop.simps) auto
qed

lemma biphase_loop_ptrs:
  "biphase_loop p e ln = (good, ln') \<Longrightarrow> dataWritePtr ln' = dataWritePtr ln \<and> dataBuffer ln' = dataBuffer ln"
proof (induction p e ln rule: biphase_loop.induct)
  case (1 p e ln)
  have "biphase_pulse v ln = Some l \<Longrightarrow> dataWritePtr l = dataWritePtr ln \<and> dataBuffer l = dataBuffer ln" for v l
    by (auto simp: biphase_pulse_def split: if_splits)
  with 1 show ?case by (auto simp: biphase_loop.simps [of p e ln] split: if_splits option.splits)
qed

lemma decode_pulses_ptrs:
  "dataWritePtr (fst (decode_pulses my ln)) = dataWritePtr ln \<and> dataBuffer (fst (decode_pulses my ln)) = dataBuffer ln"
proof -
  define ln1 where "ln1 = add_manchester_data my ln"
  obtain r1 rd1 tag1 where d1: "decodeEM4100 (manBuffer ln1) (manReadPtr ln1) (manWritePtr ln1) zero_tag = (r1, rd1, tag1)"
    by (metis prod_cases3)
  obtain good ln2 where b: "add_biphase_data my (ln1\<lparr> manReadPtr := rd1 \<rparr>) = (good, ln2)" by force
  obtain r2 rd2 tag2 where d2: "decodePHIDGETS_TAG (biphaseBuffer ln2) (biphaseReadPtr ln2) (biphaseWritePtr ln2) tag1 = (r2, rd2, tag2)"
    by (metis prod_cases3)
  obtain r3 rd3 tag3 where d3: "decodeISO11785_FDX_B (biphaseBuffer ln2) rd2 (biphaseWritePtr ln2) tag2 = (r3, rd3, tag3)"
    by (metis prod_cases3)
  have "dataWritePtr ln2 = dataWritePtr ln \<and> dataBuffer ln2 = dataBuffer ln"
    using biphase_loop_ptrs [OF b [unfolded add_biphase_data_def]] man_loop_ptrs [of "dataReadPtr ln" my ln]
    by (simp add: ln1_def add_manchester_data_def)
  then show ?thesis by (simp add: decode_pulses_def Let_def ln1_def [symmetric] d1 b d2 d3)
qed

lemma order_clocks_ptrs [simp]:
  "dataWritePtr (order_clocks ln) = dataWritePtr ln" "dataReadPtr (order_clocks ln) = dataReadPtr ln"
  "dataBuffer (order_clocks ln) = dataBuffer ln"
  by (simp_all add: order_clocks_def)

lemma analyze_drop:
  assumes "rate_scan (dataBuffer ln) (dataWritePtr (skip_gaps ln)) (dataReadPtr (skip_gaps ln)) s l = (False, my, s', l')"
  shows "unat (dataWritePtr ln - (dataReadPtr (skip_gaps ln) + 1)) < unat (dataWritePtr ln - dataReadPtr ln)"
  using rate_scan_stops [OF assms] skip_gaps_less [of ln] ring_less [of "dataReadPtr (skip_gaps ln)" "dataWritePtr ln"]
  by (auto intro: less_le_trans)

lemma analyze_more:
  assumes "rate_scan (dataBuffer ln) (dataWritePtr (skip_gaps ln)) (dataReadPtr (skip_gaps ln)) s l = (True, my, s', l')"
    and "my \<noteq> dataWritePtr ln"
  shows "unat (dataWritePtr ln - my) < unat (dataWritePtr ln - dataReadPtr ln)"
proof -
  let ?r = "dataReadPtr (skip_gaps ln)" and ?w = "dataWritePtr ln"
  have le: "unat (?w - my) \<le> unat (?w - ?r)" and gap: "dataBuffer ln ! unat my = PUNK_INT"
    using rate_scan_stops [OF assms(1)] skip_gaps_stops [of ln] assms(2) by auto
  have "?w - my \<noteq> 0" using assms(2) by auto
  then have "unat (?w - my) \<noteq> 0" by (simp add: unat_eq_0)
  with le have "?r \<noteq> ?w" by auto
  with gap have "my \<noteq> ?r" using skip_gaps_stops [of ln] by (auto simp: pulse_at_def)
  then have "?w - my \<noteq> ?w - ?r" by auto
  then have "unat (?w - my) \<noteq> unat (?w - ?r)" by (simp add: word_unat_eq_iff)
  with le skip_gaps_less [of ln] show ?thesis by linarith
qed

text \<open>
  The search: as long as there are pulses, those up to the next gap are scanned; on an error the first of them is dropped
  and all starts over. Without two lengths it waits for more pulses, unless there was a gap.
\<close>

function analyze_data :: "line \<Rightarrow> line \<times> CPhidgetRFID_Tag list" where
  "analyze_data ln =
     (let ln0 = skip_gaps ln;
          (good, my, s, l) = rate_scan (dataBuffer ln0) (dataWritePtr ln0) (dataReadPtr ln0) (shortClocks ln0) (longClocks ln0);
          ln1 = ln0\<lparr> shortClocks := s, longClocks := l \<rparr>
      in if \<not> good then analyze_data (resetValuesFromSpace (ln1\<lparr> dataReadPtr := dataReadPtr ln1 + 1 \<rparr>))
         else if (s = 0 \<or> l = 0) \<and> unat (my - dataReadPtr ln1) = unat (dataWritePtr ln1 - dataReadPtr ln1) then (ln1, [])
         else
           let (ln2, ts) = (if s = 0 \<or> l = 0 then (ln1, []) else decode_pulses my (order_clocks ln1));
               ln3 = ln2\<lparr> dataReadPtr := my \<rparr>
           in if my \<noteq> dataWritePtr ln3 then apsnd ((@) ts) (analyze_data ln3) else (ln3, ts))"
  by auto
termination
proof (relation "measure (\<lambda>ln. unat (dataWritePtr ln - dataReadPtr ln))", goal_cases)
  case 1
  then show ?case by simp
next
  case (2 ln ln0 x good y my z s l ln1)
  then have "rate_scan (dataBuffer ln) (dataWritePtr (skip_gaps ln)) (dataReadPtr (skip_gaps ln)) (shortClocks ln0) (longClocks ln0) = (False, my, s, l)"
    using skip_gaps_stops [of ln] by auto
  from analyze_drop [OF this] 2 show ?case using skip_gaps_stops [of ln] by auto
next
  case (3 ln ln0 x good y my z s l ln1 u ln2 ts ln3)
  then have r: "rate_scan (dataBuffer ln) (dataWritePtr (skip_gaps ln)) (dataReadPtr (skip_gaps ln)) (shortClocks ln0) (longClocks ln0) = (True, my, s, l)"
    using skip_gaps_stops [of ln] by auto
  have "dataWritePtr ln2 = dataWritePtr ln"
  proof (cases "s = 0 \<or> l = 0")
    case True
    with 3 show ?thesis by simp
  next
    case False
    with 3 have "(ln2, ts) = decode_pulses my (order_clocks ln1)" "ln1 = ln0\<lparr> shortClocks := s, longClocks := l \<rparr>" "ln0 = skip_gaps ln"
      by (simp_all only: if_False)
    then have "ln2 = fst (decode_pulses my (order_clocks ln1))" "dataWritePtr ln1 = dataWritePtr ln" by (metis fst_conv, simp)
    then show ?thesis using conjunct1 [OF decode_pulses_ptrs [of my "order_clocks ln1"]] by simp
  qed
  with analyze_more [OF r] 3 show ?case by auto
qed

declare analyze_data.simps [simp del]

text \<open>The data of a packet from the device.\<close>

definition take_pulses :: "8 word list \<Rightarrow> line \<Rightarrow> line \<times> CPhidgetRFID_Tag list" where
  "take_pulses bs ln = (if bs = [] then (ln, []) else analyze_data (fold add_pulse bs ln))"

end
