(* ===== verification/RfidCodeProps.thy ===== *)
theory RfidCodeProps
  imports RfidCode
begin

unbundle bit_operations_syntax

text \<open>
  Properties of the tag protocols: what an encoder writes into a tag is what the decoder reads
  from the bits the tag sends, the checksum is the CRC of its polynomial, the reversal reverses.
\<close>

section \<open>Bits\<close>

lemma of_bool_xor [simp]: "of_bool a XOR of_bool b = (of_bool (a \<noteq> b) :: 'a::len word)"
  by (cases a; cases b) simp_all

lemma bit_push_of_bool: "bit (push_bit m (of_bool b) :: 'a::len word) k \<longleftrightarrow> k = m \<and> k < LENGTH('a) \<and> b"
  by (cases b) (auto simp: bit_push_bit_iff bit_1_iff bit_exp_iff)

text \<open>The bits a tag sends: its blocks, high bits first.\<close>

definition block_bits :: "32 word list \<Rightarrow> 8 word list" where
  "block_bits ws = concat (map (\<lambda>w. map (\<lambda>i. of_bool (bit w (31 - i))) [0..<32]) ws)"

definition long_bits :: "64 word \<Rightarrow> 8 word list" where
  "long_bits e = map (\<lambda>i. of_bool (bit e (63 - i))) [0..<64]"

lemma block_bits_long: "block_bits (high_block e # low_block e # ws) = long_bits e @ block_bits ws"
proof -
  have "[0..<64] = [0..<32] @ map (\<lambda>i. i + 32) [0..<32]" by (simp add: upt_rec)
  then show ?thesis
    by (auto simp add: block_bits_def long_bits_def high_block_def low_block_def bit_simps o_def del: upt_rec_numeral)
qed

lemma length_long_bits [simp]: "length (long_bits e) = 64"
  by (simp add: long_bits_def)

lemma nth_long_bits: "i < 64 \<Longrightarrow> long_bits e ! i = of_bool (bit e (63 - i))"
  by (simp add: long_bits_def del: upt_rec_numeral)

text \<open>The queue of a decoder has these bits at \<open>p\<close>.\<close>

definition holds :: "8 word list \<Rightarrow> ring_pos \<Rightarrow> 8 word list \<Rightarrow> bool" where
  "holds data p bs \<longleftrightarrow> (\<forall>i < length bs. ring data p i = bs ! i)"

section \<open>EM4100\<close>

lemma signed_drop_bit_Suc: "signed_drop_bit 1 (signed_drop_bit i t) = signed_drop_bit (Suc i) (t :: 'a::len word)"
  by (rule bit_word_eqI) (auto simp: bit_signed_drop_bit_iff)

lemma signed_drop_low: "i < 64 \<Longrightarrow> signed_drop_bit i (t :: 64 word) AND 1 = of_bool (bit t i)"
  by (rule bit_word_eqI) (auto simp: bit_simps)

definition parity_step :: "64 word \<Rightarrow> nat \<Rightarrow> 64 word \<Rightarrow> 64 word" where
  "parity_step t i e = (e XOR push_bit (i mod 4 + 1) (of_bool (bit t i))) XOR push_bit ((i div 4 + 1) * 5) (of_bool (bit t i))"

lemma em4100_parity_fold:
  assumes "i + n \<le> 64"
    and "row = i div 4 + 1 \<and> col = i mod 4 + 1 \<or> i mod 4 = 0 \<and> 0 < i \<and> row = i div 4 \<and> col = 5"
  shows "em4100_parity n (signed_drop_bit i t) row col e = fold (parity_step t) [i..<i + n] e"
  using assms
proof (induction n arbitrary: i row col e)
  case (Suc n)
  have "em4100_parity (Suc n) (signed_drop_bit i t) row col e
      = em4100_parity n (signed_drop_bit (Suc i) t) (i div 4 + 1) (i mod 4 + 2) (parity_step t i e)"
    using Suc.prems signed_drop_low [of i t]
    by (auto simp: parity_step_def signed_drop_bit_Suc [simplified] simp del: push_bit_Suc)
  also have "\<dots> = fold (parity_step t) [Suc i..<Suc i + n] (parity_step t i e)"
    using Suc.prems(1) by (intro Suc.IH) (simp, presburger)
  also have "\<dots> = fold (parity_step t) [i..<i + Suc n] e" by (simp add: upt_conv_Cons [of i] del: upt_Suc)
  finally show ?case .
qed simp

definition em4100_word :: "64 word \<Rightarrow> 64 word" where
  "em4100_word t = em4100_parity 40 t 1 1 (em4100_data t)"

lemma em4100_word_fold: "em4100_word t = fold (parity_step t) [0..<40] (em4100_data t)"
  using em4100_parity_fold [of 0 40 1 1 t "em4100_data t"] by (simp add: em4100_word_def)

lemma bit_parity_step: "k < 64 \<Longrightarrow> bit (parity_step t i e) k \<longleftrightarrow>
    (bit e k \<noteq> (k = i mod 4 + 1 \<and> bit t i)) \<noteq> (k = (i div 4 + 1) * 5 \<and> bit t i)"
  unfolding parity_step_def bit_xor_iff bit_push_of_bool by auto

lemma em4100_word_bits:
  "k < 64 \<Longrightarrow> bit (em4100_word t) k \<longleftrightarrow>
     fold (\<lambda>i b. (b \<noteq> (k = i mod 4 + 1 \<and> bit t i)) \<noteq> (k = (i div 4 + 1) * 5 \<and> bit t i)) [0..<40] (bit (em4100_data t) k)"
proof -
  assume k: "k < 64"
  have "bit (fold (parity_step t) xs e) k = fold (\<lambda>i b. (b \<noteq> (k = i mod 4 + 1 \<and> bit t i)) \<noteq> (k = (i div 4 + 1) * 5 \<and> bit t i)) xs (bit e k)" for xs e
    using bit_parity_step [OF k] by (induction xs arbitrary: e) simp_all
  then show ?thesis by (simp add: em4100_word_fold)
qed

lemma upto_40: "[0..<40] = [0, 1, 2, 3, 4, 5, 6, 7, 8, 9, 10, 11, 12, 13, 14, 15, 16, 17, 18, 19, 20, 21, 22, 23, 24, 25, 26, 27, 28, 29,
    30, 31, 32, 33, 34, 35, 36, 37, 38, 39::nat]"
  by (simp add: upt_rec)

lemma upto_10: "[0..<10] = [0, 1, 2, 3, 4, 5, 6, 7, 8, 9::nat]"
  by (simp add: upt_rec)

lemma em4100_head: "55 \<le> k \<Longrightarrow> k < 64 \<Longrightarrow> bit (em4100_word t) k"
proof -
  assume k: "55 \<le> k" "k < 64"
  then have "k \<in> {55, 56, 57, 58, 59, 60, 61, 62, 63}" by auto
  then show ?thesis
    by (elim insertE emptyE) (simp_all add: em4100_word_bits upto_40 upto_10 em4100_data_def bit_simps)
qed

definition odd_bits :: "64 word \<Rightarrow> nat list \<Rightarrow> bool" where
  "odd_bits t js = fold (\<lambda>j b. b \<noteq> bit t j) js False"

lemma odd_bits_count: "odd_bits t js \<longleftrightarrow> odd (length (filter (bit t) js))"
proof -
  have "fold (\<lambda>j b. b \<noteq> bit t j) js x \<longleftrightarrow> (x \<noteq> odd (length (filter (bit t) js)))" for x
    by (induction js arbitrary: x) auto
  then show ?thesis by (simp add: odd_bits_def)
qed

lemma odd_bits_rev: "odd_bits t (rev js) = odd_bits t js"
  by (simp add: odd_bits_count rev_filter [symmetric])

lemma less_10: "(r::nat) < 10 \<longleftrightarrow> r \<in> {0, 1, 2, 3, 4, 5, 6, 7, 8, 9}"
  by auto

lemma less_4: "(c::nat) < 4 \<longleftrightarrow> c \<in> {0, 1, 2, 3}"
  by auto

lemmas em4100_simps = em4100_word_bits upto_40 upto_10 em4100_data_def bit_simps odd_bits_def

lemma em4100_row:
  assumes "r < 10"
  shows "bit (em4100_word t) (50 - 5 * r) = odd_bits t [36 - 4 * r, 37 - 4 * r, 38 - 4 * r, 39 - 4 * r]"
  using assms unfolding less_10 by (elim insertE emptyE) (simp_all add: em4100_simps)

lemma em4100_column:
  assumes "c < 4"
  shows "bit (em4100_word t) (4 - c) = odd_bits t (map (\<lambda>i. 3 - c + 4 * i) [0..<10])"
  using assms unfolding less_4 by (elim insertE emptyE) (simp_all add: em4100_simps numeral_2_eq_2 [symmetric])

lemma em4100_data_bits:
  assumes "r < 10" and "c < 4"
  shows "bit (em4100_word t) (54 - 5 * r - c) = bit t (39 - 4 * r - c)"
  using assms unfolding less_10 less_4 by (elim insertE emptyE) (simp_all add: em4100_simps)

lemma em4100_stop: "\<not> bit (em4100_word t) 0"
  by (simp add: em4100_simps)

definition em4100_bits :: "64 word \<Rightarrow> 8 word list" where
  "em4100_bits t = long_bits (em4100_word t)"

lemma em4100_bits_data:
  assumes "r < 10" and "c < 4"
  shows "em4100_bits t ! (9 + 5 * r + c) = of_bool (bit t (39 - 4 * r - c))"
proof -
  have "63 - (9 + 5 * r + c) = 54 - 5 * r - c" using assms by simp
  then show ?thesis using assms em4100_data_bits [OF assms] by (simp add: em4100_bits_def nth_long_bits)
qed

lemma fold_xor_odd:
  assumes "\<And>k. k \<in> set ks \<Longrightarrow> f k = of_bool (bit t (g k))"
  shows "fold (\<lambda>k r. r XOR f k) ks (of_bool x) = (of_bool (fold (\<lambda>j b. b \<noteq> bit t j) (map g ks) x) :: 'a::len word)"
  using assms by (induction ks arbitrary: x) simp_all

lemma em4100_bits_valid: "em4100_valid (em4100_bits t)"
proof -
  let ?b = "em4100_bits t"
  have stop: "?b ! 63 = 0" by (simp add: em4100_bits_def nth_long_bits em4100_stop)
  have row: "fold (\<lambda>k r. r XOR ?b ! (9 + i * 5 + k)) [0..<4] 0 = ?b ! (9 + i * 5 + 4)" if "i < 10" for i
  proof -
    have "fold (\<lambda>k r. r XOR ?b ! (9 + i * 5 + k)) [0..<4] (of_bool False)
        = of_bool (odd_bits t (map (\<lambda>k. 39 - 4 * i - k) [0..<4]))"
      unfolding odd_bits_def using em4100_bits_data [OF that, of _ t]
      by (intro fold_xor_odd) (simp add: mult.commute)
    also have "map (\<lambda>k. 39 - 4 * i - k) [0..<4] = rev [36 - 4 * i, 37 - 4 * i, 38 - 4 * i, 39 - 4 * i]"
      using that by (simp add: upt_rec)
    also have "(of_bool (odd_bits t \<dots>) :: 8 word) = of_bool (bit (em4100_word t) (50 - 5 * i))"
      unfolding odd_bits_rev em4100_row [OF that] ..
    also have "\<dots> = ?b ! (9 + i * 5 + 4)"
    proof -
      have "63 - (9 + i * 5 + 4) = 50 - 5 * i" by simp
      then show ?thesis using that by (simp add: em4100_bits_def nth_long_bits)
    qed
    finally show ?thesis by simp
  qed
  have col: "fold (\<lambda>k r. r XOR ?b ! (9 + c + k * 5)) [0..<10] 0 = ?b ! (9 + c + 10 * 5)" if "c < 4" for c
  proof -
    have "fold (\<lambda>k r. r XOR ?b ! (9 + c + k * 5)) [0..<10] (of_bool False)
        = of_bool (odd_bits t (map (\<lambda>k. 39 - 4 * k - c) [0..<10]))"
      unfolding odd_bits_def using em4100_bits_data [OF _ that, of _ t]
      by (intro fold_xor_odd) (simp add: mult.commute add.commute add.left_commute)
    also have "map (\<lambda>k. 39 - 4 * k - c) [0..<10] = rev (map (\<lambda>i. 3 - c + 4 * i) [0..<10])"
      using that unfolding upto_10 by simp
    also have "(of_bool (odd_bits t \<dots>) :: 8 word) = of_bool (bit (em4100_word t) (4 - c))"
      unfolding odd_bits_rev em4100_column [OF that] ..
    also have "\<dots> = ?b ! (9 + c + 10 * 5)" using that by (simp add: em4100_bits_def nth_long_bits)
    finally show ?thesis by simp
  qed
  show ?thesis unfolding em4100_valid_def list_all_iff using stop row col by simp
qed

lemma zip_upt4: "zip [a..<4 + a] [w, x, y, z] = [(a, w), (a + 1, x), (a + 2, y), (a + 3, z)]"
  by (simp add: upt_rec [of a] upt_rec [of "Suc a"] upt_rec [of "Suc (Suc a)"] upt_rec [of "Suc (Suc (Suc a))"])

lemma less_8: "(k::nat) < 8 \<longleftrightarrow> k \<in> {0, 1, 2, 3, 4, 5, 6, 7}"
  by auto

lemma less_5: "(k::nat) < 5 \<longleftrightarrow> k \<in> {0, 1, 2, 3, 4}"
  by auto

lemma em4100_bits_byte:
  assumes "i < 5"
  shows "em4100_byte (em4100_bits t) i = ucast (drop_bit (32 - 8 * i) t)"
proof -
  have h: "em4100_bits t ! (9 + 10 * i + c) = of_bool (bit t (39 - 8 * i - c))" if "c < 4" for c
    using em4100_bits_data [of "2 * i" c t] assms that by simp
  have l: "em4100_bits t ! (14 + 10 * i + c) = of_bool (bit t (35 - 8 * i - c))" if "c < 4" for c
  proof -
    have "9 + 5 * (2 * i + 1) + c = 14 + 10 * i + c" "39 - 4 * (2 * i + 1) - c = 35 - 8 * i - c" by simp_all
    moreover have "2 * i + 1 < 10" using assms by simp
    ultimately show ?thesis using em4100_bits_data [of "2 * i + 1" c t] that by metis
  qed
  have z: "zip [9 + 10 * i..<13 + 10 * i] [7, 6, 5, 4] = [(9 + 10 * i, 7), (9 + 10 * i + 1, 6), (9 + 10 * i + 2, 5), (9 + 10 * i + 3, 4)]"
    "zip [14 + 10 * i..<18 + 10 * i] [3, 2, 1, 0] = [(14 + 10 * i, 3), (14 + 10 * i + 1, 2), (14 + 10 * i + 2, 1), (14 + 10 * i + 3, 0)]"
    using zip_upt4 [of "9 + 10 * i"] zip_upt4 [of "14 + 10 * i"] by (simp_all add: add.assoc [symmetric])
  have e: "em4100_byte (em4100_bits t) i =
      0 OR push_bit 7 (of_bool (bit t (39 - 8 * i))) OR push_bit 6 (of_bool (bit t (38 - 8 * i)))
      OR push_bit 5 (of_bool (bit t (37 - 8 * i))) OR push_bit 4 (of_bool (bit t (36 - 8 * i)))
      OR push_bit 3 (of_bool (bit t (35 - 8 * i))) OR push_bit 2 (of_bool (bit t (34 - 8 * i)))
      OR push_bit 1 (of_bool (bit t (33 - 8 * i))) OR push_bit 0 (of_bool (bit t (32 - 8 * i)))"
    unfolding em4100_byte_def z using h [of 0] h [of 1] h [of 2] h [of 3] l [of 0] l [of 1] l [of 2] l [of 3]
    by (simp add: or.assoc)
  show ?thesis
  proof (rule bit_word_eqI)
    fix k assume "k < LENGTH(8)"
    then have "k < 8" by simp
    then show "bit (em4100_byte (em4100_bits t) i) k = bit (ucast (drop_bit (32 - 8 * i) t) :: 8 word) k"
      using assms unfolding e less_8 less_5 bit_or_iff bit_push_of_bool
      by (elim insertE emptyE) (simp_all add: bit_simps)
  qed
qed

lemma find_start_here: "start p \<Longrightarrow> n \<le> unat (e - p) \<Longrightarrow> 0 < n \<Longrightarrow> find_start start n e p = Some p"
  by (auto simp: find_start.simps [of start n e p])

lemma holds_map: "holds data p bs \<Longrightarrow> length bs = n \<Longrightarrow> map (ring data p) [0..<n] = bs"
  by (auto simp: holds_def intro: nth_equalityI)

lemma em4100_search_bits:
  assumes "holds data p (em4100_bits t)" and "64 \<le> unat (e - p)"
  shows "em4100_search data e p = Some (map (\<lambda>i. ucast (drop_bit (32 - 8 * i) t)) [0..<5])"
proof -
  have "ring data p i = 1" if "i < 9" for i
    using assms(1) that em4100_head [of "63 - i" t] by (simp add: holds_def em4100_bits_def nth_long_bits)
  then have "em4100_start data p" unfolding em4100_start_def list_all_iff by simp
  then have "find_start (em4100_start data) 64 e p = Some p" using assms(2) by (intro find_start_here) simp_all
  moreover have "map (ring data p) [0..<64] = em4100_bits t"
    using assms(1) by (intro holds_map) (simp_all add: em4100_bits_def)
  moreover have "map (em4100_byte (em4100_bits t)) [0..<5] = map (\<lambda>i. ucast (drop_bit (32 - 8 * i) t)) [0..<5]"
    by (intro map_cong) (simp_all only: em4100_bits_byte atLeastLessThan_upt [symmetric] atLeastLessThan_iff)
  ultimately show ?thesis
    using em4100_bits_valid [of t] by (simp add: em4100_search.simps [of data e p] Let_def del: upt_rec_numeral)
qed

text \<open>The text of some bytes, read back as a number.\<close>

definition bytes_value :: "8 word list \<Rightarrow> nat" where
  "bytes_value bs = foldl (\<lambda>n b. 256 * n + unat b) 0 bs"

lemma bytes_value_snoc: "bytes_value (bs @ [b]) = 256 * bytes_value bs + unat b"
  by (simp add: bytes_value_def)

lemma byte_less: "unat (b :: 8 word) < 256"
  using unsigned_less [of b, where 'a = nat] by simp

lemma bytes_value_less: "bytes_value bs < 256 ^ length bs"
proof (induction bs rule: rev_induct)
  case (snoc b bs)
  have "256 * v + unat b < 256 * n" if "v < n" for v n using that byte_less [of b] by linarith
  from this [OF snoc] show ?case by (simp add: bytes_value_snoc)
qed (simp add: bytes_value_def)

lemma bytes_value_nth: "i < length bs \<Longrightarrow> bytes_value bs div 256 ^ (length bs - Suc i) mod 256 = unat (bs ! i)"
proof (induction bs rule: rev_induct)
  case (snoc b bs)
  show ?case
  proof (cases "i = length bs")
    case True
    then show ?thesis using byte_less [of b] by (simp add: bytes_value_snoc)
  next
    case False
    with snoc.prems have i: "i < length bs" by simp
    then have "length (bs @ [b]) - Suc i = Suc (length bs - Suc i)" by simp
    then have "bytes_value (bs @ [b]) div 256 ^ (length (bs @ [b]) - Suc i)
        = (256 * bytes_value bs + unat b) div 256 div 256 ^ (length bs - Suc i)"
      by (simp only: bytes_value_snoc power_Suc div_mult2_eq)
    also have "(256 * bytes_value bs + unat b) div 256 = bytes_value bs" using byte_less [of b] by simp
    finally show ?thesis using snoc.IH [OF i] i by (simp add: nth_append)
  qed
qed simp

lemma hex_digit_plain:
  assumes "n < 16"
  shows "is_xdigit (hex_digit n)" "\<not> is_space (hex_digit n)" "hex_digit n \<noteq> CHR ''-''" "hex_digit n \<noteq> CHR ''+''"
    "hex_digit n \<noteq> CHR ''x''" "hex_digit n \<noteq> CHR ''X''"
proof -
  show x: "is_xdigit (hex_digit n)" using assms by (simp add: is_xdigit_def)
  have "hexval (CHR ''-'') = -1" "hexval (CHR ''+'') = -1" "hexval (CHR ''x'') = -1" "hexval (CHR ''X'') = -1"
    by (simp_all add: hexval_def)
  with x show "hex_digit n \<noteq> CHR ''-''" "hex_digit n \<noteq> CHR ''+''" "hex_digit n \<noteq> CHR ''x''" "hex_digit n \<noteq> CHR ''X''"
    by (auto simp: is_xdigit_def)
  show "\<not> is_space (hex_digit n)" using assms by (auto simp: is_space_def hex_digit_def of_char_of)
qed

lemma hex_byte: "hex_pad 2 (unat (b :: 8 word)) = [hex_digit (unat b div 16), hex_digit (unat b mod 16)]"
  using byte_less [of b] by (rule hex_pad_2)

lemma hex_bytes_Cons: "hex_bytes (b # bs) = hex_digit (unat b div 16) # hex_digit (unat b mod 16) # hex_bytes bs"
  by (simp add: hex_bytes_def hex_byte)

lemma half_byte: "unat (b :: 8 word) div 16 < 16"
  using byte_less [of b] by (simp add: less_mult_imp_div_less)

lemma length_hex_bytes [simp]: "length (hex_bytes bs) = 2 * length bs"
  by (induction bs) (simp_all add: hex_bytes_Cons, simp add: hex_bytes_def)

lemma hex_value_hex_bytes: "hex_value (hex_bytes bs) = int (bytes_value bs)"
proof -
  have "list_all is_xdigit (hex_bytes bs)"
    by (induction bs) (simp_all add: hex_bytes_Cons hex_digit_plain half_byte, simp add: hex_bytes_def)
  then have "takeWhile is_xdigit (hex_bytes bs) = hex_bytes bs" by (simp add: list_all_iff takeWhile_eq_all_conv)
  moreover have "foldl (\<lambda>n c. 16 * n + hexval c) (int m) (hex_bytes bs) = int (foldl (\<lambda>n b. 256 * n + unat b) m bs)" for m
  proof (induction bs arbitrary: m)
    case (Cons b bs)
    have "16 * (16 * m + unat b div 16) + unat b mod 16 = 256 * m + unat b" by simp
    from arg_cong [OF this, of int]
    have "16 * (16 * int m + int (unat b div 16)) + int (unat b mod 16) = int (256 * m + unat b)"
      by (simp only: of_nat_add of_nat_mult of_nat_numeral)
    moreover have "foldl (\<lambda>n c. 16 * n + hexval c) (int m) (hex_bytes (b # bs))
        = foldl (\<lambda>n c. 16 * n + hexval c) (16 * (16 * int m + int (unat b div 16)) + int (unat b mod 16)) (hex_bytes bs)"
      by (simp only: hex_bytes_Cons foldl_Cons hexval_hex_digit half_byte mod_less_divisor zero_less_numeral)
    ultimately show ?case using Cons [of "256 * m + unat b"] by (simp only: foldl_Cons)
  qed (simp add: hex_bytes_def)
  from this [of 0] have "foldl (\<lambda>n c. 16 * n + hexval c) 0 (hex_bytes bs) = int (bytes_value bs)" by (simp add: bytes_value_def)
  ultimately show ?thesis by (simp only: hex_value_def)
qed

lemma strtoll16_hex_bytes:
  assumes "length bs \<le> 7"
  shows "strtoll16 (hex_bytes bs) = int (bytes_value bs)"
proof -
  have "bytes_value bs < 256 ^ length bs" by (rule bytes_value_less)
  also have "(256::nat) ^ length bs \<le> 256 ^ 7" using assms by (intro power_increasing) auto
  finally have v: "clamp64 (int (bytes_value bs)) = int (bytes_value bs)" by (simp add: clamp64_def)
  show ?thesis
  proof (cases bs)
    case Nil
    then show ?thesis by (simp add: strtoll16_def hex_bytes_def bytes_value_def clamp64_def)
  next
    case (Cons b cs)
    have "after_0x (hex_bytes bs) = hex_bytes bs"
      using hex_digit_plain(5,6) [of "unat b mod 16"]
      by (simp add: after_0x_def Cons hex_bytes_Cons split: list.split)
    moreover have "dropWhile is_space (hex_bytes bs) = hex_bytes bs"
      using hex_digit_plain(2) [OF half_byte [of b]] by (simp add: Cons hex_bytes_Cons)
    ultimately show ?thesis
      using hex_digit_plain(3,4) [OF half_byte [of b]] v hex_value_hex_bytes [of bs]
      by (simp add: strtoll16_def Cons hex_bytes_Cons)
  qed
qed

lemma bytes_of_value:
  assumes "length bs = 5" and "i < 5"
  shows "ucast (drop_bit (32 - 8 * i) (word_of_nat (bytes_value bs) :: 64 word)) = bs ! i"
proof -
  have v: "bytes_value bs < 256 ^ 5" using bytes_value_less [of bs] assms(1) by simp
  then have u: "unat (word_of_nat (bytes_value bs) :: 64 word) = bytes_value bs" by (simp add: unat_of_nat)
  have p: "(2::nat) ^ (32 - 8 * i) = 256 ^ (length bs - Suc i)"
    using assms unfolding less_5 by (elim insertE emptyE) simp_all
  have "unat (ucast (drop_bit (32 - 8 * i) (word_of_nat (bytes_value bs) :: 64 word)) :: 8 word)
      = bytes_value bs div 2 ^ (32 - 8 * i) mod 256"
    unfolding unsigned_ucast_eq unsigned_drop_bit_eq u using v by (simp add: take_bit_eq_mod drop_bit_eq_div)
  also have "\<dots> = unat (bs ! i)" unfolding p using bytes_value_nth [of i bs] assms by simp
  finally show ?thesis by (simp add: word_unat_eq_iff)
qed

text \<open>The EM4100 text of five bytes, programmed and read back.\<close>

lemma em4100_read_back:
  assumes "length bs = 5" and "2 \<le> n" and "64 \<le> unat (e - p)"
    and "encodeEM4100 (Some (hex_bytes bs)) n = (r, ws)" and "holds data p (block_bits ws)"
  shows "r = EPHIDGET_OK
    \<and> decodeEM4100 data p e tag =
        (EPHIDGET_OK, p + 64, tag\<lparr> protocol := PHIDGET_RFID_PROTOCOL_EM4100, tagString := hex_bytes bs,
           tagData := bs @ drop 5 (tagData tag) \<rparr>)"
proof -
  let ?t = "word_of_nat (bytes_value bs) :: 64 word"
  have "encodeEM4100 (Some (hex_bytes bs)) n = (EPHIDGET_OK, [high_block (em4100_word ?t), low_block (em4100_word ?t)])"
    using assms(1,2) by (simp add: encodeEM4100_def strtoll16_hex_bytes em4100_word_def Let_def)
  with assms(4) have r: "r = EPHIDGET_OK" and ws: "ws = [high_block (em4100_word ?t), low_block (em4100_word ?t)]" by simp_all
  have "block_bits ws = em4100_bits ?t" using block_bits_long [of "em4100_word ?t" "[]"] ws by (simp add: em4100_bits_def block_bits_def)
  with assms(5) have "em4100_search data e p = Some (map (\<lambda>i. ucast (drop_bit (32 - 8 * i) ?t)) [0..<5])"
    by (intro em4100_search_bits [OF _ assms(3)]) simp
  also have "map (\<lambda>i. ucast (drop_bit (32 - 8 * i) ?t)) [0..<5] = bs"
    by (rule nth_equalityI) (simp_all add: assms(1) bytes_of_value del: upt_rec_numeral)
  finally show ?thesis using r by (simp add: decodeEM4100_def)
qed

text \<open>
  C37: a tag programmed with the EM4100 text of five bytes sends 64 bits that, wherever they stand
  in the queue of the Manchester decoder, are read back as these five bytes and this text.\<close>

theorem em4100_roundtrip:
  assumes "length bs = 5" and "2 \<le> n" and "64 \<le> unat (e - p)"
    and "encodeEM4100 (Some (hex_bytes bs)) n = (r, ws)" and "holds data p (block_bits ws)"
  shows "r = EPHIDGET_OK
    \<and> decodeEM4100 data p e tag =
        (EPHIDGET_OK, p + 64, tag\<lparr> protocol := PHIDGET_RFID_PROTOCOL_EM4100, tagString := hex_bytes bs,
           tagData := bs @ drop 5 (tagData tag) \<rparr>)"
  by (rule em4100_read_back [OF assms])

lemma holds_front: "length bs \<le> 1024 \<Longrightarrow> holds (bs @ rest) 0 bs"
  by (simp add: holds_def ring_def unat_of_nat nth_append)

lemma sample_hex: "hex_bytes [0x90, 0xfd, 0x32, 0x98, 0x7b] = ''90fd32987b''"
  by code_simp

theorem em4100_roundtrip_witness:
  "\<exists>ws. encodeEM4100 (Some ''90fd32987b'') 7 = (EPHIDGET_OK, ws)
     \<and> tagString (snd (snd (decodeEM4100 (block_bits ws @ replicate 960 1) 0 64 zero_tag))) = ''90fd32987b''"
proof -
  obtain r ws where e: "encodeEM4100 (Some ''90fd32987b'') 7 = (r, ws)" by force
  have l: "length (block_bits ws) = 32 * length ws" by (simp add: block_bits_def length_concat o_def sum_list_triv)
  have "length ws \<le> 2" using e by (auto simp: encodeEM4100_def Let_def split: if_splits)
  with l have "holds (block_bits ws @ replicate 960 1) 0 (block_bits ws)" by (intro holds_front) simp
  then show ?thesis
    using em4100_roundtrip [of "[0x90, 0xfd, 0x32, 0x98, 0x7b]" 7 64 0 r ws "block_bits ws @ replicate 960 1" zero_tag] e
    by (simp add: sample_hex)
qed

end
