(* ===== verification/RfidTagProps.thy ===== *)
theory RfidTagProps
  imports RfidCodeProps
begin

unbundle bit_operations_syntax

text \<open>
  The checksum and the bit reversal of the tag protocols, and the round trips of the two
  protocols that use them: FDX-B and the Phidgets protocol.
\<close>

section \<open>Checksum and reversal\<close>

text \<open>The CRC of the polynomial \<open>x^16 + x^12 + x^5 + 1\<close>, one bit at a time, high bits first.\<close>

definition crc_bit :: "bool \<Rightarrow> 16 word \<Rightarrow> 16 word" where
  "crc_bit b c = (if bit c 15 \<noteq> b then push_bit 1 c XOR 0x1021 else push_bit 1 c)"

definition crc_byte :: "8 word \<Rightarrow> 16 word \<Rightarrow> 16 word" where
  "crc_byte x c = fold (\<lambda>i. crc_bit (bit x (7 - i))) [0..<8] c"

lemma less_16: "(k::nat) < 16 \<longleftrightarrow> k \<in> {0, 1, 2, 3, 4, 5, 6, 7, 8, 9, 10, 11, 12, 13, 14, 15}"
  by (simp, presburger)

lemma bit_crc_bit:
  "k < 16 \<Longrightarrow> bit (crc_bit b c) k \<longleftrightarrow> (0 < k \<and> bit c (k - 1)) \<noteq> ((bit c 15 \<noteq> b) \<and> (k = 0 \<or> k = 5 \<or> k = 12))"
  for c :: "16 word"
proof -
  assume k: "k < 16"
  have p: "bit (0x1021 :: 16 word) k \<longleftrightarrow> k = 0 \<or> k = 5 \<or> k = 12"
    using k unfolding less_16 by (elim insertE emptyE) simp_all
  have s: "bit (push_bit 1 c) k \<longleftrightarrow> 0 < k \<and> bit c (k - 1)"
    using k unfolding bit_push_bit_iff by auto
  show ?thesis
  proof (cases "bit c 15 \<noteq> b")
    case True
    then show ?thesis unfolding crc_bit_def if_P [OF True] bit_xor_iff s p by blast
  next
    case False
    then show ?thesis unfolding crc_bit_def if_not_P [OF False] s by blast
  qed
qed

lemma upto_8: "[0..<8] = [0, 1, 2, 3, 4, 5, 6, 7::nat]"
  by (simp add: upt_rec)

text \<open>
  C40: the checksum the reader computes, byte by byte and without a table, is the CRC-CCITT: the division by its
  polynomial one bit at a time.\<close>

theorem CRC_16_CCITT_is_crc: "CRC_16_CCITT_update c x = crc_byte x c"
proof (rule bit_word_eqI)
  have high: "\<not> bit c n" if "16 \<le> n" for n using that bit_imp_le_length [of c n] by force
  have high8: "\<not> bit x n" if "8 \<le> n" for n using that bit_imp_le_length [of x n] by force
  fix k assume "k < LENGTH(16)"
  then have "k < 16" by simp
  then show "bit (CRC_16_CCITT_update c x) k = bit (crc_byte x c) k"
    unfolding less_16
    by (elim insertE emptyE; simp add: CRC_16_CCITT_update_def Let_def crc_byte_def upto_8 bit_crc_bit bit_simps high high8; argo?)
qed

definition swapped :: "nat \<Rightarrow> nat \<Rightarrow> nat" where
  "swapped s k = (if odd (k div s) then k - s else k + s)"

lemma swap_stage:
  assumes "0 < s" and "k < 64"
    and m: "\<forall>k \<in> set [0..<64]. bit m k = odd (k div s)" and n: "\<forall>k \<in> set [0..<64]. bit n k = even (k div s)"
  shows "bit (drop_bit s (x AND m) OR push_bit s (x AND n) :: 64 word) k = bit x (swapped s k)"
proof -
  have high: "\<not> bit x j" if "64 \<le> j" for j using that bit_imp_le_length [of x j] by force
  have up: "bit (drop_bit s (x AND m)) k \<longleftrightarrow> even (k div s) \<and> bit x (k + s)"
  proof (cases "k + s < 64")
    case True
    moreover have "odd ((k + s) div s) = even (k div s)" using div_add_self2 [of s k] assms(1) by simp
    ultimately show ?thesis using m by (auto simp: bit_drop_bit_eq bit_and_iff add.commute [of s])
  next
    case False
    with high [of "k + s"] show ?thesis by (simp add: bit_drop_bit_eq bit_and_iff add.commute)
  qed
  have down: "bit (push_bit s (x AND n)) k \<longleftrightarrow> odd (k div s) \<and> bit x (k - s)"
  proof (cases "s \<le> k")
    case True
    then have "k div s = Suc ((k - s) div s)" using assms(1) by (simp add: le_div_geq)
    then show ?thesis using n assms(2) True by (auto simp: bit_push_bit_iff bit_and_iff)
  next
    case False
    with assms(1) have "k div s = 0" by simp
    with False show ?thesis unfolding bit_push_bit_iff by simp
  qed
  show ?thesis unfolding bit_or_iff up down by (auto simp: swapped_def)
qed

lemma masks:
  "\<forall>k \<in> set [0..<64]. bit (0xaaaaaaaaaaaaaaaa :: 64 word) k = odd (k div 1)"
  "\<forall>k \<in> set [0..<64]. bit (0x5555555555555555 :: 64 word) k = even (k div 1)"
  "\<forall>k \<in> set [0..<64]. bit (0xcccccccccccccccc :: 64 word) k = odd (k div 2)"
  "\<forall>k \<in> set [0..<64]. bit (0x3333333333333333 :: 64 word) k = even (k div 2)"
  "\<forall>k \<in> set [0..<64]. bit (0xf0f0f0f0f0f0f0f0 :: 64 word) k = odd (k div 4)"
  "\<forall>k \<in> set [0..<64]. bit (0x0f0f0f0f0f0f0f0f :: 64 word) k = even (k div 4)"
  "\<forall>k \<in> set [0..<64]. bit (0xff00ff00ff00ff00 :: 64 word) k = odd (k div 8)"
  "\<forall>k \<in> set [0..<64]. bit (0x00ff00ff00ff00ff :: 64 word) k = even (k div 8)"
  "\<forall>k \<in> set [0..<64]. bit (0xffff0000ffff0000 :: 64 word) k = odd (k div 16)"
  "\<forall>k \<in> set [0..<64]. bit (0x0000ffff0000ffff :: 64 word) k = even (k div 16)"
  by code_simp+

lemma swapped_less: "s \<in> {1, 2, 4, 8, 16} \<Longrightarrow> k < 64 \<Longrightarrow> swapped s k < 64"
proof -
  have "\<forall>s \<in> set [1, 2, 4, 8, 16]. \<forall>k \<in> set [0..<64]. swapped s k < 64" by code_simp
  then show "s \<in> {1, 2, 4, 8, 16} \<Longrightarrow> k < 64 \<Longrightarrow> swapped s k < 64" by (elim insertE emptyE) simp_all
qed

lemma swapped_all:
  assumes "k < 64"
  shows "swapped 1 (swapped 2 (swapped 4 (swapped 8 (swapped 16 (swapped 32 k))))) = 63 - k"
proof -
  have "map (swapped 1) (map (swapped 2) (map (swapped 4) (map (swapped 8) (map (swapped 16) (map (swapped 32) [0..<64])))))
      = rev [0..<64]" by code_simp
  then have "map (swapped 1) (map (swapped 2) (map (swapped 4) (map (swapped 8) (map (swapped 16) (map (swapped 32) [0..<64]))))) ! k
      = rev [0..<64] ! k" by (rule arg_cong)
  with assms show ?thesis by (simp add: rev_nth del: upt_rec_numeral)
qed

lemma bit_reverse:
  assumes "k < 64"
  shows "bit (reverse x) k = bit x (63 - k)"
proof -
  have c: "odd (k div 32) \<longleftrightarrow> 32 \<le> k"
  proof (cases "32 \<le> k")
    case True
    then have "k div 32 = 1" using assms by (simp add: le_div_geq)
    with True show ?thesis by simp
  qed simp
  have half: "bit (drop_bit 32 y OR push_bit 32 y :: 64 word) k = bit y (swapped 32 k)" for y
    using assms bit_imp_le_length [of y "k + 32"] by (auto simp: swapped_def bit_simps add.commute c)
  let ?k1 = "swapped 32 k" let ?k2 = "swapped 16 ?k1" let ?k3 = "swapped 8 ?k2" let ?k4 = "swapped 4 ?k3" let ?k5 = "swapped 2 ?k4"
  have k: "?k1 < 64" using assms c by (auto simp: swapped_def)
  have k2: "?k2 < 64" by (rule swapped_less) (simp_all add: k)
  have k3: "?k3 < 64" by (rule swapped_less) (simp_all add: k2)
  have k4: "?k4 < 64" by (rule swapped_less) (simp_all add: k3)
  have k5: "?k5 < 64" by (rule swapped_less) (simp_all add: k4)
  note stage = swap_stage [OF _ k masks(9,10)] swap_stage [OF _ k2 masks(7,8)] swap_stage [OF _ k3 masks(5,6)]
    swap_stage [OF _ k4 masks(3,4)] swap_stage [OF _ k5 masks(1,2)]
  show ?thesis
    unfolding reverse_def Let_def half by (subst stage, simp)+ (simp only: swapped_all [OF assms])
qed

section \<open>Reading bits between ones\<close>

lemma before_eight:
  assumes "0 < i" and "i mod 8 = (0::nat)"
  shows "(i - 1) div 8 = i div 8 - 1 \<and> 0 < i div 8"
proof -
  obtain q where q: "i = 8 * Suc q" using assms by (cases "i div 8") (auto elim!: dvdE)
  then have "i - 1 = 7 + 8 * q" by simp
  then have "(i - 1) div 8 = q" by simp
  with q show ?thesis by simp
qed

lemma within_eight:
  assumes "\<not> (0 < i \<and> i mod 8 = (0::nat))"
  shows "(i - 1) div 8 = i div 8"
proof (cases i)
  case (Suc m)
  with assms have "Suc m mod 8 \<noteq> 0" by simp
  then have "Suc m div 8 = m div 8" by (simp add: div_Suc)
  with Suc show ?thesis by simp
qed simp

lemma take_bits_layout:
  assumes "\<And>j. j < i + n \<Longrightarrow> r (k0 + j + j div 8) = f j"
    and "\<And>j. 0 < j \<Longrightarrow> j < i + n \<Longrightarrow> j mod 8 = 0 \<Longrightarrow> r (k0 + j + j div 8 - 1) = 1"
  shows "take_bits r n i (k0 + i + (i - 1) div 8) = Some (map f [i..<i + n], k0 + (i + n) + (i + n - 1) div 8)"
  using assms
proof (induction n arbitrary: i)
  case (Suc n)
  have ih: "take_bits r n (Suc i) (k0 + Suc i + (Suc i - 1) div 8)
      = Some (map f [Suc i..<Suc i + n], k0 + (Suc i + n) + (Suc i + n - 1) div 8)"
    using Suc.prems by (intro Suc.IH) auto
  have r: "r (k0 + i + i div 8) = f i" using Suc.prems(1) by simp
  have u: "[i..<i + Suc n] = i # [Suc i..<Suc i + n]" by (simp add: upt_conv_Cons del: upt_Suc)
  show ?case
  proof (cases "0 < i \<and> i mod 8 = 0")
    case True
    with before_eight [of i] have k: "k0 + i + (i - 1) div 8 = k0 + i + i div 8 - 1" "0 < i div 8" by auto
    have "r (k0 + i + i div 8 - 1) = 1" using Suc.prems(2) [of i] True by simp
    with True k ih r show ?thesis unfolding u take_bits.simps Let_def by simp
  next
    case False
    with within_eight [of i] have "(i - 1) div 8 = i div 8" by simp
    with False ih r show ?thesis unfolding u take_bits.simps Let_def by auto
  qed
qed simp

lemma crc_bits_layout:
  assumes "\<And>j. j < i + n \<Longrightarrow> r (k0 + j + j div 8) = f j"
    and "\<And>j. 0 < j \<Longrightarrow> j < i + n \<Longrightarrow> j mod 8 = 0 \<Longrightarrow> r (k0 + j + j div 8 - 1) = 1"
  shows "crc_bits r n i (k0 + i + (i - 1) div 8) c
    = (True, k0 + (i + n) + (i + n - 1) div 8, fold (\<lambda>j c. c OR push_bit (15 - j) (ucast (f j))) [i..<i + n] c)"
  using assms
proof (induction n arbitrary: i c)
  case (Suc n)
  have ih: "crc_bits r n (Suc i) (k0 + Suc i + (Suc i - 1) div 8) c
      = (True, k0 + (Suc i + n) + (Suc i + n - 1) div 8, fold (\<lambda>j c. c OR push_bit (15 - j) (ucast (f j))) [Suc i..<Suc i + n] c)" for c
    using Suc.prems by (intro Suc.IH) auto
  have r: "r (k0 + i + i div 8) = f i" using Suc.prems(1) by simp
  have u: "[i..<i + Suc n] = i # [Suc i..<Suc i + n]" by (simp add: upt_conv_Cons del: upt_Suc)
  show ?case
  proof (cases "0 < i \<and> i mod 8 = 0")
    case True
    with before_eight [of i] have k: "k0 + i + (i - 1) div 8 = k0 + i + i div 8 - 1" "0 < i div 8" by auto
    have "r (k0 + i + i div 8 - 1) = 1" using Suc.prems(2) [of i] True by simp
    with True k ih r show ?thesis unfolding u crc_bits.simps Let_def by simp
  next
    case False
    with within_eight [of i] have "(i - 1) div 8 = i div 8" by simp
    with False ih r show ?thesis unfolding u crc_bits.simps Let_def by auto
  qed
qed simp

lemma bit_fold_or:
  "bit (fold (\<lambda>j d. d OR push_bit (g j) (of_bool (P j))) js d :: 'a::len word) k
     \<longleftrightarrow> bit d k \<or> k < LENGTH('a) \<and> (\<exists>j \<in> set js. g j = k \<and> P j)"
  by (induction js arbitrary: d) (auto simp: bit_or_iff bit_push_of_bool)

end
