(* ===== verification/RfidFdxProps.thy ===== *)
theory RfidFdxProps
  imports RfidTagProps
begin

unbundle bit_operations_syntax

text \<open>
  The round trips of the two protocols with a checksum, FDX-B and the Phidgets protocol.
\<close>

section \<open>FDX-B\<close>

definition fdx_b_bits :: "64 word \<Rightarrow> 8 word list" where
  "fdx_b_bits t = long_bits (fst (fdx_b_blocks t)) @ long_bits (snd (fdx_b_blocks t))"

lemma fdx_b_bits_nth:
  "fdx_b_bits t ! i = of_bool (if i < 64 then bit (fst (fdx_b_blocks t)) (63 - i) else bit (snd (fdx_b_blocks t)) (127 - i))"
  if "i < 128"
  using that by (simp add: fdx_b_bits_def nth_append nth_long_bits)

lemma upto_6: "[0..<6] = [0, 1, 2, 3, 4, 5::nat]"
  by (simp add: upt_rec)

lemma upto_2: "[0..<2] = [0, 1::nat]"
  by (simp add: upt_rec)

lemmas fdx_b_simps = fdx_b_bits_nth fdx_b_blocks_def Let_def upto_6 upto_2 bit_simps

lemma fdx_b_header: "i < 10 \<Longrightarrow> fdx_b_bits t ! i = 0" "fdx_b_bits t ! 10 = 1"
proof -
  show "i < 10 \<Longrightarrow> fdx_b_bits t ! i = 0"
    unfolding less_10 by (elim insertE emptyE) (simp_all add: fdx_b_simps)
  show "fdx_b_bits t ! 10 = 1" by (simp add: fdx_b_simps)
qed

lemma fdx_b_data_bits:
  assumes "m < 8" and "c < 8"
  shows "fdx_b_bits t ! (11 + 9 * m + c) = of_bool (bit t (63 - 8 * m - c))"
  using assms unfolding less_8 by (elim insertE emptyE) (simp_all add: fdx_b_simps)

lemma fdx_b_controls:
  assumes "m < 10"
  shows "fdx_b_bits t ! (19 + 9 * m) = 1"
  using assms unfolding less_10 by (elim insertE emptyE) (simp_all add: fdx_b_simps)

lemma fdx_b_crc_bits:
  assumes "c < 8"
  shows "fdx_b_bits t ! (83 + c) = of_bool (bit (fdx_b_crc t) (15 - c))"
    and "fdx_b_bits t ! (92 + c) = of_bool (bit (fdx_b_crc t) (7 - c))"
  using assms unfolding less_8 by (elim insertE emptyE; simp add: fdx_b_simps)+

text \<open>Bytes from their bits.\<close>

lemma bit_byte_first_high: "k < 8 \<Longrightarrow> bit (byte_first_high (map (\<lambda>c. of_bool (g c)) [0..<8])) k = g (7 - k)"
  unfolding less_8 byte_first_high_def upto_8
  by (elim insertE emptyE) (simp_all add: bit_or_iff bit_push_of_bool)

lemma bit_byte_first_low: "k < 8 \<Longrightarrow> bit (byte_first_low (map (\<lambda>c. of_bool (g c)) [0..<8])) k = g k"
  unfolding less_8 byte_first_low_def upto_8
  by (elim insertE emptyE) (simp_all add: bit_or_iff bit_push_of_bool)

lemma checksum_of_fold:
  "checksum_of bs = fold (\<lambda>j c. c OR push_bit (15 - j) (ucast (bs ! j))) [0..<length bs] 0"
proof -
  have "enumerate 0 bs = map (\<lambda>j. (j, bs ! j)) [0..<length bs]"
    by (rule nth_equalityI) (simp_all add: nth_enumerate_eq)
  then show ?thesis by (simp add: checksum_of_def fold_map o_def)
qed

lemma ucast_of_bool [simp]: "ucast (of_bool b :: 'a::len word) = (of_bool b :: 'b::len word)"
  by (cases b) simp_all

lemma checksum_bits: "fold (\<lambda>j d. d OR push_bit (15 - j) (of_bool (bit c (15 - j)))) [0..<16] 0 = (c :: 16 word)"
proof (rule bit_word_eqI)
  fix k assume "k < LENGTH(16)"
  then have k: "k < 16" by simp
  have "(\<exists>j \<in> set [0..<16]. 15 - j = k \<and> bit c (15 - j)) \<longleftrightarrow> bit c k"
  proof
    assume "bit c k"
    with k show "\<exists>j \<in> set [0..<16]. 15 - j = k \<and> bit c (15 - j)" by (intro bexI [of _ "15 - k"]) auto
  qed auto
  with k show "bit (fold (\<lambda>j d. d OR push_bit (15 - j) (of_bool (bit c (15 - j)))) [0..<16] (0 :: 16 word)) k = bit c k"
    using bit_fold_or [where g = "\<lambda>j. 15 - j" and P = "\<lambda>j. bit c (15 - j)" and js = "[0..<16]" and d = "0 :: 16 word" and k = k]
    by (simp del: upt_rec_numeral)
qed

lemma eights_map: "eights (map f [0..<64]) = map (\<lambda>m. map (\<lambda>c. f (8 * m + c)) [0..<8]) [0..<8]"
proof -
  have "take 8 (drop (8 * m) (map f [0..<64])) = map (\<lambda>c. f (8 * m + c)) [0..<8]" if "m < 8" for m
    using that by (intro nth_equalityI) (simp_all add: ac_simps del: upt_rec_numeral)
  then show ?thesis by (simp add: eights_def del: upt_rec_numeral)
qed

lemma fdx_b_bits_at: "i < 64 \<Longrightarrow> fdx_b_bits t ! (11 + i + i div 8) = of_bool (bit t (63 - i))"
proof -
  assume i: "i < 64"
  define m c where "m = i div 8" and "c = i mod 8"
  have mc: "m < 8" "c < 8" "i = 8 * m + c" using i by (simp_all add: m_def c_def less_mult_imp_div_less)
  have d: "i div 8 = m" by (simp add: m_def)
  have "11 + i + i div 8 = 11 + 9 * m + c" "63 - i = 63 - 8 * m - c" unfolding d using mc(3) by linarith+
  with fdx_b_data_bits [OF mc(1,2)] show ?thesis by metis
qed

lemma fdx_b_crc_at: "i < 16 \<Longrightarrow> fdx_b_bits t ! (83 + i + i div 8) = of_bool (bit (fdx_b_crc t) (15 - i))"
proof (cases "i < 8")
  case True
  then show ?thesis using fdx_b_crc_bits(1) [of i t] by simp
next
  case False
  assume "i < 16"
  with False have "i div 8 = 1" by (simp add: le_div_geq)
  with False \<open>i < 16\<close> show ?thesis using fdx_b_crc_bits(2) [of "i - 8" t] by simp
qed

lemma eighth: "0 < j \<Longrightarrow> j mod 8 = 0 \<Longrightarrow> j < 8 * n \<Longrightarrow> \<exists>m < n - 1. j + j div 8 = 9 * m + (9::nat)"
  by (rule exI [of _ "j div 8 - 1"]) (auto elim!: dvdE)

lemma fdx_b_message_bits:
  assumes "\<And>i. i < 101 \<Longrightarrow> r i = fdx_b_bits t ! (11 + i)"
  shows "fdx_b_message r = Some (rev (map (\<lambda>m. byte_first_low (map (\<lambda>c. of_bool (bit t (63 - (8 * m + c)))) [0..<8])) [0..<8]))"
proof -
  let ?f = "\<lambda>i. of_bool (bit t (63 - i)) :: 8 word"
  have one: "r (9 * m + 8) = 1" if "m < 10" for m
    using assms [of "9 * m + 8"] fdx_b_controls [OF that, of t] that by (simp add: add.commute)
  have t1: "take_bits r 64 0 0 = Some (map ?f [0..<64], 71)"
  proof -
    have "r (0 + j + j div 8) = ?f j" if "j < 64" for j
    proof -
      have "j div 8 < 8" using that by (simp add: less_mult_imp_div_less)
      then show ?thesis using that assms [of "j + j div 8"] fdx_b_bits_at [OF that, of t] by (simp add: add.assoc)
    qed
    moreover have "r (0 + j + j div 8 - 1) = 1" if j: "0 < j" "j < 64" "j mod 8 = 0" for j
    proof -
      obtain m where "m < 7" "j + j div 8 = 9 * m + 9" using eighth [OF j(1,3), of 8] j(2) by auto
      with one [of m] show ?thesis by (simp add: add.commute)
    qed
    ultimately show ?thesis using take_bits_layout [of 0 64 r 0 ?f] by (simp del: upt_rec_numeral)
  qed
  have t2: "take_bits r 16 0 72 = Some (map (\<lambda>j. of_bool (bit (fdx_b_crc t) (15 - j))) [0..<16], 89)"
  proof -
    have "r (72 + j + j div 8) = of_bool (bit (fdx_b_crc t) (15 - j))" if "j < 16" for j
    proof -
      have "j div 8 < 2" using that by (simp add: less_mult_imp_div_less)
      then show ?thesis using that assms [of "72 + j + j div 8"] fdx_b_crc_at [OF that, of t] by (simp add: add.assoc)
    qed
    moreover have "r (72 + j + j div 8 - 1) = 1" if j: "0 < j" "j < 16" "j mod 8 = 0" for j
    proof -
      obtain m where "m < 1" "j + j div 8 = 9 * m + 9" using eighth [OF j(1,3), of 2] j(2) by auto
      with one [of 8] show ?thesis by (simp add: add.assoc)
    qed
    ultimately show ?thesis
      using take_bits_layout [of 0 16 r 72 "\<lambda>j. of_bool (bit (fdx_b_crc t) (15 - j))"] by (simp del: upt_rec_numeral)
  qed
  have crc: "fold (\<lambda>b crc. CRC_16_CCITT_update crc b) (map byte_first_high (eights (map ?f [0..<64]))) 0 = fdx_b_crc t"
  proof -
    have "byte_first_high (map (\<lambda>c. ?f (8 * m + c)) [0..<8]) = ucast (drop_bit (56 - 8 * m) t AND 0xFF)" if "m < 8" for m
    proof (rule bit_word_eqI)
      fix k assume "k < LENGTH(8)"
      then have k: "k < 8" by simp
      then have "bit (0xFF :: 64 word) k" unfolding less_8 by (elim insertE emptyE) simp_all
      moreover have "63 - (8 * m + (7 - k)) = 56 - 8 * m + k" using k that by simp
      ultimately show "bit (byte_first_high (map (\<lambda>c. ?f (8 * m + c)) [0..<8])) k = bit (ucast (drop_bit (56 - 8 * m) t AND 0xFF) :: 8 word) k"
        using k by (simp add: bit_byte_first_high bit_simps del: upt_rec_numeral)
    qed
    then have "map (\<lambda>m. byte_first_high (map (\<lambda>c. ?f (8 * m + c)) [0..<8])) [0..<8] = map (\<lambda>m. ucast (drop_bit (56 - 8 * m) t AND 0xFF)) [0..<8]"
      by (intro map_cong) auto
    then have "map byte_first_high (eights (map ?f [0..<64])) = map (\<lambda>m. ucast (drop_bit (56 - 8 * m) t AND 0xFF)) [0..<8]"
      by (simp add: eights_map o_def del: upt_rec_numeral)
    then show ?thesis by (simp only: fold_map o_def fdx_b_crc_def)
  qed
  have sum: "checksum_of (map (\<lambda>j. of_bool (bit (fdx_b_crc t) (15 - j))) [0..<16]) = fdx_b_crc t"
  proof -
    let ?bs = "map (\<lambda>j. of_bool (bit (fdx_b_crc t) (15 - j))) [0..<16] :: 8 word list"
    have "fold (\<lambda>j c. c OR push_bit (15 - j) (ucast (?bs ! j))) [0..<16] 0
        = fold (\<lambda>j c. c OR push_bit (15 - j) (of_bool (bit (fdx_b_crc t) (15 - j)))) [0..<16] (0 :: 16 word)"
      by (intro fold_cong ext) (simp_all del: upt_rec_numeral)
    then show ?thesis using checksum_bits [of "fdx_b_crc t"] by (simp add: checksum_of_fold del: upt_rec_numeral)
  qed
  show ?thesis
    using one [of 7] one [of 9] t1 t2 crc sum
    by (simp add: fdx_b_message_def eights_map o_def del: upt_rec_numeral)
qed

lemma ring_shift: "ring data (p + of_nat k) i = ring data p (k + i)"
  by (simp add: ring_def add.assoc)

lemma length_fdx_b_bits [simp]: "length (fdx_b_bits t) = 128"
  by (simp add: fdx_b_bits_def)

text \<open>The data bytes in the order of the decoder, the last one first.\<close>

definition data_bytes :: "64 word \<Rightarrow> 8 word list" where
  "data_bytes t = map (\<lambda>x. ucast (drop_bit (56 - 8 * x) t)) [0..<8]"

lemma data_bytes_reverse:
  "rev (map (\<lambda>m. byte_first_low (map (\<lambda>c. of_bool (bit (reverse t) (63 - (8 * m + c)))) [0..<8])) [0..<8]) = data_bytes t"
proof -
  have "byte_first_low (map (\<lambda>c. of_bool (bit (reverse t) (63 - (8 * m + c)))) [0..<8]) = ucast (drop_bit (8 * m) t)" if "m < 8" for m
  proof (rule bit_word_eqI)
    fix k assume "k < LENGTH(8)"
    then have k: "k < 8" by simp
    have "63 - (63 - (8 * m + k)) = 8 * m + k" using k that by simp
    then show "bit (byte_first_low (map (\<lambda>c. of_bool (bit (reverse t) (63 - (8 * m + c)))) [0..<8])) k
        = bit (ucast (drop_bit (8 * m) t) :: 8 word) k"
      using k that by (simp add: bit_byte_first_low bit_reverse bit_simps del: upt_rec_numeral)
  qed
  then have "map (\<lambda>m. byte_first_low (map (\<lambda>c. of_bool (bit (reverse t) (63 - (8 * m + c)))) [0..<8])) [0..<8]
      = map (\<lambda>m. ucast (drop_bit (8 * m) t)) [0..<8]" by (intro map_cong) auto
  then show ?thesis by (simp add: data_bytes_def upto_8)
qed

lemma fdx_b_search_bits:
  assumes "holds data p (fdx_b_bits (reverse t))" and "128 \<le> unat (e - p)"
  shows "fdx_b_search data e p = Some (data_bytes t)"
proof -
  have r: "ring data p i = fdx_b_bits (reverse t) ! i" if "i < 128" for i
    using assms(1) that by (simp add: holds_def)
  have "fdx_b_start data p" unfolding fdx_b_start_def list_all_iff using r fdx_b_header by auto
  then have "find_start (fdx_b_start data) 128 e p = Some p" using assms(2) by (intro find_start_here) simp_all
  moreover have "fdx_b_message (ring data (p + 11)) = Some (data_bytes t)"
    using fdx_b_message_bits [of "ring data (p + 11)" "reverse t"] ring_shift [of data p 11] r data_bytes_reverse [of t] by simp
  ultimately show ?thesis by (simp add: fdx_b_search.simps [of data e p])
qed

lemma data_byte: "x < 8 \<Longrightarrow> data_bytes t ! x = ucast (drop_bit (56 - 8 * x) t)"
  by (simp add: data_bytes_def del: upt_rec_numeral)

lemma bit_small: "n < 2 ^ m \<Longrightarrow> m \<le> k \<Longrightarrow> \<not> bit (n :: nat) k"
proof -
  assume "n < 2 ^ m" "m \<le> k"
  then have "n < 2 ^ k" by (elim less_le_trans) (simp add: power_increasing)
  then show ?thesis by (simp add: bit_iff_odd)
qed

lemma animal_bit: "\<forall>k \<in> set [0..<64]. bit (0x8000000000000000 :: 64 word) k = (k = 63)"
  by code_simp

lemma bit_fdx_b_data:
  assumes "c < 1000" and "u < 2 ^ 38" and "k < 48"
  shows "bit (fdx_b_data (word_of_nat c) (word_of_nat u)) k \<longleftrightarrow> (if k < 38 then bit u k else bit c (k - 38))"
  using assms bit_small [OF assms(2), of k] bspec [OF animal_bit, of k]
  by (auto simp add: fdx_b_data_def bit_simps)

lemma low_ten: "\<forall>k \<in> set [0..<16]. bit (0x3ff :: 16 word) k = (k < 10)"
  by code_simp

lemma fdx_b_country_data:
  assumes "c < 1000" and "u < 2 ^ 38"
  shows "fdx_b_country (data_bytes (fdx_b_data (word_of_nat c) (word_of_nat u))) = int c"
proof -
  let ?d = "data_bytes (fdx_b_data (word_of_nat c) (word_of_nat u))"
  have "(push_bit 2 (ucast (?d ! 2)) OR ucast (drop_bit 6 (?d ! 3))) AND 0x3ff = (word_of_nat c :: 16 word)"
  proof (rule bit_word_eqI)
    fix k assume "k < LENGTH(16)"
    then have k: "k < 16" by simp
    have c: "c < 2 ^ 10" using assms(1) by simp
    show "bit ((push_bit 2 (ucast (?d ! 2)) OR ucast (drop_bit 6 (?d ! 3))) AND 0x3ff :: 16 word) k = bit (word_of_nat c :: 16 word) k"
      using k bit_small [OF c, of k] bspec [OF low_ten, of k] bit_fdx_b_data [OF assms, of "38 + k"]
      by (auto simp: data_byte bit_simps)
  qed
  then show ?thesis using assms(1) by (simp add: fdx_b_country_def uint_nat unat_of_nat)
qed

lemma low_38: "\<forall>k \<in> set [0..<64]. bit (0x3FFFFFFFFF :: 64 word) k = (k < 38)"
  by code_simp

lemma add_bytes:
  "push_bit 32 (ucast a) + push_bit 24 (ucast b) + push_bit 16 (ucast c) + push_bit 8 (ucast d) + ucast e
    = (push_bit 32 (ucast a) OR push_bit 24 (ucast b) OR push_bit 16 (ucast c) OR push_bit 8 (ucast d) OR ucast e :: 64 word)"
  for a b c d e :: "8 word"
proof -
  have low: "\<not> bit x n" if "8 \<le> n" for x :: "8 word" and n using that bit_imp_le_length [of x n] by force
  let ?a = "push_bit 32 (ucast a) :: 64 word" and ?b = "push_bit 24 (ucast b) :: 64 word" and ?c = "push_bit 16 (ucast c) :: 64 word"
    and ?d = "push_bit 8 (ucast d) :: 64 word" and ?e = "ucast e :: 64 word"
  have "?a + ?b = ?a OR ?b"
    by (rule disjunctive_add_eq_or) (auto intro!: bit_word_eqI simp: bit_simps low)
  moreover have "(?a OR ?b) + ?c = (?a OR ?b) OR ?c"
    by (rule disjunctive_add_eq_or) (auto intro!: bit_word_eqI simp: bit_simps low)
  moreover have "((?a OR ?b) OR ?c) + ?d = ((?a OR ?b) OR ?c) OR ?d"
    by (rule disjunctive_add_eq_or) (auto intro!: bit_word_eqI simp: bit_simps low)
  moreover have "(((?a OR ?b) OR ?c) OR ?d) + ?e = (((?a OR ?b) OR ?c) OR ?d) OR ?e"
    by (rule disjunctive_add_eq_or) (auto intro!: bit_word_eqI simp: bit_simps low)
  ultimately show ?thesis by (simp only: or.assoc)
qed

lemma fdx_b_id_data:
  assumes "c < 1000" and "u < 2 ^ 38"
  shows "fdx_b_id (data_bytes (fdx_b_data (word_of_nat c) (word_of_nat u))) = int u"
proof -
  let ?t = "fdx_b_data (word_of_nat c) (word_of_nat u)"
  have "(push_bit 32 (ucast (data_bytes ?t ! 3)) OR push_bit 24 (ucast (data_bytes ?t ! 4)) OR push_bit 16 (ucast (data_bytes ?t ! 5))
      OR push_bit 8 (ucast (data_bytes ?t ! 6)) OR ucast (data_bytes ?t ! 7)) AND 0x3FFFFFFFFF = (word_of_nat u :: 64 word)" (is "?l = _")
  proof (rule bit_word_eqI)
    fix k assume "k < LENGTH(64)"
    then have k: "k < 64" by simp
    have low: "\<not> bit x n" if "8 \<le> n" for x :: "8 word" and n using that bit_imp_le_length [of x n] by force
    consider "32 \<le> k" | "24 \<le> k" "k < 32" | "16 \<le> k" "k < 24" | "8 \<le> k" "k < 16" | "k < 8" by linarith
    then have l: "bit ?l k \<longleftrightarrow> k < 38 \<and> bit ?t k"
      by cases (use k bspec [OF low_38, of k] in \<open>auto simp: data_byte bit_simps low\<close>)
    have "bit (word_of_nat u :: 64 word) k \<longleftrightarrow> k < 38 \<and> bit u k"
      using k bit_small [OF assms(2), of k] by (cases "k < 38") (simp_all add: bit_simps)
    then show "bit ?l k = bit (word_of_nat u :: 64 word) k"
      unfolding l using bit_fdx_b_data [OF assms, of k] by (cases "k < 38") simp_all
  qed
  then show ?thesis using assms(2) by (simp add: fdx_b_id_def add_bytes uint_nat unat_of_nat)
qed

text \<open>Numbers with leading zeros.\<close>

lemma length_dec_nat_le: "0 < w \<Longrightarrow> n < 10 ^ w \<Longrightarrow> length (dec_nat n) \<le> w"
proof (induction n arbitrary: w rule: dec_nat.induct)
  case (1 n)
  show ?case
  proof (cases "n < 10")
    case True
    with 1(2) show ?thesis by (simp add: dec_nat.simps [of n])
  next
    case False
    then obtain v where w: "w = Suc v" "0 < v" using 1(2,3) by (cases w; cases "w - 1") auto
    with 1(3) have "n div 10 < 10 ^ v" by (simp add: less_mult_imp_div_less mult.commute)
    with 1(1) [OF False w(2)] False w show ?thesis by (simp add: dec_nat.simps [of n])
  qed
qed

lemma length_dec_pad: "0 < w \<Longrightarrow> n < 10 ^ w \<Longrightarrow> length (dec_pad w (int n)) = w"
  using length_dec_nat_le [of w n] by (simp add: dec_pad_def)

lemma signed_value_dec_pad:
  "signed_value (dropWhile is_space (dec_pad w (int n))) = int n"
proof -
  let ?s = "replicate (w - length (dec_nat n)) (CHR ''0'') @ dec_nat n"
  have d: "list_all is_digit ?s" using dec_nat_digits [of n] by (auto simp: list_all_iff is_digit_def)
  obtain c t where s: "?s = c # t" by (cases ?s) auto
  with d have c: "is_digit c" by simp
  have "digits_value (replicate k (CHR ''0'') @ dec_nat n) = n" for k
    by (induction k) (simp_all add: digits_value_def [of "_ # _"] flip: digits_value_def, simp add: digits_value_def)
  moreover have "takeWhile is_digit ?s = ?s" using d unfolding list_all_iff by (simp only: takeWhile_eq_all_conv)
  ultimately have "digits_value (takeWhile is_digit (c # t)) = n" by (simp only: s [symmetric])
  moreover have "dec_pad w (int n) = c # t" using s by (simp add: dec_pad_def)
  ultimately show ?thesis using digit_not_other [OF c] by (simp add: signed_value_def del: takeWhile.simps)
qed

text \<open>
  C38: a tag programmed with an FDX-B number (three digits of country, twelve digits of identity below
  \<open>2^38\<close>) sends 128 bits that, wherever they stand in the queue of the biphase decoder, are read back as the same
  number.\<close>

theorem fdx_b_roundtrip:
  assumes "c < 1000" and "u < 2 ^ 38" and "4 \<le> n" and "128 \<le> unat (e - p)"
    and "encodeISO11785_FDX_B (Some (dec_pad 3 (int c) @ dec_pad 12 (int u))) n = (r, ws)" and "holds data p (block_bits ws)"
  shows "r = EPHIDGET_OK
    \<and> decodeISO11785_FDX_B data p e tag =
        (EPHIDGET_OK, p + 128, tag\<lparr> protocol := PHIDGET_RFID_PROTOCOL_ISO11785_FDX_B,
           tagString := dec_pad 3 (int c) @ dec_pad 12 (int u) \<rparr>)"
proof -
  let ?t = "fdx_b_data (word_of_nat c) (word_of_nat u)"
  have lc: "length (dec_pad 3 (int c)) = 3" by (rule length_dec_pad) (use assms(1) in simp_all)
  have lu: "length (dec_pad 12 (int u)) = 12" by (rule length_dec_pad) (use assms(2) in simp_all)
  have c: "strtoul10 (dec_pad 3 (int c)) = word_of_nat c"
    using assms(1) by (simp add: strtoul10_def signed_value_dec_pad)
  have u: "strtoll10 (dec_pad 12 (int u)) = int u"
    using assms(2) by (simp add: strtoll10_def signed_value_dec_pad clamp64_def)
  have small: "\<not> 0x3FFFFFFFFF < (word_of_nat u :: 64 word)"
    using assms(2) by (simp add: word_less_nat_alt unat_of_nat)
  obtain e0 e1 where b: "fdx_b_blocks (reverse ?t) = (e0, e1)" by force
  have enc: "encodeISO11785_FDX_B (Some (dec_pad 3 (int c) @ dec_pad 12 (int u))) n
      = (EPHIDGET_OK, [high_block e0, low_block e0, high_block e1, low_block e1])"
    using assms(3) lc lu c u small b by (simp add: encodeISO11785_FDX_B_def)
  with assms(5) have r: "r = EPHIDGET_OK" and ws: "ws = [high_block e0, low_block e0, high_block e1, low_block e1]" by simp_all
  have "block_bits ws = fdx_b_bits (reverse ?t)"
    using block_bits_long [of e0 "[high_block e1, low_block e1]"] block_bits_long [of e1 "[]"] b
    by (simp add: ws fdx_b_bits_def block_bits_def)
  with assms(6) have "fdx_b_search data e p = Some (data_bytes ?t)"
    by (intro fdx_b_search_bits [OF _ assms(4)]) simp
  then show ?thesis
    using r fdx_b_country_data [OF assms(1,2)] fdx_b_id_data [OF assms(1,2)] by (simp add: decodeISO11785_FDX_B_def)
qed

lemma length_fdx_b_encoded: "encodeISO11785_FDX_B s n = (r, ws) \<Longrightarrow> length ws \<le> 4"
  by (auto simp: encodeISO11785_FDX_B_def Let_def split: if_splits prod.splits option.splits)

lemma sample_fdx: "dec_pad 3 (int 999) @ dec_pad 12 (int 3471) = ''999000000003471''"
  by code_simp

theorem fdx_b_roundtrip_witness:
  "\<exists>ws. encodeISO11785_FDX_B (Some ''999000000003471'') 7 = (EPHIDGET_OK, ws)
     \<and> tagString (snd (snd (decodeISO11785_FDX_B (block_bits ws @ replicate 896 1) 0 128 zero_tag))) = ''999000000003471''"
proof -
  obtain r ws where e: "encodeISO11785_FDX_B (Some ''999000000003471'') 7 = (r, ws)" by force
  have l: "length (block_bits ws) = 32 * length ws" by (simp add: block_bits_def length_concat o_def sum_list_triv)
  with l length_fdx_b_encoded [OF e] have h: "holds (block_bits ws @ replicate 896 1) 0 (block_bits ws)" by (intro holds_front) simp
  have "r = EPHIDGET_OK
    \<and> decodeISO11785_FDX_B (block_bits ws @ replicate 896 1) 0 128 zero_tag =
        (EPHIDGET_OK, 0 + 128, zero_tag\<lparr> protocol := PHIDGET_RFID_PROTOCOL_ISO11785_FDX_B,
           tagString := dec_pad 3 (int 999) @ dec_pad 12 (int 3471) \<rparr>)"
    by (rule fdx_b_roundtrip [OF _ _ _ _ _ h, where n = 7]) (simp_all only: sample_fdx e, simp_all)
  then show ?thesis unfolding sample_fdx using e by (elim conjE) (simp only: snd_conv, simp)
qed

end
