(* ===== verification/RfidPhidgetsProps.thy ===== *)
theory RfidPhidgetsProps
  imports RfidFdxProps
begin

unbundle bit_operations_syntax

text \<open>
  The Phidgets protocol: where the encoder puts the checksum and the characters, and the round trip
  of a text through a tag.
\<close>

lemma block_bits_Cons: "block_bits (w # ws) = map (\<lambda>i. of_bool (bit w (31 - i))) [0..<32] @ block_bits ws"
  by (simp add: block_bits_def del: upt_rec_numeral)

lemma length_block_bits: "length (block_bits ws) = 32 * length ws"
  by (simp add: block_bits_def length_concat o_def sum_list_triv)

lemma block_bits_nth: "b < length ws \<Longrightarrow> i < 32 \<Longrightarrow> block_bits ws ! (32 * b + i) = of_bool (bit (ws ! b) (31 - i))"
proof (induction ws arbitrary: b)
  case (Cons w ws)
  show ?case
  proof (cases b)
    case 0
    with Cons.prems show ?thesis by (simp add: block_bits_Cons nth_append del: upt_rec_numeral)
  next
    case (Suc b')
    with Cons show ?thesis by (simp add: block_bits_Cons nth_append del: upt_rec_numeral)
  qed
qed simp

lemma length_fold_update: "length (fold (\<lambda>i bs. bs[g i := h i bs]) js bs) = length bs"
  by (induction js arbitrary: bs) simp_all

lemma bit_fold_update:
  "b < length bs \<Longrightarrow>
     bit (fold (\<lambda>i bs. bs[g i := bs ! g i OR v i]) js bs ! b) k \<longleftrightarrow> bit (bs ! b) k \<or> (\<exists>i \<in> set js. g i = b \<and> bit (v i) k)"
proof (induction js arbitrary: bs)
  case (Cons a js)
  then show ?case by (cases "g a = b") (auto simp: bit_or_iff)
qed simp

lemma char_shift: "\<forall>i \<in> set [0..<24]. (184 - 8 * i) mod 32 + 1 = 25 - 8 * (i mod 4)"
  by code_simp

lemma control_bits: "\<forall>k \<in> set [0..<32]. bit (0x01010101 :: 32 word) k \<longleftrightarrow> k mod 8 = 0"
  by code_simp

lemma length_phidgets_blocks [simp]: "length (phidgets_blocks d) = 7"
  by (simp add: phidgets_blocks_def Let_def length_fold_update)

lemma bit_phidgets_blocks_data:
  assumes "a < 6" and "k < 32"
  shows "bit (phidgets_blocks d ! Suc a) k
    \<longleftrightarrow> k mod 8 = 0 \<or> (\<exists>q < 4. bit (push_bit (25 - 8 * q) (ucast (d ! (4 * a + q)) :: 32 word)) k)"
proof -
  let ?v = "\<lambda>i. push_bit ((184 - 8 * i) mod 32 + 1) (ucast (d ! i)) :: 32 word"
  have "(\<exists>i \<in> set [0..<24]. i div 4 + 1 = Suc a \<and> bit (?v i) k)
      \<longleftrightarrow> (\<exists>q < 4. bit (push_bit (25 - 8 * q) (ucast (d ! (4 * a + q)) :: 32 word)) k)" (is "?l \<longleftrightarrow> ?r")
  proof
    assume ?l
    then obtain i where i: "i \<in> set [0..<24]" "i div 4 = a" "bit (?v i) k" by auto
    have "4 * a + i mod 4 = i" using i(2) by auto
    with i(3) show ?r unfolding bspec [OF char_shift i(1)] by (intro exI [of _ "i mod 4"]) simp
  next
    assume ?r
    then obtain q where q: "q < 4" "bit (push_bit (25 - 8 * q) (ucast (d ! (4 * a + q)) :: 32 word)) k" by auto
    have "4 * a + q \<in> set [0..<24]" using q(1) assms(1) by auto
    moreover have "bit (?v (4 * a + q)) k"
      unfolding bspec [OF char_shift \<open>4 * a + q \<in> set [0..<24]\<close>] using q by simp
    ultimately show ?l using q(1) by (intro bexI [of _ "4 * a + q"]) simp_all
  qed
  moreover have "(b0 # replicate 6 0x01010101) ! Suc a = (0x01010101 :: 32 word)" for b0 using assms(1) by simp
  ultimately show ?thesis
    using bspec [OF control_bits, of k] assms unfolding phidgets_blocks_def Let_def
    by (subst bit_fold_update) (simp_all del: upt_rec_numeral)
qed

lemma less_7: "(k::nat) < 7 \<longleftrightarrow> k \<in> {0, 1, 2, 3, 4, 5, 6}"
  by (simp, presburger)

lemma phidgets_char_bit:
  assumes "m < 24" and "c < 7" and "\<And>i. i < 24 \<Longrightarrow> d ! i < 128"
  shows "block_bits (phidgets_blocks d) ! (32 + 8 * m + c) = of_bool (bit (d ! m) (6 - c))"
proof -
  define a q where "a = m div 4" and "q = m mod 4"
  have m: "m = 4 * a + q" "q < 4" "a < 6" using assms(1) by (simp_all add: a_def q_def less_mult_imp_div_less)
  have high: "\<not> bit (d ! (4 * a + p)) n" if "p < 4" and "7 \<le> n" for p n
  proof -
    have "unat (d ! (4 * a + p)) < 2 ^ 7" using assms(3) [of "4 * a + p"] that(1) m(3) by (simp add: word_less_nat_alt)
    then have "\<not> bit (unat (d ! (4 * a + p))) n" by (rule bit_small [OF _ that(2)])
    then show ?thesis by (auto simp: bit_unsigned_iff dest: bit_imp_possible_bit)
  qed
  have "(31 - (8 * q + c)) mod 8 \<noteq> 0"
    using assms(2) m(2) unfolding less_7 less_4 by (elim insertE emptyE) simp_all
  moreover have "(\<exists>p < 4. bit (push_bit (25 - 8 * p) (ucast (d ! (4 * a + p)) :: 32 word)) (31 - (8 * q + c)))
      \<longleftrightarrow> bit (d ! (4 * a + q)) (6 - c)"
  proof -
    have "bit (push_bit (25 - 8 * p) (ucast (d ! (4 * a + p)) :: 32 word)) (31 - (8 * q + c))
        \<longleftrightarrow> p = q \<and> bit (d ! (4 * a + q)) (6 - c)" if "p < 4" for p
    proof (cases "p = q")
      case True
      have "25 - 8 * q \<le> 31 - (8 * q + c)" "31 - (8 * q + c) - (25 - 8 * q) = 6 - c" "31 - (8 * q + c) < 32"
        using m(2) assms(2) by linarith+
      with True show ?thesis by (auto simp: bit_push_bit_iff bit_ucast_iff dest: bit_imp_le_length)
    next
      case False
      then consider "p < q" | "q < p" by linarith
      then show ?thesis
      proof cases
        case 1
        then have "31 - (8 * q + c) < 25 - 8 * p" using m(2) by linarith
        with False show ?thesis by (simp add: bit_push_bit_iff)
      next
        case 2
        then have "7 \<le> 31 - (8 * q + c) - (25 - 8 * p)" using that assms(2) by linarith
        with high [OF that this] False show ?thesis by (auto simp: bit_push_bit_iff bit_ucast_iff)
      qed
    qed
    then show ?thesis using m(2) by auto
  qed
  moreover have "8 * q + c < 32" using m(2) assms(2) by simp
  moreover have "32 + 8 * m + c = 32 * Suc a + (8 * q + c)" unfolding m(1) by simp
  ultimately have "block_bits (phidgets_blocks d) ! (32 * Suc a + (8 * q + c)) = of_bool (bit (d ! (4 * a + q)) (6 - c))"
    using m(3) by (subst block_bits_nth) (simp_all add: bit_phidgets_blocks_data)
  then show ?thesis using \<open>32 + 8 * m + c = 32 * Suc a + (8 * q + c)\<close> m(1) by metis
qed

lemma phidgets_control_bit:
  assumes "m < 24"
  shows "block_bits (phidgets_blocks d) ! (32 + 8 * m + 7) = 1"
proof -
  define a q where "a = m div 4" and "q = m mod 4"
  have m: "m = 4 * a + q" "q < 4" "a < 6" using assms(1) by (simp_all add: a_def q_def less_mult_imp_div_less)
  have "(31 - (8 * q + 7)) mod 8 = 0" using m(2) unfolding less_4 by (elim insertE emptyE) simp_all
  moreover have "32 + 8 * m + 7 = 32 * Suc a + (8 * q + 7)" unfolding m(1) by simp
  moreover have "8 * q + 7 < 32" using m(2) by simp
  ultimately have "block_bits (phidgets_blocks d) ! (32 * Suc a + (8 * q + 7)) = 1"
    using m(3) by (subst block_bits_nth) (simp_all add: bit_phidgets_blocks_data)
  then show ?thesis using \<open>32 + 8 * m + 7 = 32 * Suc a + (8 * q + 7)\<close> by metis
qed

lemma phidgets_first_block:
  "phidgets_blocks d ! 0 = ((0x00040201 OR (push_bit 2 (ucast (phidgets_crc d)) AND 0x0003FC00)) OR (push_bit 1 (ucast (phidgets_crc d)) AND 0x000001FE))"
proof -
  have "fold (\<lambda>i bs. bs[g i + 1 := h i bs]) js (b # bs) ! 0 = b" for g h js and b :: "32 word" and bs
    by (induction js arbitrary: bs) simp_all
  then show ?thesis by (simp add: phidgets_blocks_def Let_def del: upt_rec_numeral)
qed

lemma less_13: "(k::nat) < 13 \<longleftrightarrow> k \<in> {0, 1, 2, 3, 4, 5, 6, 7, 8, 9, 10, 11, 12}"
  by (simp, presburger)

lemma phidgets_head_bits:
  "i < 13 \<Longrightarrow> block_bits (phidgets_blocks d) ! i = 0"
  "block_bits (phidgets_blocks d) ! 13 = 1"
  "c < 8 \<Longrightarrow> block_bits (phidgets_blocks d) ! (14 + c) = of_bool (bit (phidgets_crc d) (15 - c))"
  "block_bits (phidgets_blocks d) ! 22 = 1"
  "c < 8 \<Longrightarrow> block_bits (phidgets_blocks d) ! (23 + c) = of_bool (bit (phidgets_crc d) (7 - c))"
  "block_bits (phidgets_blocks d) ! 31 = 1"
proof -
  have first: "block_bits (phidgets_blocks d) ! i
      = of_bool (bit ((0x00040201 OR (push_bit 2 (ucast (phidgets_crc d)) AND 0x0003FC00))
          OR (push_bit 1 (ucast (phidgets_crc d)) AND 0x000001FE) :: 32 word) (31 - i))" if "i < 32" for i
    using block_bits_nth [of 0 "phidgets_blocks d" i] that by (simp add: phidgets_first_block)
  show "i < 13 \<Longrightarrow> block_bits (phidgets_blocks d) ! i = 0"
    unfolding less_13 by (elim insertE emptyE; simp add: first bit_simps)
  show "c < 8 \<Longrightarrow> block_bits (phidgets_blocks d) ! (14 + c) = of_bool (bit (phidgets_crc d) (15 - c))"
    unfolding less_8 by (elim insertE emptyE; simp add: first bit_simps)
  show "c < 8 \<Longrightarrow> block_bits (phidgets_blocks d) ! (23 + c) = of_bool (bit (phidgets_crc d) (7 - c))"
    unfolding less_8 by (elim insertE emptyE; simp add: first bit_simps del: push_bit_Suc)
  show "block_bits (phidgets_blocks d) ! 13 = 1" "block_bits (phidgets_blocks d) ! 22 = 1"
    "block_bits (phidgets_blocks d) ! 31 = 1" by (simp_all add: first bit_simps)
qed

section \<open>The message\<close>

lemma take_chars_layout:
  assumes "\<And>m. m < n \<Longrightarrow> r (k + 8 * m + 7) = 1"
    and "\<And>m. m < n \<Longrightarrow> fold (\<lambda>i d. d OR push_bit (6 - i) (r (k + 8 * m + i))) [0..<7] 0 = f m"
  shows "take_chars r n k = Some (map f [0..<n])"
  using assms
proof (induction n arbitrary: k f)
  case (Suc n)
  have ih: "take_chars r n (k + 8) = Some (map (f o Suc) [0..<n])"
  proof (rule Suc.IH)
    fix m assume m: "m < n"
    show "r (k + 8 + 8 * m + 7) = 1" using Suc.prems(1) [of "Suc m"] m by (simp add: ac_simps)
    show "fold (\<lambda>i d. d OR push_bit (6 - i) (r (k + 8 + 8 * m + i))) [0..<7] 0 = (f o Suc) m"
      using Suc.prems(2) [of "Suc m"] m by (simp add: ac_simps del: upt_rec_numeral)
  qed
  have "r (k + 7) = 1" "fold (\<lambda>i d. d OR push_bit (6 - i) (r (k + i))) [0..<7] 0 = f 0"
    using Suc.prems(1) [of 0] Suc.prems(2) [of 0] by (simp_all del: upt_rec_numeral)
  moreover have "map f [0..<Suc n] = f 0 # map (f o Suc) [0..<n]" by (simp add: upt_conv_Cons map_Suc_upt [symmetric] del: upt_Suc)
  ultimately show ?case using ih by (simp del: upt_rec_numeral upt_Suc)
qed simp

lemma seven_bits:
  assumes "x < (128 :: 8 word)"
  shows "fold (\<lambda>i d. d OR push_bit (6 - i) (of_bool (bit x (6 - i)))) [0..<7] 0 = x"
proof (rule bit_word_eqI)
  fix k assume "k < LENGTH(8)"
  then have k: "k < 8" by simp
  have "unat x < 2 ^ 7" using assms by (simp add: word_less_nat_alt)
  then have "7 \<le> k \<Longrightarrow> \<not> bit (unat x) k" by (rule bit_small)
  then have high: "7 \<le> k \<Longrightarrow> \<not> bit x k" by (auto simp: bit_unsigned_iff dest: bit_imp_possible_bit)
  have "(\<exists>i \<in> set [0..<7]. 6 - i = k \<and> bit x (6 - i)) \<longleftrightarrow> bit x k"
  proof
    assume "bit x k"
    with high have "k < 7" by (cases "k < 7") auto
    with \<open>bit x k\<close> show "\<exists>i \<in> set [0..<7]. 6 - i = k \<and> bit x (6 - i)" by (intro bexI [of _ "6 - k"]) auto
  qed auto
  with k show "bit (fold (\<lambda>i d. d OR push_bit (6 - i) (of_bool (bit x (6 - i)))) [0..<7] (0 :: 8 word)) k = bit x k"
    using bit_fold_or [where g = "\<lambda>i. 6 - i" and P = "\<lambda>i. bit x (6 - i)" and js = "[0..<7]" and d = "0 :: 8 word" and k = k]
    by (simp del: upt_rec_numeral)
qed

lemma checksum_bits_or:
  "fold (\<lambda>j d. d OR push_bit (15 - j) (ucast (of_bool (bit c (15 - j)) :: 8 word))) [0..<16] c0 = (c0 OR c :: 16 word)"
proof (rule bit_word_eqI)
  fix k assume "k < LENGTH(16)"
  then have k: "k < 16" by simp
  have "(\<exists>j \<in> set [0..<16]. 15 - j = k \<and> bit c (15 - j)) \<longleftrightarrow> bit c k"
  proof
    assume "bit c k"
    with k show "\<exists>j \<in> set [0..<16]. 15 - j = k \<and> bit c (15 - j)" by (intro bexI [of _ "15 - k"]) auto
  qed auto
  with k show "bit (fold (\<lambda>j d. d OR push_bit (15 - j) (ucast (of_bool (bit c (15 - j)) :: 8 word))) [0..<16] c0) k = bit (c0 OR c) k"
    using bit_fold_or [where g = "\<lambda>j. 15 - j" and P = "\<lambda>j. bit c (15 - j)" and js = "[0..<16]" and d = c0 and k = k]
    by (simp add: bit_or_iff del: upt_rec_numeral)
qed

lemma phidgets_message_or:
  assumes "length d = 24" and "\<And>i. i < 24 \<Longrightarrow> d ! i < 128"
    and "\<And>i. i < 210 \<Longrightarrow> r i = block_bits (phidgets_blocks d) ! (14 + i)"
  shows "phidgets_message r crc = (if crc OR phidgets_crc d = phidgets_crc d then Some d else None, crc OR phidgets_crc d)"
proof -
  let ?c = "phidgets_crc d"
  have low: "r j = of_bool (bit ?c (15 - j))" if "j < 8" for j
    using assms(3) [of j] phidgets_head_bits(3) [OF that, of d] that by simp
  have high: "r (9 + j) = of_bool (bit ?c (7 - j))" if "j < 8" for j
    using assms(3) [of "9 + j"] phidgets_head_bits(5) [OF that, of d] that by (simp add: add.assoc [symmetric])
  have ones: "r 8 = 1" "r 17 = 1" using assms(3) [of 8] assms(3) [of 17] phidgets_head_bits(4,6) [of d] by simp_all
  have "crc_bits r 16 0 0 crc = (True, 17, fold (\<lambda>j d. d OR push_bit (15 - j) (ucast (of_bool (bit ?c (15 - j)) :: 8 word))) [0..<16] crc)"
  proof -
    have "r (0 + j + j div 8) = of_bool (bit ?c (15 - j))" if "j < 16" for j
    proof (cases "j < 8")
      case False
      then have "j div 8 = 1" using that by (simp add: le_div_geq)
      with high [of "j - 8"] False that show ?thesis by (simp add: add.commute)
    qed (simp add: low)
    moreover have "r (0 + j + j div 8 - 1) = 1" if j: "0 < j" "j < 16" "j mod 8 = 0" for j
    proof -
      have "j = 8" using j by presburger
      with ones show ?thesis by simp
    qed
    ultimately show ?thesis
      using crc_bits_layout [of 0 16 r 0 "\<lambda>j. of_bool (bit ?c (15 - j))" crc] by (simp del: upt_rec_numeral)
  qed
  moreover have "take_chars r 24 18 = Some d"
  proof -
    have chars: "r (18 + 8 * m + i) = of_bool (bit (d ! m) (6 - i))" if "m < 24" "i < 7" for m i
    proof -
      have "14 + (18 + 8 * m + i) = 32 + 8 * m + i" by simp
      then show ?thesis using assms(3) [of "18 + 8 * m + i"] phidgets_char_bit [OF that assms(2)] that by (simp add: add.assoc)
    qed
    have "take_chars r 24 18 = Some (map ((!) d) [0..<24])"
    proof (rule take_chars_layout)
      fix m :: nat assume m: "m < 24"
      have "14 + (18 + 8 * m + 7) = 32 + 8 * m + 7" by simp
      then show "r (18 + 8 * m + 7) = 1" using assms(3) [of "18 + 8 * m + 7"] phidgets_control_bit [OF m, of d] m by simp
      have "fold (\<lambda>i d. d OR push_bit (6 - i) (r (18 + 8 * m + i))) [0..<7] 0
          = fold (\<lambda>i e. e OR push_bit (6 - i) (of_bool (bit (d ! m) (6 - i)))) [0..<7] 0"
        by (intro fold_cong ext) (simp_all add: chars m del: upt_rec_numeral)
      then show "fold (\<lambda>i d. d OR push_bit (6 - i) (r (18 + 8 * m + i))) [0..<7] 0 = d ! m"
        using seven_bits [OF assms(2) [OF m]] by simp
    qed
    then show ?thesis using map_nth [of d] by (simp add: assms(1) del: upt_rec_numeral)
  qed
  ultimately show ?thesis
    using ones unfolding checksum_bits_or by (auto simp: phidgets_message_def)
qed

lemma phidgets_message_first:
  assumes "length d = 24" and "\<And>i. i < 24 \<Longrightarrow> d ! i < 128"
    and "\<And>i. i < 210 \<Longrightarrow> r i = block_bits (phidgets_blocks d) ! (14 + i)"
  shows "phidgets_message r 0 = (Some d, phidgets_crc d)"
  using phidgets_message_or [OF assms, of 0] by simp

text \<open>
  a sent Phidgets tag that the decoder tries after failed attempts is accepted exactly when the checksum bits those
  attempts left over are all in the tag's own checksum: the code never clears them. A first attempt, with no bits left
  over, always succeeds.\<close>

theorem phidgets_message_after:
  assumes "length d = 24" and "\<And>i. i < 24 \<Longrightarrow> d ! i < 128"
    and "\<And>i. i < 210 \<Longrightarrow> r i = block_bits (phidgets_blocks d) ! (14 + i)"
  shows "phidgets_message r crc = (if crc OR phidgets_crc d = phidgets_crc d then Some d else None, crc OR phidgets_crc d)"
  by (rule phidgets_message_or [OF assms])

lemma blank_crc: "phidgets_crc (replicate n 0) = 0"
proof -
  have "CRC_16_CCITT_update 0 0 = 0" by code_simp
  then have "fold (\<lambda>b crc. CRC_16_CCITT_update crc b) (replicate n 0) 0 = 0" by (induction n) simp_all
  then show ?thesis by (simp add: phidgets_crc_def)
qed

theorem phidgets_message_after_witness:
  "\<exists>d. phidgets_message (\<lambda>i. block_bits (phidgets_blocks d) ! (14 + i)) 0 = (Some d, 0)
     \<and> phidgets_message (\<lambda>i. block_bits (phidgets_blocks d) ! (14 + i)) 1 = (None, 1)"
proof -
  let ?d = "replicate 24 0 :: 8 word list"
  have "phidgets_message (\<lambda>i. block_bits (phidgets_blocks ?d) ! (14 + i)) crc
      = (if crc OR phidgets_crc ?d = phidgets_crc ?d then Some ?d else None, crc OR phidgets_crc ?d)" for crc
    by (rule phidgets_message_after [OF _ _ refl]) simp_all
  then show ?thesis unfolding blank_crc by (intro exI [of _ ?d] conjI) simp_all
qed

lemma phidgets_search_bits:
  assumes "length d = 24" and "\<And>i. i < 24 \<Longrightarrow> d ! i < 128" and "holds data p (block_bits (phidgets_blocks d))"
    and "224 \<le> unat (e - p)"
  shows "phidgets_search data e p 0 = Some d"
proof -
  have r: "ring data p i = block_bits (phidgets_blocks d) ! i" if "i < 224" for i
    using assms(3) that by (simp add: holds_def length_block_bits)
  have "phidgets_start data p" unfolding phidgets_start_def list_all_iff using r phidgets_head_bits(1,2) by auto
  then have "find_start (phidgets_start data) 224 e p = Some p" using assms(4) by (intro find_start_here) simp_all
  moreover have "phidgets_message (ring data (p + 14)) 0 = (Some d, phidgets_crc d)"
    using phidgets_message_first [OF assms(1,2), of "ring data (p + 14)"] ring_shift [of data p 14] r by simp
  ultimately show ?thesis by (simp add: phidgets_search.simps [of data e p])
qed

text \<open>The bytes of a text that fits the tag, filled up with NULs.\<close>

definition ascii :: "string \<Rightarrow> bool" where
  "ascii s \<longleftrightarrow> list_all (\<lambda>c. char_byte c < 128) s"

lemma padded_bytes:
  assumes "length s \<le> 24" and "ascii s"
  shows "length (map char_byte s @ replicate (24 - length s) 0) = 24"
    and "i < 24 \<Longrightarrow> (map char_byte s @ replicate (24 - length s) 0) ! i < 128"
  using assms by (auto simp: nth_append ascii_def list_all_length)

lemma padded_text: "nul_free s \<Longrightarrow> c_str (map byte_char (map char_byte s @ replicate n 0)) = s"
proof -
  assume "nul_free s"
  moreover have "byte_char 0 = CHR 0x00" by code_simp
  ultimately show ?thesis by (cases n) (auto simp: c_str_def nul_free_def o_def takeWhile_append)
qed

text \<open>
  C39: a tag programmed in the Phidgets protocol with a text of at most 24 ASCII characters sends 224 bits that,
  wherever they stand in the queue of the biphase decoder, are read back as the same text.\<close>

theorem phidgets_roundtrip:
  assumes "length s \<le> 24" and "ascii s" and "nul_free s" and "7 \<le> n" and "224 \<le> unat (e - p)"
    and "encodePHIDGETS_TAG (Some s) n = (r, ws)" and "holds data p (block_bits ws)"
  shows "r = EPHIDGET_OK
    \<and> decodePHIDGETS_TAG data p e tag =
        (EPHIDGET_OK, p + 224, tag\<lparr> protocol := PHIDGET_RFID_PROTOCOL_PHIDGETS, tagString := s \<rparr>)"
proof -
  let ?d = "map char_byte s @ replicate (24 - length s) 0"
  have r: "r = EPHIDGET_OK" and ws: "ws = phidgets_blocks ?d"
    using assms(1,4,6) by (simp_all add: encodePHIDGETS_TAG_def)
  have "phidgets_search data e p 0 = Some ?d"
    by (rule phidgets_search_bits [OF padded_bytes(1) [OF assms(1,2)] padded_bytes(2) [OF assms(1,2)] _ assms(5)])
      (use assms(7) ws in simp_all)
  then show ?thesis using r padded_text [OF assms(3)] by (simp add: decodePHIDGETS_TAG_def del: map_append)
qed

lemma length_phidgets_encoded: "encodePHIDGETS_TAG s n = (r, ws) \<Longrightarrow> length ws \<le> 7"
  by (auto simp: encodePHIDGETS_TAG_def split: option.splits if_splits)

theorem phidgets_roundtrip_witness:
  "\<exists>ws. encodePHIDGETS_TAG (Some ''CTD probe'') 7 = (EPHIDGET_OK, ws)
     \<and> tagString (snd (snd (decodePHIDGETS_TAG (block_bits ws @ replicate 800 1) 0 224 zero_tag))) = ''CTD probe''"
proof -
  obtain r ws where e: "encodePHIDGETS_TAG (Some ''CTD probe'') 7 = (r, ws)" by force
  then have "length ws \<le> 7" by (rule length_phidgets_encoded)
  then have h: "holds (block_bits ws @ replicate 800 1) 0 (block_bits ws)" by (intro holds_front) (simp add: length_block_bits)
  have "ascii ''CTD probe''" "nul_free ''CTD probe''" by code_simp+
  then have "r = EPHIDGET_OK \<and> decodePHIDGETS_TAG (block_bits ws @ replicate 800 1) 0 224 zero_tag =
      (EPHIDGET_OK, 0 + 224, zero_tag\<lparr> protocol := PHIDGET_RFID_PROTOCOL_PHIDGETS, tagString := ''CTD probe'' \<rparr>)"
    by (intro phidgets_roundtrip [OF _ _ _ _ _ e h]) simp_all
  then show ?thesis using e by simp
qed

end
