(* ===== verification/RfidLineProps.thy ===== *)
theory RfidLineProps
  imports RfidLine RfidPhidgetsProps
begin

unbundle bit_operations_syntax

text \<open>
  From pulses to tags: how a tag that is programmed with some blocks modulates its bits, and that the reader finds
  it in the packets of pulses, however they are cut.
\<close>

section \<open>A stretch of a ring\<close>

definition seg :: "'a list \<Rightarrow> ring_pos \<Rightarrow> 'a list \<Rightarrow> bool" where
  "seg buf p vs \<longleftrightarrow> (\<forall>i < length vs. buf ! unat (p + of_nat i) = vs ! i)"

lemma seg_Nil [simp]: "seg buf p []"
  by (simp add: seg_def)

lemma seg_Cons [simp]: "seg buf p (v # vs) \<longleftrightarrow> buf ! unat p = v \<and> seg buf (p + 1) vs"
  by (auto simp: seg_def less_Suc_eq_0_disj add.assoc)

lemma ring_seg_append: "seg buf p (vs @ us) \<longleftrightarrow> seg buf p vs \<and> seg buf (p + of_nat (length vs)) us"
  by (induction vs arbitrary: p) (auto simp: add.assoc)

lemma ring_pos_eq: "i < 1024 \<Longrightarrow> j < 1024 \<Longrightarrow> (p + of_nat i = p + (of_nat j :: ring_pos)) \<longleftrightarrow> i = j"
  by (simp add: word_of_nat_eq_iff take_bit_nat_eq_self)

lemma ring_pos_off: "0 < j \<Longrightarrow> j < 1024 \<Longrightarrow> p + of_nat j \<noteq> (p :: ring_pos)"
  using ring_pos_eq [of j 0 p] by simp

lemma seg_update:
  assumes "seg buf p vs" and "length buf = 1024" and "length vs < 1024" and "q = p + of_nat (length vs)"
  shows "seg (buf[unat q := v]) p (vs @ [v])"
proof -
  have small: "unat q < 1024" using unsigned_less [of q, where 'a = nat] by simp
  have off: "unat (p + of_nat i) \<noteq> unat q" if "i < length vs" for i
  proof -
    have "p + of_nat i \<noteq> q" using ring_pos_eq [of i "length vs" p] that assms(3) unfolding assms(4) by simp
    then show ?thesis unfolding word_unat_eq_iff .
  qed
  have "buf[unat q := v] ! unat (p + of_nat i) = (vs @ [v]) ! i" if "i < Suc (length vs)" for i
  proof (cases "i < length vs")
    case True
    with off [OF True] assms(1) show ?thesis by (auto simp: seg_def nth_append)
  next
    case False
    with that have "i = length vs" by simp
    with small assms(2,4) show ?thesis by simp
  qed
  then show ?thesis by (simp add: seg_def)
qed

section \<open>The loops as folds\<close>

definition unread :: "line \<Rightarrow> int list \<Rightarrow> bool" where
  "unread ln vs \<longleftrightarrow> length vs < 1024 \<and> dataWritePtr ln = dataReadPtr ln + of_nat (length vs) \<and> seg (dataBuffer ln) (dataReadPtr ln) vs"

lemma man_pulse_ptrs [simp]:
  "dataWritePtr (man_pulse v ln) = dataWritePtr ln" "dataReadPtr (man_pulse v ln) = dataReadPtr ln"
  "dataBuffer (man_pulse v ln) = dataBuffer ln"
  by (simp_all add: man_pulse_def Let_def)

lemma man_loop_fold:
  "length vs < 1024 \<Longrightarrow> seg (dataBuffer ln) p vs \<Longrightarrow> man_loop p (p + of_nat (length vs)) ln = fold man_pulse vs ln"
proof (induction vs arbitrary: p ln)
  case (Cons v vs)
  have e: "p + of_nat (length (v # vs)) = p + 1 + of_nat (length vs)" by simp
  have "p \<noteq> p + 1 + of_nat (length vs)" using Cons.prems(1) ring_pos_off [of "length (v # vs)" p] unfolding e by simp
  then show ?case unfolding e
    using Cons.prems Cons.IH [of "man_pulse v ln" "p + 1"] by (subst man_loop.simps) (simp add: pulse_at_def)
qed (simp add: man_loop.simps)

definition known_pulse :: "int \<Rightarrow> int \<Rightarrow> bool" where
  "known_pulse s v \<longleftrightarrow> v \<noteq> PUNK_INT \<and> (clocks_of v = s \<or> clocks_of v = 2 * s)"

definition bi_pulse :: "int \<Rightarrow> line \<Rightarrow> line" where
  "bi_pulse v ln = the (biphase_pulse v ln)"

lemma bi_pulse_ptrs:
  assumes "known_pulse s v" and "shortClocks ln = s" and "longClocks ln = 2 * s"
  shows "biphase_pulse v ln = Some (bi_pulse v ln)"
    and "shortClocks (bi_pulse v ln) = s" and "longClocks (bi_pulse v ln) = 2 * s"
    and "dataBuffer (bi_pulse v ln) = dataBuffer ln"
  using assms by (auto simp: biphase_pulse_def bi_pulse_def known_pulse_def put_biphase_def Let_def)

lemma biphase_loop_fold:
  "length vs < 1024 \<Longrightarrow> seg (dataBuffer ln) p vs \<Longrightarrow> list_all (known_pulse s) vs \<Longrightarrow> shortClocks ln = s \<Longrightarrow> longClocks ln = 2 * s \<Longrightarrow>
     biphase_loop p (p + of_nat (length vs)) ln = (True, fold bi_pulse vs ln)"
proof (induction vs arbitrary: p ln)
  case (Cons v vs)
  have v: "known_pulse s v" using Cons.prems by simp
  note b = bi_pulse_ptrs [OF v Cons.prems(4,5)]
  have e: "p + of_nat (length (v # vs)) = p + 1 + of_nat (length vs)" by simp
  have "p \<noteq> p + 1 + of_nat (length vs)" using Cons.prems(1) ring_pos_off [of "length (v # vs)" p] unfolding e by simp
  then show ?case unfolding e
    using Cons.prems Cons.IH [of "bi_pulse v ln" "p + 1"] b by (subst biphase_loop.simps) (simp add: pulse_at_def)
qed (simp add: biphase_loop.simps)

section \<open>The two lengths\<close>

definition rate_step :: "int \<Rightarrow> int \<times> int \<Rightarrow> int \<times> int" where
  "rate_step v r =
     (if fst r = 0 then (clocks_of v, snd r)
      else if clocks_of v \<noteq> fst r \<and> snd r = 0 then (fst r, clocks_of v) else r)"

definition rates_ok :: "int \<Rightarrow> int \<times> int \<Rightarrow> bool" where
  "rates_ok s r \<longleftrightarrow> r \<in> {(0, 0), (s, 0), (2 * s, 0), (s, 2 * s), (2 * s, s)}"

lemma rate_step_ok: "0 < s \<Longrightarrow> known_pulse s v \<Longrightarrow> rates_ok s r \<Longrightarrow> rates_ok s (rate_step v r)"
  by (auto simp: rates_ok_def rate_step_def known_pulse_def)

lemma rate_scan_fold:
  "length vs < 1024 \<Longrightarrow> seg buf p vs \<Longrightarrow> list_all (known_pulse s) vs \<Longrightarrow> 0 < s \<Longrightarrow> rates_ok s (a, b) \<Longrightarrow>
     rate_scan buf (p + of_nat (length vs)) p a b = (True, p + of_nat (length vs), fold rate_step vs (a, b))"
proof (induction vs arbitrary: p a b)
  case (Cons v vs)
  have v: "known_pulse s v" using Cons.prems by simp
  have e: "p + of_nat (length (v # vs)) = p + 1 + of_nat (length vs)" by simp
  have "p \<noteq> p + 1 + of_nat (length vs)" using Cons.prems(1) ring_pos_off [of "length (v # vs)" p] unfolding e by simp
  moreover have "buf ! unat p = v" "v \<noteq> PUNK_INT" using Cons.prems(2) v by (simp_all add: known_pulse_def)
  ultimately have "rate_scan buf (p + 1 + of_nat (length vs)) p a b
      = rate_scan buf (p + 1 + of_nat (length vs)) (p + 1) (fst (rate_step v (a, b))) (snd (rate_step v (a, b)))"
    using v Cons.prems(4,5)
    by (subst rate_scan.simps) (auto simp: Let_def rate_step_def known_pulse_def rates_ok_def)
  also have "\<dots> = (True, p + 1 + of_nat (length vs), fold rate_step vs (rate_step v (a, b)))"
    using Cons.IH [of "p + 1" "fst (rate_step v (a, b))" "snd (rate_step v (a, b))"] Cons.prems
      rate_step_ok [OF Cons.prems(4) v Cons.prems(5)] by simp
  finally show ?case unfolding e by simp
qed (simp add: rate_scan.simps)

section \<open>One search\<close>

lemma skip_no_gap: "unread ln vs \<Longrightarrow> list_all (known_pulse s) vs \<Longrightarrow> skip_gaps ln = ln"
  by (cases vs) (auto simp: skip_gaps.simps [of ln] unread_def pulse_at_def known_pulse_def)

text \<open>Unread pulses of two lengths and no gap: what one search does with them.\<close>

lemma analyze_known:
  assumes "unread ln vs" and "list_all (known_pulse s) vs" and "0 < s" and "rates_ok s (shortClocks ln, longClocks ln)"
    and "fold rate_step vs (shortClocks ln, longClocks ln) = (a, b)"
  shows "analyze_data ln =
    (if b = 0 then (ln\<lparr> shortClocks := a, longClocks := 0 \<rparr>, [])
     else let (ln2, ts) = decode_pulses (dataWritePtr ln) (ln\<lparr> shortClocks := s, longClocks := 2 * s \<rparr>)
          in (ln2\<lparr> dataReadPtr := dataWritePtr ln \<rparr>, ts))"
proof -
  let ?w = "dataWritePtr ln"
  have w: "?w = dataReadPtr ln + of_nat (length vs)" and l: "length vs < 1024" and sg: "seg (dataBuffer ln) (dataReadPtr ln) vs"
    using assms(1) by (simp_all add: unread_def)
  have scan: "rate_scan (dataBuffer ln) ?w (dataReadPtr ln) (shortClocks ln) (longClocks ln) = (True, ?w, a, b)"
    unfolding w using rate_scan_fold [OF l sg assms(2,3,4)] assms(5) by simp
  have "rates_ok s (fold rate_step vs r)" if "rates_ok s r" for r
    using assms(2) that by (induction vs arbitrary: r) (simp_all add: rate_step_ok [OF assms(3)])
  from this [OF assms(4)] have ok: "rates_ok s (a, b)" unfolding assms(5) .
  show ?thesis
  proof (cases "b = 0")
    case True
    with scan skip_no_gap [OF assms(1,2)] show ?thesis by (simp add: analyze_data.simps [of ln])
  next
    case False
    with ok assms(3) have "order_clocks (ln\<lparr> shortClocks := a, longClocks := b \<rparr>) = ln\<lparr> shortClocks := s, longClocks := 2 * s \<rparr>" "a \<noteq> 0"
      by (auto simp: rates_ok_def order_clocks_def)
    moreover have "dataWritePtr (fst (decode_pulses ?w (ln\<lparr> shortClocks := s, longClocks := 2 * s \<rparr>))) = ?w"
      using decode_pulses_ptrs [of ?w "ln\<lparr> shortClocks := s, longClocks := 2 * s \<rparr>"] by simp
    ultimately show ?thesis using False scan skip_no_gap [OF assms(1,2)] by (auto simp: analyze_data.simps [of ln] Let_def split: prod.splits)
  qed
qed

text \<open>A gap makes a fresh start.\<close>

lemma analyze_gap:
  assumes "unread ln (PUNK_INT # vs)"
  shows "analyze_data ln = analyze_data (resetValuesFromSpace (ln\<lparr> dataReadPtr := dataReadPtr ln + 1 \<rparr>))"
    and "unread (resetValuesFromSpace (ln\<lparr> dataReadPtr := dataReadPtr ln + 1 \<rparr>)) vs"
proof -
  have "dataReadPtr ln \<noteq> dataWritePtr ln"
    using assms ring_pos_off [of "length (PUNK_INT # vs)" "dataReadPtr ln"] unfolding unread_def by (metis length_greater_0_conv list.distinct(1))
  then have "skip_gaps ln = skip_gaps (resetValuesFromSpace (ln\<lparr> dataReadPtr := dataReadPtr ln + 1 \<rparr>))"
    using assms by (subst skip_gaps.simps) (simp add: unread_def pulse_at_def)
  then show "analyze_data ln = analyze_data (resetValuesFromSpace (ln\<lparr> dataReadPtr := dataReadPtr ln + 1 \<rparr>))"
    by (subst (1 2) analyze_data.simps) simp
  show "unread (resetValuesFromSpace (ln\<lparr> dataReadPtr := dataReadPtr ln + 1 \<rparr>)) vs"
    using assms by (simp add: unread_def add.assoc)
qed

text \<open>Pulses from the device join the unread ones.\<close>

definition well_sized :: "line \<Rightarrow> bool" where
  "well_sized ln \<longleftrightarrow> length (dataBuffer ln) = 1024 \<and> length (manBuffer ln) = 1024 \<and> length (biphaseBuffer ln) = 1024"

lemma add_pulse_unread:
  assumes "unread ln vs" and "length vs < 1023" and "length (dataBuffer ln) = 1024"
  shows "unread (add_pulse b ln) (vs @ [pulse_of b])"
    and "add_pulse b ln = ln\<lparr> dataBuffer := (dataBuffer ln)[unat (dataWritePtr ln) := pulse_of b], dataWritePtr := dataWritePtr ln + 1 \<rparr>"
proof -
  have w: "dataWritePtr ln = dataReadPtr ln + of_nat (length vs)" using assms(1) by (simp add: unread_def)
  have "dataWritePtr ln + 1 \<noteq> dataReadPtr ln"
    using ring_pos_off [of "length vs + 1" "dataReadPtr ln"] assms(2) unfolding w by (simp add: ac_simps)
  then show a: "add_pulse b ln = ln\<lparr> dataBuffer := (dataBuffer ln)[unat (dataWritePtr ln) := pulse_of b], dataWritePtr := dataWritePtr ln + 1 \<rparr>"
    by (simp add: add_pulse_def)
  show "unread (add_pulse b ln) (vs @ [pulse_of b])"
    unfolding a using assms w seg_update [of "dataBuffer ln" "dataReadPtr ln" vs "dataWritePtr ln" "pulse_of b"] by (simp add: unread_def add.assoc)
qed

lemma fold_add_pulse:
  assumes "unread ln vs" and "length vs + length bs < 1024" and "length (dataBuffer ln) = 1024"
  shows "unread (fold add_pulse bs ln) (vs @ map pulse_of bs)
    \<and> (\<exists>buf w. length buf = 1024 \<and> fold add_pulse bs ln = ln\<lparr> dataBuffer := buf, dataWritePtr := w \<rparr>)"
  using assms
proof (induction bs arbitrary: ln vs)
  case Nil
  then show ?case by (auto intro!: exI [of _ "dataBuffer ln"] exI [of _ "dataWritePtr ln"])
next
  case (Cons b bs)
  note a = add_pulse_unread [OF Cons.prems(1) _ Cons.prems(3), of b]
  have "length vs < 1023" using Cons.prems(2) by simp
  note a = a [OF this]
  have "length (vs @ [pulse_of b]) + length bs < 1024" "length (dataBuffer (add_pulse b ln)) = 1024"
    using Cons.prems unfolding a(2) by simp_all
  from Cons.IH [OF a(1) this] show ?case by (auto simp: a(2))
qed

section \<open>The Manchester decoder\<close>

text \<open>A pulse of \<open>c\<close> clocks, high or low.\<close>

definition pulse :: "int \<Rightarrow> bool \<Rightarrow> int" where
  "pulse c high = c + (if high then 256 else 0)"

lemma pulse_parts:
  assumes "0 \<le> c" and "c < 256"
  shows "clocks_of (pulse c h) = c" and "polarity_of (pulse c h) = h" and "pulse c h \<noteq> PUNK_INT"
proof -
  have "v AND 0xFF = v mod 256" for v :: int using take_bit_eq_mask [of 8 v] by (simp add: take_bit_eq_mod mask_numeral)
  with assms show "clocks_of (pulse c h) = c" by (simp add: clocks_of_def pulse_def mod_pos_pos_trivial)
  have "v AND 2 ^ 8 \<noteq> 0 \<longleftrightarrow> bit v 8" for v :: int by (simp only: and_exp_eq_0_iff_not_bit not_not)
  moreover have "(c + 256) div 256 = 1" using assms div_add_self2 [of 256 c] by simp
  ultimately show "polarity_of (pulse c h) = h" by (simp add: polarity_of_def pulse_def bit_iff_odd)
  show "pulse c h \<noteq> PUNK_INT" using assms by (simp add: pulse_def)
qed

lemma man_bit_pulse: "0 \<le> c \<Longrightarrow> c < 256 \<Longrightarrow> man_bit (pulse c b) = of_bool b"
  by (simp add: man_bit_def pulse_parts)

text \<open>
  The pulses of some bits after the bit \<open>prev\<close>: each bit is a level and its opposite, so that two equal
  bits have two short pulses between their middles and two different ones have a long one.
\<close>

fun manchester :: "int \<Rightarrow> bool \<Rightarrow> bool list \<Rightarrow> int list" where
  "manchester s prev [] = []"
| "manchester s prev (b # bs) =
     (if b = prev then [pulse s (\<not> prev), pulse s b] else [pulse (2 * s) b]) @ manchester s b bs"

definition man_part :: "line \<Rightarrow> 8 word list \<times> ring_pos \<times> ring_pos \<times> bool \<times> bool" where
  "man_part ln = (manBuffer ln, manReadPtr ln, manWritePtr ln, manLockedIn ln, manShortChange ln)"

lemma man_pulse_long [simp]: "longClocks (man_pulse v ln) = longClocks ln" "shortClocks (man_pulse v ln) = shortClocks ln"
  by (simp_all add: man_pulse_def put_man_def Let_def)

lemma fold_man_pulse_ptrs [simp]:
  "longClocks (fold man_pulse vs ln) = longClocks ln" "shortClocks (fold man_pulse vs ln) = shortClocks ln"
  "dataWritePtr (fold man_pulse vs ln) = dataWritePtr ln" "dataReadPtr (fold man_pulse vs ln) = dataReadPtr ln"
  "dataBuffer (fold man_pulse vs ln) = dataBuffer ln"
  by (induction vs arbitrary: ln) simp_all

lemma man_pulse_cong:
  assumes "man_part ln = man_part ln'" and "longClocks ln = longClocks ln'"
  shows "man_part (man_pulse v ln) = man_part (man_pulse v ln')"
proof -
  have f: "manBuffer ln = manBuffer ln'" "manReadPtr ln = manReadPtr ln'" "manWritePtr ln = manWritePtr ln'"
    "manLockedIn ln = manLockedIn ln'" "manShortChange ln = manShortChange ln'"
    using assms(1) by (simp_all add: man_part_def)
  have put: "man_part (put_man b l) = man_part (put_man b l')" if "man_part l = man_part l'" for l l' b
    using that by (simp add: man_part_def put_man_def Let_def)
  have drop: "man_part (ln\<lparr> manReadPtr := r \<rparr>) = man_part (ln'\<lparr> manReadPtr := r \<rparr>)" for r
    using f by (simp add: man_part_def)
  have fields: "man_part (l\<lparr> manLockedIn := True, manShortChange := False \<rparr>) = man_part (l'\<lparr> manLockedIn := True, manShortChange := False \<rparr>)"
    "man_part (l\<lparr> manShortChange := x \<rparr>) = man_part (l'\<lparr> manShortChange := x \<rparr>)"
    "man_part (l\<lparr> manShortChange := True, manLockedIn := True \<rparr>) = man_part (l'\<lparr> manShortChange := True, manLockedIn := True \<rparr>)"
    if "man_part l = man_part l'" for l l' x
    using that by (simp_all add: man_part_def)
  show ?thesis
  proof (cases "clocks_of v = longClocks ln'")
    case True
    then show ?thesis
      by (cases "manShortChange ln'"; simp add: man_pulse_def Let_def f assms(2); intro fields put drop assms(1))
  next
    case False
    then show ?thesis
      by (cases "manShortChange ln'"; cases "manLockedIn ln'"; cases "polarity_of v";
          simp add: man_pulse_def f assms(2); intro fields put assms(1))
  qed
qed

lemma fold_man_pulse_cong:
  "man_part ln = man_part ln' \<Longrightarrow> longClocks ln = longClocks ln' \<Longrightarrow> man_part (fold man_pulse vs ln) = man_part (fold man_pulse vs ln')"
proof (induction vs arbitrary: ln ln')
  case (Cons v vs)
  have "man_part (fold man_pulse vs (man_pulse v ln)) = man_part (fold man_pulse vs (man_pulse v ln'))"
    using Cons.prems by (intro Cons.IH man_pulse_cong) simp_all
  then show ?case by simp
qed simp

definition man_queue :: "line \<Rightarrow> 8 word list \<Rightarrow> bool" where
  "man_queue ln bits \<longleftrightarrow> length (manBuffer ln) = 1024 \<and> length bits < 1024
     \<and> manWritePtr ln = manReadPtr ln + of_nat (length bits) \<and> seg (manBuffer ln) (manReadPtr ln) bits"

lemma put_man_queue:
  assumes "man_queue ln bits" and "length bits < 1023"
  shows "man_queue (put_man b ln) (bits @ [b])"
proof -
  have w: "manWritePtr ln = manReadPtr ln + of_nat (length bits)" using assms(1) by (simp add: man_queue_def)
  have "manWritePtr ln + 1 \<noteq> manReadPtr ln"
    using ring_pos_off [of "length bits + 1" "manReadPtr ln"] assms(2) unfolding w by (simp add: ac_simps)
  then have "put_man b ln = ln\<lparr> manBuffer := (manBuffer ln)[unat (manWritePtr ln) := b], manWritePtr := manWritePtr ln + 1 \<rparr>"
    by (simp add: put_man_def)
  then show ?thesis
    using assms w seg_update [of "manBuffer ln" "manReadPtr ln" bits "manWritePtr ln" b] by (simp add: man_queue_def add.assoc)
qed

text \<open>Between two bits the decoder is locked in and no short pulse waits for its second one.\<close>

definition man_between :: "int \<Rightarrow> line \<Rightarrow> 8 word list \<Rightarrow> bool" where
  "man_between s ln bits \<longleftrightarrow> man_queue ln bits \<and> manLockedIn ln \<and> \<not> manShortChange ln \<and> longClocks ln = 2 * s"

lemma man_queue_fields [simp]:
  "man_queue (ln\<lparr> manShortChange := x \<rparr>) bits = man_queue ln bits" "man_queue (ln\<lparr> manLockedIn := x \<rparr>) bits = man_queue ln bits"
  by (simp_all add: man_queue_def)

lemma put_man_fields [simp]:
  "manLockedIn (put_man b ln) = manLockedIn ln" "manShortChange (put_man b ln) = manShortChange ln"
  "longClocks (put_man b ln) = longClocks ln"
  by (simp_all add: put_man_def Let_def)

lemma put_man_update: "put_man b (ln\<lparr> manShortChange := x \<rparr>) = (put_man b ln)\<lparr> manShortChange := x \<rparr>"
  by (simp add: put_man_def Let_def)

lemma man_long:
  assumes "man_queue ln bits" and "\<not> manShortChange ln" and "longClocks ln = 2 * s" and "length bits < 1023" and "0 < s" and "2 * s < 256"
  shows "man_between s (man_pulse (pulse (2 * s) b) ln) (bits @ [of_bool b])"
  using assms(2,3,5,6) pulse_parts(1) [of "2 * s" b] man_bit_pulse [of "2 * s" b] put_man_queue [OF assms(1,4), of "of_bool b"]
  unfolding man_between_def man_pulse_def Let_def by simp

lemma man_short:
  assumes "man_between s ln bits" and "length bits < 1023" and "0 < s" and "2 * s < 256"
  shows "man_queue (man_pulse (pulse s h) ln) bits"
    and "man_between s (man_pulse (pulse s b) (man_pulse (pulse s h) ln)) (bits @ [of_bool b])"
proof -
  have m: "man_pulse (pulse s h) ln = ln\<lparr> manShortChange := True \<rparr>"
    using assms pulse_parts [of s h] by (simp add: man_between_def man_pulse_def)
  show "man_queue (man_pulse (pulse s h) ln) bits" using assms unfolding m by (simp add: man_between_def)
  have "man_queue (put_man (of_bool b) ln) (bits @ [of_bool b])" using assms by (intro put_man_queue) (simp_all add: man_between_def)
  then show "man_between s (man_pulse (pulse s b) (man_pulse (pulse s h) ln)) (bits @ [of_bool b])"
    using assms pulse_parts(1) [of s b] pulse_parts(1) [of s h] man_bit_pulse [of s b]
    unfolding m man_between_def man_pulse_def put_man_update by (simp del: of_bool_eq_iff add: put_man_update)
qed

text \<open>After any part of the pulses the queue has the bits that are complete.\<close>

lemma man_prefix:
  assumes "0 < s" and "2 * s < 256"
  shows "man_between s ln bits \<Longrightarrow> us @ rest = manchester s prev bs \<Longrightarrow> length bits + length bs < 1023 \<Longrightarrow>
     \<exists>n \<le> length bs. man_queue (fold man_pulse us ln) (bits @ map of_bool (take n bs)) \<and> (n = length bs \<longleftrightarrow> rest = [])"
proof (induction bs arbitrary: ln bits us prev)
  case Nil
  then show ?case by (simp add: man_between_def)
next
  case (Cons b bs)
  have room: "length bits < 1023" "length (bits @ [of_bool b]) + length bs < 1023" using Cons.prems(3) by simp_all
  have cell: ?case if l: "man_between s ln' (bits @ [of_bool b])" and u: "us' @ rest = manchester s b bs"
    and f: "fold man_pulse us ln = fold man_pulse us' ln'" for ln' us'
  proof -
    obtain n where "n \<le> length bs" "man_queue (fold man_pulse us' ln') ((bits @ [of_bool b]) @ map of_bool (take n bs))"
      "n = length bs \<longleftrightarrow> rest = []" using Cons.IH [OF l u room(2)] by blast
    then show ?thesis unfolding f by (intro exI [of _ "Suc n"]) simp
  qed
  have none: ?case if "man_queue (fold man_pulse us ln) bits" and "rest \<noteq> []"
    using that by (intro exI [of _ 0]) simp
  show ?case
  proof (cases "b = prev")
    case True
    then have e: "us @ rest = pulse s (\<not> prev) # pulse s b # manchester s b bs" using Cons.prems(2) by simp
    note short = man_short [OF Cons.prems(1) room(1) assms]
    consider "us = []" | "us = [pulse s (\<not> prev)]" | us' where "us = pulse s (\<not> prev) # pulse s b # us'" "us' @ rest = manchester s b bs"
      using e by (cases us; cases "tl us") auto
    then show ?thesis
    proof cases
      case 1
      then show ?thesis using Cons.prems(1) e by (intro none) (auto simp: man_between_def)
    next
      case 2
      then show ?thesis using short(1) e by (intro none) auto
    next
      case 3
      show ?thesis by (rule cell [OF short(2) 3(2)]) (simp add: 3(1))
    qed
  next
    case False
    then have e: "us @ rest = pulse (2 * s) b # manchester s b bs" using Cons.prems(2) by simp
    have l: "man_between s (man_pulse (pulse (2 * s) b) ln) (bits @ [of_bool b])"
      using Cons.prems(1) room(1) by (intro man_long assms) (simp_all add: man_between_def)
    consider "us = []" | us' where "us = pulse (2 * s) b # us'" "us' @ rest = manchester s b bs"
      using e by (cases us) auto
    then show ?thesis
    proof cases
      case 1
      then show ?thesis using Cons.prems(1) e by (intro none) (auto simp: man_between_def)
    next
      case 2
      show ?thesis by (rule cell [OF l 2(2)]) (simp add: 2(1))
    qed
  qed
qed

lemma bi_pulse_man_part:
  assumes "known_pulse s v" and "shortClocks ln = s" and "longClocks ln = 2 * s"
  shows "man_part (bi_pulse v ln) = man_part ln \<and> dataWritePtr (bi_pulse v ln) = dataWritePtr ln"
  using assms by (auto simp: biphase_pulse_def bi_pulse_def known_pulse_def put_biphase_def man_part_def Let_def)

lemma fold_bi_pulse:
  "list_all (known_pulse s) vs \<Longrightarrow> shortClocks ln = s \<Longrightarrow> longClocks ln = 2 * s \<Longrightarrow>
     shortClocks (fold bi_pulse vs ln) = s \<and> longClocks (fold bi_pulse vs ln) = 2 * s
     \<and> dataBuffer (fold bi_pulse vs ln) = dataBuffer ln \<and> dataWritePtr (fold bi_pulse vs ln) = dataWritePtr ln
     \<and> man_part (fold bi_pulse vs ln) = man_part ln"
proof (induction vs arbitrary: ln)
  case (Cons v vs)
  have v: "known_pulse s v" using Cons.prems(1) by simp
  note b = bi_pulse_ptrs [OF v Cons.prems(2,3)]
  show ?case using Cons.IH [OF _ b(2,3)] Cons.prems(1) bi_pulse_man_part [OF v Cons.prems(2,3)] b(4) by simp
qed simp

text \<open>What a search does with the Manchester queue.\<close>

lemma decode_man:
  assumes "unread l vs" and "list_all (known_pulse s) vs" and "shortClocks l = s" and "longClocks l = 2 * s"
    and "decodeEM4100 (manBuffer (fold man_pulse vs l)) (manReadPtr (fold man_pulse vs l)) (manWritePtr (fold man_pulse vs l)) zero_tag
         = (r1, rd1, tag1)"
  shows "\<exists>ln2 ts. decode_pulses (dataWritePtr l) l = (ln2, ts) \<and> shortClocks ln2 = s \<and> longClocks ln2 = 2 * s
     \<and> dataWritePtr ln2 = dataWritePtr l \<and> dataBuffer ln2 = dataBuffer l
     \<and> man_part ln2 = man_part ((fold man_pulse vs l)\<lparr> manReadPtr := rd1 \<rparr>) \<and> (r1 = EPHIDGET_OK \<longrightarrow> tag1 \<in> set ts)"
proof -
  let ?M = "fold man_pulse vs l"
  have w: "dataWritePtr l = dataReadPtr l + of_nat (length vs)" and len: "length vs < 1024" and sg: "seg (dataBuffer l) (dataReadPtr l) vs"
    using assms(1) by (simp_all add: unread_def)
  have m: "add_manchester_data (dataWritePtr l) l = ?M"
    unfolding add_manchester_data_def w by (rule man_loop_fold [OF len sg])
  define B where "B = fold bi_pulse vs (?M\<lparr> manReadPtr := rd1 \<rparr>)"
  have b: "add_biphase_data (dataWritePtr l) (?M\<lparr> manReadPtr := rd1 \<rparr>) = (True, B)"
    unfolding add_biphase_data_def w B_def using assms(2,3,4) sg len biphase_loop_fold [of vs "?M\<lparr> manReadPtr := rd1 \<rparr>" "dataReadPtr l" s] by simp
  have B: "shortClocks B = s \<and> longClocks B = 2 * s \<and> dataBuffer B = dataBuffer l \<and> dataWritePtr B = dataWritePtr l
      \<and> man_part B = man_part (?M\<lparr> manReadPtr := rd1 \<rparr>)"
    unfolding B_def using fold_bi_pulse [OF assms(2), of "?M\<lparr> manReadPtr := rd1 \<rparr>"] assms(3,4) by simp
  obtain r2 rd2 tag2 where d2: "decodePHIDGETS_TAG (biphaseBuffer B) (biphaseReadPtr B) (biphaseWritePtr B) tag1 = (r2, rd2, tag2)"
    by (metis prod_cases3)
  obtain r3 rd3 tag3 where d3: "decodeISO11785_FDX_B (biphaseBuffer B) rd2 (biphaseWritePtr B) tag2 = (r3, rd3, tag3)"
    by (metis prod_cases3)
  have "man_part (B\<lparr> biphaseReadPtr := rd3 \<rparr>) = man_part B" by (simp add: man_part_def)
  with B show ?thesis by (simp add: decode_pulses_def Let_def m assms(5) b d2 d3)
qed

lemma em4100_too_short:
  assumes "man_queue ln bits" and "bits \<noteq> []" and "length bits < 64"
  shows "decodeEM4100 (manBuffer ln) (manReadPtr ln) (manWritePtr ln) tag = (EPHIDGET_NOTFOUND, manReadPtr ln, tag)"
proof -
  have w: "manWritePtr ln = manReadPtr ln + of_nat (length bits)" using assms(1) by (simp add: man_queue_def)
  have "manReadPtr ln \<noteq> manWritePtr ln" using ring_pos_off [of "length bits" "manReadPtr ln"] assms(2,3) unfolding w by simp
  moreover have "unat (manWritePtr ln - manReadPtr ln) < 64" using assms(3) unfolding w by (simp add: unat_of_nat)
  ultimately have "find_start (em4100_start (manBuffer ln)) 64 (manWritePtr ln) (manReadPtr ln) = None"
    by (subst find_start.simps) simp
  then show ?thesis by (simp add: decodeEM4100_def em4100_search.simps [of "manBuffer ln"])
qed

lemma em4100_frame_found:
  assumes "man_queue ln bits" and "length bits = 64" and "bits = block_bits ws" and "length ds = 5" and "2 \<le> n"
    and "encodeEM4100 (Some (hex_bytes ds)) n = (r, ws)"
  shows "\<exists>rd. decodeEM4100 (manBuffer ln) (manReadPtr ln) (manWritePtr ln) tag =
     (EPHIDGET_OK, rd, tag\<lparr> protocol := PHIDGET_RFID_PROTOCOL_EM4100, tagString := hex_bytes ds, tagData := ds @ drop 5 (tagData tag) \<rparr>)"
proof -
  have w: "manWritePtr ln = manReadPtr ln + of_nat 64" using assms(1,2) by (simp add: man_queue_def)
  have "64 \<le> unat (manWritePtr ln - manReadPtr ln)" unfolding w by simp
  moreover have "holds (manBuffer ln) (manReadPtr ln) (block_bits ws)"
    using assms(1,3) by (simp add: holds_def man_queue_def seg_def ring_def)
  ultimately show ?thesis using em4100_read_back [OF assms(4,5) _ assms(6)] by blast
qed

end
