(* ===== verification/RfidStream.thy ===== *)
theory RfidStream
  imports RfidLineProps
begin

unbundle bit_operations_syntax

text \<open>
  Tags read from the stream of pulses: whatever packets the pulses of a tag come in, the tag is
  found and reported with the text it was programmed with.
\<close>

fun take_packets :: "8 word list list \<Rightarrow> line \<Rightarrow> line \<times> CPhidgetRFID_Tag list" where
  "take_packets [] ln = (ln, [])"
| "take_packets (p # ps) ln =
     (let (ln1, ts) = take_pulses p ln; (ln2, us) = take_packets ps ln1 in (ln2, ts @ us))"

section \<open>Lengths\<close>

lemma rates_known_stay: "fst r \<noteq> 0 \<Longrightarrow> snd r \<noteq> 0 \<Longrightarrow> fold rate_step vs r = r"
  by (induction vs) (simp_all add: rate_step_def)

lemma one_length:
  "fold rate_step vs (c, 0) = (a, 0) \<Longrightarrow> c \<noteq> 0 \<Longrightarrow> 0 < s \<Longrightarrow> list_all (known_pulse s) vs \<Longrightarrow> a = c \<and> (\<forall>v \<in> set vs. clocks_of v = c)"
proof (induction vs arbitrary: c)
  case (Cons v vs)
  show ?case
  proof (cases "clocks_of v = c")
    case True
    with Cons show ?thesis by (simp add: rate_step_def)
  next
    case False
    have "clocks_of v \<noteq> 0" using Cons.prems(3,4) by (auto simp: known_pulse_def)
    with False Cons.prems(2) have "fold rate_step vs (rate_step v (c, 0)) = (c, clocks_of v)"
      by (simp add: rate_step_def rates_known_stay)
    with Cons.prems(1) \<open>clocks_of v \<noteq> 0\<close> show ?thesis by simp
  qed
qed simp

text \<open>Scanning the same pulses again changes nothing as long as they are all of one length.\<close>

lemma rates_again:
  assumes "snd (fold rate_step us (0, 0)) = 0" and "0 < s" and "list_all (known_pulse s) us"
  shows "fold rate_step (us @ vs) (fold rate_step us (0, 0)) = fold rate_step (us @ vs) (0, 0)"
proof (cases us)
  case (Cons u us')
  have c: "clocks_of u \<noteq> 0" using assms(2,3) Cons by (auto simp: known_pulse_def)
  obtain a where a: "fold rate_step us (0, 0) = (a, 0)" using assms(1) by (metis prod.collapse)
  then have "fold rate_step us' (clocks_of u, 0) = (a, 0)" using Cons by (simp add: rate_step_def)
  with one_length [OF this c assms(2)] assms(3) Cons have "a = clocks_of u" "\<forall>v \<in> set us. clocks_of v = a" by auto
  moreover have "\<forall>v \<in> set vs. clocks_of v = a \<Longrightarrow> fold rate_step vs (a, 0) = (a, 0)" for vs :: "int list"
    using c \<open>a = clocks_of u\<close> by (induction vs) (simp_all add: rate_step_def)
  ultimately show ?thesis using a by simp
qed simp

lemma known_pulses: "0 < s \<Longrightarrow> 2 * s < 256 \<Longrightarrow> list_all (known_pulse s) (manchester s prev bs)"
  by (induction s prev bs rule: manchester.induct) (simp_all add: known_pulse_def pulse_parts)

lemma length_manchester: "length (manchester s prev bs) \<le> 2 * length bs"
proof (induction bs arbitrary: prev)
  case (Cons b bs)
  show ?case using Cons [of b] by auto
qed simp

section \<open>Manchester\<close>

definition man_reset :: "line \<Rightarrow> bool" where
  "man_reset ln \<longleftrightarrow> manReadPtr ln = manWritePtr ln \<and> \<not> manLockedIn ln \<and> \<not> manShortChange ln \<and> length (manBuffer ln) = 1024"

lemma man_queue_part: "man_part ln = man_part ln' \<Longrightarrow> man_queue ln bits = man_queue ln' bits"
  by (simp add: man_part_def man_queue_def)

lemma man_stream_queue:
  assumes "0 < s" and "2 * s < 256" and "man_reset base" and "longClocks base = 2 * s"
    and "us @ rest = manchester s False (True # bs)" and "us \<noteq> []" and "length bs < 1022"
  shows "\<exists>n \<le> length bs. man_queue (fold man_pulse us base) (1 # map of_bool (take n bs)) \<and> (n = length bs \<longleftrightarrow> rest = [])"
proof -
  obtain us' where us: "us = pulse (2 * s) True # us'" "us' @ rest = manchester s True bs"
    using assms(5,6) by (cases us) auto
  have "man_queue base []" using assms(3) by (simp add: man_queue_def man_reset_def)
  then have "man_between s (man_pulse (pulse (2 * s) True) base) ([] @ [of_bool True])"
    using assms(1-4) by (intro man_long) (simp_all add: man_reset_def)
  from man_prefix [OF assms(1,2) this us(2)] assms(7) show ?thesis by (simp add: us(1))
qed

text \<open>
  The state after the pulses \<open>us\<close> of a frame: until both lengths are known they wait unread, then they are
  all in the decoder.
\<close>

definition man_inv :: "int \<Rightarrow> line \<Rightarrow> int list \<Rightarrow> bool" where
  "man_inv s ln us \<longleftrightarrow> length (dataBuffer ln) = 1024 \<and>
     (if snd (fold rate_step us (0, 0)) = 0
      then (shortClocks ln, longClocks ln) = fold rate_step us (0, 0) \<and> unread ln us \<and> man_reset ln
      else shortClocks ln = s \<and> longClocks ln = 2 * s \<and> unread ln []
        \<and> (\<exists>base. man_reset base \<and> longClocks base = 2 * s \<and> man_part ln = man_part (fold man_pulse us base)))"

text \<open>One search: \<open>vs\<close> are the unread ones among the pulses \<open>us\<close>.\<close>

lemma man_search:
  assumes s: "0 < s" "2 * s < 256" and len: "length (dataBuffer l) = 1024" and vs: "unread l vs" "list_all (known_pulse s) vs"
    and rates: "rates_ok s (shortClocks l, longClocks l)" "fold rate_step vs (shortClocks l, longClocks l) = (a, b)"
    and known: "snd (fold rate_step us (0, 0)) = 0 \<longleftrightarrow> b = 0"
    and wait: "b = 0 \<Longrightarrow> us = vs \<and> fold rate_step us (0, 0) = (a, 0) \<and> man_reset l"
    and base: "man_reset base" "longClocks base = 2 * s"
      "b \<noteq> 0 \<Longrightarrow> man_part (fold man_pulse vs (l\<lparr> shortClocks := s, longClocks := 2 * s \<rparr>)) = man_part (fold man_pulse us base)"
    and us: "us @ rest = manchester s False bits" "b \<noteq> 0 \<Longrightarrow> us \<noteq> []" and bits: "bits = True # True # bs" "length bits = 64"
    and frame: "block_bits ws = map of_bool bits" "length ds = 5" "2 \<le> n" "encodeEM4100 (Some (hex_bytes ds)) n = (r, ws)"
  shows "\<exists>ln' ts. analyze_data l = (ln', ts) \<and> (rest \<noteq> [] \<longrightarrow> man_inv s ln' us)
     \<and> (rest = [] \<longrightarrow> zero_tag\<lparr> protocol := PHIDGET_RFID_PROTOCOL_EM4100, tagString := hex_bytes ds, tagData := ds @ drop 5 (tagData zero_tag) \<rparr> \<in> set ts)"
proof (cases "b = 0")
  case True
  have "rest \<noteq> []"
  proof
    assume "rest = []"
    then have "fold rate_step us (0, 0) = fold rate_step (manchester s True (True # bs)) (2 * s, 0)"
      using us(1) bits(1) s pulse_parts(1) [of "2 * s" True] by (simp add: rate_step_def)
    also have "\<dots> = (2 * s, s)"
      using s pulse_parts(1) [of s False] pulse_parts(1) [of s True] by (simp add: rate_step_def rates_known_stay)
    finally show False using known True s(1) by simp
  qed
  moreover have "analyze_data l = (l\<lparr> shortClocks := a, longClocks := 0 \<rparr>, [])"
    using analyze_known [OF vs s(1) rates] True by simp
  moreover have "man_inv s (l\<lparr> shortClocks := a, longClocks := 0 \<rparr>) us"
  proof -
    have w: "us = vs" "fold rate_step vs (0, 0) = (a, 0)" "man_reset l" using wait [OF True] by auto
    show ?thesis using len vs(1) w(3) unfolding man_inv_def w(1,2) by (simp add: unread_def man_reset_def)
  qed
  ultimately show ?thesis by simp
next
  case False
  let ?l = "l\<lparr> shortClocks := s, longClocks := 2 * s \<rparr>"
  let ?M = "fold man_pulse vs ?l"
  have part: "man_part ?M = man_part (fold man_pulse us base)" by (rule base(3) [OF False])
  obtain m where m: "m \<le> length (True # bs)" "man_queue (fold man_pulse us base) (1 # map of_bool (take m (True # bs)))"
    "m = length (True # bs) \<longleftrightarrow> rest = []"
    using man_stream_queue [OF s base(1,2) us(1) [unfolded bits(1)] us(2) [OF False]] bits by auto
  from m(2) have q: "man_queue ?M (1 # map of_bool (take m (True # bs)))" unfolding man_queue_part [OF part] .
  have l: "unread ?l vs" using vs(1) by (simp add: unread_def)
  have an: "analyze_data l = (let (ln2, ts) = decode_pulses (dataWritePtr l) ?l in (ln2\<lparr> dataReadPtr := dataWritePtr l \<rparr>, ts))"
    using analyze_known [OF vs s(1) rates] False by simp
  show ?thesis
  proof (cases "rest = []")
    case True
    with m(3) have "1 # map of_bool (take m (True # bs)) = block_bits ws" using frame(1) bits(1) by simp
    with q obtain rd where d: "decodeEM4100 (manBuffer ?M) (manReadPtr ?M) (manWritePtr ?M) zero_tag = (EPHIDGET_OK, rd,
        zero_tag\<lparr> protocol := PHIDGET_RFID_PROTOCOL_EM4100, tagString := hex_bytes ds, tagData := ds @ drop 5 (tagData zero_tag) \<rparr>)"
      using em4100_frame_found [of ?M "block_bits ws" ws ds n r zero_tag] frame bits(2) by auto
    from decode_man [OF l vs(2) _ _ d] True an show ?thesis by auto
  next
    case rest: False
    with m(1,3) have "m < length (True # bs)" by simp
    with bits have "length (1 # map of_bool (take m (True # bs)) :: 8 word list) < 64" by simp
    then have d: "decodeEM4100 (manBuffer ?M) (manReadPtr ?M) (manWritePtr ?M) zero_tag = (EPHIDGET_NOTFOUND, manReadPtr ?M, zero_tag)"
      by (rule em4100_too_short [OF q list.distinct(2)])
    have same: "?M\<lparr> manReadPtr := manReadPtr ?M \<rparr> = ?M" by simp
    obtain ln2 ts where e: "decode_pulses (dataWritePtr l) ?l = (ln2, ts)" "shortClocks ln2 = s" "longClocks ln2 = 2 * s"
      "dataWritePtr ln2 = dataWritePtr l" "dataBuffer ln2 = dataBuffer l" "man_part ln2 = man_part ?M"
      using decode_man [OF l vs(2) _ _ d, unfolded same] by auto
    have "man_part (ln2\<lparr> dataReadPtr := dataWritePtr l \<rparr>) = man_part (fold man_pulse us base)"
      using e(6) part by (simp add: man_part_def)
    then have "man_inv s (ln2\<lparr> dataReadPtr := dataWritePtr l \<rparr>) us"
      using False known e len base(1,2) unfolding man_inv_def by (auto simp: unread_def)
    then show ?thesis using rest an e(1) by simp
  qed
qed

lemma man_inv_step:
  assumes s: "0 < s" "2 * s < 256" and inv: "man_inv s ln us" and us: "(us @ map pulse_of p) @ rest = manchester s False bits" and p: "p \<noteq> []"
    and bits: "bits = True # True # bs" "length bits = 64"
    and frame: "block_bits ws = map of_bool bits" "length ds = 5" "2 \<le> n" "encodeEM4100 (Some (hex_bytes ds)) n = (r, ws)"
  shows "\<exists>ln' ts. take_pulses p ln = (ln', ts) \<and> (rest \<noteq> [] \<longrightarrow> man_inv s ln' (us @ map pulse_of p))
     \<and> (rest = [] \<longrightarrow> zero_tag\<lparr> protocol := PHIDGET_RFID_PROTOCOL_EM4100, tagString := hex_bytes ds, tagData := ds @ drop 5 (tagData zero_tag) \<rparr> \<in> set ts)"
proof -
  let ?vs = "map pulse_of p" let ?us = "us @ ?vs"
  have known: "list_all (known_pulse s) us" "list_all (known_pulse s) ?vs"
    using known_pulses [OF s, of False bits] unfolding us [symmetric] by simp_all
  have room: "length us + length p < 1024"
    using length_manchester [of s False bits] bits(2) arg_cong [OF us, of length] by simp
  have ok: "rates_ok s (fold rate_step us' (0, 0))" if "list_all (known_pulse s) us'" for us'
  proof -
    have "rates_ok s (fold rate_step us' r)" if "rates_ok s r" for r
      using \<open>list_all (known_pulse s) us'\<close> that by (induction us' arbitrary: r) (simp_all add: rate_step_ok [OF s(1)])
    then show ?thesis by (simp add: rates_ok_def)
  qed
  obtain x y where xy: "fold rate_step us (0, 0) = (x, y)" by force
  have take: "take_pulses p ln = analyze_data (fold add_pulse p ln)" using p by (simp add: take_pulses_def)
  show ?thesis
  proof (cases "y = 0")
    case True
    with inv xy have i: "length (dataBuffer ln) = 1024" "shortClocks ln = x" "longClocks ln = 0" "unread ln us" "man_reset ln"
      by (auto simp: man_inv_def)
    obtain buf w where l: "length buf = 1024" "fold add_pulse p ln = ln\<lparr> dataBuffer := buf, dataWritePtr := w \<rparr>"
      and un: "unread (fold add_pulse p ln) ?us" using fold_add_pulse [OF i(4) room i(1)] by auto
    obtain a b where ab: "fold rate_step ?us (x, 0) = (a, b)" by force
    then have same: "fold rate_step ?us (0, 0) = (a, b)" using rates_again [OF _ s(1) known(1), of ?vs] xy True by simp
    have "\<exists>ln' ts. analyze_data (fold add_pulse p ln) = (ln', ts) \<and> (rest \<noteq> [] \<longrightarrow> man_inv s ln' ?us)
     \<and> (rest = [] \<longrightarrow> zero_tag\<lparr> protocol := PHIDGET_RFID_PROTOCOL_EM4100, tagString := hex_bytes ds, tagData := ds @ drop 5 (tagData zero_tag) \<rparr> \<in> set ts)"
    proof (rule man_search [OF s _ un _ _ _ _ _ _ _ _ us _ bits frame, where base = "(fold add_pulse p ln)\<lparr> shortClocks := s, longClocks := 2 * s \<rparr>" and a = a and b = b])
      show "length (dataBuffer (fold add_pulse p ln)) = 1024" using l by simp
      show "list_all (known_pulse s) ?us" using known by simp
      show "rates_ok s (shortClocks (fold add_pulse p ln), longClocks (fold add_pulse p ln))"
        using ok [OF known(1)] xy True i l by simp
      show "fold rate_step ?us (shortClocks (fold add_pulse p ln), longClocks (fold add_pulse p ln)) = (a, b)" using ab i l by simp
      show "?us \<noteq> []" using p by simp
    qed (use same i l in \<open>auto simp: man_reset_def\<close>)
    then show ?thesis unfolding take .
  next
    case False
    with inv xy obtain base where i: "length (dataBuffer ln) = 1024" "shortClocks ln = s" "longClocks ln = 2 * s" "unread ln []"
      "man_reset base" "longClocks base = 2 * s" "man_part ln = man_part (fold man_pulse us base)"
      by (auto simp: man_inv_def)
    have "length ([] :: int list) + length p < 1024" using room by simp
    from fold_add_pulse [OF i(4) this i(1)] obtain buf w where l: "length buf = 1024" "fold add_pulse p ln = ln\<lparr> dataBuffer := buf, dataWritePtr := w \<rparr>"
      and un: "unread (fold add_pulse p ln) ?vs" by auto
    have xs: "(x, y) \<noteq> (0, 0)" "x \<noteq> 0" using ok [OF known(1)] xy False s(1) by (auto simp: rates_ok_def)
    then have same: "fold rate_step ?us (0, 0) = (x, y)" using xy False rates_known_stay [of "(x, y)" ?vs] by simp
    have "\<exists>ln' ts. analyze_data (fold add_pulse p ln) = (ln', ts) \<and> (rest \<noteq> [] \<longrightarrow> man_inv s ln' ?us)
     \<and> (rest = [] \<longrightarrow> zero_tag\<lparr> protocol := PHIDGET_RFID_PROTOCOL_EM4100, tagString := hex_bytes ds, tagData := ds @ drop 5 (tagData zero_tag) \<rparr> \<in> set ts)"
    proof (rule man_search [OF s _ un known(2) _ _ _ _ _ _ _ us _ bits frame, where base = base and a = s and b = "2 * s"])
      show "length (dataBuffer (fold add_pulse p ln)) = 1024" using l by simp
      show "rates_ok s (shortClocks (fold add_pulse p ln), longClocks (fold add_pulse p ln))" using i l by (simp add: rates_ok_def)
      show "fold rate_step ?vs (shortClocks (fold add_pulse p ln), longClocks (fold add_pulse p ln)) = (s, 2 * s)"
        using i l s(1) rates_known_stay [of "(s, 2 * s)" ?vs] by simp
      show "?us \<noteq> []" using p by simp
      have "man_part ((fold add_pulse p ln)\<lparr> shortClocks := s, longClocks := 2 * s \<rparr>) = man_part (fold man_pulse us base)"
        using i(7) l by (simp add: man_part_def)
      from fold_man_pulse_cong [OF this, of ?vs] i(6)
      show "man_part (fold man_pulse ?vs ((fold add_pulse p ln)\<lparr> shortClocks := s, longClocks := 2 * s \<rparr>)) = man_part (fold man_pulse ?us base)"
        by simp
    qed (use same False i s(1) in simp_all)
    then show ?thesis unfolding take .
  qed
qed

lemma stream_rest:
  assumes s: "0 < s" "2 * s < 256" and bits: "bits = True # True # bs" "length bits = 64"
    and frame: "block_bits ws = map of_bool bits" "length ds = 5" "2 \<le> n" "encodeEM4100 (Some (hex_bytes ds)) n = (r, ws)"
  shows "man_inv s ln us \<Longrightarrow> us @ concat (map (map pulse_of) ps) = manchester s False bits \<Longrightarrow> concat ps \<noteq> [] \<Longrightarrow>
    zero_tag\<lparr> protocol := PHIDGET_RFID_PROTOCOL_EM4100, tagString := hex_bytes ds, tagData := ds @ drop 5 (tagData zero_tag) \<rparr>
      \<in> set (snd (take_packets ps ln))"
proof (induction ps arbitrary: ln us)
  case (Cons p ps)
  show ?case
  proof (cases "p = []")
    case True
    with Cons show ?thesis by (simp add: take_pulses_def split: prod.splits)
  next
    case False
    obtain ln' ts where step: "take_pulses p ln = (ln', ts)"
      "concat (map (map pulse_of) ps) \<noteq> [] \<Longrightarrow> man_inv s ln' (us @ map pulse_of p)"
      "concat (map (map pulse_of) ps) = [] \<Longrightarrow>
        zero_tag\<lparr> protocol := PHIDGET_RFID_PROTOCOL_EM4100, tagString := hex_bytes ds, tagData := ds @ drop 5 (tagData zero_tag) \<rparr> \<in> set ts"
      using man_inv_step [OF s Cons.prems(1) _ False bits frame, of "concat (map (map pulse_of) ps)"] Cons.prems(2) by auto
    show ?thesis
    proof (cases "concat ps = []")
      case True
      with step show ?thesis by (auto split: prod.splits)
    next
      case False
      then have "concat (map (map pulse_of) ps) \<noteq> []" by (simp flip: map_concat)
      with Cons.IH [OF step(2), OF this] Cons.prems(2) False step(1) show ?thesis by (auto split: prod.splits)
    qed
  qed
qed simp

lemma em4100_frame:
  assumes "length ds = 5" and "2 \<le> n" and "encodeEM4100 (Some (hex_bytes ds)) n = (r, ws)"
  shows "\<exists>bs. block_bits ws = map of_bool (True # True # bs) \<and> length bs = 62"
proof -
  let ?e = "em4100_word (word_of_nat (bytes_value ds))"
  have ws: "ws = [high_block ?e, low_block ?e]"
    using assms by (simp add: encodeEM4100_def strtoll16_hex_bytes em4100_word_def Let_def)
  have "block_bits ws = long_bits ?e" using block_bits_long [of ?e "[]"] ws by (simp add: block_bits_def)
  also have "\<dots> = map of_bool (map (\<lambda>i. bit ?e (63 - i)) [0..<64])" by (simp add: long_bits_def del: upt_rec_numeral)
  also have "map (\<lambda>i. bit ?e (63 - i)) [0..<64] = True # True # map (\<lambda>i. bit ?e (63 - i)) [2..<64]"
  proof -
    have "[0..<64] = 0 # 1 # [2..<64::nat]" by (simp add: upt_conv_Cons numeral_2_eq_2 del: upt_rec_numeral)
    moreover have "bit ?e 63" "bit ?e 62" using em4100_head by auto
    ultimately show ?thesis by (simp del: upt_rec_numeral)
  qed
  finally show ?thesis by (intro exI [of _ "map (\<lambda>i. bit ?e (63 - i)) [2..<64]"]) (simp del: upt_rec_numeral)
qed

lemma stream_start:
  assumes "dataReadPtr ln = dataWritePtr ln" and "length (dataBuffer ln) = 1024" and "length (manBuffer ln) = 1024"
    and s: "0 < s" "2 * s < 256" and us: "map pulse_of p @ rest = manchester s False (True # True # bs)" and b: "pulse_of b = PUNK_INT"
    and len: "length (True # True # bs) = 64"
    and frame: "block_bits ws = map of_bool (True # True # bs)" "length ds = 5" "2 \<le> n" "encodeEM4100 (Some (hex_bytes ds)) n = (r, ws)"
  shows "\<exists>ln' ts. take_pulses (b # p) ln = (ln', ts) \<and> (rest \<noteq> [] \<longrightarrow> man_inv s ln' (map pulse_of p))
      \<and> (rest = [] \<longrightarrow> zero_tag\<lparr> protocol := PHIDGET_RFID_PROTOCOL_EM4100, tagString := hex_bytes ds, tagData := ds @ drop 5 (tagData zero_tag) \<rparr> \<in> set ts)"
proof -
  have room: "length ([] :: int list) + length (b # p) < 1024"
    using length_manchester [of s False "True # True # bs"] len arg_cong [OF us, of length] by simp
  have "unread ln []" using assms(1) by (simp add: unread_def)
  from fold_add_pulse [OF this room assms(2)] obtain buf w where
    l1: "length buf = 1024" "fold add_pulse (b # p) ln = ln\<lparr> dataBuffer := buf, dataWritePtr := w \<rparr>"
    and un1: "unread (fold add_pulse (b # p) ln) (PUNK_INT # map pulse_of p)" using b by auto
  define l where "l = resetValuesFromSpace ((fold add_pulse (b # p) ln)\<lparr> dataReadPtr := dataReadPtr (fold add_pulse (b # p) ln) + 1 \<rparr>)"
  have step: "take_pulses (b # p) ln = analyze_data l" and un: "unread l (map pulse_of p)"
    using analyze_gap [OF un1] by (simp_all add: l_def take_pulses_def)
  have l: "shortClocks l = 0" "longClocks l = 0" "length (dataBuffer l) = 1024" "man_reset l"
    using l1 assms(3) by (simp_all add: l_def resetValuesFromSpace_def man_reset_def)
  obtain x y where xy: "fold rate_step (map pulse_of p) (0, 0) = (x, y)" by force
  show ?thesis unfolding step
  proof (rule man_search [OF s l(3) un _ _ _ _ _ _ _ _ us _ refl len frame, where base = "l\<lparr> shortClocks := s, longClocks := 2 * s \<rparr>" and a = x and b = y])
    show "list_all (known_pulse s) (map pulse_of p)"
      using known_pulses [OF s, of False "True # True # bs"] unfolding us [symmetric] by simp
    show "map pulse_of p \<noteq> []" if "y \<noteq> 0" using xy that by (cases p) auto
  qed (use xy l in \<open>auto simp: rates_ok_def man_reset_def\<close>)
qed

text \<open>
  C36: after a gap the reader is sent the pulses of an EM4100 tag, Manchester coded with half a bit of \<open>s\<close> clocks, in packets
  that may cut the pulses anywhere. Whatever the decoders held before, the tag is reported with the text it was
  programmed with.\<close>

theorem em4100_stream:
  assumes "dataReadPtr ln = dataWritePtr ln" and "length (dataBuffer ln) = 1024" and "length (manBuffer ln) = 1024"
    and "0 < s" and "2 * s < 256" and "length ds = 5" and "2 \<le> n" and "encodeEM4100 (Some (hex_bytes ds)) n = (r, ws)"
    and "concat (map (map pulse_of) ps) = PUNK_INT # manchester s False (map (\<lambda>b. b = 1) (block_bits ws))"
  shows "zero_tag\<lparr> protocol := PHIDGET_RFID_PROTOCOL_EM4100, tagString := hex_bytes ds, tagData := ds @ drop 5 (tagData zero_tag) \<rparr> \<in> set (snd (take_packets ps ln))"
  using assms(9)
proof (induction ps)
  case (Cons p ps)
  obtain bs where bs: "block_bits ws = map of_bool (True # True # bs)" "length bs = 62"
    using em4100_frame [OF assms(6-8)] by blast
  then have bits: "map (\<lambda>b. b = 1) (block_bits ws) = True # True # bs" "length (True # True # bs) = 64" by (simp_all add: o_def)
  let ?rest = "concat (map (map pulse_of) ps)"
  show ?case
  proof (cases p)
    case Nil
    with Cons show ?thesis by (simp add: take_pulses_def split: prod.splits)
  next
    case (Cons b p')
    have us: "pulse_of b = PUNK_INT" "map pulse_of p' @ ?rest = manchester s False (True # True # bs)"
      using Cons.prems bits Cons by simp_all
    obtain ln' ts where found: "take_pulses p ln = (ln', ts)" "?rest \<noteq> [] \<Longrightarrow> man_inv s ln' (map pulse_of p')"
      "?rest = [] \<Longrightarrow> zero_tag\<lparr> protocol := PHIDGET_RFID_PROTOCOL_EM4100, tagString := hex_bytes ds, tagData := ds @ drop 5 (tagData zero_tag) \<rparr> \<in> set ts"
      unfolding Cons using stream_start [OF assms(1-5) us(2,1) bits(2) bs(1) assms(6-8)] by blast
    show ?thesis
    proof (cases "?rest = []")
      case True
      with found show ?thesis by (auto split: prod.splits)
    next
      case False
      then have "concat ps \<noteq> []" by (simp flip: map_concat)
      with stream_rest [OF assms(4,5) refl bits(2) bs(1) assms(6-8) found(2) [OF False] us(2)] found(1)
      show ?thesis by (auto split: prod.splits)
    qed
  qed
qed simp

text \<open>The bytes with which the device sends pulses of 32 and 64 clocks.\<close>

definition pulse_byte :: "int \<Rightarrow> 8 word" where
  "pulse_byte v = word_of_int ((v mod 256) div 2 + (if v \<ge> 256 then 128 else 0))"

lemma pulse_byte: "pulse_of (pulse_byte (pulse 32 h)) = pulse 32 h" "pulse_of (pulse_byte (pulse 64 h)) = pulse 64 h"
  by (cases h; simp add: pulse_byte_def pulse_def pulse_of_def Let_def)+

lemma pulse_bytes: "map (pulse_of o pulse_byte) (manchester 32 prev bs) = manchester 32 prev bs"
  by (induction "32 :: int" prev bs rule: manchester.induct) (auto simp: pulse_byte)

lemma gap_byte: "pulse_of 0x7f = PUNK_INT"
  by (simp add: pulse_of_def Let_def)

definition empty_line :: line where
  "empty_line =
     \<lparr> dataBuffer = replicate 1024 0, dataReadPtr = 0, dataWritePtr = 0, shortClocks = 0, longClocks = 0,
       manBuffer = replicate 1024 0, manReadPtr = 0, manWritePtr = 0, manLockedIn = False, manShortChange = False,
       biphaseBuffer = replicate 1024 0, biphaseReadPtr = 0, biphaseWritePtr = 0, biphaseLockedIn = False,
       biphaseShortChange = False \<rparr>"

lemma empty_line_sizes:
  "dataReadPtr empty_line = dataWritePtr empty_line" "length (dataBuffer empty_line) = 1024"
  "length (manBuffer empty_line) = 1024" "length (biphaseBuffer empty_line) = 1024"
  unfolding empty_line_def line.simps length_replicate by (rule refl)+

theorem em4100_stream_witness:
  "\<exists>ps t. length ps = 2 \<and> t \<in> set (snd (take_packets ps empty_line)) \<and> tagString t = ''90fd32987b''"
proof -
  obtain r ws where e: "encodeEM4100 (Some (hex_bytes [0x90, 0xfd, 0x32, 0x98, 0x7b])) 7 = (r, ws)" by force
  let ?bytes = "0x7f # map pulse_byte (manchester 32 False (map (\<lambda>b. b = 1) (block_bits ws)))"
  let ?ps = "[take 40 ?bytes, drop 40 ?bytes]"
  have "concat (map (map pulse_of) ?ps) = map pulse_of ?bytes" by (simp flip: map_append del: take_Cons_numeral drop_Cons_numeral)
  also have "\<dots> = PUNK_INT # manchester 32 False (map (\<lambda>b. b = 1) (block_bits ws))"
    using pulse_bytes by (simp add: gap_byte o_def)
  finally have c: "concat (map (map pulse_of) ?ps) = PUNK_INT # manchester 32 False (map (\<lambda>b. b = 1) (block_bits ws))" .
  have "zero_tag\<lparr> protocol := PHIDGET_RFID_PROTOCOL_EM4100, tagString := hex_bytes [0x90, 0xfd, 0x32, 0x98, 0x7b],
        tagData := [0x90, 0xfd, 0x32, 0x98, 0x7b] @ drop 5 (tagData zero_tag) \<rparr> \<in> set (snd (take_packets ?ps empty_line))"
    by (rule em4100_stream [OF empty_line_sizes(1-3) _ _ _ _ e c]) simp_all
  then show ?thesis unfolding sample_hex by (intro exI [of _ ?ps] exI conjI) (simp, assumption, simp)
qed

end
