(* ===== verification/Rfid.thy ===== *)
theory Rfid
  imports Traffic Decimal RfidLine "HOL-Library.Signed_Division"
begin

unbundle bit_operations_syntax

text \<open>
  The RFID reader (\<open>cphidgetrfid.c\<close>) without the line code (\<open>RfidLine\<close>) and the tag protocols
  (\<open>RfidCode\<close>): packets from and to the device, the tag events and the thread that reports them,
  raw writing and the programming of T5577 tags, the exported functions.

  \<open>rf_dev\<close> is the handle the structure starts with. The two outputs are lists of the C length 2 (no reader in the
  device table has more). A boolean is 0, 1, 2 (unknown) or 3 (not initialised). Times are in
  microseconds. User callbacks are logged as events and do not call the library. The library is compiled without \<open>DEBUG\<close>, that is without
  the Hitag and raw data functions.
\<close>

section \<open>State\<close>

abbreviation (input) RFID_MAXOUTPUTS :: nat where "RFID_MAXOUTPUTS \<equiv> 2"

datatype rf_event =
    Event_OutputChange nat int
  | Event_Tag "8 word list"
  | Event_Tag2 string CPhidgetRFID_Protocol
  | Event_TagLost "8 word list"
  | Event_TagLost2 string CPhidgetRFID_Protocol

text \<open>The lengths of gaps and pulses for writing, in clocks.\<close>

record write_clocks =
  pregapClocks :: int
  spaceClocks :: int
  postgapClocks :: int
  zeroClocks :: int
  oneClocks :: int
  prepulseClocks :: int
  eofpulseClocks :: int
  listenDuringEOF :: int

text \<open>
  Where the tag thread is: at the head of its loop, before the section that looks for a pending event, calling the tag handlers (the lock is
  free then), storing the tag, looking for a lost tag, calling the handlers for that, or at its end.
\<close>

datatype timer_pc = At_Loop | At_Tag | At_Fire | At_Store | At_Lost | At_Lost_Fire | At_End

text \<open>
  \<open>rf_clock\<close> is what comes before each look of \<open>tagEvent\<close> at the state: the times of the steps that the tag thread
  makes before it, and the time then. Behind its end nothing happens and no time passes.
\<close>

record rfid =
  rf_dev :: phidget
  rf_onOutputChange :: bool
  rf_onTag :: bool
  rf_onTagLost :: bool
  rf_onTag2 :: bool
  rf_onTagLost2 :: bool
  outputEchoState :: "int list"
  antennaEchoState :: int
  ledEchoState :: int
  rf_clocksEcho :: write_clocks
  conf4097Echo :: int
  rf_outputState :: "int list"
  antennaState :: int
  ledState :: int
  rf_clocks :: write_clocks
  conf4097 :: int
  rf_fullStateEcho :: bool
  tagTimerThread :: bool
  timer_at :: timer_pc
  lastTag :: CPhidgetRFID_Tag
  lastTagValid :: int
  lastTagTime :: int
  tagPresent :: int
  pendingTag :: CPhidgetRFID_Tag
  tagEventPending :: bool
  rf_line :: line
  outputPacket :: "8 word list"
  outputPacketLen :: nat
  rf_clock :: "(int list \<times> int) list"
  rf_log :: "rf_event list"

definition rf_numOutputs :: "rfid \<Rightarrow> nat" where "rf_numOutputs d = attr (rf_dev d) ! 0"

definition rf_attached :: "rfid \<Rightarrow> bool" where
  "rf_attached d \<longleftrightarrow> flag_of (rf_dev d) PHIDGET_ATTACHED_FLAG"

definition rf_remote :: "rfid \<Rightarrow> bool" where
  "rf_remote d \<longleftrightarrow> flag_of (rf_dev d) PHIDGET_REMOTE_FLAG"

text \<open>\<open>FIRE\<close>: a handler is called when it is set and the device is attached.\<close>

definition rf_fire :: "(rfid \<Rightarrow> bool) \<Rightarrow> rf_event \<Rightarrow> rfid \<Rightarrow> rfid" where
  "rf_fire handler e d = (if handler d \<and> rf_attached d then d\<lparr> rf_log := rf_log d @ [e] \<rparr> else d)"

text \<open>The EM4100 handlers get the five bytes, the others the text.\<close>

definition fire_tag :: "CPhidgetRFID_Tag \<Rightarrow> rfid \<Rightarrow> rfid" where
  "fire_tag t d =
     rf_fire rf_onTag2 (Event_Tag2 (tagString t) (protocol t))
       (if protocol t = PHIDGET_RFID_PROTOCOL_EM4100 then rf_fire rf_onTag (Event_Tag (take 5 (tagData t))) d else d)"

definition CPhidgetRFID_clearVars :: "rfid \<Rightarrow> ecode \<times> rfid" where
  "CPhidgetRFID_clearVars d =
     (EPHIDGET_OK, d\<lparr> antennaEchoState := PUNI_BOOL, ledEchoState := PUNI_BOOL, tagPresent := PUNI_BOOL, lastTagValid := PUNI_BOOL,
                      outputEchoState := replicate RFID_MAXOUTPUTS PUNI_BOOL \<rparr>)"

section \<open>Tag events\<close>

text \<open>
  A look at the state for a tag just read; \<open>False\<close> when the event of the tag before must be waited
  for. A tag that is present does not count as new, nor does one of another protocol than the last.
\<close>

definition new_tag :: "CPhidgetRFID_Tag \<Rightarrow> rfid \<Rightarrow> bool" where
  "new_tag t d \<longleftrightarrow>
     tagPresent d \<noteq> PTRUE
     \<or> lastTagValid d \<noteq> 0 \<and> strcmp (tagString (lastTag d)) (tagString t) \<noteq> 0 \<and> protocol (lastTag d) = protocol t"

definition tag_look :: "CPhidgetRFID_Tag \<Rightarrow> int \<Rightarrow> rfid \<Rightarrow> bool \<times> rfid" where
  "tag_look t now d =
     (let d1 = d\<lparr> lastTagTime := now \<rparr> in
      if \<not> new_tag t d1 then (True, d1\<lparr> tagPresent := PTRUE \<rparr>)
      else if tagEventPending d1 then (False, d1)
      else (True, d1\<lparr> pendingTag := t, tagEventPending := True, tagPresent := PTRUE \<rparr>))"

text \<open>A step of the tag thread at the time \<open>now\<close>; a step goes from one lock or unlock to the next.\<close>

definition tagTimer_step :: "int \<Rightarrow> rfid \<Rightarrow> rfid" where
  "tagTimer_step now d =
     (case timer_at d of
        At_Loop \<Rightarrow>
          if rf_attached d \<and> tagTimerThread d then d\<lparr> timer_at := At_Tag \<rparr>
          else d\<lparr> tagTimerThread := False, timer_at := At_End \<rparr>
      | At_Tag \<Rightarrow> d\<lparr> timer_at := (if tagEventPending d then At_Fire else At_Lost) \<rparr>
      | At_Fire \<Rightarrow> (fire_tag (pendingTag d) d)\<lparr> timer_at := At_Store \<rparr>
      | At_Store \<Rightarrow> d\<lparr> lastTag := pendingTag d, lastTagValid := PTRUE, tagEventPending := False, timer_at := At_Lost \<rparr>
      | At_Lost \<Rightarrow>
          if tagPresent d \<noteq> PFALSE \<and> now - lastTagTime d > 200000 then
            (if tagPresent d = PTRUE then d\<lparr> tagPresent := PFALSE, timer_at := At_Lost_Fire \<rparr>
             else if antennaEchoState d = PTRUE then d\<lparr> tagPresent := PFALSE, timer_at := At_Loop \<rparr>
             else d\<lparr> timer_at := At_Loop \<rparr>)
          else d\<lparr> timer_at := At_Loop \<rparr>
      | At_Lost_Fire \<Rightarrow>
          (rf_fire rf_onTagLost2 (Event_TagLost2 (tagString (lastTag d)) (protocol (lastTag d)))
             (if protocol (pendingTag d) = PHIDGET_RFID_PROTOCOL_EM4100
              then rf_fire rf_onTagLost (Event_TagLost (take 5 (tagData (lastTag d)))) d else d))\<lparr> timer_at := At_Loop \<rparr>
      | At_End \<Rightarrow> d)"

text \<open>The whole of \<open>tagEvent\<close>: looking again until the event before is done.\<close>

fun tagEvent_again :: "CPhidgetRFID_Tag \<Rightarrow> (int list \<times> int) list \<Rightarrow> rfid \<Rightarrow> rfid cres" where
  "tagEvent_again t [] d =
     (let (fin, d1) = tag_look t (lastTagTime d) d in
      if fin then Inr (d1\<lparr> rf_clock := [] \<rparr>) else Inl Waits_Forever)"
| "tagEvent_again t ((steps, now) # rest) d =
     (let (fin, d1) = tag_look t now (fold tagTimer_step steps d) in
      if fin then Inr (d1\<lparr> rf_clock := rest \<rparr>) else tagEvent_again t rest d1)"

definition tagEvent :: "CPhidgetRFID_Tag \<Rightarrow> rfid \<Rightarrow> rfid cres" where
  "tagEvent t d = tagEvent_again t (rf_clock d) d"

fun tagEvents :: "CPhidgetRFID_Tag list \<Rightarrow> rfid \<Rightarrow> rfid cres" where
  "tagEvents [] d = Inr d"
| "tagEvents (t # ts) d = cbind (tagEvent t d) (tagEvents ts)"

definition tagEvent_fromEM4100Data :: "8 word list \<Rightarrow> rfid \<Rightarrow> rfid cres" where
  "tagEvent_fromEM4100Data data d =
     tagEvent (zero_tag\<lparr> tagString := hex_bytes data, protocol := PHIDGET_RFID_PROTOCOL_EM4100,
                         tagData := data @ drop 5 (tagData zero_tag) \<rparr>) d"

text \<open>The tag thread runs on to its end when it is to stop; six steps are always enough.\<close>

definition join_tagTimer :: "int \<Rightarrow> rfid \<Rightarrow> rfid" where
  "join_tagTimer now d =
     (if tagTimerThread d then fold tagTimer_step (replicate 7 now) (d\<lparr> tagTimerThread := False \<rparr>) else d)"

section \<open>Packets from the device\<close>

text \<open>Bits 0 and 1 are the outputs, then follow the LED, the antenna and listening.\<close>

definition flag_int :: "8 word \<Rightarrow> nat \<Rightarrow> int" where
  "flag_int b i = (if bit b i then PTRUE else PFALSE)"

definition take_state :: "8 word \<Rightarrow> rfid \<Rightarrow> rfid" where
  "take_state b d =
     (let n = rf_numOutputs d; lastOutputs = outputEchoState d;
          d1 = d\<lparr> outputEchoState := map (flag_int b) [0..<n] @ drop n (outputEchoState d),
                  ledEchoState := flag_int b 2, antennaEchoState := flag_int b 3 \<rparr>
      in fold (\<lambda>i d. if lastOutputs ! i \<noteq> outputEchoState d ! i
                     then rf_fire rf_onOutputChange (Event_OutputChange i (outputEchoState d ! i)) d else d) [0..<n] d1)"

text \<open>Anything but zeros is a tag.\<close>

definition tag_packet :: "8 word list \<Rightarrow> rfid \<Rightarrow> rfid cres" where
  "tag_packet buffer d =
     (if length buffer < 6 then Inl Out_Of_Bounds
      else let data = take 5 (drop 1 buffer) in
        if data \<noteq> replicate 5 0 then tagEvent_fromEM4100Data data d else Inr d)"

definition take_echo :: "8 word list \<Rightarrow> rfid \<Rightarrow> rfid" where
  "take_echo buffer d =
     (let v = (\<lambda>i. uint (buffer ! i)) in
      d\<lparr> rf_clocksEcho :=
           \<lparr> pregapClocks = v 2, spaceClocks = v 6, postgapClocks = v 3, zeroClocks = v 4, oneClocks = v 5,
             prepulseClocks = v 7, eofpulseClocks = v 8, listenDuringEOF = flag_int (buffer ! 9) 4 \<rparr>,
         conf4097Echo := v 10 \<rparr>)"

text \<open>A packet of the read-write reader: the state if there is an echo, and measured pulses.\<close>

definition data_packet :: "8 word list \<Rightarrow> rfid \<Rightarrow> rfid cres" where
  "data_packet buffer d =
     cbind (byte_at buffer 0) (\<lambda>b0.
       let echo = bit b0 6; dataLength = unat (b0 AND 0x3F); dataOffset = (if echo then 11 else 1) in
       if length buffer < (if echo then 11 else 1) \<or> dataLength > 0 \<and> length buffer < dataOffset + dataLength
       then Inl Out_Of_Bounds
       else
         let d1 = (if echo then take_echo buffer d else d);
             (ln, ts) = take_pulses (take dataLength (drop dataOffset buffer)) (rf_line d1)
         in cbind (tagEvents ts (d1\<lparr> rf_line := ln \<rparr>)) (\<lambda>d2. Inr (if echo then take_state (buffer ! 9) d2 else d2)))"

definition CPhidgetRFID_dataInput :: "8 word list \<Rightarrow> int \<Rightarrow> rfid \<Rightarrow> (ecode \<times> rfid) cres" where
  "CPhidgetRFID_dataInput buffer len d =
     (let uid = deviceUID (rf_dev d); good = (\<lambda>d. Inr (EPHIDGET_OK, d)) in
      if len < 0 then Inr (EPHIDGET_INVALIDARG, d)
      else if uid \<in> {PHIDUID_RFID_OLD, PHIDUID_RFID} then cbind (tag_packet buffer d) good
      else if uid \<in> {PHIDUID_RFID_2OUTPUT_NO_ECHO, PHIDUID_RFID_2OUTPUT} then
        cbind (byte_at buffer 0) (\<lambda>b0.
          if b0 = 0 then cbind (tag_packet buffer d) good
          else if b0 = 1 then
            (if rf_fullStateEcho d then cbind (byte_at buffer 1) (\<lambda>b1. good (take_state b1 d)) else good d)
          else Inr (EPHIDGET_UNEXPECTED, d))
      else if uid = PHIDUID_RFID_2OUTPUT_READ_WRITE then cbind (data_packet buffer d) good
      else Inr (EPHIDGET_UNEXPECTED, d))"

section \<open>Attaching and closing\<close>

type_synonym rf_state = "rfid \<times> 8 word list \<times> usb"

definition unknown_clocks :: write_clocks where
  "unknown_clocks =
     \<lparr> pregapClocks = PUNK_INT, spaceClocks = PUNK_INT, postgapClocks = PUNK_INT, zeroClocks = PUNK_INT, oneClocks = PUNK_INT,
       prepulseClocks = PUNK_INT, eofpulseClocks = PUNK_INT, listenDuringEOF = PUNK_BOOL \<rparr>"

definition clear_line :: "line \<Rightarrow> line" where
  "clear_line ln =
     ln\<lparr> dataReadPtr := 0, dataWritePtr := 0, manReadPtr := 0, manWritePtr := 0, biphaseReadPtr := 0, biphaseWritePtr := 0,
         shortClocks := 0, longClocks := 0, manLockedIn := False, biphaseLockedIn := False, manShortChange := False,
         biphaseShortChange := False \<rparr>"

text \<open>The state echo and the antenna, by the kind of the reader; \<open>None\<close> is no reader.\<close>

definition reader_kind :: "CPhidget_DeviceUID \<Rightarrow> (bool \<times> int) option" where
  "reader_kind uid =
     (if uid \<in> {PHIDUID_RFID_OLD, PHIDUID_RFID} then Some (False, PTRUE)
      else if uid = PHIDUID_RFID_2OUTPUT_NO_ECHO then Some (False, PUNK_BOOL)
      else if uid \<in> {PHIDUID_RFID_2OUTPUT, PHIDUID_RFID_2OUTPUT_READ_WRITE} then Some (True, PUNK_BOOL)
      else None)"

definition init_reader :: "bool \<Rightarrow> int \<Rightarrow> rfid \<Rightarrow> rfid" where
  "init_reader echo antenna d =
     d\<lparr> rf_fullStateEcho := echo, antennaEchoState := antenna,
        outputEchoState := replicate (rf_numOutputs d) PUNK_BOOL @ drop (rf_numOutputs d) (outputEchoState d),
        ledEchoState := PUNK_BOOL, tagPresent := PUNK_BOOL, lastTag := zero_tag, pendingTag := zero_tag, tagEventPending := False,
        lastTagValid := PFALSE, rf_clocksEcho := unknown_clocks, conf4097Echo := PUNK_INT, rf_line := clear_line (rf_line d) \<rparr>"

definition rf_read :: "rf_state \<Rightarrow> rf_state cres" where
  "rf_read s =
     cbind (CPhidget_read rf_dev rf_dev_update (Some CPhidgetRFID_dataInput) (fst s) (fst (snd s)) (snd (snd s)))
       (\<lambda>(_, s'). Inr s')"

text \<open>At most \<open>n\<close> reads, until \<open>stop\<close>.\<close>

fun read_until :: "nat \<Rightarrow> (rfid \<Rightarrow> bool) \<Rightarrow> rf_state \<Rightarrow> rf_state cres" where
  "read_until 0 stop s = Inr s"
| "read_until (Suc n) stop s = cbind (rf_read s) (\<lambda>s'. if stop (fst s') then Inr s' else read_until n stop s')"

definition init_packets :: "rf_state \<Rightarrow> rf_state cres" where
  "init_packets s =
     cbind (if rf_fullStateEcho (fst s)
            then cbind (read_until 16 (\<lambda>d. outputEchoState d ! 0 \<noteq> PUNK_BOOL) s) rf_read else Inr s) (\<lambda>s1.
       if deviceUID (rf_dev (fst s1)) = PHIDUID_RFID_2OUTPUT_READ_WRITE \<and> dataWritePtr (rf_line (fst s1)) \<noteq> 0
       then read_until 30 (\<lambda>d. tagPresent d \<noteq> PUNK_BOOL) s1 else Inr s1)"

text \<open>A tag seen so far is the last tag already, so that it is known when the attachment is reported.\<close>

definition init_finish :: "rfid \<Rightarrow> rfid" where
  "init_finish d =
     (let d1 = (if antennaEchoState d = PTRUE \<and> tagPresent d = PUNK_BOOL then d\<lparr> tagPresent := PFALSE \<rparr> else d);
          d2 = (if tagPresent d1 = PTRUE then d1\<lparr> lastTag := pendingTag d1, lastTagValid := PTRUE \<rparr> else d1);
          n = rf_numOutputs d2
      in d2\<lparr> rf_outputState := take n (outputEchoState d2) @ drop n (rf_outputState d2), antennaState := antennaEchoState d2,
             ledState := ledEchoState d2, rf_clocks := rf_clocksEcho d2, conf4097 := conf4097Echo d2 \<rparr>)"

definition CPhidgetRFID_initAfterOpen :: "int \<Rightarrow> rf_state \<Rightarrow> (ecode \<times> rf_state) cres" where
  "CPhidgetRFID_initAfterOpen now s =
     (let (d, buf, u) = s;
          d1 = (join_tagTimer now d)\<lparr> tagTimerThread := False, outputPacketLen := 0 \<rparr>
      in case reader_kind (deviceUID (rf_dev d1)) of
           None \<Rightarrow> Inr (EPHIDGET_UNEXPECTED, d1, buf, u)
         | Some (echo, antenna) \<Rightarrow>
             let d2 = init_reader echo antenna d1 in
             cbind (if deviceUID (rf_dev d2) = PHIDUID_RFID_OLD then CUSBSendPacket (Some (rf_dev d2)) (replicate 8 0) u
                    else Inr (EPHIDGET_OK, u)) (\<lambda>(r, u1).
               if r \<noteq> EPHIDGET_OK then Inr (r, d2, buf, u1)
               else cbind (init_packets (d2, buf, u1)) (\<lambda>(d3, buf3, u3). Inr (EPHIDGET_OK, init_finish d3, buf3, u3))))"

text \<open>
  After the attachment: the outputs are reported, and for a reader on a server the tag. For others
  the tag thread is started, \<open>created\<close> telling whether that worked. (Nothing queues errors for a reader.)
\<close>

definition CPhidgetRFID_eventsAfterOpen :: "bool \<Rightarrow> rfid \<Rightarrow> ecode \<times> rfid" where
  "CPhidgetRFID_eventsAfterOpen created d =
     (let d1 = (if rf_fullStateEcho d
                then fold (\<lambda>i d. if outputEchoState d ! i \<noteq> PUNK_BOOL
                                 then rf_fire rf_onOutputChange (Event_OutputChange i (outputEchoState d ! i)) d else d)
                       [0..<rf_numOutputs d] d
                else d)
      in if \<not> rf_attached d1 then (EPHIDGET_NOTATTACHED, d1)
         else if rf_remote d1
         then (EPHIDGET_OK, if tagPresent d1 = PTRUE \<and> lastTagValid d1 = PTRUE then fire_tag (lastTag d1) d1 else d1)
         else if created then (EPHIDGET_OK, d1\<lparr> tagTimerThread := True, timer_at := At_Loop \<rparr>)
         else (EPHIDGET_UNEXPECTED, d1\<lparr> tagTimerThread := False \<rparr>))"

definition CPhidgetRFID_close :: "int \<Rightarrow> rfid \<Rightarrow> ecode \<times> rfid" where
  "CPhidgetRFID_close now d = (EPHIDGET_OK, join_tagTimer now d)"

section \<open>Packets to the device\<close>

text \<open>
  One packet is kept for the write thread. \<open>ws\<close> has the results of the coming waits, each with what
  other threads did meanwhile; a wait behind its end times out. The rest of \<open>ws\<close> is for the next packet.
\<close>

type_synonym rf_waits = "(wait_result \<times> (rfid \<Rightarrow> rfid)) list"

definition store_packet :: "8 word list \<Rightarrow> rfid \<Rightarrow> rfid cres" where
  "store_packet buf d =
     (let n = outputReportByteLength (rf_dev d) in
      if length buf < n \<or> MAX_OUT_PACKET_SIZE < n then Inl Out_Of_Bounds
      else Inr (d\<lparr> outputPacket := take n buf @ drop n (outputPacket d), outputPacketLen := n \<rparr>))"

fun CPhidgetRFID_sendpacket :: "rf_waits \<Rightarrow> 8 word list \<Rightarrow> rfid \<Rightarrow> (ecode \<times> rfid \<times> rf_waits) cres" where
  "CPhidgetRFID_sendpacket ws buf d =
     (if \<not> rf_attached d then Inr (EPHIDGET_NOTATTACHED, d, ws)
      else if outputPacketLen d = 0 then cbind (store_packet buf d) (\<lambda>d'. Inr (EPHIDGET_OK, d', ws))
      else case ws of
             [] \<Rightarrow> Inr (EPHIDGET_TIMEOUT, d, [])
           | (r, f) # ws' \<Rightarrow>
               if r = WAIT_ABANDONED then Inr (EPHIDGET_UNEXPECTED, f d, ws')
               else if r = WAIT_TIMEOUT then Inr (EPHIDGET_TIMEOUT, f d, ws')
               else CPhidgetRFID_sendpacket ws' buf (f d))"

declare CPhidgetRFID_sendpacket.simps [simp del]

text \<open>\<open>n\<close> is the room for the packet.\<close>

definition CPhidgetRFID_getPacket :: "nat \<Rightarrow> rfid \<Rightarrow> (ecode \<times> 8 word list \<times> rfid) cres" where
  "CPhidgetRFID_getPacket n d =
     (if n < outputPacketLen d then Inr (EPHIDGET_INVALIDARG, replicate n 0, d)
      else Inr (EPHIDGET_OK, take (outputPacketLen d) (outputPacket d) @ replicate (n - outputPacketLen d) 0,
                d\<lparr> outputPacketLen := 0 \<rparr>))"

abbreviation (input) RFID_T5577_StartGap :: int where "RFID_T5577_StartGap \<equiv> 30"
abbreviation (input) RFID_T5577_WriteGap :: int where "RFID_T5577_WriteGap \<equiv> 15"
abbreviation (input) RFID_T5577_EndGap :: int where "RFID_T5577_EndGap \<equiv> 15"
abbreviation (input) RFID_T5577_Zero :: int where "RFID_T5577_Zero \<equiv> 24"
abbreviation (input) RFID_T5577_One :: int where "RFID_T5577_One \<equiv> 56"
abbreviation (input) RFID_T5577_EOF :: int where "RFID_T5577_EOF \<equiv> 100"
abbreviation (input) RFID_T5577_PrePulse :: int where "RFID_T5577_PrePulse \<equiv> 160"

text \<open>What is not known yet gets a default: off, and the lengths for a T5577.\<close>

definition or_default :: "int \<Rightarrow> int \<Rightarrow> int \<Rightarrow> int" where
  "or_default unknown dflt v = (if v = unknown then dflt else v)"

definition default_states :: "rfid \<Rightarrow> rfid" where
  "default_states d =
     (let n = rf_numOutputs d in
      d\<lparr> rf_outputState := map (or_default PUNK_BOOL PFALSE) (take n (rf_outputState d)) @ drop n (rf_outputState d),
         antennaState := or_default PUNK_BOOL PFALSE (antennaState d),
         ledState := or_default PUNK_BOOL PFALSE (ledState d) \<rparr>)"

definition default_clocks :: "write_clocks \<Rightarrow> write_clocks" where
  "default_clocks c =
     \<lparr> pregapClocks = or_default PUNK_INT RFID_T5577_StartGap (pregapClocks c),
       spaceClocks = or_default PUNK_INT RFID_T5577_WriteGap (spaceClocks c),
       postgapClocks = or_default PUNK_INT RFID_T5577_EndGap (postgapClocks c),
       zeroClocks = or_default PUNK_INT RFID_T5577_Zero (zeroClocks c),
       oneClocks = or_default PUNK_INT RFID_T5577_One (oneClocks c),
       prepulseClocks = or_default PUNK_INT RFID_T5577_PrePulse (prepulseClocks c),
       eofpulseClocks = or_default PUNK_INT RFID_T5577_EOF (eofpulseClocks c),
       listenDuringEOF = or_default PUNK_BOOL PFALSE (listenDuringEOF c) \<rparr>"

definition state_byte :: "rfid \<Rightarrow> 8 word" where
  "state_byte d =
     fold (\<lambda>i b. if rf_outputState d ! i \<noteq> 0 then b OR push_bit i 1 else b) [0..<rf_numOutputs d] 0
       OR (if ledState d = PTRUE then 0x04 else 0) OR (if antennaState d = PTRUE then 0x08 else 0)"

definition clock_bytes :: "write_clocks \<Rightarrow> 8 word list" where
  "clock_bytes c =
     (let v = (\<lambda>f. word_of_int (f c - 1)); x = (\<lambda>k f. push_bit k (v f) :: 32 word);
          b = (\<lambda>w :: 32 word. ucast w :: 8 word)
      in [b (x 0 pregapClocks AND 0x3F) OR b (x 2 postgapClocks AND 0xC0),
          b (x 0 postgapClocks AND 0x0F) OR b (x 2 spaceClocks AND 0xF0),
          b (x 0 spaceClocks AND 0x03) OR b (x 1 zeroClocks AND 0xFC),
          b (x 0 zeroClocks AND 0x01) OR b (x 1 oneClocks AND 0xFE),
          word_of_int (prepulseClocks c), word_of_int (eofpulseClocks c)])"

text \<open>\<open>n\<close> is the size of the buffer, which is all zero before; \<open>None\<close> is \<open>EPHIDGET_UNEXPECTED\<close>.\<close>

definition fill_buffer :: "nat \<Rightarrow> 8 word list \<Rightarrow> 8 word list cres" where
  "fill_buffer n bs = (if length bs \<le> n then Inr (bs @ replicate (n - length bs) 0) else Inl Out_Of_Bounds)"

definition CPhidgetRFID_makePacket :: "nat \<Rightarrow> rfid \<Rightarrow> (8 word list option \<times> rfid) cres" where
  "CPhidgetRFID_makePacket n d =
     (let uid = deviceUID (rf_dev d); d1 = default_states d in
      if uid \<in> {PHIDUID_RFID_2OUTPUT_NO_ECHO, PHIDUID_RFID_2OUTPUT}
      then cbind (fill_buffer n [state_byte d1]) (\<lambda>b. Inr (Some b, d1))
      else if uid = PHIDUID_RFID_2OUTPUT_READ_WRITE then
        let d2 = d1\<lparr> rf_clocks := default_clocks (rf_clocks d1), conf4097 := (if antennaState d1 = PTRUE then 0x52 else 0) \<rparr> in
        cbind (fill_buffer n ((state_byte d2 OR 0x40) # clock_bytes (rf_clocks d2) @ [word_of_int (conf4097 d2)])) (\<lambda>b. Inr (Some b, d2))
      else Inr (None, d))"

text \<open>\<open>SENDPACKET\<close>: the value is stored, whatever becomes of the packet. Memory for it is taken to be there.\<close>

definition make_and_send :: "rf_waits \<Rightarrow> rfid \<Rightarrow> (ecode \<times> rfid \<times> rf_waits) cres" where
  "make_and_send ws d =
     cbind (CPhidgetRFID_makePacket (outputReportByteLength (rf_dev d)) d) (\<lambda>(b, d1).
       case b of None \<Rightarrow> Inr (EPHIDGET_UNEXPECTED, d1, ws) | Some buf \<Rightarrow> CPhidgetRFID_sendpacket ws buf d1)"

section \<open>Writing to tags\<close>

text \<open>
  The data go out in packets of up to seven bytes, with the number of bits in the first one. The buffer
  has ten bytes and is not cleared: bytes behind the data are left over (from the stack, at first).
\<close>

fun raw_loop :: "rf_waits \<Rightarrow> 8 word list \<Rightarrow> nat \<Rightarrow> int \<Rightarrow> int \<Rightarrow> 8 word list \<Rightarrow> rfid \<Rightarrow> (ecode \<times> rfid \<times> rf_waits) cres" where
  "raw_loop ws buf j bits bitlength [] d = Inr (EPHIDGET_OK, d, ws)"
| "raw_loop ws buf j bits bitlength (b # bs) d =
     (let buf1 = buf[j := b];
          (bits1, left) = (if bitlength < 8 then (bits + bitlength, 0) else (bits + 8, bitlength - 8))
      in if j = 7 \<or> bs = [] then
           let buf2 = buf1[0 := word_of_int bits1] in
           cbind (CPhidgetRFID_sendpacket ws buf2 d) (\<lambda>(r, d1, ws1).
             if r \<noteq> EPHIDGET_OK then Inr (r, d1, ws1) else raw_loop ws1 buf2 1 0 left bs d1)
         else raw_loop ws buf1 (j + 1) bits1 left bs d)"

definition sendRAWData :: "8 word list \<Rightarrow> rf_waits \<Rightarrow> 8 word list \<Rightarrow> int \<Rightarrow> rfid \<Rightarrow> (ecode \<times> rfid \<times> rf_waits) cres" where
  "sendRAWData stack ws data bitlength d =
     (let len = bitlength sdiv 8 + (if bitlength smod 8 \<noteq> 0 then 1 else 0) in
      if len > 0xff then Inr (EPHIDGET_INVALIDARG, d, ws)
      else if len > int (length data) then Inl Out_Of_Bounds
      else raw_loop ws stack 1 0 bitlength (take (nat len) data) d)"

text \<open>
  The checks of the exported functions; \<open>None\<close> is NULL for the handle, \<open>out\<close> whether the other pointers are given.
\<close>

definition rf_checks :: "rfid \<Rightarrow> ecode" where
  "rf_checks d =
     (if deviceID (rf_dev d) \<noteq> PHIDCLASS_RFID then EPHIDGET_WRONGDEVICE
      else if \<not> rf_attached d then EPHIDGET_NOTATTACHED else EPHIDGET_OK)"

definition outside :: "int \<Rightarrow> int \<Rightarrow> int \<Rightarrow> bool" where
  "outside lo hi v \<longleftrightarrow> v < lo \<or> v > hi"

definition bad_clocks :: "write_clocks \<Rightarrow> bool" where
  "bad_clocks c \<longleftrightarrow>
     outside 2 64 (pregapClocks c) \<or> outside 2 64 (spaceClocks c) \<or> outside 2 64 (postgapClocks c)
     \<or> outside 4 128 (zeroClocks c) \<or> outside 4 128 (oneClocks c)
     \<or> outside 0 255 (prepulseClocks c) \<or> outside 0 255 (eofpulseClocks c) \<or> outside PFALSE PTRUE (listenDuringEOF c)"

text \<open>Only the result for the packet with the lengths is returned; that of the data is dropped.\<close>

definition CPhidgetRFID_writeRaw :: "8 word list \<Rightarrow> rf_waits \<Rightarrow> 8 word list \<Rightarrow> int \<Rightarrow> write_clocks \<Rightarrow> rfid
    \<Rightarrow> (ecode \<times> rfid \<times> rf_waits) cres" where
  "CPhidgetRFID_writeRaw stack ws data bitlength c d =
     (if rf_checks d \<noteq> EPHIDGET_OK then Inr (rf_checks d, d, ws)
      else if deviceUID (rf_dev d) \<noteq> PHIDUID_RFID_2OUTPUT_READ_WRITE then Inr (EPHIDGET_UNSUPPORTED, d, ws)
      else if bad_clocks c then Inr (EPHIDGET_INVALIDARG, d, ws)
      else if rf_remote d then Inr (EPHIDGET_UNSUPPORTED, d, ws)
      else cbind (make_and_send ws (d\<lparr> rf_clocks := c \<rparr>)) (\<lambda>(ret, d1, ws1).
        if ret \<noteq> EPHIDGET_OK then Inr (ret, d1, ws1)
        else cbind (sendRAWData stack ws1 data bitlength d1) (\<lambda>(_, d2, ws2). Inr (EPHIDGET_OK, d2, ws2))))"

subsection \<open>T5577 tags\<close>

definition T5577_clocks :: write_clocks where
  "T5577_clocks =
     \<lparr> pregapClocks = RFID_T5577_StartGap, spaceClocks = RFID_T5577_WriteGap, postgapClocks = RFID_T5577_EndGap,
       zeroClocks = RFID_T5577_Zero, oneClocks = RFID_T5577_One, prepulseClocks = RFID_T5577_PrePulse,
       eofpulseClocks = RFID_T5577_EOF, listenDuringEOF = PFALSE \<rparr>"

text \<open>A write command: opcode with the page, lock bit, 32 bits of data and three bits for the block; 38 bits.\<close>

definition T5577_command :: "nat \<Rightarrow> nat \<Rightarrow> 32 word \<Rightarrow> bool \<Rightarrow> 8 word list" where
  "T5577_command page block data lock =
     [push_bit 6 (0x02 OR (of_nat page AND 0x01)) OR push_bit 5 (if lock then 1 else 0) OR (ucast (drop_bit 27 data) AND 0x1F),
      ucast (drop_bit 19 data), ucast (drop_bit 11 data), ucast (drop_bit 3 data),
      ucast (push_bit 5 data AND 0xE0) OR push_bit 2 (of_nat block AND 0x07)]"

definition T5577_WriteBlock :: "8 word list \<Rightarrow> rf_waits \<Rightarrow> nat \<Rightarrow> nat \<Rightarrow> 32 word \<Rightarrow> bool \<Rightarrow> rfid \<Rightarrow> (ecode \<times> rfid \<times> rf_waits) cres" where
  "T5577_WriteBlock stack ws page block data lock d =
     CPhidgetRFID_writeRaw stack ws (T5577_command page block data lock) 38 T5577_clocks d"

definition T5577_Reset :: "8 word list \<Rightarrow> rf_waits \<Rightarrow> rfid \<Rightarrow> (ecode \<times> rfid \<times> rf_waits) cres" where
  "T5577_Reset stack ws d = CPhidgetRFID_writeRaw stack ws [0] 2 T5577_clocks d"

fun write_blocks :: "8 word list \<Rightarrow> rf_waits \<Rightarrow> (nat \<times> 32 word) list \<Rightarrow> bool \<Rightarrow> rfid \<Rightarrow> (ecode \<times> rfid \<times> rf_waits) cres" where
  "write_blocks stack ws [] lock d = Inr (EPHIDGET_OK, d, ws)"
| "write_blocks stack ws ((block, data) # bs) lock d =
     cbind (T5577_WriteBlock stack ws 0 block data lock d) (\<lambda>(r, d1, ws1).
       if r \<noteq> EPHIDGET_OK then Inr (r, d1, ws1) else write_blocks stack ws1 bs lock d1)"

text \<open>The blocks for a tag: the data in the blocks from 1 on, then the configuration.\<close>

definition T5577_blocks :: "CPhidgetRFID_Protocol \<Rightarrow> string \<Rightarrow> ecode \<times> (nat \<times> 32 word) list" where
  "T5577_blocks proto tag =
     (let blocks = (\<lambda>(r, ws) config. (r, zip [1..<length ws + 1] ws @ [(0, config)])) in
      case proto of
        PHIDGET_RFID_PROTOCOL_EM4100 \<Rightarrow> blocks (encodeEM4100 (Some tag) 7) 0x00148040
      | PHIDGET_RFID_PROTOCOL_ISO11785_FDX_B \<Rightarrow> blocks (encodeISO11785_FDX_B (Some tag) 7) 0x603F8080
      | PHIDGET_RFID_PROTOCOL_PHIDGETS \<Rightarrow> blocks (encodePHIDGETS_TAG (Some tag) 7) 0x603F80E0
      | PHIDGET_RFID_PROTOCOL_NONE \<Rightarrow> (EPHIDGET_INVALIDARG, []))"

definition T5577_WriteTag :: "8 word list \<Rightarrow> rf_waits \<Rightarrow> CPhidgetRFID_Protocol \<Rightarrow> string \<Rightarrow> bool \<Rightarrow> rfid
    \<Rightarrow> (ecode \<times> rfid \<times> rf_waits) cres" where
  "T5577_WriteTag stack ws proto tag lock d =
     (let (r, bs) = T5577_blocks proto tag in
      if r \<noteq> EPHIDGET_OK then Inr (r, d, ws)
      else cbind (write_blocks stack ws bs lock d) (\<lambda>(r1, d1, ws1).
        if r1 \<noteq> EPHIDGET_OK then Inr (r1, d1, ws1) else T5577_Reset stack ws1 d1))"

text \<open>Every 50 ms the pending tag is looked at; \<open>others\<close> is what other threads do in between.\<close>

function waitForTag :: "(rfid \<Rightarrow> rfid) list \<Rightarrow> string \<Rightarrow> int \<Rightarrow> rfid \<Rightarrow> ecode \<times> rfid" where
  "waitForTag others tag timeout d =
     (if timeout \<le> 0 then (EPHIDGET_TIMEOUT, d)
      else if strncmp (tagString (pendingTag d)) tag 25 = 0 then (EPHIDGET_OK, d)
      else waitForTag (tl others) tag (timeout - 50) (case others of [] \<Rightarrow> d | f # _ \<Rightarrow> f d))"
  by auto
termination by (relation "measure (\<lambda>(_, _, t, _). nat t)") auto

declare waitForTag.simps [simp del]

section \<open>The exported functions\<close>

type_synonym rf_requests = "(string \<times> string) list"

definition rf_key :: "string \<Rightarrow> rfid \<Rightarrow> string" where
  "rf_key name d =
     take 1023 (''/PCK/'' @ deviceType (rf_dev d) @ ''/'' @ dec_int (serialNumber (rf_dev d)) @ ''/'' @ name)"

text \<open>The network macros: the structure is changed even when there is no connection.\<close>

definition rf_network_key :: "string \<Rightarrow> string \<Rightarrow> rfid \<Rightarrow> rf_requests \<Rightarrow> ecode \<times> rfid \<times> rf_requests" where
  "rf_network_key name val d rs =
     (if \<not> flag_of (rf_dev d) PHIDGET_SERVER_CONNECTED_FLAG then (EPHIDGET_NETWORK_NOTCONNECTED, d, rs)
      else (EPHIDGET_OK, d, rs @ [(rf_key name d, take 1023 val)]))"

definition protocol_num :: "CPhidgetRFID_Protocol \<Rightarrow> int" where
  "protocol_num p =
     (case p of PHIDGET_RFID_PROTOCOL_NONE \<Rightarrow> 0 | PHIDGET_RFID_PROTOCOL_EM4100 \<Rightarrow> 1
      | PHIDGET_RFID_PROTOCOL_ISO11785_FDX_B \<Rightarrow> 2 | PHIDGET_RFID_PROTOCOL_PHIDGETS \<Rightarrow> 3)"

text \<open>
  Over the network the request is put together in a buffer of 50 bytes (the structure keeps a pointer to
  it that is not used again). \<open>None\<close> is NULL for a pointer.
\<close>

definition CPhidgetRFID_write :: "8 word list \<Rightarrow> rf_waits \<Rightarrow> (rfid \<Rightarrow> rfid) list \<Rightarrow> rfid option \<Rightarrow> string option
    \<Rightarrow> CPhidgetRFID_Protocol \<Rightarrow> int \<Rightarrow> rf_requests \<Rightarrow> (ecode \<times> rfid option \<times> rf_requests) cres" where
  "CPhidgetRFID_write stack ws others phid str proto lock rs =
     (case (phid, str) of
        (Some d, Some tag) \<Rightarrow>
          if rf_checks d \<noteq> EPHIDGET_OK then Inr (rf_checks d, Some d, rs)
          else if deviceUID (rf_dev d) \<noteq> PHIDUID_RFID_2OUTPUT_READ_WRITE then Inr (EPHIDGET_UNSUPPORTED, Some d, rs)
          else if proto = PHIDGET_RFID_PROTOCOL_NONE \<or> outside PFALSE PTRUE lock then Inr (EPHIDGET_INVALIDARG, Some d, rs)
          else if rf_remote d then
            let val = dec_int (protocol_num proto) @ ''/'' @ dec_int lock @ ''/'' @ tag in
            if length val \<ge> 50 then Inl Out_Of_Bounds
            else let (r, d', rs') = rf_network_key ''WriteTag'' val d rs in Inr (r, Some d', rs')
          else cbind (T5577_WriteTag stack ws proto tag (lock \<noteq> 0) d) (\<lambda>(r, d1, _).
            if r \<noteq> EPHIDGET_OK then Inr (r, Some d1, rs)
            else let (r2, d2) = waitForTag others tag 500 d1 in Inr (r2, Some d2, rs))
      | _ \<Rightarrow> Inr (EPHIDGET_INVALIDARG, phid, rs))"

definition rf_get :: "rfid option \<Rightarrow> bool \<Rightarrow> (rfid \<Rightarrow> ecode \<times> 'a option) \<Rightarrow> ecode \<times> 'a option" where
  "rf_get phid out f =
     (case phid of None \<Rightarrow> (EPHIDGET_INVALIDARG, None)
      | Some d \<Rightarrow>
          if \<not> out then (EPHIDGET_INVALIDARG, None)
          else if rf_checks d \<noteq> EPHIDGET_OK then (rf_checks d, None)
          else f d)"

text \<open>An unknown value is stored all the same.\<close>

definition rf_known :: "int \<Rightarrow> ecode \<times> int option" where
  "rf_known v = (if v = PUNK_BOOL then EPHIDGET_UNKNOWNVAL else EPHIDGET_OK, Some v)"

definition CPhidgetRFID_getOutputCount :: "rfid option \<Rightarrow> bool \<Rightarrow> ecode \<times> int option" where
  "CPhidgetRFID_getOutputCount phid out = rf_get phid out (\<lambda>d. (EPHIDGET_OK, Some (int (rf_numOutputs d))))"

definition CPhidgetRFID_getNumOutputs :: "rfid option \<Rightarrow> bool \<Rightarrow> ecode \<times> int option" where
  "CPhidgetRFID_getNumOutputs phid out = CPhidgetRFID_getOutputCount phid out"

definition CPhidgetRFID_getOutputState :: "rfid option \<Rightarrow> int \<Rightarrow> bool \<Rightarrow> ecode \<times> int option" where
  "CPhidgetRFID_getOutputState phid i out =
     rf_get phid out (\<lambda>d. if i \<ge> int (rf_numOutputs d) \<or> i < 0 then (EPHIDGET_OUTOFBOUNDS, None)
                          else rf_known (outputEchoState d ! nat i))"

definition CPhidgetRFID_getAntennaOn :: "rfid option \<Rightarrow> bool \<Rightarrow> ecode \<times> int option" where
  "CPhidgetRFID_getAntennaOn phid out = rf_get phid out (\<lambda>d. rf_known (antennaEchoState d))"

text \<open>Readers with outputs, an antenna that can be switched, and a LED.\<close>

definition switchable :: "rfid \<Rightarrow> bool" where
  "switchable d \<longleftrightarrow> deviceUID (rf_dev d) \<in> {PHIDUID_RFID_2OUTPUT_NO_ECHO, PHIDUID_RFID_2OUTPUT, PHIDUID_RFID_2OUTPUT_READ_WRITE}"

definition CPhidgetRFID_getLEDOn :: "rfid option \<Rightarrow> bool \<Rightarrow> ecode \<times> int option" where
  "CPhidgetRFID_getLEDOn phid out =
     rf_get phid out (\<lambda>d. if switchable d then rf_known (ledEchoState d) else (EPHIDGET_UNSUPPORTED, None))"

definition CPhidgetRFID_getTagStatus :: "rfid option \<Rightarrow> bool \<Rightarrow> ecode \<times> int option" where
  "CPhidgetRFID_getTagStatus phid out = rf_get phid out (\<lambda>d. rf_known (tagPresent d))"

definition CPhidgetRFID_getLastTag2 :: "rfid option \<Rightarrow> bool \<Rightarrow> ecode \<times> (string \<times> CPhidgetRFID_Protocol) option" where
  "CPhidgetRFID_getLastTag2 phid out =
     rf_get phid out (\<lambda>d. if lastTagValid d = PTRUE then (EPHIDGET_OK, Some (tagString (lastTag d), protocol (lastTag d)))
                          else (EPHIDGET_UNKNOWNVAL, None))"

definition CPhidgetRFID_getLastTag :: "rfid option \<Rightarrow> bool \<Rightarrow> ecode \<times> 8 word list option" where
  "CPhidgetRFID_getLastTag phid out =
     rf_get phid out (\<lambda>d.
       if lastTagValid d = 0 then (EPHIDGET_UNKNOWNVAL, None)
       else if protocol (lastTag d) = PHIDGET_RFID_PROTOCOL_EM4100 then (EPHIDGET_OK, Some (take 5 (tagData (lastTag d))))
       else (EPHIDGET_UNSUPPORTED, None))"

type_synonym rf_result = "(ecode \<times> rfid option \<times> rf_requests) cres"

definition rf_set :: "rfid option \<Rightarrow> rf_requests \<Rightarrow> (rfid \<Rightarrow> (ecode \<times> rfid \<times> rf_requests) cres) \<Rightarrow> rf_result" where
  "rf_set phid rs f =
     (case phid of None \<Rightarrow> Inr (EPHIDGET_INVALIDARG, None, rs)
      | Some d \<Rightarrow>
          if rf_checks d \<noteq> EPHIDGET_OK then Inr (rf_checks d, Some d, rs)
          else cbind (f d) (\<lambda>(r, d', rs'). Inr (r, Some d', rs')))"

text \<open>A reader here: the value \<open>put\<close> stores is sent; a reader without state echo then has it echoed by \<open>echo\<close>.\<close>

definition set_here :: "rf_waits \<Rightarrow> (rfid \<Rightarrow> rfid) \<Rightarrow> (rfid \<Rightarrow> rfid) \<Rightarrow> rf_requests \<Rightarrow> rfid \<Rightarrow> (ecode \<times> rfid \<times> rf_requests) cres" where
  "set_here ws putf echo rs d =
     cbind (make_and_send ws (putf d)) (\<lambda>(r, d1, _).
       if r \<noteq> EPHIDGET_OK then Inr (r, d1, rs)
       else Inr (EPHIDGET_OK, if rf_fullStateEcho d1 then d1 else echo d1, rs))"

definition echo_output :: "nat \<Rightarrow> int \<Rightarrow> rfid \<Rightarrow> rfid" where
  "echo_output i v d =
     (if outputEchoState d ! i = PUNK_BOOL \<or> outputEchoState d ! i \<noteq> v
      then rf_fire rf_onOutputChange (Event_OutputChange i v) (d\<lparr> outputEchoState := (outputEchoState d)[i := v] \<rparr>) else d)"

definition CPhidgetRFID_setOutputState :: "rf_waits \<Rightarrow> rfid option \<Rightarrow> int \<Rightarrow> int \<Rightarrow> rf_requests \<Rightarrow> rf_result" where
  "CPhidgetRFID_setOutputState ws phid i v rs =
     rf_set phid rs (\<lambda>d.
       if outside PFALSE PTRUE v then Inr (EPHIDGET_INVALIDARG, d, rs)
       else if i \<ge> int (rf_numOutputs d) \<or> i < 0 then Inr (EPHIDGET_OUTOFBOUNDS, d, rs)
       else
         let putf = (\<lambda>d. d\<lparr> rf_outputState := (rf_outputState d)[nat i := v] \<rparr>) in
         if rf_remote d then Inr (rf_network_key (''Output/'' @ dec_int i) (dec_int v) (putf d) rs)
         else set_here ws putf (echo_output (nat i) v) rs d)"

text \<open>The antenna and the LED.\<close>

definition set_switch :: "string \<Rightarrow> (rfid \<Rightarrow> rfid) \<Rightarrow> (rfid \<Rightarrow> rfid) \<Rightarrow> rf_waits \<Rightarrow> rfid option \<Rightarrow> int \<Rightarrow> rf_requests \<Rightarrow> rf_result" where
  "set_switch name putf echo ws phid v rs =
     rf_set phid rs (\<lambda>d.
       if \<not> switchable d then Inr (EPHIDGET_UNSUPPORTED, d, rs)
       else if outside PFALSE PTRUE v then Inr (EPHIDGET_INVALIDARG, d, rs)
       else if rf_remote d then Inr (rf_network_key name (dec_int v) (putf d) rs)
       else set_here ws putf echo rs d)"

definition CPhidgetRFID_setAntennaOn :: "rf_waits \<Rightarrow> rfid option \<Rightarrow> int \<Rightarrow> rf_requests \<Rightarrow> rf_result" where
  "CPhidgetRFID_setAntennaOn ws phid v rs =
     set_switch ''AntennaOn'' (\<lambda>d. d\<lparr> antennaState := v \<rparr>) (\<lambda>d. d\<lparr> antennaEchoState := v \<rparr>) ws phid v rs"

definition CPhidgetRFID_setLEDOn :: "rf_waits \<Rightarrow> rfid option \<Rightarrow> int \<Rightarrow> rf_requests \<Rightarrow> rf_result" where
  "CPhidgetRFID_setLEDOn ws phid v rs =
     set_switch ''LEDOn'' (\<lambda>d. d\<lparr> ledState := v \<rparr>) (\<lambda>d. d\<lparr> ledEchoState := v \<rparr>) ws phid v rs"

text \<open>Hitags and raw data are not supported: nothing but the checks is left.\<close>

definition CPhidgetRFID_setPollingOn :: "rfid option \<Rightarrow> ecode" where
  "CPhidgetRFID_setPollingOn phid =
     (case phid of None \<Rightarrow> EPHIDGET_INVALIDARG
      | Some d \<Rightarrow> if rf_checks d \<noteq> EPHIDGET_OK then rf_checks d else EPHIDGET_UNSUPPORTED)"

definition CPhidgetRFID_getRawData :: "rfid option \<Rightarrow> ecode" where
  "CPhidgetRFID_getRawData phid =
     (case phid of None \<Rightarrow> EPHIDGET_INVALIDARG
      | Some d \<Rightarrow> if rf_checks d \<noteq> EPHIDGET_OK then rf_checks d else EPHIDGET_UNSUPPORTED)"

text \<open>A new handle is all zero but its class.\<close>

definition zero_clocks :: write_clocks where
  "zero_clocks =
     \<lparr> pregapClocks = 0, spaceClocks = 0, postgapClocks = 0, zeroClocks = 0, oneClocks = 0, prepulseClocks = 0,
       eofpulseClocks = 0, listenDuringEOF = 0 \<rparr>"

definition zero_line :: line where
  "zero_line =
     \<lparr> dataBuffer = replicate 1024 0, dataReadPtr = 0, dataWritePtr = 0, shortClocks = 0, longClocks = 0,
       manBuffer = replicate 1024 0, manReadPtr = 0, manWritePtr = 0, manLockedIn = False, manShortChange = False,
       biphaseBuffer = replicate 1024 0, biphaseReadPtr = 0, biphaseWritePtr = 0, biphaseLockedIn = False,
       biphaseShortChange = False \<rparr>"

definition zero_rfid :: rfid where
  "zero_rfid =
     \<lparr> rf_dev = zero_phidget\<lparr> deviceID := PHIDCLASS_RFID \<rparr>,
       rf_onOutputChange = False, rf_onTag = False, rf_onTagLost = False, rf_onTag2 = False, rf_onTagLost2 = False,
       outputEchoState = replicate RFID_MAXOUTPUTS 0, antennaEchoState = 0, ledEchoState = 0, rf_clocksEcho = zero_clocks,
       conf4097Echo = 0, rf_outputState = replicate RFID_MAXOUTPUTS 0, antennaState = 0, ledState = 0, rf_clocks = zero_clocks,
       conf4097 = 0, rf_fullStateEcho = False, tagTimerThread = False, timer_at = At_End, lastTag = zero_tag, lastTagValid = 0,
       lastTagTime = 0, tagPresent = 0, pendingTag = zero_tag, tagEventPending = False, rf_line = zero_line,
       outputPacket = replicate MAX_OUT_PACKET_SIZE 0, outputPacketLen = 0, rf_clock = [], rf_log = [] \<rparr>"

definition CPhidgetRFID_create :: "bool \<Rightarrow> memory \<Rightarrow> ecode \<times> rfid option \<times> memory" where
  "CPhidgetRFID_create phidp mem =
     (if \<not> phidp then (EPHIDGET_INVALIDARG, None, mem)
      else let (got, mem') = alloc mem in
        if \<not> got then (EPHIDGET_NOMEMORY, None, mem') else (EPHIDGET_OK, Some zero_rfid, mem'))"

text \<open>The five handler setters; a handler is kept as whether there is one.\<close>

definition set_rf_handler :: "(rfid \<Rightarrow> rfid) \<Rightarrow> rfid option \<Rightarrow> ecode \<times> rfid option" where
  "set_rf_handler f phid = (case phid of None \<Rightarrow> (EPHIDGET_INVALIDARG, None) | Some d \<Rightarrow> (EPHIDGET_OK, Some (f d)))"

definition CPhidgetRFID_set_OnOutputChange_Handler :: "rfid option \<Rightarrow> bool \<Rightarrow> ecode \<times> rfid option" where
  "CPhidgetRFID_set_OnOutputChange_Handler phid fptr = set_rf_handler (\<lambda>d. d\<lparr> rf_onOutputChange := fptr \<rparr>) phid"

definition CPhidgetRFID_set_OnTag_Handler :: "rfid option \<Rightarrow> bool \<Rightarrow> ecode \<times> rfid option" where
  "CPhidgetRFID_set_OnTag_Handler phid fptr = set_rf_handler (\<lambda>d. d\<lparr> rf_onTag := fptr \<rparr>) phid"

definition CPhidgetRFID_set_OnTagLost_Handler :: "rfid option \<Rightarrow> bool \<Rightarrow> ecode \<times> rfid option" where
  "CPhidgetRFID_set_OnTagLost_Handler phid fptr = set_rf_handler (\<lambda>d. d\<lparr> rf_onTagLost := fptr \<rparr>) phid"

definition CPhidgetRFID_set_OnTag2_Handler :: "rfid option \<Rightarrow> bool \<Rightarrow> ecode \<times> rfid option" where
  "CPhidgetRFID_set_OnTag2_Handler phid fptr = set_rf_handler (\<lambda>d. d\<lparr> rf_onTag2 := fptr \<rparr>) phid"

definition CPhidgetRFID_set_OnTagLost2_Handler :: "rfid option \<Rightarrow> bool \<Rightarrow> ecode \<times> rfid option" where
  "CPhidgetRFID_set_OnTagLost2_Handler phid fptr = set_rf_handler (\<lambda>d. d\<lparr> rf_onTagLost2 := fptr \<rparr>) phid"

end
