(* ===== verification/RfidEvents.thy ===== *)
theory RfidEvents
  imports Rfid RfidCodeProps
begin

text \<open>
  The tag events of the RFID reader: whatever the order of the steps of the thread that reads tags and of the thread that reports
  them, every tag that is taken as new is reported once and in order.
\<close>

section \<open>Two threads\<close>

text \<open>A look of \<open>tagEvent\<close> for a tag at a time, or a step of the tag thread.\<close>

datatype tag_input = Seen CPhidgetRFID_Tag int | Timer int

text \<open>The list has the tags that were taken as new.\<close>

fun tag_step :: "rfid \<times> CPhidgetRFID_Tag list \<Rightarrow> tag_input \<Rightarrow> (rfid \<times> CPhidgetRFID_Tag list) \<times> unit" where
  "tag_step (d, ts) (Seen t now) =
     ((snd (tag_look t now d), if fst (tag_look t now d) \<and> new_tag t d then ts @ [t] else ts), ())"
| "tag_step (d, ts) (Timer now) = ((tagTimer_step now d, ts), ())"

definition tag_name :: "CPhidgetRFID_Tag \<Rightarrow> string \<times> CPhidgetRFID_Protocol" where
  "tag_name t = (tagString t, protocol t)"

definition tags_told :: "rf_event list \<Rightarrow> (string \<times> CPhidgetRFID_Protocol) list" where
  "tags_told es = concat (map (\<lambda>e. case e of Event_Tag2 s p \<Rightarrow> [(s, p)] | _ \<Rightarrow> []) es)"

text \<open>The tag that waits for being reported.\<close>

definition untold :: "rfid \<Rightarrow> (string \<times> CPhidgetRFID_Protocol) list" where
  "untold d = (if tagEventPending d \<and> timer_at d \<noteq> At_Store then [tag_name (pendingTag d)] else [])"

definition tag_inv :: "rfid \<times> CPhidgetRFID_Tag list \<Rightarrow> bool" where
  "tag_inv s \<longleftrightarrow>
     (let (d, ts) = s in
      rf_attached d \<and> rf_onTag2 d \<and> tagTimerThread d \<and> timer_at d \<noteq> At_End
      \<and> (timer_at d = At_Fire \<or> timer_at d = At_Store \<longrightarrow> tagEventPending d)
      \<and> tags_told (rf_log d) @ untold d = map tag_name ts)"

lemma tags_told_append [simp]: "tags_told (es @ es') = tags_told es @ tags_told es'"
  by (simp add: tags_told_def)

lemma tags_told_simps [simp]:
  "tags_told [] = []" "tags_told [Event_Tag2 s p] = [(s, p)]" "tags_told [Event_Tag b] = []"
  "tags_told [Event_TagLost b] = []" "tags_told [Event_TagLost2 s p] = []"
  by (simp_all add: tags_told_def)

lemma new_tag_time [simp]: "new_tag t (d\<lparr> lastTagTime := x \<rparr>) = new_tag t d"
  by (simp add: new_tag_def)

lemma rf_attached_simps [simp]:
  "rf_attached (d\<lparr> lastTagTime := x1 \<rparr>) = rf_attached d" "rf_attached (d\<lparr> tagPresent := x2 \<rparr>) = rf_attached d"
  "rf_attached (d\<lparr> pendingTag := t \<rparr>) = rf_attached d" "rf_attached (d\<lparr> tagEventPending := b \<rparr>) = rf_attached d"
  "rf_attached (d\<lparr> timer_at := pc \<rparr>) = rf_attached d" "rf_attached (d\<lparr> lastTag := t \<rparr>) = rf_attached d"
  "rf_attached (d\<lparr> lastTagValid := x3 \<rparr>) = rf_attached d" "rf_attached (d\<lparr> rf_log := es \<rparr>) = rf_attached d"
  by (simp_all add: rf_attached_def)

lemma rf_fire_fields [simp]:
  "rf_attached (rf_fire h e d) = rf_attached d" "rf_onTag2 (rf_fire h e d) = rf_onTag2 d"
  "tagTimerThread (rf_fire h e d) = tagTimerThread d" "timer_at (rf_fire h e d) = timer_at d"
  "tagEventPending (rf_fire h e d) = tagEventPending d" "pendingTag (rf_fire h e d) = pendingTag d"
  by (simp_all add: rf_fire_def)

lemma tags_told_fire [simp]: "tags_told [e] = [] \<Longrightarrow> tags_told (rf_log (rf_fire h e d)) = tags_told (rf_log d)"
  by (simp add: rf_fire_def)

lemma fire_tag_fields [simp]:
  "rf_attached (fire_tag t d) = rf_attached d" "rf_onTag2 (fire_tag t d) = rf_onTag2 d"
  "tagTimerThread (fire_tag t d) = tagTimerThread d" "timer_at (fire_tag t d) = timer_at d"
  "tagEventPending (fire_tag t d) = tagEventPending d" "pendingTag (fire_tag t d) = pendingTag d"
  by (simp_all add: fire_tag_def)

lemma tags_told_fire_tag:
  assumes "rf_attached d" and "rf_onTag2 d"
  shows "tags_told (rf_log (fire_tag t d)) = tags_told (rf_log d) @ [tag_name t]"
proof -
  define d1 where "d1 = (if protocol t = PHIDGET_RFID_PROTOCOL_EM4100 then rf_fire rf_onTag (Event_Tag (take 5 (tagData t))) d else d)"
  have "rf_attached d1" "rf_onTag2 d1" "tags_told (rf_log d1) = tags_told (rf_log d)"
    using assms by (simp_all add: d1_def)
  then show ?thesis by (simp add: fire_tag_def rf_fire_def tag_name_def flip: d1_def)
qed

lemma tag_look_simps:
  "\<not> new_tag t d \<Longrightarrow> tag_look t now d = (True, d\<lparr> lastTagTime := now, tagPresent := PTRUE \<rparr>)"
  "new_tag t d \<Longrightarrow> tagEventPending d \<Longrightarrow> tag_look t now d = (False, d\<lparr> lastTagTime := now \<rparr>)"
  "new_tag t d \<Longrightarrow> \<not> tagEventPending d \<Longrightarrow>
     tag_look t now d = (True, d\<lparr> lastTagTime := now, pendingTag := t, tagEventPending := True, tagPresent := PTRUE \<rparr>)"
  by (simp_all add: tag_look_def Let_def)

lemma tag_inv_cong:
  assumes "tag_inv (d, ts)" and "rf_dev d' = rf_dev d" and "rf_onTag2 d' = rf_onTag2 d" and "tagTimerThread d' = tagTimerThread d"
    and "timer_at d' = timer_at d" and "tagEventPending d' = tagEventPending d" and "pendingTag d' = pendingTag d"
    and "rf_log d' = rf_log d"
  shows "tag_inv (d', ts)"
  using assms(1) unfolding tag_inv_def untold_def rf_attached_def Let_def prod.case assms(2-8) .

lemma tag_look_inv:
  assumes "tag_inv (d, ts)"
  shows "tag_inv (fst (tag_step (d, ts) (Seen t now)))"
proof (cases "new_tag t d")
  case True
  show ?thesis
  proof (cases "tagEventPending d")
    case False
    with assms have "timer_at d \<noteq> At_Fire" "timer_at d \<noteq> At_Store" by (simp_all add: tag_inv_def)
    with True False assms show ?thesis by (simp add: tag_look_simps tag_inv_def untold_def)
  next
    case pending: True
    from assms show ?thesis by (simp add: tag_look_simps True pending) (erule tag_inv_cong; simp)
  qed
next
  case False
  from assms show ?thesis by (simp add: tag_look_simps False) (erule tag_inv_cong; simp)
qed

text \<open>The steps of the thread, one by one.\<close>

lemma timer_steps:
  "timer_at d = At_Loop \<Longrightarrow> rf_attached d \<Longrightarrow> tagTimerThread d \<Longrightarrow> tagTimer_step now d = d\<lparr> timer_at := At_Tag \<rparr>"
  "timer_at d = At_Tag \<Longrightarrow> tagTimer_step now d = d\<lparr> timer_at := if tagEventPending d then At_Fire else At_Lost \<rparr>"
  "timer_at d = At_Fire \<Longrightarrow> tagTimer_step now d = (fire_tag (pendingTag d) d)\<lparr> timer_at := At_Store \<rparr>"
  "timer_at d = At_Store \<Longrightarrow> tagTimer_step now d =
     d\<lparr> lastTag := pendingTag d, lastTagValid := PTRUE, tagEventPending := False, timer_at := At_Lost \<rparr>"
  by (simp_all add: tagTimer_step_def)

lemma lost_step:
  assumes "timer_at d = At_Lost"
  obtains x pc where "tagTimer_step now d = d\<lparr> tagPresent := x, timer_at := pc \<rparr>" "pc = At_Loop \<or> pc = At_Lost_Fire"
  | "tagTimer_step now d = d\<lparr> timer_at := At_Loop \<rparr>"
proof (cases "tagPresent d \<noteq> PFALSE \<and> now - lastTagTime d > 200000 \<and> (tagPresent d = PTRUE \<or> antennaEchoState d = PTRUE)")
  case True
  with assms have "tagTimer_step now d = d\<lparr> tagPresent := PFALSE, timer_at := if tagPresent d = PTRUE then At_Lost_Fire else At_Loop \<rparr>"
    by (elim conjE disjE) (simp_all add: tagTimer_step_def)
  then show ?thesis by (rule that(1)) simp
next
  case False
  with assms have "tagTimer_step now d = d\<lparr> timer_at := At_Loop \<rparr>" by (auto simp: tagTimer_step_def)
  then show ?thesis by (rule that(2))
qed

lemma lost_fire_step:
  assumes "timer_at d = At_Lost_Fire"
  obtains h1 e1 h2 e2 where "tagTimer_step now d = (rf_fire h2 e2 (rf_fire h1 e1 d))\<lparr> timer_at := At_Loop \<rparr>"
      "tags_told [e1] = []" "tags_told [e2] = []"
  | h e where "tagTimer_step now d = (rf_fire h e d)\<lparr> timer_at := At_Loop \<rparr>" "tags_told [e] = []"
  using assms by (cases "protocol (pendingTag d) = PHIDGET_RFID_PROTOCOL_EM4100") (auto simp: tagTimer_step_def)

lemma timer_inv:
  assumes "tag_inv (d, ts)"
  shows "tag_inv (tagTimer_step now d, ts)"
proof (cases "timer_at d")
  case At_Fire
  with assms have "tagEventPending d" "rf_attached d" "rf_onTag2 d" by (simp_all add: tag_inv_def)
  with At_Fire assms tags_told_fire_tag [of d "pendingTag d"] show ?thesis
    by (simp add: tag_inv_def timer_steps untold_def)
next
  case At_Lost
  from At_Lost show ?thesis by (rule lost_step [where now = now]) (use At_Lost assms in \<open>auto simp: tag_inv_def untold_def split: if_splits\<close>)
next
  case At_Lost_Fire
  from At_Lost_Fire show ?thesis
    by (rule lost_fire_step [where now = now]) (use At_Lost_Fire assms in \<open>simp_all add: tag_inv_def untold_def split: if_splits\<close>)
qed (use assms in \<open>simp_all add: tag_inv_def timer_steps untold_def split: if_splits\<close>)

interpretation tag_threads: machine tag_step tag_inv
proof
  fix s i
  assume "tag_inv s"
  then show "tag_inv (fst (tag_step s i))"
    using tag_look_inv timer_inv by (cases s; cases i) auto
qed

lemma timer_run: "fst (run_machine tag_step (d, ts) (map Timer nows)) = (fold tagTimer_step nows d, ts)"
  by (induction nows arbitrary: d) (simp_all add: Let_def)

text \<open>Five steps of the tag thread are enough for it to report what waits, wherever it is.\<close>

definition steps_left :: "rfid \<Rightarrow> nat" where
  "steps_left d =
     (if untold d = [] then 0
      else case timer_at d of At_Lost \<Rightarrow> 5 | At_Lost_Fire \<Rightarrow> 4 | At_Loop \<Rightarrow> 3 | At_Tag \<Rightarrow> 2 | At_Fire \<Rightarrow> 1 | _ \<Rightarrow> 0)"

lemma steps_left_le: "steps_left d \<le> 5"
  by (simp add: steps_left_def split: timer_pc.split)

lemma none_left: "steps_left d = 0 \<Longrightarrow> tag_inv (d, ts) \<Longrightarrow> untold d = []"
  by (cases "timer_at d") (auto simp: tag_inv_def steps_left_def untold_def)

lemma timer_tells_step:
  assumes "tag_inv (d, ts)"
  shows "steps_left (tagTimer_step now d) \<le> steps_left d - 1"
proof (cases "timer_at d")
  case At_Fire
  then show ?thesis by (simp add: steps_left_def untold_def timer_steps)
next
  case At_Lost
  from At_Lost show ?thesis
    by (rule lost_step [where now = now]) (use At_Lost in \<open>auto simp: steps_left_def untold_def\<close>)
next
  case At_Lost_Fire
  from At_Lost_Fire show ?thesis
    by (rule lost_fire_step [where now = now]) (use At_Lost_Fire in \<open>simp_all add: steps_left_def untold_def\<close>)
qed (use assms in \<open>simp_all add: tag_inv_def steps_left_def untold_def timer_steps\<close>)

lemma timer_tells:
  assumes "tag_inv (d, ts)" and "length nows = 5"
  shows "untold (fold tagTimer_step nows d) = []"
proof -
  have "steps_left (fold tagTimer_step nows d) \<le> steps_left d - length nows" if "tag_inv (d, ts)" for nows d
    using that
  proof (induction nows arbitrary: d)
    case (Cons now nows)
    from Cons.IH [OF timer_inv [OF Cons.prems, of now]] timer_tells_step [OF Cons.prems, of now] show ?case by simp
  qed simp
  from this [OF assms(1), of nows] steps_left_le [of d] have "steps_left (fold tagTimer_step nows d) = 0"
    using assms(2) by simp
  moreover have "tag_inv (fold tagTimer_step nows d, ts)"
    using tag_threads.run_inv [OF assms(1), of "map Timer nows"] by (simp add: timer_run)
  ultimately show ?thesis by (rule none_left)
qed

lemma tag_start:
  assumes "rf_attached d" and "rf_onTag2 d" and "tagTimerThread d" and "timer_at d = At_Loop" and "\<not> tagEventPending d"
    and "rf_log d = []"
  shows "tag_inv (d, [])"
  using assms by (simp add: tag_inv_def untold_def)

lemma run_tags_told:
  assumes "tag_inv (d, ts)" and "length nows = 5" and "fst (run_machine tag_step (d, ts) (is @ map Timer nows)) = (d', ts')"
  shows "tags_told (rf_log d') = map tag_name ts'"
proof -
  obtain d1 ts1 where m: "fst (run_machine tag_step (d, ts) is) = (d1, ts1)" by force
  have i: "tag_inv (d1, ts1)" using tag_threads.run_inv [OF assms(1), of "is"] m by simp
  have e: "d' = fold tagTimer_step nows d1" "ts' = ts1"
    using assms(3) m by (simp_all add: run_machine_append timer_run)
  have "tag_inv (d', ts')" using tag_threads.run_inv [OF i, of "map Timer nows"] by (simp add: timer_run e)
  moreover have "untold d' = []" using timer_tells [OF i assms(2)] e by simp
  ultimately show ?thesis by (simp add: tag_inv_def)
qed

text \<open>
  C31: the tag events of an attached reader with its tag thread running, in any interleaving
  of the looks of \<open>tagEvent\<close> and the steps of the thread: when the thread then makes five more steps, at whatever times, the
  \<open>Tag2\<close> handler has been called for every tag taken as new, once each and in the order in which they were seen.
\<close>

theorem tag_events_once:
  assumes "rf_attached d" and "rf_onTag2 d" and "tagTimerThread d" and "timer_at d = At_Loop" and "\<not> tagEventPending d"
    and "rf_log d = []" and "length nows = 5"
    and "fst (run_machine tag_step (d, []) (looks @ map Timer nows)) = (d', ts)"
  shows "tags_told (rf_log d') = map tag_name ts"
  by (rule run_tags_told [OF tag_start [OF assms(1-6)] assms(7,8)])

definition sample_reader :: rfid where
  "sample_reader =
     zero_rfid\<lparr> rf_dev := zero_phidget\<lparr> deviceID := PHIDCLASS_RFID, deviceUID := PHIDUID_RFID_2OUTPUT_READ_WRITE, attr := [2],
       ph_status := PHIDGET_ATTACHED_FLAG, outputReportByteLength := 8, inputReportByteLength := 64, deviceHandle := Some (''dev'', 0) \<rparr>,
       rf_onTag2 := True, tagTimerThread := True, timer_at := At_Loop \<rparr>"

definition sample_tag :: "string \<Rightarrow> CPhidgetRFID_Tag" where
  "sample_tag x = zero_tag\<lparr> protocol := PHIDGET_RFID_PROTOCOL_PHIDGETS, tagString := x \<rparr>"

lemma sample_reader_facts:
  "rf_attached sample_reader" "rf_onTag2 sample_reader" "tagTimerThread sample_reader" "timer_at sample_reader = At_Loop"
  "\<not> tagEventPending sample_reader" "rf_log sample_reader = []"
  by (simp_all add: sample_reader_def zero_rfid_def rf_attached_def CPhidget_statusFlagIsSet_def PHIDGET_ATTACHED_FLAG_def)

text \<open>The second tag is seen before the first one is reported and must wait.\<close>

theorem tag_events_once_witness:
  "\<exists>d'. fst (run_machine tag_step (sample_reader, []) ([Seen (sample_tag ''A'') 10, Seen (sample_tag ''B'') 20]
              @ map Timer [60, 70, 80, 90, 100])) = (d', [sample_tag ''A''])
        \<and> tags_told (rf_log d') = map tag_name [sample_tag ''A'']"
proof -
  let ?looks = "[Seen (sample_tag ''A'') 10, Seen (sample_tag ''B'') 20]"
  let ?r = "fst (run_machine tag_step (sample_reader, []) (?looks @ map Timer [60, 70, 80, 90, 100]))"
  have new: "new_tag (sample_tag ''A'') sample_reader" by (simp add: new_tag_def sample_reader_def zero_rfid_def)
  have "\<exists>d1. fst (run_machine tag_step (sample_reader, []) ?looks) = (d1, [sample_tag ''A''])"
    using sample_reader_facts(5) new by (simp add: Let_def tag_look_def new_tag_def sample_reader_def zero_rfid_def)
  then obtain d1 where "fst (run_machine tag_step (sample_reader, []) ?looks) = (d1, [sample_tag ''A''])" by blast
  then have e: "?r = (fold tagTimer_step [60, 70, 80, 90, 100] d1, [sample_tag ''A''])"
    by (simp only: run_machine_append timer_run)
  with tag_events_once [OF sample_reader_facts _ e] show ?thesis by (intro exI conjI) (assumption, simp)
qed

end
