(* ===== verification/RfidWriting.thy ===== *)
theory RfidWriting
  imports RfidEvents
begin

unbundle bit_operations_syntax

text \<open>
  What the RFID reader sends: the lengths of gaps and pulses, the data of a raw write cut into packets, and the
  commands for T5577 tags. Where a packet from the device is read beyond its end.
\<close>

section \<open>Raw data\<close>

definition byte_bits :: "8 word \<Rightarrow> bool list" where
  "byte_bits b = map (bit b) [7, 6, 5, 4, 3, 2, 1, 0]"

definition bits_of :: "8 word list \<Rightarrow> bool list" where
  "bits_of bs = concat (map byte_bits bs)"

text \<open>What the device takes from a packet: the number of bits is in the lower six bits of the first byte.\<close>

definition packet_bits :: "8 word list \<Rightarrow> bool list" where
  "packet_bits p = take (unat (p ! 0 AND 0x3F)) (bits_of (tl p))"

fun send_list :: "rf_waits \<Rightarrow> 8 word list list \<Rightarrow> rfid \<Rightarrow> (ecode \<times> rfid \<times> rf_waits) cres" where
  "send_list ws [] d = Inr (EPHIDGET_OK, d, ws)"
| "send_list ws (p # ps) d =
     cbind (CPhidgetRFID_sendpacket ws p d) (\<lambda>(r, d1, ws1).
       if r \<noteq> EPHIDGET_OK then Inr (r, d1, ws1) else send_list ws1 ps d1)"

lemma bits_of_simps [simp]: "bits_of [] = []" "bits_of (b # bs) = byte_bits b @ bits_of bs" "bits_of (bs @ cs) = bits_of bs @ bits_of cs"
  by (simp_all add: bits_of_def)

lemma length_byte_bits [simp]: "length (byte_bits b) = 8"
  by (simp add: byte_bits_def)

lemma length_bits_of [simp]: "length (bits_of bs) = 8 * length bs"
  by (induction bs) simp_all

lemma low_count:
  assumes "m < 64"
  shows "unat (word_of_int (int m) AND 0x3F :: 8 word) = m" and "\<not> bit (word_of_int (int m) :: 8 word) 6"
proof -
  have "(word_of_int (int m) AND 0x3F :: 8 word) = take_bit 6 (word_of_nat m)"
    by (simp add: take_bit_eq_mask mask_eq_exp_minus_1)
  then have "unat (word_of_int (int m) AND 0x3F :: 8 word) = take_bit 6 (unat (word_of_nat m :: 8 word))"
    by (simp only: unsigned_take_bit_eq)
  with assms show "unat (word_of_int (int m) AND 0x3F :: 8 word) = m"
    by (simp add: unsigned_of_nat take_bit_nat_eq_self)
  have "\<not> bit m 6" using assms by (simp add: bit_iff_odd)
  then show "\<not> bit (word_of_int (int m) :: 8 word) 6" by (simp add: bit_simps)
qed

text \<open>A packet with the bytes \<open>pre @ [b]\<close> behind the count.\<close>

lemma packet_bits_full:
  assumes "length buf = 10" and "length pre = j" and "j < 7" and "take j (tl buf) = pre" and "m \<le> 8"
  shows "packet_bits (buf[Suc j := b, 0 := word_of_int (int (8 * j + m))]) = bits_of pre @ take m (byte_bits b)"
proof -
  obtain c cs where buf: "buf = c # cs" and cs: "length cs = 9" using assms(1) by (cases buf) auto
  have "cs[j := b] = take j cs @ b # drop (Suc j) cs" using cs assms(3) by (simp add: upd_conv_take_nth_drop)
  then have t: "bits_of (cs[j := b]) = bits_of pre @ byte_bits b @ bits_of (drop (Suc j) cs)" using assms(4) buf by simp
  have "unat (word_of_int (int (8 * j + m)) AND 0x3F :: 8 word) = 8 * j + m" using assms(3,5) by (intro low_count) simp
  then show ?thesis using assms(2,5) by (simp add: packet_bits_def buf t del: of_nat_add)
qed

lemma raw_loop_packets:
  assumes "length buf = 10" and "length pre = j" and "j < 7" and "take j (tl buf) = pre" and "n \<le> 8 * length bs"
    and "bs = [] \<longrightarrow> pre = []" and "8 * (length bs - 1) < n \<or> bs = []"
  shows "\<exists>ps. (\<forall>ws d. raw_loop ws buf (Suc j) (int (8 * j)) (int n) bs d = send_list ws ps d)
           \<and> concat (map packet_bits ps) = bits_of pre @ take n (bits_of bs)
           \<and> (\<forall>p \<in> set ps. length p = 10 \<and> \<not> bit (p ! 0) 6)"
  using assms
proof (induction bs arbitrary: buf pre j n)
  case Nil
  then show ?case by (intro exI [of _ "[]"]) simp
next
  case (Cons b bs)
  define m left where "m = min n 8" and "left = n - m"
  have step: "(if int n < 8 then (int (8 * j) + int n, 0) else (int (8 * j) + 8, int n - 8)) = (int (8 * j + m), int left)"
    by (auto simp: m_def left_def of_nat_diff)
  have bs0: "bs \<noteq> [] \<Longrightarrow> m = 8 \<and> 8 * (length bs - 1) < left" "bs = [] \<Longrightarrow> left = 0 \<and> m = n"
    using Cons.prems(5,7) by (cases bs; simp add: m_def left_def)+
  have left: "left \<le> 8 * length bs" using Cons.prems(5) by (simp add: m_def left_def)
  have bits: "take n (byte_bits b @ bits_of bs) = take m (byte_bits b) @ take left (bits_of bs)"
    by (cases "n \<le> 8") (simp_all add: m_def left_def)
  show ?case
  proof (cases "Suc j = 7 \<or> bs = []")
    case True
    define p where "p = buf[Suc j := b, 0 := word_of_int (int (8 * j + m))]"
    have "\<exists>ps. (\<forall>ws d. raw_loop ws p (Suc 0) (int (8 * 0)) (int left) bs d = send_list ws ps d)
           \<and> concat (map packet_bits ps) = bits_of [] @ take left (bits_of bs) \<and> (\<forall>p \<in> set ps. length p = 10 \<and> \<not> bit (p ! 0) 6)"
      using Cons.prems(1) left bs0 by (intro Cons.IH) (auto simp: p_def)
    then obtain ps where ps: "\<And>ws d. raw_loop ws p 1 0 (int left) bs d = send_list ws ps d"
      "concat (map packet_bits ps) = take left (bits_of bs)" "\<forall>p \<in> set ps. length p = 10 \<and> \<not> bit (p ! 0) 6"
      by (auto simp: One_nat_def)
    have "raw_loop ws buf (Suc j) (int (8 * j)) (int n) (b # bs) d = send_list ws (p # ps) d" for ws d
      using True ps(1) by (simp only: raw_loop.simps step Let_def prod.case send_list.simps p_def if_True)
    moreover have "packet_bits p = bits_of pre @ take m (byte_bits b)"
      unfolding p_def using Cons.prems(1-4) by (intro packet_bits_full) (simp_all add: m_def)
    moreover have "length p = 10 \<and> \<not> bit (p ! 0) 6"
      using Cons.prems(1,3) low_count(2) [of "8 * j + m"] by (simp add: p_def m_def del: of_nat_add)
    ultimately show ?thesis using ps(2,3) bits by (intro exI [of _ "p # ps"]) simp
  next
    case False
    have "\<exists>ps. (\<forall>ws d. raw_loop ws (buf[Suc j := b]) (Suc (Suc j)) (int (8 * Suc j)) (int left) bs d = send_list ws ps d)
           \<and> concat (map packet_bits ps) = bits_of (pre @ [b]) @ take left (bits_of bs) \<and> (\<forall>p \<in> set ps. length p = 10 \<and> \<not> bit (p ! 0) 6)"
    proof (rule Cons.IH)
      obtain c cs where buf: "buf = c # cs" "length cs = 9" using Cons.prems(1) by (cases buf) auto
      then show "take (Suc j) (tl (buf[Suc j := b])) = pre @ [b]"
        using Cons.prems(3,4) by (simp add: take_Suc_conv_app_nth)
    qed (use Cons.prems False left bs0 in auto)
    then obtain ps where ps: "\<And>ws d. raw_loop ws (buf[Suc j := b]) (Suc (Suc j)) (int (8 * Suc j)) (int left) bs d = send_list ws ps d"
      "concat (map packet_bits ps) = bits_of (pre @ [b]) @ take left (bits_of bs)" "\<forall>p \<in> set ps. length p = 10 \<and> \<not> bit (p ! 0) 6"
      by blast
    have "int (8 * j + m) = int (8 * Suc j)" using bs0(1) False by simp
    then have "raw_loop ws buf (Suc j) (int (8 * j)) (int n) (b # bs) d = send_list ws ps d" for ws d
      using False ps(1) by (simp only: raw_loop.simps step Let_def prod.case) simp
    moreover have "take m (byte_bits b) = byte_bits b" using bs0(1) False by simp
    ultimately show ?thesis using ps(2,3) bits by (intro exI [of _ ps]) simp
  qed
qed

lemma sendRAWData_packets:
  assumes "length stack = 10" and "n \<le> 8 * length data" and "n \<le> 2040"
  shows "\<exists>ps. (\<forall>ws d. sendRAWData stack ws data (int n) d = send_list ws ps d)
           \<and> concat (map packet_bits ps) = take n (bits_of data) \<and> (\<forall>p \<in> set ps. length p = 10 \<and> \<not> bit (p ! 0) 6)"
proof -
  define k where "k = (n + 7) div 8"
  have k: "int n sdiv 8 + (if int n smod 8 \<noteq> 0 then 1 else 0) = int k"
  proof -
    have "(n + 7) div 8 = n div 8 + (if n mod 8 \<noteq> 0 then 1 else 0)" by presburger
    moreover have "int n sdiv 8 = int (n div 8)" "int n smod 8 = int (n mod 8)"
      by (simp_all add: signed_divide_int_def signed_modulo_int_def zdiv_int zmod_int sgn_if)
    ultimately show ?thesis by (simp add: k_def)
  qed
  have le: "k \<le> length data" "k \<le> 0xff" using assms(2,3) by (simp_all add: k_def)
  have "\<exists>ps. (\<forall>ws d. raw_loop ws stack (Suc 0) (int (8 * 0)) (int n) (take k data) d = send_list ws ps d)
           \<and> concat (map packet_bits ps) = bits_of [] @ take n (bits_of (take k data)) \<and> (\<forall>p \<in> set ps. length p = 10 \<and> \<not> bit (p ! 0) 6)"
    using le assms(1) by (intro raw_loop_packets) (auto simp: k_def)
  moreover have "take n (bits_of (take k data)) = take n (bits_of data)"
  proof -
    have "bits_of data = bits_of (take k data) @ bits_of (drop k data)" by (simp flip: bits_of_simps(3))
    then show ?thesis using le by (simp add: k_def)
  qed
  ultimately show ?thesis using le by (simp add: sendRAWData_def k)
qed

text \<open>
  C33: what \<open>sendRAWData\<close> sends for the first \<open>n\<close> bits of the data, whatever was on the stack: packets whose bits, taken
  as the device takes them, are these bits in order; none of them looks like a packet with lengths.
\<close>

theorem raw_data_packets:
  assumes "length stack = 10" and "n \<le> 8 * length data" and "n \<le> 2040"
  shows "\<exists>ps. (\<forall>ws d. sendRAWData stack ws data (int n) d = send_list ws ps d)
           \<and> concat (map packet_bits ps) = take n (bits_of data) \<and> (\<forall>p \<in> set ps. length p = 10 \<and> \<not> bit (p ! 0) 6)"
  by (rule sendRAWData_packets [OF assms])

theorem raw_data_packets_witness:
  "\<exists>ps. sendRAWData (replicate 10 0xEE) [] (replicate 9 0x5A) 70 zero_rfid = send_list [] ps zero_rfid
        \<and> concat (map packet_bits ps) = take 70 (bits_of (replicate 9 0x5A))"
  using raw_data_packets [of "replicate 10 0xEE" 70 "replicate 9 0x5A"] by auto

section \<open>The packet with the lengths\<close>

text \<open>The lengths as the device takes them from a packet; listening is not in it.\<close>

definition packet_clocks :: "8 word list \<Rightarrow> write_clocks" where
  "packet_clocks p =
     \<lparr> pregapClocks = uint (p ! 1 AND 0x3F) + 1,
       spaceClocks = uint ((p ! 3 AND 0x03) OR drop_bit 2 (p ! 2 AND 0xF0)) + 1,
       postgapClocks = uint ((p ! 2 AND 0x0F) OR drop_bit 2 (p ! 1 AND 0xC0)) + 1,
       zeroClocks = uint ((p ! 4 AND 0x01) OR drop_bit 1 (p ! 3 AND 0xFC)) + 1,
       oneClocks = uint (drop_bit 1 (p ! 4)) + 1,
       prepulseClocks = uint (p ! 5), eofpulseClocks = uint (p ! 6), listenDuringEOF = 0 \<rparr>"

text \<open>A length of at most \<open>m\<close> bits has no others.\<close>

lemma clock_bit:
  fixes v :: int
  assumes "1 \<le> v" and "v \<le> 2 ^ m" and "m \<le> n"
  shows "\<not> bit (v - 1) n"
proof -
  have "(2 :: int) ^ m \<le> 2 ^ n" using assms(3) by (simp add: power_increasing)
  then have "v - 1 < 2 ^ n" using assms(2) by linarith
  then have "(v - 1) div 2 ^ n = 0" using assms(1) by simp
  then show ?thesis by (simp add: bit_iff_odd)
qed

text \<open>How the lengths are spread over the bytes; \<open>x\<close> and \<open>y\<close> are those in the same bytes.\<close>

lemma byte_cases: "n < LENGTH(8) \<Longrightarrow> n \<in> {0, 1, 2, 3, 4, 5, 6, 7}"
  by auto

lemma bit_times_2:
  fixes w :: "32 word"
  shows "bit (w * 2) (Suc n) \<longleftrightarrow> n < 31 \<and> bit w n" "bit (w * 2) (numeral k) \<longleftrightarrow> pred_numeral k < 31 \<and> bit w (pred_numeral k)"
proof -
  show s: "bit (w * 2) (Suc n) \<longleftrightarrow> n < 31 \<and> bit w n" for n
    by (auto simp: mult.commute [of w 2] bit_double_iff)
  show "bit (w * 2) (numeral k) \<longleftrightarrow> pred_numeral k < 31 \<and> bit w (pred_numeral k)"
    using s [of "pred_numeral k"] by (simp only: numeral_eq_Suc [symmetric])
qed

lemma mask_low_bits:
  "bit (0x3F :: 'a :: len word) 0" "\<not> bit (0xC0 :: 'a word) 0" "bit (0x0F :: 'a word) 0" "\<not> bit (0xF0 :: 'a word) 0"
  "bit (0x03 :: 'a word) 0" "\<not> bit (0xFC :: 'a word) 0" "bit (0x01 :: 'a word) 0" "\<not> bit (0xFE :: 'a word) 0"
  by (simp_all add: bit_0)

lemma join_clocks:
  fixes v :: int and x y :: "32 word"
  shows "(ucast (push_bit 0 (word_of_int v) AND 0x3F :: 32 word) OR ucast (x AND 0xC0)) AND 0x3F = (word_of_int (take_bit 6 v) :: 8 word)"
    and "((ucast (push_bit 0 (word_of_int v) AND 0x0F :: 32 word) OR ucast (x AND 0xF0)) AND 0x0F)
           OR drop_bit 2 ((ucast (y AND 0x3F) OR ucast (push_bit 2 (word_of_int v) AND 0xC0 :: 32 word)) AND 0xC0)
         = (word_of_int (take_bit 6 v) :: 8 word)"
    and "((ucast (push_bit 0 (word_of_int v) AND 0x03 :: 32 word) OR ucast (x AND 0xFC)) AND 0x03)
           OR drop_bit 2 ((ucast (y AND 0x0F) OR ucast (push_bit 2 (word_of_int v) AND 0xF0 :: 32 word)) AND 0xF0)
         = (word_of_int (take_bit 6 v) :: 8 word)"
    and "((ucast (push_bit 0 (word_of_int v) AND 0x01 :: 32 word) OR ucast (x AND 0xFE)) AND 0x01)
           OR drop_bit 1 ((ucast (y AND 0x03) OR ucast (push_bit 1 (word_of_int v) AND 0xFC :: 32 word)) AND 0xFC)
         = (word_of_int (take_bit 7 v) :: 8 word)"
    and "drop_bit 1 (ucast (y AND 0x01) OR ucast (push_bit 1 (word_of_int v) AND 0xFE :: 32 word)) = (word_of_int (take_bit 7 v) :: 8 word)"
  by (rule bit_word_eqI, drule byte_cases, elim insertE emptyE; simp add: bit_simps mask_low_bits bit_times_2 numeral_2_eq_2 [symmetric])+

lemma clock_value:
  assumes "0 \<le> v" and "v < 2 ^ m" and "m \<le> 7"
  shows "uint (word_of_int (take_bit m v) :: 8 word) = v"
proof -
  have "(2 :: int) ^ m \<le> 2 ^ 7" using assms(3) by (intro power_increasing) simp_all
  then have "v < 256" using assms(2) by simp
  then show ?thesis using assms by (simp add: take_bit_int_eq_self uint_word_of_int_eq)
qed

lemma nth_seven:
  "(a0 # a1 # a2 # a3 # a4 # a5 # a6 # r) ! 1 = a1" "(a0 # a1 # a2 # a3 # a4 # a5 # a6 # r) ! 2 = a2"
  "(a0 # a1 # a2 # a3 # a4 # a5 # a6 # r) ! 3 = a3" "(a0 # a1 # a2 # a3 # a4 # a5 # a6 # r) ! 4 = a4"
  "(a0 # a1 # a2 # a3 # a4 # a5 # a6 # r) ! 5 = a5" "(a0 # a1 # a2 # a3 # a4 # a5 # a6 # r) ! 6 = a6"
  by simp_all

lemma clocks_from_bytes:
  assumes "\<not> bad_clocks c"
  shows "packet_clocks (b0 # clock_bytes c @ bs) = c\<lparr> listenDuringEOF := 0 \<rparr>"
proof -
  let ?p = "b0 # clock_bytes c @ bs"
  let ?w = "\<lambda>m v. word_of_int (take_bit m (v - 1)) :: 8 word"
  have e: "?p ! 1 AND 0x3F = ?w 6 (pregapClocks c)"
    "(?p ! 3 AND 0x03) OR drop_bit 2 (?p ! 2 AND 0xF0) = ?w 6 (spaceClocks c)"
    "(?p ! 2 AND 0x0F) OR drop_bit 2 (?p ! 1 AND 0xC0) = ?w 6 (postgapClocks c)"
    "(?p ! 4 AND 0x01) OR drop_bit 1 (?p ! 3 AND 0xFC) = ?w 7 (zeroClocks c)"
    "drop_bit 1 (?p ! 4) = ?w 7 (oneClocks c)"
    "?p ! 5 = word_of_int (prepulseClocks c)" "?p ! 6 = word_of_int (eofpulseClocks c)"
    unfolding clock_bytes_def Let_def append_Cons nth_seven join_clocks by (rule refl)+
  have r: "1 \<le> pregapClocks c" "pregapClocks c \<le> 64" "1 \<le> spaceClocks c" "spaceClocks c \<le> 64"
    "1 \<le> postgapClocks c" "postgapClocks c \<le> 64" "1 \<le> zeroClocks c" "zeroClocks c \<le> 128" "1 \<le> oneClocks c" "oneClocks c \<le> 128"
    "0 \<le> prepulseClocks c" "prepulseClocks c \<le> 255" "0 \<le> eofpulseClocks c" "eofpulseClocks c \<le> 255"
    using assms by (simp_all add: bad_clocks_def outside_def)
  have six: "uint (?w 6 v) + 1 = v" if v: "1 \<le> v" "v \<le> 64" for v
    using clock_value [of "v - 1" 6] v by simp
  have seven: "uint (?w 7 v) + 1 = v" if v: "1 \<le> v" "v \<le> 128" for v
    using clock_value [of "v - 1" 7] v by simp
  have eight: "uint (word_of_int v :: 8 word) = v" if v: "0 \<le> v" "v \<le> 255" for v
    using v by (simp add: uint_word_of_int_eq take_bit_int_eq_self)
  show ?thesis unfolding packet_clocks_def e six [OF r(1,2)] six [OF r(3,4)] six [OF r(5,6)] seven [OF r(7,8)] seven [OF r(9,10)]
      eight [OF r(11,12)] eight [OF r(13,14)]
    by (cases c) simp
qed

lemma good_clocks_known: "\<not> bad_clocks c \<Longrightarrow> default_clocks c = c"
  by (cases c) (simp add: bad_clocks_def outside_def default_clocks_def or_default_def)

lemma length_clock_bytes [simp]: "length (clock_bytes c) = 6"
  by (simp add: clock_bytes_def Let_def)

lemma makePacket_clocks:
  assumes "deviceUID (rf_dev d) = PHIDUID_RFID_2OUTPUT_READ_WRITE" and "8 \<le> n" and "\<not> bad_clocks (rf_clocks d)"
  shows "\<exists>b0 b d'. CPhidgetRFID_makePacket n d = Inr (Some (b0 # clock_bytes (rf_clocks d) @ b # replicate (n - 8) 0), d')
           \<and> bit b0 6 \<and> rf_dev d' = rf_dev d \<and> outputPacketLen d' = outputPacketLen d"
  using assms good_clocks_known [OF assms(3)]
  by (simp add: CPhidgetRFID_makePacket_def default_states_def Let_def fill_buffer_def bit_simps)

lemma make_and_send_clocks:
  assumes "rf_attached d" and "deviceUID (rf_dev d) = PHIDUID_RFID_2OUTPUT_READ_WRITE" and "\<not> bad_clocks (rf_clocks d)"
    and "outputReportByteLength (rf_dev d) = n" and "8 \<le> n" and "n \<le> 64" and "outputPacketLen d = 0"
  shows "\<exists>b0 b d'. make_and_send ws d = Inr (EPHIDGET_OK, d', ws) \<and> outputPacketLen d' = n
           \<and> take n (outputPacket d') = b0 # clock_bytes (rf_clocks d) @ b # replicate (n - 8) 0 \<and> bit b0 6 \<and> rf_dev d' = rf_dev d"
proof -
  obtain b0 b d' where m: "CPhidgetRFID_makePacket n d = Inr (Some (b0 # clock_bytes (rf_clocks d) @ b # replicate (n - 8) 0), d')"
    "bit b0 6" "rf_dev d' = rf_dev d" "outputPacketLen d' = outputPacketLen d"
    using makePacket_clocks [OF assms(2) assms(5) assms(3)] by blast
  let ?b = "b0 # clock_bytes (rf_clocks d) @ b # replicate (n - 8) 0"
  have "length ?b = n" using assms(5) by simp
  then have "CPhidgetRFID_sendpacket ws ?b d' =
      Inr (EPHIDGET_OK, d'\<lparr> outputPacket := ?b @ drop n (outputPacket d'), outputPacketLen := n \<rparr>, ws)" (is "_ = Inr (_, ?d, _)")
    using m assms by (subst CPhidgetRFID_sendpacket.simps) (simp add: rf_attached_def store_packet_def Let_def)
  then have "make_and_send ws d = Inr (EPHIDGET_OK, ?d, ws)" using m(1) assms(4) by (simp add: make_and_send_def)
  moreover have "take n (?b @ drop n (outputPacket d')) = ?b" using \<open>length ?b = n\<close> by (metis append_eq_conv_conj)
  ultimately show ?thesis using m(2,3) by (intro exI [of _ b0] exI [of _ b] exI [of _ ?d]) simp
qed

text \<open>
  C32: the lengths of gaps and pulses reach the read-write reader: when they are accepted and no packet is waiting, the packet that
  the write thread gets next is one with lengths, and the device takes from it exactly those asked for. Whether to listen
  at the end of the write is not among them.
\<close>

theorem clocks_reach_device:
  assumes "rf_attached d" and "deviceUID (rf_dev d) = PHIDUID_RFID_2OUTPUT_READ_WRITE" and "\<not> bad_clocks (rf_clocks d)"
    and "outputReportByteLength (rf_dev d) = n" and "8 \<le> n" and "n \<le> 64" and "outputPacketLen d = 0"
  shows "\<exists>d1 p d2. make_and_send ws d = Inr (EPHIDGET_OK, d1, ws) \<and> CPhidgetRFID_getPacket 64 d1 = Inr (EPHIDGET_OK, p, d2)
           \<and> packet_clocks p = (rf_clocks d)\<lparr> listenDuringEOF := 0 \<rparr> \<and> bit (p ! 0) 6 \<and> outputPacketLen d2 = 0"
proof -
  obtain b0 b d1 where m: "make_and_send ws d = Inr (EPHIDGET_OK, d1, ws)" "outputPacketLen d1 = n"
    "take n (outputPacket d1) = b0 # clock_bytes (rf_clocks d) @ b # replicate (n - 8) 0" "bit b0 6"
    using make_and_send_clocks [OF assms] by blast
  let ?p = "b0 # clock_bytes (rf_clocks d) @ (b # replicate (n - 8) 0) @ replicate (64 - n) 0"
  have "CPhidgetRFID_getPacket 64 d1 = Inr (EPHIDGET_OK, ?p, d1\<lparr> outputPacketLen := 0 \<rparr>)"
    using m assms(6) by (simp add: CPhidgetRFID_getPacket_def)
  then show ?thesis using m clocks_from_bytes [OF assms(3)] by (intro exI conjI) (assumption, assumption, simp_all)
qed

lemma sample_reader_dev:
  "deviceUID (rf_dev sample_reader) = PHIDUID_RFID_2OUTPUT_READ_WRITE" "outputReportByteLength (rf_dev sample_reader) = 8"
  "outputPacketLen sample_reader = 0" "deviceID (rf_dev sample_reader) = PHIDCLASS_RFID"
  by (simp_all add: sample_reader_def zero_rfid_def)

theorem clocks_reach_device_witness:
  "\<exists>d1 p d2. make_and_send [] (sample_reader\<lparr> rf_clocks := T5577_clocks \<rparr>) = Inr (EPHIDGET_OK, d1, [])
     \<and> CPhidgetRFID_getPacket 64 d1 = Inr (EPHIDGET_OK, p, d2) \<and> packet_clocks p = T5577_clocks"
proof -
  have "\<not> bad_clocks T5577_clocks" "T5577_clocks\<lparr> listenDuringEOF := 0 \<rparr> = T5577_clocks"
    by (simp_all add: bad_clocks_def T5577_clocks_def outside_def)
  with clocks_reach_device [of "sample_reader\<lparr> rf_clocks := T5577_clocks \<rparr>" 8 "[]"] sample_reader_facts(1) show ?thesis
    by (auto simp: sample_reader_dev rf_attached_def)
qed

section \<open>Commands for T5577 tags\<close>

lemma T5577_command_bits:
  "take 38 (bits_of (T5577_command page block data lock)) =
     [True, odd page, lock] @ map (bit data) (rev [0..<32]) @ map (bit block) [2, 1, 0]"
proof -
  have r: "rev [0..<32] = [31, 30, 29, 28, 27, 26, 25, 24, 23, 22, 21, 20, 19, 18, 17, 16, 15, 14, 13, 12, 11, 10, 9, 8, 7, 6, 5, 4, 3, 2, 1, 0::nat]"
    by (simp add: upt_rec)
  show ?thesis unfolding r by (simp add: T5577_command_def byte_bits_def bit_simps) (simp add: bit_0)
qed

lemma writeRaw_sends:
  assumes "rf_checks d = EPHIDGET_OK" and "deviceUID (rf_dev d) = PHIDUID_RFID_2OUTPUT_READ_WRITE" and "\<not> rf_remote d"
    and "\<not> bad_clocks c" and "make_and_send ws (d\<lparr> rf_clocks := c \<rparr>) = Inr (EPHIDGET_OK, d1, ws1)"
  shows "CPhidgetRFID_writeRaw stack ws data n c d =
           cbind (sendRAWData stack ws1 data n d1) (\<lambda>(_, d2, ws2). Inr (EPHIDGET_OK, d2, ws2))"
  using assms by (simp add: CPhidgetRFID_writeRaw_def)

lemma T5577_clocks_good: "\<not> bad_clocks T5577_clocks"
  by (simp add: bad_clocks_def T5577_clocks_def outside_def)

text \<open>
  Writing a block of a T5577 tag with an attached read-write reader here: after the packet with the lengths, packets
  with 38 bits are sent: the opcode and the page, the lock bit, the 32 bits of the data and the three bits of the block number, the
  highest bits first.
\<close>

lemma T5577_block_sent:
  assumes "rf_checks d = EPHIDGET_OK" and "deviceUID (rf_dev d) = PHIDUID_RFID_2OUTPUT_READ_WRITE" and "\<not> rf_remote d"
    and "make_and_send ws (d\<lparr> rf_clocks := T5577_clocks \<rparr>) = Inr (EPHIDGET_OK, d1, ws1)" and "length stack = 10"
  shows "\<exists>ps. T5577_WriteBlock stack ws page block data lock d =
                cbind (send_list ws1 ps d1) (\<lambda>(_, d2, ws2). Inr (EPHIDGET_OK, d2, ws2))
           \<and> concat (map packet_bits ps) =
                [True, odd page, lock] @ map (bit data) (rev [0..<32]) @ map (bit block) [2, 1, 0]"
proof -
  have "length (T5577_command page block data lock) = 5" by (simp add: T5577_command_def)
  with sendRAWData_packets [OF assms(5), of 38 "T5577_command page block data lock"] show ?thesis
    by (auto simp: T5577_WriteBlock_def writeRaw_sends [OF assms(1-3) T5577_clocks_good assms(4)] T5577_command_bits)
qed

text \<open>
  a raw write reports only whether the packet with the lengths was sent: whatever becomes of the data, even if they are refused or
  time out half way, the result is \<open>EPHIDGET_OK\<close>.
\<close>

theorem writeRaw_hides_failure:
  assumes "rf_checks d = EPHIDGET_OK" and "deviceUID (rf_dev d) = PHIDUID_RFID_2OUTPUT_READ_WRITE" and "\<not> rf_remote d"
    and "\<not> bad_clocks c" and "make_and_send ws (d\<lparr> rf_clocks := c \<rparr>) = Inr (EPHIDGET_OK, d1, ws1)"
    and "sendRAWData stack ws1 data n d1 = Inr (r, d2, ws2)"
  shows "CPhidgetRFID_writeRaw stack ws data n c d = Inr (EPHIDGET_OK, d2, ws2)"
  by (simp add: writeRaw_sends [OF assms(1-5)] assms(6))

lemma sample_send:
  "\<exists>d1. make_and_send [] (sample_reader\<lparr> rf_clocks := T5577_clocks \<rparr>) = Inr (EPHIDGET_OK, d1, []) \<and> outputPacketLen d1 = 8 \<and> rf_attached d1"
  using make_and_send_clocks [of "sample_reader\<lparr> rf_clocks := T5577_clocks \<rparr>" 8 "[]"] sample_reader_facts(1) T5577_clocks_good
  by (auto simp: sample_reader_dev rf_attached_def)

lemma sample_checks: "rf_checks sample_reader = EPHIDGET_OK" "\<not> rf_remote sample_reader"
  using sample_reader_facts(1)
  by (simp_all add: rf_checks_def sample_reader_dev)
     (simp add: rf_remote_def sample_reader_def CPhidget_statusFlagIsSet_def PHIDGET_ATTACHED_FLAG_def PHIDGET_REMOTE_FLAG_def)

theorem T5577_block_sent_witness:
  "\<exists>ws1 d1 ps. T5577_WriteBlock (replicate 10 0) [] 0 1 0xFF860FFF False sample_reader =
       cbind (send_list ws1 ps d1) (\<lambda>(_, d2, ws2). Inr (EPHIDGET_OK, d2, ws2))
     \<and> length (concat (map packet_bits ps)) = 38"
proof -
  obtain d1 where d1: "make_and_send [] (sample_reader\<lparr> rf_clocks := T5577_clocks \<rparr>) = Inr (EPHIDGET_OK, d1, [])"
    using sample_send by blast
  have "length (replicate 10 (0 :: 8 word)) = 10" by simp
  from T5577_block_sent [OF sample_checks(1) sample_reader_dev(1) sample_checks(2) d1 this, of 0 1 "0xFF860FFF" False]
  obtain ps where "T5577_WriteBlock (replicate 10 0) [] 0 1 0xFF860FFF False sample_reader =
        cbind (send_list [] ps d1) (\<lambda>(_, d2, ws2). Inr (EPHIDGET_OK, d2, ws2))"
    "concat (map packet_bits ps) = [True, odd (0 :: nat), False] @ map (bit (0xFF860FFF :: 32 word)) (rev [0..<32]) @ map (bit (1 :: nat)) [2, 1, 0]"
    by blast
  moreover from this(2) have "length (concat (map packet_bits ps)) = 38" by simp
  ultimately show ?thesis by blast
qed

text \<open>No packet is taken away, so the wait for the data times out.\<close>

theorem writeRaw_hides_failure_witness:
  "\<exists>r d2 ws2. r \<noteq> EPHIDGET_OK \<and> CPhidgetRFID_writeRaw (replicate 10 0) [] [0x5A] 8 T5577_clocks sample_reader = Inr (EPHIDGET_OK, d2, ws2)"
proof -
  obtain d1 where d1: "make_and_send [] (sample_reader\<lparr> rf_clocks := T5577_clocks \<rparr>) = Inr (EPHIDGET_OK, d1, [])"
    "outputPacketLen d1 = 8" "rf_attached d1"
    using sample_send by blast
  have "sendRAWData (replicate 10 0) [] [0x5A] 8 d1 = Inr (EPHIDGET_TIMEOUT, d1, [])"
    using d1(2,3)
    by (simp add: sendRAWData_def signed_divide_int_def signed_modulo_int_def CPhidgetRFID_sendpacket.simps [of "[]"] Let_def)
  from writeRaw_hides_failure [OF sample_checks(1) sample_reader_dev(1) sample_checks(2) T5577_clocks_good d1(1) this]
  show ?thesis by (intro exI [of _ EPHIDGET_TIMEOUT]) auto
qed

section \<open>Bounds\<close>

lemma tagEvent_again_no_oob: "tagEvent_again t xs d \<noteq> Inl Out_Of_Bounds"
  by (induction t xs d rule: tagEvent_again.induct) (auto simp: Let_def split: prod.splits if_splits)

lemma tagEvents_no_oob: "tagEvents ts d \<noteq> Inl Out_Of_Bounds"
proof (induction ts arbitrary: d)
  case (Cons t ts)
  then show ?case using tagEvent_again_no_oob [of t "rf_clock d" d]
    by (cases "tagEvent t d") (auto simp: tagEvent_def)
qed simp

lemma tag_packet_no_oob: "6 \<le> length buffer \<Longrightarrow> tag_packet buffer d \<noteq> Inl Out_Of_Bounds"
  by (simp add: tag_packet_def tagEvent_fromEM4100Data_def tagEvent_def tagEvent_again_no_oob Let_def)

lemma cbind_fault: "cbind m (\<lambda>x. Inr (f x)) = Inl e \<longleftrightarrow> m = Inl e"
  by (cases m) simp_all

lemma data_packet_oob:
  assumes "length buffer = 64"
  shows "data_packet buffer d = Inl Out_Of_Bounds \<longleftrightarrow> bit (buffer ! 0) 6 \<and> unat (buffer ! 0 AND 0x3F) > 53"
proof -
  have "unat (buffer ! 0 AND 0x3F) < 64"
  proof -
    have "buffer ! 0 AND 0x3F \<le> 0x3F" by (rule word_and_le1)
    then show ?thesis by (simp add: word_le_nat_alt)
  qed
  then show ?thesis
    using assms tagEvents_no_oob
    by (auto simp: data_packet_def byte_at_def Let_def cbind_fault split: prod.splits)
qed

text \<open>
  C34: reading a packet stays within the 64 bytes of the packet buffer, for every reader and every content, with one
  exception: a packet of the read-write reader that has the state in front (11 bytes) and a count of more than 53 pulses.
\<close>

theorem dataInput_in_bounds:
  assumes "length buffer = 64" and "0 \<le> len"
  shows "CPhidgetRFID_dataInput buffer len d = Inl Out_Of_Bounds \<longleftrightarrow>
           deviceUID (rf_dev d) = PHIDUID_RFID_2OUTPUT_READ_WRITE \<and> bit (buffer ! 0) 6 \<and> unat (buffer ! 0 AND 0x3F) > 53"
  using assms data_packet_oob [OF assms(1), of d] tag_packet_no_oob [of buffer d]
  by (auto simp: CPhidgetRFID_dataInput_def Let_def cbind_fault byte_at_def)

theorem dataInput_in_bounds_witness:
  "CPhidgetRFID_dataInput (0x7F # replicate 63 0) 64 sample_reader = Inl Out_Of_Bounds"
  using dataInput_in_bounds [of "0x7F # replicate 63 0" 64 sample_reader] by (simp add: sample_reader_dev)

text \<open>
  Programming a tag over the network puts the request together in 50 bytes: for a connected read-write reader and
  arguments that are accepted, a text of more than 45 characters runs over them, and any other is sent with protocol
  and lock in front.
\<close>

lemma remote_write_bound:
  assumes "rf_checks d = EPHIDGET_OK" and "deviceUID (rf_dev d) = PHIDUID_RFID_2OUTPUT_READ_WRITE" and "rf_remote d"
    and "flag_of (rf_dev d) PHIDGET_SERVER_CONNECTED_FLAG" and "proto \<noteq> PHIDGET_RFID_PROTOCOL_NONE" and "lock = 0 \<or> lock = 1"
  shows "CPhidgetRFID_write stack ws others (Some d) (Some tag) proto lock rs =
           (if length tag > 45 then Inl Out_Of_Bounds
            else Inr (EPHIDGET_OK, Some d,
                   rs @ [(rf_key ''WriteTag'' d, dec_int (protocol_num proto) @ ''/'' @ dec_int lock @ ''/'' @ tag)]))"
proof -
  have "length (dec_int (protocol_num proto)) = 1" "length (dec_int lock) = 1"
    using assms(5,6) by (cases proto; auto simp: protocol_num_def dec_int_def dec_nat.simps)+
  with assms show ?thesis by (auto simp: CPhidgetRFID_write_def outside_def rf_network_key_def Let_def)
qed

definition remote_reader :: rfid where
  "remote_reader = zero_rfid\<lparr> rf_dev := zero_phidget\<lparr> deviceID := PHIDCLASS_RFID,
     deviceUID := PHIDUID_RFID_2OUTPUT_READ_WRITE, ph_status := 0x61 \<rparr> \<rparr>"

theorem remote_write_bound_witness:
  "CPhidgetRFID_write [] [] [] (Some remote_reader) (Some (replicate 46 (CHR ''7''))) PHIDGET_RFID_PROTOCOL_PHIDGETS 0 [] = Inl Out_Of_Bounds"
proof -
  have s: "rf_checks remote_reader = EPHIDGET_OK" "rf_remote remote_reader"
    "flag_of (rf_dev remote_reader) PHIDGET_SERVER_CONNECTED_FLAG"
    "deviceUID (rf_dev remote_reader) = PHIDUID_RFID_2OUTPUT_READ_WRITE"
    by (simp_all add: rf_checks_def rf_attached_def rf_remote_def remote_reader_def zero_rfid_def CPhidget_statusFlagIsSet_def
        PHIDGET_ATTACHED_FLAG_def PHIDGET_REMOTE_FLAG_def PHIDGET_SERVER_CONNECTED_FLAG_def)
  show ?thesis
    using remote_write_bound [OF s(1,4,2,3), of PHIDGET_RFID_PROTOCOL_PHIDGETS 0 "[]" "[]" "[]" "replicate 46 (CHR ''7'')" "[]"] by simp
qed

end
