(* ===== verification/RfidAttach.thy ===== *)
theory RfidAttach
  imports RfidWriting
begin

text \<open>
  Attaching the RFID reader: the packets read then may hold tags, and nobody reports them yet. Nevertheless no
  tag is waited for, and a tag that was seen is known as the last tag at the end.
\<close>

section \<open>The end of the tag thread\<close>

definition steps_to_end :: "timer_pc \<Rightarrow> nat" where
  "steps_to_end pc =
     (case pc of At_Tag \<Rightarrow> 6 | At_Fire \<Rightarrow> 5 | At_Store \<Rightarrow> 4 | At_Lost \<Rightarrow> 3 | At_Lost_Fire \<Rightarrow> 2 | At_Loop \<Rightarrow> 1 | At_End \<Rightarrow> 0)"

lemma stopping_step:
  assumes "\<not> tagTimerThread d"
  shows "\<not> tagTimerThread (tagTimer_step now d) \<and> steps_to_end (timer_at (tagTimer_step now d)) \<le> steps_to_end (timer_at d) - 1"
proof (cases "timer_at d")
  case At_Lost
  from At_Lost show ?thesis
    by (rule lost_step [where now = now]) (use At_Lost assms in \<open>auto simp: steps_to_end_def\<close>)
next
  case At_Lost_Fire
  from At_Lost_Fire show ?thesis
    by (rule lost_fire_step [where now = now]) (use At_Lost_Fire assms in \<open>simp_all add: steps_to_end_def\<close>)
next
  case At_Loop
  with assms show ?thesis by (simp add: tagTimer_step_def steps_to_end_def)
next
  case At_End
  with assms show ?thesis by (simp add: tagTimer_step_def steps_to_end_def)
qed (use assms in \<open>simp_all add: timer_steps steps_to_end_def\<close>)

lemma stopping_steps:
  "\<not> tagTimerThread d \<Longrightarrow> steps_to_end (timer_at (fold tagTimer_step (replicate n now) d)) \<le> steps_to_end (timer_at d) - n"
proof (induction n arbitrary: d)
  case (Suc n)
  let ?d = "tagTimer_step now d"
  have "steps_to_end (timer_at (fold tagTimer_step (replicate n now) ?d)) \<le> steps_to_end (timer_at ?d) - n"
    "steps_to_end (timer_at ?d) \<le> steps_to_end (timer_at d) - 1"
    using stopping_step [OF Suc.prems, of now] Suc.IH [of ?d] by simp_all
  then show ?case by (simp add: replicate_Suc del: fold_replicate)
qed simp

lemma stopped: "\<not> tagTimerThread d \<Longrightarrow> timer_at (fold tagTimer_step (replicate 7 now) d) = At_End"
proof -
  assume "\<not> tagTimerThread d"
  from stopping_steps [OF this, of 7 now]
  have "steps_to_end (timer_at (fold tagTimer_step (replicate 7 now) d)) \<le> steps_to_end (timer_at d) - 7" .
  moreover have "steps_to_end (timer_at d) \<le> 6" by (simp add: steps_to_end_def split: timer_pc.split)
  ultimately have "steps_to_end (timer_at (fold tagTimer_step (replicate 7 now) d)) = 0" by linarith
  then show ?thesis unfolding steps_to_end_def by (cases "timer_at (fold tagTimer_step (replicate 7 now) d)") simp_all
qed

lemma joined: "tagTimerThread d \<or> timer_at d = At_End \<Longrightarrow> timer_at (join_tagTimer now d) = At_End"
  using stopped [of "d\<lparr> tagTimerThread := False \<rparr>" now] by (auto simp: join_tagTimer_def)

section \<open>Reading while attaching\<close>

text \<open>The tag thread has ended, no last tag is known, and a pending tag is present.\<close>

definition calm :: "rfid \<Rightarrow> bool" where
  "calm d \<longleftrightarrow> timer_at d = At_End \<and> lastTagValid d = 0 \<and> (tagEventPending d \<longrightarrow> tagPresent d = PTRUE)"

lemma ended_steps: "timer_at d = At_End \<Longrightarrow> fold tagTimer_step ns d = d"
  by (induction ns) (simp_all add: tagTimer_step_def)

lemma tag_look_calm:
  assumes "calm d"
  shows "\<exists>d'. tag_look t now d = (True, d') \<and> calm d'"
proof (cases "new_tag t d")
  case True
  then have "\<not> tagEventPending d" using assms by (auto simp: calm_def new_tag_def)
  with True assms show ?thesis by (simp add: tag_look_simps calm_def)
qed (use assms in \<open>simp add: tag_look_simps calm_def\<close>)

lemma tagEvent_calm: "calm d \<Longrightarrow> \<exists>d'. tagEvent t d = Inr d' \<and> calm d'"
proof -
  assume c: "calm d"
  then have e: "fold tagTimer_step ns d = d" for ns by (simp add: calm_def ended_steps)
  have "\<exists>d'. tagEvent_again t xs d = Inr d' \<and> calm d'" for xs
  proof (cases xs)
    case Nil
    obtain d1 where "tag_look t (lastTagTime d) d = (True, d1)" "calm d1" using tag_look_calm [OF c] by blast
    then show ?thesis by (simp add: Nil calm_def)
  next
    case (Cons x rest)
    obtain d1 where "tag_look t (snd x) d = (True, d1)" "calm d1" using tag_look_calm [OF c] by blast
    then show ?thesis by (cases x) (simp add: Cons e calm_def)
  qed
  then show ?thesis by (simp add: tagEvent_def)
qed

lemma tagEvents_calm: "calm d \<Longrightarrow> \<exists>d'. tagEvents ts d = Inr d' \<and> calm d'"
proof (induction ts arbitrary: d)
  case (Cons t ts)
  obtain d1 where "tagEvent t d = Inr d1" "calm d1" using tagEvent_calm [OF Cons.prems] by blast
  with Cons.IH [of d1] show ?case by simp
qed simp

text \<open>Neither a wait that never ends, nor a state that is not calm.\<close>

definition quiet :: "('a \<Rightarrow> rfid) \<Rightarrow> 'a cres \<Rightarrow> bool" where
  "quiet get r \<longleftrightarrow> (case r of Inl e \<Rightarrow> e \<noteq> Waits_Forever | Inr x \<Rightarrow> calm (get x))"

lemma quiet_simps [simp]: "quiet get (Inr x) \<longleftrightarrow> calm (get x)" "quiet get (Inl e) \<longleftrightarrow> e \<noteq> Waits_Forever"
  by (simp_all add: quiet_def)

lemma quiet_bind: "quiet get m \<Longrightarrow> (\<And>x. m = Inr x \<Longrightarrow> calm (get x) \<Longrightarrow> quiet get' (f x)) \<Longrightarrow> quiet get' (cbind m f)"
  by (cases m) simp_all

lemma quiet_if: "quiet get a \<Longrightarrow> quiet get b \<Longrightarrow> quiet get (if p then a else b)"
  by simp

lemma byte_at_quiet: "(\<And>b. quiet get (f b)) \<Longrightarrow> quiet get (cbind (byte_at buf i) f)"
  by (simp add: byte_at_def)

lemma calm_fire [simp]: "calm (rf_fire h e d) \<longleftrightarrow> calm d"
  by (simp add: rf_fire_def calm_def)

lemma take_state_calm: "calm d \<Longrightarrow> calm (take_state b d)"
proof -
  have f: "calm d \<Longrightarrow> calm (fold (\<lambda>i d. if p i d then rf_fire rf_onOutputChange (e i d) d else d) ns d)" for p e ns and d :: rfid
    by (induction ns arbitrary: d) simp_all
  assume "calm d"
  then show ?thesis unfolding take_state_def Let_def by (intro f) (simp add: calm_def)
qed

lemma tagEvent_quiet: "calm d \<Longrightarrow> quiet (\<lambda>d. d) (tagEvent t d)"
  using tagEvent_calm [of d t] by auto

lemma tagEvents_quiet: "calm d \<Longrightarrow> quiet (\<lambda>d. d) (tagEvents ts d)"
  using tagEvents_calm [of d ts] by auto

lemma tag_packet_quiet: "calm d \<Longrightarrow> quiet (\<lambda>d. d) (tag_packet b d)"
  by (simp add: tag_packet_def tagEvent_fromEM4100Data_def Let_def tagEvent_quiet)

lemma data_packet_quiet:
  assumes "calm d"
  shows "quiet (\<lambda>d. d) (data_packet b d)"
proof -
  have c: "calm ((if echo then take_echo b d else d)\<lparr> rf_line := ln \<rparr>)" for echo ln
    using assms by (simp add: calm_def take_echo_def Let_def)
  have "quiet (\<lambda>d. d) (cbind (tagEvents ts ((if echo then take_echo b d else d)\<lparr> rf_line := ln \<rparr>))
      (\<lambda>d2. Inr (if echo then take_state (b ! 9) d2 else d2)))" for echo ln ts
    using take_state_calm by (intro quiet_bind [OF tagEvents_quiet [OF c]]) auto
  then show ?thesis unfolding data_packet_def Let_def by (intro byte_at_quiet quiet_if) (simp_all only: quiet_simps prod.case_eq_if, simp)
qed

lemma dataInput_quiet: "calm d \<Longrightarrow> quiet snd (CPhidgetRFID_dataInput b n d)"
proof -
  assume c: "calm d"
  have g: "quiet (\<lambda>d. d) m \<Longrightarrow> quiet snd (cbind m (\<lambda>d. Inr (EPHIDGET_OK, d)))" for m
    by (rule quiet_bind) simp_all
  show ?thesis
    using c g [OF tag_packet_quiet [OF c]] g [OF data_packet_quiet [OF c]] take_state_calm [OF c]
    by (auto simp: CPhidgetRFID_dataInput_def Let_def intro!: byte_at_quiet)
qed

lemma calm_dev [simp]: "calm (rf_dev_update f d) \<longleftrightarrow> calm d"
  by (simp add: calm_def)

lemma CUSBReadPacket_fault: "CUSBReadPacket room p u = Inl e \<Longrightarrow> e = Out_Of_Bounds"
  by (auto simp: CUSBReadPacket_def Let_def split: option.splits if_splits in_result.splits usb_error.splits prod.splits list.splits)

lemma GPP_fault: "CPhidgetGPP_dataInput b p \<noteq> Inl Waits_Forever"
  by (cases b) simp_all

lemma CPhidget_read_quiet:
  assumes "calm d"
  shows "quiet (\<lambda>(r, d, buf, u). d) (CPhidget_read rf_dev rf_dev_update (Some CPhidgetRFID_dataInput) d buf u)"
proof -
  have handled: "quiet (\<lambda>(r, d, buf, u). d) (if r \<noteq> EPHIDGET_OK then Inr (r, d1, b, u1)
      else cbind (byte_at b 0) (\<lambda>b0.
        if gpp b0 then cbind (CPhidgetGPP_dataInput b (rf_dev d1)) (\<lambda>p2. Inr (EPHIDGET_OK, rf_dev_update (\<lambda>_. p2) d1, b, u1))
        else cbind (CPhidgetRFID_dataInput b n d1) (\<lambda>(r2, d2). Inr (r2, d2, b, u1))))"
    if c: "calm d1" for r d1 b gpp n and u1 :: usb
  proof -
    have "quiet (\<lambda>(r, d, buf, u). d) (cbind (CPhidgetRFID_dataInput b n d1) (\<lambda>(r2, d2). Inr (r2, d2, b, u1)))"
      by (rule quiet_bind [OF dataInput_quiet [OF c]]) (auto split: prod.split)
    moreover have "quiet (\<lambda>(r, d, buf, u). d) (cbind (CPhidgetGPP_dataInput b (rf_dev d1))
        (\<lambda>p2. Inr (EPHIDGET_OK, rf_dev_update (\<lambda>_. p2) d1, b, u1)))"
      using c GPP_fault [of b "rf_dev d1"] by (cases "CPhidgetGPP_dataInput b (rf_dev d1)") auto
    ultimately show ?thesis using c by (simp add: byte_at_quiet)
  qed
  show ?thesis
  proof (cases "CUSBReadPacket MAX_IN_PACKET_SIZE (Some (rf_dev d)) u")
    case (Inl e)
    then show ?thesis using CUSBReadPacket_fault [OF Inl] assms by (simp add: CPhidget_read_def Let_def)
  next
    case (Inr x)
    obtain r data p1 u1 where x: "x = (r, data, p1, u1)" by (cases x)
    have "calm (rf_dev_update (\<lambda>_. the p1) d)" using assms by simp
    show ?thesis unfolding CPhidget_read_def Let_def Inr x cbind_simps prod.case option.case
      by (intro quiet_if handled [OF \<open>calm (rf_dev_update (\<lambda>_. the p1) d)\<close>]) (use assms in simp)
  qed
qed

lemma rf_read_quiet:
  assumes "calm (fst s)"
  shows "quiet fst (rf_read s)"
proof -
  obtain d buf u where s: "s = (d, buf, u)" by (cases s)
  show ?thesis unfolding rf_read_def
    by (rule quiet_bind [OF CPhidget_read_quiet]) (use assms in \<open>auto split: prod.splits\<close>)
qed

lemma read_until_quiet: "calm (fst s) \<Longrightarrow> quiet fst (read_until n stop s)"
proof (induction n arbitrary: s)
  case (Suc n)
  show ?case using Suc.IH by (simp, intro quiet_bind [OF rf_read_quiet [OF Suc.prems]]) simp
qed simp

lemma init_packets_quiet:
  assumes "calm (fst s)"
  shows "quiet fst (init_packets s)"
proof -
  have "quiet fst (if rf_fullStateEcho (fst s) then cbind (read_until 16 stop s) rf_read else Inr s)" for stop
    using assms by (intro quiet_if quiet_bind [OF read_until_quiet] rf_read_quiet) simp_all
  then show ?thesis unfolding init_packets_def by (rule quiet_bind) (intro quiet_if read_until_quiet; simp)
qed

section \<open>The attachment\<close>

lemma init_finish_tag:
  "tagPresent (init_finish d) = PTRUE \<Longrightarrow> lastTagValid (init_finish d) = PTRUE \<and> lastTag (init_finish d) = pendingTag d"
  by (simp add: init_finish_def Let_def split: if_splits)

lemma init_finish_pending [simp]: "pendingTag (init_finish d) = pendingTag d"
  by (simp add: init_finish_def Let_def)

lemma CUSBSendPacket_fault: "CUSBSendPacket p b u = Inl e \<Longrightarrow> e = Out_Of_Bounds"
  by (auto simp: CUSBSendPacket_def split: option.splits if_splits out_result.splits usb_error.splits prod.splits)

lemma calm_start:
  "timer_at d = At_End \<Longrightarrow> calm (init_reader echo antenna (d\<lparr> tagTimerThread := False, outputPacketLen := 0 \<rparr>))"
  by (simp add: init_reader_def calm_def)

text \<open>
  C35: the initialisation of a reader whose tag thread is running or has ended: it stops that thread and never waits for
  somebody to report a tag, whatever packets come. When it succeeds and a tag was seen, that tag is known as the last one.
\<close>

theorem attach_never_waits:
  assumes "tagTimerThread d \<or> timer_at d = At_End"
  shows "CPhidgetRFID_initAfterOpen now (d, buf, u) \<noteq> Inl Waits_Forever
    \<and> (\<forall>d' buf' u'. CPhidgetRFID_initAfterOpen now (d, buf, u) = Inr (EPHIDGET_OK, d', buf', u') \<and> tagPresent d' = PTRUE
         \<longrightarrow> lastTagValid d' = PTRUE \<and> lastTag d' = pendingTag d')"
proof -
  let ?d1 = "(join_tagTimer now d)\<lparr> tagTimerThread := False, outputPacketLen := 0 \<rparr>"
  show ?thesis
  proof (cases "reader_kind (deviceUID (rf_dev ?d1))")
    case None
    then show ?thesis by (simp add: CPhidgetRFID_initAfterOpen_def Let_def)
  next
    case (Some ea)
    obtain echo antenna where ea: "ea = (echo, antenna)" by (cases ea)
    let ?d2 = "init_reader echo antenna ?d1"
    have c: "calm ?d2" using joined [OF assms] by (intro calm_start)
    define sent where "sent = (if deviceUID (rf_dev ?d2) = PHIDUID_RFID_OLD then CUSBSendPacket (Some (rf_dev ?d2)) (replicate 8 0) u
      else Inr (EPHIDGET_OK, u))"
    have i: "CPhidgetRFID_initAfterOpen now (d, buf, u) = cbind sent (\<lambda>(r, u1).
        if r \<noteq> EPHIDGET_OK then Inr (r, ?d2, buf, u1)
        else cbind (init_packets (?d2, buf, u1)) (\<lambda>(d3, buf3, u3). Inr (EPHIDGET_OK, init_finish d3, buf3, u3)))"
      unfolding CPhidgetRFID_initAfterOpen_def Let_def prod.case Some option.case ea sent_def ..
    show ?thesis
    proof (cases sent)
      case (Inl e)
      then have "e = Out_Of_Bounds" unfolding sent_def by (metis CUSBSendPacket_fault sum.distinct(1))
      then show ?thesis by (simp add: i Inl)
    next
      case (Inr x)
      obtain r u1 where x: "x = (r, u1)" by (cases x)
      have "quiet fst (init_packets (?d2, buf, u1))" using c by (intro init_packets_quiet) simp
      then show ?thesis
        by (cases "init_packets (?d2, buf, u1)") (auto simp: i Inr x init_finish_tag split: prod.splits)
    qed
  qed
qed

theorem attach_never_waits_witness:
  "CPhidgetRFID_initAfterOpen 7 (sample_reader, [], \<lparr> outs = [], ins = [], waits = [], usb_mem = [], sent_packets = [] \<rparr>)
     \<noteq> Inl Waits_Forever"
  using attach_never_waits [of sample_reader 7 "[]"] sample_reader_facts(3) by blast

end
