(* ===== verification/PDictClient.thy ===== *)
theory PDictClient
  imports PDict TreeShape LineIO Codec Decimal
begin

text \<open>
  The client of the dictionary protocol (\<open>dict/pdictclient.c\<close>): a session with the web
  service that sends commands, matches the replies that its reader thread gets to the
  commands that wait for them, and hands reports to the listeners.

  A \<open>result_t\<close> is a value of the tree of pending commands, with the argument of its
  notification function. A synchronous command (\<open>cmd\<close>, \<open>jcmd\<close>) waits in a call whose
  arguments are an object with an address: the \<open>result_t\<close> on its stack and the structure on
  the heap are gone when it returns, and a notification that comes later reads freed
  memory. The shapes of the two trees are those of theory \<open>TreeShape\<close>.

  Threads run between the points where they wait or hold no lock: a command is sent in one
  step, or in two when the text of an asynchronous command is formatted before the lock is
  taken; the reader takes a result, notifies, and signals in one step each. Functions of the
  application are values of type \<open>'f\<close>; \<open>calls\<close> collects the calls in their order. Error texts
  are given in full; the caller's buffer cuts them.
\<close>

section \<open>State\<close>

record 'f listener =
  l_id :: int
  l_cb :: "'f option"
  l_arg :: addr

text \<open>The notification functions with what \<open>r_arg\<close> points to.\<close>

datatype 'f notification =
    Getresult_Cb addr
  | Jgetresult_Cb addr
  | Async_Cmd_Cb int "'f option" addr                     \<comment> \<open>desired code, error function and its argument\<close>
  | Async_Auth_Cb "'f option" "'f option" addr "string option" \<comment> \<open>success, error, argument, password\<close>

record 'f result_t =
  r_tag :: int
  r_notify :: "'f notification"

record getresult =
  grcba_code :: int
  grcba_desired :: int
  grcba_line :: "string option"

text \<open>
  The reply buffer up to \<open>grcba_reply_ptr\<close>, \<open>None\<close> for a byte that has not been written;
  the whole is \<open>None\<close> for a NULL pointer.
\<close>

record jgetresult =
  jgrcba_code :: int
  jgrcba_reply :: "char option list option"
  jgrcba_reply_len :: int
  jgrcba_moved :: bool  \<comment> \<open>the buffer is no longer where the caller's pointer says\<close>

datatype 'f call =
    Notified "'f result_t" int bool
  | Changed 'f addr string string nat pdict_reason
  | Error_Called 'f addr string
  | Success_Called 'f addr "'f option"

record 'f pdc_session =
  pdcs_listeners :: "'f listener tree"
  pdcs_pending :: "'f result_t tree"
  pdcs_resultreader :: bool
  cmds :: "getresult heap"
  jcmds :: "jgetresult heap"
  async_tag :: int             \<comment> \<open>\<open>tag\<close> of \<open>async_cmd_callback\<close>\<close>
  listen_lid :: int            \<comment> \<open>\<open>lid\<close> of \<open>pdc_listen\<close>\<close>
  pdc_mem :: memory
  pdc_brk :: addr
  pdc_writes :: "bool list"    \<comment> \<open>coming results of the write function\<close>
  pdc_sent :: "string list"
  calls :: "'f call list"
  taken :: "('f result_t \<times> int \<times> bool \<times> string cres) option" \<comment> \<open>what the reader is about to notify\<close>
  to_signal :: "addr option"   \<comment> \<open>the call it is about to signal\<close>
  reader_done :: bool

text \<open>
  What the client takes from outside: the digest, the protocol version, the texts of errors
  (\<open>strerror (errno)\<close> and the one a failing write leaves), and the compiled pattern of
  reports.
\<close>

record client_env =
  md5 :: "string \<Rightarrow> string"
  ws_protocol_ver :: string
  es :: string
  write_error :: string
  pendingex :: "string \<Rightarrow> (int \<times> int) list option"

section \<open>Helpers\<close>

definition got_mem :: "'f pdc_session \<Rightarrow> bool \<times> 'f pdc_session" where
  "got_mem c = (let (got, mem) = alloc (pdc_mem c) in (got, c\<lparr> pdc_mem := mem \<rparr>))"

definition pdcs_write :: "string \<Rightarrow> 'f pdc_session \<Rightarrow> bool \<times> 'f pdc_session" where
  "pdcs_write buf c =
     (let (done_all, ws) = alloc (pdc_writes c) in
      (done_all, c\<lparr> pdc_writes := ws, pdc_sent := pdc_sent c @ [buf] \<rparr>))"

definition call_error :: "'f option \<Rightarrow> addr \<Rightarrow> string \<Rightarrow> 'f pdc_session \<Rightarrow> 'f pdc_session" where
  "call_error f arg errdesc c =
     (case f of None \<Rightarrow> c | Some e \<Rightarrow> c\<lparr> calls := calls c @ [Error_Called e arg errdesc] \<rparr>)"

definition lcmp :: "'f listener \<Rightarrow> 'f listener \<Rightarrow> int" where
  "lcmp s t = int32 (l_id s - l_id t)"

definition tagcmp :: "'f result_t \<Rightarrow> 'f result_t \<Rightarrow> int" where
  "tagcmp s t = int32 (r_tag s - r_tag t)"

text \<open>A search gives the tag only.\<close>

definition tag_key :: "int \<Rightarrow> 'f result_t" where
  "tag_key tag = \<lparr> r_tag = tag, r_notify = Getresult_Cb NULL \<rparr>"

definition find_pending :: "int \<Rightarrow> 'f pdc_session \<Rightarrow> 'f result_t option cres" where
  "find_pending tag c = tr_find (\<lambda>x y. Inr (tagcmp x y)) (tag_key tag) (pdcs_pending c)"

definition remove_pending :: "int \<Rightarrow> 'f pdc_session \<Rightarrow> ('f result_t option \<times> 'f pdc_session) cres" where
  "remove_pending tag c =
     cbind (find_pending tag c) (\<lambda>found.
     case found of
       None \<Rightarrow> Inr (None, c)
     | Some r \<Rightarrow> cbind (tr_del (\<lambda>x y. Inr (tagcmp x y)) (tag_key tag) (pdcs_pending c)) (\<lambda>t.
                 Inr (Some r, c\<lparr> pdcs_pending := t \<rparr>)))"

text \<open>The caller asserts that there was no command with the same tag.\<close>

definition add_pending :: "'f result_t \<Rightarrow> 'f pdc_session \<Rightarrow> (bool \<times> 'f pdc_session) cres" where
  "add_pending r c =
     cbind (tr_replace (\<lambda>x y. Inr (tagcmp x y)) r (pdc_mem c) (pdcs_pending c)) (\<lambda>(res, old, t, mem).
     if old \<noteq> None then Inl Assert_Failed
     else Inr (res, c\<lparr> pdc_mem := mem, pdcs_pending := t \<rparr>))"

section \<open>Asynchronous commands\<close>

text \<open>The text is formatted with the counter before the lock is taken.\<close>

definition async_text :: "string \<Rightarrow> 'f pdc_session \<Rightarrow> string option \<times> 'f pdc_session" where
  "async_text cmd c =
     (let (got, c1) = got_mem c in
      (if got then Some (CHR ''T'' # dec_int (async_tag c) @ '' '' @ cmd) else None, c1))"

text \<open>
  Under the lock: without memory for the tree node the variable that is asserted to be NULL
  has never been set.
\<close>

definition async_send :: "client_env \<Rightarrow> string \<Rightarrow> 'f notification \<Rightarrow> 'f option \<Rightarrow> addr
    \<Rightarrow> 'f pdc_session \<Rightarrow> 'f pdc_session cres" where
  "async_send env buf nf err arg c =
     (let (got, c1) = got_mem c in
      if \<not> got then Inr (call_error err arg (es env) c1) else
      let tag = async_tag c1; c2 = c1\<lparr> async_tag := int32 (tag + 1) \<rparr> in
      cbind (add_pending \<lparr> r_tag = tag, r_notify = nf \<rparr> c2) (\<lambda>(res, c3).
      if \<not> res then Inl Bad_Pointer else
      let (written, c4) = pdcs_write buf c3 in
      if written then Inr c4
      else cbind (remove_pending tag (call_error err arg (write_error env) c4)) (\<lambda>(_, c5). Inr c5)))"

definition async_cmd_callback :: "client_env \<Rightarrow> string \<Rightarrow> 'f notification \<Rightarrow> 'f option \<Rightarrow> addr
    \<Rightarrow> 'f pdc_session \<Rightarrow> 'f pdc_session cres" where
  "async_cmd_callback env cmd nf err arg c =
     (let (buf, c1) = async_text cmd c in
      case buf of
        None \<Rightarrow> Inr (call_error err arg (es env) c1)
      | Some b \<Rightarrow> async_send env b nf err arg c1)"

definition async_cmd :: "client_env \<Rightarrow> int \<Rightarrow> string \<Rightarrow> 'f option \<Rightarrow> addr \<Rightarrow> 'f pdc_session \<Rightarrow> 'f pdc_session cres" where
  "async_cmd env desired cmd err arg c =
     (let (got, c1) = got_mem c in
      if \<not> got then Inr (call_error err arg (es env) c1)
      else async_cmd_callback env cmd (Async_Cmd_Cb desired err arg) err arg c1)"

section \<open>Notifications\<close>

text \<open>
  The reader holds the lock of the call while it stores the result; it signals after it has
  released it.
\<close>

definition getresult_cb :: "addr \<Rightarrow> int \<Rightarrow> bool \<Rightarrow> string cres \<Rightarrow> 'f pdc_session \<Rightarrow> 'f pdc_session cres" where
  "getresult_cb a code final line c =
     cbind (deref (cmds c) a) (\<lambda>g.
     if \<not> final then Inr c
     else cbind (if code = grcba_desired g then Inr (g\<lparr> grcba_code := code \<rparr>, c)
                 else cbind line (\<lambda>l. let (got, c1) = got_mem c in
                      Inr (g\<lparr> grcba_code := code, grcba_line := (if got then Some l else None) \<rparr>, c1)))
            (\<lambda>(g', c1). Inr (c1\<lparr> cmds := (cmds c1)(a \<mapsto> g'), to_signal := Some a \<rparr>)))"

text \<open>
  A line of a reply is appended to the buffer, which grows when it does not fit. \<open>strncpy\<close>
  writes the NUL behind the text only when it has a byte to spare. Without memory to grow,
  the function returns with the lock that the waiting caller needs to wake up.
\<close>

definition append_reply :: "string \<Rightarrow> bool \<Rightarrow> int \<Rightarrow> char option list \<Rightarrow> char option list" where
  "append_reply line final len buf =
     buf @ map Some line
       @ [if \<not> final then Some newline
          else if len - int (length buf) - 1 > int (length line) then Some NUL else None]"

definition jgetresult_cb :: "addr \<Rightarrow> int \<Rightarrow> bool \<Rightarrow> string cres \<Rightarrow> 'f pdc_session \<Rightarrow> 'f pdc_session cres" where
  "jgetresult_cb a code final line c =
     cbind (deref (jcmds c) a) (\<lambda>g0.
     cbind line (\<lambda>l.
     let g = (if final then g0\<lparr> jgrcba_code := code \<rparr> else g0);
         used = (case jgrcba_reply g of None \<Rightarrow> [] | Some b \<Rightarrow> b);
         signal = (if final then Some a else to_signal c)
     in if int (length l) + 1 \<le> jgrcba_reply_len g - int (length used) then
          (if jgrcba_reply g = None then Inl Bad_Pointer
           else Inr (c\<lparr> jcmds := (jcmds c)(a \<mapsto>
                  g\<lparr> jgrcba_reply := Some (append_reply l final (jgrcba_reply_len g) used) \<rparr>), to_signal := signal \<rparr>))
        else
          let (got, c1) = got_mem c; len = int (length l) + int (length used) + 100 in
          if \<not> got then Inl Waits_Forever
          else Inr (c1\<lparr> jcmds := (jcmds c1)(a \<mapsto>
                  g\<lparr> jgrcba_reply := Some (append_reply l final len used), jgrcba_reply_len := len,
                     jgrcba_moved := True \<rparr>), to_signal := signal \<rparr>)))"

definition async_cmd_cb :: "int \<Rightarrow> 'f option \<Rightarrow> addr \<Rightarrow> int \<Rightarrow> bool \<Rightarrow> string cres \<Rightarrow> 'f pdc_session \<Rightarrow> 'f pdc_session cres" where
  "async_cmd_cb desired err arg code final line c =
     (if \<not> final then Inl Assert_Failed
      else if desired = code then Inr c
      else cbind line (\<lambda>l. let (got, c1) = got_mem c in
           Inr (call_error err arg
             (if got then ''protocol error: '' @ l else ''protocol error (insufficient memory to describe)'') c1)))"

text \<open>\<open>strtol\<close> with base 0, and the search of one text in another.\<close>

definition digits_in :: "int \<Rightarrow> string \<Rightarrow> int" where
  "digits_in base s = foldl (\<lambda>n c. base * n + hexval c) 0 (takeWhile (\<lambda>c. 0 \<le> hexval c \<and> hexval c < base) s)"

definition magnitude0 :: "string \<Rightarrow> int" where
  "magnitude0 s =
     (if take 1 s \<noteq> ''0'' then digits_in 10 s
      else if (take 2 s = ''0x'' \<or> take 2 s = ''0X'') \<and> (\<exists>c \<in> set (take 1 (drop 2 s)). 0 \<le> hexval c)
      then digits_in 16 (drop 2 s) else digits_in 8 s)"

definition strtol0 :: "string \<Rightarrow> int" where
  "strtol0 s =
     (let t = dropWhile is_space s;
          v = (if take 1 t = ''-'' then - magnitude0 (drop 1 t)
               else if take 1 t = ''+'' then magnitude0 (drop 1 t) else magnitude0 t)
      in max (- (2 ^ 31)) (min (2 ^ 31 - 1) v))"

fun strstr :: "string \<Rightarrow> string \<Rightarrow> string option" where
  "strstr [] pat = (if pat = [] then Some [] else None)"
| "strstr (c # s) pat = (if take (length pat) (c # s) = pat then Some (c # s) else strstr s pat)"

text \<open>
  The answer to the challenge is the digest of the number and the password. Without a
  password the buffer that is digested has never been written.
\<close>

definition hex_digest :: "string \<Rightarrow> string" where
  "hex_digest d = concat (map (\<lambda>c. [hexchar (of_char c div 16), hexchar (of_char c mod 16)]) d)"

definition auth_answer :: "client_env \<Rightarrow> int \<Rightarrow> string option \<Rightarrow> string cres" where
  "auth_answer env hash pass =
     (case pass of
        None \<Rightarrow> Inl Out_Of_Bounds
      | Some p \<Rightarrow> Inr (''997 '' @ hex_digest (md5 env (take 99 (dec_int hash @ p))) @ [newline]))"

definition async_auth_cb :: "client_env \<Rightarrow> 'f option \<Rightarrow> 'f option \<Rightarrow> addr \<Rightarrow> string option \<Rightarrow> int \<Rightarrow> bool
    \<Rightarrow> string cres \<Rightarrow> 'f pdc_session \<Rightarrow> 'f pdc_session cres" where
  "async_auth_cb env success err arg pass code final line c =
     (if \<not> final then Inl Assert_Failed
      else if code = 999 then
        cbind line (\<lambda>l. cbind (auth_answer env (strtol0 l) pass) (\<lambda>buf.
        async_cmd_callback env buf (Async_Auth_Cb success err arg pass) err arg c))
      else if code = 998 then Inr (call_error err arg ''Authentication Failed - bad password'' c)
      else if code = 996 then
        cbind line (\<lambda>l.
        if strstr l ''version='' = None
        then Inr (call_error err arg ''Trying to connect to an old webservice. Webservice needs to be updated.'' c)
        else Inr (case success of None \<Rightarrow> c | Some f \<Rightarrow> c\<lparr> calls := calls c @ [Success_Called f arg err] \<rparr>))
      else if code = 994 then
        cbind line (\<lambda>l. Inr (call_error err arg
          (take 99 (''Version Mismatch; webservice:'' @ (if 24 < length l then drop 24 l else l)
             @ '', expecting:'' @ ws_protocol_ver env)) c))
      else if code = 500 then
        cbind line (\<lambda>l. Inr (call_error err arg (take 99 (''Network Error (probably a timeout occured): '' @ l)) c))
      else Inr (call_error err arg
        ''Unexpected response during authorization. Probably a version mismatch - upgrade the Webservice.'' c))"

text \<open>Calling \<open>r_notify\<close>.\<close>

definition notify_result :: "client_env \<Rightarrow> 'f result_t \<Rightarrow> int \<Rightarrow> bool \<Rightarrow> string cres \<Rightarrow> 'f pdc_session \<Rightarrow> 'f pdc_session cres" where
  "notify_result env r code final line c =
     (let c1 = c\<lparr> calls := calls c @ [Notified r code final] \<rparr> in
      case r_notify r of
        Getresult_Cb a \<Rightarrow> getresult_cb a code final line c1
      | Jgetresult_Cb a \<Rightarrow> jgetresult_cb a code final line c1
      | Async_Cmd_Cb desired err arg \<Rightarrow> async_cmd_cb desired err arg code final line c1
      | Async_Auth_Cb success err arg pass \<Rightarrow> async_auth_cb env success err arg pass code final line c1)"

section \<open>The reader\<close>

definition pdc_reason_from_str :: "string \<Rightarrow> pdict_reason option" where
  "pdc_reason_from_str s =
     (if s = ''changed'' then Some PDR_VALUE_CHANGED
      else if s = ''current'' then Some PDR_CURRENT_VALUE
      else if s = ''added'' then Some PDR_ENTRY_ADDED
      else if s = ''removing'' then Some PDR_ENTRY_REMOVING else None)"

abbreviation quote :: char where "quote \<equiv> CHR 0x22"

definition find_listener :: "int \<Rightarrow> 'f pdc_session \<Rightarrow> 'f listener option cres" where
  "find_listener k c =
     tr_find (\<lambda>x y. Inr (lcmp x y)) \<lparr> l_id = k, l_cb = None, l_arg = NULL \<rparr> (pdcs_listeners c)"

text \<open>A submatch; \<open>None\<close> when it is empty or there is no memory for it.\<close>

definition report_part :: "string \<Rightarrow> (int \<times> int) list \<Rightarrow> nat \<Rightarrow> 'f pdc_session \<Rightarrow> (string option \<times> 'f pdc_session) cres" where
  "report_part line pm n c =
     cbind (getmatchsub (pdc_mem c) line pm n) (\<lambda>(len, s, mem).
     Inr (if len = 0 then None else s, c\<lparr> pdc_mem := mem \<rparr>))"

definition deliver_report :: "string \<Rightarrow> (int \<times> int) list \<Rightarrow> string \<Rightarrow> 'f pdc_session \<Rightarrow> 'f pdc_session cres" where
  "deliver_report line pm val c =
     cbind (report_part line pm 1 c) (\<lambda>(i, c1).
     case i of None \<Rightarrow> Inr c1 | Some idstr \<Rightarrow>
     cbind (report_part line pm 2 c1) (\<lambda>(k, c2).
     case k of None \<Rightarrow> Inr c2 | Some key \<Rightarrow>
     cbind (report_part line pm 3 c2) (\<lambda>(w, c3).
     case Option.bind w pdc_reason_from_str of None \<Rightarrow> Inr c3 | Some r \<Rightarrow>
     cbind (find_listener (atoi idstr) c3) (\<lambda>found.
     case found of None \<Rightarrow> Inr c3 | Some l \<Rightarrow>
     case l_cb l of None \<Rightarrow> Inr c3 | Some f \<Rightarrow>
     cbind (unescape (pdc_mem c3) val) (\<lambda>(ueval, mem).
     Inr (case ueval of
            None \<Rightarrow> c3\<lparr> pdc_mem := mem \<rparr>
          | Some u \<Rightarrow> c3\<lparr> pdc_mem := mem, calls := calls c3 @ [Changed f (l_arg l) key u (length u) r] \<rparr>))))))"

text \<open>
  The pointer \<open>val\<close> of \<open>handle_report\<close>: NULL, a position of the line that the reader still
  owns, or a copy on the heap. \<open>free\<close> takes NULL and what \<open>malloc\<close> returned and nothing else.\<close>

datatype val_ptr = Null_Val | In_Line nat | Val_Copy string

definition free_val :: "val_ptr \<Rightarrow> 'f pdc_session \<Rightarrow> 'f pdc_session cres" where
  "free_val val c = (case val of In_Line _ \<Rightarrow> Inl Bad_Pointer | _ \<Rightarrow> Inr c)"

text \<open>
  The value is copied out of its quotes and what follows it is shifted over it. Result: \<open>val\<close>,
  the line as it is left, the session. \<open>val\<close> is a copy only when the line has exactly two
  quotes and there is memory for the copy.\<close>

definition quoted_value :: "string \<Rightarrow> 'f pdc_session \<Rightarrow> val_ptr \<times> string \<times> 'f pdc_session" where
  "quoted_value line c =
     (case strchr_at quote line of
        None \<Rightarrow> (Null_Val, line, c)
      | Some i \<Rightarrow>
          let soval = drop (i + 1) line in
          case strchr_at quote soval of
            None \<Rightarrow> (In_Line (i + 1), line, c)
          | Some j \<Rightarrow>
              if strchr_at quote (drop (j + 1) soval) \<noteq> None
              then (In_Line (i + 1), line[i + 1 + j := NUL], c)
              else let (got, c1) = got_mem c in
                if \<not> got then (Null_Val, line, c1)
                else (Val_Copy (take j soval), take (i + 1) line @ drop j soval, c1))"

text \<open>\<open>val\<close> is freed at the label \<open>end\<close>, which every path reaches; the key and the identifier are copies or NULL.\<close>

definition handle_report :: "client_env \<Rightarrow> string \<Rightarrow> 'f pdc_session \<Rightarrow> 'f pdc_session cres" where
  "handle_report env line c =
     (let (val, line', c1) = quoted_value line c in
      cbind (case val of
               Val_Copy v \<Rightarrow> (case pendingex env line' of
                                None \<Rightarrow> Inr c1
                              | Some pm \<Rightarrow> deliver_report line' pm v c1)
             | _ \<Rightarrow> Inr c1) (\<lambda>c2.
      free_val val c2))"

text \<open>The tag and the start of the result; \<open>None\<close> for a tagged line without a digit behind a space.\<close>

definition result_start :: "string \<Rightarrow> (int \<times> string) option" where
  "result_start line =
     (if take 1 line = ''T'' then
        (let s = dropWhile (\<lambda>c. \<not> is_digit c) (dropWhile (\<lambda>c. c \<noteq> CHR '' '') line) in
         if s = [] then None else Some (atoi (drop 1 line), s))
      else Some (0, line))"

text \<open>Looking up, under the lock, which command a line answers.\<close>

definition take_result :: "string \<Rightarrow> 'f pdc_session \<Rightarrow> 'f pdc_session cres" where
  "take_result line c =
     (case result_start line of
        None \<Rightarrow> Inr c
      | Some (tag, startp) \<Rightarrow>
          if length line < 4 then Inr c else
          cbind (str_at startp 3) (\<lambda>ch.
          let final = (ch = CHR '' '') in
          cbind (if final then remove_pending tag c
                 else cbind (find_pending tag c) (\<lambda>found. Inr (found, c))) (\<lambda>(found, c1).
          case found of
            None \<Rightarrow> Inr c1
          | Some r \<Rightarrow>
              Inr (c1\<lparr> taken := Some (r, atoi startp, final,
                     if 4 \<le> length startp then Inr (drop 4 startp) else Inl Out_Of_Bounds) \<rparr>))))"

definition reader_notify :: "client_env \<Rightarrow> 'f pdc_session \<Rightarrow> 'f pdc_session cres" where
  "reader_notify env c =
     (case taken c of
        None \<Rightarrow> Inr c
      | Some (r, code, final, line) \<Rightarrow> notify_result env r code final line (c\<lparr> taken := None \<rparr>))"

definition reader_signal :: "'f pdc_session \<Rightarrow> 'f pdc_session cres" where
  "reader_signal c =
     (case to_signal c of
        None \<Rightarrow> Inr c
      | Some a \<Rightarrow> if cmds c a = None \<and> jcmds c a = None then Inl Bad_Pointer
                  else Inr (c\<lparr> to_signal := None \<rparr>))"

text \<open>One line without another thread in between.\<close>

definition read_result :: "client_env \<Rightarrow> string \<Rightarrow> 'f pdc_session \<Rightarrow> 'f pdc_session cres" where
  "read_result env line c =
     (if take 1 line = ''r'' then handle_report env line c
      else cbind (take_result line c) (\<lambda>c1. cbind (reader_notify env c1) reader_signal))"

text \<open>Pending commands are answered with an error, in the order of the walk.\<close>

definition closed_text :: "'f result_t \<Rightarrow> string" where
  "closed_text r = take 1023 (''Socket was closed before command T'' @ dec_int (r_tag r) @ '' finished.'')"

fun finish_all :: "client_env \<Rightarrow> 'f result_t list \<Rightarrow> 'f pdc_session \<Rightarrow> 'f pdc_session cres" where
  "finish_all env [] c = Inr c"
| "finish_all env (r # rs) c =
     cbind (notify_result env r 500 True (Inr (closed_text r)) c) (\<lambda>c1.
     cbind (reader_signal c1) (finish_all env rs))"

text \<open>The socket is closed: \<open>finish_pending_async\<close> and \<open>free_node\<close> on all nodes.\<close>

definition reader_close :: "client_env \<Rightarrow> 'f pdc_session \<Rightarrow> 'f pdc_session cres" where
  "reader_close env c =
     cbind (finish_all env (postorder (pdcs_pending c)) (c\<lparr> pdcs_pending := tr_prune (\<lambda>_. False) (pdcs_pending c) \<rparr>)) (\<lambda>c1.
     if pdcs_pending c1 \<noteq> Leaf then Inl Assert_Failed
     else let c2 = c1\<lparr> pdcs_listeners := tr_prune (\<lambda>_. False) (pdcs_listeners c1) \<rparr> in
       if pdcs_listeners c2 \<noteq> Leaf then Inl Assert_Failed else Inr (c2\<lparr> reader_done := True \<rparr>))"

text \<open>\<open>pd_getline\<close> delivers the lines until the socket is closed.\<close>

fun read_results :: "client_env \<Rightarrow> string list \<Rightarrow> 'f pdc_session \<Rightarrow> 'f pdc_session cres" where
  "read_results env [] c = reader_close env c"
| "read_results env (line # rest) c = cbind (read_result env line c) (read_results env rest)"

section \<open>Synchronous commands\<close>

text \<open>
  \<open>wakes\<close> are the coming ends of the wait on the condition variable: what the other threads
  do until then, and whether the wait has timed out. \<open>None\<close> is the result while it waits.
\<close>

type_synonym 'f wake = "('f pdc_session \<Rightarrow> 'f pdc_session cres) \<times> bool"
type_synonym 'f cmd_result = "(bool \<times> string option \<times> 'f pdc_session) run"

abbreviation cmd_timeout :: int where "cmd_timeout \<equiv> 10000"

definition timeout_text :: "string \<Rightarrow> string \<Rightarrow> string" where
  "timeout_text name cmd =
     name @ '': '' @ [quote] @ cmd @ [quote] @ '' Timed out after '' @ dec_int cmd_timeout @ ''ms.''"

definition protocol_error :: "int \<Rightarrow> string option \<Rightarrow> string" where
  "protocol_error code line =
     ''protocol error: '' @ dec_int code @ (case line of None \<Rightarrow> '''' | Some l \<Rightarrow> '' '' @ l)"

definition free_cmd :: "addr \<Rightarrow> 'f pdc_session \<Rightarrow> 'f pdc_session cres" where
  "free_cmd a c = cbind (release (cmds c) a) (\<lambda>h. Inr (c\<lparr> cmds := h \<rparr>))"

text \<open>The command is registered with tag 0 and sent.\<close>

definition cmd_begin :: "client_env \<Rightarrow> int \<Rightarrow> string \<Rightarrow> 'f pdc_session \<Rightarrow> (addr option \<times> string option \<times> 'f pdc_session) cres" where
  "cmd_begin env desired cmd c =
     (let (got, c1) = got_mem c in
      if \<not> got then Inr (None, Some (es env), c1) else
      let a = pdc_brk c1;
          c2 = c1\<lparr> pdc_brk := a + 1,
                   cmds := (cmds c1)(a \<mapsto> \<lparr> grcba_code = -1, grcba_desired = desired, grcba_line = None \<rparr>) \<rparr>
      in cbind (add_pending \<lparr> r_tag = 0, r_notify = Getresult_Cb a \<rparr> c2) (\<lambda>(res, c3).
         if \<not> res then cbind (free_cmd a c3) (\<lambda>c4. Inr (None, Some ''result replacement failure'', c4)) else
         let (written, c4) = pdcs_write cmd c3 in
         if written then Inr (Some a, None, c4)
         else cbind (remove_pending 0 c4) (\<lambda>(_, c5).
              cbind (free_cmd a c5) (\<lambda>c6. Inr (None, Some (write_error env), c6)))))"

definition cmd_timed_out :: "string \<Rightarrow> addr \<Rightarrow> 'f pdc_session \<Rightarrow> (bool \<times> string option \<times> 'f pdc_session) cres" where
  "cmd_timed_out cmd a c =
     cbind (remove_pending 0 c) (\<lambda>(_, c1).
     cbind (free_cmd a c1) (\<lambda>c2. Inr (False, Some (timeout_text ''cmd'' cmd), c2)))"

definition cmd_end :: "addr \<Rightarrow> 'f pdc_session \<Rightarrow> (bool \<times> string option \<times> 'f pdc_session) cres" where
  "cmd_end a c =
     cbind (deref (cmds c) a) (\<lambda>g.
     cbind (free_cmd a c) (\<lambda>c1.
     if grcba_code g \<noteq> grcba_desired g
     then Inr (False, Some (protocol_error (grcba_code g) (grcba_line g)), c1)
     else Inr (True, None, c1)))"

fun cmd_loop :: "string \<Rightarrow> addr \<Rightarrow> 'f wake list \<Rightarrow> 'f pdc_session \<Rightarrow> 'f cmd_result" where
  "cmd_loop cmd a [] c =
     obind (Some (deref (cmds c) a)) (\<lambda>g. if grcba_code g = -1 then None else Some (cmd_end a c))"
| "cmd_loop cmd a (w # wakes) c =
     obind (Some (deref (cmds c) a)) (\<lambda>g.
     if grcba_code g \<noteq> -1 then Some (cmd_end a c)
     else obind (Some (fst w c)) (\<lambda>c1.
          if snd w then Some (cmd_timed_out cmd a c1) else cmd_loop cmd a wakes c1))"

definition cmd :: "client_env \<Rightarrow> int \<Rightarrow> string \<Rightarrow> 'f wake list \<Rightarrow> 'f pdc_session \<Rightarrow> 'f cmd_result" where
  "cmd env desired text wakes c =
     obind (Some (cmd_begin env desired text c)) (\<lambda>(a, err, c1).
     case a of None \<Rightarrow> Some (Inr (False, err, c1)) | Some p \<Rightarrow> cmd_loop text p wakes c1)"

text \<open>
  \<open>jcmd\<close> collects the lines of the reply; the buffer has \<open>replylen\<close> bytes, or is NULL. The
  result has the buffer that the caller's pointer leads to at the end: after a time-out it
  is not updated, and leads nowhere when the buffer has been moved.
\<close>

type_synonym 'f jcmd_end = "(bool \<times> string option \<times> char option list option cres \<times> 'f pdc_session) cres"

definition free_jcmd :: "addr \<Rightarrow> 'f pdc_session \<Rightarrow> 'f pdc_session cres" where
  "free_jcmd a c = cbind (release (jcmds c) a) (\<lambda>h. Inr (c\<lparr> jcmds := h \<rparr>))"

definition jcmd_begin :: "client_env \<Rightarrow> string \<Rightarrow> bool \<Rightarrow> int \<Rightarrow> 'f pdc_session \<Rightarrow> (addr option \<times> string option \<times> 'f pdc_session) cres" where
  "jcmd_begin env text has_buf replylen c =
     (let (got, c1) = got_mem c in
      if \<not> got then Inr (None, Some (es env), c1) else
      let a = pdc_brk c1;
          c2 = c1\<lparr> pdc_brk := a + 1,
                   jcmds := (jcmds c1)(a \<mapsto> \<lparr> jgrcba_code = -1, jgrcba_reply = (if has_buf then Some [] else None),
                                              jgrcba_reply_len = replylen, jgrcba_moved = False \<rparr>) \<rparr>
      in cbind (add_pending \<lparr> r_tag = 0, r_notify = Jgetresult_Cb a \<rparr> c2) (\<lambda>(res, c3).
         if \<not> res then cbind (free_jcmd a c3) (\<lambda>c4. Inr (None, Some ''result replacement failure'', c4)) else
         let (written, c4) = pdcs_write text c3 in
         if written then Inr (Some a, None, c4)
         else cbind (remove_pending 0 c4) (\<lambda>(_, c5).
              cbind (free_jcmd a c5) (\<lambda>c6. Inr (None, Some (write_error env), c6)))))"

definition jcmd_timed_out :: "string \<Rightarrow> addr \<Rightarrow> 'f pdc_session \<Rightarrow> 'f jcmd_end" where
  "jcmd_timed_out text a c =
     cbind (remove_pending 0 c) (\<lambda>(_, c1).
     cbind (deref (jcmds c1) a) (\<lambda>g.
     cbind (free_jcmd a c1) (\<lambda>c2.
     Inr (False, Some (timeout_text ''jcmd'' text), if jgrcba_moved g then Inl Bad_Pointer else Inr (jgrcba_reply g), c2))))"

text \<open>
  The bytes of a buffer up to the first that ends the search; reading on to a byte that has
  not been written is a fault.
\<close>

fun buffer_until :: "(char \<Rightarrow> bool) \<Rightarrow> char option list \<Rightarrow> string cres" where
  "buffer_until P [] = Inl Out_Of_Bounds"
| "buffer_until P (b # bs) =
     (case b of
        None \<Rightarrow> Inl Out_Of_Bounds
      | Some x \<Rightarrow> if P x then Inr [] else cbind (buffer_until P bs) (\<lambda>t. Inr (x # t)))"

definition jcmd_finish :: "addr \<Rightarrow> int \<Rightarrow> 'f pdc_session \<Rightarrow> 'f jcmd_end" where
  "jcmd_finish a desired c =
     cbind (deref (jcmds c) a) (\<lambda>g.
     cbind (if jgrcba_code g = desired then Inr None
            else case jgrcba_reply g of
                   None \<Rightarrow> Inr (Some (protocol_error (jgrcba_code g) None))
                 | Some b \<Rightarrow> cbind (buffer_until (\<lambda>x. x = NUL) b) (\<lambda>t. Inr (Some (protocol_error (jgrcba_code g) (Some t))))) (\<lambda>err.
     cbind (free_jcmd a c) (\<lambda>c1. Inr (jgrcba_code g = desired, err, Inr (jgrcba_reply g), c1))))"

fun jcmd_loop :: "string \<Rightarrow> int \<Rightarrow> addr \<Rightarrow> 'f wake list \<Rightarrow> 'f pdc_session \<Rightarrow> 'f jcmd_end option" where
  "jcmd_loop text desired a [] c =
     obind (Some (deref (jcmds c) a)) (\<lambda>g. if jgrcba_code g = -1 then None else Some (jcmd_finish a desired c))"
| "jcmd_loop text desired a (w # wakes) c =
     obind (Some (deref (jcmds c) a)) (\<lambda>g.
     if jgrcba_code g \<noteq> -1 then Some (jcmd_finish a desired c)
     else obind (Some (fst w c)) (\<lambda>c1.
          if snd w then Some (jcmd_timed_out text a c1) else jcmd_loop text desired a wakes c1))"

definition jcmd :: "client_env \<Rightarrow> string \<Rightarrow> int \<Rightarrow> bool \<Rightarrow> int \<Rightarrow> 'f wake list \<Rightarrow> 'f pdc_session \<Rightarrow> 'f jcmd_end option" where
  "jcmd env text desired has_buf replylen wakes c =
     obind (Some (jcmd_begin env text has_buf replylen c)) (\<lambda>(a, err, c1).
     case a of None \<Rightarrow> Some (Inr (False, err, Inr (if has_buf then Some [] else None), c1)) | Some p \<Rightarrow> jcmd_loop text desired p wakes c1)"

section \<open>The operations\<close>

text \<open>A text that is formatted into allocated memory, and a command with it.\<close>

definition with_text :: "client_env \<Rightarrow> int \<Rightarrow> string \<Rightarrow> 'f wake list \<Rightarrow> 'f pdc_session \<Rightarrow> 'f cmd_result" where
  "with_text env desired text wakes c =
     (let (got, c1) = got_mem c in
      if \<not> got then Some (Inr (False, Some (es env), c1)) else cmd env desired text wakes c1)"

definition async_with_text :: "client_env \<Rightarrow> int \<Rightarrow> string \<Rightarrow> 'f option \<Rightarrow> addr \<Rightarrow> 'f pdc_session \<Rightarrow> 'f pdc_session cres" where
  "async_with_text env desired text err arg c =
     (let (got, c1) = got_mem c in
      if \<not> got then Inr (call_error err arg (es env) c1) else async_cmd env desired text err arg c1)"

definition listen_text :: "string \<Rightarrow> int \<Rightarrow> string" where
  "listen_text pattern k = ''listen '' @ [quote] @ pattern @ [quote] @ '' lid'' @ dec_int k @ [newline]"

text \<open>
  The listener is known before the command is sent, and stays when it fails. The result is
  its identifier or 0.
\<close>

definition pdc_listen :: "client_env \<Rightarrow> string \<Rightarrow> 'f option \<Rightarrow> addr \<Rightarrow> 'f wake list \<Rightarrow> 'f pdc_session
    \<Rightarrow> (int \<times> string option \<times> 'f pdc_session) run" where
  "pdc_listen env pattern cb arg wakes c =
     (let (got, c1) = got_mem c in
      if \<not> got then Some (Inr (0, Some (es env), c1)) else
      let k = listen_lid c1; (got2, c2) = got_mem (c1\<lparr> listen_lid := int32 (k + 1) \<rparr>) in
      if \<not> got2 then Some (Inr (0, Some (es env), c2)) else
      obind (Some (tr_replace (\<lambda>x y. Inr (lcmp x y)) \<lparr> l_id = k, l_cb = cb, l_arg = arg \<rparr> (pdc_mem c2) (pdcs_listeners c2)))
        (\<lambda>(res, _, t, mem).
        let c3 = c2\<lparr> pdc_mem := mem, pdcs_listeners := t \<rparr> in
        if \<not> res then Some (Inr (0, Some (es env), c3))
        else obind (cmd env 200 (listen_text pattern k) wakes c3) (\<lambda>(done_all, err, c4).
             Some (Inr (if done_all then k else 0, err, c4)))))"

definition report_text :: "int \<Rightarrow> string" where
  "report_text periodms = ''report '' @ dec_int periodms @ '' report'' @ [newline]"

definition pdc_enable_periodic_reports :: "client_env \<Rightarrow> int \<Rightarrow> 'f wake list \<Rightarrow> 'f pdc_session \<Rightarrow> 'f cmd_result" where
  "pdc_enable_periodic_reports env periodms wakes c =
     (if periodms \<le> 0 then Some (Inr (False, Some ''invalid period'', c))
      else with_text env 200 (report_text periodms) wakes c)"

definition pdc_disable_periodic_reports :: "client_env \<Rightarrow> 'f wake list \<Rightarrow> 'f pdc_session \<Rightarrow> 'f cmd_result" where
  "pdc_disable_periodic_reports env wakes c = cmd env 200 (''report 0 report'' @ [newline]) wakes c"

definition pdc_flush :: "client_env \<Rightarrow> 'f wake list \<Rightarrow> 'f pdc_session \<Rightarrow> 'f cmd_result" where
  "pdc_flush env wakes c = cmd env 200 (''flush'' @ [newline]) wakes c"

definition ignore_text :: "int \<Rightarrow> string" where
  "ignore_text k = ''ignore lid'' @ dec_int k @ [newline]"

definition pdc_ignore :: "client_env \<Rightarrow> int \<Rightarrow> 'f wake list \<Rightarrow> 'f pdc_session \<Rightarrow> 'f cmd_result" where
  "pdc_ignore env k wakes c = with_text env 200 (ignore_text k) wakes c"

definition pdc_quit :: "client_env \<Rightarrow> 'f wake list \<Rightarrow> 'f pdc_session \<Rightarrow> 'f cmd_result" where
  "pdc_quit env wakes c = cmd env 200 (''quit'' @ [newline]) wakes c"

definition remove_text :: "string \<Rightarrow> string" where
  "remove_text pattern = ''remove '' @ pattern @ [newline]"

definition pdc_remove :: "client_env \<Rightarrow> string \<Rightarrow> 'f wake list \<Rightarrow> 'f pdc_session \<Rightarrow> 'f cmd_result" where
  "pdc_remove env pattern wakes c = with_text env 200 (remove_text pattern) wakes c"

definition pdc_async_enable_periodic_reports :: "client_env \<Rightarrow> int \<Rightarrow> 'f option \<Rightarrow> addr \<Rightarrow> 'f pdc_session \<Rightarrow> 'f pdc_session cres" where
  "pdc_async_enable_periodic_reports env periodms err arg c =
     (if periodms \<le> 0 then Inr (call_error err arg ''invalid period'' c)
      else async_with_text env 200 (report_text periodms) err arg c)"

definition pdc_async_disable_periodic_reports :: "client_env \<Rightarrow> 'f option \<Rightarrow> addr \<Rightarrow> 'f pdc_session \<Rightarrow> 'f pdc_session cres" where
  "pdc_async_disable_periodic_reports env err arg c = async_cmd env 200 (''report 0 report'' @ [newline]) err arg c"

definition set_text :: "string \<Rightarrow> string \<Rightarrow> bool \<Rightarrow> string" where
  "set_text key escval remove_on_close =
     ''set '' @ key @ ''='' @ [quote] @ escval @ [quote] @ (if remove_on_close then '' for session'' else '''') @ [newline]"

text \<open>An empty value is sent as the byte 1.\<close>

definition pdc_async_set :: "client_env \<Rightarrow> string \<Rightarrow> string \<Rightarrow> nat \<Rightarrow> bool \<Rightarrow> 'f option \<Rightarrow> addr
    \<Rightarrow> 'f pdc_session \<Rightarrow> 'f pdc_session cres" where
  "pdc_async_set env key val len remove_on_close err arg c =
     cbind (escape (pdc_mem c) (if val = [] then [CHR 0x01] else val) len) (\<lambda>(escval, mem).
     let c1 = c\<lparr> pdc_mem := mem \<rparr> in
     case escval of
       None \<Rightarrow> Inr (call_error err arg (es env) c1)
     | Some e \<Rightarrow> async_with_text env 200 (set_text key (c_str e) remove_on_close) err arg c1)"

definition pdc_async_ignore :: "client_env \<Rightarrow> int \<Rightarrow> 'f option \<Rightarrow> addr \<Rightarrow> 'f pdc_session \<Rightarrow> 'f pdc_session cres" where
  "pdc_async_ignore env k err arg c = async_with_text env 200 (ignore_text k) err arg c"

definition pdc_async_remove :: "client_env \<Rightarrow> string \<Rightarrow> 'f option \<Rightarrow> addr \<Rightarrow> 'f pdc_session \<Rightarrow> 'f pdc_session cres" where
  "pdc_async_remove env pattern err arg c = async_with_text env 200 (remove_text pattern) err arg c"

definition pdc_async_authorize :: "client_env \<Rightarrow> string \<Rightarrow> string option \<Rightarrow> 'f option \<Rightarrow> 'f option \<Rightarrow> addr
    \<Rightarrow> 'f pdc_session \<Rightarrow> 'f pdc_session cres" where
  "pdc_async_authorize env version password success err arg c =
     (let (got, c1) = got_mem c in
      if \<not> got then Inr (call_error err arg (es env) c1) else
      let (got2, c2) = got_mem c1 in
      if \<not> got2 then Inr (call_error err arg (es env) c2)
      else async_cmd_callback env (''995 authenticate, version='' @ version @ [newline])
             (Async_Auth_Cb success err arg password) err arg c2)"

section \<open>Getting a value\<close>

text \<open>What \<open>pdc_get\<close> takes out of the first line of the reply: the text behind the word value.\<close>

definition get_value :: "string \<Rightarrow> string option" where
  "get_value reply = map_option (drop 6) (strstr reply ''value '')"

text \<open>
  The result is 0, 1, or 2 when there is no such key, and the new content of the caller's
  buffer of \<open>vallen\<close> bytes when it is written.
\<close>

definition pdc_get :: "client_env \<Rightarrow> string \<Rightarrow> nat \<Rightarrow> 'f wake list \<Rightarrow> 'f pdc_session
    \<Rightarrow> (int \<times> string option \<times> string option \<times> 'f pdc_session) run" where
  "pdc_get env key vallen wakes c =
     (let (has_buf, c1) = got_mem c; (got, c2) = got_mem c1 in
      if \<not> got then Some (Inr (0, None, Some (es env), c2)) else
      obind (jcmd env (''get '' @ key @ [newline]) 200 has_buf (int vallen + 30) wakes c2) (\<lambda>(res, err, buf, c3).
      obind (Some buf) (\<lambda>results.
      if \<not> res then Some (Inr (0, None, err, c3)) else
      obind (Some (case results of None \<Rightarrow> Inl Bad_Pointer | Some b \<Rightarrow> buffer_until is_eol b)) (\<lambda>reply.
      if vallen = 0 then Some (Inl Out_Of_Bounds) else
      case get_value reply of
        None \<Rightarrow> Some (Inr (2, Some [], err, c3))
      | Some v \<Rightarrow>
          obind (Some (unescape (pdc_mem c3) v)) (\<lambda>(ueval, mem).
          let c4 = c3\<lparr> pdc_mem := mem \<rparr> in
          case ueval of
            None \<Rightarrow> Some (Inr (0, Some [], err, c4))
          | Some u \<Rightarrow> Some (Inr (1, Some (take (vallen - 1) (c_str u)), err, c4)))))))"

text \<open>The pointer handed on is the content of an array that has never been written.\<close>

definition pdc_get_server_session_id :: "client_env \<Rightarrow> 'f pdc_session \<Rightarrow> (int \<times> string option \<times> 'f pdc_session) cres" where
  "pdc_get_server_session_id env c =
     (let (got, c1) = got_mem c in
      if \<not> got then Inr (0, Some (es env), c1) else
      let (got2, c2) = got_mem c1 in
      if \<not> got2 then Inr (0, Some (es env), c2) else Inl Bad_Pointer)"

section \<open>Leaving\<close>

text \<open>The comparison for an argument of a command never goes right.\<close>

definition of_arg :: "addr \<Rightarrow> 'f result_t \<Rightarrow> bool" where
  "of_arg arg r = (case r_notify r of Async_Cmd_Cb _ _ a \<Rightarrow> a = arg | _ \<Rightarrow> False)"

definition async_pending_cmp :: "addr \<Rightarrow> 'f result_t \<Rightarrow> int" where
  "async_pending_cmp arg r = (if of_arg arg r then 0 else -1)"

definition arg_pending :: "addr \<Rightarrow> 'f pdc_session \<Rightarrow> bool cres" where
  "arg_pending arg c =
     cbind (tr_find (\<lambda>_ r. Inr (async_pending_cmp arg r)) (tag_key 0) (pdcs_pending c)) (\<lambda>found. Inr (found \<noteq> None))"

definition clean_pending_async :: "client_env \<Rightarrow> addr \<Rightarrow> 'f pdc_session \<Rightarrow> 'f pdc_session cres" where
  "clean_pending_async env arg c =
     finish_all env (filter (of_arg arg) (postorder (pdcs_pending c)))
       (c\<lparr> pdcs_pending := tr_prune (\<lambda>r. \<not> of_arg arg r) (pdcs_pending c) \<rparr>)"

text \<open>50 waits of 10 ms; the list says what the other threads do in each.\<close>

fun wait_while :: "('f pdc_session \<Rightarrow> bool cres) \<Rightarrow> ('f pdc_session \<Rightarrow> 'f pdc_session cres) list
    \<Rightarrow> nat \<Rightarrow> 'f pdc_session \<Rightarrow> (nat \<times> 'f pdc_session) run" where
  "wait_while P [] n c =
     obind (Some (P c)) (\<lambda>more. if \<not> more \<or> n = 0 then Some (Inr (n, c)) else None)"
| "wait_while P (w # ws) n c =
     obind (Some (P c)) (\<lambda>more.
     if \<not> more \<or> n = 0 then Some (Inr (n, c))
     else obind (Some (w c)) (wait_while P ws (n - 1)))"

definition cleanup_pending :: "client_env \<Rightarrow> addr \<Rightarrow> ('f pdc_session \<Rightarrow> 'f pdc_session cres) list
    \<Rightarrow> 'f pdc_session \<Rightarrow> 'f pdc_session run" where
  "cleanup_pending env arg ws c =
     obind (wait_while (arg_pending arg) ws 50 c) (\<lambda>(left, c1).
     Some (if left = 0 then clean_pending_async env arg c1 else Inr c1))"

definition wait_pending :: "('f pdc_session \<Rightarrow> 'f pdc_session cres) list \<Rightarrow> 'f pdc_session \<Rightarrow> 'f pdc_session run" where
  "wait_pending ws c =
     obind (wait_while (\<lambda>c. Inr (pdcs_pending c \<noteq> Leaf)) ws 50 c) (\<lambda>(_, c1). Some (Inr c1))"

text \<open>
  \<open>malloc\<close>, the two mutexes and the thread can each fail. A session starts with the counters
  that all sessions share.
\<close>

definition new_session :: "memory \<Rightarrow> int \<Rightarrow> int \<Rightarrow> 'f pdc_session" where
  "new_session mem tag lid1 =
     \<lparr> pdcs_listeners = Leaf, pdcs_pending = Leaf, pdcs_resultreader = True, cmds = Map.empty, jcmds = Map.empty,
       async_tag = tag, listen_lid = lid1, pdc_mem = mem, pdc_brk = 1, pdc_writes = [], pdc_sent = [], calls = [],
       taken = None, to_signal = None, reader_done = False \<rparr>"

definition pdc_session_alloc :: "memory \<Rightarrow> int \<Rightarrow> int \<Rightarrow> 'f pdc_session option" where
  "pdc_session_alloc mem tag lid1 =
     (let (got, mem1) = alloc mem; (locked, mem2) = alloc mem1; (locked2, mem3) = alloc mem2; (started, mem4) = alloc mem3 in
      if got \<and> locked \<and> locked2 \<and> started then Some (new_session mem4 tag lid1) else None)"

text \<open>Joining ends when the reader has; \<open>None\<close> is the result until then.\<close>

definition pdc_readthread_join :: "'f pdc_session \<Rightarrow> 'f pdc_session option" where
  "pdc_readthread_join c =
     (if pdcs_resultreader c \<and> \<not> reader_done c then None else Some (c\<lparr> pdcs_resultreader := False \<rparr>))"

end
