(* ===== verification/ClientProps.thy ===== *)
theory ClientProps
  imports PDictClient ServerProps
begin

text \<open>
  Properties of the dictionary client: how it matches replies to commands, what a report
  does to it, and what the client and the server of theory \<open>PDictSession\<close> do together.
\<close>

section \<open>Pending commands\<close>

lemma int32_zero:
  assumes "int32 (i - j) = 0" and "- (2 ^ 31) \<le> i" and "i < 2 ^ 31" and "0 \<le> j" and "j < 2 ^ 31"
  shows "i = j"
proof -
  have "(i - j + 2147483648) mod 4294967296 = 2147483648" using assms(1) by (simp add: int32_def)
  moreover have "- 2147483648 \<le> i" "i < 2147483648" "0 \<le> j" "j < 2147483648" using assms(2-) by simp_all
  moreover define q where "q = (i - j + 2147483648) div 4294967296"
  ultimately have "i - j = 4294967296 * q" "- 4294967296 < i - j" "i - j < 4294967296"
    using mult_div_mod_eq [of 4294967296 "i - j + 2147483648"] by linarith+
  then have "q = 0" by linarith
  with \<open>i - j = 4294967296 * q\<close> show ?thesis by simp
qed

lemma find_SomeD: "find P xs = Some x \<Longrightarrow> x \<in> set xs \<and> P x"
  by (induction xs) (auto split: if_splits)

definition tag_ok :: "'f result_t \<Rightarrow> bool" where
  "tag_ok r \<longleftrightarrow> 0 \<le> r_tag r \<and> r_tag r < 2 ^ 31"

definition lid_ok :: "'f listener \<Rightarrow> bool" where
  "lid_ok l \<longleftrightarrow> 0 \<le> l_id l \<and> l_id l < 2 ^ 31"

interpretation tags: key_compare tagcmp r_tag tag_ok
  by unfold_locales (simp_all add: tag_ok_def tagcmp_def int32_id)

interpretation lids: key_compare lcmp l_id lid_ok
  by unfold_locales (simp_all add: lid_ok_def lcmp_def int32_id)

context key_compare
begin

lemma tr_del_key:
  assumes "okv v" and "\<forall>x \<in> set (inorder t). okv x \<and> fc v x = Inr (cmp v x)" and "key_sorted key (inorder t)"
  shows "\<exists>t'. tr_del fc v t = Inr t' \<and> inorder t' = filter (\<lambda>x. key x \<noteq> key v) (inorder t)"
  using assms(2,3)
proof (induction t)
  case (Node l x r)
  have x: "okv x" "fc v x = Inr (cmp v x)" using Node.prems(1) by auto
  obtain l' where l: "tr_del fc v l = Inr l'" "inorder l' = filter (\<lambda>x. key x \<noteq> key v) (inorder l)"
    using Node by auto
  obtain r' where r: "tr_del fc v r = Inr r'" "inorder r' = filter (\<lambda>x. key x \<noteq> key v) (inorder r)"
    using Node by auto
  have ord: "\<forall>y \<in> set (inorder l). key y < key x" "\<forall>y \<in> set (inorder r). key x < key y"
    using Node.prems(2) by auto
  note z = cmp_zero [OF assms(1) x(1)] and n = cmp_neg [OF assms(1) x(1)]
  have keep: "filter (\<lambda>y. key y \<noteq> key v) ys = ys" if "\<forall>y \<in> set ys. key y \<noteq> key v" for ys
    using that by (simp add: filter_id_conv)
  consider "key v = key x" | "key v < key x" | "key x < key v" by (rule linorder_cases) auto
  then show ?case
  proof cases
    case 1
    then have "filter (\<lambda>y. key y \<noteq> key v) (inorder l) = inorder l" "filter (\<lambda>y. key y \<noteq> key v) (inorder r) = inorder r"
      using ord by (intro keep; force)+
    with 1 x z show ?thesis by (simp add: inorder_join)
  next
    case 2
    then have "filter (\<lambda>y. key y \<noteq> key v) (inorder r) = inorder r" using ord by (intro keep) force
    with 2 x z n l show ?thesis by auto
  next
    case 3
    then have "filter (\<lambda>y. key y \<noteq> key v) (inorder l) = inorder l" using ord by (intro keep) force
    with 3 x z n r show ?thesis by auto
  qed
qed simp

end

lemma tr_find_total: "\<exists>found. tr_find (\<lambda>x y. Inr (cmp x y)) v t = Inr found
    \<and> (\<forall>x. found = Some x \<longrightarrow> x \<in> set (inorder t) \<and> cmp v x = 0)"
  by (induction t) auto

definition tree_ok :: "'f result_t tree \<Rightarrow> bool" where
  "tree_ok t \<longleftrightarrow> key_sorted r_tag (inorder t) \<and> (\<forall>r \<in> set (inorder t). tag_ok r)"

definition int_range :: "int \<Rightarrow> bool" where
  "int_range i \<longleftrightarrow> - (2 ^ 31) \<le> i \<and> i < 2 ^ 31"

lemma find_pending_result:
  assumes "tree_ok (pdcs_pending c)" and "int_range tag"
  shows "find_pending tag c = Inr (find (\<lambda>r. r_tag r = tag) (inorder (pdcs_pending c)))"
proof (cases "0 \<le> tag")
  case True
  then have "tag_ok (tag_key tag)" using assms(2) by (simp add: tag_ok_def tag_key_def int_range_def)
  then show ?thesis
    using tags.tr_find_key [of "tag_key tag" "pdcs_pending c" "\<lambda>x y. Inr (tagcmp x y)"] assms(1)
    by (simp add: find_pending_def tree_ok_def tag_key_def)
next
  case False
  have no: "\<forall>r \<in> set (inorder (pdcs_pending c)). r_tag r \<noteq> tag"
    using assms(1) False by (auto simp: tree_ok_def tag_ok_def)
  obtain found where f: "find_pending tag c = Inr found"
      "\<forall>x. found = Some x \<longrightarrow> x \<in> set (inorder (pdcs_pending c)) \<and> tagcmp (tag_key tag) x = 0"
    using tr_find_total [of tagcmp "tag_key tag" "pdcs_pending c"] by (auto simp: find_pending_def)
  have "found = None"
  proof (rule ccontr)
    assume "found \<noteq> None"
    then obtain r where r: "r \<in> set (inorder (pdcs_pending c))" "int32 (tag - r_tag r) = 0"
      using f(2) by (auto simp: tagcmp_def tag_key_def)
    then have "tag = r_tag r"
      using int32_zero assms by (auto simp: tree_ok_def tag_ok_def int_range_def)
    with no r(1) show False by blast
  qed
  with f(1) no show ?thesis by (simp add: find_None_iff [THEN iffD2])
qed

lemma remove_pending_result:
  assumes "tree_ok (pdcs_pending c)" and "int_range tag"
  obtains t where "remove_pending tag c =
      Inr (find (\<lambda>r. r_tag r = tag) (inorder (pdcs_pending c)), c\<lparr> pdcs_pending := t \<rparr>)"
    and "inorder t = filter (\<lambda>r. r_tag r \<noteq> tag) (inorder (pdcs_pending c))" and "tree_ok t"
proof (cases "find (\<lambda>r. r_tag r = tag) (inorder (pdcs_pending c))")
  case None
  then have "filter (\<lambda>r. r_tag r \<noteq> tag) (inorder (pdcs_pending c)) = inorder (pdcs_pending c)"
    by (simp add: find_None_iff filter_id_conv)
  then show thesis
    using None that [of "pdcs_pending c"] assms by (simp add: remove_pending_def find_pending_result)
next
  case (Some r)
  then have r: "r \<in> set (inorder (pdcs_pending c))" "r_tag r = tag"
    using find_SomeD [of _ "inorder (pdcs_pending c)" r] by auto
  then have k: "tag_ok (tag_key tag)" using assms(1) by (auto simp: tree_ok_def tag_ok_def tag_key_def)
  obtain t where t: "tr_del (\<lambda>x y. Inr (tagcmp x y)) (tag_key tag) (pdcs_pending c) = Inr t"
      "inorder t = filter (\<lambda>r. r_tag r \<noteq> tag) (inorder (pdcs_pending c))"
    using tags.tr_del_key [OF k, of "pdcs_pending c" "\<lambda>x y. Inr (tagcmp x y)"] assms(1)
    by (auto simp: tree_ok_def tag_key_def)
  have "tree_ok t" using assms(1) by (auto simp: tree_ok_def t(2) key_sorted_def intro: sorted_wrt_filter)
  with that [of t] Some t show thesis using assms by (simp add: remove_pending_def find_pending_result)
qed

lemma add_pending_result:
  assumes "tree_ok (pdcs_pending c)" and "tag_ok r"
  shows "add_pending r c =
      (if \<exists>x \<in> set (inorder (pdcs_pending c)). r_tag x = r_tag r then Inl Assert_Failed
       else add_pending r c)"
    and "\<forall>x \<in> set (inorder (pdcs_pending c)). r_tag x \<noteq> r_tag r \<Longrightarrow>
      \<exists>t. add_pending r c = Inr (fst (alloc (pdc_mem c)),
             c\<lparr> pdc_mem := snd (alloc (pdc_mem c)), pdcs_pending := if fst (alloc (pdc_mem c)) then t else pdcs_pending c \<rparr>)
         \<and> tree_ok t \<and> set (inorder t) = insert r (set (inorder (pdcs_pending c)))"
proof -
  have f: "tr_find (\<lambda>x y. Inr (tagcmp x y)) r (pdcs_pending c) =
      Inr (find (\<lambda>x. r_tag x = r_tag r) (inorder (pdcs_pending c)))"
    using tags.tr_find_key [OF assms(2), of "pdcs_pending c" "\<lambda>x y. Inr (tagcmp x y)"] assms(1)
    by (simp add: tree_ok_def)
  obtain t where t: "tr_put (\<lambda>x y. Inr (tagcmp x y)) r (pdcs_pending c) = Inr t" "key_sorted r_tag (inorder t)"
      "set (inorder t) = insert r {x \<in> set (inorder (pdcs_pending c)). r_tag x \<noteq> r_tag r}"
    using tags.tr_put_key [OF assms(2), of "pdcs_pending c" "\<lambda>x y. Inr (tagcmp x y)"] assms(1)
    by (auto simp: tree_ok_def)
  have ok: "tree_ok t" using t assms by (auto simp: tree_ok_def)
  show "add_pending r c =
      (if \<exists>x \<in> set (inorder (pdcs_pending c)). r_tag x = r_tag r then Inl Assert_Failed else add_pending r c)"
  proof (cases "find (\<lambda>x. r_tag x = r_tag r) (inorder (pdcs_pending c))")
    case None
    then show ?thesis by (auto simp: find_None_iff)
  next
    case (Some x)
    with f t(1) show ?thesis by (simp add: add_pending_def tr_replace_def)
  qed
  assume no: "\<forall>x \<in> set (inorder (pdcs_pending c)). r_tag x \<noteq> r_tag r"
  then have n: "find (\<lambda>x. r_tag x = r_tag r) (inorder (pdcs_pending c)) = None" by (simp add: find_None_iff)
  have s: "set (inorder t) = insert r (set (inorder (pdcs_pending c)))" using t(3) no by auto
  obtain got mem' where a: "alloc (pdc_mem c) = (got, mem')" by (cases "alloc (pdc_mem c)")
  show "\<exists>t. add_pending r c = Inr (fst (alloc (pdc_mem c)),
             c\<lparr> pdc_mem := snd (alloc (pdc_mem c)), pdcs_pending := if fst (alloc (pdc_mem c)) then t else pdcs_pending c \<rparr>)
         \<and> tree_ok t \<and> set (inorder t) = insert r (set (inorder (pdcs_pending c)))"
    using f t(1) n ok s a by (intro exI [of _ t]) (cases got; simp add: add_pending_def tr_replace_def)
qed

section \<open>Reports\<close>

lemma strchr_at_none: "ch \<notin> set s \<Longrightarrow> strchr_at ch s = None"
  by (auto simp: strchr_at_def c_str_def dest: set_takeWhileD)

lemma strchr_at_first:
  assumes "ch \<notin> set a" and "nul_free a" and "ch \<noteq> NUL"
  shows "strchr_at ch (a @ ch # b) = Some (length a)"
proof -
  have n: "NUL \<notin> set a" using assms(2) by (simp add: nul_free_def)
  then have "c_str (a @ ch # b) = a @ ch # c_str b"
    using assms(3) by (simp add: c_str_def takeWhile_append)
  moreover have "takeWhile (\<lambda>d. d \<noteq> ch) (a @ ch # c_str b) = a"
    using assms(1) by (auto simp: takeWhile_append)
  ultimately show ?thesis by (simp add: strchr_at_def)
qed

text \<open>The three shapes of a line, and what becomes of the value.\<close>

lemma quoted_value_none: "quote \<notin> set a \<Longrightarrow> quoted_value a c = (Null_Val, a, c)"
  by (simp add: quoted_value_def strchr_at_none)

lemma quoted_value_one:
  "quote \<notin> set a \<Longrightarrow> quote \<notin> set b \<Longrightarrow> nul_free a \<Longrightarrow>
   quoted_value (a @ quote # b) c = (In_Line (length a + 1), a @ quote # b, c)"
  using strchr_at_first [of quote a b] strchr_at_none [of quote b] by (simp add: quoted_value_def)

lemma quoted_value_two:
  assumes "quote \<notin> set a" and "quote \<notin> set v" and "nul_free a" and "nul_free v"
  shows "quoted_value (a @ quote # v @ quote # d) c =
     (if strchr_at quote d \<noteq> None
      then (In_Line (length a + 1), a @ quote # v @ NUL # d, c)
      else let (got, c1) = got_mem c in
        if \<not> got then (Null_Val, a @ quote # v @ quote # d, c1)
        else (Val_Copy v, a @ quote # quote # d, c1))"
  using strchr_at_first [of quote a "v @ quote # d"] strchr_at_first [of quote v d] assms
  by (simp add: quoted_value_def Let_def list_update_append split: prod.split)

lemma handle_report_two:
  assumes "quote \<notin> set a" and "quote \<notin> set v" and "nul_free a" and "nul_free v"
  shows "handle_report env (a @ quote # v @ quote # d) c =
     (if strchr_at quote d \<noteq> None then Inl Bad_Pointer
      else let (got, c1) = got_mem c in
        if \<not> got then Inr c1
        else (case pendingex env (a @ quote # quote # d) of
                None \<Rightarrow> Inr c1 | Some pm \<Rightarrow> deliver_report (a @ quote # quote # d) pm v c1))"
  by (simp add: handle_report_def quoted_value_two [OF assms] free_val_def cbind_Inr_right Let_def split: prod.split option.split)

lemma handle_report_one:
  "quote \<notin> set a \<Longrightarrow> quote \<notin> set b \<Longrightarrow> nul_free a \<Longrightarrow> handle_report env (a @ quote # b) c = Inl Bad_Pointer"
  by (simp add: handle_report_def quoted_value_one free_val_def)

lemma handle_report_none: "quote \<notin> set a \<Longrightarrow> handle_report env a c = Inr c"
  by (simp add: handle_report_def quoted_value_none free_val_def)

lemma unescape_loop_fault: "unescape_loop s = Inl e \<Longrightarrow> e = Out_Of_Bounds"
  by (induction s arbitrary: e rule: unescape_loop.induct)
     (auto simp: str_at_def split: if_splits sum.splits)

lemma unescape_fault: "unescape m s = Inl e \<Longrightarrow> e = Out_Of_Bounds"
  by (auto simp: unescape_def store_def split: prod.splits bool.splits sum.splits if_splits dest: unescape_loop_fault)

lemma cbind_Inl: "cbind m f = Inl e \<Longrightarrow> m = Inl e \<or> (\<exists>x. m = Inr x \<and> f x = Inl e)"
  by (cases m) simp_all

lemma report_part_fault: "report_part line pm n c = Inl e \<Longrightarrow> e = Out_Of_Bounds"
  by (auto simp: report_part_def getmatchsub_def Let_def dest!: cbind_Inl split: if_splits prod.splits bool.splits)

lemma find_listener_total: "\<exists>found. find_listener k c = Inr found"
  using tr_find_total [of lcmp _ "pdcs_listeners c"] by (auto simp: find_listener_def)

lemma deliver_report_fault: "deliver_report line pm val c = Inl e \<Longrightarrow> e = Out_Of_Bounds"
proof -
  assume "deliver_report line pm val c = Inl e"
  moreover have [simp]: "find_listener k c \<noteq> Inl e" for k c using find_listener_total [of k c] by auto
  ultimately show ?thesis
    unfolding deliver_report_def
    by (auto dest!: cbind_Inl report_part_fault unescape_fault split: option.splits prod.splits)
qed

text \<open>
  C20: at its end \<open>handle_report\<close> frees \<open>val\<close> whatever it points to. It frees a pointer into
  the line buffer, which \<open>malloc\<close> has not returned, exactly when the line has one quote or at
  least three: with no quote the pointer is NULL, with two it is a copy, or NULL when there
  is no memory for one.\<close>

theorem report_bad_free:
  assumes "nul_free line"
  shows "handle_report env line c = Inl Bad_Pointer
     \<longleftrightarrow> count_list line quote = 1 \<or> 3 \<le> count_list line quote"
proof (cases "quote \<in> set line")
  case False
  then show ?thesis by (simp add: handle_report_none count_list_0_iff)
next
  case True
  then obtain a b where l: "line = a @ quote # b" "quote \<notin> set a" by (metis split_list_first)
  have na: "nul_free a" "nul_free b" using assms l(1) by simp_all
  show ?thesis
  proof (cases "quote \<in> set b")
    case False
    then show ?thesis using l na handle_report_one [OF l(2) False na(1)] by (simp add: count_list_0_iff)
  next
    case True
    then obtain v d where b: "b = v @ quote # d" "quote \<notin> set v" by (metis split_list_first)
    have nv: "nul_free v" "nul_free d" using na(2) b(1) by simp_all
    have n: "count_list line quote = 2 + count_list d quote" using l b by (simp add: count_list_0_iff)
    have s: "strchr_at quote d \<noteq> None \<longleftrightarrow> 0 < count_list d quote"
      using nv(2) by (simp add: strchr_at_def count_list_0_iff flip: neq0_conv)
    have "deliver_report m pm v c1 \<noteq> Inl Bad_Pointer" for m pm c1 using deliver_report_fault by blast
    then show ?thesis
      unfolding l(1) b(1) handle_report_two [OF l(2) b(2) na(1) nv(1)]
      using n s by (auto simp: l(1) b(1) split: option.split prod.split)
  qed
qed

section \<open>From the server to a listener\<close>

lemma atoi_dec_nat:
  assumes "n < 2 ^ 31" and "s = [] \<or> \<not> is_digit (hd s)"
  shows "atoi (dec_nat n @ s) = int n"
proof -
  have d: "\<forall>x \<in> set (dec_nat n). is_digit x" by (rule dec_nat_digits)
  obtain x t where xt: "dec_nat n = x # t" by (cases "dec_nat n") simp_all
  then have x: "\<not> is_space x" "x \<noteq> CHR ''-''" "x \<noteq> CHR ''+''"
    using d digit_not_other [of x] by simp_all
  have "takeWhile is_digit (dec_nat n @ s) = dec_nat n"
    using d assms(2) by (cases s) (simp_all add: takeWhile_eq_all_conv [THEN iffD2])
  then have "takeWhile is_digit (x # t @ s) = dec_nat n" by (simp add: xt del: takeWhile.simps)
  then have "signed_value (x # t @ s) = int n"
    using x(2,3) by (simp add: signed_value_def del: takeWhile.simps)
  then show ?thesis using x(1) assms(1) by (simp add: atoi_def strtol_def xt)
qed

lemma getmatchsub_part:
  assumes "n < length pm" and "pm ! n = (int (length x), int (length (x @ s)))" and "s \<noteq> []"
  shows "getmatchsub [] (x @ s @ y) pm n = Inr (int (length s), Some s, [])"
  using assms by (simp add: getmatchsub_def)

lemma report_part_some:
  assumes "pdc_mem c = []" and "line = x @ s @ y" and "n < length pm"
    and "pm ! n = (int (length x), int (length (x @ s)))" and "s \<noteq> []"
  shows "report_part line pm n c = Inr (Some s, c)"
  using getmatchsub_part [OF assms(3-5), of y] assms(1,2,5) by (simp add: report_part_def)

text \<open>
  What \<open>regexec\<close> is documented to do on a report whose value has been taken out: the only
  way to match it all.
\<close>

definition report_head :: "string \<Rightarrow> string" where
  "report_head d = ''report 200-lid'' @ d @ '' is pending, key ''"

definition report_rest :: "string \<Rightarrow> string \<Rightarrow> string" where
  "report_rest d key = report_head d @ key @ '' latest value '' @ [quote, quote] @ '' (''"

definition report_offsets :: "string \<Rightarrow> string \<Rightarrow> string \<Rightarrow> (int \<times> int) list" where
  "report_offsets d key r =
     [(0, int (length (report_rest d key @ r @ '')''))),
      (int (length ''report 200-lid''), int (length (''report 200-lid'' @ d))),
      (int (length (report_head d)), int (length (report_head d @ key))),
      (int (length (report_rest d key)), int (length (report_rest d key @ r))), (-1, -1), (-1, -1)]"

definition plain_text :: "string \<Rightarrow> bool" where
  "plain_text s \<longleftrightarrow> (\<forall>x \<in> set s. x \<noteq> quote \<and> x \<noteq> newline \<and> x \<noteq> carriage_return \<and> x \<noteq> NUL)"

definition report_pattern :: "(string \<Rightarrow> (int \<times> int) list option) \<Rightarrow> bool" where
  "report_pattern rx \<longleftrightarrow>
     (\<forall>d key r. (\<forall>x \<in> set d. is_digit x) \<and> plain_text key \<and> plain_text r \<longrightarrow>
        rx (report_rest d key @ r @ '')'') = Some (report_offsets d key r))"

lemma plain_text_simps [simp]:
  "plain_text []" "plain_text (x # s) \<longleftrightarrow> x \<noteq> quote \<and> x \<noteq> newline \<and> x \<noteq> carriage_return \<and> x \<noteq> NUL \<and> plain_text s"
  "plain_text (s @ t) \<longleftrightarrow> plain_text s \<and> plain_text t"
  by (auto simp: plain_text_def)

lemma plain_text_quote: "plain_text s \<Longrightarrow> quote \<notin> set s \<and> nul_free s"
  by (auto simp: plain_text_def nul_free_def)

lemma plain_text_dec_nat: "plain_text (dec_nat n)"
  using dec_nat_digits [of n] by (auto simp: plain_text_def is_digit_def)

lemma plain_text_reason: "plain_text (pdict_reason_str r)"
  by (cases r) simp_all

lemma plain_text_escape: "plain_text (concat (map (escape_char False) s))"
proof -
  have "passthru x \<or> x = backslash \<Longrightarrow> x \<noteq> quote \<and> x \<noteq> newline \<and> x \<noteq> carriage_return \<and> x \<noteq> NUL" for x
    by (auto simp: passthru_def is_alnum_def)
  then show ?thesis using set_escape_char [of False] by (fastforce simp: plain_text_def)
qed

lemma line_of_plain: "plain_text s \<Longrightarrow> line_of (s @ newline # t) = s"
proof -
  assume a: "plain_text s"
  then have "takeWhile (\<lambda>c. \<not> is_eol c) (s @ newline # t) = s"
    by (auto simp: plain_text_def is_eol_def takeWhile_append)
  moreover have "takeWhile (\<lambda>c. c \<noteq> carriage_return) s = s"
    using a by (auto simp: plain_text_def takeWhile_eq_all_conv)
  ultimately show ?thesis by (simp add: line_of_def)
qed

lemma unescape_escaped: "unescape [] (concat (map (escape_char False) s)) = Inr (Some s, [])"
  using unescape_loop_length [OF unescape_loop_escape, of s]
  by (simp add: unescape_def unescape_loop_escape store_def)

lemma escaped_text:
  assumes "nul_free s" and "escape [] s (length s) = Inr (Some d, [])"
  shows "c_str d = concat (map (escape_char False) s)"
proof -
  let ?e = "concat (map (escape_char False) s)"
  have "d = ?e @ [NUL]" using escape_result [OF assms(1)] assms(2) by simp
  moreover have "NUL \<notin> set ?e" using plain_text_escape [of s] by (auto simp: plain_text_def)
  ultimately show ?thesis by (simp add: c_str_def takeWhile_append)
qed

definition listeners_ok :: "'f pdc_session \<Rightarrow> bool" where
  "listeners_ok c \<longleftrightarrow> key_sorted l_id (inorder (pdcs_listeners c)) \<and> (\<forall>l \<in> set (inorder (pdcs_listeners c)). lid_ok l)"

lemma find_in_sorted_keys:
  "key_sorted key xs \<Longrightarrow> x \<in> set xs \<Longrightarrow> find (\<lambda>y. key y = key x) xs = Some x"
  by (induction xs) auto

lemma find_listener_some:
  assumes "listeners_ok c" and "l \<in> set (inorder (pdcs_listeners c))"
  shows "find_listener (l_id l) c = Inr (Some l)"
proof -
  have l: "lid_ok l" "key_sorted l_id (inorder (pdcs_listeners c))" using assms by (auto simp: listeners_ok_def)
  then have "lid_ok \<lparr> l_id = l_id l, l_cb = None, l_arg = NULL \<rparr>" by (simp add: lid_ok_def)
  from lids.tr_find_key [OF this, of "pdcs_listeners c" "\<lambda>x y. Inr (lcmp x y)"] assms l
  show ?thesis
    using find_in_sorted_keys [OF l(2) assms(2)] by (simp add: find_listener_def listeners_ok_def)
qed

lemma deliver_report_reaches:
  fixes c :: "'f pdc_session"
  assumes "listeners_ok c" and "\<lparr> l_id = int n, l_cb = Some f, l_arg = arg \<rparr> \<in> set (inorder (pdcs_listeners c))"
    and "pdc_mem c = []" and "key \<noteq> []"
  shows "deliver_report (report_rest (dec_nat n) key @ pdict_reason_str r @ '')'')
      (report_offsets (dec_nat n) key (pdict_reason_str r)) (concat (map (escape_char False) v)) c =
    Inr (c\<lparr> calls := calls c @ [Changed f arg key v (length v) r] \<rparr>)"
proof -
  let ?d = "dec_nat n" and ?r = "pdict_reason_str r"
  let ?line = "report_rest ?d key @ ?r @ '')''" and ?pm = "report_offsets ?d key ?r"
  have r: "?r \<noteq> []" "pdc_reason_from_str ?r = Some r" by (cases r; simp add: pdc_reason_from_str_def)+
  have 1: "report_part ?line ?pm 1 c = Inr (Some ?d, c)"
    by (rule report_part_some [OF assms(3), where x = "''report 200-lid''"
          and y = "'' is pending, key '' @ key @ '' latest value '' @ [quote, quote] @ '' ('' @ ?r @ '')''"])
       (simp_all add: report_rest_def report_head_def report_offsets_def)
  have 2: "report_part ?line ?pm 2 c = Inr (Some key, c)"
    by (rule report_part_some [OF assms(3), where x = "report_head ?d"
          and y = "'' latest value '' @ [quote, quote] @ '' ('' @ ?r @ '')''"])
       (simp_all add: report_rest_def report_offsets_def assms(4))
  have 3: "report_part ?line ?pm 3 c = Inr (Some ?r, c)"
    by (rule report_part_some [OF assms(3), where x = "report_rest ?d key" and y = "'')''"])
       (simp_all add: report_offsets_def r(1))
  have "n < 2 ^ 31" using assms(1,2) by (force simp: listeners_ok_def lid_ok_def)
  then have "atoi ?d = int n" using atoi_dec_nat [of n "[]"] by simp
  then have "find_listener (atoi ?d) c = Inr (Some \<lparr> l_id = int n, l_cb = Some f, l_arg = arg \<rparr>)"
    using find_listener_some [OF assms(1,2)] by simp
  then show ?thesis
    by (simp del: cbind_Inr add: deliver_report_def 1 [simplified] 2 3 r(2) assms(3) unescape_escaped)
qed

lemma handle_report_quoted:
  assumes "plain_text a" and "plain_text v" and "plain_text u" and "pdc_mem c = []"
    and "pendingex env (a @ quote # quote # u) = Some pm"
  shows "handle_report env (a @ quote # v @ quote # u) c = deliver_report (a @ quote # quote # u) pm v c"
proof -
  have "got_mem c = (True, c)" using assms(4) by (cases c) (simp add: got_mem_def)
  then show ?thesis
    using handle_report_two [of a v env u c] plain_text_quote assms by (simp add: strchr_at_none)
qed

text \<open>
  C17: what a client has set arrives at the listeners of the others. When the server holds the
  escaped text of a value and reports it, the line it writes, read back by \<open>pd_getline\<close>, makes
  the other client call the listener with that identifier, exactly once, with the key, the
  value as it was before escaping with its length, and the reason.\<close>

theorem pending_report_delivered:
  fixes c :: "'f pdc_session"
  assumes rx: "report_pattern (pendingex env)"
    and "h (ipm_id ipm) = Some (''lid'' @ dec_nat n)"
    and "ipm_key ipm = Some key" and "plain_text key" and "key \<noteq> []"
    and "nul_free v" and "escape [] v (length v) = Inr (Some d, [])" and "ipm_val ipm = Some (c_str d)"
    and "pdss_write p" and "pdss_report_cmdtag p = Some ''report''"
    and "listeners_ok c" and "\<lparr> l_id = int n, l_cb = Some f, l_arg = arg \<rparr> \<in> set (inorder (pdcs_listeners c))"
    and "pdc_mem c = []"
  shows "\<exists>line p'. write_pending h ipm ([], p) = Inr ([], p') \<and> sent p' = sent p @ [line]
    \<and> handle_report env (line_of line) c =
        Inr (c\<lparr> calls := calls c @ [Changed f arg key v (length v) (ipm_reason ipm)] \<rparr>)"
proof -
  let ?v = "concat (map (escape_char False) v)" and ?r = "pdict_reason_str (ipm_reason ipm)"
  let ?a = "report_head (dec_nat n) @ key @ '' latest value ''"
  let ?line = "?a @ quote # ?v @ quote # '' ('' @ ?r @ '')''"
  obtain w ws where w: "alloc (writes p) = (w, ws)" by (cases "alloc (writes p)")
  have e: "c_str d = ?v" by (rule escaped_text [OF assms(6,7)])
  have wp: "write_pending h ipm ([], p) =
      Inr ([], p\<lparr> sent := sent p @ [?line @ newline # (if pdss_client_cr_null p then [NUL] else [])], writes := ws \<rparr>)"
    using assms w by (simp add: write_pending_def mem_simps str_arg_def call_write_def tagged_def report_head_def e)
  have pl: "plain_text ?a" "plain_text ?v" "plain_text ('' ('' @ ?r @ '')'')"
    using assms(4) plain_text_dec_nat plain_text_escape plain_text_reason by (simp_all add: report_head_def)
  have "line_of (?line @ newline # t) = ?line" for t
  proof -
    have "plain_text s \<Longrightarrow> plain_text t \<Longrightarrow> plain_text u \<Longrightarrow>
        line_of ((s @ quote # t @ quote # u) @ newline # y) = s @ quote # t @ quote # u" for s t u y
      by (auto simp: line_of_def plain_text_def is_eol_def takeWhile_append takeWhile_eq_all_conv)
    from this [OF pl] show ?thesis .
  qed
  moreover have "handle_report env ?line c = Inr (c\<lparr> calls := calls c @ [Changed f arg key v (length v) (ipm_reason ipm)] \<rparr>)"
  proof -
    have rx': "pendingex env (report_rest (dec_nat n) key @ ?r @ '')'') = Some (report_offsets (dec_nat n) key ?r)"
      using rx assms(4) plain_text_reason dec_nat_digits by (simp add: report_pattern_def)
    have eq: "?a @ quote # quote # '' ('' @ ?r @ '')'' = report_rest (dec_nat n) key @ ?r @ '')''"
      by (simp add: report_rest_def)
    show ?thesis
      using handle_report_quoted [OF pl assms(13), of env] rx' deliver_report_reaches [OF assms(11-13,5)]
      unfolding eq by simp
  qed
  ultimately show ?thesis using wp by (intro exI conjI) (assumption, simp, simp)
qed

section \<open>Replies to asynchronous commands\<close>

lemma dec_nat_three:
  assumes "100 \<le> code" and "code < 1000"
  shows "length (dec_nat code) = 3"
proof -
  have "code div 10 div 10 < 10" "\<not> code div 10 < 10" "\<not> code < 10" using assms by simp_all
  then show ?thesis
    by (simp add: dec_nat.simps [of code] dec_nat.simps [of "code div 10"] dec_nat.simps [of "code div 10 div 10"]
        dec_nat.simps [of "code div 100"])
qed

lemma is_digit_space: "\<not> is_digit (CHR '' '')" "\<not> is_digit (CHR ''T'')"
  by (simp_all add: is_digit_def)

definition tag_reply :: "nat \<Rightarrow> nat \<Rightarrow> string \<Rightarrow> string" where
  "tag_reply n code msg = CHR ''T'' # dec_nat n @ '' '' @ dec_nat code @ '' '' @ msg"

lemma result_start_reply:
  assumes "n < 2 ^ 31"
  shows "result_start (tag_reply n code msg) = Some (int n, dec_nat code @ '' '' @ msg)"
proof -
  have d: "\<forall>x \<in> set (dec_nat m). is_digit x" for m by (rule dec_nat_digits)
  have "\<forall>x \<in> set (dec_nat n). x \<noteq> CHR '' ''" using d [of n] is_digit_space by metis
  then have "dropWhile (\<lambda>x. x \<noteq> CHR '' '') (dec_nat n @ '' '' @ s) = '' '' @ s" for s
    by (simp add: dropWhile_append1 dropWhile_append2)
  moreover obtain x t where "dec_nat code = x # t" "is_digit x" using d [of code] by (cases "dec_nat code") simp_all
  moreover have "atoi (dec_nat n @ '' '' @ s) = int n" for s
    using atoi_dec_nat [OF assms, of "'' '' @ s"] is_digit_space by simp
  ultimately show ?thesis using is_digit_space by (simp add: result_start_def tag_reply_def)
qed

lemma reply_code:
  assumes "100 \<le> code" and "code < 1000"
  shows "str_at (dec_nat code @ '' '' @ msg) 3 = Inr (CHR '' '')" and "atoi (dec_nat code @ '' '' @ msg) = int code"
    and "drop 4 (dec_nat code @ '' '' @ msg) = msg" and "4 \<le> length (dec_nat code @ '' '' @ msg)"
    and "4 \<le> length (tag_reply n code msg)"
proof -
  note l = dec_nat_three [OF assms]
  show "str_at (dec_nat code @ '' '' @ msg) 3 = Inr (CHR '' '')" "drop 4 (dec_nat code @ '' '' @ msg) = msg"
    "4 \<le> length (dec_nat code @ '' '' @ msg)" "4 \<le> length (tag_reply n code msg)"
    by (simp_all add: str_at_def nth_append l tag_reply_def)
  show "atoi (dec_nat code @ '' '' @ msg) = int code"
    using atoi_dec_nat [of code "'' '' @ msg"] assms is_digit_space by simp
qed

lemma find_pending_tag:
  assumes "tree_ok t" and "r \<in> set (inorder t)"
  shows "find (\<lambda>x. r_tag x = r_tag r) (inorder t) = Some r"
  using find_in_sorted_keys [of r_tag "inorder t" r] assms by (simp add: tree_ok_def)

lemma take_result_reply:
  assumes "tree_ok (pdcs_pending c)" and "r \<in> set (inorder (pdcs_pending c))" and "r_tag r = int n"
    and "100 \<le> code" and "code < 1000"
  obtains t where "take_result (tag_reply n code msg) c =
      Inr (c\<lparr> pdcs_pending := t, taken := Some (r, int code, True, Inr msg) \<rparr>)"
    and "inorder t = filter (\<lambda>x. r_tag x \<noteq> int n) (inorder (pdcs_pending c))"
proof -
  have n: "n < 2 ^ 31" using assms(1-3) by (auto simp: tree_ok_def tag_ok_def)
  then have "int_range (int n)" by (simp add: int_range_def)
  from remove_pending_result [OF assms(1) this] obtain t where
    t: "remove_pending (int n) c = Inr (Some r, c\<lparr> pdcs_pending := t \<rparr>)"
      "inorder t = filter (\<lambda>r. r_tag r \<noteq> int n) (inorder (pdcs_pending c))"
    using find_pending_tag [OF assms(1,2)] assms(3) by metis
  have "take_result (tag_reply n code msg) c = Inr (c\<lparr> pdcs_pending := t, taken := Some (r, int code, True, Inr msg) \<rparr>)"
    using reply_code(1-4) [OF assms(4,5), where msg = msg]  reply_code(5) [OF assms(4,5), where n = n and msg = msg]
    by (simp del: cbind_Inr add: take_result_def result_start_reply [OF n] t(1))
  with t(2) that show thesis by blast
qed

definition client_ok :: "'f pdc_session \<Rightarrow> bool" where
  "client_ok c \<longleftrightarrow> tree_ok (pdcs_pending c) \<and> (\<forall>r \<in> set (inorder (pdcs_pending c)). r_tag r < async_tag c)
     \<and> 1 \<le> async_tag c \<and> async_tag c < 2 ^ 31"

lemma async_send_sends:
  assumes "client_ok c" and "pdc_mem c = []" and "pdc_writes c = []"
  obtains t where "async_send env buf nf err arg c =
      Inr (c\<lparr> async_tag := int32 (async_tag c + 1), pdcs_pending := t, pdc_sent := pdc_sent c @ [buf] \<rparr>)"
    and "set (inorder t) = insert \<lparr> r_tag = async_tag c, r_notify = nf \<rparr> (set (inorder (pdcs_pending c)))"
    and "tree_ok t"
proof -
  let ?r = "\<lparr> r_tag = async_tag c, r_notify = nf \<rparr>"
  let ?c = "c\<lparr> async_tag := int32 (async_tag c + 1) \<rparr>"
  have "tree_ok (pdcs_pending ?c)" "tag_ok ?r" "\<forall>x \<in> set (inorder (pdcs_pending ?c)). r_tag x \<noteq> r_tag ?r"
    using assms(1) by (auto simp: client_ok_def tag_ok_def)
  from add_pending_result(2) [OF this] obtain t where
    t: "add_pending ?r ?c = Inr (True, ?c\<lparr> pdc_mem := [], pdcs_pending := t \<rparr>)" "tree_ok t"
      "set (inorder t) = insert ?r (set (inorder (pdcs_pending c)))"
    using assms(2) by auto
  have "async_send env buf nf err arg c =
      Inr (c\<lparr> async_tag := int32 (async_tag c + 1), pdcs_pending := t, pdc_sent := pdc_sent c @ [buf] \<rparr>)"
    using assms(2,3) t(1) by (cases c) (simp del: cbind_Inr add: async_send_def got_mem_def pdcs_write_def)
  with that t(2,3) show thesis by blast
qed

lemma got_mem_nil: "pdc_mem c = [] \<Longrightarrow> got_mem c = (True, c)"
  by (cases c) (simp add: got_mem_def)

lemma async_cmd_sends:
  assumes "client_ok c" and "pdc_mem c = []" and "pdc_writes c = []"
  obtains t where "async_cmd env desired body err arg c =
      Inr (c\<lparr> async_tag := int32 (async_tag c + 1), pdcs_pending := t,
              pdc_sent := pdc_sent c @ [CHR ''T'' # dec_int (async_tag c) @ '' '' @ body] \<rparr>)"
    and "set (inorder t) = insert \<lparr> r_tag = async_tag c, r_notify = Async_Cmd_Cb desired err arg \<rparr> (set (inorder (pdcs_pending c)))"
    and "tree_ok t"
proof -
  let ?buf = "CHR ''T'' # dec_int (async_tag c) @ '' '' @ body"
  have "async_cmd env desired body err arg c = async_send env ?buf (Async_Cmd_Cb desired err arg) err arg c"
    by (simp add: async_cmd_def async_cmd_callback_def async_text_def got_mem_nil [OF assms(2)])
  then show thesis by (metis async_send_sends [OF assms] that)
qed

definition errors_of :: "int \<Rightarrow> int \<Rightarrow> 'f option \<Rightarrow> addr \<Rightarrow> string \<Rightarrow> 'f call list" where
  "errors_of desired code err arg msg =
     (if code = desired then [] else case err of None \<Rightarrow> [] | Some f \<Rightarrow> [Error_Called f arg (''protocol error: '' @ msg)])"

lemma async_cmd_cb_calls:
  assumes "pdc_mem c = []"
  shows "async_cmd_cb desired err arg code True (Inr msg) c =
     Inr (c\<lparr> calls := calls c @ errors_of desired code err arg msg \<rparr>)"
  using assms by (cases c) (auto simp: async_cmd_cb_def errors_of_def got_mem_def call_error_def split: option.split)

lemma read_reply:
  fixes c :: "'f pdc_session"
  assumes "tree_ok (pdcs_pending c)" and "r \<in> set (inorder (pdcs_pending c))" and "r_tag r = int n"
    and "r_notify r = Async_Cmd_Cb desired err arg"
    and "pdc_mem c = []" and "to_signal c = None" and "100 \<le> code" and "code < 1000"
  obtains t where "read_result env (tag_reply n code msg) c =
      Inr (c\<lparr> pdcs_pending := t, taken := None,
              calls := calls c @ Notified r (int code) True # errors_of desired (int code) err arg msg \<rparr>)"
    and "inorder t = filter (\<lambda>x. r_tag x \<noteq> r_tag r) (inorder (pdcs_pending c))"
proof -
  from take_result_reply [OF assms(1-3,7,8)] obtain t where
    t: "take_result (tag_reply n code msg) c = Inr (c\<lparr> pdcs_pending := t, taken := Some (r, int code, True, Inr msg) \<rparr>)"
      "inorder t = filter (\<lambda>x. r_tag x \<noteq> r_tag r) (inorder (pdcs_pending c))"
    using assms(3) by metis
  have "take 1 (tag_reply n code msg) = ''T''" by (simp add: tag_reply_def)
  then have "read_result env (tag_reply n code msg) c =
      Inr (c\<lparr> pdcs_pending := t, taken := None,
              calls := calls c @ Notified r (int code) True # errors_of desired (int code) err arg msg \<rparr>)"
    using assms(4-6) by (simp del: cbind_Inr
      add: read_result_def t(1) reader_notify_def notify_result_def async_cmd_cb_calls reader_signal_def)
  with that t(2) show thesis by blast
qed

lemma read_reply_unknown:
  assumes "tree_ok (pdcs_pending c)" and "\<forall>r \<in> set (inorder (pdcs_pending c)). r_tag r \<noteq> int n" and "n < 2 ^ 31"
    and "taken c = None" and "to_signal c = None" and "100 \<le> code" and "code < 1000"
  shows "read_result env (tag_reply n code msg) c = Inr c"
proof -
  have "int_range (int n)" using assms(3) by (simp add: int_range_def)
  then have "remove_pending (int n) c = Inr (None, c)"
    using assms(2) find_pending_result [OF assms(1), of "int n"] by (simp add: remove_pending_def find_None_iff [THEN iffD2])
  then have "take_result (tag_reply n code msg) c = Inr c"
    using reply_code(1-4) [OF assms(6,7), where msg = msg] reply_code(5) [OF assms(6,7), where n = n and msg = msg]
    by (simp del: cbind_Inr add: take_result_def result_start_reply [OF assms(3)])
  moreover have "take 1 (tag_reply n code msg) = ''T''" by (simp add: tag_reply_def)
  ultimately show ?thesis
    using assms(4,5) by (simp del: cbind_Inr add: read_result_def reader_notify_def reader_signal_def)
qed

text \<open>
  C18: an asynchronous command goes out with a tag of its own, and the reply the server sends
  under that tag reaches it and no other, whatever else is pending by then: its notification
  function is called once with the code and the text, its error function exactly when the
  code is not the desired one, and it is no longer pending.\<close>

theorem async_reply_reaches:
  fixes c :: "'f pdc_session" and desired :: int and err :: "'f option" and arg :: addr
  assumes "client_ok c" and "pdc_mem c = []" and "pdc_writes c = []"
  defines "r \<equiv> \<lparr> r_tag = async_tag c, r_notify = Async_Cmd_Cb desired err arg \<rparr>"
  shows "\<exists>c1. async_cmd env desired body err arg c = Inr c1
    \<and> pdc_sent c1 = pdc_sent c @ [CHR ''T'' # dec_int (async_tag c) @ '' '' @ body]
    \<and> set (inorder (pdcs_pending c1)) = insert r (set (inorder (pdcs_pending c)))
    \<and> (\<forall>c2 code msg. tree_ok (pdcs_pending c2) \<and> r \<in> set (inorder (pdcs_pending c2)) \<and> pdc_mem c2 = []
         \<and> to_signal c2 = None \<and> 100 \<le> code \<and> code < 1000 \<longrightarrow>
       (\<exists>t. read_result env (tagged (Some (CHR ''T'' # dec_int (async_tag c))) (dec_nat code @ '' '' @ msg)) c2 =
              Inr (c2\<lparr> pdcs_pending := t, taken := None,
                       calls := calls c2 @ Notified r (int code) True # errors_of desired (int code) err arg msg \<rparr>)
          \<and> inorder t = filter (\<lambda>x. r_tag x \<noteq> r_tag r) (inorder (pdcs_pending c2))))"
proof -
  define n where "n = nat (async_tag c)"
  have n: "async_tag c = int n" "dec_int (async_tag c) = dec_nat n"
    using assms(1) by (auto simp: client_ok_def n_def dec_int_def)
  obtain t where t: "async_cmd env desired body err arg c =
      Inr (c\<lparr> async_tag := int32 (async_tag c + 1), pdcs_pending := t,
              pdc_sent := pdc_sent c @ [CHR ''T'' # dec_int (async_tag c) @ '' '' @ body] \<rparr>)"
    "set (inorder t) = insert r (set (inorder (pdcs_pending c)))"
    using async_cmd_sends [OF assms(1-3), of env desired body err arg] r_def by metis
  have "\<exists>t. read_result env (tag_reply n code msg) c2 =
              Inr (c2\<lparr> pdcs_pending := t, taken := None,
                       calls := calls c2 @ Notified r (int code) True # errors_of desired (int code) err arg msg \<rparr>)
          \<and> inorder t = filter (\<lambda>x. r_tag x \<noteq> r_tag r) (inorder (pdcs_pending c2))"
    if a: "tree_ok (pdcs_pending c2)" "r \<in> set (inorder (pdcs_pending c2))" "pdc_mem c2 = []" "to_signal c2 = None"
      "100 \<le> code" "code < 1000" for c2 :: "'f pdc_session" and code msg
    by (rule read_reply [OF a(1,2) _ _ a(3-6), of n desired err arg env msg]) (simp_all add: r_def n, blast)
  then show ?thesis
    using t by (intro exI conjI) (assumption, auto simp: tagged_def tag_reply_def n(2))
qed

section \<open>Instances\<close>

text \<open>A matcher for the reports, and a client to try things on.\<close>

definition pending_rx :: "string \<Rightarrow> (int \<times> int) list option" where
  "pending_rx line =
     (let d = takeWhile is_digit (drop (length ''report 200-lid'') line);
          kq = takeWhile (\<lambda>x. x \<noteq> quote) (drop (length (report_head d)) line);
          key = take (length kq - length '' latest value '') kq;
          r = butlast (drop (length (report_rest d key)) line)
      in if line = report_rest d key @ r @ '')'' then Some (report_offsets d key r) else None)"

lemma takeWhile_quote: "quote \<notin> set s \<Longrightarrow> takeWhile (\<lambda>x. x \<noteq> quote) (s @ quote # t) = s"
  by (induction s) auto

lemma takeWhile_digits: "\<forall>x \<in> set d. is_digit x \<Longrightarrow> takeWhile is_digit (d @ CHR '' '' # s) = d"
  using is_digit_space by (induction d) auto

lemma pending_rx_pattern: "report_pattern pending_rx"
proof -
  have "pending_rx (report_rest d key @ r @ '')'') = Some (report_offsets d key r)"
    if d: "\<forall>x \<in> set d. is_digit x" and k: "plain_text key" for d key r
  proof -
    let ?line = "report_rest d key @ r @ '')''"
    have "drop (length ''report 200-lid'') ?line = d @ '' is pending, key '' @ key @ '' latest value '' @ [quote, quote] @ '' ('' @ r @ '')''"
      by (simp add: report_rest_def report_head_def)
    moreover have "takeWhile is_digit (d @ CHR '' '' # s) = d" for s
      by (rule takeWhile_digits [OF d])
    ultimately have 1: "takeWhile is_digit (drop (length ''report 200-lid'') ?line) = d" by simp
    have "quote \<notin> set (key @ '' latest value '')" using plain_text_quote [OF k] by simp
    then have "takeWhile (\<lambda>x. x \<noteq> quote) ((key @ '' latest value '') @ quote # s) = key @ '' latest value ''" for s
      by (rule takeWhile_quote)
    moreover have "drop (length (report_head d)) ?line = (key @ '' latest value '') @ quote # quote # '' ('' @ r @ '')''"
      by (simp add: report_rest_def)
    ultimately have 2: "takeWhile (\<lambda>x. x \<noteq> quote) (drop (length (report_head d)) ?line) = key @ '' latest value ''"
      by (simp only:)
    have 3: "take (length (key @ '' latest value '') - length '' latest value '') (key @ '' latest value '') = key" by simp
    have 4: "butlast (drop (length (report_rest d key)) ?line) = r" by simp
    show ?thesis unfolding pending_rx_def Let_def 1 2 3 4 by simp
  qed
  then show ?thesis by (simp add: report_pattern_def)
qed

definition sample_env :: client_env where
  "sample_env = \<lparr> md5 = (\<lambda>s. s), ws_protocol_ver = ''1.0.10'', es = ''Cannot allocate memory'',
     write_error = ''Broken pipe'', pendingex = pending_rx \<rparr>"

definition sample_client :: "nat pdc_session" where
  "sample_client = new_session [] 1 1"

lemma sample_client_ok: "client_ok sample_client" "pdc_mem sample_client = []" "pdc_writes sample_client = []"
  "reader_done sample_client = False" "taken sample_client = None" "to_signal sample_client = None"
  "async_tag sample_client = 1" "pdcs_pending sample_client = Leaf" "pdc_sent sample_client = []" "calls sample_client = []"
  by (simp_all add: sample_client_def new_session_def client_ok_def tree_ok_def)

theorem report_bad_free_witness: "handle_report sample_env [CHR ''x'', quote] sample_client = Inl Bad_Pointer"
  using report_bad_free [of "[CHR ''x'', quote]" sample_env sample_client] by simp

definition listening_client :: "nat pdc_session" where
  "listening_client = sample_client\<lparr> pdcs_listeners := Node Leaf \<lparr> l_id = 4, l_cb = Some 7, l_arg = 9 \<rparr> Leaf \<rparr>"

definition reporting_session :: session where
  "reporting_session = sample_session\<lparr> pdss_report_cmdtag := Some ''report'' \<rparr>"

definition sample_change :: ipm where
  "sample_change = \<lparr> ipm_id = 1, ipm_key = Some ''k'', ipm_val = Some (concat (map (escape_char False) ''a b'')),
     ipm_reason = PDR_VALUE_CHANGED \<rparr>"

theorem pending_report_delivered_witness:
  "\<exists>line p'. write_pending [1 \<mapsto> ''lid'' @ dec_nat 4] sample_change ([], reporting_session) = Inr ([], p')
     \<and> sent p' = [line]
     \<and> handle_report sample_env (line_of line) listening_client =
         Inr (listening_client\<lparr> calls := [Changed 7 9 ''k'' ''a b'' 3 PDR_VALUE_CHANGED] \<rparr>)"
proof -
  have e: "escape [] ''a b'' (length ''a b'') = Inr (Some (concat (map (escape_char False) ''a b'') @ [NUL]), [])"
    by (rule escape_result) simp
  have v: "ipm_val sample_change = Some (c_str (concat (map (escape_char False) ''a b'') @ [NUL]))"
    using escaped_text [OF _ e] by (simp add: sample_change_def)
  have rx: "report_pattern (pendingex sample_env)" by (simp add: sample_env_def pending_rx_pattern)
  have i: "[1 \<mapsto> ''lid'' @ dec_nat 4] (ipm_id sample_change) = Some (''lid'' @ dec_nat 4)" "ipm_key sample_change = Some ''k''"
    "ipm_reason sample_change = PDR_VALUE_CHANGED" by (simp_all add: sample_change_def)
  have k: "plain_text ''k''" "''k'' \<noteq> []" "nul_free ''a b''" by simp_all
  have p: "pdss_write reporting_session" "pdss_report_cmdtag reporting_session = Some ''report''" "sent reporting_session = []"
    by (simp_all add: reporting_session_def sample_session_def)
  have c: "listeners_ok listening_client" "\<lparr> l_id = int 4, l_cb = Some 7, l_arg = 9 \<rparr> \<in> set (inorder (pdcs_listeners listening_client))"
    "pdc_mem listening_client = []" "calls listening_client = []"
    by (simp_all add: listening_client_def listeners_ok_def lid_ok_def sample_client_ok)
  have l: "length ''a b'' = 3" by simp
  show ?thesis
    using pending_report_delivered [where h = "[1 \<mapsto> ''lid'' @ dec_nat 4]" and n = 4, OF rx i(1,2) k e v p(1,2) c(1-3)] by (simp only: i(3) p(3) c(4) l append_Nil)
qed

theorem async_reply_reaches_witness:
  "\<exists>c1. async_cmd sample_env 200 ''x'' (Some 7) 3 sample_client = Inr c1
     \<and> pdc_sent c1 = [CHR ''T'' # dec_int 1 @ '' x'']"
  using async_reply_reaches [OF sample_client_ok(1-3), of sample_env 200 "''x''" "Some 7" 3]
  by (auto simp: sample_client_ok)

end
