(* ===== verification/ClientRuns.thy ===== *)
theory ClientRuns
  imports ClientProps
begin

text \<open>
  Runs of the dictionary client: the steps of its threads in any order. Every asynchronous
  command is notified exactly once; where the order of two threads goes wrong, two commands
  share a tag, a call is freed under the reader, a late reply is taken for another.
\<close>

section \<open>Steps\<close>

text \<open>
  \<open>Send\<close> is the part of \<open>async_cmd_callback\<close> under the lock, for a text that was formatted at
  any time before. The reader takes a line when it is done with the one before.
\<close>

datatype 'f client_action =
    Send string "'f notification" "'f option" addr
  | Take_Line string | Notify | Signal
  | Begin int string | Timed_Out string addr | End addr
  | Get_Begin string bool int | Get_Timed_Out string addr | Get_End addr int
  | Clean addr
  | Other_Session
  | Close

definition reader_idle :: "'f pdc_session \<Rightarrow> bool" where
  "reader_idle c \<longleftrightarrow> taken c = None \<and> to_signal c = None \<and> \<not> reader_done c"

definition state_of :: "('a \<times> 'b \<times> 'f pdc_session) cres \<Rightarrow> 'f pdc_session cres" where
  "state_of m = cbind m (\<lambda>(_, _, c). Inr c)"

fun client_step :: "client_env \<Rightarrow> 'f client_action \<Rightarrow> 'f pdc_session \<Rightarrow> 'f pdc_session cres" where
  "client_step env (Send buf nf err arg) c = async_send env buf nf err arg c"
| "client_step env (Take_Line line) c =
     (if \<not> reader_idle c then Inr c
      else if take 1 line = ''r'' then handle_report env line c else take_result line c)"
| "client_step env Notify c = reader_notify env c"
| "client_step env Signal c = reader_signal c"
| "client_step env (Begin desired body) c = state_of (cmd_begin env desired body c)"
| "client_step env (Timed_Out body a) c = state_of (cmd_timed_out body a c)"
| "client_step env (End a) c = state_of (cmd_end a c)"
| "client_step env (Get_Begin body has_buf len) c = state_of (jcmd_begin env body has_buf len c)"
| "client_step env (Get_Timed_Out body a) c = cbind (jcmd_timed_out body a c) (\<lambda>(_, _, _, c). Inr c)"
| "client_step env (Get_End a desired) c = cbind (jcmd_finish a desired c) (\<lambda>(_, _, _, c). Inr c)"
| "client_step env (Clean arg) c = clean_pending_async env arg c"
| "client_step env Other_Session c = Inr (c\<lparr> async_tag := int32 (async_tag c + 1) \<rparr>)"
| "client_step env Close c = (if reader_idle c then reader_close env c else Inr c)"

fun client_run :: "client_env \<Rightarrow> 'f client_action list \<Rightarrow> 'f pdc_session \<Rightarrow> 'f pdc_session cres" where
  "client_run env [] c = Inr c"
| "client_run env (s # ss) c = cbind (client_step env s c) (client_run env ss)"

section \<open>What a step does to the commands before it\<close>

definition is_final :: "int \<Rightarrow> 'f call \<Rightarrow> bool" where
  "is_final t x = (case x of Notified r code final \<Rightarrow> final \<and> r_tag r = t | _ \<Rightarrow> False)"

lemma is_final_simps [simp]:
  "is_final t (Notified r code final) \<longleftrightarrow> final \<and> r_tag r = t" "\<not> is_final t (Error_Called f a e)"
  "\<not> is_final t (Success_Called f a g)" "\<not> is_final t (Changed f a k v n w)"
  by (simp_all add: is_final_def)

text \<open>How often the command with tag \<open>t\<close> has been notified of its final result.\<close>

definition finals :: "int \<Rightarrow> 'f pdc_session \<Rightarrow> nat" where
  "finals t c = length (filter (is_final t) (calls c))"

definition pending_tag :: "int \<Rightarrow> 'f pdc_session \<Rightarrow> bool" where
  "pending_tag t c \<longleftrightarrow> (\<exists>r \<in> set (inorder (pdcs_pending c)). r_tag r = t)"

definition about_to :: "int \<Rightarrow> 'f pdc_session \<Rightarrow> bool" where
  "about_to t c \<longleftrightarrow> (case taken c of Some (r, code, final, line) \<Rightarrow> final \<and> r_tag r = t | None \<Rightarrow> False)"

text \<open>What is still to come for the command.\<close>

definition open_count :: "int \<Rightarrow> 'f pdc_session \<Rightarrow> nat" where
  "open_count t c = of_bool (pending_tag t c) + of_bool (about_to t c)"

text \<open>\<open>n\<close> bounds the tags the step can use; the commands with other tags stay as they are.\<close>

definition keeps :: "'f pdc_session \<Rightarrow> 'f pdc_session \<Rightarrow> bool" where
  "keeps c c' \<longleftrightarrow> client_ok c' \<and> async_tag c \<le> async_tag c' \<and> async_tag c' \<le> async_tag c + 1
     \<and> taken c' = taken c
     \<and> (\<forall>t. 1 \<le> t \<and> t < async_tag c \<longrightarrow> pending_tag t c' = pending_tag t c \<and> finals t c' = finals t c)"

lemma got_mem_same:
  "got_mem c = (got, c1) \<Longrightarrow> pdcs_pending c1 = pdcs_pending c \<and> async_tag c1 = async_tag c \<and> taken c1 = taken c
     \<and> calls c1 = calls c \<and> cmds c1 = cmds c \<and> jcmds c1 = jcmds c"
  by (auto simp: got_mem_def split: prod.splits)

lemma call_error_same [simp]:
  "pdcs_pending (call_error f a e c) = pdcs_pending c" "async_tag (call_error f a e c) = async_tag c"
  "taken (call_error f a e c) = taken c" "finals t (call_error f a e c) = finals t c"
  by (auto simp: call_error_def finals_def split: option.split)

text \<open>What a state says about the commands; two states with the same core agree on them.\<close>

definition notified :: "'f call \<Rightarrow> bool" where
  "notified x = (case x of Notified _ _ _ \<Rightarrow> True | _ \<Rightarrow> False)"

definition core :: "'f pdc_session \<Rightarrow> 'f result_t tree \<times> int \<times> ('f result_t \<times> int \<times> bool \<times> string cres) option \<times> 'f call list" where
  "core c = (pdcs_pending c, async_tag c, taken c, filter notified (calls c))"

definition same :: "'f pdc_session \<Rightarrow> 'f pdc_session \<Rightarrow> bool" where
  "same c c' \<longleftrightarrow> core c' = core c"

lemma core_fields [simp]:
  "core (c\<lparr> pdc_mem := m \<rparr>) = core c" "core (c\<lparr> cmds := h \<rparr>) = core c" "core (c\<lparr> jcmds := j \<rparr>) = core c"
  "core (c\<lparr> to_signal := a \<rparr>) = core c" "core (c\<lparr> pdc_brk := n \<rparr>) = core c" "core (c\<lparr> pdc_sent := ss \<rparr>) = core c"
  "core (c\<lparr> pdc_writes := ws \<rparr>) = core c" "core (c\<lparr> pdcs_listeners := l \<rparr>) = core c" "core (c\<lparr> reader_done := b \<rparr>) = core c"
  by (simp_all add: core_def)

lemma core_calls [simp]:
  "\<not> notified x \<Longrightarrow> core (c\<lparr> calls := calls c @ [x] \<rparr>) = core c"
  "\<not> notified x \<Longrightarrow> core (c\<lparr> pdc_mem := m, calls := calls c @ [x] \<rparr>) = core c"
  by (simp_all add: core_def)

lemma not_notified [simp]:
  "\<not> notified (Error_Called f a e)" "\<not> notified (Success_Called f a g)" "\<not> notified (Changed f a k v n w)"
  by (simp_all add: notified_def)

lemma core_call_error [simp]: "core (call_error f a e c) = core c"
  by (simp add: call_error_def split: option.split)

lemma core_got_mem: "got_mem c = (got, c1) \<Longrightarrow> core c1 = core c"
  by (auto simp: got_mem_def split: prod.splits)

lemma sameD:
  assumes "same c c'"
  shows "pdcs_pending c' = pdcs_pending c" "async_tag c' = async_tag c" "taken c' = taken c" "finals t c' = finals t c"
proof -
  have n: "filter (is_final t) xs = filter (is_final t) (filter notified xs)" for xs :: "'a call list"
    by (induction xs) (auto simp: notified_def is_final_def split: call.splits)
  show "pdcs_pending c' = pdcs_pending c" "async_tag c' = async_tag c" "taken c' = taken c"
    using assms by (simp_all add: same_def core_def)
  have "filter notified (calls c') = filter notified (calls c)" using assms by (simp add: same_def core_def)
  then show "finals t c' = finals t c" unfolding finals_def by (metis n)
qed

lemma same_refl [simp]: "same c c" by (simp add: same_def)

lemma same_keeps: "same c c' \<Longrightarrow> client_ok c \<Longrightarrow> keeps c c'"
  by (simp add: sameD keeps_def client_ok_def pending_tag_def)

lemma same_ok: "same c c' \<Longrightarrow> client_ok c' = client_ok c"
  by (simp add: sameD client_ok_def)

lemma keeps_same_trans: "same c0 c \<Longrightarrow> keeps c c' \<Longrightarrow> keeps c0 c'"
  by (simp add: sameD keeps_def pending_tag_def)

lemma got_mem_keeps: "got_mem c = (got, c1) \<Longrightarrow> same c c1"
  by (simp add: same_def core_got_mem)

lemma call_error_keeps: "same c (call_error f a e c)"
  by (simp add: same_def)

lemma same_trans: "same a b \<Longrightarrow> same b c \<Longrightarrow> same a c"
  by (simp add: same_def)

lemma key_sorted_distinct: "key_sorted key xs \<Longrightarrow> distinct (map key xs)"
  by (induction xs) auto

lemma tree_tags_distinct: "tree_ok t \<Longrightarrow> distinct (map r_tag (inorder t))"
  unfolding tree_ok_def by (blast intro: key_sorted_distinct)

lemma pdcs_write_same:
  "pdcs_write b c = (w, c1) \<Longrightarrow> pdcs_pending c1 = pdcs_pending c \<and> async_tag c1 = async_tag c \<and> taken c1 = taken c
     \<and> calls c1 = calls c"
  by (auto simp: pdcs_write_def split: prod.splits)

text \<open>Adding a command with tag \<open>t\<close> and taking one out.\<close>

lemma add_pendingE:
  assumes "add_pending r c = Inr (res, c')" and "tree_ok (pdcs_pending c)" and "tag_ok r"
  obtains "tree_ok (pdcs_pending c')" and "async_tag c' = async_tag c" and "taken c' = taken c" and "calls c' = calls c"
    and "set (inorder (pdcs_pending c')) = (if res then insert r else id) (set (inorder (pdcs_pending c)))"
    and "\<forall>x \<in> set (inorder (pdcs_pending c)). r_tag x \<noteq> r_tag r"
proof -
  have no: "\<forall>x \<in> set (inorder (pdcs_pending c)). r_tag x \<noteq> r_tag r"
    using add_pending_result(1) [OF assms(2,3)] assms(1) by (metis sum.distinct(1))
  from add_pending_result(2) [OF assms(2,3) this] obtain t where
    "add_pending r c = Inr (fst (alloc (pdc_mem c)),
       c\<lparr> pdc_mem := snd (alloc (pdc_mem c)), pdcs_pending := if fst (alloc (pdc_mem c)) then t else pdcs_pending c \<rparr>)"
    "tree_ok t" "set (inorder t) = insert r (set (inorder (pdcs_pending c)))" by blast
  with assms(1,2) no that show thesis by (cases "fst (alloc (pdc_mem c))") auto
qed

lemma remove_pendingE:
  assumes "remove_pending tag c = Inr (found, c')" and "tree_ok (pdcs_pending c)" and "int_range tag"
  obtains t where "c' = c\<lparr> pdcs_pending := t \<rparr>" and "tree_ok t"
    and "inorder t = filter (\<lambda>r. r_tag r \<noteq> tag) (inorder (pdcs_pending c))"
    and "found = find (\<lambda>r. r_tag r = tag) (inorder (pdcs_pending c))"
  using remove_pending_result [OF assms(2,3)] assms(1) by (metis Inr_inject prod.inject)

lemma async_send_keeps:
  assumes "client_ok c" and "async_tag c + 1 < 2 ^ 31" and "async_send env buf nf err arg c = Inr c'"
  shows "keeps c c'"
proof -
  let ?tag = "async_tag c" and ?r = "\<lparr> r_tag = async_tag c, r_notify = nf \<rparr>"
  obtain got c1 where m: "got_mem c = (got, c1)" by (cases "got_mem c")
  note s1 = got_mem_same [OF m]
  show ?thesis
  proof (cases got)
    case False
    then have "c' = call_error err arg (es env) c1" using assms(3) m by (simp add: async_send_def)
    then have "same c c'" using got_mem_keeps [OF m] call_error_keeps same_trans by metis
    then show ?thesis using same_keeps assms(1) by blast
  next
    case True
    define c2 where "c2 = c1\<lparr> async_tag := ?tag + 1 \<rparr>"
    have i: "int32 (?tag + 1) = ?tag + 1" using assms(1,2) by (simp add: int32_id client_ok_def)
    obtain c3 where add: "add_pending ?r c2 = Inr (True, c3)"
      and rest: "(let (written, c4) = pdcs_write buf c3 in
         if written then Inr c4
         else cbind (remove_pending (async_tag c1) (call_error err arg (write_error env) c4)) (\<lambda>(_, c5). Inr c5)) = Inr c'"
      using assms(3) m True s1 i by (auto simp: async_send_def c2_def Let_def split: if_splits)
    have ok2: "tree_ok (pdcs_pending c2)" "tag_ok ?r"
      using assms(1) s1 by (simp_all add: c2_def client_ok_def tag_ok_def)
    from add_pendingE [OF add ok2] have c3: "tree_ok (pdcs_pending c3)" "async_tag c3 = ?tag + 1" "taken c3 = taken c"
      "calls c3 = calls c" "set (inorder (pdcs_pending c3)) = insert ?r (set (inorder (pdcs_pending c)))"
      using s1 by (auto simp: c2_def)
    obtain w c4 where wr: "pdcs_write buf c3 = (w, c4)" by (cases "pdcs_write buf c3")
    note s4 = pdcs_write_same [OF wr]
    show ?thesis
    proof (cases w)
      case True
      then have "c' = c4" using rest wr by simp
      then show ?thesis
        using c3 s4 assms(1,2) by (auto simp: keeps_def client_ok_def pending_tag_def finals_def)
    next
      case False
      let ?c = "call_error err arg (write_error env) c4"
      obtain found where rm: "remove_pending ?tag ?c = Inr (found, c')" using rest wr False s1 by auto
      have "tree_ok (pdcs_pending ?c)" "int_range ?tag"
        using c3(1) s4 assms(1) by (simp_all add: int_range_def client_ok_def)
      from remove_pendingE [OF rm this] obtain t where
        t: "c' = ?c\<lparr> pdcs_pending := t \<rparr>" "tree_ok t" "inorder t = filter (\<lambda>r. r_tag r \<noteq> ?tag) (inorder (pdcs_pending ?c))"
        by metis
      have "finals k c' = finals k c" for k
      proof -
        have "finals k c' = finals k ?c" by (simp add: t(1) finals_def)
        also have "\<dots> = finals k c" using s4 c3(4) by (simp only: call_error_same) (simp add: finals_def)
        finally show ?thesis .
      qed
      moreover have m: "set (inorder t) = {r \<in> set (inorder (pdcs_pending c)). r_tag r \<noteq> ?tag}"
        using c3(5) s4 by (auto simp: t(3))
      moreover have p: "pdcs_pending c' = t" "async_tag c' = ?tag + 1" "taken c' = taken c"
        using c3(2,3) s4 by (simp_all add: t(1))
      moreover have "client_ok c'"
        using assms(1,2) t(2) unfolding client_ok_def p m by force
      moreover have "pending_tag k c' = pending_tag k c" if "k < ?tag" for k
        using that unfolding pending_tag_def p m by auto
      ultimately show ?thesis by (simp add: keeps_def)
    qed
  qed
qed

lemma async_cmd_callback_keeps:
  assumes "client_ok c" and "async_tag c + 1 < 2 ^ 31" and "async_cmd_callback env buf nf err arg c = Inr c'"
  shows "keeps c c'"
proof -
  obtain got c1 where m: "got_mem c = (got, c1)" by (cases "got_mem c")
  note s = got_mem_keeps [OF m]
  have c1: "client_ok c1" "async_tag c1 = async_tag c"
    using same_ok [OF s] s assms(1) by (simp, simp add: sameD)
  show ?thesis
  proof (cases got)
    case False
    then have "c' = call_error err arg (es env) c1" using assms(3) m by (simp add: async_cmd_callback_def async_text_def)
    then show ?thesis using same_keeps same_trans [OF s call_error_keeps] assms(1) by blast
  next
    case True
    then obtain b where "async_send env b nf err arg c1 = Inr c'"
      using assms(3) m by (auto simp: async_cmd_callback_def async_text_def)
    then show ?thesis using async_send_keeps [OF c1(1)] c1(2) assms(2) keeps_same_trans [OF s] by simp
  qed
qed

lemma cbind_InrE:
  assumes "cbind m f = Inr y"
  obtains x where "m = Inr x" and "f x = Inr y"
  using assms by auto

lemma getresult_cb_same: "getresult_cb a code final line c = Inr c' \<Longrightarrow> same c c'"
  unfolding getresult_cb_def same_def
  by (auto simp: Let_def simp del: cbind_Inr elim!: cbind_InrE dest!: core_got_mem split: if_splits prod.splits)

lemma jgetresult_cb_same: "jgetresult_cb a code final line c = Inr c' \<Longrightarrow> same c c'"
  unfolding jgetresult_cb_def same_def
  by (auto simp: Let_def simp del: cbind_Inr elim!: cbind_InrE dest!: core_got_mem split: if_splits prod.splits)

lemma async_cmd_cb_same: "async_cmd_cb desired err arg code final line c = Inr c' \<Longrightarrow> same c c'"
  unfolding async_cmd_cb_def same_def
  by (auto simp: Let_def simp del: cbind_Inr elim!: cbind_InrE dest!: core_got_mem split: if_splits prod.splits)

lemma async_auth_cb_same:
  "async_auth_cb env success err arg pass code final line c = Inr c' \<Longrightarrow> code \<noteq> 999 \<Longrightarrow> same c c'"
  unfolding async_auth_cb_def same_def
  by (auto simp del: cbind_Inr elim!: cbind_InrE split: if_splits option.splits)

lemma notify_result_keeps:
  assumes "client_ok c" and "async_tag c + 1 < 2 ^ 31" and "notify_result env r code final line c = Inr c'"
  shows "keeps (c\<lparr> calls := calls c @ [Notified r code final] \<rparr>) c'"
    and "code = 500 \<Longrightarrow> same (c\<lparr> calls := calls c @ [Notified r code final] \<rparr>) c'"
proof -
  let ?c = "c\<lparr> calls := calls c @ [Notified r code final] \<rparr>"
  have ok: "client_ok ?c" "async_tag ?c + 1 < 2 ^ 31" using assms(1,2) by (simp_all add: client_ok_def)
  have auth: "keeps ?c c'" if "async_auth_cb env success err arg pass code final line ?c = Inr c'" for success err arg pass
  proof (cases "code = 999")
    case True
    with that obtain buf where
      "async_cmd_callback env buf (Async_Auth_Cb success err arg pass) err arg ?c = Inr c'"
      by (auto simp: async_auth_cb_def split: if_splits)
    then show ?thesis by (rule async_cmd_callback_keeps [OF ok])
  next
    case False
    then show ?thesis using async_auth_cb_same [OF that] same_keeps ok(1) by blast
  qed
  show "keeps ?c c'" using assms(3) auth
    by (cases "r_notify r") (auto simp: notify_result_def Let_def
        dest: getresult_cb_same jgetresult_cb_same async_cmd_cb_same intro: same_keeps [OF _ ok(1)])
  assume c: "code = 500"
  show "same ?c c'"
  proof (cases "r_notify r")
    case (Getresult_Cb a)
    then show ?thesis using assms(3) getresult_cb_same [of a code final line ?c c'] by (simp add: notify_result_def)
  next
    case (Jgetresult_Cb a)
    then show ?thesis using assms(3) jgetresult_cb_same [of a code final line ?c c'] by (simp add: notify_result_def)
  next
    case (Async_Cmd_Cb desired err arg)
    then show ?thesis using assms(3) async_cmd_cb_same [of desired err arg code final line ?c c']
      by (simp add: notify_result_def)
  next
    case (Async_Auth_Cb success err arg pass)
    then show ?thesis using assms(3) c async_auth_cb_same [of env success err arg pass code final line ?c c']
      by (simp add: notify_result_def)
  qed
qed

lemma report_part_core: "report_part line pm n c = Inr (s, c') \<Longrightarrow> core c' = core c"
  unfolding report_part_def by (auto simp del: cbind_Inr elim!: cbind_InrE)

lemma deliver_report_core: "deliver_report line pm val c = Inr c' \<Longrightarrow> core c' = core c"
  unfolding deliver_report_def
  by (auto simp del: cbind_Inr elim!: cbind_InrE dest!: report_part_core split: option.splits prod.splits)

lemma quoted_value_core: "quoted_value line c = (val, line', c') \<Longrightarrow> core c' = core c"
  unfolding quoted_value_def
  by (auto simp: Let_def dest!: core_got_mem split: option.splits if_splits prod.splits)

lemma handle_report_same: "handle_report env line c = Inr c' \<Longrightarrow> same c c'"
  unfolding handle_report_def same_def free_val_def
  by (auto dest!: quoted_value_core deliver_report_core split: option.splits val_ptr.splits prod.splits)

section \<open>The balance of notifications\<close>

definition balance :: "'f pdc_session \<Rightarrow> 'f pdc_session \<Rightarrow> bool" where
  "balance c c' \<longleftrightarrow> client_ok c' \<and> async_tag c \<le> async_tag c' \<and> async_tag c' \<le> async_tag c + 1
     \<and> (\<forall>t. 1 \<le> t \<and> t < async_tag c \<longrightarrow> finals t c \<le> finals t c' \<and> finals t c' + open_count t c' = finals t c + open_count t c)"

lemma keeps_balance: "keeps c c' \<Longrightarrow> balance c c'"
  by (simp add: keeps_def balance_def open_count_def about_to_def)

lemma same_balance: "same c c' \<Longrightarrow> client_ok c \<Longrightarrow> balance c c'"
  by (simp add: same_keeps keeps_balance)

lemma take_result_balance:
  assumes "client_ok c" and "taken c = None" and "take_result line c = Inr c'"
  shows "balance c c'"
proof (cases "result_start line")
  case None
  then show ?thesis using assms same_balance [of c c] by (simp add: take_result_def)
next
  case (Some ts)
  obtain tag startp where ts: "ts = (tag, startp)" by (cases ts)
  have "int_range (atoi s)" for s by (auto simp: atoi_def strtol_def int_range_def)
  then have ir: "int_range tag" using Some ts by (auto simp: result_start_def Let_def int_range_def split: if_splits)
  have ok: "tree_ok (pdcs_pending c)" using assms(1) by (simp add: client_ok_def)
  note find = find_pending_result [OF ok ir]
  from remove_pending_result [OF ok ir] obtain t where
    rm: "remove_pending tag c = Inr (find (\<lambda>r. r_tag r = tag) (inorder (pdcs_pending c)), c\<lparr> pdcs_pending := t \<rparr>)"
    and t: "inorder t = filter (\<lambda>r. r_tag r \<noteq> tag) (inorder (pdcs_pending c))" "tree_ok t" by metis
  let ?line = "if 4 \<le> length startp then Inr (drop 4 startp) else Inl Out_Of_Bounds"
  consider "c' = c" | "find (\<lambda>r. r_tag r = tag) (inorder (pdcs_pending c)) = None" "c' = c\<lparr> pdcs_pending := t \<rparr>"
    | r where "find (\<lambda>r. r_tag r = tag) (inorder (pdcs_pending c)) = Some r"
        "c' = c\<lparr> taken := Some (r, atoi startp, False, ?line) \<rparr>
         \<or> c' = c\<lparr> pdcs_pending := t, taken := Some (r, atoi startp, True, ?line) \<rparr>"
  proof (cases "length line < 4")
    case True
    then show ?thesis using that(1) assms(3) Some ts by (simp add: take_result_def)
  next
    case False
    then obtain ch where ch: "str_at startp 3 = Inr ch" using assms(3) Some ts by (auto simp: take_result_def)
    show ?thesis
    proof (cases "find (\<lambda>r. r_tag r = tag) (inorder (pdcs_pending c))")
      case None
      then show ?thesis using that(1,2) assms(3) Some ts False ch rm find
        by (cases "ch = CHR '' ''") (simp_all add: take_result_def)
    next
      case r: (Some r)
      then show ?thesis using that(3) [of r] assms(3) Some ts False ch rm find
        by (cases "ch = CHR '' ''") (simp_all add: take_result_def)
    qed
  qed
  then show ?thesis
  proof cases
    case 1
    then show ?thesis using assms(1) same_balance [of c c] by simp
  next
    case 2
    then have "set (inorder t) = set (inorder (pdcs_pending c))" by (auto simp: t(1) find_None_iff)
    then show ?thesis using 2(2) t(2) assms(1)
      by (simp add: balance_def client_ok_def open_count_def pending_tag_def about_to_def finals_def)
  next
    case (3 r)
    have r: "r \<in> set (inorder (pdcs_pending c))" "r_tag r = tag" using find_SomeD [OF 3(1)] by auto
    have "set (inorder t) = {x \<in> set (inorder (pdcs_pending c)). r_tag x \<noteq> tag}" by (simp add: t(1))
    then show ?thesis using 3(2) r t(2) assms(1,2)
      by (auto simp: balance_def client_ok_def open_count_def pending_tag_def about_to_def finals_def)
  qed
qed

lemma reader_notify_balance:
  assumes "client_ok c" and "async_tag c + 1 < 2 ^ 31" and "reader_notify env c = Inr c'"
  shows "balance c c'"
proof (cases "taken c")
  case None
  then show ?thesis using assms same_balance [of c c] by (simp add: reader_notify_def)
next
  case (Some x)
  obtain r code final line where x: "x = (r, code, final, line)" by (cases x)
  let ?c = "c\<lparr> taken := None \<rparr>" and ?d = "c\<lparr> taken := None, calls := calls c @ [Notified r code final] \<rparr>"
  have "client_ok ?c" "async_tag ?c + 1 < 2 ^ 31" using assms(1,2) by (simp_all add: client_ok_def)
  then have "keeps ?d c'" using notify_result_keeps(1) [of ?c env r code final line c'] assms(3) Some x
    by (simp add: reader_notify_def)
  then have k: "client_ok c'" "async_tag c \<le> async_tag c'" "async_tag c' \<le> async_tag c + 1" "taken c' = None"
    "\<And>t. 1 \<le> t \<Longrightarrow> t < async_tag c \<Longrightarrow> pending_tag t c' = pending_tag t c \<and> finals t c' = finals t c + of_bool (final \<and> r_tag r = t)"
    by (auto simp: keeps_def pending_tag_def finals_def)
  then show ?thesis using Some x by (auto simp: balance_def open_count_def about_to_def)
qed

definition balance0 :: "'f pdc_session \<Rightarrow> 'f pdc_session \<Rightarrow> bool" where
  "balance0 c c' \<longleftrightarrow> client_ok c' \<and> async_tag c' = async_tag c
     \<and> (\<forall>t. 1 \<le> t \<and> t < async_tag c \<longrightarrow> finals t c \<le> finals t c' \<and> finals t c' + open_count t c' = finals t c + open_count t c)"

lemma balance0_balance: "balance0 c c' \<Longrightarrow> balance c c'"
  by (simp add: balance0_def balance_def)

lemma balance0_trans: "balance0 a b \<Longrightarrow> balance0 b c \<Longrightarrow> balance0 a c"
  unfolding balance0_def by (metis order_trans)

lemma core_balance0: "core c' = core c \<Longrightarrow> client_ok c \<Longrightarrow> balance0 c c'"
proof -
  assume "core c' = core c" and "client_ok c"
  then have "same c c'" by (simp add: same_def)
  from sameD [OF this] same_ok [OF this] \<open>client_ok c\<close> show ?thesis
    by (simp add: balance0_def open_count_def pending_tag_def about_to_def)
qed

lemma core_pdcs_write: "pdcs_write b c = (w, c1) \<Longrightarrow> core c1 = core c"
  by (auto simp: pdcs_write_def split: prod.splits)

lemma core_free: "free_cmd a c = Inr c' \<Longrightarrow> core c' = core c" "free_jcmd a c = Inr c' \<Longrightarrow> core c' = core c"
  by (auto simp: free_cmd_def free_jcmd_def)

text \<open>Synchronous commands use the tag 0 and leave the others alone.\<close>

lemma balance0I:
  assumes "client_ok c" and "tree_ok (pdcs_pending c')"
    and "async_tag c' = async_tag c" and "taken c' = taken c" and "calls c' = calls c"
    and "\<And>r. r_tag r \<noteq> 0 \<Longrightarrow> r \<in> set (inorder (pdcs_pending c')) \<longleftrightarrow> r \<in> set (inorder (pdcs_pending c))"
  shows "balance0 c c'"
proof -
  have "r_tag r < async_tag c" if "r \<in> set (inorder (pdcs_pending c'))" for r
  proof (cases "r_tag r = 0")
    case True
    then show ?thesis using assms(1) by (simp add: client_ok_def)
  next
    case False
    then show ?thesis using assms(1) assms(6) that by (auto simp: client_ok_def)
  qed
  then have "client_ok c'" using assms(1-3) by (simp add: client_ok_def)
  moreover have "pending_tag t c' = pending_tag t c" if "1 \<le> t" for t
    unfolding pending_tag_def using that assms(6) by (metis not_one_le_zero)
  ultimately show ?thesis using assms(3-5)
    by (simp add: balance0_def open_count_def about_to_def finals_def)
qed

lemma remove_zero:
  assumes "client_ok c" and "remove_pending 0 c = Inr (found, c')"
  shows "balance0 c c'"
proof -
  have "tree_ok (pdcs_pending c)" "int_range 0" using assms(1) by (simp_all add: client_ok_def int_range_def)
  from remove_pendingE [OF assms(2) this] obtain t where
    t: "c' = c\<lparr> pdcs_pending := t \<rparr>" "tree_ok t" "inorder t = filter (\<lambda>r. r_tag r \<noteq> 0) (inorder (pdcs_pending c))"
    by metis
  show ?thesis by (rule balance0I [OF assms(1)]) (simp_all add: t)
qed

lemma add_zero:
  assumes "client_ok c" and "add_pending \<lparr> r_tag = 0, r_notify = nf \<rparr> c = Inr (res, c')"
  shows "balance0 c c'"
proof -
  have ok: "tree_ok (pdcs_pending c)" "tag_ok \<lparr> r_tag = 0, r_notify = nf \<rparr>"
    using assms(1) by (simp_all add: client_ok_def tag_ok_def)
  show ?thesis
  proof (rule add_pendingE [OF assms(2) ok])
    assume a: "tree_ok (pdcs_pending c')" "async_tag c' = async_tag c" "taken c' = taken c" "calls c' = calls c"
      and s: "set (inorder (pdcs_pending c')) =
        (if res then insert \<lparr> r_tag = 0, r_notify = nf \<rparr> else id) (set (inorder (pdcs_pending c)))"
    have "r \<in> set (inorder (pdcs_pending c')) \<longleftrightarrow> r \<in> set (inorder (pdcs_pending c))" if "r_tag r \<noteq> 0" for r
      unfolding s using that by (cases res) auto
    then show ?thesis by (rule balance0I [OF assms(1) a])
  qed
qed

lemma begin_balance0:
  assumes "client_ok c" and "core c2 = core c" and "add_pending \<lparr> r_tag = 0, r_notify = nf \<rparr> c2 = Inr (res, c3)"
    and "pdcs_write body c3 = (w, c4)"
    and "core c' = core c3 \<or> c' = c4 \<or> (\<exists>found c5. remove_pending 0 c4 = Inr (found, c5) \<and> core c' = core c5)"
  shows "balance0 c c'"
proof -
  note b2 = core_balance0 [OF assms(2,1)]
  have ok: "balance0 a b \<Longrightarrow> client_ok b" for a b :: "'a pdc_session" by (simp add: balance0_def)
  note b3 = balance0_trans [OF b2 add_zero [OF ok [OF b2] assms(3)]]
  note b4 = balance0_trans [OF b3 core_balance0 [OF core_pdcs_write [OF assms(4)] ok [OF b3]]]
  from assms(5) consider "core c' = core c3" | "c' = c4"
    | found c5 where "remove_pending 0 c4 = Inr (found, c5)" "core c' = core c5" by blast
  then show ?thesis
  proof cases
    case 1
    then show ?thesis using balance0_trans [OF b3 core_balance0 [OF 1 ok [OF b3]]] by simp
  next
    case 2
    then show ?thesis using b4 by simp
  next
    case 3
    note b5 = balance0_trans [OF b4 remove_zero [OF ok [OF b4] 3(1)]]
    show ?thesis by (rule balance0_trans [OF b5 core_balance0 [OF 3(2) ok [OF b5]]])
  qed
qed

lemma cmd_begin_balance0:
  assumes "client_ok c" and "cmd_begin env desired body c = Inr (a, e, c')"
  shows "balance0 c c'"
proof -
  obtain got c1 where m: "got_mem c = (got, c1)" by (cases "got_mem c")
  note s = core_got_mem [OF m]
  show ?thesis
  proof (cases got)
    case False
    then show ?thesis using assms m core_balance0 [OF s] by (simp add: cmd_begin_def)
  next
    case True
    let ?c2 = "c1\<lparr> pdc_brk := pdc_brk c1 + 1,
      cmds := (cmds c1)(pdc_brk c1 \<mapsto> \<lparr> grcba_code = -1, grcba_desired = desired, grcba_line = None \<rparr>) \<rparr>"
    obtain res c3 where add: "add_pending \<lparr> r_tag = 0, r_notify = Getresult_Cb (pdc_brk c1) \<rparr> ?c2 = Inr (res, c3)"
      using assms(2) m True by (auto simp: cmd_begin_def Let_def)
    obtain w c4 where wr: "pdcs_write body c3 = (w, c4)" by (cases "pdcs_write body c3")
    have "core c' = core c3 \<or> c' = c4 \<or> (\<exists>found c5. remove_pending 0 c4 = Inr (found, c5) \<and> core c' = core c5)"
      using assms(2) m True add wr core_free(1)
      by (cases res; cases w) (force simp: cmd_begin_def Let_def)+
    from begin_balance0 [OF assms(1) _ add wr this] show ?thesis using s by simp
  qed
qed

lemma jcmd_begin_balance0:
  assumes "client_ok c" and "jcmd_begin env body has_buf len c = Inr (a, e, c')"
  shows "balance0 c c'"
proof -
  obtain got c1 where m: "got_mem c = (got, c1)" by (cases "got_mem c")
  note s = core_got_mem [OF m]
  show ?thesis
  proof (cases got)
    case False
    then show ?thesis using assms m core_balance0 [OF s] by (simp add: jcmd_begin_def)
  next
    case True
    let ?c2 = "c1\<lparr> pdc_brk := pdc_brk c1 + 1, jcmds := (jcmds c1)(pdc_brk c1 \<mapsto>
      \<lparr> jgrcba_code = -1, jgrcba_reply = (if has_buf then Some [] else None), jgrcba_reply_len = len, jgrcba_moved = False \<rparr>) \<rparr>"
    obtain res c3 where add: "add_pending \<lparr> r_tag = 0, r_notify = Jgetresult_Cb (pdc_brk c1) \<rparr> ?c2 = Inr (res, c3)"
      using assms(2) m True by (auto simp: jcmd_begin_def Let_def)
    obtain w c4 where wr: "pdcs_write body c3 = (w, c4)" by (cases "pdcs_write body c3")
    have "core c' = core c3 \<or> c' = c4 \<or> (\<exists>found c5. remove_pending 0 c4 = Inr (found, c5) \<and> core c' = core c5)"
      using assms(2) m True add wr core_free(2)
      by (cases res; cases w) (force simp: jcmd_begin_def Let_def)+
    from begin_balance0 [OF assms(1) _ add wr this] show ?thesis using s by simp
  qed
qed

section \<open>Answering what is left\<close>

lemma reader_signal_core: "reader_signal c = Inr c' \<Longrightarrow> core c' = core c"
  by (auto simp: reader_signal_def split: option.splits if_splits)

lemma finals_notified:
  "finals t (c\<lparr> calls := calls c @ [Notified r code final] \<rparr>) = finals t c + of_bool (final \<and> r_tag r = t)"
  by (simp add: finals_def)

lemma finish_all_counts:
  assumes "client_ok c" and "async_tag c + 1 < 2 ^ 31" and "finish_all env rs c = Inr c'"
  shows "pdcs_pending c' = pdcs_pending c \<and> async_tag c' = async_tag c \<and> taken c' = taken c
     \<and> finals t c' = finals t c + length (filter (\<lambda>r. r_tag r = t) rs)"
  using assms
proof (induction rs arbitrary: c)
  case (Cons r rs)
  let ?c = "c\<lparr> calls := calls c @ [Notified r 500 True] \<rparr>"
  from Cons.prems(3) obtain c1 c2 where n: "notify_result env r 500 True (Inr (closed_text r)) c = Inr c1"
    and g: "reader_signal c1 = Inr c2" and f: "finish_all env rs c2 = Inr c'" by auto
  have "same ?c c1" by (rule notify_result_keeps(2) [OF Cons.prems(1,2) n]) simp
  then have s: "same ?c c2" using reader_signal_core [OF g] by (simp add: same_def)
  have "client_ok ?c" "async_tag ?c + 1 < 2 ^ 31" using Cons.prems(1,2) by (simp_all add: client_ok_def)
  then have "client_ok c2" "async_tag c2 + 1 < 2 ^ 31" using same_ok [OF s] sameD(2) [OF s] by simp_all
  from Cons.IH [OF this f] sameD [OF s] show ?case by (simp add: finals_notified)
qed simp

lemma filter_postorder: "length (filter P (postorder t)) = length (filter P (inorder t))"
  by (induction t) simp_all

lemma count_tag: "distinct (map r_tag rs) \<Longrightarrow> length (filter (\<lambda>r. r_tag r = t) rs) = of_bool (\<exists>r \<in> set rs. r_tag r = t)"
proof (induction rs)
  case (Cons r rs)
  then show ?case by (cases "r_tag r = t") (force simp: image_iff)+
qed simp

text \<open>The commands that fail \<open>P\<close> are answered and taken out.\<close>

lemma finish_balance:
  assumes "client_ok c" and "async_tag c + 1 < 2 ^ 31"
    and "finish_all env (filter (\<lambda>r. \<not> P r) (postorder (pdcs_pending c))) (c\<lparr> pdcs_pending := tr_prune P (pdcs_pending c) \<rparr>) = Inr c'"
  shows "balance c c'" and "pdcs_pending c' = tr_prune P (pdcs_pending c)" and "taken c' = taken c"
proof -
  let ?c = "c\<lparr> pdcs_pending := tr_prune P (pdcs_pending c) \<rparr>" and ?rs = "inorder (pdcs_pending c)"
  have t: "tree_ok (pdcs_pending c)" using assms(1) by (simp add: client_ok_def)
  then have p: "tree_ok (tr_prune P (pdcs_pending c))"
    unfolding tree_ok_def inorder_prune key_sorted_def by (auto intro: sorted_wrt_filter)
  have in_p: "set (inorder (tr_prune P (pdcs_pending c))) = {r \<in> set ?rs. P r}" unfolding inorder_prune by auto
  have ok: "client_ok ?c" "async_tag ?c + 1 < 2 ^ 31"
  proof -
    have "\<forall>r \<in> set (inorder (tr_prune P (pdcs_pending c))). r_tag r < async_tag c"
      unfolding in_p using assms(1) by (auto simp: client_ok_def)
    then show "client_ok ?c" using assms(1) p by (simp add: client_ok_def)
    show "async_tag ?c + 1 < 2 ^ 31" using assms(2) by simp
  qed
  note f = finish_all_counts [OF ok assms(3)]
  show pe: "pdcs_pending c' = tr_prune P (pdcs_pending c)" and ta: "taken c' = taken c" using f by simp_all
  have ok': "client_ok c'" using ok(1) f unfolding client_ok_def by simp
  have cnt: "length (filter (\<lambda>r. r_tag r = k) (filter (\<lambda>r. \<not> P r) (postorder (pdcs_pending c))))
      = of_bool (\<exists>r \<in> set ?rs. r_tag r = k \<and> \<not> P r)" for k
  proof -
    have "distinct (map r_tag (filter (\<lambda>r. \<not> P r) ?rs))" using tree_tags_distinct [OF t] by (simp add: distinct_map_filter)
    from count_tag [OF this, of k] show ?thesis by (simp add: filter_postorder conj_commute) blast
  qed
  have uniq: "r = s" if "r \<in> set ?rs" "s \<in> set ?rs" "r_tag r = r_tag s" for r s
    using tree_tags_distinct [OF t] that by (simp add: distinct_map inj_on_def)
  have "finals k c \<le> finals k c' \<and> finals k c' + open_count k c' = finals k c + open_count k c" for k
  proof -
    have "finals k c' = finals k c + of_bool (\<exists>r \<in> set ?rs. r_tag r = k \<and> \<not> P r)"
      using f [of k] cnt [of k] by (simp add: finals_def)
    moreover have "pending_tag k c' = (\<exists>r \<in> set ?rs. P r \<and> r_tag r = k)"
      unfolding pending_tag_def pe in_p by auto
    moreover have "pending_tag k c = (\<exists>r \<in> set ?rs. r_tag r = k)" by (simp add: pending_tag_def)
    moreover have "about_to k c' = about_to k c" by (simp add: about_to_def ta)
    ultimately show ?thesis using uniq by (cases "\<exists>r \<in> set ?rs. r_tag r = k") (auto simp: open_count_def)
  qed
  then show "balance c c'" using ok' f by (simp add: balance_def)
qed

lemma reader_close_balance:
  assumes "client_ok c" and "async_tag c + 1 < 2 ^ 31" and "reader_close env c = Inr c'"
  shows "balance c c'" and "pdcs_pending c' = Leaf" and "taken c' = taken c"
proof -
  from assms(3) obtain c1 where c1: "finish_all env (filter (\<lambda>_. \<not> False) (postorder (pdcs_pending c)))
      (c\<lparr> pdcs_pending := tr_prune (\<lambda>_. False) (pdcs_pending c) \<rparr>) = Inr c1"
    and c': "c' = c1\<lparr> pdcs_listeners := Leaf, reader_done := True \<rparr>"
    by (auto simp: reader_close_def Let_def split: if_splits)
  note f = finish_balance [OF assms(1,2) c1]
  have "core c' = core c1" by (simp add: c')
  then have s: "same c1 c'" by (simp add: same_def)
  show "pdcs_pending c' = Leaf" "taken c' = taken c" using f(2,3) sameD [OF s] by simp_all
  show "balance c c'" using f(1) sameD [OF s] same_ok [OF s]
    by (simp add: balance_def open_count_def pending_tag_def about_to_def)
qed

lemma client_step_balance:
  assumes "client_ok c" and "async_tag c + 1 < 2 ^ 31" and "client_step env s c = Inr c'"
  shows "balance c c'"
proof -
  have self: "balance c c" using same_balance [OF same_refl assms(1)] .
  have via: "balance c c'" if "balance0 c c1" "core c' = core c1" for c1
    using balance0_balance [OF balance0_trans [OF that(1) core_balance0 [OF that(2)]]] that(1) by (simp add: balance0_def)
  show ?thesis
  proof (cases s)
    case (Send buf nf err arg)
    then have "keeps c c'" using async_send_keeps [OF assms(1,2)] assms(3) by simp
    then show ?thesis by (rule keeps_balance)
  next
    case (Take_Line line)
    show ?thesis
    proof (cases "reader_idle c \<and> take 1 line \<noteq> ''r''")
      case True
      then have "taken c = None" "take_result line c = Inr c'" using assms(3) Take_Line by (simp_all add: reader_idle_def)
      then show ?thesis by (rule take_result_balance [OF assms(1)])
    next
      case False
      then have "c' = c \<or> handle_report env line c = Inr c'" using assms(3) Take_Line by (auto split: if_splits)
      then show ?thesis using self same_balance [OF handle_report_same assms(1)] by blast
    qed
  next
    case Notify
    then show ?thesis using reader_notify_balance [OF assms(1,2)] assms(3) by simp
  next
    case Signal
    then show ?thesis using same_balance [OF _ assms(1)] assms(3) reader_signal_core [of c c'] by (simp add: same_def)
  next
    case (Begin desired body)
    then obtain a e where "cmd_begin env desired body c = Inr (a, e, c')" using assms(3) by (auto simp: state_of_def)
    then show ?thesis using balance0_balance cmd_begin_balance0 [OF assms(1)] by blast
  next
    case (Timed_Out body a)
    then obtain found c1 where "remove_pending 0 c = Inr (found, c1)" "free_cmd a c1 = Inr c'"
      using assms(3) by (auto simp: state_of_def cmd_timed_out_def)
    then show ?thesis using via [OF remove_zero [OF assms(1)]] core_free by blast
  next
    case (End a)
    then have "free_cmd a c = Inr c'" using assms(3) by (auto simp: state_of_def cmd_end_def split: if_splits)
    then show ?thesis using balance0_balance core_balance0 [OF core_free(1) assms(1)] by blast
  next
    case (Get_Begin body has_buf len)
    then obtain a e where "jcmd_begin env body has_buf len c = Inr (a, e, c')" using assms(3) by (auto simp: state_of_def)
    then show ?thesis using balance0_balance jcmd_begin_balance0 [OF assms(1)] by blast
  next
    case (Get_Timed_Out body a)
    then obtain found c1 where "remove_pending 0 c = Inr (found, c1)" "free_jcmd a c1 = Inr c'"
      using assms(3) by (auto simp: jcmd_timed_out_def)
    then show ?thesis using via [OF remove_zero [OF assms(1)]] core_free by blast
  next
    case (Get_End a desired)
    then have "free_jcmd a c = Inr c'" using assms(3) by (auto simp: jcmd_finish_def)
    then show ?thesis using balance0_balance core_balance0 [OF core_free(2) assms(1)] by blast
  next
    case (Clean arg)
    then show ?thesis using finish_balance(1) [OF assms(1,2), of env "\<lambda>r. \<not> of_arg arg r" c'] assms(3)
      by (simp add: clean_pending_async_def)
  next
    case Other_Session
    then have "c' = c\<lparr> async_tag := async_tag c + 1 \<rparr>" using assms by (simp add: int32_id client_ok_def)
    then show ?thesis using assms(1,2)
      by (auto simp: balance_def client_ok_def open_count_def pending_tag_def about_to_def finals_def)
  next
    case Close
    then show ?thesis using reader_close_balance(1) [OF assms(1,2)] assms(3) self by (auto split: if_splits)
  qed
qed

lemma client_run_balance:
  assumes "client_ok c" and "async_tag c + int (length ss) < 2 ^ 31" and "client_run env ss c = Inr c'"
  shows "client_ok c' \<and> async_tag c \<le> async_tag c' \<and> async_tag c' \<le> async_tag c + int (length ss)
     \<and> (\<forall>t. 1 \<le> t \<and> t < async_tag c \<longrightarrow> finals t c \<le> finals t c' \<and> finals t c' + open_count t c' = finals t c + open_count t c)"
  using assms
proof (induction ss arbitrary: c)
  case (Cons s ss)
  from Cons.prems(3) obtain c1 where s: "client_step env s c = Inr c1" and r: "client_run env ss c1 = Inr c'" by auto
  have "balance c c1" by (rule client_step_balance [OF Cons.prems(1) _ s]) (use Cons.prems(2) in simp)
  then have b: "client_ok c1" "async_tag c \<le> async_tag c1" "async_tag c1 \<le> async_tag c + 1"
    "\<And>t. 1 \<le> t \<Longrightarrow> t < async_tag c \<Longrightarrow> finals t c \<le> finals t c1 \<and> finals t c1 + open_count t c1 = finals t c + open_count t c"
    by (simp_all add: balance_def)
  have "async_tag c1 + int (length ss) < 2 ^ 31" using b(3) Cons.prems(2) by simp
  note ih = Cons.IH [OF b(1) this r]
  have "finals t c \<le> finals t c' \<and> finals t c' + open_count t c' = finals t c + open_count t c"
    if "1 \<le> t" "t < async_tag c" for t
  proof -
    have "t < async_tag c1" using that(2) b(2) by simp
    with ih that(1) b(4) [OF that] show ?thesis by force
  qed
  with ih b(2,3) show ?case by simp
qed simp

lemma client_run_append: "client_run env (ss @ ts) c = cbind (client_run env ss c) (client_run env ts)"
  by (induction ss arbitrary: c) (auto simp: cbind_def split: sum.splits)

section \<open>Properties\<close>

text \<open>
  C16: every asynchronous command is answered exactly once. Whatever the threads of the client
  do, in any order, and whatever lines the server sends, a command that is pending is notified
  of a final result at most once; it has been notified exactly when it is neither pending nor
  in the hands of the reader; and when the socket is closed, the last of the pending commands
  has been notified, and none is left.\<close>

theorem async_answered_once:
  assumes "client_ok c" and "1 \<le> t" and "pending_tag t c" and "\<not> about_to t c"
    and "async_tag c + int (length ss) + 1 < 2 ^ 31" and "client_run env ss c = Inr c1"
  shows "finals t c1 = finals t c + (if pending_tag t c1 \<or> about_to t c1 then 0 else 1)
     \<and> \<not> (pending_tag t c1 \<and> about_to t c1)
     \<and> (\<forall>c2. reader_idle c1 \<and> client_step env Close c1 = Inr c2 \<longrightarrow>
          finals t c2 = finals t c + 1 \<and> pdcs_pending c2 = Leaf)"
proof -
  have t: "t < async_tag c" using assms(1,3) by (auto simp: client_ok_def pending_tag_def)
  have "async_tag c + int (length ss) < 2 ^ 31" using assms(5) by simp
  note r = client_run_balance [OF assms(1) this assms(6)]
  have b: "finals t c1 + open_count t c1 = finals t c + 1" "finals t c \<le> finals t c1"
    using r t assms(2-4) by (simp_all add: open_count_def)
  have last: "finals t c2 = finals t c + 1 \<and> pdcs_pending c2 = Leaf"
    if i: "reader_idle c1" and s: "client_step env Close c1 = Inr c2" for c2
  proof -
    have cl: "reader_close env c1 = Inr c2" using i s by simp
    have "client_ok c1" "async_tag c1 + 1 < 2 ^ 31" using r assms(5) by auto
    note c = reader_close_balance [OF this cl]
    have "about_to t c2 = False" using c(3) i by (simp add: about_to_def reader_idle_def)
    moreover have "pending_tag t c2 = False" using c(2) by (simp add: pending_tag_def)
    moreover have "t < async_tag c1" using r t by simp
    then have "finals t c2 + open_count t c2 = finals t c1 + open_count t c1"
      using c(1) assms(2) by (simp add: balance_def)
    ultimately show ?thesis using b c(2) by (simp add: open_count_def)
  qed
  show ?thesis using b last by (auto simp: open_count_def of_bool_def split: if_splits)
qed

text \<open>
  C22: the text of an asynchronous command is formatted before the lock is taken. When two
  threads have formatted theirs before the first registers, both commands go out under the
  same tag: the reply to the second is dropped, and the second command stays pending with a
  tag that the server never saw.\<close>

theorem async_tags_race:
  fixes c :: "'f pdc_session" and b1 b2 m1 m2 :: string and d1 d2 :: int and e1 e2 :: "'f option" and a1 a2 :: addr
  assumes "client_ok c" and "async_tag c + 2 < 2 ^ 31" and "pdc_mem c = []" and "pdc_writes c = []"
    and "reader_idle c" and "100 \<le> k1" "k1 < 1000" and "100 \<le> k2" "k2 < 1000"
  defines "r1 \<equiv> \<lparr> r_tag = async_tag c, r_notify = Async_Cmd_Cb d1 e1 a1 \<rparr>"
    and "r2 \<equiv> \<lparr> r_tag = async_tag c + 1, r_notify = Async_Cmd_Cb d2 e2 a2 \<rparr>"
    and "tag \<equiv> CHR ''T'' # dec_int (async_tag c)"
  shows "\<exists>u1 c1 u2 c2 c3 c4 c5.
      async_text b1 c = (Some u1, c1) \<and> async_text b2 c1 = (Some u2, c2)
    \<and> async_send env u1 (Async_Cmd_Cb d1 e1 a1) e1 a1 c2 = Inr c3
    \<and> async_send env u2 (Async_Cmd_Cb d2 e2 a2) e2 a2 c3 = Inr c4
    \<and> pdc_sent c4 = pdc_sent c @ [tag @ '' '' @ b1, tag @ '' '' @ b2]
    \<and> read_result env (tagged (Some tag) (dec_nat k1 @ '' '' @ m1)) c4 = Inr c5
    \<and> calls c5 = calls c @ Notified r1 (int k1) True # errors_of d1 (int k1) e1 a1 m1
    \<and> read_result env (tagged (Some tag) (dec_nat k2 @ '' '' @ m2)) c5 = Inr c5
    \<and> r2 \<in> set (inorder (pdcs_pending c5))"
proof -
  define n where "n = nat (async_tag c)"
  have n: "async_tag c = int n" "dec_int (async_tag c) = dec_nat n" "n < 2 ^ 31"
    using assms(1,2) by (auto simp: client_ok_def n_def dec_int_def)
  have line: "tagged (Some tag) (dec_nat k @ '' '' @ m) = tag_reply n k m" for k m
    by (simp add: tagged_def tag_reply_def tag_def n(2))
  have txt1: "async_text b c = (Some (tag @ '' '' @ b), c)" for b
    by (simp add: async_text_def got_mem_nil [OF assms(3)] tag_def)
  obtain t1 where s1: "async_send env (tag @ '' '' @ b1) (Async_Cmd_Cb d1 e1 a1) e1 a1 c =
      Inr (c\<lparr> async_tag := int32 (async_tag c + 1), pdcs_pending := t1, pdc_sent := pdc_sent c @ [tag @ '' '' @ b1] \<rparr>)"
    and t1: "set (inorder t1) = insert r1 (set (inorder (pdcs_pending c)))" "tree_ok t1"
    unfolding r1_def by (rule async_send_sends [OF assms(1,3,4)])
  define c3 where "c3 = c\<lparr> async_tag := async_tag c + 1, pdcs_pending := t1, pdc_sent := pdc_sent c @ [tag @ '' '' @ b1] \<rparr>"
  have i: "int32 (async_tag c + 1) = async_tag c + 1" "int32 (async_tag c3 + 1) = async_tag c + 2"
    using assms(1,2) by (simp_all add: int32_id client_ok_def c3_def)
  have "\<forall>r \<in> set (inorder t1). r_tag r < async_tag c + 1"
    unfolding t1(1) using assms(1) by (force simp: client_ok_def r1_def)
  then have c3: "client_ok c3" "pdc_mem c3 = []" "pdc_writes c3 = []"
    using assms(1-4) t1(2) by (simp_all add: client_ok_def c3_def)
  have r2: "r2 = \<lparr> r_tag = async_tag c3, r_notify = Async_Cmd_Cb d2 e2 a2 \<rparr>" by (simp add: r2_def c3_def)
  obtain t2 where s2: "async_send env (tag @ '' '' @ b2) (Async_Cmd_Cb d2 e2 a2) e2 a2 c3 =
      Inr (c3\<lparr> async_tag := int32 (async_tag c3 + 1), pdcs_pending := t2, pdc_sent := pdc_sent c3 @ [tag @ '' '' @ b2] \<rparr>)"
    and t2: "set (inorder t2) = insert r2 (set (inorder (pdcs_pending c3)))" "tree_ok t2"
    unfolding r2 by (rule async_send_sends [OF c3])
  define c4 where "c4 = c3\<lparr> async_tag := async_tag c + 2, pdcs_pending := t2, pdc_sent := pdc_sent c3 @ [tag @ '' '' @ b2] \<rparr>"
  have in4: "r1 \<in> set (inorder t2)" "r2 \<in> set (inorder t2)" using t1(1) t2(1) by (auto simp: c3_def)
  have c4: "tree_ok (pdcs_pending c4)" "r1 \<in> set (inorder (pdcs_pending c4))" "r_tag r1 = int n"
    "r_notify r1 = Async_Cmd_Cb d1 e1 a1" "pdc_mem c4 = []" "to_signal c4 = None"
    using t2(2) in4 assms(3,5) by (simp_all add: c4_def c3_def r1_def n(1) reader_idle_def)
  obtain t5 where s5: "read_result env (tag_reply n k1 m1) c4 =
      Inr (c4\<lparr> pdcs_pending := t5, taken := None,
              calls := calls c4 @ Notified r1 (int k1) True # errors_of d1 (int k1) e1 a1 m1 \<rparr>)"
    and t5: "inorder t5 = filter (\<lambda>x. r_tag x \<noteq> r_tag r1) (inorder (pdcs_pending c4))"
    by (rule read_reply [OF c4 assms(6,7)])
  define c5 where "c5 = c4\<lparr> pdcs_pending := t5, taken := None,
      calls := calls c4 @ Notified r1 (int k1) True # errors_of d1 (int k1) e1 a1 m1 \<rparr>"
  have ok5: "tree_ok (pdcs_pending c5)" "\<forall>r \<in> set (inorder (pdcs_pending c5)). r_tag r \<noteq> int n"
    using c4(1) t5 unfolding tree_ok_def key_sorted_def
    by (auto simp: c5_def r1_def n(1) t5 intro: sorted_wrt_filter simp del: set_inorder)
  have s6: "read_result env (tag_reply n k2 m2) c5 = Inr c5"
    by (rule read_reply_unknown [OF ok5 n(3) _ _ assms(8,9)]) (simp_all add: c5_def c4(6))
  have "r2 \<in> set (inorder t5)" unfolding t5 using in4(2) by (simp add: c4_def r1_def r2_def)
  then have fin: "r2 \<in> set (inorder (pdcs_pending c5))" by (simp add: c5_def)
  have sent: "pdc_sent c4 = pdc_sent c @ [tag @ '' '' @ b1, tag @ '' '' @ b2]"
    and call: "calls c5 = calls c @ Notified r1 (int k1) True # errors_of d1 (int k1) e1 a1 m1"
    by (simp_all add: c5_def c4_def c3_def)
  show ?thesis unfolding line
    using txt1 [of b1] txt1 [of b2] s1 s2 s5 [folded c5_def] s6 fin sent call
    unfolding i c3_def [symmetric] c4_def [symmetric] by blast
qed

definition one_pending :: "nat pdc_session" where
  "one_pending = sample_client\<lparr> async_tag := 2,
     pdcs_pending := Node Leaf \<lparr> r_tag = 1, r_notify = Async_Cmd_Cb 200 (Some 7) 3 \<rparr> Leaf \<rparr>"

theorem async_answered_once_witness:
  "\<exists>c. client_run sample_env [Take_Line (tag_reply 1 200 ''ok''), Notify] one_pending = Inr c \<and> finals 1 c = 1"
proof -
  let ?r = "\<lparr> r_tag = 1, r_notify = Async_Cmd_Cb 200 (Some (7 :: nat)) 3 \<rparr>"
  let ?ss = "[Take_Line (tag_reply 1 200 ''ok''), Notify] :: nat client_action list"
  have ok: "client_ok one_pending" "pending_tag 1 one_pending" "\<not> about_to 1 one_pending" "finals 1 one_pending = 0"
    "async_tag one_pending + int (length ?ss) + 1 < 2 ^ 31" "reader_idle one_pending"
    using sample_client_ok
    by (simp_all add: one_pending_def client_ok_def tree_ok_def tag_ok_def pending_tag_def about_to_def finals_def reader_idle_def)
  have p: "tree_ok (pdcs_pending one_pending)" "?r \<in> set (inorder (pdcs_pending one_pending))" "r_tag ?r = int 1"
    "100 \<le> (200 :: nat)" "(200 :: nat) < 1000"
    using ok(1) by (simp_all add: client_ok_def one_pending_def)
  obtain t where tk: "take_result (tag_reply 1 200 ''ok'') one_pending =
      Inr (one_pending\<lparr> pdcs_pending := t, taken := Some (?r, int 200, True, Inr ''ok'') \<rparr>)"
    and t: "inorder t = filter (\<lambda>x. r_tag x \<noteq> int 1) (inorder (pdcs_pending one_pending))"
    by (rule take_result_reply [OF p])
  have "inorder t = []" using t by (simp add: one_pending_def)
  then have leaf: "t = Leaf" by (cases t) simp_all
  define c where "c = one_pending\<lparr> pdcs_pending := Leaf, taken := None, calls := [Notified ?r 200 True] \<rparr>"
  have "take 1 (tag_reply 1 200 ''ok'') \<noteq> ''r''" by (simp add: tag_reply_def)
  then have run: "client_run sample_env ?ss one_pending = Inr c"
    using tk ok(6) by (simp del: cbind_Inr add: leaf reader_notify_def notify_result_def async_cmd_cb_def c_def one_pending_def sample_client_ok)
  have "\<not> pending_tag 1 c" "\<not> about_to 1 c" by (simp_all add: c_def pending_tag_def about_to_def)
  with async_answered_once [OF ok(1) _ ok(2,3,5) run] ok(4) have "finals 1 c = 1" by simp
  with run show ?thesis by blast
qed

theorem async_tags_race_witness:
  "\<exists>c5 :: nat pdc_session. \<lparr> r_tag = 2, r_notify = Async_Cmd_Cb 200 (Some 7) 4 \<rparr> \<in> set (inorder (pdcs_pending c5))
     \<and> calls c5 = [Notified \<lparr> r_tag = 1, r_notify = Async_Cmd_Cb 200 (Some 7) 3 \<rparr> 200 True]"
  using async_tags_race [where c = sample_client and env = sample_env and ?k1.0 = 200 and ?k2.0 = 200
      and ?d1.0 = 200 and ?e1.0 = "Some 7" and ?a1.0 = 3 and ?d2.0 = 200 and ?e2.0 = "Some 7" and ?a2.0 = 4
      and ?b1.0 = "''a''" and ?b2.0 = "''b''" and ?m1.0 = "''ok''" and ?m2.0 = "''ok''"]
  by (auto simp: sample_client_ok reader_idle_def errors_of_def)

end
