(* ===== verification/ClientCalls.thy ===== *)
theory ClientCalls
  imports ClientProps
begin

text \<open>
  Synchronous commands of the dictionary client: what a caller gets for the reply that
  arrives while it waits, what a time-out leaves behind, and how \<open>pdc_get\<close> reads what the
  server of theory \<open>PDictSession\<close> prints.
\<close>

section \<open>Replies without a tag\<close>

text \<open>The commands of \<open>cmd\<close> and \<open>jcmd\<close> have no tag, nor have the replies to them.\<close>

definition plain_reply :: "nat \<Rightarrow> string \<Rightarrow> string" where
  "plain_reply code msg = dec_nat code @ '' '' @ msg"

lemma dec_nat_start: "take 1 (dec_nat n @ s) \<noteq> ''T''" "take 1 (dec_nat n @ s) \<noteq> ''r''"
proof -
  obtain x t where "dec_nat n = x # t" "is_digit x"
    using dec_nat_digits [of n] by (cases "dec_nat n") simp_all
  then show "take 1 (dec_nat n @ s) \<noteq> ''T''" "take 1 (dec_nat n @ s) \<noteq> ''r''" by (auto simp: is_digit_def)
qed

lemma take_result_plain:
  assumes "tree_ok (pdcs_pending c)" and "r \<in> set (inorder (pdcs_pending c))" and "r_tag r = 0"
    and "100 \<le> code" and "code < 1000"
  obtains t where "take_result (plain_reply code msg) c =
      Inr (c\<lparr> pdcs_pending := t, taken := Some (r, int code, True, Inr msg) \<rparr>)"
    and "inorder t = filter (\<lambda>x. r_tag x \<noteq> 0) (inorder (pdcs_pending c))" and "tree_ok t"
proof -
  have "int_range 0" by (simp add: int_range_def)
  from remove_pending_result [OF assms(1) this] obtain t where
    t: "remove_pending 0 c = Inr (Some r, c\<lparr> pdcs_pending := t \<rparr>)"
      "inorder t = filter (\<lambda>r. r_tag r \<noteq> 0) (inorder (pdcs_pending c))" "tree_ok t"
    using find_pending_tag [OF assms(1,2)] assms(3) by metis
  have "result_start (plain_reply code msg) = Some (0, plain_reply code msg)"
    using dec_nat_start(1) by (simp add: result_start_def plain_reply_def)
  then have "take_result (plain_reply code msg) c = Inr (c\<lparr> pdcs_pending := t, taken := Some (r, int code, True, Inr msg) \<rparr>)"
    using reply_code(1-4) [OF assms(4,5), where msg = msg] t(1)
    by (simp del: cbind_Inr add: take_result_def plain_reply_def)
  with t(2,3) that show thesis by blast
qed

text \<open>A session in which the next synchronous command can be sent.\<close>

definition can_call :: "'f pdc_session \<Rightarrow> bool" where
  "can_call c \<longleftrightarrow> tree_ok (pdcs_pending c) \<and> (\<forall>r \<in> set (inorder (pdcs_pending c)). r_tag r \<noteq> 0)
     \<and> pdc_mem c = [] \<and> pdc_writes c = [] \<and> taken c = None \<and> to_signal c = None"

definition called :: "'f pdc_session \<Rightarrow> getresult \<Rightarrow> 'f result_t tree \<Rightarrow> string \<Rightarrow> 'f pdc_session" where
  "called c g t body = c\<lparr> pdcs_pending := t, pdc_brk := pdc_brk c + 1, cmds := (cmds c)(pdc_brk c \<mapsto> g),
     pdc_sent := pdc_sent c @ [body] \<rparr>"

lemma called_simps [simp]:
  "pdcs_pending (called c g t body) = t" "cmds (called c g t body) = (cmds c)(pdc_brk c \<mapsto> g)"
  "pdc_sent (called c g t body) = pdc_sent c @ [body]" "calls (called c g t body) = calls c"
  "pdc_mem (called c g t body) = pdc_mem c" "pdc_writes (called c g t body) = pdc_writes c"
  "taken (called c g t body) = taken c" "to_signal (called c g t body) = to_signal c"
  by (simp_all add: called_def)

definition fresh_call :: "int \<Rightarrow> getresult" where
  "fresh_call desired = \<lparr> grcba_code = -1, grcba_desired = desired, grcba_line = None \<rparr>"

lemma fresh_call_simps [simp]:
  "grcba_code (fresh_call desired) = -1" "grcba_desired (fresh_call desired) = desired" "grcba_line (fresh_call desired) = None"
  by (simp_all add: fresh_call_def)

lemma cmd_begin_sends:
  assumes "can_call c"
  obtains t where "cmd_begin env desired body c = Inr (Some (pdc_brk c), None, called c (fresh_call desired) t body)"
    and "tree_ok t" and "set (inorder t) = insert \<lparr> r_tag = 0, r_notify = Getresult_Cb (pdc_brk c) \<rparr> (set (inorder (pdcs_pending c)))"
proof -
  let ?r = "\<lparr> r_tag = 0, r_notify = Getresult_Cb (pdc_brk c) \<rparr>"
  let ?c = "c\<lparr> pdc_brk := pdc_brk c + 1, cmds := (cmds c)(pdc_brk c \<mapsto> fresh_call desired) \<rparr>"
  have "tree_ok (pdcs_pending ?c)" "tag_ok ?r" "\<forall>x \<in> set (inorder (pdcs_pending ?c)). r_tag x \<noteq> r_tag ?r"
    using assms by (auto simp: can_call_def tag_ok_def)
  from add_pending_result(2) [OF this] obtain t where
    t: "add_pending ?r ?c = Inr (True, ?c\<lparr> pdc_mem := [], pdcs_pending := t \<rparr>)" "tree_ok t"
      "set (inorder t) = insert ?r (set (inorder (pdcs_pending c)))"
    using assms by (auto simp: can_call_def)
  have "cmd_begin env desired body c = Inr (Some (pdc_brk c), None, called c (fresh_call desired) t body)"
    using assms t(1) by (cases c) (simp del: cbind_Inr
      add: cmd_begin_def got_mem_def pdcs_write_def can_call_def called_def fresh_call_def)
  with that t(2,3) show thesis by blast
qed

lemma filter_no_sync:
  assumes "can_call c" and "set (inorder t) = insert \<lparr> r_tag = 0, r_notify = nf \<rparr> (set (inorder (pdcs_pending c)))"
    and "inorder u = filter (\<lambda>x. r_tag x \<noteq> 0) (inorder t)"
  shows "set (inorder u) = set (inorder (pdcs_pending c))"
  using assms(1) unfolding assms(3) set_filter assms(2) by (auto simp: can_call_def)

text \<open>What the caller is told.\<close>

definition verdict :: "int \<Rightarrow> nat \<Rightarrow> string \<Rightarrow> bool \<times> string option" where
  "verdict desired code msg =
     (if int code = desired then (True, None) else (False, Some (protocol_error (int code) (Some msg))))"

lemma cmd_answered:
  assumes "can_call c" and "100 \<le> code" and "code < 1000"
  shows "\<exists>c1. cmd env desired body [(read_result env (plain_reply code msg), False)] c =
      Some (Inr (fst (verdict desired code msg), snd (verdict desired code msg), c1))
     \<and> pdc_sent c1 = pdc_sent c @ [body] \<and> set (inorder (pdcs_pending c1)) = set (inorder (pdcs_pending c))"
proof -
  let ?a = "pdc_brk c" and ?r = "\<lparr> r_tag = 0, r_notify = Getresult_Cb (pdc_brk c) \<rparr>"
  obtain t where b: "cmd_begin env desired body c = Inr (Some ?a, None, called c (fresh_call desired) t body)"
    and t: "tree_ok t" "set (inorder t) = insert ?r (set (inorder (pdcs_pending c)))"
    by (rule cmd_begin_sends [OF assms(1)])
  let ?c = "called c (fresh_call desired) t body"
  have c: "tree_ok (pdcs_pending ?c)" "?r \<in> set (inorder (pdcs_pending ?c))" "r_tag ?r = 0"
    using t by simp_all
  obtain u where tk: "take_result (plain_reply code msg) ?c =
      Inr (?c\<lparr> pdcs_pending := u, taken := Some (?r, int code, True, Inr msg) \<rparr>)"
    and u: "inorder u = filter (\<lambda>x. r_tag x \<noteq> 0) (inorder (pdcs_pending ?c))"
    by (rule take_result_plain [OF c assms(2,3), of msg])
  define g where "g = (if int code = desired then (fresh_call desired)\<lparr> grcba_code := int code \<rparr>
      else (fresh_call desired)\<lparr> grcba_code := int code, grcba_line := Some msg \<rparr>)"
  have "take 1 (plain_reply code msg) \<noteq> ''r''" unfolding plain_reply_def by (rule dec_nat_start)
  then have rd: "read_result env (plain_reply code msg) ?c =
      Inr (?c\<lparr> pdcs_pending := u, taken := None, calls := calls c @ [Notified ?r (int code) True],
               cmds := (cmds ?c)(?a \<mapsto> g), to_signal := None \<rparr>)"
    using assms(1) by (simp del: cbind_Inr add: read_result_def tk reader_notify_def notify_result_def
        getresult_cb_def mem_simps g_def got_mem_def can_call_def reader_signal_def)
  let ?d = "?c\<lparr> pdcs_pending := u, taken := None, calls := calls c @ [Notified ?r (int code) True],
               cmds := (cmds ?c)(?a \<mapsto> g), to_signal := None \<rparr>"
  have "cmd env desired body [(read_result env (plain_reply code msg), False)] c =
      Some (Inr (fst (verdict desired code msg), snd (verdict desired code msg), ?d\<lparr> cmds := (cmds ?d)(?a := None) \<rparr>))"
    by (simp del: cbind_Inr add: cmd_def b rd mem_simps g_def cmd_end_def free_cmd_def verdict_def)
  moreover have "set (inorder u) = set (inorder (pdcs_pending c))"
    using filter_no_sync [OF assms(1) t(2), of u] u by simp
  ultimately show ?thesis by (intro exI conjI) (assumption, simp_all)
qed

lemma cmd_times_out:
  assumes "can_call c"
  shows "\<exists>c1. cmd env desired body [(\<lambda>c. Inr c, True)] c = Some (Inr (False, Some (timeout_text ''cmd'' body), c1))
     \<and> can_call c1"
proof -
  let ?a = "pdc_brk c" and ?r = "\<lparr> r_tag = 0, r_notify = Getresult_Cb (pdc_brk c) \<rparr>"
  obtain t where b: "cmd_begin env desired body c = Inr (Some ?a, None, called c (fresh_call desired) t body)"
    and t: "tree_ok t" "set (inorder t) = insert ?r (set (inorder (pdcs_pending c)))"
    by (rule cmd_begin_sends [OF assms(1)])
  let ?c = "called c (fresh_call desired) t body"
  have ok: "tree_ok (pdcs_pending ?c)" "int_range 0" using t(1) by (simp_all add: int_range_def)
  from remove_pending_result [OF ok] obtain u found where
    u: "remove_pending 0 ?c = Inr (found, ?c\<lparr> pdcs_pending := u \<rparr>)" "inorder u = filter (\<lambda>r. r_tag r \<noteq> 0) (inorder t)" "tree_ok u"
    by (metis called_simps(1))
  let ?d = "?c\<lparr> pdcs_pending := u, cmds := (cmds ?c)(?a := None) \<rparr>"
  have "cmd env desired body [(\<lambda>c. Inr c, True)] c = Some (Inr (False, Some (timeout_text ''cmd'' body), ?d))"
    by (simp del: cbind_Inr add: cmd_def b mem_simps cmd_timed_out_def u(1) free_cmd_def)
  moreover have "can_call ?d"
    using assms filter_no_sync [OF assms t(2) u(2)] u(3) by (simp add: can_call_def)
  ultimately show ?thesis by blast
qed

text \<open>
  C21: a synchronous command that times out can be answered later, and the client has no means
  to know. If the next command waits when the late reply comes, the caller of that command is
  told what the reply to the first one says. If the reader had looked the first command up
  when its time ran out, the reader calls it after its call has returned, and reads freed
  memory.\<close>

theorem late_reply:
  fixes c :: "'f pdc_session" and msg :: string and code :: nat
  assumes "can_call c" and "100 \<le> code" and "code < 1000"
  defines "line \<equiv> plain_reply code msg"
  shows "\<exists>c1 c2 c3.
      cmd env d1 b1 [(\<lambda>c. Inr c, True)] c = Some (Inr (False, Some (timeout_text ''cmd'' b1), c1))
    \<and> cmd env d2 b2 [(read_result env line, False)] c1 = Some (Inr (fst (verdict d2 code msg), snd (verdict d2 code msg), c2))
    \<and> cmd env d1 b1 [(take_result line, True)] c = Some (Inr (False, Some (timeout_text ''cmd'' b1), c3))
    \<and> reader_notify env c3 = Inl Bad_Pointer"
proof -
  obtain c1 where c1: "cmd env d1 b1 [(\<lambda>c. Inr c, True)] c = Some (Inr (False, Some (timeout_text ''cmd'' b1), c1))" "can_call c1"
    using cmd_times_out [OF assms(1)] by blast
  obtain c2 where c2: "cmd env d2 b2 [(read_result env line, False)] c1 = Some (Inr (fst (verdict d2 code msg), snd (verdict d2 code msg), c2))"
    using cmd_answered [OF c1(2) assms(2,3)] unfolding line_def by blast
  let ?a = "pdc_brk c" and ?r = "\<lparr> r_tag = 0, r_notify = Getresult_Cb (pdc_brk c) \<rparr>"
  obtain t where b: "cmd_begin env d1 b1 c = Inr (Some ?a, None, called c (fresh_call d1) t b1)"
    and t: "tree_ok t" "set (inorder t) = insert ?r (set (inorder (pdcs_pending c)))"
    by (rule cmd_begin_sends [OF assms(1)])
  let ?c = "called c (fresh_call d1) t b1"
  have c: "tree_ok (pdcs_pending ?c)" "?r \<in> set (inorder (pdcs_pending ?c))" "r_tag ?r = 0" using t by simp_all
  obtain u where tk: "take_result line ?c = Inr (?c\<lparr> pdcs_pending := u, taken := Some (?r, int code, True, Inr msg) \<rparr>)"
    and u: "tree_ok u"
    unfolding line_def by (rule take_result_plain [OF c assms(2,3), of msg])
  let ?d = "?c\<lparr> pdcs_pending := u, taken := Some (?r, int code, True, Inr msg) \<rparr>"
  have ok: "tree_ok (pdcs_pending ?d)" "int_range 0" using u by (simp_all add: int_range_def)
  obtain v where v: "remove_pending 0 ?d =
      Inr (find (\<lambda>r. r_tag r = 0) (inorder (pdcs_pending ?d)), ?d\<lparr> pdcs_pending := v \<rparr>)"
    by (rule remove_pending_result [OF ok])
  let ?e = "?d\<lparr> pdcs_pending := v, cmds := (cmds ?c)(?a := None) \<rparr>"
  have "cmd env d1 b1 [(take_result line, True)] c = Some (Inr (False, Some (timeout_text ''cmd'' b1), ?e))"
    by (simp del: cbind_Inr add: cmd_def b mem_simps tk cmd_timed_out_def v free_cmd_def)
  moreover have "reader_notify env ?e = Inl Bad_Pointer"
    by (simp add: reader_notify_def notify_result_def getresult_cb_def mem_simps)
  ultimately show ?thesis using c1(1) c2 by blast
qed

section \<open>Getting a value from the server\<close>

text \<open>The first word that ends with the word value is where \<open>pdc_get\<close> begins to read.\<close>

lemma takeWhile_word: "CHR '' '' \<notin> set w \<Longrightarrow> takeWhile (\<lambda>x. x \<noteq> CHR '' '') (w @ CHR '' '' # rest) = w"
  by (induction w) auto

lemma take_value:
  assumes "CHR '' '' \<notin> set w"
  shows "take 6 (w @ CHR '' '' # rest) = ''value '' \<longleftrightarrow> w = ''value''"
proof
  assume a: "take 6 (w @ CHR '' '' # rest) = ''value ''"
  have "w @ CHR '' '' # rest = ''value '' @ drop 6 (w @ CHR '' '' # rest)"
    by (metis a append_take_drop_id)
  then have "w @ CHR '' '' # rest = ''value'' @ CHR '' '' # drop 6 (w @ CHR '' '' # rest)" by simp
  then show "w = ''value''"
    using takeWhile_word [OF assms, of rest] takeWhile_word [of "''value''" "drop 6 (w @ CHR '' '' # rest)"] by simp
qed simp

lemma strstr_word:
  assumes "CHR '' '' \<notin> set w"
  shows "strstr (w @ CHR '' '' # rest) ''value '' =
     (if suffix ''value'' w then Some (''value '' @ rest) else strstr rest ''value '')"
  using assms
proof (induction w)
  case (Cons x w)
  have "strstr ((x # w) @ CHR '' '' # rest) ''value '' =
      (if x # w = ''value'' then Some ((x # w) @ CHR '' '' # rest) else strstr (w @ CHR '' '' # rest) ''value '')"
  proof -
    have l: "length ''value '' = 6" by simp
    show ?thesis using take_value [OF Cons.prems, of rest] by (simp only: append_Cons strstr.simps l)
  qed
  moreover have "suffix ''value'' (x # w) \<longleftrightarrow> x # w = ''value'' \<or> suffix ''value'' w" by (auto simp: suffix_Cons)
  moreover have "\<not> suffix ''value'' (tl ''value'')" by (simp add: suffix_def)
  ultimately show ?case using Cons by auto
qed simp

lemma get_value_line:
  assumes "CHR '' '' \<notin> set key"
  shows "get_value (''key '' @ key @ '' value '' @ v) = Some (if suffix ''value'' key then ''value '' @ v else v)"
proof -
  have "strstr (''key '' @ key @ '' value '' @ v) ''value '' = strstr (key @ CHR '' '' # ''value '' @ v) ''value ''"
    using strstr_word [of "''key''" "key @ CHR '' '' # ''value '' @ v"] by (simp add: suffix_def)
  also have "\<dots> = (if suffix ''value'' key then Some (''value '' @ ''value '' @ v) else Some (''value '' @ v))"
    using strstr_word [OF assms, of "''value '' @ v"] by simp
  finally show ?thesis by (simp add: get_value_def)
qed

text \<open>A call of \<open>jcmd\<close> and the two lines of its reply.\<close>

definition fresh_get :: "int \<Rightarrow> jgetresult" where
  "fresh_get len = \<lparr> jgrcba_code = -1, jgrcba_reply = Some [], jgrcba_reply_len = len, jgrcba_moved = False \<rparr>"

lemma fresh_get_simps [simp]:
  "jgrcba_code (fresh_get len) = -1" "jgrcba_reply (fresh_get len) = Some []"
  by (simp_all add: fresh_get_def)

definition got_call :: "'f pdc_session \<Rightarrow> jgetresult \<Rightarrow> 'f result_t tree \<Rightarrow> string \<Rightarrow> 'f pdc_session" where
  "got_call c g t body = c\<lparr> pdcs_pending := t, pdc_brk := pdc_brk c + 1, jcmds := (jcmds c)(pdc_brk c \<mapsto> g),
     pdc_sent := pdc_sent c @ [body] \<rparr>"

lemma got_call_simps [simp]:
  "pdcs_pending (got_call c g t body) = t" "jcmds (got_call c g t body) = (jcmds c)(pdc_brk c \<mapsto> g)"
  "calls (got_call c g t body) = calls c" "pdc_mem (got_call c g t body) = pdc_mem c"
  "taken (got_call c g t body) = taken c" "to_signal (got_call c g t body) = to_signal c"
  by (simp_all add: got_call_def)

lemma jcmd_begin_sends:
  assumes "can_call c"
  obtains t where "jcmd_begin env body True len c = Inr (Some (pdc_brk c), None, got_call c (fresh_get len) t body)"
    and "tree_ok t" and "\<lparr> r_tag = 0, r_notify = Jgetresult_Cb (pdc_brk c) \<rparr> \<in> set (inorder t)"
proof -
  let ?r = "\<lparr> r_tag = 0, r_notify = Jgetresult_Cb (pdc_brk c) \<rparr>"
  let ?c = "c\<lparr> pdc_brk := pdc_brk c + 1, jcmds := (jcmds c)(pdc_brk c \<mapsto> fresh_get len) \<rparr>"
  have "tree_ok (pdcs_pending ?c)" "tag_ok ?r" "\<forall>x \<in> set (inorder (pdcs_pending ?c)). r_tag x \<noteq> r_tag ?r"
    using assms by (auto simp: can_call_def tag_ok_def)
  from add_pending_result(2) [OF this] obtain t where
    t: "add_pending ?r ?c = Inr (True, ?c\<lparr> pdc_mem := [], pdcs_pending := t \<rparr>)" "tree_ok t"
      "set (inorder t) = insert ?r (set (inorder (pdcs_pending c)))"
    using assms by (auto simp: can_call_def)
  have "jcmd_begin env body True len c = Inr (Some (pdc_brk c), None, got_call c (fresh_get len) t body)"
    using assms t(1) by (cases c) (simp del: cbind_Inr
      add: jcmd_begin_def got_mem_def pdcs_write_def can_call_def got_call_def fresh_get_def)
  with that t(2,3) show thesis by blast
qed

lemma jgetresult_cb_appends:
  assumes "jcmds c a = Some g" and "jgrcba_reply g = Some b" and "pdc_mem c = []"
  shows "\<exists>len moved. jgetresult_cb a code final (Inr l) c =
    Inr (c\<lparr> jcmds := (jcmds c)(a \<mapsto> (if final then g\<lparr> jgrcba_code := code \<rparr> else g)\<lparr> jgrcba_reply := Some (append_reply l final len b),
            jgrcba_reply_len := len, jgrcba_moved := moved \<rparr>), to_signal := (if final then Some a else to_signal c) \<rparr>)"
proof (cases "int (length l) + 1 \<le> jgrcba_reply_len g - int (length b)")
  case True
  with assms show ?thesis
    by (intro exI [of _ "jgrcba_reply_len g"] exI [of _ "jgrcba_moved g"]) (cases g, simp add: jgetresult_cb_def mem_simps)
next
  case False
  with assms show ?thesis
    by (intro exI [of _ "int (length l) + int (length b) + 100"] exI [of _ True]) (cases g, simp add: jgetresult_cb_def mem_simps got_mem_nil Let_def)
qed

lemma read_result_plain: "take 1 line \<noteq> ''r'' \<Longrightarrow> taken c = None \<Longrightarrow> take_result line c = Inr c1 \<Longrightarrow>
    read_result env line c = cbind (reader_notify env c1) reader_signal"
  by (simp add: read_result_def)

text \<open>A line that is not the last of the reply.\<close>

lemma read_part:
  assumes "tree_ok (pdcs_pending c)" and "r \<in> set (inorder (pdcs_pending c))" and "r = \<lparr> r_tag = 0, r_notify = Jgetresult_Cb a \<rparr>"
    and "jcmds c a = Some g" and "jgrcba_reply g = Some b" and "pdc_mem c = []" and "taken c = None" and "to_signal c = None"
  obtains len moved where "read_result env (''200-'' @ l) c =
    Inr (c\<lparr> taken := None, calls := calls c @ [Notified r 200 False],
            jcmds := (jcmds c)(a \<mapsto> g\<lparr> jgrcba_reply := Some (b @ map Some l @ [Some newline]),
              jgrcba_reply_len := len, jgrcba_moved := moved \<rparr>), to_signal := None \<rparr>)"
proof -
  have "int_range 0" by (simp add: int_range_def)
  then have f: "find_pending 0 c = Inr (Some r)"
    using find_pending_result [OF assms(1)] find_pending_tag [OF assms(1,2)] assms(3) by simp
  have a: "atoi (''200-'' @ l) = 200"
    by (simp add: atoi_def strtol_def is_space_def signed_value_def is_digit_def digits_value_def)
  have "result_start (''200-'' @ l) = Some (0, ''200-'' @ l)" by (simp add: result_start_def)
  then have tk: "take_result (''200-'' @ l) c = Inr (c\<lparr> taken := Some (r, 200, False, Inr l) \<rparr>)"
    using f a by (simp del: cbind_Inr add: take_result_def str_at_def)
  let ?c = "c\<lparr> taken := None, calls := calls c @ [Notified r 200 False] \<rparr>"
  have g: "jcmds ?c a = Some g" "pdc_mem ?c = []" using assms(4,6) by simp_all
  obtain len moved where j: "jgetresult_cb a 200 False (Inr l) ?c =
      Inr (?c\<lparr> jcmds := (jcmds ?c)(a \<mapsto> g\<lparr> jgrcba_reply := Some (append_reply l False len b),
            jgrcba_reply_len := len, jgrcba_moved := moved \<rparr>), to_signal := to_signal ?c \<rparr>)"
    using jgetresult_cb_appends [OF g(1) assms(5) g(2), of 200 False l] by auto
  have "read_result env (''200-'' @ l) c =
    Inr (c\<lparr> taken := None, calls := calls c @ [Notified r 200 False],
            jcmds := (jcmds c)(a \<mapsto> g\<lparr> jgrcba_reply := Some (b @ map Some l @ [Some newline]),
              jgrcba_reply_len := len, jgrcba_moved := moved \<rparr>), to_signal := None \<rparr>)"
    using tk j assms(3,8) by (simp del: cbind_Inr
      add: read_result_def reader_notify_def notify_result_def reader_signal_def append_reply_def)
  with that show thesis by blast
qed

text \<open>The last line.\<close>

lemma read_last:
  assumes "tree_ok (pdcs_pending c)" and "r \<in> set (inorder (pdcs_pending c))" and "r = \<lparr> r_tag = 0, r_notify = Jgetresult_Cb a \<rparr>"
    and "jcmds c a = Some g" and "jgrcba_reply g = Some b" and "pdc_mem c = []"
  obtains t x len moved where "read_result env (plain_reply 200 l) c =
    Inr (c\<lparr> pdcs_pending := t, taken := None, calls := calls c @ [Notified r 200 True],
            jcmds := (jcmds c)(a \<mapsto> g\<lparr> jgrcba_code := 200, jgrcba_reply := Some (b @ map Some l @ [x]),
              jgrcba_reply_len := len, jgrcba_moved := moved \<rparr>), to_signal := None \<rparr>)"
proof -
  have tag: "r_tag r = 0" using assms(3) by simp
  have codes: "100 \<le> (200 :: nat)" "(200 :: nat) < 1000" by simp_all
  obtain t where tk: "take_result (plain_reply 200 l) c =
      Inr (c\<lparr> pdcs_pending := t, taken := Some (r, int 200, True, Inr l) \<rparr>)"
    by (rule take_result_plain [OF assms(1,2) tag codes, of l])
  let ?c = "c\<lparr> pdcs_pending := t, taken := None, calls := calls c @ [Notified r 200 True] \<rparr>"
  have g: "jcmds ?c a = Some g" "pdc_mem ?c = []" using assms(4,6) by simp_all
  obtain len moved where j: "jgetresult_cb a 200 True (Inr l) ?c =
      Inr (?c\<lparr> jcmds := (jcmds ?c)(a \<mapsto> g\<lparr> jgrcba_code := 200, jgrcba_reply := Some (append_reply l True len b),
            jgrcba_reply_len := len, jgrcba_moved := moved \<rparr>), to_signal := Some a \<rparr>)"
    using jgetresult_cb_appends [OF g(1) assms(5) g(2), of 200 True l] by auto
  obtain x where x: "append_reply l True len b = b @ map Some l @ [x]" by (simp add: append_reply_def)
  have "take 1 (plain_reply 200 l) \<noteq> ''r''" unfolding plain_reply_def by (rule dec_nat_start)
  then have "read_result env (plain_reply 200 l) c =
    Inr (c\<lparr> pdcs_pending := t, taken := None, calls := calls c @ [Notified r 200 True],
            jcmds := (jcmds c)(a \<mapsto> g\<lparr> jgrcba_code := 200, jgrcba_reply := Some (b @ map Some l @ [x]),
              jgrcba_reply_len := len, jgrcba_moved := moved \<rparr>), to_signal := None \<rparr>)"
    using tk j assms(3) by (simp del: cbind_Inr
      add: read_result_def reader_notify_def notify_result_def reader_signal_def x)
  with that show thesis by blast
qed

lemma buffer_until_plain:
  "(\<forall>x \<in> set l. \<not> P x) \<Longrightarrow> P y \<Longrightarrow> buffer_until P (map Some l @ Some y # rest) = Inr l"
  by (induction l) simp_all

lemma jcmd_reply:
  assumes "can_call c"
  shows "\<exists>c1 rest. jcmd env body 200 True len [(each (read_result env) [''200-'' @ l, plain_reply 200 m], False)] c =
      Some (Inr (True, None, Inr (Some (map Some l @ Some newline # rest)), c1)) \<and> pdc_mem c1 = []"
proof -
  let ?a = "pdc_brk c" and ?r = "\<lparr> r_tag = 0, r_notify = Jgetresult_Cb (pdc_brk c) \<rparr>"
  obtain t where b: "jcmd_begin env body True len c = Inr (Some ?a, None, got_call c (fresh_get len) t body)"
    and t: "tree_ok t" "?r \<in> set (inorder t)"
    by (rule jcmd_begin_sends [OF assms])
  define c1 where "c1 = got_call c (fresh_get len) t body"
  have c1: "tree_ok (pdcs_pending c1)" "?r \<in> set (inorder (pdcs_pending c1))" "?r = ?r" "jcmds c1 ?a = Some (fresh_get len)"
    "jgrcba_reply (fresh_get len) = Some []" "pdc_mem c1 = []" "taken c1 = None" "to_signal c1 = None"
    using t assms by (simp_all add: c1_def can_call_def)
  obtain n1 v1 where r1: "read_result env (''200-'' @ l) c1 =
    Inr (c1\<lparr> taken := None, calls := calls c1 @ [Notified ?r 200 False],
            jcmds := (jcmds c1)(?a \<mapsto> (fresh_get len)\<lparr> jgrcba_reply := Some ([] @ map Some l @ [Some newline]),
              jgrcba_reply_len := n1, jgrcba_moved := v1 \<rparr>), to_signal := None \<rparr>)"
    by (rule read_part [OF c1])
  define g where "g = (fresh_get len)\<lparr> jgrcba_reply := Some ([] @ map Some l @ [Some newline]),
      jgrcba_reply_len := n1, jgrcba_moved := v1 \<rparr>"
  define c2 where "c2 = c1\<lparr> taken := None, calls := calls c1 @ [Notified ?r 200 False],
      jcmds := (jcmds c1)(?a \<mapsto> g), to_signal := None \<rparr>"
  have c2: "tree_ok (pdcs_pending c2)" "?r \<in> set (inorder (pdcs_pending c2))" "?r = ?r" "jcmds c2 ?a = Some g"
    "jgrcba_reply g = Some (map Some l @ [Some newline])" "pdc_mem c2 = []"
    using c1 by (simp_all add: c2_def g_def)
  obtain t3 x n2 v2 where r2: "read_result env (plain_reply 200 m) c2 =
    Inr (c2\<lparr> pdcs_pending := t3, taken := None, calls := calls c2 @ [Notified ?r 200 True],
            jcmds := (jcmds c2)(?a \<mapsto> g\<lparr> jgrcba_code := 200,
              jgrcba_reply := Some ((map Some l @ [Some newline]) @ map Some m @ [x]),
              jgrcba_reply_len := n2, jgrcba_moved := v2 \<rparr>), to_signal := None \<rparr>)"
    by (rule read_last [OF c2])
  define h where "h = g\<lparr> jgrcba_code := 200, jgrcba_reply := Some (map Some l @ Some newline # map Some m @ [x]),
      jgrcba_reply_len := n2, jgrcba_moved := v2 \<rparr>"
  define c3 where "c3 = c2\<lparr> pdcs_pending := t3, taken := None, calls := calls c2 @ [Notified ?r 200 True],
      jcmds := (jcmds c2)(?a \<mapsto> h), to_signal := None \<rparr>"
  have w: "each (read_result env) [''200-'' @ l, plain_reply 200 m] c1 = Inr c3"
    by (simp del: cbind_Inr append_Cons add: r1 [folded g_def, folded c2_def] r2) (simp add: c3_def h_def)
  have c3: "jcmds c3 ?a = Some h" "jgrcba_code h = 200" "jgrcba_reply h = Some (map Some l @ Some newline # map Some m @ [x])"
    "pdc_mem c3 = []" using c2(6) by (simp_all add: c3_def h_def)
  have "jcmd_loop body 200 ?a [] c3 =
      Some (Inr (True, None, Inr (Some (map Some l @ Some newline # map Some m @ [x])), c3\<lparr> jcmds := (jcmds c3)(?a := None) \<rparr>))"
    using c3 by (simp del: cbind_Inr add: mem_simps jcmd_finish_def free_jcmd_def)
  then have "jcmd env body 200 True len [(each (read_result env) [''200-'' @ l, plain_reply 200 m], False)] c =
      Some (Inr (True, None, Inr (Some (map Some l @ Some newline # map Some m @ [x])), c3\<lparr> jcmds := (jcmds c3)(?a := None) \<rparr>))"
    unfolding jcmd_def b by (simp del: cbind_Inr each.simps append_Cons add: w mem_simps c1(4) flip: c1_def)
  then show ?thesis using c3(4) by (intro exI conjI) (assumption, simp)
qed

lemma line_of_eol: "plain_text s \<Longrightarrow> is_eol e \<Longrightarrow> line_of (s @ [e]) = s"
proof -
  assume a: "plain_text s" and "is_eol e"
  then have "takeWhile (\<lambda>c. \<not> is_eol c) (s @ [e]) = s"
    by (auto simp: plain_text_def is_eol_def takeWhile_append)
  moreover have "takeWhile (\<lambda>c. c \<noteq> carriage_return) s = s"
    using a by (auto simp: plain_text_def takeWhile_eq_all_conv)
  ultimately show ?thesis by (simp add: line_of_def)
qed

lemma unescape_value: "unescape [] (''value '' @ concat (map (escape_char False) v)) = Inr (Some (''value '' @ v), [])"
proof -
  have "unescape_loop (''value '' @ concat (map (escape_char False) v)) = Inr (''value '' @ v)"
    by (simp add: unescape_loop_escape)
  from unescape_loop_length [OF this] this show ?thesis by (simp add: unescape_def store_def)
qed

lemma done_reply: "plain_reply 200 ''done'' = ''200 done''"
  by (simp add: plain_reply_def dec_nat.simps char_of_def bit_0)

text \<open>
  C19: \<open>pdc_get\<close> and the server agree on the values of a dictionary: what the server prints
  for a key that holds the escaped text of a value, the client turns back into the value, cut
  to the size of the caller's buffer, however small the buffer for the reply was. There is one
  exception: for a key that ends with the letters value, the result begins with the word value
  and a space.\<close>

theorem pdc_get_roundtrip:
  fixes c :: "'f pdc_session"
  assumes "sessions (sv_srv sv) i = Some p" and "pdss_write p" and "sv_mem sv = []"
    and "plain_text key" and "CHR '' '' \<notin> set key"
    and "nul_free v" and "escape [] v (length v) = Inr (Some d, [])"
    and "can_call c" and "0 < vallen"
  shows "\<exists>sv1 p1 l1 l2 c1.
      cbind (each (print_wa_list i None) [(key, c_str d)] sv) (reply i None ''200 done'') = Inr sv1
    \<and> sessions (sv_srv sv1) i = Some p1 \<and> sent p1 = sent p @ [l1, l2]
    \<and> pdc_get env pat vallen [(each (read_result env) [line_of l1, line_of l2], False)] c =
        Some (Inr (1, Some (take (vallen - 1) (if suffix ''value'' key then ''value '' @ v else v)), None, c1))"
proof -
  let ?l = "''key '' @ key @ '' value '' @ c_str d" and ?e = "if pdss_client_cr_null p then NUL else newline"
  let ?v = "if suffix ''value'' key then ''value '' @ v else v"
  have e: "c_str d = concat (map (escape_char False) v)" by (rule escaped_text [OF assms(6,7)])
  have pl: "plain_text (''200-'' @ ?l)" "plain_text (''200 done'')" using assms(4) plain_text_escape [of v] e by simp_all
  have eol: "is_eol ?e" by (simp add: is_eol_def)
  obtain sv1 p1 where sv1: "cbind (each (print_wa_list i None) [(key, c_str d)] sv) (reply i None ''200 done'') = Inr sv1"
      "sessions (sv_srv sv1) i = Some p1" "sent p1 = sent p @ [(''200-'' @ ?l) @ [?e], ''200 done'' @ [?e]]"
    using assms(1-3) by (simp add: print_wa_list_def reply_def on_env_def env_of_def set_env_def
        result_live ServerProps.reply_line_def tagged_def)
  have lines: "line_of ((''200-'' @ ?l) @ [?e]) = ''200-'' @ ?l" "line_of (''200 done'' @ [?e]) = plain_reply 200 ''done''"
    using line_of_eol [OF pl(1) eol] line_of_eol [OF pl(2) eol] by (simp_all only: done_reply)
  have nil: "pdc_mem c = []" using assms(8) by (simp add: can_call_def)
  obtain c1 rest where j: "jcmd env (''get '' @ pat @ [newline]) 200 True (int vallen + 30)
        [(each (read_result env) [''200-'' @ ?l, plain_reply 200 ''done''], False)] c =
      Some (Inr (True, None, Inr (Some (map Some ?l @ Some newline # rest)), c1))" and m1: "pdc_mem c1 = []"
    using jcmd_reply [OF assms(8)] by blast
  have "\<forall>x \<in> set ?l. \<not> is_eol x" using pl(1) by (auto simp: plain_text_def is_eol_def)
  moreover have "is_eol newline" by (simp add: is_eol_def)
  ultimately have bu: "buffer_until is_eol (map Some ?l @ Some newline # rest) = Inr ?l"
    by (rule buffer_until_plain)
  have gv: "get_value ?l = Some (if suffix ''value'' key then ''value '' @ c_str d else c_str d)"
    by (rule get_value_line [OF assms(5)])
  have un: "unescape [] (if suffix ''value'' key then ''value '' @ c_str d else c_str d) = Inr (Some ?v, [])"
    using unescape_value [of v] unescape_escaped [of v] by (simp add: e)
  have nf: "c_str ?v = ?v" using assms(6) by simp
  have "pdc_get env pat vallen [(each (read_result env) [''200-'' @ ?l, plain_reply 200 ''done''], False)] c =
      Some (Inr (1, Some (take (vallen - 1) ?v), None, c1\<lparr> pdc_mem := [] \<rparr>))"
    unfolding pdc_get_def Let_def got_mem_nil [OF nil] prod.case j
    using assms(9) bu gv un nf m1 j by simp
  then have "pdc_get env pat vallen [(each (read_result env) [line_of ((''200-'' @ ?l) @ [?e]), line_of (''200 done'' @ [?e])], False)] c =
      Some (Inr (1, Some (take (vallen - 1) ?v), None, c1\<lparr> pdc_mem := [] \<rparr>))"
    by (simp only: lines)
  with sv1 show ?thesis by blast
qed

section \<open>Cleaning up\<close>

text \<open>What a search finds whose comparison never goes right.\<close>

fun left_spine :: "'x tree \<Rightarrow> 'x list" where
  "left_spine Leaf = []"
| "left_spine (Node l x r) = x # left_spine l"

lemma arg_pending_spine: "arg_pending arg c = Inr (\<exists>r \<in> set (left_spine (pdcs_pending c)). of_arg arg r)"
proof -
  have "tr_find (\<lambda>_ r. Inr (async_pending_cmp arg r)) k t = Inr (find (of_arg arg) (left_spine t))" for k and t :: "'a result_t tree"
    by (induction t) (simp_all add: async_pending_cmp_def)
  moreover have "(find (of_arg arg) xs \<noteq> None) = (\<exists>r \<in> set xs. of_arg arg r)" for xs :: "'a result_t list"
    by (auto simp: find_None_iff)
  ultimately show ?thesis by (simp add: arg_pending_def)
qed

lemma put_largest:
  assumes "tag_ok v" and "\<forall>x \<in> set (inorder (Node l r u)). tag_ok x \<and> r_tag x < r_tag v"
  shows "\<exists>u'. tr_put (\<lambda>x y. Inr (tagcmp x y)) v (Node l r u) = Inr (Node l r u')"
  using assms(2)
proof (induction u arbitrary: l r)
  case Leaf
  then have "tagcmp v r > 0" using tags.cmp_pos [OF assms(1), of r] by simp
  then show ?case by simp
next
  case (Node ul x ur)
  then have "tagcmp v r > 0" using tags.cmp_pos [OF assms(1), of r] by simp
  moreover obtain w where "tr_put (\<lambda>x y. Inr (tagcmp x y)) v (Node ul x ur) = Inr (Node ul x w)"
    using Node.IH(2) [of ul x] Node.prems by auto
  ultimately show ?case by simp
qed

text \<open>
  C23: \<open>cleanup_pending\<close> looks for commands of an object with a comparison the tree is not
  ordered by. Tags increase, so a new command goes to the far right of the tree: unless it is
  the only one, it is not seen, and the function returns at once. The command stays pending,
  and its reply is still delivered to the object that is being freed.\<close>

theorem cleanup_misses:
  fixes c :: "'f pdc_session"
  assumes "client_ok c" and "pdc_mem c = []" and "pdc_writes c = []"
    and "pdcs_pending c \<noteq> Leaf" and "\<forall>r \<in> set (left_spine (pdcs_pending c)). \<not> of_arg a r"
  shows "\<exists>c1. async_cmd env desired body err a c = Inr c1
     \<and> \<lparr> r_tag = async_tag c, r_notify = Async_Cmd_Cb desired err a \<rparr> \<in> set (inorder (pdcs_pending c1))
     \<and> cleanup_pending env a ws c1 = Some (Inr c1)"
proof -
  let ?r = "\<lparr> r_tag = async_tag c, r_notify = Async_Cmd_Cb desired err a \<rparr>"
  let ?c = "c\<lparr> async_tag := int32 (async_tag c + 1) \<rparr>"
  obtain l x u where t: "pdcs_pending c = Node l x u" using assms(4) by (cases "pdcs_pending c") auto
  have ok: "tag_ok ?r" "tree_ok (Node l x u)" using assms(1) t by (auto simp: client_ok_def tag_ok_def)
  have lt: "\<forall>y \<in> set (inorder (Node l x u)). tag_ok y \<and> r_tag y < r_tag ?r"
    using assms(1) t by (simp add: client_ok_def tree_ok_def)
  obtain u' where put: "tr_put (\<lambda>x y. Inr (tagcmp x y)) ?r (Node l x u) = Inr (Node l x u')"
    using put_largest [OF ok(1) lt] by blast
  have find: "tr_find (\<lambda>x y. Inr (tagcmp x y)) ?r (Node l x u) = Inr None"
  proof -
    have "find (\<lambda>y. r_tag y = r_tag ?r) (inorder (Node l x u)) = None"
      unfolding find_None_iff using lt by (metis less_irrefl)
    then show ?thesis
      using tags.tr_find_key [OF ok(1), of "Node l x u" "\<lambda>x y. Inr (tagcmp x y)"] ok(2)
      by (simp add: tree_ok_def del: inorder.simps tr_find.simps)
  qed
  define c1 where "c1 = c\<lparr> async_tag := int32 (async_tag c + 1), pdcs_pending := Node l x u',
      pdc_sent := pdc_sent c @ [CHR ''T'' # dec_int (async_tag c) @ '' '' @ body] \<rparr>"
  have add: "add_pending ?r ?c = Inr (True, ?c\<lparr> pdc_mem := [], pdcs_pending := Node l x u' \<rparr>)"
    using put find by (simp del: cbind_Inr tr_put.simps tr_find.simps add: add_pending_def tr_replace_def t assms(2))
  have send: "async_cmd env desired body err a c = Inr c1"
    using assms(2,3) add by (cases c) (simp del: cbind_Inr
      add: c1_def async_cmd_def async_cmd_callback_def async_text_def async_send_def got_mem_def pdcs_write_def)
  have "?r \<in> set (inorder (Node l x u'))"
    using tags.tr_put_key [OF ok(1), of "Node l x u" "\<lambda>x y. Inr (tagcmp x y)"] put ok(2)
    by (simp add: tree_ok_def del: inorder.simps tr_put.simps)
  moreover have "arg_pending a c1 = Inr False" unfolding arg_pending_spine using assms(5) t by (simp add: c1_def)
  then have "wait_while (arg_pending a) ws 50 c1 = Some (Inr (50, c1))" by (cases ws) simp_all
  ultimately show ?thesis using send by (intro exI [of _ c1]) (simp add: cleanup_pending_def c1_def)
qed

section \<open>Instances\<close>

lemma sample_can_call: "can_call sample_client"
  using sample_client_ok by (simp add: can_call_def client_ok_def)

theorem late_reply_witness:
  "\<exists>c1 c2. cmd sample_env 200 ''flush'' [(\<lambda>c. Inr c, True)] sample_client =
       Some (Inr (False, Some (timeout_text ''cmd'' ''flush''), c1))
     \<and> cmd sample_env 200 ''ignore lid1'' [(read_result sample_env (plain_reply 200 ''glug glug''), False)] c1 =
       Some (Inr (True, None, c2))"
proof -
  have "100 \<le> (200 :: nat)" "(200 :: nat) < 1000" by simp_all
  from late_reply [OF sample_can_call this, of sample_env 200 "''flush''" 200 "''ignore lid1''" "''glug glug''"]
  show ?thesis by (auto simp: verdict_def)
qed

definition sample_server :: "unit server" where
  "sample_server = \<lparr> sv_pd = \<lparr> pd_ents = [], pd_persistent_listeners = [], lid = 1 \<rparr>, sv_mem = [], sv_srv = sample_srv ''l1'' \<rparr>"

theorem pdc_get_roundtrip_witness:
  "\<exists>l1 l2 c1. pdc_get sample_env ''k'' 4 [(each (read_result sample_env) [line_of l1, line_of l2], False)] sample_client =
     Some (Inr (1, Some ''a b'', None, c1))"
proof -
  have e: "escape [] ''a b c'' (length ''a b c'') = Inr (Some (concat (map (escape_char False) ''a b c'') @ [NUL]), [])"
    by (rule escape_result) simp
  have s: "sessions (sv_srv sample_server) 1 = Some sample_session" "pdss_write sample_session" "sv_mem sample_server = []"
    by (simp_all add: sample_server_def sample_srv_def sample_session_def)
  have k: "plain_text ''k''" "CHR '' '' \<notin> set ''k''" "nul_free ''a b c''" "0 < (4 :: nat)" by simp_all
  have "\<not> suffix ''value'' ''k''" by (auto simp: suffix_def)
  then have "take (4 - 1) (if suffix ''value'' ''k'' then ''value '' @ ''a b c'' else ''a b c'') = ''a b''" by simp
  with pdc_get_roundtrip [OF s k(1-3) e sample_can_call k(4), of sample_env "''k''"] show ?thesis by auto
qed

theorem cleanup_misses_witness:
  "\<exists>c1. cleanup_pending sample_env 4 [] c1 = Some (Inr c1)
     \<and> \<lparr> r_tag = 2, r_notify = Async_Cmd_Cb 200 (Some (7 :: nat)) 4 \<rparr> \<in> set (inorder (pdcs_pending c1))"
proof -
  let ?c = "sample_client\<lparr> async_tag := 2, pdcs_pending := Node Leaf \<lparr> r_tag = 1, r_notify = Async_Cmd_Cb 200 (Some 7) 3 \<rparr> Leaf \<rparr>"
  have "client_ok ?c" "pdc_mem ?c = []" "pdc_writes ?c = []" "pdcs_pending ?c \<noteq> Leaf"
      "\<forall>r \<in> set (left_spine (pdcs_pending ?c)). \<not> of_arg 4 r" "async_tag ?c = 2"
    using sample_client_ok by (simp_all add: client_ok_def tree_ok_def tag_ok_def of_arg_def)
  with cleanup_misses [of ?c 4 sample_env 200 "''x''" "Some 7" "[]"] show ?thesis by (auto simp del: set_inorder)
qed

end
