(* ===== verification/Spec2Isabelle.thy ===== *)
theory Spec2Isabelle
  imports IfkitOutputs HexArray CList PTreeWalk TreeShape PList LineIO PDictProps ServerProps DeviceTable Label GPP LifeProps RfidStream RfidAttach ClientRuns ClientCalls
begin

text \<open>
  Verification library for the sensor stack of the CTD+ server (repository RPi-CTD-Server): the Phidget
  device library \<open>src/libphidget-2.1.8.20150410\<close> in C and the dictionary server of its web service. File
  names below are relative to that directory.

  \<^bold>\<open>The program.\<close> A program opens handles for sensor boards (\<open>cphidget.c\<close>). A central thread
  (\<open>cthread.c\<close>) scans the USB bus (\<open>linux/cusblinux-1.0.c\<close>) with the tables of supported devices
  (\<open>cphidgetconstants.c\<close>) and attaches what it finds; managers (\<open>cphidgetmanager.c\<close>) are told.
  Per attached board a read and a write thread move packets between USB and the code of the device class,
  here the interface kit (\<open>cphidgetinterfacekit.c\<close>) the CTD sensors are wired to and the RFID
  reader (\<open>cphidgetrfid.c\<close>). Configuration tables, labels and firmware go through the general packet
  protocol. Remote programs see the boards as keys of a dictionary (\<open>dict/pdict.c\<close>) that a server
  (\<open>pdictserver.c\<close>) offers over a line protocol, and whose client (\<open>pdictclient.c\<close>) they link; both rest on
  trees, lists, line input and text encodings (\<open>utils\<close>).

  \<^bold>\<open>Theories and code.\<close>
  \<^item> \<open>Prelude\<close>: return codes, results with faults (\<open>'a cres\<close>), allocation, C strings; the interfaces
    \<open>key_compare\<close> (a comparison that follows a key), \<open>machine\<close> (steps that keep an invariant) and
    \<open>codec\<close> (decoding undoes encoding). They are interpreted by \<open>strcmp\<close>, \<open>pdecmp\<close>, \<open>ipmcmp\<close>, \<open>tagcmp\<close> and \<open>lcmp\<close>;
    by the device life cycle, the interface kit and the RFID tag thread; by escaping, decimal
    numbers and the reasons of the protocol.
  \<^item> \<open>Codec\<close>, \<open>HexArray\<close>, \<open>Decimal\<close>, \<open>LineIO\<close>: \<open>utils/utils.c\<close>; escaping, hexadecimal arrays,
    numbers of the C library, reading lines and writing to sockets.
  \<^item> \<open>CList\<close>: \<open>cphidgetlist.c\<close>. \<open>PList\<close>: \<open>utils/plist.c\<close>. \<open>PTree\<close>, \<open>PTreeWalk\<close>, \<open>TreeShape\<close>:
    \<open>utils/ptree.c\<close>. Pointers are addresses in an explicit heap, freed cells are faults; the routines are
    shown to implement sequences, association lists and sorted maps.
  \<^item> \<open>PDict\<close>, \<open>PDictProps\<close>: \<open>dict/pdict.c\<close> on the abstract sequences the tree and list theories
    justify, with the reachable dictionaries as an inductive predicate over its operations (\<open>dict_reach\<close>). \<open>PDictServer\<close>, \<open>PDictSession\<close>, \<open>ServerProps\<close>: \<open>pdictserver.c\<close>.
  \<^item> \<open>PDictClient\<close>: \<open>dict/pdictclient.c\<close>. \<open>ClientProps\<close> has the matching of replies and the way of a value from the
    server's report to the listener, \<open>ClientRuns\<close> the interleavings of the threads of a client, \<open>ClientCalls\<close> the
    calls that wait for their reply, time-outs and getting a value from the server.
  \<^item> \<open>DeviceTable\<close>: \<open>cphidgetconstants.c\<close>, \<open>cphidgetattr.h\<close>. \<open>Device\<close>: the handle and
    its getters (\<open>cphidget.c\<close>). \<open>Label\<close>, \<open>GPP\<close>: labels, configuration tables, firmware. \<open>Usb\<close>,
    \<open>UsbDevices\<close>: \<open>linux/cusblinux-1.0.c\<close>. \<open>DeviceLife\<close>, \<open>DeviceManager\<close>, \<open>LifeProps\<close>:
    opening, closing, attaching, detaching, managers. \<open>Traffic\<close>: \<open>CPhidget_read\<close>,
    \<open>CPhidget_write\<close> and the rounds of the two threads.
  \<^item> \<open>InterfaceKit\<close>, \<open>IfkitProps\<close>, \<open>IfkitOutputs\<close>: \<open>cphidgetinterfacekit.c\<close>.
  \<^item> \<open>RfidCode\<close>: the tag encoders and decoders of \<open>cphidgetrfid.c\<close>, with their round trips in
    \<open>RfidCodeProps\<close> (EM4100), \<open>RfidTagProps\<close> (checksum and bit reversal), \<open>RfidFdxProps\<close> (FDX-B)
    and \<open>RfidPhidgetsProps\<close>. \<open>RfidLine\<close>: pulses, the Manchester and biphase decoders and
    \<open>analyze_data\<close>, with \<open>RfidLineProps\<close> and \<open>RfidStream\<close> (from the pulses of a tag to its report).
  \<^item> \<open>Rfid\<close>: the rest of \<open>cphidgetrfid.c\<close>: packets both ways, \<open>tagEvent\<close> and the thread that
    reports tags (\<open>tagTimer_step\<close>, from lock to lock), attaching, \<open>writeRaw\<close>, T5577 tags, the exported functions. \<open>RfidEvents\<close>
    has the interleavings of the two threads, \<open>RfidWriting\<close> what is sent and the bounds of packets, \<open>RfidAttach\<close>
    the initialisation on top of \<open>CPhidget_read\<close>.

  \<^bold>\<open>Conventions.\<close> A struct is a record, an enumeration a datatype or its number, a w-bit integer a word where
  wrap-around matters and an \<open>int\<close> or \<open>nat\<close> elsewhere. A NULL argument is \<open>None\<close>, or a boolean for a
  result pointer. A read or write outside an object, a use after free, a division by zero, a failed assertion, a wait that nobody ends is
  \<open>Inl\<close> of a fault, so that a theorem about a result \<open>Inr\<close> also says that none of these happens. Results of system
  calls, of threads and of waits are inputs: lists of coming outcomes. An operation runs while it holds
  the locks of the code; where the code unlocks in the middle, what others do meanwhile is an argument or
  a step of its own. Threads that wait for each other's locks for ever are therefore not seen. User callbacks are events in a log; they do not call the
  dictionary or the device they are called from. A plain \<open>char\<close> is unsigned, as on the ARM boards the server runs on, and the
  32-bit size of a line buffer does not overflow (lines below a gigabyte).

  \<^bold>\<open>What the lemmas show.\<close> For the containers: refinement of their abstract counterparts, no access to freed
  memory, termination. For the texts: round trips, and exactly when a buffer is left. For the dictionary:
  what every reachable dictionary has of its listeners, under any memory, and when these are exactly the matching ones
  (a client that does not register one listener twice), exactly when adding fails or is undefined, and what a failure leaves changed. For the server: merging and reporting of notifications.
  For the client: every asynchronous command is answered exactly once in any interleaving, by the reply under its tag or by the end of the
  session; values reported or fetched are those the server holds; the races and the late replies that the locks do not exclude. For the devices: one handle per interface in
  every reachable state, outputs that arrive and the board where they do not, readings in range, when a rate divides by zero, configuration and firmware that arrive complete.
  For RFID: every tag text that can be programmed is read back, and found in the stream of pulses however
  packets cut it; every tag taken as new is reported once and in order, however reading and reporting interleave; bits
  and lengths to be written arrive as asked for. Where the code departs from what it means to do, the theorem states what it does.

  \<^bold>\<open>Bounds and fuel.\<close> Loops are structural, or have a measure with their termination proof (positions in the
  1024-byte rings decrease their distance to the end, \<open>analyze_data\<close> by the pulses left). Pointer loops and
  \<open>doubles_to\<close> may fail to end and are \<open>partial_function (option)\<close>; their totality is part of the theorems. No
  fuel is used.

  \<^bold>\<open>Not modelled.\<close> The other device classes (the same pattern as the interface kit, one file each), the
  connections to a web service with the table of its keys (\<open>csocketopen.c\<close>, \<open>csocketevents.c\<close>) and the callbacks of the web service (\<open>eventhandlers.c\<close>) are left for
  want of time, not of means; they would follow the device theories and \<open>PDictClient\<close>.
  A client function that is given no session returns at once, and its logging is left out. The HITAG and raw
  data parts of the RFID reader are compiled only into a debugging build. Service discovery and logging are calls to
  the system. MD5, Unicode conversion, DNS-SD and JNI headers are third-party code; \<open>regcomp\<close>, \<open>regexec\<close> and
  \<open>iconv\<close> are parameters. The Java and LabVIEW bindings convert arguments.
\<close>

end
